(* ===== verification/Prelude.thy ===== *)
theory Prelude
  imports Main "HOL-Library.Word" "HOL-Library.AList"
begin

text \<open>
  Shared vocabulary of the development: names for the machine types the Rust code uses, its
  saturating arithmetic, the effect of indexed writes on lists, and the generic byte-driven
  machine that the escape-sequence parser instantiates.

  Bytes, style flags and mode words keep their width (\<open>8 word\<close>, \<open>16 word\<close>,
  \<open>32 word\<close>).  Screen geometry (\<open>u16\<close> columns, rows, parameters) and \<open>usize\<close>
  counters are natural numbers; where the code saturates, the saturation is written out.
  Rust's \<open>saturating_sub\<close> on an unsigned value is exactly subtraction on \<open>nat\<close>.
\<close>

type_synonym u8 = "8 word"
type_synonym flags16 = "16 word"
type_synonym modes32 = "32 word"

text \<open>A Rust \<open>String\<close> or \<open>str\<close> is the list of its UTF-8 bytes.\<close>

type_synonym rstring = "u8 list"

definition U16_MAX :: nat where "U16_MAX = 65535"
definition U32_MAX :: nat where "U32_MAX = 4294967295"
definition USIZE_MAX :: nat where "USIZE_MAX = 18446744073709551615"

text \<open>\<open>u16::saturating_add\<close>, \<open>u16::saturating_mul\<close> and their wider siblings.\<close>

definition sat_add16 :: "nat \<Rightarrow> nat \<Rightarrow> nat" where
  "sat_add16 a b = min U16_MAX (a + b)"

definition sat_mul16 :: "nat \<Rightarrow> nat \<Rightarrow> nat" where
  "sat_mul16 a b = min U16_MAX (a * b)"

definition sat_add32 :: "nat \<Rightarrow> nat \<Rightarrow> nat" where
  "sat_add32 a b = min U32_MAX (a + b)"

definition sat_add_usize :: "nat \<Rightarrow> nat \<Rightarrow> nat" where
  "sat_add_usize a b = min USIZE_MAX (a + b)"

text \<open>Truncating casts \<open>as u8\<close> and \<open>as u16\<close> of an unsigned value.\<close>

definition as_u8 :: "nat \<Rightarrow> u8" where
  "as_u8 n = of_nat n"

named_theorems sat_defs \<open>definitions of the saturating operations\<close>

lemmas [sat_defs] = sat_add16_def sat_mul16_def sat_add32_def sat_add_usize_def
  U16_MAX_def U32_MAX_def USIZE_MAX_def

lemma sat_add16_le: "sat_add16 a b \<le> U16_MAX"
  by (simp add: sat_add16_def)

lemma sat_add16_exact: "a + b \<le> U16_MAX \<Longrightarrow> sat_add16 a b = a + b"
  by (simp add: sat_add16_def)

lemma sat_add16_ge: "a \<le> U16_MAX \<Longrightarrow> a \<le> sat_add16 a b"
  by (simp add: sat_add16_def)

subsection \<open>Bytes as numbers\<close>

lemma u8_cases_lt: "unat (b::u8) < 256"
  using unsigned_less [of b] by simp

lemma unat_of_nat_u8 [simp]: "n < 256 \<Longrightarrow> unat (of_nat n :: u8) = n"
  by (simp add: unat_of_nat take_bit_eq_mod)

lemma unat_as_u8 [simp]: "n < 256 \<Longrightarrow> unat (as_u8 n) = n"
  by (simp add: as_u8_def)

lemma as_u8_unat [simp]: "as_u8 (unat b) = b"
  by (simp add: as_u8_def)

lemma of_nat_u8_eq_iff: "m < 256 \<Longrightarrow> n < 256 \<Longrightarrow> (of_nat m :: u8) = of_nat n \<longleftrightarrow> m = n"
  by (metis unat_of_nat_u8)

lemma of_nat_u8_le_iff: "m < 256 \<Longrightarrow> n < 256 \<Longrightarrow> (of_nat m :: u8) \<le> of_nat n \<longleftrightarrow> m \<le> n"
  by (simp add: word_le_nat_alt)

text \<open>\<open>in_range lo hi b\<close> is the Rust pattern \<open>lo..=hi\<close>.\<close>

definition in_range :: "u8 \<Rightarrow> u8 \<Rightarrow> u8 \<Rightarrow> bool" where
  "in_range lo hi b \<longleftrightarrow> lo \<le> b \<and> b \<le> hi"

subsection \<open>Block writes on lists\<close>

text \<open>\<open>splice i ys xs\<close> overwrites \<open>xs\<close> from index \<open>i\<close> on with \<open>ys\<close>, as
  \<open>xs[i..i + n].copy_from_slice(ys)\<close> does; writes past the end of \<open>xs\<close> are dropped
  (the callers prove they do not happen).\<close>

definition splice :: "nat \<Rightarrow> 'a list \<Rightarrow> 'a list \<Rightarrow> 'a list" where
  "splice i ys xs = take (length xs) (take i xs @ ys @ drop (i + length ys) xs)"

definition slice :: "nat \<Rightarrow> nat \<Rightarrow> 'a list \<Rightarrow> 'a list" where
  "slice i n xs = take n (drop i xs)"

lemma length_slice: "i + n \<le> length xs \<Longrightarrow> length (slice i n xs) = n"
  by (simp add: slice_def)

lemma nth_slice: "k < n \<Longrightarrow> i + n \<le> length xs \<Longrightarrow> slice i n xs ! k = xs ! (i + k)"
  by (simp add: slice_def)

lemma length_splice: "i + length ys \<le> length xs \<Longrightarrow> length (splice i ys xs) = length xs"
  by (simp add: splice_def)

lemma nth_splice:
  assumes "i + length ys \<le> length xs" and "k < length xs"
  shows "splice i ys xs ! k =
    (if k < i then xs ! k else if k < i + length ys then ys ! (k - i) else xs ! k)"
  using assms by (auto simp: splice_def nth_append)

lemma slice_eqI:
  assumes "i + n \<le> length xs" and "j + n \<le> length ys"
    and "\<And>k. k < n \<Longrightarrow> xs ! (i + k) = ys ! (j + k)"
  shows "slice i n xs = slice j n ys"
  by (rule nth_equalityI) (simp_all add: length_slice nth_slice assms)

text \<open>Two blocks of the same width in a flat array are disjoint.\<close>

lemma block_disjoint:
  fixes w :: nat
  assumes "a \<noteq> b" and "j < w" and "k < w"
  shows "a * w + j \<noteq> b * w + k"
proof
  assume eq: "a * w + j = b * w + k"
  have "(a * w + j) div w = a" "(b * w + k) div w = b"
    using assms by simp_all
  with eq \<open>a \<noteq> b\<close> show False by simp
qed

lemma block_end_le: "(r::nat) < n \<Longrightarrow> r * w + w \<le> n * w"
  by (metis Suc_leI add.commute mult_Suc mult_le_mono1)

lemma block_index_lt: "(r::nat) < n \<Longrightarrow> c < w \<Longrightarrow> r * w + c < n * w"
  using block_end_le [of r n w] by linarith

subsection \<open>Association lists as hash maps\<close>

text \<open>A Rust \<open>HashMap\<close> is an association list without duplicate keys: \<open>map_of\<close> is
  \<open>get\<close>, \<^const>\<open>AList.update\<close> is \<open>insert\<close>, \<^const>\<open>AList.delete\<close> is
  \<open>remove\<close> and \<open>retain\<close> is \<^const>\<open>filter\<close>.  The list order stands for the
  (unspecified) iteration order of the hash map.\<close>

lemma map_of_update: "map_of (AList.update k v al) = (map_of al)(k \<mapsto> v)"
  by (simp add: update_conv')

lemma map_of_delete: "map_of (AList.delete k al) = (map_of al)(k := None)"
  by (simp add: delete_conv')

lemma map_of_retain:
  "map_of (filter (\<lambda>e. P (fst e)) al) k = (if P k then map_of al k else None)"
  by (induction al) auto

lemma distinct_retain: "distinct (map fst al) \<Longrightarrow> distinct (map fst (filter P al))"
  by (induction al) auto

subsection \<open>The tail of a list\<close>

text \<open>The last \<open>n\<close> elements of a list: what a bounded log keeps.\<close>

definition last_n :: "nat \<Rightarrow> 'a list \<Rightarrow> 'a list" where
  "last_n n xs = drop (length xs - n) xs"

lemma length_last_n [simp]: "length (last_n n xs) = min n (length xs)"
  by (simp add: last_n_def)

lemma last_n_all [simp]: "length xs \<le> n \<Longrightarrow> last_n n xs = xs"
  by (simp add: last_n_def)

lemma last_n_append: "last_n n (last_n n xs @ ys) = last_n n (xs @ ys)"
proof (cases "n \<le> length xs")
  case True
  then have "length ys + (length xs - n) = length xs + length ys - n"
    by simp
  with True show ?thesis
    by (simp add: last_n_def)
qed simp

section \<open>Byte-driven machines\<close>

text \<open>A machine that consumes one symbol at a time and emits a list of outputs per symbol.\<close>

fun run_machine :: "('s \<Rightarrow> 'b \<Rightarrow> 's \<times> 'o list) \<Rightarrow> 's \<Rightarrow> 'b list \<Rightarrow> 's \<times> 'o list" where
  "run_machine step s [] = (s, [])"
| "run_machine step s (b # bs) =
     (let (s1, o1) = step s b; (s2, o2) = run_machine step s1 bs in (s2, o1 @ o2))"

lemma run_machine_append:
  "run_machine step s (xs @ ys) =
     (let (s1, o1) = run_machine step s xs; (s2, o2) = run_machine step s1 ys in (s2, o1 @ o2))"
  by (induction xs arbitrary: s) (auto split: prod.splits)

text \<open>The contract of such a machine: a state invariant every step keeps and an output
  predicate every emitted value satisfies.\<close>

locale byte_machine =
  fixes step :: "'s \<Rightarrow> 'b \<Rightarrow> 's \<times> 'o list"
    and inv :: "'s \<Rightarrow> bool"
    and out_ok :: "'o \<Rightarrow> bool"
  assumes step_inv: "inv s \<Longrightarrow> inv (fst (step s b))"
    and step_out: "inv s \<Longrightarrow> x \<in> set (snd (step s b)) \<Longrightarrow> out_ok x"
begin

lemma run_inv: "inv s \<Longrightarrow> inv (fst (run_machine step s bs))"
proof (induction bs arbitrary: s)
  case (Cons b bs)
  then show ?case
    using step_inv [of s b] by (auto split: prod.splits) (metis fst_conv)
qed simp

lemma run_out: "inv s \<Longrightarrow> x \<in> set (snd (run_machine step s bs)) \<Longrightarrow> out_ok x"
proof (induction bs arbitrary: s)
  case (Cons b bs)
  from Cons.prems(2) consider "x \<in> set (snd (step s b))"
    | "x \<in> set (snd (run_machine step (fst (step s b)) bs))"
    by (auto split: prod.splits)
  then show ?case
  proof cases
    case 1
    with Cons.prems(1) show ?thesis by (rule step_out)
  next
    case 2
    with Cons.IH [OF step_inv [OF Cons.prems(1)]] show ?thesis .
  qed
qed simp

lemma run_split:
  assumes "run_machine step s xs = (s1, o1)" and "run_machine step s1 ys = (s2, o2)"
  shows "run_machine step s (xs @ ys) = (s2, o1 @ o2)"
  using assms by (simp add: run_machine_append)

end

end
