(* ===== verification/ParamParser.thy ===== *)
theory ParamParser
  imports Prelude
begin

text \<open>
  \<open>crates/term_core/src/parser_params.rs\<close>: the accumulator for the numeric parameters and
  intermediate bytes of a CSI sequence.  Parameters are \<open>u16\<close>; they are kept as natural
  numbers and the invariant \<open>param_parser_ok\<close> shows that they never leave
  \<open>0..=9999\<close>, that the parameter vector never exceeds 32 entries and the intermediates
  never exceed 4.
\<close>

definition MAX_PARAMS :: nat where "MAX_PARAMS = 32"
definition MAX_PARAM_VALUE :: nat where "MAX_PARAM_VALUE = 9999"

record param_parser =
  pp_params :: "nat list"
  pp_current :: nat
  pp_has_current :: bool
  pp_intermediates :: "u8 list"

definition param_parser_new :: param_parser where
  "param_parser_new =
     \<lparr>pp_params = [], pp_current = 0, pp_has_current = False, pp_intermediates = []\<rparr>"

definition pp_reset :: "param_parser \<Rightarrow> param_parser" where
  "pp_reset p = p\<lparr>pp_params := [], pp_current := 0, pp_has_current := False,
                  pp_intermediates := []\<rparr>"

definition add_intermediate :: "param_parser \<Rightarrow> u8 \<Rightarrow> param_parser" where
  "add_intermediate p b =
     (if length (pp_intermediates p) < 4
      then p\<lparr>pp_intermediates := pp_intermediates p @ [b]\<rparr> else p)"

definition add_digit :: "param_parser \<Rightarrow> u8 \<Rightarrow> param_parser" where
  "add_digit p digit =
     (let digit_value = unat (digit - 0x30);
          cur = sat_add16 (sat_mul16 (pp_current p) 10) digit_value;
          cur = (if cur > MAX_PARAM_VALUE then MAX_PARAM_VALUE else cur)
      in p\<lparr>pp_current := cur, pp_has_current := True\<rparr>)"

definition finish_param :: "param_parser \<Rightarrow> param_parser" where
  "finish_param p =
     (let p = (if length (pp_params p) < MAX_PARAMS
               then p\<lparr>pp_params := pp_params p @ [if pp_has_current p then pp_current p else 0]\<rparr>
               else p)
      in p\<lparr>pp_current := 0, pp_has_current := False\<rparr>)"

definition finish :: "param_parser \<Rightarrow> nat list \<times> param_parser" where
  "finish p =
     (let ps = (if (pp_has_current p \<or> pp_params p \<noteq> []) \<and> length (pp_params p) < MAX_PARAMS
                then pp_params p @ [if pp_has_current p then pp_current p else 0]
                else pp_params p)
      in (ps, p\<lparr>pp_params := []\<rparr>))"

definition get_param :: "nat list \<Rightarrow> nat \<Rightarrow> nat \<Rightarrow> nat" where
  "get_param params index dflt =
     (if index < length params \<and> params ! index \<noteq> 0 then params ! index else dflt)"

definition get_first_or_one :: "nat list \<Rightarrow> nat" where
  "get_first_or_one params = get_param params 0 1"

definition get_first_or_zero :: "nat list \<Rightarrow> nat" where
  "get_first_or_zero params = (case params of [] \<Rightarrow> 0 | p # _ \<Rightarrow> p)"

subsection \<open>Bounds\<close>

definition param_parser_ok :: "param_parser \<Rightarrow> bool" where
  "param_parser_ok p \<longleftrightarrow>
     length (pp_params p) \<le> MAX_PARAMS \<and> (\<forall>x \<in> set (pp_params p). x \<le> MAX_PARAM_VALUE)
     \<and> pp_current p \<le> MAX_PARAM_VALUE \<and> length (pp_intermediates p) \<le> 4"

named_theorems pp_defs \<open>operations of the parameter accumulator\<close>

lemmas [pp_defs] = pp_reset_def add_intermediate_def add_digit_def finish_param_def finish_def

lemma param_parser_new_ok [simp]: "param_parser_ok param_parser_new"
  by (simp add: param_parser_ok_def param_parser_new_def)

lemma pp_reset_ok [simp]: "param_parser_ok (pp_reset p)"
  by (simp add: param_parser_ok_def pp_reset_def)

lemma add_intermediate_ok [simp]: "param_parser_ok p \<Longrightarrow> param_parser_ok (add_intermediate p b)"
  by (simp add: param_parser_ok_def add_intermediate_def)

lemma add_digit_ok [simp]: "param_parser_ok p \<Longrightarrow> param_parser_ok (add_digit p b)"
  by (simp add: param_parser_ok_def add_digit_def Let_def)

lemma finish_param_ok [simp]: "param_parser_ok p \<Longrightarrow> param_parser_ok (finish_param p)"
  by (auto simp: param_parser_ok_def finish_param_def Let_def)

lemma finish_ok:
  assumes "param_parser_ok p"
  shows "length (fst (finish p)) \<le> MAX_PARAMS"
    and "x \<in> set (fst (finish p)) \<Longrightarrow> x \<le> MAX_PARAM_VALUE"
    and "param_parser_ok (snd (finish p))"
  using assms by (auto simp: param_parser_ok_def finish_def Let_def split: if_splits)

lemma finish_intermediates [simp]: "pp_intermediates (snd (finish p)) = pp_intermediates p"
  by (simp add: finish_def Let_def)

lemma get_first_or_one_pos: "0 < get_first_or_one ps"
  by (simp add: get_first_or_one_def get_param_def)

text \<open>Accumulating the decimal digits of a number below 10000 gives the number back.\<close>

fun decimal :: "nat \<Rightarrow> u8 list" where
  "decimal n = (if n < 10 then [as_u8 (0x30 + n)] else decimal (n div 10) @ [as_u8 (0x30 + n mod 10)])"

declare decimal.simps [simp del]

definition is_digit :: "u8 \<Rightarrow> bool" where
  "is_digit b \<longleftrightarrow> in_range 0x30 0x39 b"

lemma digit_sub: "n < 10 \<Longrightarrow> unat (as_u8 (48 + n) - 48) = n"
proof -
  assume "n < 10"
  then have "(48::u8) \<le> as_u8 (48 + n)" by (simp add: word_le_nat_alt)
  then show ?thesis using \<open>n < 10\<close> by (simp add: unat_sub)
qed

lemma is_digit_as_u8: "n < 10 \<Longrightarrow> is_digit (as_u8 (48 + n))"
  by (simp add: is_digit_def in_range_def word_le_nat_alt)

lemma decimal_digits: "b \<in> set (decimal n) \<Longrightarrow> is_digit b"
proof (induction n rule: decimal.induct)
  case (1 n)
  then show ?case
    by (subst (asm) decimal.simps) (auto simp: is_digit_as_u8 split: if_splits)
qed

lemma decimal_ne [simp]: "decimal n \<noteq> []"
  by (subst decimal.simps) simp

lemma add_digit_step:
  assumes "pp_current p * 10 + d \<le> MAX_PARAM_VALUE" and "d < 10"
  shows "add_digit p (as_u8 (48 + d)) = p\<lparr>pp_current := pp_current p * 10 + d, pp_has_current := True\<rparr>"
  using assms by (simp add: add_digit_def digit_sub MAX_PARAM_VALUE_def sat_defs)

lemma foldl_add_digit_decimal:
  assumes "n \<le> MAX_PARAM_VALUE" and "pp_current p = 0"
  shows "foldl add_digit p (decimal n) = p\<lparr>pp_current := n, pp_has_current := True\<rparr>"
  using assms
proof (induction n rule: decimal.induct)
  case (1 n)
  show ?case
  proof (cases "n < 10")
    case True
    then show ?thesis
      using "1.prems" add_digit_step [of p n] by (simp add: decimal.simps [of n])
  next
    case False
    let ?q = "p\<lparr>pp_current := n div 10, pp_has_current := True\<rparr>"
    have IH: "foldl add_digit p (decimal (n div 10)) = ?q"
      using "1.IH" [OF False] "1.prems" by simp
    have "pp_current ?q * 10 + n mod 10 = n" by simp
    with "1.prems" have "pp_current ?q * 10 + n mod 10 \<le> MAX_PARAM_VALUE" by simp
    from add_digit_step [OF this]
    have "add_digit ?q (as_u8 (48 + n mod 10)) = p\<lparr>pp_current := n, pp_has_current := True\<rparr>"
      by simp
    with False IH show ?thesis by (simp add: decimal.simps [of n])
  qed
qed

end
