(* ===== verification/Utf8.thy ===== *)
theory Utf8
  imports Prelude
begin

text \<open>
  UTF-8 as Rust's standard library has it, on lists of bytes: \<open>char::encode_utf8\<close>,
  \<open>str::from_utf8\<close>, \<open>str::chars\<close> and \<open>String::from_utf8_lossy\<close>.  Everything
  that needs validation goes through \<open>utf8_step\<close>, one step of the library's chunk
  iterator: it reports whether the next sequence is well formed and how many bytes it covers
  (for an ill-formed one, the bytes replaced by a single U+FFFD).
\<close>

definition is_scalar :: "nat \<Rightarrow> bool" where
  "is_scalar c \<longleftrightarrow> c < 0x110000 \<and> \<not> (0xD800 \<le> c \<and> c \<le> 0xDFFF)"

definition utf8_encode :: "nat \<Rightarrow> u8 list" where
  "utf8_encode c =
     (if c < 0x80 then [as_u8 c]
      else if c < 0x800 then [as_u8 (0xC0 + c div 64), as_u8 (0x80 + c mod 64)]
      else if c < 0x10000 then
        [as_u8 (0xE0 + c div 4096), as_u8 (0x80 + (c div 64) mod 64), as_u8 (0x80 + c mod 64)]
      else
        [as_u8 (0xF0 + c div 262144), as_u8 (0x80 + (c div 4096) mod 64),
         as_u8 (0x80 + (c div 64) mod 64), as_u8 (0x80 + c mod 64)])"

definition is_cont :: "u8 \<Rightarrow> bool" where
  "is_cont b \<longleftrightarrow> in_range 0x80 0xBF b"

text \<open>The byte at offset \<open>k\<close>, or 0 past the end (the library's \<open>safe_get\<close>).\<close>

definition byte_at :: "u8 list \<Rightarrow> nat \<Rightarrow> u8" where
  "byte_at bs k = (if k < length bs then bs ! k else 0)"

definition second_ok :: "u8 \<Rightarrow> u8 \<Rightarrow> bool" where
  "second_ok b n =
     (if b = 0xE0 then in_range 0xA0 0xBF n
      else if b = 0xED then in_range 0x80 0x9F n
      else if in_range 0xE1 0xEF b then is_cont n
      else if b = 0xF0 then in_range 0x90 0xBF n
      else if b = 0xF4 then in_range 0x80 0x8F n
      else in_range 0xF1 0xF3 b \<and> is_cont n)"

definition utf8_step :: "u8 list \<Rightarrow> bool \<times> nat" where
  "utf8_step bs =
     (let b = byte_at bs 0; c1 = byte_at bs 1; c2 = byte_at bs 2; c3 = byte_at bs 3 in
      if b < 0x80 then (True, 1)
      else if in_range 0xC2 0xDF b then (if is_cont c1 then (True, 2) else (False, 1))
      else if in_range 0xE0 0xEF b then
        (if \<not> second_ok b c1 then (False, 1) else if is_cont c2 then (True, 3) else (False, 2))
      else if in_range 0xF0 0xF4 b then
        (if \<not> second_ok b c1 then (False, 1)
         else if \<not> is_cont c2 then (False, 2)
         else if is_cont c3 then (True, 4) else (False, 3))
      else (False, 1))"

lemma utf8_step_pos: "0 < snd (utf8_step bs)"
  by (simp add: utf8_step_def Let_def)

lemma utf8_step_le: "snd (utf8_step bs) \<le> 4"
  by (simp add: utf8_step_def Let_def)

text \<open>\<open>str::from_utf8(bs).is_ok()\<close>.\<close>

function utf8_valid :: "u8 list \<Rightarrow> bool" where
  "utf8_valid bs =
     (if bs = [] then True
      else fst (utf8_step bs) \<and> utf8_valid (drop (snd (utf8_step bs)) bs))"
  by pat_completeness auto
termination
  by (relation "measure length") (auto simp: utf8_step_pos)

declare utf8_valid.simps [simp del]

text \<open>The scalar value a well-formed sequence of the given length encodes.\<close>

definition utf8_value :: "u8 list \<Rightarrow> nat \<Rightarrow> nat" where
  "utf8_value bs n =
     (let b = unat (byte_at bs 0); c1 = unat (byte_at bs 1) - 0x80;
          c2 = unat (byte_at bs 2) - 0x80; c3 = unat (byte_at bs 3) - 0x80 in
      if n = 1 then b
      else if n = 2 then (b - 0xC0) * 64 + c1
      else if n = 3 then (b - 0xE0) * 4096 + c1 * 64 + c2
      else (b - 0xF0) * 262144 + c1 * 4096 + c2 * 64 + c3)"

text \<open>\<open>s.chars()\<close>.\<close>

function utf8_chars :: "u8 list \<Rightarrow> nat list" where
  "utf8_chars bs =
     (if bs = [] then []
      else let n = snd (utf8_step bs) in utf8_value bs n # utf8_chars (drop n bs))"
  by pat_completeness auto
termination
  by (relation "measure length") (auto simp: utf8_step_pos)

declare utf8_chars.simps [simp del]

text \<open>\<open>String::from_utf8_lossy\<close>: U+FFFD is the bytes EF BF BD.\<close>

definition replacement_char :: "u8 list" where
  "replacement_char = [0xEF, 0xBF, 0xBD]"

function utf8_lossy :: "u8 list \<Rightarrow> u8 list" where
  "utf8_lossy bs =
     (if bs = [] then []
      else let n = snd (utf8_step bs)
           in (if fst (utf8_step bs) then take n bs else replacement_char)
              @ utf8_lossy (drop n bs))"
  by pat_completeness auto
termination
  by (relation "measure length") (auto simp: utf8_step_pos)

declare utf8_lossy.simps [simp del]

subsection \<open>Encoding is decoded back\<close>

lemma utf8_encode_length:
  "length (utf8_encode c) =
     (if c < 0x80 then 1 else if c < 0x800 then 2 else if c < 0x10000 then 3 else 4)"
  by (simp add: utf8_encode_def)

lemma utf8_encode_ne [simp]: "utf8_encode c \<noteq> []"
  by (simp add: utf8_encode_def)

lemma in_range_unat: "in_range lo hi b \<longleftrightarrow> unat lo \<le> unat b \<and> unat b \<le> unat hi"
  by (simp add: in_range_def word_le_nat_alt)

lemma u8_eq_unat: "(b::u8) = c \<longleftrightarrow> unat b = unat c"
  by (simp add: word_unat_eq_iff)

lemma u8_lt_unat: "(b::u8) < c \<longleftrightarrow> unat b < unat c"
  by (simp add: word_less_nat_alt)

lemmas u8_unat = u8_eq_unat u8_lt_unat in_range_unat is_cont_def

lemma byte_at_Cons [simp]:
  "byte_at (x # xs) 0 = x" "byte_at (x # xs) (Suc n) = byte_at xs n"
  "byte_at (x # xs) (numeral k) = byte_at xs (pred_numeral k)"
  by (simp_all add: byte_at_def numeral_eq_Suc)

lemma is_cont_as_u8 [simp]: "is_cont (as_u8 (0x80 + k mod 64))"
  using mod_less_divisor [of 64 k] by (simp add: u8_unat)

text \<open>Base-64 digits of a scalar value.\<close>

lemma div_4096: "(c::nat) div 4096 = c div 64 div 64"
  by (simp add: div_mult2_eq [symmetric])

lemma div_262144: "(c::nat) div 262144 = c div 64 div 64 div 64"
  by (simp add: div_mult2_eq [symmetric])

lemma digit_lower:
  fixes d :: nat
  assumes "d div 64 = k" and "64 * k + m \<le> d"
  shows "m \<le> d mod 64"
  using assms div_mult_mod_eq [of d 64] by linarith

lemma digit_upper:
  fixes d :: nat
  assumes "d div 64 = k" and "d < 64 * k + m"
  shows "d mod 64 < m"
  using assms div_mult_mod_eq [of d 64] by linarith

lemma scalar_cases:
  assumes "is_scalar c"
  obtains (one) "c < 0x80" | (two) "0x80 \<le> c" "c < 0x800"
    | (three) "0x800 \<le> c" "c < 0x10000" "\<not> (0xD800 \<le> c \<and> c \<le> 0xDFFF)"
    | (four) "0x10000 \<le> c" "c < 0x110000"
  using assms unfolding is_scalar_def by linarith

lemma second_ok_three_aux:
  assumes "h < 16" "d < 64" "h = 0 \<Longrightarrow> 32 \<le> d" "h = 13 \<Longrightarrow> d < 32"
  shows "second_ok (as_u8 (224 + h)) (as_u8 (128 + d))"
  using assms by (cases "h = 0"; cases "h = 13") (simp_all add: second_ok_def u8_unat)

lemma second_ok_four_aux:
  assumes "h < 5" "d < 64" "h = 0 \<Longrightarrow> 16 \<le> d" "h = 4 \<Longrightarrow> d < 16"
  shows "second_ok (as_u8 (240 + h)) (as_u8 (128 + d))"
  using assms by (cases "h = 0"; cases "h = 4") (simp_all add: second_ok_def u8_unat)

lemma second_ok_three:
  assumes "0x800 \<le> c" "c < 0x10000" "\<not> (0xD800 \<le> c \<and> c \<le> 0xDFFF)"
  shows "second_ok (as_u8 (224 + c div 4096)) (as_u8 (128 + c div 64 mod 64))"
proof -
  let ?h = "c div 64 div 64" and ?d = "c div 64 mod 64"
  have h: "?h < 16" and d: "?d < 64" using assms(2) by (simp_all add: div_mult2_eq [symmetric])
  have lo: "?h = 0 \<Longrightarrow> 32 \<le> ?d"
    by (rule digit_lower [where k = 0]) (use assms(1) in simp_all)
  have sur: "?h = 13 \<Longrightarrow> ?d < 32"
  proof (rule digit_upper [where k = 13])
    assume "?h = 13"
    moreover have "c div 64 = 64 * ?h + c div 64 mod 64" "c div 64 mod 64 < 64" by simp_all
    ultimately have "64 * 13 \<le> c div 64" "c div 64 < 64 * 14" by linarith+
    moreover have "c = 64 * (c div 64) + c mod 64" "c mod 64 < 64" by simp_all
    ultimately show "c div 64 < 64 * 13 + 32" using assms(3) by linarith
  qed simp
  from second_ok_three_aux [OF h d lo sur] show ?thesis by (simp add: div_4096)
qed

lemma second_ok_four:
  assumes "0x10000 \<le> c" "c < 0x110000"
  shows "second_ok (as_u8 (240 + c div 262144)) (as_u8 (128 + c div 4096 mod 64))"
proof -
  let ?h = "c div 64 div 64 div 64" and ?d = "c div 64 div 64 mod 64"
  have q: "16 \<le> c div 64 div 64" "c div 64 div 64 < 272"
    using assms by (simp_all add: div_mult2_eq [symmetric])
  have h: "?h < 5" and d: "?d < 64" using q by simp_all
  have lo: "?h = 0 \<Longrightarrow> 16 \<le> ?d"
    by (rule digit_lower [where k = 0]) (use q in simp_all)
  have hi: "?h = 4 \<Longrightarrow> ?d < 16"
    by (rule digit_upper [where k = 4]) (use q in simp_all)
  from second_ok_four_aux [OF h d lo hi] show ?thesis by (simp add: div_4096 div_262144)
qed

text \<open>A well-formed sequence is recognised whatever follows it, and decodes to its scalar.\<close>

lemma utf8_encode_step:
  assumes "is_scalar c"
  shows "utf8_step (utf8_encode c @ rest) = (True, length (utf8_encode c))"
  using assms
proof (cases c rule: scalar_cases)
  case one
  then show ?thesis by (simp add: utf8_encode_def utf8_step_def u8_lt_unat)
next
  case two
  then have "2 \<le> c div 64" "c div 64 < 32" by simp_all
  with two show ?thesis by (simp add: utf8_encode_def utf8_step_def u8_lt_unat in_range_unat)
next
  case three
  have "c div 4096 < 16" using three(2) by simp
  with three second_ok_three [OF three] show ?thesis
    by (simp add: utf8_encode_def utf8_step_def u8_lt_unat in_range_unat)
next
  case four
  have "c div 262144 < 5" using four(2) by simp
  with four second_ok_four [OF four] show ?thesis
    by (simp add: utf8_encode_def utf8_step_def u8_lt_unat in_range_unat)
qed

lemma base64_three: "c div 64 div 64 * 4096 + c div 64 mod 64 * 64 + c mod 64 = (c::nat)"
proof -
  have "c = 64 * (c div 64) + c mod 64"
    and "c div 64 = 64 * (c div 64 div 64) + c div 64 mod 64" by simp_all
  then show ?thesis by linarith
qed

lemma base64_four:
  "c div 64 div 64 div 64 * 262144 + c div 64 div 64 mod 64 * 4096 + c div 64 mod 64 * 64
     + c mod 64 = (c::nat)"
proof -
  have "c div 64 div 64 = 64 * (c div 64 div 64 div 64) + c div 64 div 64 mod 64" by simp
  with base64_three [of c] show ?thesis by linarith
qed

lemma utf8_encode_value:
  assumes "is_scalar c"
  shows "utf8_value (utf8_encode c @ rest) (length (utf8_encode c)) = c"
  using assms
proof (cases c rule: scalar_cases)
  case one
  then show ?thesis by (simp add: utf8_encode_def utf8_value_def)
next
  case two
  then have "c div 64 < 32" "c mod 64 < 64" by simp_all
  with two show ?thesis by (simp add: utf8_encode_def utf8_value_def)
next
  case three
  have "c div 64 div 64 < 16" using three(2) by (simp add: div_mult2_eq [symmetric])
  with three show ?thesis
    by (simp add: utf8_encode_def utf8_value_def div_4096 base64_three)
next
  case four
  have "c div 64 div 64 div 64 < 5" using four(2) by (simp add: div_mult2_eq [symmetric])
  with four show ?thesis
    by (simp add: utf8_encode_def utf8_value_def div_4096 div_262144 base64_four)
qed

lemma utf8_valid_encode_append:
  assumes "is_scalar c"
  shows "utf8_valid (utf8_encode c @ rest) = utf8_valid rest"
  by (subst utf8_valid.simps) (simp add: utf8_encode_step [OF assms])

lemma utf8_valid_Nil [simp]: "utf8_valid []"
  by (simp add: utf8_valid.simps)

lemma utf8_valid_encode [simp]: "is_scalar c \<Longrightarrow> utf8_valid (utf8_encode c)"
  using utf8_valid_encode_append [of c "[]"] by simp

lemma utf8_chars_encode_append:
  assumes "is_scalar c"
  shows "utf8_chars (utf8_encode c @ rest) = c # utf8_chars rest"
  by (subst utf8_chars.simps)
    (simp add: utf8_encode_step [OF assms] utf8_encode_value [OF assms])

lemma utf8_chars_Nil [simp]: "utf8_chars [] = []"
  by (simp add: utf8_chars.simps)

text \<open>Lossy conversion leaves well-formed text alone, and its result is well formed.\<close>

lemma utf8_lossy_valid: "utf8_valid bs \<Longrightarrow> utf8_lossy bs = bs"
proof (induction bs rule: utf8_lossy.induct)
  case (1 bs)
  show ?case
  proof (cases "bs = []")
    case False
    with "1.prems" have "fst (utf8_step bs)" "utf8_valid (drop (snd (utf8_step bs)) bs)"
      by (simp_all add: utf8_valid.simps [of bs])
    with False "1.IH" [OF False refl] show ?thesis
      by (simp add: utf8_lossy.simps [of bs])
  qed (simp add: utf8_lossy.simps)
qed

text \<open>A well-formed step covers bytes that are there, and depends on no others.\<close>

lemma is_cont_present: "is_cont (byte_at bs k) \<Longrightarrow> k < length bs"
  by (cases "k < length bs") (simp_all add: byte_at_def u8_unat)

lemma byte_at_take: "k < n \<Longrightarrow> n \<le> length bs \<Longrightarrow> byte_at (take n bs @ rest) k = byte_at bs k"
  by (simp add: byte_at_def nth_append)

lemma utf8_step_ok_cases:
  assumes "fst (utf8_step bs)"
  obtains (n1) "byte_at bs 0 < 0x80" "snd (utf8_step bs) = 1"
  | (n2) "in_range 0xC2 0xDF (byte_at bs 0)" "is_cont (byte_at bs 1)" "snd (utf8_step bs) = 2"
  | (n3) "in_range 0xE0 0xEF (byte_at bs 0)" "second_ok (byte_at bs 0) (byte_at bs 1)"
      "is_cont (byte_at bs 2)" "snd (utf8_step bs) = 3"
  | (n4) "in_range 0xF0 0xF4 (byte_at bs 0)" "second_ok (byte_at bs 0) (byte_at bs 1)"
      "is_cont (byte_at bs 2)" "is_cont (byte_at bs 3)" "snd (utf8_step bs) = 4"
  using assms by (auto simp: utf8_step_def Let_def split: if_splits)

lemma second_ok_cont: "second_ok b n \<Longrightarrow> is_cont n"
  by (auto simp: second_ok_def u8_unat split: if_splits)

lemma utf8_step_length:
  assumes "bs \<noteq> []" and "fst (utf8_step bs)"
  shows "snd (utf8_step bs) \<le> length bs"
  using assms(2)
proof (cases bs rule: utf8_step_ok_cases)
  case n1
  then show ?thesis using assms(1) by (cases bs) simp_all
next
  case n2
  then show ?thesis using is_cont_present [of bs 1] by simp
next
  case n3
  then show ?thesis using is_cont_present [of bs 2] by simp
next
  case n4
  then show ?thesis using is_cont_present [of bs 3] by simp
qed

lemma in_range_lead:
  "in_range 0xC2 0xDF b \<Longrightarrow> \<not> b < 0x80"
  "in_range 0xE0 0xEF b \<Longrightarrow> \<not> b < 0x80" "in_range 0xE0 0xEF b \<Longrightarrow> \<not> in_range 0xC2 0xDF b"
  "in_range 0xF0 0xF4 b \<Longrightarrow> \<not> b < 0x80" "in_range 0xF0 0xF4 b \<Longrightarrow> \<not> in_range 0xC2 0xDF b"
  "in_range 0xF0 0xF4 b \<Longrightarrow> \<not> in_range 0xE0 0xEF b"
  by (simp_all add: u8_unat)

lemma utf8_step_prefix:
  assumes "bs \<noteq> []" and ok: "fst (utf8_step bs)"
  shows "utf8_step (take (snd (utf8_step bs)) bs @ rest) = utf8_step bs"
  using ok
proof (cases bs rule: utf8_step_ok_cases)
  case n1
  then have "byte_at (take 1 bs @ rest) 0 = byte_at bs 0"
    using assms(1) by (intro byte_at_take) (simp_all add: Suc_leI)
  with n1 ok show ?thesis by (simp add: utf8_step_def)
next
  case n2
  then have len: "2 \<le> length bs" using is_cont_present [of bs 1] by simp
  with n2 ok in_range_lead show ?thesis
    by (simp add: utf8_step_def byte_at_take [OF _ len])
next
  case n3
  then have len: "3 \<le> length bs" using is_cont_present [of bs 2] by simp
  with n3 ok in_range_lead show ?thesis
    by (simp add: utf8_step_def byte_at_take [OF _ len])
next
  case n4
  then have len: "4 \<le> length bs" using is_cont_present [of bs 3] by simp
  with n4 ok in_range_lead show ?thesis
    by (simp add: utf8_step_def byte_at_take [OF _ len])
qed

lemma utf8_valid_step:
  assumes "bs \<noteq> []" and "fst (utf8_step bs)"
  shows "utf8_valid (take (snd (utf8_step bs)) bs @ rest) = utf8_valid rest"
proof -
  have len: "snd (utf8_step bs) \<le> length bs" by (rule utf8_step_length [OF assms])
  have ne: "take (snd (utf8_step bs)) bs \<noteq> []"
    using assms(1) utf8_step_pos [of bs] by simp
  from ne len show ?thesis
    by (subst utf8_valid.simps) (simp add: utf8_step_prefix [OF assms] assms(2))
qed

lemma replacement_is_encoding: "replacement_char = utf8_encode 0xFFFD"
  by (simp add: replacement_char_def utf8_encode_def as_u8_def)

lemma utf8_valid_lossy: "utf8_valid (utf8_lossy bs)"
proof (induction bs rule: utf8_lossy.induct)
  case (1 bs)
  show ?case
  proof (cases "bs = []")
    case True
    then show ?thesis by (simp add: utf8_lossy.simps)
  next
    case False
    have IH: "utf8_valid (utf8_lossy (drop (snd (utf8_step bs)) bs))"
      using "1.IH" [OF False refl] .
    have "is_scalar 0xFFFD" by (simp add: is_scalar_def)
    with IH False show ?thesis
      by (cases "fst (utf8_step bs)")
        (simp_all add: utf8_lossy.simps [of bs] utf8_valid_step replacement_is_encoding
          utf8_valid_encode_append Let_def)
  qed
qed

text \<open>Values of well-formed sequences are scalar values; those of more than one byte are not
  ASCII.\<close>

lemma second_ok_bounds:
  assumes "second_ok b n"
  shows "unat n < 192" "128 \<le> unat n"
    "b = 0xE0 \<Longrightarrow> 160 \<le> unat n" "b = 0xED \<Longrightarrow> unat n < 160"
    "b = 0xF0 \<Longrightarrow> 144 \<le> unat n" "b = 0xF4 \<Longrightarrow> unat n < 144"
  using assms by (auto simp: second_ok_def u8_unat split: if_splits)

lemma three_byte_value:
  fixes b n m :: nat
  assumes "224 \<le> b" "b \<le> 239" "128 \<le> n" "n < 192" "128 \<le> m" "m \<le> 191"
    and "b = 224 \<Longrightarrow> 160 \<le> n" "b = 237 \<Longrightarrow> n < 160"
  shows "is_scalar ((b - 224) * 4096 + (n - 128) * 64 + (m - 128))"
    "2048 \<le> (b - 224) * 4096 + (n - 128) * 64 + (m - 128)"
proof -
  obtain h d e where e: "b = 224 + h" "n = 128 + d" "m = 128 + e"
    using assms(1,3,5) by (metis le_Suc_ex)
  have h: "h \<le> 15" "d < 64" "e < 64" "h = 0 \<Longrightarrow> 32 \<le> d" "h = 13 \<Longrightarrow> d < 32"
    using assms e by simp_all
  have k: "h * 4096 + d * 64 + e < 0xD800 \<or> 0xE000 \<le> h * 4096 + d * 64 + e"
  proof (cases "h \<le> 12")
    case True
    with h(2,3) show ?thesis by linarith
  next
    case False
    then show ?thesis using h(2,3,5) by (cases "h = 13") linarith+
  qed
  show "is_scalar ((b - 224) * 4096 + (n - 128) * 64 + (m - 128))"
    using h(1-3) k by (simp add: e is_scalar_def) linarith
  show "2048 \<le> (b - 224) * 4096 + (n - 128) * 64 + (m - 128)"
    using h(4) by (cases "h = 0") (simp_all add: e)
qed

lemma four_byte_value:
  fixes b n m k :: nat
  assumes "240 \<le> b" "b \<le> 244" "128 \<le> n" "n < 192" "m - 128 < 64" "k - 128 < 64"
    and "b = 240 \<Longrightarrow> 144 \<le> n" "b = 244 \<Longrightarrow> n < 144"
  shows "is_scalar ((b - 240) * 262144 + (n - 128) * 4096 + (m - 128) * 64 + (k - 128))"
    "0x10000 \<le> (b - 240) * 262144 + (n - 128) * 4096 + (m - 128) * 64 + (k - 128)"
proof -
  obtain h d where e: "b = 240 + h" "n = 128 + d"
    using assms(1,3) by (metis le_Suc_ex)
  have h: "h \<le> 4" "d < 64" "h = 0 \<Longrightarrow> 16 \<le> d" "h = 4 \<Longrightarrow> d < 16"
    using assms e by simp_all
  have lo: "0x10000 \<le> h * 262144 + d * 4096"
    using h(3) by (cases "h = 0") simp_all
  have hi: "h * 262144 + d * 4096 + 4095 \<le> 0x10FFFF"
    using h by (cases "h = 4") (simp, linarith)
  show "is_scalar ((b - 240) * 262144 + (n - 128) * 4096 + (m - 128) * 64 + (k - 128))"
    using lo hi assms(5,6) by (simp add: e is_scalar_def)
  show "0x10000 \<le> (b - 240) * 262144 + (n - 128) * 4096 + (m - 128) * 64 + (k - 128)"
    using lo by (simp add: e)
qed

lemma utf8_value_scalar:
  assumes "fst (utf8_step bs)"
  shows "is_scalar (utf8_value bs (snd (utf8_step bs)))"
    and "1 < snd (utf8_step bs) \<Longrightarrow> 0x80 \<le> utf8_value bs (snd (utf8_step bs))"
proof -
  have "is_scalar (utf8_value bs (snd (utf8_step bs))) \<and>
    (1 < snd (utf8_step bs) \<longrightarrow> 0x80 \<le> utf8_value bs (snd (utf8_step bs)))"
    using assms
  proof (cases bs rule: utf8_step_ok_cases)
    case n1
    then show ?thesis by (simp add: utf8_value_def is_scalar_def u8_lt_unat)
  next
    case n2
    then show ?thesis
      by (simp add: utf8_value_def is_scalar_def in_range_unat is_cont_def) linarith
  next
    case n3
    let ?b = "byte_at bs 0" and ?n = "byte_at bs 1" and ?m = "byte_at bs 2"
    have r: "224 \<le> unat ?b" "unat ?b \<le> 239" "128 \<le> unat ?m" "unat ?m \<le> 191"
      using n3 by (simp_all add: in_range_unat is_cont_def)
    note s = second_ok_bounds [OF n3(2)]
    have "unat ?b = 224 \<Longrightarrow> 160 \<le> unat ?n" "unat ?b = 237 \<Longrightarrow> unat ?n < 160"
      using s by (simp_all add: u8_eq_unat)
    from three_byte_value [OF r(1,2) s(2,1) r(3,4) this] n3(4) show ?thesis
      by (simp add: utf8_value_def add.assoc)
  next
    case n4
    let ?b = "byte_at bs 0" and ?n = "byte_at bs 1"
    have r: "240 \<le> unat ?b" "unat ?b \<le> 244" "unat (byte_at bs 2) \<le> 191"
        "unat (byte_at bs 3) \<le> 191"
      using n4 by (simp_all add: in_range_unat is_cont_def)
    note s = second_ok_bounds [OF n4(2)]
    have b: "unat ?b = 240 \<Longrightarrow> 144 \<le> unat ?n" "unat ?b = 244 \<Longrightarrow> unat ?n < 144"
      using s by (simp_all add: u8_eq_unat)
    have "unat (byte_at bs 2) - 128 < 64" "unat (byte_at bs 3) - 128 < 64"
      using r(3,4) by simp_all
    from four_byte_value [OF r(1,2) s(2,1) this b] n4(5) show ?thesis
      by (simp add: utf8_value_def add.assoc)
  qed
  then show "is_scalar (utf8_value bs (snd (utf8_step bs)))"
    and "1 < snd (utf8_step bs) \<Longrightarrow> 0x80 \<le> utf8_value bs (snd (utf8_step bs))" by simp_all
qed

lemma utf8_chars_scalar: "utf8_valid bs \<Longrightarrow> c \<in> set (utf8_chars bs) \<Longrightarrow> is_scalar c"
proof (induction bs rule: utf8_chars.induct)
  case (1 bs)
  show ?case
  proof (cases "bs = []")
    case True
    with "1.prems" show ?thesis by simp
  next
    case False
    with "1.prems"(1) have ok: "fst (utf8_step bs)" "utf8_valid (drop (snd (utf8_step bs)) bs)"
      by (simp_all add: utf8_valid.simps [of bs])
    from False "1.prems"(2) consider "c = utf8_value bs (snd (utf8_step bs))"
      | "c \<in> set (utf8_chars (drop (snd (utf8_step bs)) bs))"
      by (auto simp: utf8_chars.simps [of bs] Let_def)
    then show ?thesis
    proof cases
      case 1
      with utf8_value_scalar(1) [OF ok(1)] show ?thesis by simp
    next
      case 2
      with "1.IH" [OF False refl ok(2)] show ?thesis by simp
    qed
  qed
qed

end
