(* ===== verification/VtParser.thy ===== *)
theory VtParser
  imports ParamParser Utf8
begin

text \<open>
  \<open>crates/term_core/src/parser/\<close> and \<open>parser_types.rs\<close>: the escape-sequence state
  machine.  Every Rust handler \<open>fn h(&mut self, byte, emit)\<close> is a function from the parser
  and the byte to the new parser and the list of actions it emits, in order.  The handlers'
  \<open>match\<close> arms are the branches of an \<open>if\<close> chain in the same order.
\<close>

datatype osc_terminator = Bel | St | Unterminated

datatype parsed_action =
    Print nat
  | Execute u8
  | CsiDispatch "nat list" nat "u8 list" nat u8
  | EscDispatch "u8 option" u8
  | OscDispatch nat rstring osc_terminator nat
  | ApcDispatch "u8 list"
  | DcsDispatch "u8 list"

datatype pstate =
    Ground | Escape | EscapeCharset u8 | CsiEntry | CsiParam
  | OscString | OscEscape | ApcString | ApcEscape | DcsString | DcsEscape

definition MAX_CSI_PARAMS :: nat where "MAX_CSI_PARAMS = 16"
definition MAX_CSI_INTERMEDIATES :: nat where "MAX_CSI_INTERMEDIATES = 2"
definition MAX_OSC_LEN :: nat where "MAX_OSC_LEN = 16 * 1024 * 1024"
definition MAX_APC_LEN :: nat where "MAX_APC_LEN = 4 * 1024 * 1024"
definition MAX_DCS_LEN :: nat where "MAX_DCS_LEN = 16 * 1024 * 1024"

record parser =
  ps_state :: pstate
  ps_params :: param_parser
  ps_osc_buffer :: "u8 list"
  ps_osc_param :: nat
  ps_osc_param_done :: bool
  ps_osc_received_len :: nat
  ps_utf8_buffer :: "u8 list"
  ps_apc_buffer :: "u8 list"
  ps_dcs_buffer :: "u8 list"

definition parser_new :: parser where
  "parser_new = \<lparr>ps_state = Ground, ps_params = param_parser_new, ps_osc_buffer = [],
     ps_osc_param = 0, ps_osc_param_done = False, ps_osc_received_len = 0,
     ps_utf8_buffer = [], ps_apc_buffer = [], ps_dcs_buffer = []\<rparr>"

definition is_ground_clean :: "parser \<Rightarrow> bool" where
  "is_ground_clean p \<longleftrightarrow> ps_state p = Ground \<and> ps_utf8_buffer p = []"

definition parser_reset :: "parser \<Rightarrow> parser" where
  "parser_reset p = p\<lparr>ps_state := Ground, ps_params := pp_reset (ps_params p),
     ps_osc_buffer := [], ps_osc_param := 0, ps_osc_param_done := False,
     ps_osc_received_len := 0, ps_utf8_buffer := [], ps_apc_buffer := [], ps_dcs_buffer := []\<rparr>"

subsection \<open>Ground state and UTF-8 assembly\<close>

text \<open>The \<open>match\<close> of \<open>ground\<close>, reached with an empty UTF-8 buffer.\<close>

definition ground_match :: "parser \<Rightarrow> u8 \<Rightarrow> parser \<times> parsed_action list" where
  "ground_match p b =
     (if b = 0x1B then (p\<lparr>ps_state := Escape\<rparr>, [])
      else if in_range 0x00 0x1A b \<or> in_range 0x1C 0x1F b then (p, [Execute b])
      else if b = 0x7F then (p, [])
      else if in_range 0x20 0x7E b then (p, [Print (unat b)])
      else if in_range 0x80 0xBF b then (p, [Print 0xFFFD])
      else if in_range 0xC0 0xDF b then (p\<lparr>ps_utf8_buffer := ps_utf8_buffer p @ [b]\<rparr>, [])
      else if in_range 0xE0 0xEF b then (p\<lparr>ps_utf8_buffer := ps_utf8_buffer p @ [b]\<rparr>, [])
      else if in_range 0xF0 0xF7 b then (p\<lparr>ps_utf8_buffer := ps_utf8_buffer p @ [b]\<rparr>, [])
      else (p, [Print 0xFFFD]))"

text \<open>\<open>expected_len\<close>: the sequence length the buffered lead byte announces.\<close>

definition expected_len :: "u8 \<Rightarrow> nat option" where
  "expected_len b =
     (if in_range 0xC0 0xDF b then Some 2
      else if in_range 0xE0 0xEF b then Some 3
      else if in_range 0xF0 0xF7 b then Some 4 else None)"

definition handle_utf8_byte :: "parser \<Rightarrow> u8 \<Rightarrow> parser \<times> parsed_action list" where
  "handle_utf8_byte p b =
     (if in_range 0x80 0xBF b then
        let buf = ps_utf8_buffer p @ [b] in
        (case expected_len (hd buf) of
           None \<Rightarrow> (p\<lparr>ps_utf8_buffer := []\<rparr>, [Print 0xFFFD])
         | Some n \<Rightarrow>
             if length buf = n
             then (p\<lparr>ps_utf8_buffer := []\<rparr>,
                   if utf8_valid buf
                   then (case utf8_chars buf of [] \<Rightarrow> [] | ch # _ \<Rightarrow> [Print ch])
                   else [Print 0xFFFD])
             else (p\<lparr>ps_utf8_buffer := buf\<rparr>, []))
      else ground_match (p\<lparr>ps_utf8_buffer := []\<rparr>) b)"

definition ground :: "parser \<Rightarrow> u8 \<Rightarrow> parser \<times> parsed_action list" where
  "ground p b = (if ps_utf8_buffer p \<noteq> [] then handle_utf8_byte p b else ground_match p b)"

subsection \<open>Escape sequences\<close>

definition escape :: "parser \<Rightarrow> u8 \<Rightarrow> parser \<times> parsed_action list" where
  "escape p b =
     (if b = 0x5B then (p\<lparr>ps_state := CsiEntry, ps_params := pp_reset (ps_params p)\<rparr>, [])
      else if b = 0x5D then
        (p\<lparr>ps_state := OscString, ps_osc_buffer := [], ps_osc_param := 0,
           ps_osc_param_done := False, ps_osc_received_len := 0\<rparr>, [])
      else if b = 0x5F then (p\<lparr>ps_state := ApcString, ps_apc_buffer := []\<rparr>, [])
      else if b = 0x50 then (p\<lparr>ps_state := DcsString, ps_dcs_buffer := []\<rparr>, [])
      else if b = 0x28 then (p\<lparr>ps_state := EscapeCharset 0x28\<rparr>, [])
      else if b = 0x29 then (p\<lparr>ps_state := EscapeCharset 0x29\<rparr>, [])
      else if b \<in> {0x37, 0x38, 0x44, 0x45, 0x48, 0x4D, 0x63} then
        (p\<lparr>ps_state := Ground\<rparr>, [EscDispatch None b])
      else if b = 0x1B then (p, [])
      else (p\<lparr>ps_state := Ground\<rparr>, [EscDispatch None b]))"

definition escape_charset :: "parser \<Rightarrow> u8 \<Rightarrow> u8 \<Rightarrow> parser \<times> parsed_action list" where
  "escape_charset p designator b =
     (p\<lparr>ps_state := Ground\<rparr>, [EscDispatch (Some designator) b])"

subsection \<open>CSI\<close>

text \<open>A fixed-size array filled from a vector: the excess is cut, the rest is zero.\<close>

definition to_array :: "nat \<Rightarrow> 'a \<Rightarrow> 'a list \<Rightarrow> 'a list" where
  "to_array n z xs = take n xs @ replicate (n - length xs) z"

definition dispatch_csi :: "parser \<Rightarrow> u8 \<Rightarrow> parser \<times> parsed_action list" where
  "dispatch_csi p final_byte =
     (let (param_vec, pp) = finish (ps_params p);
          ints = pp_intermediates pp;
          params = to_array MAX_CSI_PARAMS 0 param_vec;
          param_count = min (length param_vec) MAX_CSI_PARAMS;
          intermediates = to_array MAX_CSI_INTERMEDIATES 0 ints;
          intermediate_count = min (length ints) MAX_CSI_INTERMEDIATES
      in (p\<lparr>ps_params := pp_reset pp, ps_state := Ground\<rparr>,
          [CsiDispatch params param_count intermediates intermediate_count final_byte]))"

definition csi_entry :: "parser \<Rightarrow> u8 \<Rightarrow> parser \<times> parsed_action list" where
  "csi_entry p b =
     (if is_digit b then (p\<lparr>ps_params := add_digit (ps_params p) b, ps_state := CsiParam\<rparr>, [])
      else if b \<in> {0x3F, 0x3E, 0x3C, 0x3D, 0x20} then
        (p\<lparr>ps_params := add_intermediate (ps_params p) b, ps_state := CsiParam\<rparr>, [])
      else if b = 0x3B \<or> b = 0x3A then
        (p\<lparr>ps_params := finish_param (ps_params p), ps_state := CsiParam\<rparr>, [])
      else if in_range 0x40 0x7E b then dispatch_csi p b
      else if in_range 0x00 0x1A b \<or> in_range 0x1C 0x1F b then (p, [Execute b])
      else if b = 0x1B then (p\<lparr>ps_params := pp_reset (ps_params p), ps_state := Escape\<rparr>, [])
      else (p\<lparr>ps_params := pp_reset (ps_params p), ps_state := Ground\<rparr>, []))"

definition csi_param :: "parser \<Rightarrow> u8 \<Rightarrow> parser \<times> parsed_action list" where
  "csi_param p b =
     (if is_digit b then (p\<lparr>ps_params := add_digit (ps_params p) b\<rparr>, [])
      else if b = 0x3B \<or> b = 0x3A then (p\<lparr>ps_params := finish_param (ps_params p)\<rparr>, [])
      else if in_range 0x20 0x2F b then (p\<lparr>ps_params := add_intermediate (ps_params p) b\<rparr>, [])
      else if in_range 0x40 0x7E b then dispatch_csi p b
      else if in_range 0x00 0x1A b \<or> in_range 0x1C 0x1F b then (p, [Execute b])
      else if b = 0x1B then (p\<lparr>ps_params := pp_reset (ps_params p), ps_state := Escape\<rparr>, [])
      else (p\<lparr>ps_params := pp_reset (ps_params p), ps_state := Ground\<rparr>, []))"

subsection \<open>OSC, APC and DCS strings\<close>

definition count_osc_byte :: "parser \<Rightarrow> parser" where
  "count_osc_byte p = p\<lparr>ps_osc_received_len := sat_add_usize (ps_osc_received_len p) 1\<rparr>"

definition dispatch_osc :: "parser \<Rightarrow> osc_terminator \<Rightarrow> parser \<times> parsed_action list" where
  "dispatch_osc p t =
     (let buf = ps_osc_buffer p;
          data = (if utf8_valid buf then buf else utf8_lossy buf)
      in (p\<lparr>ps_osc_buffer := [], ps_osc_param := 0, ps_osc_param_done := False,
            ps_osc_received_len := 0\<rparr>,
          [OscDispatch (ps_osc_param p) data t (ps_osc_received_len p)]))"

definition osc_string :: "parser \<Rightarrow> u8 \<Rightarrow> parser \<times> parsed_action list" where
  "osc_string p b =
     (if b = 0x07 then
        let (p1, acts) = dispatch_osc p Bel in (p1\<lparr>ps_state := Ground\<rparr>, acts)
      else if b = 0x1B then (p\<lparr>ps_state := OscEscape\<rparr>, [])
      else if is_digit b \<and> \<not> ps_osc_param_done p then
        (let p1 = count_osc_byte p in
         (p1\<lparr>ps_osc_param := sat_add16 (sat_mul16 (ps_osc_param p1) 10) (unat (b - 0x30))\<rparr>, []))
      else if b = 0x3B \<and> \<not> ps_osc_param_done p then
        ((count_osc_byte p)\<lparr>ps_osc_param_done := True\<rparr>, [])
      else
        (let p1 = count_osc_byte p in
         (if length (ps_osc_buffer p1) < MAX_OSC_LEN
          then p1\<lparr>ps_osc_buffer := ps_osc_buffer p1 @ [b]\<rparr> else p1, [])))"

definition osc_escape :: "parser \<Rightarrow> u8 \<Rightarrow> parser \<times> parsed_action list" where
  "osc_escape p b =
     (if b = 0x5C then
        let (p1, acts) = dispatch_osc p St in (p1\<lparr>ps_state := Ground\<rparr>, acts)
      else
        let (p1, acts) = dispatch_osc p Unterminated;
            (p2, acts2) = escape (p1\<lparr>ps_state := Escape\<rparr>) b
        in (p2, acts @ acts2))"

definition apc_string :: "parser \<Rightarrow> u8 \<Rightarrow> parser \<times> parsed_action list" where
  "apc_string p b =
     (if b = 0x1B then (p\<lparr>ps_state := ApcEscape\<rparr>, [])
      else if length (ps_apc_buffer p) < MAX_APC_LEN
      then (p\<lparr>ps_apc_buffer := ps_apc_buffer p @ [b]\<rparr>, []) else (p, []))"

definition dispatch_apc :: "parser \<Rightarrow> parser \<times> parsed_action list" where
  "dispatch_apc p = (p\<lparr>ps_apc_buffer := []\<rparr>, [ApcDispatch (ps_apc_buffer p)])"

definition apc_escape :: "parser \<Rightarrow> u8 \<Rightarrow> parser \<times> parsed_action list" where
  "apc_escape p b =
     (if b = 0x5C then
        let (p1, acts) = dispatch_apc p in (p1\<lparr>ps_state := Ground\<rparr>, acts)
      else
        let (p1, acts) = dispatch_apc p;
            (p2, acts2) = escape (p1\<lparr>ps_state := Escape\<rparr>) b
        in (p2, acts @ acts2))"

definition dcs_string :: "parser \<Rightarrow> u8 \<Rightarrow> parser \<times> parsed_action list" where
  "dcs_string p b =
     (if b = 0x1B then (p\<lparr>ps_state := DcsEscape\<rparr>, [])
      else if length (ps_dcs_buffer p) < MAX_DCS_LEN
      then (p\<lparr>ps_dcs_buffer := ps_dcs_buffer p @ [b]\<rparr>, []) else (p, []))"

definition dispatch_dcs :: "parser \<Rightarrow> parser \<times> parsed_action list" where
  "dispatch_dcs p = (p\<lparr>ps_dcs_buffer := []\<rparr>, [DcsDispatch (ps_dcs_buffer p)])"

definition dcs_escape :: "parser \<Rightarrow> u8 \<Rightarrow> parser \<times> parsed_action list" where
  "dcs_escape p b =
     (if b = 0x5C then
        let (p1, acts) = dispatch_dcs p in (p1\<lparr>ps_state := Ground\<rparr>, acts)
      else
        let (p1, acts) = dispatch_dcs p;
            (p2, acts2) = escape (p1\<lparr>ps_state := Escape\<rparr>) b
        in (p2, acts @ acts2))"

subsection \<open>The byte loop\<close>

definition parse_byte :: "parser \<Rightarrow> u8 \<Rightarrow> parser \<times> parsed_action list" where
  "parse_byte p b =
     (case ps_state p of
        Ground \<Rightarrow> ground p b
      | Escape \<Rightarrow> escape p b
      | EscapeCharset d \<Rightarrow> escape_charset p d b
      | CsiEntry \<Rightarrow> csi_entry p b
      | CsiParam \<Rightarrow> csi_param p b
      | OscString \<Rightarrow> osc_string p b
      | OscEscape \<Rightarrow> osc_escape p b
      | ApcString \<Rightarrow> apc_string p b
      | ApcEscape \<Rightarrow> apc_escape p b
      | DcsString \<Rightarrow> dcs_string p b
      | DcsEscape \<Rightarrow> dcs_escape p b)"

definition parse :: "parser \<Rightarrow> u8 list \<Rightarrow> parser \<times> parsed_action list" where
  "parse p input = run_machine parse_byte p input"

text \<open>The \<open>emit\<close> closure mutates host state \<open>'s\<close> and returns whether to continue; all
  actions of one byte are delivered before the loop stops after that byte.\<close>

fun deliver :: "('s \<Rightarrow> parsed_action \<Rightarrow> 's \<times> bool) \<Rightarrow> 's \<Rightarrow> parsed_action list \<Rightarrow> 's \<times> bool" where
  "deliver emit s [] = (s, False)"
| "deliver emit s (a # as) =
     (let (s1, continue) = emit s a; (s2, stop) = deliver emit s1 as in (s2, \<not> continue \<or> stop))"

fun parse_interruptible ::
  "('s \<Rightarrow> parsed_action \<Rightarrow> 's \<times> bool) \<Rightarrow> parser \<Rightarrow> 's \<Rightarrow> u8 list \<Rightarrow> nat \<times> parser \<times> 's" where
  "parse_interruptible emit p s [] = (0, p, s)"
| "parse_interruptible emit p s (b # bs) =
     (let (p1, acts) = parse_byte p b; (s1, should_stop) = deliver emit s acts in
      if should_stop then (1, p1, s1)
      else let (n, p2, s2) = parse_interruptible emit p1 s1 bs in (Suc n, p2, s2))"

fun parse_offsets_from :: "nat \<Rightarrow> parser \<Rightarrow> u8 list \<Rightarrow> parser \<times> (parsed_action \<times> nat) list" where
  "parse_offsets_from i p [] = (p, [])"
| "parse_offsets_from i p (b # bs) =
     (let (p1, acts) = parse_byte p b; (p2, rest) = parse_offsets_from (Suc i) p1 bs
      in (p2, map (\<lambda>a. (a, Suc i)) acts @ rest))"

definition parse_with_offsets :: "parser \<Rightarrow> u8 list \<Rightarrow> parser \<times> (parsed_action \<times> nat) list" where
  "parse_with_offsets p input = parse_offsets_from 0 p input"

end
