(* ===== verification/Cells.thy ===== *)
theory Cells
  imports Prelude Utf8
begin

text \<open>
  \<open>crates/term_core/src/cell.rs\<close>: colours, grid cells and the overflow side table with its
  reverse index.  A \<open>[u8; 16]\<close> is a list of length 16; a \<open>HashMap\<close> whose iteration order
  is observable is an association list.
\<close>

unbundle bit_operations_syntax

definition STYLE_BOLD :: flags16 where "STYLE_BOLD = 0x0001"
definition STYLE_DIM :: flags16 where "STYLE_DIM = 0x0002"
definition STYLE_ITALIC :: flags16 where "STYLE_ITALIC = 0x0004"
definition STYLE_UNDERLINE :: flags16 where "STYLE_UNDERLINE = 0x0008"
definition STYLE_BLINK :: flags16 where "STYLE_BLINK = 0x0010"
definition STYLE_REVERSE :: flags16 where "STYLE_REVERSE = 0x0020"
definition STYLE_HIDDEN :: flags16 where "STYLE_HIDDEN = 0x0040"
definition STYLE_STRIKETHROUGH :: flags16 where "STYLE_STRIKETHROUGH = 0x0080"

lemmas style_flag_defs = STYLE_BOLD_def STYLE_DIM_def STYLE_ITALIC_def STYLE_UNDERLINE_def
  STYLE_BLINK_def STYLE_REVERSE_def STYLE_HIDDEN_def STYLE_STRIKETHROUGH_def

subsection \<open>Colours\<close>

datatype packed_color = PackedColor (pc_tag: u8) (pc_r: u8) (pc_g: u8) (pc_b: u8)

definition color_default :: packed_color where
  "color_default = PackedColor 0 0 0 0"

definition color_indexed :: "u8 \<Rightarrow> packed_color" where
  "color_indexed index = PackedColor 1 index 0 0"

definition color_rgb :: "u8 \<Rightarrow> u8 \<Rightarrow> u8 \<Rightarrow> packed_color" where
  "color_rgb r g b = PackedColor 2 r g b"

definition color_to_u32 :: "packed_color \<Rightarrow> 32 word" where
  "color_to_u32 c =
     push_bit 24 (ucast (pc_tag c)) OR push_bit 16 (ucast (pc_r c))
       OR push_bit 8 (ucast (pc_g c)) OR ucast (pc_b c)"

definition color_from_u32 :: "32 word \<Rightarrow> packed_color" where
  "color_from_u32 v = PackedColor (ucast (drop_bit 24 v)) (ucast (drop_bit 16 v))
     (ucast (drop_bit 8 v)) (ucast v)"

lemma color_u32_roundtrip: "color_from_u32 (color_to_u32 c) = c"
proof (cases c)
  case (PackedColor t r g b)
  show ?thesis
    unfolding PackedColor color_from_u32_def color_to_u32_def packed_color.sel packed_color.inject
    by (intro conjI bit_word_eqI)
      (auto simp: bit_simps dest: bit_imp_le_length)
qed

subsection \<open>Cells\<close>

record cell =
  cl_char_data :: "u8 list"
  cl_char_len :: nat
  cl_width :: nat
  cl_fg :: packed_color
  cl_bg :: packed_color
  cl_flags :: flags16
  cl_underline_style :: u8
  cl_underline_color :: "u8 \<times> u8 \<times> u8"
  cl_hyperlink_id :: nat

definition cell_empty :: cell where
  "cell_empty =
     \<lparr>cl_char_data = 0x20 # replicate 15 0, cl_char_len = 1, cl_width = 1,
      cl_fg = color_default, cl_bg = color_default, cl_flags = 0, cl_underline_style = 0,
      cl_underline_color = (0, 0, 0), cl_hyperlink_id = 0\<rparr>"

definition set_char :: "cell \<Rightarrow> rstring \<Rightarrow> cell" where
  "set_char c s =
     (if length s \<le> 16
      then c\<lparr>cl_char_data := s @ replicate (16 - length s) 0, cl_char_len := length s\<rparr>
      else c\<lparr>cl_char_data := replicate 16 0, cl_char_len := 0xFF\<rparr>)"

definition get_char_inline :: "cell \<Rightarrow> rstring option" where
  "get_char_inline c =
     (if cl_char_len c = 0xFF then None
      else let s = take (cl_char_len c) (cl_char_data c)
           in if utf8_valid s then Some s else None)"

definition is_overflow :: "cell \<Rightarrow> bool" where
  "is_overflow c \<longleftrightarrow> cl_char_len c = 0xFF"

text \<open>The representation every stored cell has.  The bytes past \<open>cl_char_len\<close> are arbitrary
  (the ASCII fast path leaves the old ones there); \<open>trim_cell\<close> is the cell with them zeroed.\<close>

definition char_data_ok :: "cell \<Rightarrow> bool" where
  "char_data_ok c \<longleftrightarrow>
     length (cl_char_data c) = 16
     \<and> (if cl_char_len c = 0xFF then cl_char_data c = replicate 16 0
        else cl_char_len c \<le> 16
          \<and> utf8_valid (take (cl_char_len c) (cl_char_data c)))"

definition trim_cell :: "cell \<Rightarrow> cell" where
  "trim_cell c = c\<lparr>cl_char_data := take (cl_char_len c) (cl_char_data c) @ replicate (16 - cl_char_len c) 0\<rparr>"

lemma trim_cell_fields [simp]:
  "cl_char_len (trim_cell c) = cl_char_len c" "cl_width (trim_cell c) = cl_width c"
  "cl_fg (trim_cell c) = cl_fg c" "cl_bg (trim_cell c) = cl_bg c" "cl_flags (trim_cell c) = cl_flags c"
  "cl_underline_style (trim_cell c) = cl_underline_style c"
  "cl_underline_color (trim_cell c) = cl_underline_color c"
  "cl_hyperlink_id (trim_cell c) = cl_hyperlink_id c" "is_overflow (trim_cell c) = is_overflow c"
  by (simp_all add: trim_cell_def is_overflow_def)

lemma take_trim_cell:
  "char_data_ok c \<Longrightarrow> take (cl_char_len c) (cl_char_data (trim_cell c)) = take (cl_char_len c) (cl_char_data c)"
  by (auto simp: trim_cell_def char_data_ok_def split: if_splits)

lemma trim_cell_ok: "char_data_ok c \<Longrightarrow> char_data_ok (trim_cell c)"
  using take_trim_cell [of c] by (auto simp: char_data_ok_def trim_cell_def split: if_splits)

lemma trim_cell_idem: "char_data_ok c \<Longrightarrow> trim_cell (trim_cell c) = trim_cell c"
  using take_trim_cell [of c] by (simp add: trim_cell_def)

lemma char_data_ok_empty [simp]: "char_data_ok cell_empty"
  by (simp add: char_data_ok_def cell_empty_def utf8_valid.simps utf8_step_def byte_at_def)

lemma set_char_ok: "utf8_valid s \<Longrightarrow> char_data_ok (set_char c s)"
  by (simp add: char_data_ok_def set_char_def)

lemma set_char_overflow: "is_overflow (set_char c s) \<longleftrightarrow> 16 < length s"
  by (auto simp: is_overflow_def set_char_def)

lemma get_set_char: "utf8_valid s \<Longrightarrow> get_char_inline (set_char c s) = (if length s \<le> 16 then Some s else None)"
  by (simp add: get_char_inline_def set_char_def)

lemma set_char_width [simp]: "cl_width (set_char c s) = cl_width c"
  by (simp add: set_char_def)

subsection \<open>Overflow side table\<close>

type_synonym overflow_table = "((nat \<times> nat) \<times> rstring) list"
type_synonym overflow_row_index = "(nat \<times> nat list) list"

definition overflow_clear_row :: "overflow_table \<Rightarrow> nat \<Rightarrow> overflow_table" where
  "overflow_clear_row table row = filter (\<lambda>e. snd (fst e) \<noteq> row) table"

definition overflow_clear_range :: "overflow_table \<Rightarrow> nat \<Rightarrow> nat \<Rightarrow> nat \<Rightarrow> overflow_table" where
  "overflow_clear_range table row start_col end_col =
     filter (\<lambda>e. snd (fst e) \<noteq> row \<or> fst (fst e) < start_col \<or> fst (fst e) \<ge> end_col) table"

text \<open>\<open>entry(row).or_default()\<close>: the list stored for a row, empty when there is none.\<close>

definition ridx_cols :: "overflow_row_index \<Rightarrow> nat \<Rightarrow> nat list" where
  "ridx_cols ridx row = (case map_of ridx row of None \<Rightarrow> [] | Some cols \<Rightarrow> cols)"

definition overflow_ridx_insert :: "overflow_row_index \<Rightarrow> nat \<Rightarrow> nat \<Rightarrow> overflow_row_index" where
  "overflow_ridx_insert ridx row col =
     (let cols = ridx_cols ridx row
      in AList.update row (if col \<in> set cols then cols else cols @ [col]) ridx)"

text \<open>\<open>cols.retain(P)\<close> for one row, dropping the row when nothing is left.\<close>

definition ridx_retain :: "(nat \<Rightarrow> bool) \<Rightarrow> overflow_row_index \<Rightarrow> nat \<Rightarrow> overflow_row_index" where
  "ridx_retain P ridx row =
     (case map_of ridx row of
        None \<Rightarrow> ridx
      | Some cols \<Rightarrow>
          let cols = filter P cols
          in if cols = [] then AList.delete row ridx else AList.update row cols ridx)"

definition overflow_ridx_remove :: "overflow_row_index \<Rightarrow> nat \<Rightarrow> nat \<Rightarrow> overflow_row_index" where
  "overflow_ridx_remove ridx row col = ridx_retain (\<lambda>c. c \<noteq> col) ridx row"

definition overflow_ridx_clear_row :: "overflow_row_index \<Rightarrow> nat \<Rightarrow> overflow_row_index" where
  "overflow_ridx_clear_row ridx row = AList.delete row ridx"

definition overflow_ridx_clear_range ::
  "overflow_row_index \<Rightarrow> nat \<Rightarrow> nat \<Rightarrow> nat \<Rightarrow> overflow_row_index" where
  "overflow_ridx_clear_range ridx row start_col end_col =
     ridx_retain (\<lambda>c. c < start_col \<or> c \<ge> end_col) ridx row"

definition overflow_ridx_rebuild :: "overflow_table \<Rightarrow> overflow_row_index" where
  "overflow_ridx_rebuild table =
     foldl (\<lambda>ridx e. AList.update (snd (fst e)) (ridx_cols ridx (snd (fst e)) @ [fst (fst e)]) ridx)
       [] table"

text \<open>The contract of the reverse index: it lists exactly the columns with an entry, each once,
  and has no empty rows.\<close>

definition table_cols :: "overflow_table \<Rightarrow> nat \<Rightarrow> nat set" where
  "table_cols table row = {col. (col, row) \<in> fst ` set table}"

definition no_empty_row :: "overflow_row_index \<Rightarrow> bool" where
  "no_empty_row ridx \<longleftrightarrow> (\<forall>row. map_of ridx row \<noteq> Some [])"

definition ridx_agrees :: "overflow_table \<Rightarrow> overflow_row_index \<Rightarrow> bool" where
  "ridx_agrees table ridx \<longleftrightarrow>
     distinct (map fst table) \<and> distinct (map fst ridx) \<and> no_empty_row ridx
     \<and> (\<forall>row. distinct (ridx_cols ridx row) \<and> set (ridx_cols ridx row) = table_cols table row)"

lemma ridx_cols_update [simp]:
  "ridx_cols (AList.update row cs ridx) r = (if r = row then cs else ridx_cols ridx r)"
  by (simp add: ridx_cols_def map_of_update)

lemma ridx_cols_delete [simp]:
  "ridx_cols (AList.delete row ridx) r = (if r = row then [] else ridx_cols ridx r)"
  by (simp add: ridx_cols_def map_of_delete)

lemma ridx_cols_retain [simp]:
  "ridx_cols (ridx_retain P ridx row) r =
     (if r = row then filter P (ridx_cols ridx row) else ridx_cols ridx r)"
  by (auto simp: ridx_retain_def Let_def ridx_cols_def map_of_update map_of_delete split: option.splits)

lemma distinct_ridx_retain [simp]:
  "distinct (map fst ridx) \<Longrightarrow> distinct (map fst (ridx_retain P ridx row))"
  by (auto simp: ridx_retain_def Let_def distinct_update distinct_delete split: option.splits)

lemma no_empty_row_simps [simp]:
  "no_empty_row []"
  "no_empty_row ridx \<Longrightarrow> no_empty_row (AList.delete row ridx)"
  "no_empty_row ridx \<Longrightarrow> cs \<noteq> [] \<Longrightarrow> no_empty_row (AList.update row cs ridx)"
  "no_empty_row ridx \<Longrightarrow> no_empty_row (ridx_retain P ridx row)"
  by (auto simp: no_empty_row_def ridx_retain_def Let_def map_of_update map_of_delete
      split: option.splits if_splits)

lemma fst_update: "fst ` set (AList.update k v al) = insert k (fst ` set al)"
  using dom_update [of k v al] by (simp add: dom_map_of_conv_image_fst)

lemma fst_delete: "fst ` set (AList.delete k al) = fst ` set al - {k}"
  by (force simp: AList.delete_eq)

lemma table_cols_simps [simp]:
  "table_cols [] r = {}"
  "table_cols (AList.update (col, row) s table) r =
     (if r = row then insert col (table_cols table r) else table_cols table r)"
  "table_cols (AList.delete (col, row) table) r =
     (if r = row then table_cols table r - {col} else table_cols table r)"
  "table_cols (overflow_clear_row table row) r = (if r = row then {} else table_cols table r)"
  "table_cols (table @ [((col, row), s)]) r =
     (if r = row then insert col (table_cols table r) else table_cols table r)"
  by (auto simp: table_cols_def fst_update fst_delete overflow_clear_row_def intro: rev_image_eqI)

lemma table_cols_clear_range [simp]:
  "table_cols (overflow_clear_range table row a b) r =
     (if r = row then {c \<in> table_cols table r. c < a \<or> b \<le> c} else table_cols table r)"
  by (auto simp: table_cols_def overflow_clear_range_def intro: rev_image_eqI)

lemma distinct_overflow_clear [simp]:
  "distinct (map fst table) \<Longrightarrow> distinct (map fst (overflow_clear_row table row))"
  "distinct (map fst table) \<Longrightarrow> distinct (map fst (overflow_clear_range table row a b))"
  by (simp_all add: overflow_clear_row_def overflow_clear_range_def distinct_retain)

lemma ridx_agrees_Nil [simp]: "ridx_agrees [] []"
  by (simp add: ridx_agrees_def ridx_cols_def)

lemma ridx_agrees_insert:
  assumes "ridx_agrees table ridx"
  shows "ridx_agrees (AList.update (col, row) s table) (overflow_ridx_insert ridx row col)"
proof -
  have "set (ridx_cols ridx row) = table_cols table row" using assms by (simp add: ridx_agrees_def)
  with assms show ?thesis
    by (cases "ridx_cols ridx row = []")
      (auto simp: ridx_agrees_def overflow_ridx_insert_def Let_def distinct_update)
qed

lemma ridx_agrees_remove:
  "ridx_agrees table ridx \<Longrightarrow>
     ridx_agrees (AList.delete (col, row) table) (overflow_ridx_remove ridx row col)"
  by (auto simp: ridx_agrees_def overflow_ridx_remove_def distinct_delete)

lemma ridx_agrees_clear_row:
  "ridx_agrees table ridx \<Longrightarrow>
     ridx_agrees (overflow_clear_row table row) (overflow_ridx_clear_row ridx row)"
  by (auto simp: ridx_agrees_def overflow_ridx_clear_row_def distinct_delete)

lemma ridx_agrees_clear_range:
  "ridx_agrees table ridx \<Longrightarrow>
     ridx_agrees (overflow_clear_range table row a b) (overflow_ridx_clear_range ridx row a b)"
  by (auto simp: ridx_agrees_def overflow_ridx_clear_range_def)

lemma ridx_agrees_push:
  "ridx_agrees table ridx \<Longrightarrow> (col, row) \<notin> fst ` set table \<Longrightarrow>
     ridx_agrees (table @ [((col, row), s)]) (AList.update row (ridx_cols ridx row @ [col]) ridx)"
  by (auto simp: ridx_agrees_def distinct_update table_cols_def)

lemma ridx_agrees_rebuild:
  "distinct (map fst table) \<Longrightarrow> ridx_agrees table (overflow_ridx_rebuild table)"
proof (induction table rule: rev_induct)
  case Nil
  then show ?case by (simp add: overflow_ridx_rebuild_def)
next
  case (snoc e table)
  obtain c r s where e: "e = ((c, r), s)" by (metis surj_pair)
  have "ridx_agrees table (overflow_ridx_rebuild table)" using snoc by simp
  moreover have "(c, r) \<notin> fst ` set table" using snoc.prems e by auto
  ultimately show ?case
    using ridx_agrees_push [of table "overflow_ridx_rebuild table" c r s]
    by (simp add: e overflow_ridx_rebuild_def)
qed

end
