(* ===== verification/InternTables.thy ===== *)
theory InternTables
  imports Cells
begin

text \<open>
  \<open>style_table.rs\<close> and \<open>char_table.rs\<close>: the two reference-counted intern tables behind
  the compressed scrollback.  Both are one algorithm over a different entry type, so they share
  the record \<open>'e itable\<close> and its operations; \<open>style_*\<close> and \<open>char_*\<close> are the two
  tables as the code has them.  Ids and reference counts are naturals (\<open>u16\<close>/\<open>u32\<close>), the
  saturation at \<open>u32::MAX\<close> is written out, and the \<open>HashMap\<close> from entries to ids is a
  partial function (its iteration order is never used).
\<close>

record 'e itable =
  it_storage :: "'e list"
  it_dedup :: "'e \<Rightarrow> nat option"
  it_refcount :: "nat list"
  it_free_list :: "nat list"
  it_warn :: nat

definition itable_intern :: "nat \<Rightarrow> nat \<Rightarrow> 'e itable \<Rightarrow> 'e \<Rightarrow> nat \<times> 'e itable" where
  "itable_intern cap sat_id t entry =
     (case it_dedup t entry of
        Some sid \<Rightarrow> (sid, t\<lparr>it_refcount := (it_refcount t)[sid := sat_add32 (it_refcount t ! sid) 1]\<rparr>)
      | None \<Rightarrow>
          if it_free_list t \<noteq> [] then
            let sid = last (it_free_list t)
            in (sid, t\<lparr>it_free_list := butlast (it_free_list t),
                      it_storage := (it_storage t)[sid := entry],
                      it_refcount := (it_refcount t)[sid := 1],
                      it_dedup := (it_dedup t)(entry \<mapsto> sid)\<rparr>)
          else if length (it_storage t) \<ge> cap then
            (sat_id, t\<lparr>it_warn := sat_add32 (it_warn t) 1\<rparr>)
          else
            let sid = length (it_storage t)
            in (sid, t\<lparr>it_storage := it_storage t @ [entry], it_refcount := it_refcount t @ [1],
                      it_dedup := (it_dedup t)(entry \<mapsto> sid)\<rparr>))"

definition itable_dec_ref :: "'e \<Rightarrow> 'e itable \<Rightarrow> nat \<Rightarrow> 'e itable" where
  "itable_dec_ref freed t sid =
     (if sid \<ge> length (it_refcount t) then t
      else if it_refcount t ! sid = 0 then t
      else
        let rc = it_refcount t ! sid - 1;
            t1 = t\<lparr>it_refcount := (it_refcount t)[sid := rc]\<rparr>
        in if rc = 0 then
             t1\<lparr>it_dedup := (it_dedup t1)(it_storage t ! sid := None),
                it_storage := (it_storage t)[sid := freed],
                it_free_list := it_free_list t @ [sid]\<rparr>
           else t1)"

definition itable_inc_ref :: "'e itable \<Rightarrow> nat \<Rightarrow> 'e itable" where
  "itable_inc_ref t sid =
     (if sid \<ge> length (it_refcount t) then t
      else t\<lparr>it_refcount := (it_refcount t)[sid := sat_add32 (it_refcount t ! sid) 1]\<rparr>)"

definition itable_refcount :: "'e itable \<Rightarrow> nat \<Rightarrow> nat" where
  "itable_refcount t sid = (if sid < length (it_refcount t) then it_refcount t ! sid else 0)"

definition live_entries :: "'e itable \<Rightarrow> nat" where
  "live_entries t = length (it_storage t) - length (it_free_list t)"

definition slot_count :: "'e itable \<Rightarrow> nat" where
  "slot_count t = length (it_storage t)"

definition itable_snapshot :: "'e itable \<Rightarrow> 'e list \<times> nat list \<times> nat list" where
  "itable_snapshot t = (it_storage t, it_refcount t, it_free_list t)"

subsection \<open>Style table\<close>

record style_entry =
  se_fg :: packed_color
  se_bg :: packed_color
  se_flags :: flags16
  se_underline_style :: u8
  se_underline_color :: "u8 \<times> u8 \<times> u8"
  se_hyperlink_id :: nat

definition style_entry_default :: style_entry where
  "style_entry_default =
     \<lparr>se_fg = color_default, se_bg = color_default, se_flags = 0, se_underline_style = 0,
      se_underline_color = (0, 0, 0), se_hyperlink_id = 0\<rparr>"

type_synonym style_table = "style_entry itable"

definition style_table_new :: style_table where
  "style_table_new =
     \<lparr>it_storage = [style_entry_default], it_dedup = [style_entry_default \<mapsto> 0],
      it_refcount = [U32_MAX], it_free_list = [], it_warn = 0\<rparr>"

definition style_intern :: "style_table \<Rightarrow> style_entry \<Rightarrow> nat \<times> style_table" where
  "style_intern t entry = itable_intern U16_MAX 0 t entry"

definition style_dec_ref :: "style_table \<Rightarrow> nat \<Rightarrow> style_table" where
  "style_dec_ref t sid = (if sid = 0 then t else itable_dec_ref style_entry_default t sid)"

definition style_get_or_default :: "style_table \<Rightarrow> nat \<Rightarrow> style_entry" where
  "style_get_or_default t sid =
     (if sid < length (it_storage t) then it_storage t ! sid else style_entry_default)"

definition style_from_snapshot ::
  "style_entry list \<Rightarrow> nat list \<Rightarrow> nat list \<Rightarrow> style_table option" where
  "style_from_snapshot storage refcount free_list =
     (if length storage \<noteq> length refcount then None
      else if storage = [] then None
      else if storage ! 0 \<noteq> style_entry_default then None
      else if refcount ! 0 \<noteq> U32_MAX then None
      else
        let dedup = foldl (\<lambda>m i. if i mod 65536 \<in> set free_list then m
                                 else m(storage ! i \<mapsto> i mod 65536))
                      Map.empty [0..<length storage]
        in Some \<lparr>it_storage = storage, it_dedup = dedup, it_refcount = refcount,
                 it_free_list = free_list, it_warn = 0\<rparr>)"

subsection \<open>Grapheme table\<close>

type_synonym char_table = "rstring itable"

definition DEFAULT_STR :: rstring where "DEFAULT_STR = [0x3F]"
definition CHAR_TABLE_SATURATED_ID :: nat where "CHAR_TABLE_SATURATED_ID = U32_MAX"
definition MAX_ENTRIES :: nat where "MAX_ENTRIES = U32_MAX - 1"

definition char_table_new :: char_table where
  "char_table_new = \<lparr>it_storage = [], it_dedup = Map.empty, it_refcount = [], it_free_list = [],
     it_warn = 0\<rparr>"

definition char_intern :: "char_table \<Rightarrow> rstring \<Rightarrow> nat \<times> char_table" where
  "char_intern t s = itable_intern MAX_ENTRIES CHAR_TABLE_SATURATED_ID t s"

definition char_dec_ref :: "char_table \<Rightarrow> nat \<Rightarrow> char_table" where
  "char_dec_ref t sid = itable_dec_ref [] t sid"

definition char_get_or_default :: "char_table \<Rightarrow> nat \<Rightarrow> rstring" where
  "char_get_or_default t sid =
     (if sid < length (it_storage t) then
        let s = it_storage t ! sid in if s = [] then DEFAULT_STR else s
      else DEFAULT_STR)"

definition char_from_snapshot ::
  "rstring list \<Rightarrow> nat list \<Rightarrow> nat list \<Rightarrow> char_table option" where
  "char_from_snapshot storage refcount free_list =
     (if length storage \<noteq> length refcount then None
      else
        let dedup = foldl (\<lambda>m i. if i mod 4294967296 \<in> set free_list then m
                                 else if storage ! i = [] then m
                                 else m(storage ! i \<mapsto> i mod 4294967296))
                      Map.empty [0..<length storage]
        in Some \<lparr>it_storage = storage, it_dedup = dedup, it_refcount = refcount,
                 it_free_list = free_list, it_warn = 0\<rparr>)"

subsection \<open>Invariant of a table\<close>

text \<open>The slots with reference count 0 are exactly the free ones, and the reverse map is exact on
  the others; in particular two live slots never hold the same entry.\<close>

definition itable_ok :: "'e itable \<Rightarrow> bool" where
  "itable_ok t \<longleftrightarrow>
     length (it_refcount t) = length (it_storage t) \<and> distinct (it_free_list t)
     \<and> (\<forall>i. i \<in> set (it_free_list t) \<longleftrightarrow> i < length (it_storage t) \<and> it_refcount t ! i = 0)
     \<and> (\<forall>i < length (it_storage t). it_refcount t ! i \<le> U32_MAX)
     \<and> (\<forall>e i. it_dedup t e = Some i \<longleftrightarrow>
          i < length (it_storage t) \<and> 0 < it_refcount t ! i \<and> it_storage t ! i = e)"

lemma itable_okD:
  assumes "itable_ok t"
  shows "length (it_refcount t) = length (it_storage t)" "distinct (it_free_list t)"
    "i \<in> set (it_free_list t) \<longleftrightarrow> i < length (it_storage t) \<and> it_refcount t ! i = 0"
    "i < length (it_storage t) \<Longrightarrow> it_refcount t ! i \<le> U32_MAX"
    "it_dedup t e = Some i \<longleftrightarrow>
       i < length (it_storage t) \<and> 0 < it_refcount t ! i \<and> it_storage t ! i = e"
  using assms unfolding itable_ok_def by blast+

lemma itable_okI:
  assumes "length (it_refcount t) = length (it_storage t)" "distinct (it_free_list t)"
    "\<And>i. i \<in> set (it_free_list t) \<longleftrightarrow> i < length (it_storage t) \<and> it_refcount t ! i = 0"
    "\<And>i. i < length (it_storage t) \<Longrightarrow> it_refcount t ! i \<le> U32_MAX"
    "\<And>e i. it_dedup t e = Some i \<longleftrightarrow>
       i < length (it_storage t) \<and> 0 < it_refcount t ! i \<and> it_storage t ! i = e"
  shows "itable_ok t"
  using assms unfolding itable_ok_def by blast

definition accepted :: "nat \<Rightarrow> 'e itable \<Rightarrow> 'e \<Rightarrow> bool" where
  "accepted cap t e \<longleftrightarrow>
     it_dedup t e \<noteq> None \<or> it_free_list t \<noteq> [] \<or> length (it_storage t) < cap"

text \<open>The three ways an entry is accepted.\<close>

lemma itable_intern_cases:
  assumes "itable_ok t" and "accepted cap t e"
  obtains (hit) i where "it_dedup t e = Some i" "i < length (it_storage t)"
      "0 < it_refcount t ! i" "it_storage t ! i = e"
      "itable_intern cap s t e =
        (i, t\<lparr>it_refcount := (it_refcount t)[i := sat_add32 (it_refcount t ! i) 1]\<rparr>)"
  | (reuse) i where "it_dedup t e = None" "i < length (it_storage t)" "it_refcount t ! i = 0"
      "it_free_list t = butlast (it_free_list t) @ [i]"
      "itable_intern cap s t e =
        (i, t\<lparr>it_free_list := butlast (it_free_list t), it_storage := (it_storage t)[i := e],
          it_refcount := (it_refcount t)[i := 1], it_dedup := (it_dedup t)(e \<mapsto> i)\<rparr>)"
  | (fresh) "it_dedup t e = None" "it_free_list t = []" "length (it_storage t) < cap"
      "itable_intern cap s t e =
        (length (it_storage t), t\<lparr>it_storage := it_storage t @ [e], it_refcount := it_refcount t @ [1],
          it_dedup := (it_dedup t)(e \<mapsto> length (it_storage t))\<rparr>)"
proof (cases "it_dedup t e")
  case (Some i)
  with itable_okD(5) [OF assms(1), of e i] show thesis
    by (intro hit) (simp_all add: itable_intern_def)
next
  case None
  show thesis
  proof (cases "it_free_list t = []")
    case True
    with None assms(2) show thesis by (intro fresh) (auto simp: itable_intern_def accepted_def Let_def)
  next
    case False
    then have "last (it_free_list t) \<in> set (it_free_list t)" by simp
    with itable_okD(3) [OF assms(1)] None False show thesis
      by (intro reuse [of "last (it_free_list t)"]) (simp_all add: itable_intern_def Let_def)
  qed
qed

lemma itable_intern_rejected:
  "\<not> accepted cap t e \<Longrightarrow> itable_intern cap s t e = (s, t\<lparr>it_warn := sat_add32 (it_warn t) 1\<rparr>)"
  by (auto simp: itable_intern_def accepted_def not_less)

lemma itable_ok_warn [simp]: "itable_ok (t\<lparr>it_warn := n\<rparr>) = itable_ok t"
  by (simp add: itable_ok_def)

lemma sat_add32_pos: "0 < sat_add32 a 1"
  by (simp add: sat_defs)

lemma sat_add32_le: "sat_add32 a b \<le> U32_MAX"
  by (simp add: sat_add32_def)

lemma itable_intern_ok:
  assumes "itable_ok t"
  shows "itable_ok (snd (itable_intern cap s t e))"
proof (cases "accepted cap t e")
  case False
  then show ?thesis using assms by (simp add: itable_intern_rejected)
next
  case True
  note D = itable_okD [OF assms]
  from assms True show ?thesis
  proof (cases rule: itable_intern_cases [where s = s])
    case (hit i)
    then show ?thesis using D sat_add32_pos [of "it_refcount t ! i"] sat_add32_le [of "it_refcount t ! i" 1]
      unfolding itable_ok_def by (auto simp: nth_list_update split: if_splits)
  next
    case (reuse i)
    have fl: "distinct (butlast (it_free_list t))" "i \<notin> set (butlast (it_free_list t))"
      using D(2) reuse(4) by (metis distinct_append, metis distinct_append distinct_singleton
        disjoint_iff list.set_intros(1))
    have fs: "j \<in> set (it_free_list t) \<longleftrightarrow> j \<in> set (butlast (it_free_list t)) \<or> j = i" for j
      by (subst reuse(4)) auto
    have ne: "j < length (it_storage t) \<Longrightarrow> 0 < it_refcount t ! j \<Longrightarrow> it_storage t ! j \<noteq> e" for j
      using D(5) [of e j] reuse(1) by auto
    let ?t = "snd (itable_intern cap s t e)"
    show ?thesis
    proof (rule itable_okI)
      show "j \<in> set (it_free_list ?t) \<longleftrightarrow> j < length (it_storage ?t) \<and> it_refcount ?t ! j = 0" for j
        using fl(2) fs [of j] D(1,3) reuse(2) by (auto simp: reuse(5) nth_list_update)
      show "it_dedup ?t x = Some j \<longleftrightarrow>
          j < length (it_storage ?t) \<and> 0 < it_refcount ?t ! j \<and> it_storage ?t ! j = x" for x j
        using D(1) D(5) [of x j] ne [of j] reuse(1-3) by (auto simp: reuse(5) nth_list_update)
      show "j < length (it_storage ?t) \<Longrightarrow> it_refcount ?t ! j \<le> U32_MAX" for j
        using D(1) D(4) [of j] by (cases "j = i") (simp_all add: reuse(5) U32_MAX_def)
    qed (use D(1) fl(1) in \<open>simp_all add: reuse(5)\<close>)
  next
    case fresh
    have ne: "j < length (it_storage t) \<Longrightarrow> 0 < it_refcount t ! j \<Longrightarrow> it_storage t ! j \<noteq> e" for j
      using D(5) [of e j] fresh(1) by auto
    have fl: "j < length (it_storage t) \<Longrightarrow> 0 < it_refcount t ! j" for j
      using D(3) [of j] fresh(2) by auto
    show ?thesis unfolding itable_ok_def fresh(4) snd_conv
      using D ne fl fresh(2) by (auto simp: nth_append U32_MAX_def less_Suc_eq split: if_splits)
  qed
qed

lemma itable_dec_cases:
  assumes "itable_ok t"
  obtains (dead) "itable_refcount t i = 0" "itable_dec_ref d t i = t"
  | (keep) "1 < it_refcount t ! i" "i < length (it_storage t)"
      "itable_dec_ref d t i = t\<lparr>it_refcount := (it_refcount t)[i := it_refcount t ! i - 1]\<rparr>"
  | (freed) "it_refcount t ! i = 1" "i < length (it_storage t)"
      "itable_dec_ref d t i = t\<lparr>it_refcount := (it_refcount t)[i := 0],
        it_dedup := (it_dedup t)(it_storage t ! i := None), it_storage := (it_storage t)[i := d],
        it_free_list := it_free_list t @ [i]\<rparr>"
proof (cases "itable_refcount t i")
  case 0
  then show thesis
    by (intro dead) (auto simp: itable_dec_ref_def itable_refcount_def split: if_splits)
next
  case (Suc n)
  then have i: "i < length (it_refcount t)" "it_refcount t ! i = Suc n"
    by (auto simp: itable_refcount_def split: if_splits)
  note l = itable_okD(1) [OF assms]
  show thesis
  proof (cases n)
    case 0
    with i l show thesis by (intro freed) (simp_all add: itable_dec_ref_def Let_def)
  next
    case (Suc m)
    with i l show thesis by (intro keep) (simp_all add: itable_dec_ref_def Let_def)
  qed
qed

lemma itable_dec_ok:
  assumes "itable_ok t"
  shows "itable_ok (itable_dec_ref d t i)"
proof -
  note D = itable_okD [OF assms]
  from assms show ?thesis
  proof (cases rule: itable_dec_cases [where i = i and d = d])
    case dead
    then show ?thesis using assms by simp
  next
    case keep
    let ?t = "itable_dec_ref d t i"
    show ?thesis
    proof (rule itable_okI)
      show "it_dedup ?t x = Some j \<longleftrightarrow>
          j < length (it_storage ?t) \<and> 0 < it_refcount ?t ! j \<and> it_storage ?t ! j = x" for x j
        using D(1) D(5) [of x j] keep(1,2) by (cases "j = i") (auto simp: keep(3))
      show "j \<in> set (it_free_list ?t) \<longleftrightarrow> j < length (it_storage ?t) \<and> it_refcount ?t ! j = 0" for j
        using D(1) D(3) [of j] keep(1,2) by (cases "j = i") (auto simp: keep(3))
      show "j < length (it_storage ?t) \<Longrightarrow> it_refcount ?t ! j \<le> U32_MAX" for j
        using D(1) D(4) [of j] keep(2) by (cases "j = i") (auto simp: keep(3))
    qed (use D(1,2) in \<open>simp_all add: keep(3)\<close>)
  next
    case freed
    let ?t = "itable_dec_ref d t i"
    have nf: "i \<notin> set (it_free_list t)" using D(3) [of i] freed(1) by simp
    show ?thesis
    proof (rule itable_okI)
      show "it_dedup ?t x = Some j \<longleftrightarrow>
          j < length (it_storage ?t) \<and> 0 < it_refcount ?t ! j \<and> it_storage ?t ! j = x" for x j
        using D(1) D(5) [of x j] D(5) [of x i] freed(1,2) by (auto simp: freed(3) nth_list_update)
      show "j \<in> set (it_free_list ?t) \<longleftrightarrow> j < length (it_storage ?t) \<and> it_refcount ?t ! j = 0" for j
        using D(1) D(3) [of j] freed(1,2) by (auto simp: freed(3) nth_list_update)
      show "j < length (it_storage ?t) \<Longrightarrow> it_refcount ?t ! j \<le> U32_MAX" for j
        using D(1) D(4) [of j] freed(2) by (auto simp: freed(3) nth_list_update)
    qed (use D(1,2) nf in \<open>simp_all add: freed(3)\<close>)
  qed
qed

subsection \<open>Effect of the operations on counts and contents\<close>

lemma itable_intern_refcount:
  assumes "itable_ok t" and "accepted cap t e"
  shows "itable_refcount (snd (itable_intern cap s t e)) j =
    (if j = fst (itable_intern cap s t e) then sat_add32 (itable_refcount t j) 1 else itable_refcount t j)"
  using assms
proof (cases rule: itable_intern_cases [where s = s])
  case (hit i)
  with itable_okD(1) [OF assms(1)] show ?thesis by (simp add: itable_refcount_def nth_list_update)
next
  case (reuse i)
  with itable_okD(1) [OF assms(1)] show ?thesis
    by (simp add: itable_refcount_def nth_list_update sat_defs)
next
  case fresh
  with itable_okD(1) [OF assms(1)] show ?thesis
    by (auto simp: itable_refcount_def nth_append sat_defs)
qed

lemma itable_intern_storage:
  assumes "itable_ok t" and "accepted cap t e"
  shows "fst (itable_intern cap s t e) < length (it_storage (snd (itable_intern cap s t e)))
    \<and> it_storage (snd (itable_intern cap s t e)) ! fst (itable_intern cap s t e) = e"
  using assms
  by (cases rule: itable_intern_cases [where s = s]) auto

lemma itable_intern_frame:
  assumes "itable_ok t" and "0 < itable_refcount t j"
  shows "it_storage (snd (itable_intern cap s t e)) ! j = it_storage t ! j"
proof (cases "accepted cap t e")
  case False
  then show ?thesis by (simp add: itable_intern_rejected)
next
  case True
  have j: "j < length (it_storage t)" "0 < it_refcount t ! j"
    using assms itable_okD(1) [OF assms(1)] by (auto simp: itable_refcount_def split: if_splits)
  from assms(1) True show ?thesis
    by (cases rule: itable_intern_cases [where s = s])
      (use j in \<open>auto simp: nth_list_update nth_append\<close>)
qed

lemma itable_dec_refcount:
  assumes "itable_ok t"
  shows "itable_refcount (itable_dec_ref d t i) j =
    (if j = i then itable_refcount t j - 1 else itable_refcount t j)"
  using assms
proof (cases rule: itable_dec_cases [where i = i and d = d])
  case dead
  then show ?thesis by simp
next
  case keep
  with itable_okD(1) [OF assms] show ?thesis by (simp add: itable_refcount_def nth_list_update)
next
  case freed
  with itable_okD(1) [OF assms] show ?thesis by (simp add: itable_refcount_def nth_list_update)
qed

lemma itable_dec_frame:
  assumes "itable_ok t" and "0 < itable_refcount (itable_dec_ref d t i) j"
  shows "it_storage (itable_dec_ref d t i) ! j = it_storage t ! j"
  using assms(1)
proof (cases rule: itable_dec_cases [where i = i and d = d])
  case freed
  with assms(2) itable_okD(1) [OF assms(1)] show ?thesis
    by (cases "j = i") (simp_all add: itable_refcount_def)
qed simp_all

lemma itable_dec_length [simp]: "length (it_storage (itable_dec_ref d t i)) = length (it_storage t)"
  by (simp add: itable_dec_ref_def Let_def)

lemma itable_intern_length:
  "length (it_storage t) \<le> length (it_storage (snd (itable_intern cap s t e)))
   \<and> (length (it_storage t) \<le> cap \<longrightarrow> length (it_storage (snd (itable_intern cap s t e))) \<le> cap)"
  by (auto simp: itable_intern_def Let_def split: option.splits)

lemma refcount_pos: "0 < itable_refcount t i \<Longrightarrow> itable_ok t \<Longrightarrow> i < length (it_storage t)"
  using itable_okD(1) [of t] by (auto simp: itable_refcount_def split: if_splits)

lemma live_entry_unique:
  assumes "itable_ok t" and "0 < itable_refcount t i" and "0 < itable_refcount t j"
    and "it_storage t ! i = it_storage t ! j"
  shows "i = j"
proof -
  have "0 < it_refcount t ! i" "0 < it_refcount t ! j"
    using assms(2,3) by (auto simp: itable_refcount_def split: if_splits)
  then have "it_dedup t (it_storage t ! i) = Some i" "it_dedup t (it_storage t ! i) = Some j"
    using itable_okD(5) [OF assms(1)] refcount_pos assms by auto
  then show ?thesis by simp
qed
end
