(* ===== verification/InternContract.thy ===== *)
theory InternContract
  imports InternTables
begin

text \<open>
  What the two intern tables promise their clients, stated once as the interface
  \<open>intern_table\<close> and discharged for both: a handle keeps resolving to the entry it was
  acquired for until it has been released as often as it was acquired.  The end of the theory has
  the snapshot round trip.
\<close>

text \<open>A client acquires handles for entries and releases the \<open>k\<close>-th handle it holds.  It keeps
  the list of the handles it holds, each with the entry it stands for; a request the full table
  turns down yields no handle.\<close>

datatype 'e table_op = Acquire 'e | Release nat

definition client_step ::
  "('t \<Rightarrow> 'e \<Rightarrow> nat \<times> 't) \<Rightarrow> ('t \<Rightarrow> nat \<Rightarrow> 't) \<Rightarrow> ('t \<Rightarrow> 'e \<Rightarrow> bool) \<Rightarrow>
     't \<times> (nat \<times> 'e) list \<Rightarrow> 'e table_op \<Rightarrow> 't \<times> (nat \<times> 'e) list" where
  "client_step intern dec acc st op =
     (case op of
        Acquire e \<Rightarrow>
          let (i, t) = intern (fst st) e
          in (t, if acc (fst st) e then (i, e) # snd st else snd st)
      | Release k \<Rightarrow>
          if k < length (snd st)
          then (dec (fst st) (fst (snd st ! k)), take k (snd st) @ drop (Suc k) (snd st)) else st)"

definition handle_count :: "(nat \<times> 'e) list \<Rightarrow> nat \<Rightarrow> nat" where
  "handle_count held i = length (filter (\<lambda>h. fst h = i) held)"

lemma handle_count_Cons: "handle_count (h # held) i = (if fst h = i then 1 else 0) + handle_count held i"
  by (simp add: handle_count_def)

lemma handle_count_remove:
  assumes "k < length held"
  shows "handle_count (take k held @ drop (Suc k) held) i =
    handle_count held i - (if fst (held ! k) = i then 1 else 0)"
proof -
  have "handle_count held i = handle_count (take k held @ held ! k # drop (Suc k) held) i"
    using assms by (simp add: id_take_nth_drop [symmetric])
  then show ?thesis by (simp add: handle_count_def)
qed

lemma handle_count_le: "handle_count held i \<le> length held"
  by (simp add: handle_count_def)

lemma handle_count_pos: "(i, e) \<in> set held \<Longrightarrow> 0 < handle_count held i"
  by (force simp: handle_count_def filter_empty_conv)

locale intern_table =
  fixes ok :: "'t \<Rightarrow> bool"
    and refs :: "'t \<Rightarrow> nat \<Rightarrow> nat"
    and get :: "'t \<Rightarrow> nat \<Rightarrow> 'e"
    and intern :: "'t \<Rightarrow> 'e \<Rightarrow> nat \<times> 't"
    and dec :: "'t \<Rightarrow> nat \<Rightarrow> 't"
    and acc :: "'t \<Rightarrow> 'e \<Rightarrow> bool"
    and entry_ok :: "'e \<Rightarrow> bool"
  assumes intern_ok: "ok t \<Longrightarrow> entry_ok e \<Longrightarrow> ok (snd (intern t e))"
    and intern_get: "ok t \<Longrightarrow> entry_ok e \<Longrightarrow> acc t e \<Longrightarrow> get (snd (intern t e)) (fst (intern t e)) = e"
    and intern_refs: "ok t \<Longrightarrow> acc t e \<Longrightarrow> refs (snd (intern t e)) j =
          (if j = fst (intern t e) then sat_add32 (refs t j) 1 else refs t j)"
    and reject_refs: "\<not> acc t e \<Longrightarrow> refs (snd (intern t e)) j = refs t j"
    and intern_frame: "ok t \<Longrightarrow> 0 < refs t j \<Longrightarrow> get (snd (intern t e)) j = get t j"
    and dec_ok: "ok t \<Longrightarrow> ok (dec t i)"
    and dec_refs: "ok t \<Longrightarrow> (if j = i then refs t j - 1 else refs t j) \<le> refs (dec t i) j"
    and dec_frame: "ok t \<Longrightarrow> 0 < refs (dec t i) j \<Longrightarrow> get (dec t i) j = get t j"
begin

definition holds :: "'t \<times> (nat \<times> 'e) list \<Rightarrow> bool" where
  "holds st \<longleftrightarrow> ok (fst st) \<and> (\<forall>i. handle_count (snd st) i \<le> refs (fst st) i)
     \<and> (\<forall>h \<in> set (snd st). get (fst st) (fst h) = snd h)"

lemma held_live: "holds st \<Longrightarrow> h \<in> set (snd st) \<Longrightarrow> 0 < refs (fst st) (fst h)"
  using handle_count_pos [of "fst h" "snd h" "snd st"] unfolding holds_def
  by (metis le_zero_eq not_gr_zero prod.collapse)

lemma acquire_holds:
  assumes st: "holds st" and e: "entry_ok e" and len: "length (snd st) < U32_MAX"
  shows "holds (client_step intern dec acc st (Acquire e))"
proof -
  let ?t = "snd (intern (fst st) e)" and ?i = "fst (intern (fst st) e)"
  have ok: "ok (fst st)" using st by (simp add: holds_def)
  have fr: "get ?t (fst h) = snd h" if "h \<in> set (snd st)" for h
    using intern_frame [OF ok held_live [OF st that], of e] st that by (simp add: holds_def)
  have cnt: "handle_count (snd st) j \<le> refs (fst st) j" for j using st by (simp add: holds_def)
  have "handle_count ((?i, e) # snd st) j \<le> refs ?t j" if "acc (fst st) e" for j
    using cnt [of j] handle_count_le [of "snd st" j] len
    by (cases "j = ?i") (simp_all add: intern_refs [OF ok that] handle_count_Cons sat_add32_def)
  with fr cnt show ?thesis
    using intern_ok [OF ok e] intern_get [OF ok e] reject_refs [of "fst st" e]
    by (simp add: holds_def client_step_def split_def Let_def)
qed

lemma release_holds:
  assumes st: "holds st"
  shows "holds (client_step intern dec acc st (Release k))"
proof (cases "k < length (snd st)")
  case False
  with st show ?thesis by (simp add: client_step_def)
next
  case True
  let ?i = "fst (snd st ! k)" and ?held = "take k (snd st) @ drop (Suc k) (snd st)"
  have ok: "ok (fst st)" using st by (simp add: holds_def)
  have cnt: "handle_count ?held j \<le> refs (dec (fst st) ?i) j" for j
  proof -
    have "handle_count ?held j \<le> (if j = ?i then refs (fst st) j - 1 else refs (fst st) j)"
      using st by (auto simp: handle_count_remove [OF True] holds_def intro: diff_le_mono)
    from le_trans [OF this dec_refs [OF ok]] show ?thesis .
  qed
  have "get (dec (fst st) ?i) (fst h) = snd h" if h: "h \<in> set ?held" for h
  proof -
    have "0 < handle_count ?held (fst h)" using h by (intro handle_count_pos [where e = "snd h"]) simp
    with cnt [of "fst h"] have "0 < refs (dec (fst st) ?i) (fst h)" by simp
    from dec_frame [OF ok this] st h show ?thesis
      by (auto simp: holds_def dest: in_set_takeD in_set_dropD)
  qed
  with cnt dec_ok [OF ok] True show ?thesis by (simp add: holds_def client_step_def)
qed

lemma client_step_length: "length (snd (client_step intern dec acc st op)) \<le> Suc (length (snd st))"
  by (auto simp: client_step_def split_def Let_def split: table_op.split)

lemma client_run_holds:
  assumes "holds st" and "list_all (\<lambda>op. case op of Acquire e \<Rightarrow> entry_ok e | Release k \<Rightarrow> True) ops"
    and "length (snd st) + length ops \<le> U32_MAX"
  shows "holds (foldl (client_step intern dec acc) st ops)"
  using assms
proof (induction ops arbitrary: st)
  case (Cons op ops)
  let ?st = "client_step intern dec acc st op"
  have "holds ?st"
    using Cons.prems by (cases op) (simp_all add: acquire_holds release_holds)
  moreover have "length (snd ?st) + length ops \<le> U32_MAX"
    using client_step_length [of st op] Cons.prems(3) by simp
  ultimately show ?case using Cons.IH [of ?st] Cons.prems(2) by simp
qed simp

lemma client_handles_resolve:
  assumes "ok t" and "list_all (\<lambda>op. case op of Acquire e \<Rightarrow> entry_ok e | Release k \<Rightarrow> True) ops"
    and "length ops \<le> U32_MAX" and "foldl (client_step intern dec acc) (t, []) ops = (t', held)"
  shows "list_all (\<lambda>h. get t' (fst h) = snd h \<and> handle_count held (fst h) \<le> refs t' (fst h)) held"
proof -
  have "holds (t, [])" using assms(1) by (simp add: holds_def handle_count_def)
  from client_run_holds [OF this assms(2)] assms(3,4) show ?thesis
    by (simp add: holds_def list_all_iff)
qed

end

subsection \<open>The style table\<close>

definition style_ok :: "style_table \<Rightarrow> bool" where
  "style_ok t \<longleftrightarrow> itable_ok t \<and> it_storage t \<noteq> [] \<and> it_storage t ! 0 = style_entry_default
     \<and> it_refcount t ! 0 = U32_MAX \<and> length (it_storage t) \<le> U16_MAX
     \<and> (\<forall>i \<in> set (it_free_list t). it_storage t ! i = style_entry_default)"

lemma style_table_new_ok: "style_ok style_table_new"
  by (auto simp: style_ok_def style_table_new_def itable_ok_def U32_MAX_def U16_MAX_def less_Suc_eq
      nth_Cons')

lemma style_zero_live: "style_ok t \<Longrightarrow> itable_refcount t 0 = U32_MAX"
  using itable_okD(1) [of t] by (auto simp: style_ok_def itable_refcount_def)

lemma not_free: "itable_ok t \<Longrightarrow> 0 < itable_refcount t i \<Longrightarrow> i \<notin> set (it_free_list t)"
  using itable_okD(1) [of t] itable_okD(3) [of t i] by (auto simp: itable_refcount_def split: if_splits)

lemma refcount_nth: "itable_ok t \<Longrightarrow> i < length (it_storage t) \<Longrightarrow> it_refcount t ! i = itable_refcount t i"
  using itable_okD(1) [of t] by (simp add: itable_refcount_def)

lemma itable_refcount_warn [simp]: "itable_refcount (t\<lparr>it_warn := n\<rparr>) i = itable_refcount t i"
  by (simp add: itable_refcount_def)

lemma style_intern_ok:
  assumes "style_ok t"
  shows "style_ok (snd (style_intern t e))"
proof -
  have ok: "itable_ok t" using assms by (simp add: style_ok_def)
  let ?t = "snd (itable_intern U16_MAX 0 t e)"
  have ok': "itable_ok ?t" by (rule itable_intern_ok [OF ok])
  have len: "length (it_storage t) \<le> length (it_storage ?t)" "length (it_storage ?t) \<le> U16_MAX"
    using itable_intern_length [of t U16_MAX 0 e] assms by (simp_all add: style_ok_def)
  have z: "it_storage ?t ! 0 = it_storage t ! 0"
    using itable_intern_frame [OF ok, of 0] style_zero_live [OF assms] by (simp add: U32_MAX_def)
  have "itable_refcount ?t 0 = U32_MAX"
  proof (cases "accepted U16_MAX t e")
    case True
    then show ?thesis using itable_intern_refcount [OF ok True, where s = 0 and j = 0] style_zero_live [OF assms]
      by (simp add: sat_add32_def)
  next
    case False
    with style_zero_live [OF assms] show ?thesis
      by (simp add: itable_intern_rejected)
  qed
  moreover have ne: "it_storage ?t \<noteq> []" using len(1) assms by (auto simp: style_ok_def)
  ultimately have r0: "it_refcount ?t ! 0 = U32_MAX" using refcount_nth [OF ok', of 0] by simp
  have "\<forall>i \<in> set (it_free_list ?t). it_storage ?t ! i = style_entry_default"
  proof (cases "accepted U16_MAX t e")
    case False
    with assms show ?thesis by (simp add: itable_intern_rejected style_ok_def)
  next
    case True
    from ok True show ?thesis
    proof (cases rule: itable_intern_cases [where s = 0])
      case (reuse i)
      have "i \<notin> set (butlast (it_free_list t))"
        using itable_okD(2) [OF ok] reuse(4) by (metis distinct_append disjoint_iff list.set_intros(1))
      with assms reuse show ?thesis by (auto simp: style_ok_def nth_list_update dest: in_set_butlastD)
    qed (use assms in \<open>auto simp: style_ok_def\<close>)
  qed
  with ok' len z ne r0 assms show ?thesis by (simp add: style_ok_def style_intern_def)
qed

lemma style_dec_ok:
  assumes "style_ok t"
  shows "style_ok (style_dec_ref t i)"
proof (cases "i = 0")
  case True
  with assms show ?thesis by (simp add: style_dec_ref_def)
next
  case False
  have ok: "itable_ok t" using assms by (simp add: style_ok_def)
  from ok show ?thesis
  proof (cases rule: itable_dec_cases [where i = i and d = style_entry_default])
    case freed
    with assms False itable_dec_ok [OF ok, of style_entry_default i] show ?thesis
      by (auto simp: style_ok_def style_dec_ref_def nth_list_update)
  qed (use assms False itable_dec_ok [OF ok, of style_entry_default i] in
        \<open>auto simp: style_ok_def style_dec_ref_def\<close>)
qed

interpretation style: intern_table style_ok itable_refcount style_get_or_default style_intern
  style_dec_ref "accepted U16_MAX" "\<lambda>e. True"
proof
  fix t :: style_table and e i j
  show "style_ok t \<Longrightarrow> style_ok (snd (style_intern t e))" by (rule style_intern_ok)
  show "style_ok t \<Longrightarrow> style_ok (style_dec_ref t i)" by (rule style_dec_ok)
  show "\<not> accepted U16_MAX t e \<Longrightarrow> itable_refcount (snd (style_intern t e)) j = itable_refcount t j"
    by (simp add: style_intern_def itable_intern_rejected)
  assume "style_ok t"
  then have ok: "itable_ok t" by (simp add: style_ok_def)
  show "accepted U16_MAX t e \<Longrightarrow>
      style_get_or_default (snd (style_intern t e)) (fst (style_intern t e)) = e"
    using itable_intern_storage [OF ok, of U16_MAX e 0]
    by (simp add: style_get_or_default_def style_intern_def)
  show "accepted U16_MAX t e \<Longrightarrow> itable_refcount (snd (style_intern t e)) j =
      (if j = fst (style_intern t e) then sat_add32 (itable_refcount t j) 1 else itable_refcount t j)"
    unfolding style_intern_def by (rule itable_intern_refcount [OF ok])
  show "0 < itable_refcount t j \<Longrightarrow>
      style_get_or_default (snd (style_intern t e)) j = style_get_or_default t j"
    using itable_intern_frame [OF ok, of j U16_MAX 0 e] refcount_pos [OF _ ok, of j]
      itable_intern_length [of t U16_MAX 0 e]
    by (simp add: style_get_or_default_def style_intern_def)
  show "(if j = i then itable_refcount t j - 1 else itable_refcount t j)
      \<le> itable_refcount (style_dec_ref t i) j"
    using itable_dec_refcount [OF ok, of style_entry_default i j]
    by (cases "j = i") (simp_all add: style_dec_ref_def)
  show "0 < itable_refcount (style_dec_ref t i) j \<Longrightarrow>
      style_get_or_default (style_dec_ref t i) j = style_get_or_default t j"
    using itable_dec_frame [OF ok, of style_entry_default i j]
    by (auto simp: style_get_or_default_def style_dec_ref_def split: if_splits)
qed

text \<open>C6. A style id stays valid while it is held: after any sequence of acquisitions and releases
  on a well-formed style table, every handle still held resolves to the style it was acquired for
  and is counted in the reference counts.\<close>

theorem style_handles_resolve:
  assumes "style_ok t" and "length ops \<le> U32_MAX"
    and "foldl (client_step style_intern style_dec_ref (accepted U16_MAX)) (t, []) ops = (t', held)"
  shows "list_all (\<lambda>h. style_get_or_default t' (fst h) = snd h
    \<and> handle_count held (fst h) \<le> itable_refcount t' (fst h)) held"
  using style.client_handles_resolve [OF assms(1) _ assms(2,3)]
  by (simp add: list_all_iff split: table_op.split)

lemma style_handles_resolve_witness:
  "\<exists>t held. foldl (client_step style_intern style_dec_ref (accepted U16_MAX)) (style_table_new, [])
      [Acquire (style_entry_default\<lparr>se_flags := 1\<rparr>), Acquire style_entry_default, Release 0] = (t, held)
    \<and> list_all (\<lambda>h. style_get_or_default t (fst h) = snd h
        \<and> handle_count held (fst h) \<le> itable_refcount t (fst h)) held"
proof -
  let ?ops = "[Acquire (style_entry_default\<lparr>se_flags := 1\<rparr>), Acquire style_entry_default, Release 0]"
  obtain t held where r: "foldl (client_step style_intern style_dec_ref (accepted U16_MAX))
      (style_table_new, []) ?ops = (t, held)" by fastforce
  from style_handles_resolve [OF style_table_new_ok _ r] r show ?thesis by (auto simp: U32_MAX_def)
qed

subsection \<open>The grapheme table\<close>

definition char_ok :: "char_table \<Rightarrow> bool" where
  "char_ok t \<longleftrightarrow> itable_ok t \<and> length (it_storage t) \<le> MAX_ENTRIES
     \<and> (\<forall>i < length (it_storage t). it_storage t ! i = [] \<longleftrightarrow> it_refcount t ! i = 0)"

lemma char_table_new_ok: "char_ok char_table_new"
  by (simp add: char_ok_def char_table_new_def itable_ok_def)

lemma char_intern_ok:
  assumes "char_ok t" and "s \<noteq> []"
  shows "char_ok (snd (char_intern t s))"
proof -
  have ok: "itable_ok t" and st: "i < length (it_storage t) \<Longrightarrow> it_storage t ! i = [] \<longleftrightarrow> it_refcount t ! i = 0" for i
    using assms(1) by (simp_all add: char_ok_def)
  note ok' = itable_intern_ok [OF ok, of MAX_ENTRIES CHAR_TABLE_SATURATED_ID s]
  let ?t = "snd (itable_intern MAX_ENTRIES CHAR_TABLE_SATURATED_ID t s)"
  have len: "length (it_storage ?t) \<le> MAX_ENTRIES"
    using itable_intern_length [of t MAX_ENTRIES CHAR_TABLE_SATURATED_ID s] assms(1)
    by (simp add: char_ok_def)
  have "it_storage ?t ! i = [] \<longleftrightarrow> it_refcount ?t ! i = 0" if i: "i < length (it_storage ?t)" for i
  proof (cases "accepted MAX_ENTRIES t s")
    case False
    with st i show ?thesis by (simp add: itable_intern_rejected)
  next
    case True
    note l = itable_okD(1) [OF ok]
    from ok True show ?thesis
    proof (cases rule: itable_intern_cases [where s = CHAR_TABLE_SATURATED_ID])
      case (hit j)
      with st [of i] i l sat_add32_pos [of "it_refcount t ! j"] show ?thesis
        by (cases "i = j") simp_all
    next
      case (reuse j)
      with st [of i] i l assms(2) show ?thesis by (cases "i = j") simp_all
    next
      case fresh
      with st [of i] i l assms(2) show ?thesis by (cases "i = length (it_storage t)") (simp_all add: nth_append)
    qed
  qed
  with ok' len show ?thesis by (simp add: char_ok_def char_intern_def)
qed

lemma char_dec_ok:
  assumes "char_ok t"
  shows "char_ok (char_dec_ref t i)"
proof -
  have ok: "itable_ok t" and st: "j < length (it_storage t) \<Longrightarrow> it_storage t ! j = [] \<longleftrightarrow> it_refcount t ! j = 0" for j
    using assms by (simp_all add: char_ok_def)
  have "it_storage (itable_dec_ref [] t i) ! j = [] \<longleftrightarrow> it_refcount (itable_dec_ref [] t i) ! j = 0"
    if "j < length (it_storage t)" for j
    using ok
    by (cases rule: itable_dec_cases [where i = i and d = "[]"]; cases "i = j")
      (use st [OF that] that itable_okD(1) [OF ok] in auto)
  with assms itable_dec_ok [OF ok] show ?thesis by (simp add: char_ok_def char_dec_ref_def)
qed

lemma char_get_live:
  "it_storage t' ! j = it_storage t ! j \<Longrightarrow> j < length (it_storage t') \<Longrightarrow> j < length (it_storage t) \<Longrightarrow>
     char_get_or_default t' j = char_get_or_default t j"
  by (simp add: char_get_or_default_def)

interpretation chars: intern_table char_ok itable_refcount char_get_or_default char_intern
  char_dec_ref "accepted MAX_ENTRIES" "\<lambda>s. s \<noteq> []"
proof
  fix t :: char_table and s :: rstring and i j
  show "char_ok t \<Longrightarrow> s \<noteq> [] \<Longrightarrow> char_ok (snd (char_intern t s))" by (rule char_intern_ok)
  show "char_ok t \<Longrightarrow> char_ok (char_dec_ref t i)" by (rule char_dec_ok)
  show "\<not> accepted MAX_ENTRIES t s \<Longrightarrow> itable_refcount (snd (char_intern t s)) j = itable_refcount t j"
    by (simp add: char_intern_def itable_intern_rejected)
  assume "char_ok t"
  then have ok: "itable_ok t" by (simp add: char_ok_def)
  show "s \<noteq> [] \<Longrightarrow> accepted MAX_ENTRIES t s \<Longrightarrow>
      char_get_or_default (snd (char_intern t s)) (fst (char_intern t s)) = s"
    using itable_intern_storage [OF ok, of MAX_ENTRIES s CHAR_TABLE_SATURATED_ID]
    by (simp add: char_get_or_default_def char_intern_def)
  show "accepted MAX_ENTRIES t s \<Longrightarrow> itable_refcount (snd (char_intern t s)) j =
      (if j = fst (char_intern t s) then sat_add32 (itable_refcount t j) 1 else itable_refcount t j)"
    unfolding char_intern_def by (rule itable_intern_refcount [OF ok])
  show "0 < itable_refcount t j \<Longrightarrow>
      char_get_or_default (snd (char_intern t s)) j = char_get_or_default t j"
    using itable_intern_frame [OF ok, of j MAX_ENTRIES CHAR_TABLE_SATURATED_ID s]
      refcount_pos [OF _ ok, of j] itable_intern_length [of t MAX_ENTRIES CHAR_TABLE_SATURATED_ID s]
    by (intro char_get_live) (simp_all add: char_intern_def)
  show "(if j = i then itable_refcount t j - 1 else itable_refcount t j)
      \<le> itable_refcount (char_dec_ref t i) j"
    using itable_dec_refcount [OF ok, of "[]" i j] by (cases "j = i") (simp_all add: char_dec_ref_def)
  show "0 < itable_refcount (char_dec_ref t i) j \<Longrightarrow>
      char_get_or_default (char_dec_ref t i) j = char_get_or_default t j"
    using itable_dec_frame [OF ok, of "[]" i j]
    by (auto simp: char_get_or_default_def char_dec_ref_def)
qed

text \<open>The same for graphemes: a handle of the grapheme table resolves to the string it was
  acquired for as long as it is held.\<close>

theorem char_handles_resolve:
  assumes "char_ok t" and "list_all (\<lambda>op. op \<noteq> Acquire []) ops" and "length ops \<le> U32_MAX"
    and "foldl (client_step char_intern char_dec_ref (accepted MAX_ENTRIES)) (t, []) ops = (t', held)"
  shows "list_all (\<lambda>h. char_get_or_default t' (fst h) = snd h
    \<and> handle_count held (fst h) \<le> itable_refcount t' (fst h)) held"
proof (rule chars.client_handles_resolve [OF assms(1) _ assms(3,4)])
  show "list_all (\<lambda>op. case op of Acquire e \<Rightarrow> e \<noteq> [] | Release k \<Rightarrow> True) ops"
    using assms(2) by (auto simp: list_all_iff split: table_op.split)
qed

lemma char_handles_resolve_witness:
  "\<exists>t held. foldl (client_step char_intern char_dec_ref (accepted MAX_ENTRIES)) (char_table_new, [])
      [Acquire [0x41], Acquire [0x42], Release 1] = (t, held)
    \<and> list_all (\<lambda>h. char_get_or_default t (fst h) = snd h
        \<and> handle_count held (fst h) \<le> itable_refcount t (fst h)) held"
proof -
  obtain t held where r: "foldl (client_step char_intern char_dec_ref (accepted MAX_ENTRIES))
      (char_table_new, []) [Acquire [0x41], Acquire [0x42], Release 1] = (t, held)" by fastforce
  from char_handles_resolve [OF char_table_new_ok _ _ r] r show ?thesis by (auto simp: U32_MAX_def)
qed

subsection \<open>Snapshots\<close>

lemma rebuild_dedup:
  assumes "\<And>i. i < n \<Longrightarrow> \<not> skip i \<Longrightarrow> D (f i) = Some i"
    and "\<And>e i. D e = Some i \<Longrightarrow> i < n \<and> \<not> skip i \<and> f i = e"
    and "\<And>i. i < n \<Longrightarrow> g i = i"
  shows "foldl (\<lambda>m i. if skip i then m else m(f i \<mapsto> g i)) Map.empty [0..<n] = D"
proof -
  have "foldl (\<lambda>m i. if skip i then m else m(f i \<mapsto> g i)) Map.empty [0..<k]
      = (\<lambda>e. case D e of None \<Rightarrow> None | Some i \<Rightarrow> if i < k then Some i else None)" if "k \<le> n" for k
    using that
  proof (induction k)
    case 0
    show ?case by (auto split: option.splits)
  next
    case (Suc k)
    then have IH: "foldl (\<lambda>m i. if skip i then m else m(f i \<mapsto> g i)) Map.empty [0..<k]
      = (\<lambda>e. case D e of None \<Rightarrow> None | Some i \<Rightarrow> if i < k then Some i else None)" by simp
    let ?upto = "\<lambda>k e. case D e of None \<Rightarrow> None | Some i \<Rightarrow> if i < k then Some i else None"
    show ?case
    proof (cases "skip k")
      case True
      have "?upto k e = ?upto (Suc k) e" for e
        using assms(2) [of e k] True by (cases "D e") (auto simp: less_Suc_eq)
      then show ?thesis using True IH by simp
    next
      case False
      have k: "D (f k) = Some k" "g k = k" using assms(1,3) [of k] False Suc.prems by simp_all
      have "(?upto k)(f k \<mapsto> k) = ?upto (Suc k)"
      proof
        fix e
        show "((?upto k)(f k \<mapsto> k)) e = ?upto (Suc k) e"
        proof (cases "e = f k")
          case True
          with k show ?thesis by simp
        next
          case False
          then have "D e \<noteq> Some k" using assms(2) [of e k] by metis
          with False show ?thesis by (cases "D e") (simp_all add: less_Suc_eq)
        qed
      qed
      then show ?thesis using False IH k by simp
    qed
  qed
  from this [OF order_refl] have fold: "foldl (\<lambda>m i. if skip i then m else m(f i \<mapsto> g i)) Map.empty [0..<n]
      = (\<lambda>e. case D e of None \<Rightarrow> None | Some i \<Rightarrow> if i < n then Some i else None)" .
  show ?thesis
    unfolding fold
  proof
    fix e
    show "(case D e of None \<Rightarrow> None | Some i \<Rightarrow> if i < n then Some i else None) = D e"
      using assms(2) [of e] by (cases "D e") simp_all
  qed
qed

lemma itable_reset_warn:
  "\<lparr>it_storage = it_storage t, it_dedup = it_dedup t, it_refcount = it_refcount t,
     it_free_list = it_free_list t, it_warn = 0\<rparr> = (t :: 'e itable)\<lparr>it_warn := 0\<rparr>"
  by (cases t) simp

text \<open>Snapshots of the intern tables are exact: restoring the serialized parts of a
  well-formed table gives the table back, with the saturation counter reset.\<close>

theorem table_snapshot_roundtrip:
  "(style_ok st \<longrightarrow> style_from_snapshot (it_storage st) (it_refcount st) (it_free_list st)
      = Some (st\<lparr>it_warn := 0\<rparr>))
   \<and> (char_ok ct \<longrightarrow> char_from_snapshot (it_storage ct) (it_refcount ct) (it_free_list ct)
      = Some (ct\<lparr>it_warn := 0\<rparr>))"
proof (intro conjI impI)
  assume st: "style_ok st"
  then have ok: "itable_ok st" and len: "length (it_storage st) \<le> 65535"
    by (simp_all add: style_ok_def U16_MAX_def)
  have "foldl (\<lambda>m i. if i mod 65536 \<in> set (it_free_list st) then m
      else m(it_storage st ! i \<mapsto> i mod 65536)) Map.empty [0..<length (it_storage st)] = it_dedup st"
    by (rule rebuild_dedup) (use len itable_okD(3,5) [OF ok] in auto)
  with st itable_okD(1) [OF ok] show "style_from_snapshot (it_storage st) (it_refcount st)
      (it_free_list st) = Some (st\<lparr>it_warn := 0\<rparr>)"
    unfolding style_from_snapshot_def Let_def itable_reset_warn [symmetric]
    by (simp only: style_ok_def if_False not_True_eq_False simp_thms)
next
  assume ct: "char_ok ct"
  then have ok: "itable_ok ct" and len: "length (it_storage ct) \<le> 4294967294"
    by (simp_all add: char_ok_def MAX_ENTRIES_def U32_MAX_def)
  have ne: "it_storage ct ! i = [] \<longleftrightarrow> it_refcount ct ! i = 0" if "i < length (it_storage ct)" for i
    using ct that by (simp add: char_ok_def)
  have "foldl (\<lambda>m i. if i mod 4294967296 \<in> set (it_free_list ct) \<or> it_storage ct ! i = [] then m
      else m(it_storage ct ! i \<mapsto> i mod 4294967296)) Map.empty [0..<length (it_storage ct)] = it_dedup ct"
    by (rule rebuild_dedup) (use len itable_okD(3,5) [OF ok] ne in auto)
  moreover have "(if i mod 4294967296 \<in> set (it_free_list ct) then m else if it_storage ct ! i = [] then m
      else m(it_storage ct ! i \<mapsto> i mod 4294967296)) =
    (if i mod 4294967296 \<in> set (it_free_list ct) \<or> it_storage ct ! i = [] then m
      else m(it_storage ct ! i \<mapsto> i mod 4294967296))" for i and m :: "rstring \<Rightarrow> nat option" by simp
  ultimately show "char_from_snapshot (it_storage ct) (it_refcount ct)
      (it_free_list ct) = Some (ct\<lparr>it_warn := 0\<rparr>)"
    using itable_okD(1) [OF ok]
    unfolding char_from_snapshot_def Let_def itable_reset_warn [symmetric] by simp
qed

lemma table_snapshot_roundtrip_witness:
  "style_from_snapshot [style_entry_default] [U32_MAX] [] = Some style_table_new
   \<and> char_from_snapshot [] [] [] = Some char_table_new"
  using table_snapshot_roundtrip [of style_table_new char_table_new] style_table_new_ok char_table_new_ok
  by (simp add: style_table_new_def char_table_new_def)

end
