(* ===== verification/SlimCells.thy ===== *)
theory SlimCells
  imports InternContract
begin

text \<open>
  \<open>crates/term_core/src/slim_cell.rs\<close>: the 8-byte cell of the scrollback and its conversion
  from and to grid cells.  A \<open>u32\<close> \<open>char_ref\<close> is a natural number: four packed bytes, little
  endian, or an id of the grapheme table.
\<close>

definition SLIM_FLAG_INLINE_ASCII :: u8 where "SLIM_FLAG_INLINE_ASCII = 0x01"
definition SLIM_FLAG_CHAR_TABLE :: u8 where "SLIM_FLAG_CHAR_TABLE = 0x02"
definition SLIM_FLAG_WIDE_CONT :: u8 where "SLIM_FLAG_WIDE_CONT = 0x04"
definition SLIM_INLINE_LEN_MASK :: u8 where "SLIM_INLINE_LEN_MASK = 0x30"
definition SLIM_INLINE_LEN_SHIFT :: nat where "SLIM_INLINE_LEN_SHIFT = 4"

lemmas slim_flag_defs = SLIM_FLAG_INLINE_ASCII_def SLIM_FLAG_CHAR_TABLE_def
  SLIM_FLAG_WIDE_CONT_def SLIM_INLINE_LEN_MASK_def SLIM_INLINE_LEN_SHIFT_def

record slim_cell =
  sl_char_ref :: nat
  sl_width :: nat
  sl_flags :: u8
  sl_style_id :: nat

definition slim_empty :: slim_cell where
  "slim_empty = \<lparr>sl_char_ref = 0x20, sl_width = 1, sl_flags = SLIM_FLAG_INLINE_ASCII, sl_style_id = 0\<rparr>"

definition is_inline_ascii :: "slim_cell \<Rightarrow> bool" where
  "is_inline_ascii s \<longleftrightarrow> sl_flags s AND SLIM_FLAG_INLINE_ASCII \<noteq> 0"

definition is_char_table :: "slim_cell \<Rightarrow> bool" where
  "is_char_table s \<longleftrightarrow> sl_flags s AND SLIM_FLAG_CHAR_TABLE \<noteq> 0"

definition is_wide_cont :: "slim_cell \<Rightarrow> bool" where
  "is_wide_cont s \<longleftrightarrow> sl_flags s AND SLIM_FLAG_WIDE_CONT \<noteq> 0"

text \<open>\<open>u32::from_le_bytes\<close> and \<open>to_le_bytes\<close> on four bytes.\<close>

definition from_le_bytes :: "u8 list \<Rightarrow> nat" where
  "from_le_bytes bs = foldr (\<lambda>b n. unat b + 256 * n) bs 0"

definition to_le_bytes :: "nat \<Rightarrow> u8 list" where
  "to_le_bytes n = map (\<lambda>i. as_u8 (n div 256 ^ i)) [0..<4]"

definition cell_style :: "cell \<Rightarrow> style_entry" where
  "cell_style c =
     \<lparr>se_fg = cl_fg c, se_bg = cl_bg c, se_flags = cl_flags c,
      se_underline_style = cl_underline_style c, se_underline_color = cl_underline_color c,
      se_hyperlink_id = cl_hyperlink_id c\<rparr>"

definition cell_to_slim ::
  "cell \<Rightarrow> rstring option \<Rightarrow> style_table \<Rightarrow> char_table \<Rightarrow> slim_cell \<times> style_table \<times> char_table" where
  "cell_to_slim c overflow_str styles chars =
     (let (style_id, styles) = style_intern styles (cell_style c) in
      if cl_width c = 0 then
        (\<lparr>sl_char_ref = 0, sl_width = 0, sl_flags = SLIM_FLAG_WIDE_CONT, sl_style_id = style_id\<rparr>,
         styles, chars)
      else if is_overflow c then
        let s = (case overflow_str of Some s \<Rightarrow> s | None \<Rightarrow> [0x3F]);
            (i, chars) = char_intern chars s
        in (\<lparr>sl_char_ref = i, sl_width = cl_width c, sl_flags = SLIM_FLAG_CHAR_TABLE,
             sl_style_id = style_id\<rparr>, styles, chars)
      else
        let len = cl_char_len c; bytes = take len (cl_char_data c) in
        if 1 \<le> len \<and> len \<le> 4 then
          let buf = bytes @ replicate (4 - len) 0;
              len_bits = push_bit SLIM_INLINE_LEN_SHIFT (as_u8 (len - 1))
          in (\<lparr>sl_char_ref = from_le_bytes buf, sl_width = cl_width c,
               sl_flags = SLIM_FLAG_INLINE_ASCII OR len_bits, sl_style_id = style_id\<rparr>, styles, chars)
        else
          let s = (if utf8_valid bytes then bytes else [0x3F]);
              (i, chars) = char_intern chars s
          in (\<lparr>sl_char_ref = i, sl_width = cl_width c, sl_flags = SLIM_FLAG_CHAR_TABLE,
               sl_style_id = style_id\<rparr>, styles, chars))"

definition slim_to_cell :: "slim_cell \<Rightarrow> style_table \<Rightarrow> char_table \<Rightarrow> cell" where
  "slim_to_cell slim styles chars =
     (let style = style_get_or_default styles (sl_style_id slim);
          c = cell_empty\<lparr>cl_width := sl_width slim, cl_fg := se_fg style, cl_bg := se_bg style,
                cl_flags := se_flags style, cl_underline_style := se_underline_style style,
                cl_underline_color := se_underline_color style,
                cl_hyperlink_id := se_hyperlink_id style\<rparr>
      in if is_wide_cont slim then c\<lparr>cl_char_data := replicate 16 0, cl_char_len := 0\<rparr>
         else if is_inline_ascii slim then
           let bytes = to_le_bytes (sl_char_ref slim);
               len = unat (drop_bit SLIM_INLINE_LEN_SHIFT (sl_flags slim AND SLIM_INLINE_LEN_MASK)) + 1
           in c\<lparr>cl_char_data := splice 0 (take len bytes) (cl_char_data c), cl_char_len := len\<rparr>
         else if is_char_table slim then
           let bytes = char_get_or_default chars (sl_char_ref slim)
           in if length bytes \<le> 16
              then c\<lparr>cl_char_data := splice 0 bytes (cl_char_data c), cl_char_len := length bytes\<rparr>
              else c\<lparr>cl_char_data := replicate 16 0, cl_char_len := 0xFF\<rparr>
         else c\<lparr>cl_char_data := (cl_char_data c)[0 := 0x20], cl_char_len := 1\<rparr>)"

definition slim_overflow_str :: "slim_cell \<Rightarrow> char_table \<Rightarrow> rstring" where
  "slim_overflow_str slim chars =
     (if is_char_table slim then char_get_or_default chars (sl_char_ref slim) else [])"

subsection \<open>Round trip\<close>

lemma as_u8_mod: "as_u8 n = as_u8 (n mod 256)"
proof -
  have "(of_nat n :: u8) = of_nat (n mod 256)"
    by (simp add: word_unat_eq_iff unat_of_nat take_bit_eq_mod)
  then show ?thesis by (simp add: as_u8_def)
qed

lemma as_u8_low: "as_u8 (unat b + 256 * n) = b"
  using as_u8_mod [of "unat b + 256 * n"] u8_cases_lt [of b] by simp

lemma to_from_le_bytes: "length bs = 4 \<Longrightarrow> to_le_bytes (from_le_bytes bs) = bs"
proof -
  assume "length bs = 4"
  then obtain a b c d where bs: "bs = [a, b, c, d]"
    by (auto simp: numeral_eq_Suc length_Suc_conv)
  have low: "(unat x + 256 * n) div 256 = n" for x :: u8 and n
    using u8_cases_lt [of x] by simp
  let ?n = "from_le_bytes bs"
  have n: "?n = unat a + 256 * (unat b + 256 * (unat c + 256 * unat d))"
    by (simp add: bs from_le_bytes_def)
  have d: "?n div 256 = unat b + 256 * (unat c + 256 * unat d)"
    "?n div 256 div 256 = unat c + 256 * unat d" "?n div 256 div 256 div 256 = unat d"
    by (simp_all only: n low)
  have "as_u8 ?n = a" unfolding n by (rule as_u8_low)
  with d have "as_u8 ?n = a" "as_u8 (?n div 256) = b" "as_u8 (?n div 256 div 256) = c"
    "as_u8 (?n div 256 div 256 div 256) = d"
    by (simp_all only: as_u8_low as_u8_unat)
  moreover have "[0..<4] = [0, 1, 2, Suc (Suc (Suc 0))]" by (simp add: upt_rec)
  moreover have "?n div 256 ^ 2 = ?n div 256 div 256"
    "?n div 256 ^ Suc (Suc (Suc 0)) = ?n div 256 div 256 div 256"
    by (simp_all add: div_mult2_eq [symmetric])
  ultimately show ?thesis by (simp add: to_le_bytes_def) (simp add: bs)
qed

lemma slim_inline_flags:
  assumes "1 \<le> len" and "len \<le> 4"
  shows "(SLIM_FLAG_INLINE_ASCII OR push_bit SLIM_INLINE_LEN_SHIFT (as_u8 (len - 1))) AND SLIM_FLAG_WIDE_CONT = 0"
    "(SLIM_FLAG_INLINE_ASCII OR push_bit SLIM_INLINE_LEN_SHIFT (as_u8 (len - 1))) AND SLIM_FLAG_INLINE_ASCII \<noteq> 0"
    "unat (drop_bit SLIM_INLINE_LEN_SHIFT ((SLIM_FLAG_INLINE_ASCII OR
       push_bit SLIM_INLINE_LEN_SHIFT (as_u8 (len - 1))) AND SLIM_INLINE_LEN_MASK)) + 1 = len"
proof -
  have "len = 1 \<or> len = 2 \<or> len = 3 \<or> len = 4" using assms by linarith
  then show "(SLIM_FLAG_INLINE_ASCII OR push_bit SLIM_INLINE_LEN_SHIFT (as_u8 (len - 1))) AND SLIM_FLAG_WIDE_CONT = 0"
    "(SLIM_FLAG_INLINE_ASCII OR push_bit SLIM_INLINE_LEN_SHIFT (as_u8 (len - 1))) AND SLIM_FLAG_INLINE_ASCII \<noteq> 0"
    "unat (drop_bit SLIM_INLINE_LEN_SHIFT ((SLIM_FLAG_INLINE_ASCII OR
       push_bit SLIM_INLINE_LEN_SHIFT (as_u8 (len - 1))) AND SLIM_INLINE_LEN_MASK)) + 1 = len"
    by (auto simp: slim_flag_defs as_u8_def)
qed

text \<open>A cell the grid stores: one with a display width holds a non-empty grapheme.  The scrollback
  drops the contents of zero-width cells.\<close>

definition stored_cell :: "cell \<Rightarrow> bool" where
  "stored_cell c \<longleftrightarrow> char_data_ok c \<and> (cl_width c \<noteq> 0 \<longrightarrow> cl_char_len c \<noteq> 0)"

definition scrollback_form :: "cell \<Rightarrow> cell" where
  "scrollback_form c =
     (if cl_width c = 0 then c\<lparr>cl_char_data := replicate 16 0, cl_char_len := 0\<rparr> else trim_cell c)"

lemma splice_zero_prefix: "length s \<le> 16 \<Longrightarrow> s \<noteq> [] \<Longrightarrow>
    splice 0 s (cl_char_data cell_empty) = s @ replicate (16 - length s) 0"
  by (cases s) (auto simp: splice_def cell_empty_def)

lemma splice_zero_prefix_len: "length (s @ replicate (16 - length s) 0) = 16 \<longleftrightarrow> length s \<le> 16"
  by auto

text \<open>Decoding depends on the tables only through the entries of the cell's handles.\<close>

definition slim_refs_live :: "slim_cell \<Rightarrow> style_table \<Rightarrow> char_table \<Rightarrow> bool" where
  "slim_refs_live s styles chars \<longleftrightarrow>
     0 < itable_refcount styles (sl_style_id s)
     \<and> (is_char_table s \<longrightarrow> 0 < itable_refcount chars (sl_char_ref s))"

lemma cell_to_slim_char_simps:
  "is_wide_cont \<lparr>sl_char_ref = r, sl_width = w, sl_flags = SLIM_FLAG_WIDE_CONT, sl_style_id = i\<rparr>"
  "\<not> is_wide_cont \<lparr>sl_char_ref = r, sl_width = w, sl_flags = SLIM_FLAG_CHAR_TABLE, sl_style_id = i\<rparr>"
  "\<not> is_inline_ascii \<lparr>sl_char_ref = r, sl_width = w, sl_flags = SLIM_FLAG_CHAR_TABLE, sl_style_id = i\<rparr>"
  "is_char_table \<lparr>sl_char_ref = r, sl_width = w, sl_flags = SLIM_FLAG_CHAR_TABLE, sl_style_id = i\<rparr>"
  "\<not> is_char_table \<lparr>sl_char_ref = r, sl_width = w, sl_flags = SLIM_FLAG_WIDE_CONT, sl_style_id = i\<rparr>"
  by (simp_all add: is_wide_cont_def is_inline_ascii_def is_char_table_def slim_flag_defs)

definition slim_style_part :: "slim_cell \<Rightarrow> style_entry \<Rightarrow> cell" where
  "slim_style_part s style = cell_empty\<lparr>cl_width := sl_width s, cl_fg := se_fg style,
     cl_bg := se_bg style, cl_flags := se_flags style,
     cl_underline_style := se_underline_style style,
     cl_underline_color := se_underline_color style, cl_hyperlink_id := se_hyperlink_id style\<rparr>"

lemma slim_style_part_data [simp]: "cl_char_data (slim_style_part s st) = cl_char_data cell_empty"
  by (simp add: slim_style_part_def)

lemma slim_style_part_eq:
  "sl_width s = cl_width c \<Longrightarrow> (slim_style_part s (cell_style c))
     \<lparr>cl_char_data := cl_char_data c, cl_char_len := cl_char_len c\<rparr> = c"
  by (cases c) (simp add: slim_style_part_def cell_style_def cell_empty_def)

lemma slim_to_cell_style:
  "slim_to_cell s styles chars =
    (let c = slim_style_part s (style_get_or_default styles (sl_style_id s)) in
     if is_wide_cont s then c\<lparr>cl_char_data := replicate 16 0, cl_char_len := 0\<rparr>
     else if is_inline_ascii s then
       let len = unat (drop_bit SLIM_INLINE_LEN_SHIFT (sl_flags s AND SLIM_INLINE_LEN_MASK)) + 1
       in c\<lparr>cl_char_data := splice 0 (take len (to_le_bytes (sl_char_ref s))) (cl_char_data c),
            cl_char_len := len\<rparr>
     else if is_char_table s then
       let bytes = char_get_or_default chars (sl_char_ref s)
       in if length bytes \<le> 16
          then c\<lparr>cl_char_data := splice 0 bytes (cl_char_data c), cl_char_len := length bytes\<rparr>
          else c\<lparr>cl_char_data := replicate 16 0, cl_char_len := 0xFF\<rparr>
     else c\<lparr>cl_char_data := (cl_char_data c)[0 := 0x20], cl_char_len := 1\<rparr>)"
  by (simp add: slim_to_cell_def slim_style_part_def Let_def)

text \<open>The grapheme a cell interns, if any.\<close>

definition interned_grapheme :: "cell \<Rightarrow> rstring option \<Rightarrow> rstring option" where
  "interned_grapheme c ovf =
     (if cl_width c = 0 then None
      else if is_overflow c then Some (case ovf of Some s \<Rightarrow> s | None \<Rightarrow> [0x3F])
      else if 1 \<le> cl_char_len c \<and> cl_char_len c \<le> 4 then None
      else Some (take (cl_char_len c) (cl_char_data c)))"

lemma trimmed_cell_restores:
  assumes tr: "trim_cell c = c" and styles: "style_ok styles" "accepted U16_MAX styles (cell_style c)"
    and chars: "char_ok chars"
      "case interned_grapheme c ovf of None \<Rightarrow> True | Some s \<Rightarrow> accepted MAX_ENTRIES chars s"
    and c: "stored_cell c" "is_overflow c \<Longrightarrow> \<exists>s. ovf = Some s \<and> 16 < length s"
    and r: "cell_to_slim c ovf styles chars = (slim, styles', chars')"
  shows "slim_to_cell slim styles' chars' = scrollback_form c \<and> style_ok styles' \<and> char_ok chars'
    \<and> slim_refs_live slim styles' chars'
    \<and> (is_overflow c \<and> cl_width c \<noteq> 0 \<longrightarrow> ovf = Some (slim_overflow_str slim chars'))"
proof -
  obtain i where si: "style_intern styles (cell_style c) = (i, styles')"
    using r by (auto simp: cell_to_slim_def Let_def split: prod.splits if_splits)
  have st: "style_ok styles'" "style_get_or_default styles' i = cell_style c"
    "0 < itable_refcount styles' i"
    using style.intern_ok [OF styles(1), of "cell_style c"] style.intern_get [OF styles(1) _ styles(2)]
      style.intern_refs [OF styles, of i] si sat_add32_pos by simp_all
  have sid: "sl_style_id slim = i" "sl_width slim = cl_width c"
    using r by (auto simp: cell_to_slim_def si Let_def split: prod.splits if_splits)
  have data: "char_data_ok c" using c(1) by (simp add: stored_cell_def)
  have sp: "(slim_style_part slim (cell_style c))
      \<lparr>cl_char_data := cl_char_data c, cl_char_len := cl_char_len c\<rparr> = c"
    by (rule slim_style_part_eq [OF sid(2)])
  show ?thesis
  proof (cases "cl_width c = 0")
    case True
    have sl: "slim = \<lparr>sl_char_ref = 0, sl_width = 0, sl_flags = SLIM_FLAG_WIDE_CONT, sl_style_id = i\<rparr>"
      "chars' = chars" using r True by (simp_all add: cell_to_slim_def si)
    have "(slim_style_part slim (cell_style c))\<lparr>cl_char_data := replicate 16 0, cl_char_len := 0\<rparr>
        = scrollback_form c"
      using True sl(1) by (cases c) (simp add: slim_style_part_def cell_style_def cell_empty_def scrollback_form_def)
    with sl st chars(1) True show ?thesis
      by (simp add: slim_to_cell_style cell_to_slim_char_simps slim_refs_live_def Let_def)
  next
    case False
    then have sf: "scrollback_form c = c" by (simp add: scrollback_form_def tr)
    show ?thesis
    proof (cases "interned_grapheme c ovf")
      case None
      then have ov: "\<not> is_overflow c" and len: "1 \<le> cl_char_len c" "cl_char_len c \<le> 4"
        using False c(1) by (auto simp: interned_grapheme_def stored_cell_def split: if_splits)
      let ?len = "cl_char_len c" and ?bytes = "take (cl_char_len c) (cl_char_data c)"
      have l16: "length (cl_char_data c) = 16" and pad: "cl_char_data c = ?bytes @ replicate (16 - ?len) 0"
        using data ov tr by (simp_all add: char_data_ok_def is_overflow_def trim_cell_def) (metis cell.select_convs(1) cell.surjective cell.update_convs(1))
      have le: "take ?len (to_le_bytes (from_le_bytes (?bytes @ replicate (4 - ?len) 0))) = ?bytes"
        using l16 len by (simp add: to_from_le_bytes)
      have sl: "slim = \<lparr>sl_char_ref = from_le_bytes (?bytes @ replicate (4 - ?len) 0), sl_width = cl_width c,
          sl_flags = SLIM_FLAG_INLINE_ASCII OR push_bit SLIM_INLINE_LEN_SHIFT (as_u8 (?len - 1)),
          sl_style_id = i\<rparr>" "chars' = chars"
        using r False ov len by (simp_all add: cell_to_slim_def si Let_def)
      have "splice 0 ?bytes (cl_char_data cell_empty) = cl_char_data c"
        using splice_zero_prefix [of ?bytes] l16 len pad by (cases "cl_char_data c") auto
      moreover have "\<not> is_char_table slim"
      proof -
        have "?len = 1 \<or> ?len = 2 \<or> ?len = 3 \<or> ?len = 4" using len by linarith
        then show ?thesis by (auto simp: sl is_char_table_def slim_flag_defs as_u8_def)
      qed
      ultimately show ?thesis
        using slim_inline_flags [OF len] st chars(1) sp le sid ov
        by (simp add: slim_to_cell_style slim_refs_live_def sf is_wide_cont_def is_inline_ascii_def sl Let_def)
    next
      case (Some s)
      obtain k where ci: "char_intern chars s = (k, chars')"
        and sl: "slim = \<lparr>sl_char_ref = k, sl_width = cl_width c, sl_flags = SLIM_FLAG_CHAR_TABLE,
          sl_style_id = i\<rparr>"
        using r False Some data
        by (auto simp: cell_to_slim_def si Let_def interned_grapheme_def char_data_ok_def is_overflow_def
            split: if_splits prod.splits option.splits)
      have ne: "s \<noteq> []"
        using Some c data False
        by (auto simp: interned_grapheme_def char_data_ok_def stored_cell_def is_overflow_def split: if_splits)
      have ch: "char_ok chars'" "char_get_or_default chars' k = s" "0 < itable_refcount chars' k"
        using chars.intern_ok [OF chars(1) ne] chars.intern_get [OF chars(1) ne]
          chars.intern_refs [OF chars(1), of s k] chars(2) ci Some sat_add32_pos by simp_all
      show ?thesis
      proof (cases "is_overflow c")
        case True
        then obtain s' where "ovf = Some s'" "16 < length s'" using c(2) by blast
        with True False Some have s: "ovf = Some s" "16 < length s" by (simp_all add: interned_grapheme_def)
        have "cl_char_data c = replicate 16 0" "cl_char_len c = 0xFF"
          using data True by (simp_all add: char_data_ok_def is_overflow_def)
        with s st ch sp sid show ?thesis
          by (simp add: slim_to_cell_style cell_to_slim_char_simps slim_refs_live_def sf
              slim_overflow_str_def sl Let_def)
      next
        case ov: False
        with Some False have s: "s = take (cl_char_len c) (cl_char_data c)"
          by (simp add: interned_grapheme_def split: if_splits)
        have d: "length (cl_char_data c) = 16" "cl_char_len c \<le> 16"
          "cl_char_data c = s @ replicate (16 - cl_char_len c) 0"
          using data ov s tr by (simp_all add: char_data_ok_def is_overflow_def trim_cell_def) (metis cell.select_convs(1) cell.surjective cell.update_convs(1))
        have len: "length s = cl_char_len c" using s d(1,2) by simp
        then have l16: "length s \<le> 16" using d(2) by simp
        have sd: "splice 0 s (cl_char_data cell_empty) = cl_char_data c"
          using splice_zero_prefix [OF l16 ne] d(3) len by simp
        have "slim_to_cell slim styles' chars' = (slim_style_part slim (cell_style c))
            \<lparr>cl_char_data := splice 0 s (cl_char_data cell_empty), cl_char_len := length s\<rparr>"
          using st(2) ch(2) l16 by (simp add: slim_to_cell_style cell_to_slim_char_simps sl Let_def)
        then have "slim_to_cell slim styles' chars' = c" unfolding sd len sp .
        with st ch ov show ?thesis by (simp add: slim_refs_live_def sf sl)
      qed
    qed
  qed
qed

text \<open>Compression only reads the bytes in use.\<close>

lemma cell_to_slim_trim:
  "char_data_ok c \<Longrightarrow> cell_to_slim (trim_cell c) ovf styles chars = cell_to_slim c ovf styles chars"
  by (simp add: cell_to_slim_def cell_style_def take_trim_cell split_def Let_def)

lemma interned_grapheme_trim:
  "char_data_ok c \<Longrightarrow> interned_grapheme (trim_cell c) ovf = interned_grapheme c ovf"
  by (simp add: interned_grapheme_def take_trim_cell)

lemma stored_cell_trim: "stored_cell c \<Longrightarrow> stored_cell (trim_cell c)"
  by (simp add: stored_cell_def trim_cell_ok)

lemma cell_to_slim_restores:
  assumes styles: "style_ok styles" "accepted U16_MAX styles (cell_style c)"
    and chars: "char_ok chars"
      "case interned_grapheme c ovf of None \<Rightarrow> True | Some s \<Rightarrow> accepted MAX_ENTRIES chars s"
    and c: "stored_cell c" "is_overflow c \<Longrightarrow> \<exists>s. ovf = Some s \<and> 16 < length s"
    and r: "cell_to_slim c ovf styles chars = (slim, styles', chars')"
  shows "slim_to_cell slim styles' chars' = scrollback_form c \<and> style_ok styles' \<and> char_ok chars'
    \<and> slim_refs_live slim styles' chars'
    \<and> (is_overflow c \<and> cl_width c \<noteq> 0 \<longrightarrow> ovf = Some (slim_overflow_str slim chars'))"
proof -
  have d: "char_data_ok c" using c(1) by (simp add: stored_cell_def)
  have "cell_style (trim_cell c) = cell_style c" by (simp add: cell_style_def)
  moreover have "scrollback_form (trim_cell c) = scrollback_form c"
  proof (cases "cl_width c = 0")
    case True
    then show ?thesis by (simp add: scrollback_form_def trim_cell_def)
  next
    case False
    then show ?thesis using d by (simp add: scrollback_form_def trim_cell_idem)
  qed
  ultimately show ?thesis
    using trimmed_cell_restores [of "trim_cell c" styles chars ovf slim styles' chars']
      assms d by (simp add: cell_to_slim_trim interned_grapheme_trim stored_cell_trim trim_cell_idem)
qed

text \<open>C19. Compressing a grid cell and decompressing it gives the cell back (a zero-width cell
  without its contents, and with the bytes past its grapheme zeroed), together with its side-table string when it has one, as long as neither
  table is full; both tables stay well formed.\<close>

theorem slim_cell_roundtrip:
  assumes styles: "style_ok styles" "accepted U16_MAX styles (cell_style c)"
    and chars: "char_ok chars"
      "case interned_grapheme c ovf of None \<Rightarrow> True | Some s \<Rightarrow> accepted MAX_ENTRIES chars s"
    and c: "stored_cell c" "is_overflow c \<Longrightarrow> \<exists>s. ovf = Some s \<and> 16 < length s"
    and r: "cell_to_slim c ovf styles chars = (slim, styles', chars')"
  shows "slim_to_cell slim styles' chars' = scrollback_form c \<and> style_ok styles' \<and> char_ok chars'
    \<and> slim_refs_live slim styles' chars'
    \<and> (is_overflow c \<and> cl_width c \<noteq> 0 \<longrightarrow> ovf = Some (slim_overflow_str slim chars'))"
  by (rule cell_to_slim_restores [OF assms])

lemma slim_cell_roundtrip_witness:
  "\<exists>slim st ch. cell_to_slim (set_char cell_empty [0x41]) None style_table_new char_table_new = (slim, st, ch)
    \<and> slim_to_cell slim st ch = scrollback_form (set_char cell_empty [0x41])"
proof -
  let ?c = "set_char cell_empty [0x41]"
  obtain slim st ch where r: "cell_to_slim ?c None style_table_new char_table_new = (slim, st, ch)"
    by (metis prod_cases3)
  have "slim_to_cell slim st ch = scrollback_form ?c \<and> style_ok st \<and> char_ok ch \<and> slim_refs_live slim st ch
    \<and> (is_overflow ?c \<and> cl_width ?c \<noteq> 0 \<longrightarrow> None = Some (slim_overflow_str slim ch))"
  proof (rule slim_cell_roundtrip [OF style_table_new_ok _ char_table_new_ok _ _ _ r])
    show "accepted U16_MAX style_table_new (cell_style ?c)"
      by (simp add: accepted_def style_table_new_def U16_MAX_def)
    show "case interned_grapheme ?c None of None \<Rightarrow> True | Some s \<Rightarrow> accepted MAX_ENTRIES char_table_new s"
      by (simp add: interned_grapheme_def set_char_def is_overflow_def cell_empty_def)
    show "stored_cell ?c"
      using set_char_ok [of "[0x41]" cell_empty]
      by (simp add: stored_cell_def set_char_def cell_empty_def utf8_valid.simps utf8_step_def byte_at_def)
  qed (simp add: set_char_def is_overflow_def)
  with r show ?thesis by blast
qed

text \<open>Decompression of a cell only looks at the entries its handles stand for, so it is not
  affected by compressing further cells.\<close>

lemma slim_to_cell_cong:
  assumes "style_get_or_default styles' (sl_style_id s) = style_get_or_default styles (sl_style_id s)"
    and "is_char_table s \<Longrightarrow> char_get_or_default chars' (sl_char_ref s) = char_get_or_default chars (sl_char_ref s)"
  shows "slim_to_cell s styles' chars' = slim_to_cell s styles chars"
    and "slim_overflow_str s chars' = slim_overflow_str s chars"
  using assms by (simp_all add: slim_to_cell_style slim_overflow_str_def Let_def)

lemma style_intern_live:
  assumes "style_ok t" and "0 < itable_refcount t j"
  shows "0 < itable_refcount (snd (style_intern t e)) j"
proof (cases "accepted U16_MAX t e")
  case True
  show ?thesis unfolding style.intern_refs [OF assms(1) True] using assms(2) sat_add32_pos by simp
next
  case False
  then show ?thesis using style.reject_refs [of t e j] assms(2) by simp
qed

lemma char_intern_live:
  assumes "char_ok t" and "0 < itable_refcount t j"
  shows "0 < itable_refcount (snd (char_intern t s)) j"
proof (cases "accepted MAX_ENTRIES t s")
  case True
  show ?thesis unfolding chars.intern_refs [OF assms(1) True] using assms(2) sat_add32_pos by simp
next
  case False
  then show ?thesis using chars.reject_refs [of t s j] assms(2) by simp
qed

lemma cell_to_slim_tables:
  assumes "cell_to_slim c ovf styles chars = (slim, styles', chars')"
  shows "styles' = snd (style_intern styles (cell_style c))"
    and "chars' = (case interned_grapheme c ovf of None \<Rightarrow> chars
        | Some s \<Rightarrow> snd (char_intern chars (if is_overflow c \<or> utf8_valid s then s else [0x3F])))"
  using assms
  by (auto simp: cell_to_slim_def Let_def interned_grapheme_def split_def split: prod.splits if_splits option.splits)

text \<open>The scrollback is immutable under growth: compressing one more cell never changes what
  the cells already compressed decode to.\<close>

theorem slim_cells_stable:
  assumes "style_ok styles" and "char_ok chars" and "slim_refs_live s styles chars"
    and "cell_to_slim c ovf styles chars = (slim, styles', chars')"
  shows "slim_to_cell s styles' chars' = slim_to_cell s styles chars
    \<and> slim_overflow_str s chars' = slim_overflow_str s chars \<and> slim_refs_live s styles' chars'"
proof -
  note t = cell_to_slim_tables [OF assms(4)]
  have st: "style_get_or_default styles' (sl_style_id s) = style_get_or_default styles (sl_style_id s)"
    "0 < itable_refcount styles' (sl_style_id s)"
    using assms(1,3) style.intern_frame style_intern_live unfolding t(1) slim_refs_live_def by blast+
  have ch: "char_get_or_default chars' (sl_char_ref s) = char_get_or_default chars (sl_char_ref s)
      \<and> 0 < itable_refcount chars' (sl_char_ref s)" if "is_char_table s"
  proof -
    have "0 < itable_refcount chars (sl_char_ref s)" using assms(3) that by (simp add: slim_refs_live_def)
    then show ?thesis
      using chars.intern_frame [OF assms(2)] char_intern_live [OF assms(2)]
      unfolding t(2) by (simp split: option.split)
  qed
  from st ch slim_to_cell_cong [of styles' s styles chars' chars] show ?thesis
    by (simp add: slim_refs_live_def)
qed

lemma slim_cells_stable_witness:
  "\<exists>slim st ch. cell_to_slim (cell_empty\<lparr>cl_flags := 1\<rparr>) None style_table_new char_table_new = (slim, st, ch)
    \<and> slim_to_cell slim_empty st ch = slim_to_cell slim_empty style_table_new char_table_new"
proof -
  obtain slim st ch where r: "cell_to_slim (cell_empty\<lparr>cl_flags := 1\<rparr>) None style_table_new char_table_new
      = (slim, st, ch)" by (metis prod_cases3)
  have "slim_refs_live slim_empty style_table_new char_table_new"
    by (simp add: slim_refs_live_def slim_empty_def style_table_new_def itable_refcount_def
        is_char_table_def slim_flag_defs U32_MAX_def)
  from slim_cells_stable [OF style_table_new_ok char_table_new_ok this r] r show ?thesis by blast
qed

end
