(* ===== verification/Unicode.thy ===== *)
theory Unicode
  imports UnicodeTables
begin

text \<open>
  \<open>unicode.rs\<close>, \<open>unicode_width.rs\<close>, \<open>unicode_emoji.rs\<close>: display width and
  classification of code points.  \<open>binary_search_by\<close> is the bisection \<open>bsearch\<close>; the
  interface \<open>range_table\<close> states what it returns on a table whose ranges are sorted and
  disjoint, and both tables are shown to be that.
\<close>

unbundle bit_operations_syntax

definition in_ranges :: "(nat \<times> nat) list \<Rightarrow> nat \<Rightarrow> bool" where
  "in_ranges rs cp = list_ex (\<lambda>r. fst r \<le> cp \<and> cp \<le> snd r) rs"

text \<open>Bisection of the index interval \<open>[lo, hi)\<close> for the range that contains \<open>cp\<close>.\<close>

function bsearch :: "(nat \<times> nat) list \<Rightarrow> nat \<Rightarrow> nat \<Rightarrow> nat \<Rightarrow> nat option" where
  "bsearch tbl cp lo hi =
     (if hi \<le> lo then None
      else let mid = (lo + hi) div 2 in
        if cp < fst (tbl ! mid) then bsearch tbl cp lo mid
        else if snd (tbl ! mid) < cp then bsearch tbl cp (Suc mid) hi
        else Some mid)"
  by pat_completeness auto
termination
  by (relation "measure (\<lambda>(tbl, cp, lo, hi). hi - lo)") auto

declare bsearch.simps [simp del]

definition is_zero_width :: "nat \<Rightarrow> bool" where
  "is_zero_width cp = in_ranges zero_width_ranges cp"

definition is_combining_char :: "nat \<Rightarrow> bool" where
  "is_combining_char cp \<longleftrightarrow> bsearch COMBINING_RANGES cp 0 (length COMBINING_RANGES) \<noteq> None"

definition is_ambiguous_width :: "nat \<Rightarrow> bool" where
  "is_ambiguous_width cp \<longleftrightarrow>
     bsearch AMBIGUOUS_WIDTH_RANGES cp 0 (length AMBIGUOUS_WIDTH_RANGES) \<noteq> None"

definition is_wide_code_point :: "nat \<Rightarrow> bool" where
  "is_wide_code_point cp = in_ranges wide_ranges cp"

definition is_emoji_presentation :: "nat \<Rightarrow> bool" where
  "is_emoji_presentation cp = in_ranges emoji_presentation_ranges cp"

definition is_extended_pictographic :: "nat \<Rightarrow> bool" where
  "is_extended_pictographic cp = in_ranges extended_pictographic_ranges cp"

definition is_regional_indicator :: "nat \<Rightarrow> bool" where
  "is_regional_indicator cp \<longleftrightarrow> 0x1F1E6 \<le> cp \<and> cp \<le> 0x1F1FF"

definition is_skin_tone_modifier :: "nat \<Rightarrow> bool" where
  "is_skin_tone_modifier cp \<longleftrightarrow> 0x1F3FB \<le> cp \<and> cp \<le> 0x1F3FF"

definition is_variation_selector :: "nat \<Rightarrow> bool" where
  "is_variation_selector cp \<longleftrightarrow> 0xFE00 \<le> cp \<and> cp \<le> 0xFE0F \<or> 0xE0100 \<le> cp \<and> cp \<le> 0xE01EF"

definition WIDTH_MASK :: u8 where "WIDTH_MASK = 0x03"
definition COMBINING :: u8 where "COMBINING = 0x04"
definition EMOJI_PRES :: u8 where "EMOJI_PRES = 0x08"
definition EXT_PICTOGRAPHIC :: u8 where "EXT_PICTOGRAPHIC = 0x10"
definition REGIONAL_IND :: u8 where "REGIONAL_IND = 0x20"
definition SKIN_TONE :: u8 where "SKIN_TONE = 0x40"
definition VARIATION_SEL :: u8 where "VARIATION_SEL = 0x80"

lemmas class_flag_defs = WIDTH_MASK_def COMBINING_def EMOJI_PRES_def EXT_PICTOGRAPHIC_def
  REGIONAL_IND_def SKIN_TONE_def VARIATION_SEL_def

definition char_width :: "nat \<Rightarrow> nat" where
  "char_width cp =
     (if 0x20 \<le> cp \<and> cp < 0x7F then 1
      else if cp \<le> 0x1F then 0
      else if 0x7F \<le> cp \<and> cp \<le> 0x9F then 0
      else if is_zero_width cp then 0
      else if is_emoji_presentation cp then 2
      else if 0xA0 \<le> cp \<and> cp < 0x2E00 then (if is_combining_char cp then 0 else 1)
      else if is_wide_code_point cp then 2
      else if is_combining_char cp then 0
      else 1)"

definition flag_if :: "bool \<Rightarrow> u8 \<Rightarrow> u8" where
  "flag_if b flag = (if b then flag else 0)"

definition classify_codepoint :: "nat \<Rightarrow> u8" where
  "classify_codepoint cp =
     as_u8 (char_width cp) OR flag_if (is_combining_char cp) COMBINING
       OR flag_if (is_emoji_presentation cp) EMOJI_PRES
       OR flag_if (is_extended_pictographic cp) EXT_PICTOGRAPHIC
       OR flag_if (is_regional_indicator cp) REGIONAL_IND
       OR flag_if (is_skin_tone_modifier cp) SKIN_TONE
       OR flag_if (is_variation_selector cp) VARIATION_SEL"

definition string_width :: "nat list \<Rightarrow> nat" where
  "string_width cs = sum_list (map char_width cs)"

definition classify_codepoints :: "nat list \<Rightarrow> u8 list" where
  "classify_codepoints cs = map classify_codepoint cs"

subsection \<open>Bisection\<close>

fun sorted_ranges :: "(nat \<times> nat) list \<Rightarrow> bool" where
  "sorted_ranges [] = True"
| "sorted_ranges [r] = (fst r \<le> snd r)"
| "sorted_ranges (r # s # rs) = (fst r \<le> snd r \<and> snd r < fst s \<and> sorted_ranges (s # rs))"

lemma sorted_ranges_nth:
  "sorted_ranges rs \<Longrightarrow> j < length rs \<Longrightarrow> i < j \<Longrightarrow> snd (rs ! i) < fst (rs ! j)"
proof (induction rs arbitrary: i j rule: sorted_ranges.induct)
  case (3 r s rs)
  show ?case
  proof (cases i)
    case 0
    obtain j' where j: "j = Suc j'" using "3.prems"(3) by (cases j) auto
    have "snd r < fst s" "fst s \<le> snd s" using "3.prems"(1) by (cases rs; simp)+
    then show ?thesis using "3.IH" [of j' 0] "3.prems" j 0 by (cases j') auto
  next
    case (Suc k)
    with "3.IH" [of "j - 1" k] "3.prems" show ?thesis by (cases j) auto
  qed
qed simp_all

lemma sorted_ranges_nth_le: "sorted_ranges rs \<Longrightarrow> i < length rs \<Longrightarrow> fst (rs ! i) \<le> snd (rs ! i)"
proof (induction rs arbitrary: i rule: sorted_ranges.induct)
  case (3 r s rs)
  then show ?case by (cases i) auto
qed simp_all

locale range_table =
  fixes tbl :: "(nat \<times> nat) list"
  assumes sorted: "sorted_ranges tbl"
begin

lemma bsearch_step:
  "bsearch t cp lo hi =
     (if hi \<le> lo then None
      else if cp < fst (t ! ((lo + hi) div 2)) then bsearch t cp lo ((lo + hi) div 2)
      else if snd (t ! ((lo + hi) div 2)) < cp then bsearch t cp (Suc ((lo + hi) div 2)) hi
      else Some ((lo + hi) div 2))"
  by (subst bsearch.simps) (simp add: Let_def)

lemma bsearch_sound:
  "bsearch tbl cp lo hi = Some k \<Longrightarrow> lo \<le> k \<and> k < hi \<and> fst (tbl ! k) \<le> cp \<and> cp \<le> snd (tbl ! k)"
proof (induction "hi - lo" arbitrary: lo hi rule: less_induct)
  case less
  let ?mid = "(lo + hi) div 2"
  from less.prems have lt: "lo < hi" by (subst (asm) bsearch_step) (auto split: if_splits)
  consider "cp < fst (tbl ! ?mid)" "bsearch tbl cp lo ?mid = Some k"
    | "snd (tbl ! ?mid) < cp" "bsearch tbl cp (Suc ?mid) hi = Some k"
    | "\<not> cp < fst (tbl ! ?mid)" "\<not> snd (tbl ! ?mid) < cp" "k = ?mid"
    using less.prems lt by (subst (asm) bsearch_step) (auto split: if_splits)
  then show ?case
  proof cases
    case 1
    moreover have "?mid < hi" using lt by simp
    ultimately show ?thesis using less.hyps [of ?mid lo] lt by force
  next
    case 2
    moreover have "lo < Suc ?mid" using lt by simp
    ultimately show ?thesis using less.hyps [of hi "Suc ?mid"] lt by force
  next
    case 3
    with lt show ?thesis by auto
  qed
qed

lemma bsearch_complete:
  "lo \<le> k \<Longrightarrow> k < hi \<Longrightarrow> hi \<le> length tbl \<Longrightarrow> fst (tbl ! k) \<le> cp \<Longrightarrow> cp \<le> snd (tbl ! k) \<Longrightarrow>
     bsearch tbl cp lo hi = Some k"
proof (induction "hi - lo" arbitrary: lo hi rule: less_induct)
  case less
  let ?mid = "(lo + hi) div 2"
  have mid: "lo \<le> ?mid" "?mid < hi" using less.prems by simp_all
  consider (below) "k < ?mid" | (above) "?mid < k" | (at) "k = ?mid" by linarith
  then show ?case
  proof cases
    case below
    have "snd (tbl ! k) < fst (tbl ! ?mid)"
      by (rule sorted_ranges_nth [OF sorted]) (use below mid less.prems in simp_all)
    then have "cp < fst (tbl ! ?mid)" using less.prems by simp
    then show ?thesis
      using less.hyps [of ?mid lo] below mid less.prems by (subst bsearch_step) simp
  next
    case above
    have "snd (tbl ! ?mid) < fst (tbl ! k)"
      by (rule sorted_ranges_nth [OF sorted]) (use above mid less.prems in simp_all)
    then have "snd (tbl ! ?mid) < cp" using less.prems by simp
    moreover have "fst (tbl ! ?mid) \<le> snd (tbl ! ?mid)"
      by (rule sorted_ranges_nth_le [OF sorted]) (use mid less.prems in simp)
    ultimately show ?thesis
      using less.hyps [of hi "Suc ?mid"] above mid less.prems by (subst bsearch_step) simp
  next
    case at
    with less.prems show ?thesis by (subst bsearch_step) simp
  qed
qed

lemma bsearch_correct: "bsearch tbl cp 0 (length tbl) \<noteq> None \<longleftrightarrow> in_ranges tbl cp"
proof
  assume "bsearch tbl cp 0 (length tbl) \<noteq> None"
  then obtain k where "bsearch tbl cp 0 (length tbl) = Some k" by blast
  from bsearch_sound [OF this] show "in_ranges tbl cp"
    by (auto simp: in_ranges_def list_ex_iff intro: bexI [where x = "tbl ! k"])
next
  assume "in_ranges tbl cp"
  then obtain k where "k < length tbl" "fst (tbl ! k) \<le> cp" "cp \<le> snd (tbl ! k)"
    by (auto simp: in_ranges_def list_ex_iff in_set_conv_nth)
  with bsearch_complete [of 0 k "length tbl" cp] show "bsearch tbl cp 0 (length tbl) \<noteq> None" by simp
qed

end

interpretation combining: range_table COMBINING_RANGES
  by unfold_locales (simp add: COMBINING_RANGES_def)

interpretation ambiguous: range_table AMBIGUOUS_WIDTH_RANGES
  by unfold_locales (simp add: AMBIGUOUS_WIDTH_RANGES_def)

lemma is_combining_char_iff: "is_combining_char cp \<longleftrightarrow> in_ranges COMBINING_RANGES cp"
  unfolding is_combining_char_def by (rule combining.bsearch_correct)

lemma is_ambiguous_width_iff: "is_ambiguous_width cp \<longleftrightarrow> in_ranges AMBIGUOUS_WIDTH_RANGES cp"
  unfolding is_ambiguous_width_def by (rule ambiguous.bsearch_correct)

text \<open>The bisections decide membership exactly: a code point is combining (or of ambiguous
  width) if and only if one of the ranges of the table contains it.\<close>

theorem width_tables_exact:
  "(is_combining_char cp \<longleftrightarrow> in_ranges COMBINING_RANGES cp)
   \<and> (is_ambiguous_width cp \<longleftrightarrow> in_ranges AMBIGUOUS_WIDTH_RANGES cp)"
  by (simp add: is_combining_char_iff is_ambiguous_width_iff)

subsection \<open>Widths\<close>

lemma char_width_le: "char_width cp \<le> 2"
  by (simp add: char_width_def)

lemma char_width_ascii [simp]: "0x20 \<le> cp \<Longrightarrow> cp < 0x7F \<Longrightarrow> char_width cp = 1"
  by (simp add: char_width_def)

lemma flag_if_bits [simp]:
  "flag_if b COMBINING AND WIDTH_MASK = 0" "flag_if b EMOJI_PRES AND WIDTH_MASK = 0"
  "flag_if b EXT_PICTOGRAPHIC AND WIDTH_MASK = 0" "flag_if b REGIONAL_IND AND WIDTH_MASK = 0"
  "flag_if b SKIN_TONE AND WIDTH_MASK = 0" "flag_if b VARIATION_SEL AND WIDTH_MASK = 0"
  by (simp_all add: flag_if_def class_flag_defs)

lemma width_bits: "n \<le> 2 \<Longrightarrow> as_u8 n AND WIDTH_MASK = as_u8 n"
  "n \<le> 2 \<Longrightarrow> as_u8 n AND COMBINING = 0" "n \<le> 2 \<Longrightarrow> as_u8 n AND VARIATION_SEL = 0"
  "n \<le> 2 \<Longrightarrow> as_u8 n AND REGIONAL_IND = 0"
  by (auto simp: class_flag_defs as_u8_def le_Suc_eq numeral_2_eq_2)

text \<open>The packed classification byte is lossless: its low bits are the display width and each
  flag bit is set exactly when the corresponding property holds.\<close>

theorem classify_fields:
  "unat (classify_codepoint cp AND WIDTH_MASK) = char_width cp
   \<and> (classify_codepoint cp AND COMBINING \<noteq> 0 \<longleftrightarrow> is_combining_char cp)
   \<and> (classify_codepoint cp AND EMOJI_PRES \<noteq> 0 \<longleftrightarrow> is_emoji_presentation cp)
   \<and> (classify_codepoint cp AND EXT_PICTOGRAPHIC \<noteq> 0 \<longleftrightarrow> is_extended_pictographic cp)
   \<and> (classify_codepoint cp AND REGIONAL_IND \<noteq> 0 \<longleftrightarrow> is_regional_indicator cp)
   \<and> (classify_codepoint cp AND SKIN_TONE \<noteq> 0 \<longleftrightarrow> is_skin_tone_modifier cp)
   \<and> (classify_codepoint cp AND VARIATION_SEL \<noteq> 0 \<longleftrightarrow> is_variation_selector cp)"
proof -
  have w: "char_width cp = 0 \<or> char_width cp = 1 \<or> char_width cp = 2"
    using char_width_le [of cp] by linarith
  have "unat (classify_codepoint cp AND WIDTH_MASK) = char_width cp"
    using char_width_le [of cp]
    by (simp add: classify_codepoint_def bit.conj_disj_distrib2 width_bits)
  then show ?thesis
    using w
    by (auto simp: classify_codepoint_def bit.conj_disj_distrib2 flag_if_def class_flag_defs as_u8_def)
qed

text \<open>Not every combining mark has display width 0, contrary to the documentation of
  \<open>char_width\<close>: the marks inside the wide CJK blocks are given width 2.\<close>

theorem wide_combining_marks:
  "is_combining_char 0x3099 \<and> char_width 0x3099 = 2 \<and> is_combining_char 0x302A \<and> char_width 0x302A = 2"
  by (simp add: is_combining_char_iff char_width_def is_zero_width_def is_emoji_presentation_def
      is_wide_code_point_def in_ranges_def COMBINING_RANGES_def zero_width_ranges_def
      emoji_presentation_ranges_def wide_ranges_def)

end
