(* ===== verification/CoreState.thy ===== *)
theory CoreState
  imports VtParser SlimCells Unicode
begin

text \<open>
  \<open>terminal_core.rs\<close> and \<open>terminal_core/types.rs\<close>: the state of a terminal, its
  construction and reset, and the small state components next to it: modes, tab stops and dirty
  bits (\<open>terminal_modes.rs\<close>) and the cursor (\<open>terminal_cursor.rs\<close>).

  The callback sink of the code is the log \<open>tc_events\<close>: every call of a callback appends one
  event (with no sink installed the code drops them; the log records what a sink would see).  The
  optional OSC responder is a field holding a function, as in the code.
\<close>

subsection \<open>Constants and small types\<close>

definition MODE_AUTO_WRAP :: nat where "MODE_AUTO_WRAP = 0"
definition MODE_ORIGIN :: nat where "MODE_ORIGIN = 1"
definition MODE_CURSOR_VISIBLE :: nat where "MODE_CURSOR_VISIBLE = 2"
definition MODE_CURSOR_BLINK :: nat where "MODE_CURSOR_BLINK = 3"
definition MODE_REVERSE_SCREEN :: nat where "MODE_REVERSE_SCREEN = 4"
definition MODE_BRACKETED_PASTE :: nat where "MODE_BRACKETED_PASTE = 5"
definition MODE_FOCUS_TRACKING :: nat where "MODE_FOCUS_TRACKING = 6"
definition MODE_COLUMN_132 :: nat where "MODE_COLUMN_132 = 7"
definition MODE_SYNCHRONIZED_OUTPUT :: nat where "MODE_SYNCHRONIZED_OUTPUT = 8"
definition MODE_MOUSE_NORMAL_TRACKING :: nat where "MODE_MOUSE_NORMAL_TRACKING = 11"
definition MODE_MOUSE_BUTTON_EVENT_TRACKING :: nat where "MODE_MOUSE_BUTTON_EVENT_TRACKING = 12"
definition MODE_MOUSE_ANY_EVENT_TRACKING :: nat where "MODE_MOUSE_ANY_EVENT_TRACKING = 13"
definition MODE_MOUSE_SGR_ENCODING :: nat where "MODE_MOUSE_SGR_ENCODING = 14"
definition MODE_ALT_SCREEN :: nat where "MODE_ALT_SCREEN = 15"
definition MODE_ALTERNATE_SCROLL :: nat where "MODE_ALTERNATE_SCROLL = 16"

lemmas mode_defs = MODE_AUTO_WRAP_def MODE_ORIGIN_def MODE_CURSOR_VISIBLE_def
  MODE_CURSOR_BLINK_def MODE_REVERSE_SCREEN_def MODE_BRACKETED_PASTE_def MODE_FOCUS_TRACKING_def
  MODE_COLUMN_132_def MODE_SYNCHRONIZED_OUTPUT_def MODE_MOUSE_NORMAL_TRACKING_def
  MODE_MOUSE_BUTTON_EVENT_TRACKING_def MODE_MOUSE_ANY_EVENT_TRACKING_def
  MODE_MOUSE_SGR_ENCODING_def MODE_ALT_SCREEN_def MODE_ALTERNATE_SCROLL_def

definition MAX_PENDING_PROMPT_MARKS :: nat where "MAX_PENDING_PROMPT_MARKS = 4096"
definition MAX_PENDING_FOLD_MARKS :: nat where "MAX_PENDING_FOLD_MARKS = 4096"
definition RESIZE_MARKER_MAX_COLS :: nat where "RESIZE_MARKER_MAX_COLS = 4096"
definition RESIZE_MARKER_MAX_ROWS :: nat where "RESIZE_MARKER_MAX_ROWS = 4096"

record cursor_state =
  cu_col :: nat
  cu_row :: nat
  cu_fg :: packed_color
  cu_bg :: packed_color
  cu_flags :: flags16
  cu_visible :: bool
  cu_g0_charset :: nat
  cu_g1_charset :: nat
  cu_origin_mode :: bool
  cu_wrap_pending :: bool

definition cursor_new :: cursor_state where
  "cursor_new =
     \<lparr>cu_col = 0, cu_row = 0, cu_fg = color_default, cu_bg = color_default, cu_flags = 0,
      cu_visible = True, cu_g0_charset = 0, cu_g1_charset = 0, cu_origin_mode = False,
      cu_wrap_pending = False\<rparr>"

record prompt_mark =
  pm_kind :: u8
  pm_abs_row :: nat
  pm_exit_code :: "int option"
  pm_evicted_total :: nat

datatype fold_mark_kind = FoldBegin | FoldEnd

record fold_mark =
  fm_kind :: fold_mark_kind
  fm_abs_row :: nat
  fm_evicted_total :: nat
  fm_label :: rstring

text \<open>The callbacks: \<open>on_osc_with_screen\<close>, \<open>on_apc\<close>, \<open>on_dcs\<close>, \<open>on_bell\<close>,
  \<open>on_reset\<close>.\<close>

datatype event =
    OnOsc nat rstring bool
  | OnApc "u8 list"
  | OnDcs "u8 list"
  | OnBell
  | OnReset

text \<open>\<open>ScrollEvent\<close>: the only direction is up, so the event is its count.\<close>

datatype scroll_direction = Up

record scroll_event =
  sc_direction :: scroll_direction
  sc_count :: nat

type_synonym slim_row = "slim_cell list"
type_synonym osc_responder = "nat \<Rightarrow> rstring \<Rightarrow> osc_terminator \<Rightarrow> nat \<Rightarrow> u8 list list"

record core =
  tc_cols :: nat
  tc_rows :: nat
  tc_ring_cells :: "cell list"
  tc_ring_wrapped :: "bool list"
  tc_ring_head :: nat
  tc_ring_size :: nat
  tc_ring_capacity :: nat
  tc_scrollback_slim :: "slim_row list"
  tc_scrollback_wrapped :: "bool list"
  tc_scrollback_capacity :: nat
  tc_scrollback_evicted_total :: nat
  tc_scrollback_bypass :: bool
  tc_capture_bypass_b_marks :: bool
  tc_virtual_scrollback_len :: nat
  tc_styles :: style_table
  tc_chars :: char_table
  tc_dirty :: "64 word list"
  tc_cursor :: cursor_state
  tc_saved_cursor :: "cursor_state option"
  tc_cursor_style_default :: nat
  tc_cursor_blink_default :: bool
  tc_scroll_region_scrollback_enabled :: bool
  tc_cursor_style_override :: "nat option"
  tc_cursor_blink_override :: "bool option"
  tc_modes :: modes32
  tc_tab_stops :: "bool list"
  tc_overflow :: overflow_table
  tc_overflow_ridx :: overflow_row_index
  tc_grapheme_buffer :: "nat list"
  tc_wrap_pending :: bool
  tc_last_write :: "(nat \<times> nat) option"
  tc_g0_charset :: nat
  tc_g1_charset :: nat
  tc_active_charset :: nat
  tc_kitty_placeholder_active :: bool
  tc_scroll_region_top :: nat
  tc_scroll_region_bottom :: nat
  tc_response_queue :: "u8 list"
  tc_cell_width_px :: nat
  tc_cell_height_px :: nat
  tc_scroll_event :: "scroll_event option"
  tc_parser :: parser
  tc_mode_actions :: "nat list"
  tc_events :: "event list"
  tc_osc_responder :: "osc_responder option"
  tc_hyperlink_table :: "(rstring \<times> rstring) option list"
  tc_hyperlink_next_id :: nat
  tc_active_hyperlink_id :: nat
  tc_cursor_just_shown :: bool
  tc_cursor_show_interrupt :: bool
  tc_pending_prompt_marks :: "prompt_mark list"
  tc_pending_fold_marks :: "fold_mark list"
  tc_bypass_b_mark_texts :: "(nat \<times> rstring) list"
  tc_osc_app_params :: "(nat \<times> nat) list"
  tc_reflow_call_count :: nat

end
