(* ===== verification/CoreOps.thy ===== *)
theory CoreOps
  imports CoreState
begin

text \<open>
  The operations of \<open>TerminalCore\<close> that touch neither the grid nor the scrollback:
  construction, configuration, modes, tab stops, dirty bits, cursor, charsets, the scroll region
  and the callbacks.
\<close>

unbundle bit_operations_syntax

subsection \<open>Modes (terminal_modes.rs)\<close>

definition set_modes :: "core \<Rightarrow> modes32 \<Rightarrow> core" where
  "set_modes c modes = c\<lparr>tc_modes := modes\<rparr>"

definition get_mode :: "core \<Rightarrow> nat \<Rightarrow> bool" where
  "get_mode c b = (if b < 32 then drop_bit b (tc_modes c) AND 1 \<noteq> 0 else False)"

definition set_mode :: "core \<Rightarrow> nat \<Rightarrow> bool \<Rightarrow> core" where
  "set_mode c b value =
     (if b < 32 then
        if value then c\<lparr>tc_modes := tc_modes c OR push_bit b 1\<rparr>
        else c\<lparr>tc_modes := tc_modes c AND NOT (push_bit b 1)\<rparr>
      else c)"

subsection \<open>Tab stops\<close>

definition set_tab_stop :: "core \<Rightarrow> nat \<Rightarrow> core" where
  "set_tab_stop c col =
     (if col < length (tc_tab_stops c) then c\<lparr>tc_tab_stops := (tc_tab_stops c)[col := True]\<rparr> else c)"

definition clear_tab_stop :: "core \<Rightarrow> nat \<Rightarrow> core" where
  "clear_tab_stop c col =
     (if col < length (tc_tab_stops c) then c\<lparr>tc_tab_stops := (tc_tab_stops c)[col := False]\<rparr> else c)"

definition clear_all_tab_stops :: "core \<Rightarrow> core" where
  "clear_all_tab_stops c = c\<lparr>tc_tab_stops := map (\<lambda>_. False) (tc_tab_stops c)\<rparr>"

definition next_tab_stop :: "core \<Rightarrow> nat \<Rightarrow> nat" where
  "next_tab_stop c from_col =
     (case find (\<lambda>i. tc_tab_stops c ! i) [from_col + 1..<length (tc_tab_stops c)] of
        Some i \<Rightarrow> i | None \<Rightarrow> tc_cols c - 1)"

text \<open>\<open>vec![false; cols]\<close> with every eighth column set.\<close>

definition default_tab_stops :: "nat \<Rightarrow> bool list" where
  "default_tab_stops cols = map (\<lambda>i. i mod 8 = 0) [0..<cols]"

subsection \<open>Dirty rows\<close>

definition is_row_dirty :: "core \<Rightarrow> nat \<Rightarrow> bool" where
  "is_row_dirty c row =
     (if row \<ge> tc_rows c then False
      else row div 64 < length (tc_dirty c)
        \<and> drop_bit (row mod 64) (tc_dirty c ! (row div 64)) AND 1 \<noteq> 0)"

definition get_dirty_rows :: "core \<Rightarrow> nat list" where
  "get_dirty_rows c = filter (is_row_dirty c) [0..<tc_rows c]"

definition mark_row_dirty :: "core \<Rightarrow> nat \<Rightarrow> core" where
  "mark_row_dirty c row =
     (if row < tc_rows c \<and> row div 64 < length (tc_dirty c)
      then c\<lparr>tc_dirty := (tc_dirty c)[row div 64 := tc_dirty c ! (row div 64) OR push_bit (row mod 64) 1]\<rparr>
      else c)"

definition mark_all_dirty :: "core \<Rightarrow> core" where
  "mark_all_dirty c = c\<lparr>tc_dirty := map (\<lambda>_. - 1) (tc_dirty c)\<rparr>"

definition clear_dirty :: "core \<Rightarrow> core" where
  "clear_dirty c = c\<lparr>tc_dirty := map (\<lambda>_. 0) (tc_dirty c)\<rparr>"

definition shift_dirty_step :: "64 word list \<Rightarrow> nat \<Rightarrow> 64 word list" where
  "shift_dirty_step d i =
     (let d1 = d[i := drop_bit 1 (d ! i)]
      in if i + 1 < length d1 \<and> d1 ! (i + 1) AND 1 \<noteq> 0
         then d1[i := d1 ! i OR push_bit 63 1] else d1)"

definition shift_dirty_down_by_one :: "core \<Rightarrow> core" where
  "shift_dirty_down_by_one c =
     c\<lparr>tc_dirty := foldl shift_dirty_step (tc_dirty c) [0..<length (tc_dirty c)]\<rparr>"

subsection \<open>Callbacks\<close>

definition fire :: "core \<Rightarrow> event \<Rightarrow> core" where
  "fire c e = c\<lparr>tc_events := tc_events c @ [e]\<rparr>"

definition fire_osc_callback :: "core \<Rightarrow> nat \<Rightarrow> rstring \<Rightarrow> core" where
  "fire_osc_callback c action_type data = fire c (OnOsc action_type data (get_mode c MODE_ALT_SCREEN))"

definition fire_apc_callback :: "core \<Rightarrow> u8 list \<Rightarrow> core" where
  "fire_apc_callback c data = fire c (OnApc data)"

definition fire_dcs_callback :: "core \<Rightarrow> u8 list \<Rightarrow> core" where
  "fire_dcs_callback c data = fire c (OnDcs data)"

definition fire_bell_callback :: "core \<Rightarrow> core" where
  "fire_bell_callback c = fire c OnBell"

definition fire_reset_callback :: "core \<Rightarrow> core" where
  "fire_reset_callback c = fire c OnReset"

subsection \<open>Construction and reset (terminal_core.rs)\<close>

definition default_modes :: modes32 where
  "default_modes = push_bit MODE_AUTO_WRAP 1 OR push_bit MODE_CURSOR_VISIBLE 1
     OR push_bit MODE_CURSOR_BLINK 1 OR push_bit MODE_ALTERNATE_SCROLL 1"

definition core_new :: "nat \<Rightarrow> nat \<Rightarrow> nat \<Rightarrow> core" where
  "core_new cols rows scrollback_lines = mark_all_dirty
     \<lparr>tc_cols = cols, tc_rows = rows,
      tc_ring_cells = replicate (rows * cols) cell_empty,
      tc_ring_wrapped = replicate rows False,
      tc_ring_head = 0, tc_ring_size = rows, tc_ring_capacity = scrollback_lines + rows,
      tc_scrollback_slim = [], tc_scrollback_wrapped = [],
      tc_scrollback_capacity = scrollback_lines, tc_scrollback_evicted_total = 0,
      tc_scrollback_bypass = False, tc_capture_bypass_b_marks = False,
      tc_virtual_scrollback_len = 0, tc_styles = style_table_new, tc_chars = char_table_new,
      tc_dirty = replicate ((rows + 63) div 64) (- 1),
      tc_cursor = cursor_new, tc_saved_cursor = None, tc_cursor_style_default = 0,
      tc_cursor_blink_default = True, tc_scroll_region_scrollback_enabled = True,
      tc_cursor_style_override = None, tc_cursor_blink_override = None,
      tc_modes = default_modes, tc_tab_stops = default_tab_stops cols,
      tc_overflow = [], tc_overflow_ridx = [], tc_grapheme_buffer = [], tc_wrap_pending = False,
      tc_last_write = None, tc_g0_charset = 0, tc_g1_charset = 0, tc_active_charset = 0,
      tc_kitty_placeholder_active = False, tc_scroll_region_top = 0,
      tc_scroll_region_bottom = rows - 1, tc_response_queue = [], tc_cell_width_px = 8,
      tc_cell_height_px = 16, tc_scroll_event = None, tc_parser = parser_new,
      tc_mode_actions = [], tc_events = [], tc_osc_responder = None,
      tc_hyperlink_table = [None], tc_hyperlink_next_id = 1, tc_active_hyperlink_id = 0,
      tc_cursor_just_shown = False, tc_cursor_show_interrupt = False,
      tc_pending_prompt_marks = [], tc_pending_fold_marks = [], tc_bypass_b_mark_texts = [],
      tc_osc_app_params = [], tc_reflow_call_count = 0\<rparr>"

definition core_reset :: "core \<Rightarrow> core" where
  "core_reset c =
     fire_reset_callback (mark_all_dirty (c\<lparr>
      tc_ring_cells := replicate (tc_rows c * tc_cols c) cell_empty,
      tc_ring_wrapped := replicate (tc_rows c) False,
      tc_ring_head := 0, tc_ring_size := tc_rows c,
      tc_scrollback_slim := [], tc_scrollback_wrapped := [], tc_scrollback_evicted_total := 0,
      tc_virtual_scrollback_len := 0, tc_styles := style_table_new, tc_chars := char_table_new,
      tc_cursor := cursor_new, tc_saved_cursor := None,
      tc_cursor_style_override := None, tc_cursor_blink_override := None,
      tc_modes := default_modes, tc_tab_stops := default_tab_stops (tc_cols c),
      tc_overflow := [], tc_overflow_ridx := [], tc_scroll_event := None,
      tc_grapheme_buffer := [], tc_wrap_pending := False, tc_last_write := None,
      tc_g0_charset := 0, tc_g1_charset := 0, tc_active_charset := 0,
      tc_scroll_region_top := 0, tc_scroll_region_bottom := tc_rows c - 1,
      tc_response_queue := [], tc_parser := parser_reset (tc_parser c), tc_mode_actions := [],
      tc_cursor_just_shown := False, tc_pending_prompt_marks := [], tc_pending_fold_marks := [],
      tc_bypass_b_mark_texts := [], tc_capture_bypass_b_marks := False\<rparr>))"

definition register_osc_app_param :: "core \<Rightarrow> nat \<Rightarrow> nat \<Rightarrow> core" where
  "register_osc_app_param c param action_type =
     c\<lparr>tc_osc_app_params := tc_osc_app_params c @ [(param, action_type)]\<rparr>"

definition set_scroll_region_scrollback_enabled :: "core \<Rightarrow> bool \<Rightarrow> core" where
  "set_scroll_region_scrollback_enabled c enabled = c\<lparr>tc_scroll_region_scrollback_enabled := enabled\<rparr>"

definition set_cell_size_px :: "core \<Rightarrow> nat \<Rightarrow> nat \<Rightarrow> core" where
  "set_cell_size_px c width height = c\<lparr>tc_cell_width_px := width, tc_cell_height_px := height\<rparr>"

definition clear_scroll_event :: "core \<Rightarrow> core" where
  "clear_scroll_event c = c\<lparr>tc_scroll_event := None\<rparr>"

definition take_mode_actions :: "core \<Rightarrow> nat list \<times> core" where
  "take_mode_actions c = (tc_mode_actions c, c\<lparr>tc_mode_actions := []\<rparr>)"

definition take_prompt_marks :: "core \<Rightarrow> prompt_mark list \<times> core" where
  "take_prompt_marks c = (tc_pending_prompt_marks c, c\<lparr>tc_pending_prompt_marks := []\<rparr>)"

definition take_fold_marks :: "core \<Rightarrow> fold_mark list \<times> core" where
  "take_fold_marks c = (tc_pending_fold_marks c, c\<lparr>tc_pending_fold_marks := []\<rparr>)"

definition take_bypass_b_mark_texts :: "core \<Rightarrow> (nat \<times> rstring) list \<times> core" where
  "take_bypass_b_mark_texts c = (tc_bypass_b_mark_texts c, c\<lparr>tc_bypass_b_mark_texts := []\<rparr>)"

definition set_cursor_show_interrupt :: "core \<Rightarrow> bool \<Rightarrow> core" where
  "set_cursor_show_interrupt c enable = c\<lparr>tc_cursor_show_interrupt := enable\<rparr>"

definition set_g0_charset :: "core \<Rightarrow> nat \<Rightarrow> core" where
  "set_g0_charset c val = c\<lparr>tc_g0_charset := (if val \<le> 1 then val else 0)\<rparr>"

definition set_g1_charset :: "core \<Rightarrow> nat \<Rightarrow> core" where
  "set_g1_charset c val = c\<lparr>tc_g1_charset := (if val \<le> 1 then val else 0)\<rparr>"

definition set_active_charset :: "core \<Rightarrow> nat \<Rightarrow> core" where
  "set_active_charset c val = c\<lparr>tc_active_charset := (if val \<le> 1 then val else 0)\<rparr>"

definition set_scroll_region :: "core \<Rightarrow> nat \<Rightarrow> nat \<Rightarrow> core" where
  "set_scroll_region c rtop rbottom =
     (let t = min rtop (tc_rows c - 1); b = min rbottom (tc_rows c - 1)
      in if t < b then c\<lparr>tc_scroll_region_top := t, tc_scroll_region_bottom := b\<rparr>
         else c\<lparr>tc_scroll_region_top := 0, tc_scroll_region_bottom := tc_rows c - 1\<rparr>)"

definition set_wrap_pending :: "core \<Rightarrow> bool \<Rightarrow> core" where
  "set_wrap_pending c val = c\<lparr>tc_wrap_pending := val\<rparr>"

definition clear_grapheme_buffer :: "core \<Rightarrow> core" where
  "clear_grapheme_buffer c = c\<lparr>tc_grapheme_buffer := []\<rparr>"

definition clamp_resize_dims :: "nat \<Rightarrow> nat \<Rightarrow> nat \<times> nat" where
  "clamp_resize_dims cols rows =
     (min RESIZE_MARKER_MAX_COLS (max 1 cols), min RESIZE_MARKER_MAX_ROWS (max 1 rows))"

subsection \<open>Cursor (terminal_cursor.rs)\<close>

abbreviation cur_col :: "core \<Rightarrow> nat" where "cur_col c \<equiv> cu_col (tc_cursor c)"
abbreviation cur_row :: "core \<Rightarrow> nat" where "cur_row c \<equiv> cu_row (tc_cursor c)"

definition upd_cursor :: "(cursor_state \<Rightarrow> cursor_state) \<Rightarrow> core \<Rightarrow> core" where
  "upd_cursor f c = c\<lparr>tc_cursor := f (tc_cursor c)\<rparr>"

definition set_cursor_col :: "core \<Rightarrow> nat \<Rightarrow> core" where
  "set_cursor_col c col = upd_cursor (\<lambda>u. u\<lparr>cu_col := min col (tc_cols c - 1)\<rparr>) c"

definition set_cursor_row :: "core \<Rightarrow> nat \<Rightarrow> core" where
  "set_cursor_row c row = upd_cursor (\<lambda>u. u\<lparr>cu_row := min row (tc_rows c - 1)\<rparr>) c"

definition set_cursor :: "core \<Rightarrow> nat \<Rightarrow> nat \<Rightarrow> core" where
  "set_cursor c col row =
     upd_cursor (\<lambda>u. u\<lparr>cu_col := min col (tc_cols c - 1), cu_row := min row (tc_rows c - 1)\<rparr>) c"

definition set_cursor_visible :: "core \<Rightarrow> bool \<Rightarrow> core" where
  "set_cursor_visible c visible = upd_cursor (\<lambda>u. u\<lparr>cu_visible := visible\<rparr>) c"

definition get_cursor_style :: "core \<Rightarrow> nat" where
  "get_cursor_style c = (case tc_cursor_style_override c of Some s \<Rightarrow> s | None \<Rightarrow> tc_cursor_style_default c)"

definition set_cursor_style :: "core \<Rightarrow> nat \<Rightarrow> core" where
  "set_cursor_style c style = c\<lparr>tc_cursor_style_default := (if style \<le> 2 then style else 0)\<rparr>"

definition get_cursor_blink :: "core \<Rightarrow> bool" where
  "get_cursor_blink c = (case tc_cursor_blink_override c of Some b \<Rightarrow> b | None \<Rightarrow> tc_cursor_blink_default c)"

definition set_cursor_blink :: "core \<Rightarrow> bool \<Rightarrow> core" where
  "set_cursor_blink c blink = c\<lparr>tc_cursor_blink_default := blink\<rparr>"

definition set_cursor_fg :: "core \<Rightarrow> u8 \<Rightarrow> u8 \<Rightarrow> u8 \<Rightarrow> u8 \<Rightarrow> core" where
  "set_cursor_fg c tag r g b = upd_cursor (\<lambda>u. u\<lparr>cu_fg := PackedColor tag r g b\<rparr>) c"

definition set_cursor_bg :: "core \<Rightarrow> u8 \<Rightarrow> u8 \<Rightarrow> u8 \<Rightarrow> u8 \<Rightarrow> core" where
  "set_cursor_bg c tag r g b = upd_cursor (\<lambda>u. u\<lparr>cu_bg := PackedColor tag r g b\<rparr>) c"

definition set_cursor_flags :: "core \<Rightarrow> flags16 \<Rightarrow> core" where
  "set_cursor_flags c flags = upd_cursor (\<lambda>u. u\<lparr>cu_flags := flags\<rparr>) c"

definition reset_cursor_attrs :: "core \<Rightarrow> core" where
  "reset_cursor_attrs c =
     upd_cursor (\<lambda>u. u\<lparr>cu_fg := color_default, cu_bg := color_default, cu_flags := 0\<rparr>) c"

definition save_cursor :: "core \<Rightarrow> core" where
  "save_cursor c = c\<lparr>tc_saved_cursor := Some ((tc_cursor c)\<lparr>
     cu_g0_charset := tc_g0_charset c, cu_g1_charset := tc_g1_charset c,
     cu_origin_mode := get_mode c MODE_ORIGIN, cu_wrap_pending := tc_wrap_pending c\<rparr>)\<rparr>"

definition restore_cursor :: "core \<Rightarrow> core" where
  "restore_cursor c =
     (case tc_saved_cursor c of
        Some saved \<Rightarrow>
          let u = saved\<lparr>cu_col := min (cu_col saved) (tc_cols c - 1),
                        cu_row := min (cu_row saved) (tc_rows c - 1)\<rparr>;
              c1 = c\<lparr>tc_saved_cursor := None, tc_cursor := u,
                     tc_g0_charset := cu_g0_charset u, tc_g1_charset := cu_g1_charset u\<rparr>
          in (set_mode c1 MODE_ORIGIN (cu_origin_mode u))\<lparr>tc_wrap_pending := cu_wrap_pending u\<rparr>
      | None \<Rightarrow>
          (set_mode (c\<lparr>tc_cursor := cursor_new, tc_g0_charset := 0, tc_g1_charset := 0\<rparr>)
             MODE_ORIGIN False)\<lparr>tc_wrap_pending := False\<rparr>)"

definition carriage_return :: "core \<Rightarrow> core" where
  "carriage_return c = upd_cursor (\<lambda>u. u\<lparr>cu_col := 0\<rparr>) c"

subsection \<open>Laws of the mode bits\<close>

lemma drop_bit_one_iff: "drop_bit n (w :: 'a::len word) AND 1 \<noteq> 0 \<longleftrightarrow> bit w n"
  by (simp add: and_one_eq odd_iff_mod_2_eq_one [symmetric] bit_iff_odd_drop_bit)

lemma get_mode_bit: "get_mode c b \<longleftrightarrow> b < 32 \<and> bit (tc_modes c) b"
  by (auto simp: get_mode_def drop_bit_one_iff)

lemma get_set_mode:
  "get_mode (set_mode c b v) b' = (if b' = b \<and> b < 32 then v else get_mode c b')"
  by (auto simp: get_mode_bit set_mode_def bit_simps)

lemma set_mode_frame [simp]:
  "tc_cols (set_mode c b v) = tc_cols c" "tc_rows (set_mode c b v) = tc_rows c"
  "tc_cursor (set_mode c b v) = tc_cursor c" "tc_saved_cursor (set_mode c b v) = tc_saved_cursor c"
  by (simp_all add: set_mode_def)

lemma set_mode_eq: "set_mode c b v = c\<lparr>tc_modes := tc_modes (set_mode c b v)\<rparr>"
  by (simp add: set_mode_def)

end
