(* ===== verification/Grid.thy ===== *)
theory Grid
  imports CoreOps
begin

text \<open>
  \<open>terminal_cells.rs\<close> and \<open>terminal_rows.rs\<close>, with the index mapping of
  \<open>ring_buffer.rs\<close>: the viewport is a flat array of cells whose rows rotate; the overflow
  table is keyed by the physical row.  A Rust loop over the cells of a row is a block write.
\<close>

subsection \<open>Index mapping\<close>

definition viewport_abs :: "core \<Rightarrow> nat \<Rightarrow> nat" where
  "viewport_abs c row = (if tc_rows c = 0 then 0 else (tc_ring_head c + row) mod tc_rows c)"

definition viewport_cell_offset :: "core \<Rightarrow> nat \<Rightarrow> nat \<Rightarrow> nat option" where
  "viewport_cell_offset c col row =
     (if col < tc_cols c \<and> row < tc_rows c then
        let offset = viewport_abs c row * tc_cols c + col
        in if offset < length (tc_ring_cells c) then Some offset else None
      else None)"

definition cell_index :: "core \<Rightarrow> nat \<Rightarrow> nat \<Rightarrow> nat option" where
  "cell_index c col row = viewport_cell_offset c col row"

subsection \<open>Overflow entries of a cell\<close>

definition overflow_store :: "core \<Rightarrow> nat \<Rightarrow> nat \<Rightarrow> rstring \<Rightarrow> core" where
  "overflow_store c col absrow s =
     c\<lparr>tc_overflow := AList.update (col, absrow) s (tc_overflow c),
       tc_overflow_ridx := overflow_ridx_insert (tc_overflow_ridx c) absrow col\<rparr>"

definition overflow_drop :: "core \<Rightarrow> nat \<Rightarrow> nat \<Rightarrow> core" where
  "overflow_drop c col absrow =
     (if map_of (tc_overflow c) (col, absrow) \<noteq> None
      then c\<lparr>tc_overflow := AList.delete (col, absrow) (tc_overflow c),
             tc_overflow_ridx := overflow_ridx_remove (tc_overflow_ridx c) absrow col\<rparr>
      else c)"

definition overflow_clear_abs :: "core \<Rightarrow> nat \<Rightarrow> core" where
  "overflow_clear_abs c absrow =
     c\<lparr>tc_overflow := overflow_clear_row (tc_overflow c) absrow,
       tc_overflow_ridx := overflow_ridx_clear_row (tc_overflow_ridx c) absrow\<rparr>"

definition upd_cell :: "nat \<Rightarrow> (cell \<Rightarrow> cell) \<Rightarrow> core \<Rightarrow> core" where
  "upd_cell i f c = c\<lparr>tc_ring_cells := (tc_ring_cells c)[i := f (tc_ring_cells c ! i)]\<rparr>"

subsection \<open>Cells (terminal_cells.rs)\<close>

definition set_cell ::
  "core \<Rightarrow> nat \<Rightarrow> nat \<Rightarrow> rstring \<Rightarrow> nat \<Rightarrow> packed_color \<Rightarrow> packed_color \<Rightarrow> flags16 \<Rightarrow> core" where
  "set_cell c col row char_str width fg bg flags =
     (case cell_index c col row of
        None \<Rightarrow> c
      | Some i \<Rightarrow>
          let a = viewport_abs c row;
              c1 = upd_cell i (\<lambda>cl. set_char cl char_str) c;
              c2 = (if is_overflow (tc_ring_cells c1 ! i) then overflow_store c1 col a char_str
                    else overflow_drop c1 col a);
              c3 = upd_cell i (\<lambda>cl. cl\<lparr>cl_width := width, cl_fg := fg, cl_bg := bg, cl_flags := flags\<rparr>) c2
          in mark_row_dirty c3 row)"

definition set_cell_ascii ::
  "core \<Rightarrow> nat \<Rightarrow> nat \<Rightarrow> u8 \<Rightarrow> packed_color \<Rightarrow> packed_color \<Rightarrow> flags16 \<Rightarrow> core" where
  "set_cell_ascii c col row byte fg bg flags =
     (case cell_index c col row of
        None \<Rightarrow> c
      | Some i \<Rightarrow>
          let c1 = upd_cell i (\<lambda>cl. cl\<lparr>cl_char_data := byte # replicate (length (cl_char_data cl) - 1) 0,
                     cl_char_len := 1, cl_width := 1, cl_fg := fg, cl_bg := bg, cl_flags := flags\<rparr>) c;
              c2 = overflow_drop c1 col (viewport_abs c row)
          in mark_row_dirty c2 row)"

definition get_cell_char :: "core \<Rightarrow> nat \<Rightarrow> nat \<Rightarrow> rstring" where
  "get_cell_char c col row =
     (case cell_index c col row of
        None \<Rightarrow> [0x20]
      | Some i \<Rightarrow>
          let cl = tc_ring_cells c ! i in
          if is_overflow cl then
            (case map_of (tc_overflow c) (col, viewport_abs c row) of Some s \<Rightarrow> s | None \<Rightarrow> [])
          else (case get_char_inline cl of Some s \<Rightarrow> s | None \<Rightarrow> [0x20]))"

definition get_cell_width :: "core \<Rightarrow> nat \<Rightarrow> nat \<Rightarrow> nat" where
  "get_cell_width c col row =
     (case cell_index c col row of None \<Rightarrow> 1 | Some i \<Rightarrow> cl_width (tc_ring_cells c ! i))"

definition get_cell_fg :: "core \<Rightarrow> nat \<Rightarrow> nat \<Rightarrow> 32 word" where
  "get_cell_fg c col row =
     (case cell_index c col row of None \<Rightarrow> 0 | Some i \<Rightarrow> color_to_u32 (cl_fg (tc_ring_cells c ! i)))"

definition get_cell_bg :: "core \<Rightarrow> nat \<Rightarrow> nat \<Rightarrow> 32 word" where
  "get_cell_bg c col row =
     (case cell_index c col row of None \<Rightarrow> 0 | Some i \<Rightarrow> color_to_u32 (cl_bg (tc_ring_cells c ! i)))"

definition get_cell_flags :: "core \<Rightarrow> nat \<Rightarrow> nat \<Rightarrow> flags16" where
  "get_cell_flags c col row =
     (case cell_index c col row of None \<Rightarrow> 0 | Some i \<Rightarrow> cl_flags (tc_ring_cells c ! i))"

definition get_cell_hyperlink_id :: "core \<Rightarrow> nat \<Rightarrow> nat \<Rightarrow> nat" where
  "get_cell_hyperlink_id c col row =
     (case cell_index c col row of None \<Rightarrow> 0 | Some i \<Rightarrow> cl_hyperlink_id (tc_ring_cells c ! i))"

definition hyperlink_entry :: "core \<Rightarrow> nat \<Rightarrow> (rstring \<times> rstring) option" where
  "hyperlink_entry c i =
     (if i < length (tc_hyperlink_table c) then tc_hyperlink_table c ! i else None)"

definition get_hyperlink_uri :: "core \<Rightarrow> nat \<Rightarrow> rstring" where
  "get_hyperlink_uri c i =
     (if i = 0 then [] else case hyperlink_entry c i of Some (_, uri) \<Rightarrow> uri | None \<Rightarrow> [])"

definition get_hyperlink_params :: "core \<Rightarrow> nat \<Rightarrow> rstring" where
  "get_hyperlink_params c i =
     (if i = 0 then [] else case hyperlink_entry c i of Some (params, _) \<Rightarrow> params | None \<Rightarrow> [])"

definition bce_cell :: "core \<Rightarrow> cell" where
  "bce_cell c = cell_empty\<lparr>cl_bg := cu_bg (tc_cursor c)\<rparr>"

definition blank_wide_pair_half :: "core \<Rightarrow> nat \<Rightarrow> nat \<Rightarrow> core" where
  "blank_wide_pair_half c col row =
     (case cell_index c col row of
        None \<Rightarrow> c
      | Some i \<Rightarrow>
          let width = cl_width (tc_ring_cells c ! i) in
          if width \<noteq> 0 \<and> width \<noteq> 2 then c
          else
            let c1 = (if tc_overflow c \<noteq> [] then overflow_drop c col (viewport_abs c row) else c)
            in mark_row_dirty (upd_cell i (\<lambda>cl. (set_char cl [0x20])\<lparr>cl_width := 1\<rparr>) c1) row)"

subsection \<open>Rows (terminal_rows.rs)\<close>

definition fill_cells :: "nat \<Rightarrow> nat \<Rightarrow> cell \<Rightarrow> core \<Rightarrow> core" where
  "fill_cells base n cl c = c\<lparr>tc_ring_cells := splice base (replicate n cl) (tc_ring_cells c)\<rparr>"

text \<open>The row-blanking sequence shared by the row operations: cells, wrap flag, overflow.\<close>

definition blank_abs_row :: "core \<Rightarrow> nat \<Rightarrow> core" where
  "blank_abs_row c absrow =
     overflow_clear_abs
       ((fill_cells (absrow * tc_cols c) (tc_cols c) (bce_cell c) c)
          \<lparr>tc_ring_wrapped := (tc_ring_wrapped c)[absrow := False]\<rparr>) absrow"

definition clear_line :: "core \<Rightarrow> nat \<Rightarrow> core" where
  "clear_line c row =
     (if row \<ge> tc_rows c then c
      else if viewport_abs c row * tc_cols c + tc_cols c > length (tc_ring_cells c) then c
      else mark_row_dirty (blank_abs_row c (viewport_abs c row)) row)"

definition clear_line_range :: "core \<Rightarrow> nat \<Rightarrow> nat \<Rightarrow> nat \<Rightarrow> core" where
  "clear_line_range c row start_col end_col =
     (if row \<ge> tc_rows c then c
      else
        let start = min start_col (tc_cols c); stop = min end_col (tc_cols c);
            a = viewport_abs c row; base = a * tc_cols c
        in if base + tc_cols c > length (tc_ring_cells c) then c
           else
             let c1 = fill_cells (base + start) (stop - start) (bce_cell c) c
             in mark_row_dirty
                  (c1\<lparr>tc_overflow := overflow_clear_range (tc_overflow c1) a start_col end_col,
                      tc_overflow_ridx := overflow_ridx_clear_range (tc_overflow_ridx c1) a start_col end_col\<rparr>)
                  row)"

text \<open>\<open>line_text_abs\<close> of ring_buffer.rs.\<close>

definition cell_text :: "core \<Rightarrow> nat \<Rightarrow> nat \<Rightarrow> rstring" where
  "cell_text c a col =
     (let cl = tc_ring_cells c ! (a * tc_cols c + col) in
      if cl_width cl > 0 then
        if is_overflow cl then (case map_of (tc_overflow c) (col, a) of Some s \<Rightarrow> s | None \<Rightarrow> [])
        else (case get_char_inline cl of Some s \<Rightarrow> s | None \<Rightarrow> [])
      else [])"

definition line_text_abs :: "core \<Rightarrow> nat \<Rightarrow> rstring" where
  "line_text_abs c a =
     (if a * tc_cols c + tc_cols c > length (tc_ring_cells c) then []
      else concat (map (cell_text c a) [0..<tc_cols c]))"

definition get_line_text :: "core \<Rightarrow> nat \<Rightarrow> rstring" where
  "get_line_text c row = (if row \<ge> tc_rows c then [] else line_text_abs c (viewport_abs c row))"

definition is_line_empty :: "core \<Rightarrow> nat \<Rightarrow> bool" where
  "is_line_empty c row =
     (if row \<ge> tc_rows c then True
      else
        let base = viewport_abs c row * tc_cols c in
        if base + tc_cols c > length (tc_ring_cells c) then True
        else list_all
          (\<lambda>cl. \<not> (cl_width cl > 0 \<and>
             (is_overflow cl \<or> (case get_char_inline cl of Some s \<Rightarrow> s \<noteq> [0x20] | None \<Rightarrow> False))))
          (slice base (tc_cols c) (tc_ring_cells c)))"

definition get_line_wrapped :: "core \<Rightarrow> nat \<Rightarrow> bool" where
  "get_line_wrapped c row = (if row < tc_rows c then tc_ring_wrapped c ! viewport_abs c row else False)"

definition set_line_wrapped :: "core \<Rightarrow> nat \<Rightarrow> bool \<Rightarrow> core" where
  "set_line_wrapped c row wrapped =
     (if row < tc_rows c
      then c\<lparr>tc_ring_wrapped := (tc_ring_wrapped c)[viewport_abs c row := wrapped]\<rparr> else c)"

text \<open>Moving the overflow entries of one physical row to another, by the reverse index.\<close>

definition move_overflow :: "core \<Rightarrow> nat \<Rightarrow> nat \<Rightarrow> core" where
  "move_overflow c src dst =
     (case map_of (tc_overflow_ridx c) src of
        None \<Rightarrow> c
      | Some src_cols \<Rightarrow>
          c\<lparr>tc_overflow := foldl (\<lambda>t col. case map_of t (col, src) of
                 Some v \<Rightarrow> AList.update (col, dst) v (AList.delete (col, src) t) | None \<Rightarrow> t)
               (tc_overflow c) src_cols,
            tc_overflow_ridx := AList.update dst src_cols (AList.delete src (tc_overflow_ridx c))\<rparr>)"

definition move_row :: "core \<Rightarrow> nat \<Rightarrow> nat \<Rightarrow> core" where
  "move_row c src dst =
     (let cols = tc_cols c;
          c1 = c\<lparr>tc_ring_cells := splice (dst * cols) (slice (src * cols) cols (tc_ring_cells c)) (tc_ring_cells c),
                 tc_ring_wrapped := (tc_ring_wrapped c)[dst := tc_ring_wrapped c ! src]\<rparr>
      in move_overflow c1 src dst)"

definition shift_rows_up :: "core \<Rightarrow> nat \<Rightarrow> nat \<Rightarrow> nat \<Rightarrow> core" where
  "shift_rows_up c start_row end_row count =
     (if count = 0 \<or> start_row \<ge> tc_rows c \<or> end_row \<ge> tc_rows c \<or> start_row > end_row then c
      else
        let count = min count (end_row - start_row + 1) in
        if tc_rows c * tc_cols c > length (tc_ring_cells c) then c
        else
          let c1 = foldl (\<lambda>c r. overflow_clear_abs c (viewport_abs c r)) c [start_row..<start_row + count];
              c2 = foldl (\<lambda>c dst. if dst + count \<le> end_row
                          then move_row c (viewport_abs c (dst + count)) (viewport_abs c dst) else c)
                     c1 [start_row..<Suc (end_row - count)];
              c3 = foldl (\<lambda>c r. blank_abs_row c (viewport_abs c r)) c2 [end_row + 1 - count..<Suc end_row]
          in foldl mark_row_dirty c3 [start_row..<Suc end_row])"

definition shift_rows_down :: "core \<Rightarrow> nat \<Rightarrow> nat \<Rightarrow> nat \<Rightarrow> core" where
  "shift_rows_down c start_row end_row count =
     (if count = 0 \<or> start_row \<ge> tc_rows c \<or> end_row \<ge> tc_rows c \<or> start_row > end_row then c
      else
        let count = min count (end_row - start_row + 1) in
        if tc_rows c * tc_cols c > length (tc_ring_cells c) then c
        else
          let c1 = foldl (\<lambda>c r. overflow_clear_abs c (viewport_abs c r)) c [end_row + 1 - count..<Suc end_row];
              c2 = foldl (\<lambda>c dst. move_row c (viewport_abs c (dst - count)) (viewport_abs c dst))
                     c1 (rev [start_row + count..<Suc end_row]);
              c3 = foldl (\<lambda>c r. blank_abs_row c (viewport_abs c r)) c2 [start_row..<start_row + count]
          in foldl mark_row_dirty c3 [start_row..<Suc end_row])"

definition copy_row :: "core \<Rightarrow> nat \<Rightarrow> nat \<Rightarrow> core" where
  "copy_row c src_row dst_row =
     (if src_row \<ge> tc_rows c \<or> dst_row \<ge> tc_rows c \<or> src_row = dst_row then c
      else
        let cols = tc_cols c; src = viewport_abs c src_row; dst = viewport_abs c dst_row in
        if src * cols + cols > length (tc_ring_cells c) \<or> dst * cols + cols > length (tc_ring_cells c) then c
        else
          let c1 = c\<lparr>tc_ring_cells := splice (dst * cols) (slice (src * cols) cols (tc_ring_cells c)) (tc_ring_cells c),
                     tc_ring_wrapped := (tc_ring_wrapped c)[dst := tc_ring_wrapped c ! src]\<rparr>;
              c2 = overflow_clear_abs c1 dst;
              c3 = (case map_of (tc_overflow_ridx c2) src of
                      None \<Rightarrow> c2
                    | Some src_cols \<Rightarrow>
                        let (t, dst_cols) = foldl (\<lambda>(t, ds) col. case map_of t (col, src) of
                                Some v \<Rightarrow> (AList.update (col, dst) v t, ds @ [col]) | None \<Rightarrow> (t, ds))
                              (tc_overflow c2, []) src_cols
                        in c2\<lparr>tc_overflow := t,
                              tc_overflow_ridx := (if dst_cols \<noteq> [] then AList.update dst dst_cols (tc_overflow_ridx c2)
                                                   else tc_overflow_ridx c2)\<rparr>)
          in mark_row_dirty c3 dst_row)"

definition fill_row_default :: "core \<Rightarrow> nat \<Rightarrow> core" where
  "fill_row_default c row = clear_line c row"

end
