(* ===== verification/Scroll.thy ===== *)
theory Scroll
  imports Grid
begin

text \<open>
  \<open>ring_buffer.rs\<close>: pushing a blank row, the compressed scrollback, region scrolls with
  transcription, and the read access to scrollback rows.
\<close>

subsection \<open>Pushing a blank row\<close>

text \<open>The loop that compresses the evicted row, interning as it goes.\<close>

definition compress_cell ::
  "core \<Rightarrow> nat \<Rightarrow> slim_row \<times> style_table \<times> char_table \<Rightarrow> nat \<Rightarrow> slim_row \<times> style_table \<times> char_table" where
  "compress_cell c a st col =
     (let (row, styles, chars) = st;
          cl = tc_ring_cells c ! (a * tc_cols c + col);
          overflow_str = (if is_overflow cl then map_of (tc_overflow c) (col, a) else None);
          (slim, styles, chars) = cell_to_slim cl overflow_str styles chars
      in (row @ [slim], styles, chars))"

definition compress_row :: "core \<Rightarrow> nat \<Rightarrow> slim_row \<times> style_table \<times> char_table" where
  "compress_row c a = foldl (compress_cell c a) ([], tc_styles c, tc_chars c) [0..<tc_cols c]"

definition release_slim_cell :: "core \<Rightarrow> slim_cell \<Rightarrow> core" where
  "release_slim_cell c slim =
     (let c1 = c\<lparr>tc_styles := style_dec_ref (tc_styles c) (sl_style_id slim)\<rparr>
      in if is_char_table slim
         then c1\<lparr>tc_chars := char_dec_ref (tc_chars c1) (sl_char_ref slim)\<rparr> else c1)"

definition release_slim_row :: "core \<Rightarrow> slim_row \<Rightarrow> core" where
  "release_slim_row c row = foldl release_slim_cell c row"

definition overflow_clear_abs_if :: "core \<Rightarrow> nat \<Rightarrow> core" where
  "overflow_clear_abs_if c a = (if tc_overflow c \<noteq> [] then overflow_clear_abs c a else c)"

text \<open>Step 1 of \<open>ring_push_blank\<close>: the top row leaves the viewport.\<close>

definition evict_top_row :: "core \<Rightarrow> core" where
  "evict_top_row c =
     (let a = tc_ring_head c in
      if tc_scrollback_bypass c then
        let c1 = overflow_clear_abs_if c a in
        if tc_scrollback_capacity c1 > 0 then
          if tc_virtual_scrollback_len c1 < tc_scrollback_capacity c1
          then c1\<lparr>tc_virtual_scrollback_len := tc_virtual_scrollback_len c1 + 1\<rparr>
          else c1\<lparr>tc_scrollback_evicted_total := tc_scrollback_evicted_total c1 + 1\<rparr>
        else c1
      else if tc_scrollback_capacity c > 0 then
        let (slim_row, styles, chars) = compress_row c a;
            c1 = overflow_clear_abs_if (c\<lparr>tc_styles := styles, tc_chars := chars\<rparr>) a;
            wrapped = tc_ring_wrapped c ! a;
            c2 = (if length (tc_scrollback_slim c1) \<ge> tc_scrollback_capacity c1 then
                    case tc_scrollback_slim c1 of
                      [] \<Rightarrow> c1\<lparr>tc_scrollback_wrapped := tl (tc_scrollback_wrapped c1)\<rparr>
                    | old # rest \<Rightarrow>
                        (release_slim_row (c1\<lparr>tc_scrollback_slim := rest\<rparr>) old)
                          \<lparr>tc_scrollback_evicted_total := tc_scrollback_evicted_total c1 + 1,
                           tc_scrollback_wrapped := tl (tc_scrollback_wrapped c1)\<rparr>
                  else c1)
        in c2\<lparr>tc_scrollback_slim := tc_scrollback_slim c2 @ [slim_row],
              tc_scrollback_wrapped := tc_scrollback_wrapped c2 @ [wrapped]\<rparr>
      else overflow_clear_abs_if c a)"

definition ring_push_blank :: "core \<Rightarrow> packed_color \<Rightarrow> core" where
  "ring_push_blank c bg =
     (let cols = tc_cols c; rows = tc_rows c in
      if rows = 0 \<or> cols = 0 then c
      else if tc_ring_head c * cols + cols > length (tc_ring_cells c) then c
      else
        let c1 = evict_top_row c;
            c2 = c1\<lparr>tc_ring_head := (tc_ring_head c1 + 1) mod rows\<rparr>;
            new_bottom = (tc_ring_head c2 + rows - 1) mod rows;
            blank = (if bg = color_default then cell_empty else cell_empty\<lparr>cl_bg := bg\<rparr>);
            c3 = fill_cells (new_bottom * cols) cols blank c2;
            c4 = c3\<lparr>tc_ring_wrapped := (tc_ring_wrapped c3)[new_bottom := False]\<rparr>
        in overflow_clear_abs_if c4 new_bottom)"

subsection \<open>Prepending, evicting and clearing scrollback\<close>

definition release_rows :: "core \<Rightarrow> slim_row list \<Rightarrow> core" where
  "release_rows c rs = foldl release_slim_row c rs"

definition prepend_scrollback_rows :: "core \<Rightarrow> slim_row list \<Rightarrow> bool list \<Rightarrow> core \<times> nat" where
  "prepend_scrollback_rows c rws wrapped =
     (let n = min (length rws) (length wrapped); rws = take n rws; wrapped = take n wrapped in
      if rws = [] then (c, 0)
      else if tc_scrollback_capacity c = 0 then (release_rows c rws, 0)
      else
        let existing = length (tc_scrollback_slim c);
            room = tc_scrollback_capacity c - existing;
            inserted = min (length rws) room;
            drop_count = length rws - inserted;
            c1 = release_rows c (take drop_count rws);
            rws = drop drop_count rws; wrapped = drop drop_count wrapped
        in (c1\<lparr>tc_scrollback_slim := rws @ tc_scrollback_slim c1,
               tc_scrollback_wrapped := wrapped @ tc_scrollback_wrapped c1\<rparr>, inserted))"

definition clear_scrollback :: "core \<Rightarrow> core" where
  "clear_scrollback c =
     (if tc_scrollback_slim c = [] then c
      else mark_all_dirty ((release_rows (c\<lparr>tc_scrollback_slim := []\<rparr>) (tc_scrollback_slim c))
             \<lparr>tc_scrollback_wrapped := []\<rparr>))"

definition evict_oldest_scrollback :: "core \<Rightarrow> nat \<Rightarrow> core \<times> nat" where
  "evict_oldest_scrollback c target_len =
     (let current = length (tc_scrollback_slim c) in
      if current \<le> target_len then (c, 0)
      else
        let to_evict = current - target_len;
            c1 = release_rows (c\<lparr>tc_scrollback_slim := drop to_evict (tc_scrollback_slim c)\<rparr>)
                   (take to_evict (tc_scrollback_slim c));
            c2 = c1\<lparr>tc_scrollback_wrapped := drop to_evict (tc_scrollback_wrapped c1),
                    tc_scrollback_evicted_total := tc_scrollback_evicted_total c1 + to_evict\<rparr>
        in (mark_all_dirty c2, to_evict))"

definition get_scrollback_length :: "core \<Rightarrow> nat" where
  "get_scrollback_length c =
     (if tc_scrollback_bypass c then tc_virtual_scrollback_len c else length (tc_scrollback_slim c))"

subsection \<open>Scrolling\<close>

definition should_transcribe_region_scroll :: "core \<Rightarrow> nat \<Rightarrow> bool" where
  "should_transcribe_region_scroll c rtop \<longleftrightarrow>
     rtop = 0 \<and> \<not> get_mode c MODE_ALT_SCREEN \<and> tc_scrollback_capacity c > 0
     \<and> tc_scroll_region_scrollback_enabled c"

text \<open>Snapshot and restoration of one row below the region.\<close>

type_synonym saved_row = "cell list \<times> bool \<times> (nat \<times> rstring) list"

definition save_row :: "core \<Rightarrow> nat \<Rightarrow> saved_row" where
  "save_row c row =
     (let a = viewport_abs c row in
      (slice (a * tc_cols c) (tc_cols c) (tc_ring_cells c), tc_ring_wrapped c ! a,
       concat (map (\<lambda>col. case map_of (tc_overflow c) (col, a) of Some s \<Rightarrow> [(col, s)] | None \<Rightarrow> [])
         (ridx_cols (tc_overflow_ridx c) a))))"

definition restore_row :: "core \<Rightarrow> nat \<Rightarrow> saved_row \<Rightarrow> core" where
  "restore_row c row sv =
     (let (cells, wrapped, entries) = sv; a = viewport_abs c row;
          c1 = c\<lparr>tc_ring_cells := splice (a * tc_cols c) cells (tc_ring_cells c),
                 tc_ring_wrapped := (tc_ring_wrapped c)[a := wrapped]\<rparr>;
          c2 = overflow_clear_abs c1 a
      in if entries \<noteq> [] then
           c2\<lparr>tc_overflow := foldl (\<lambda>t (col, s). AList.update (col, a) s t) (tc_overflow c2) entries,
              tc_overflow_ridx := AList.update a (map fst entries) (tc_overflow_ridx c2)\<rparr>
         else c2)"

definition scroll_up_region_transcribing :: "core \<Rightarrow> nat \<Rightarrow> nat \<Rightarrow> core" where
  "scroll_up_region_transcribing c rbottom count =
     (let rows = tc_rows c; cols = tc_cols c in
      if rows * cols > length (tc_ring_cells c) then c
      else
        let tail_start = rbottom + 1;
            saved = map (save_row c) [tail_start..<rows];
            bg = cu_bg (tc_cursor c);
            c1 = ((\<lambda>c. ring_push_blank c bg) ^^ count) c;
            c2 = foldl (\<lambda>c (row, sv). restore_row c row sv) c1 (zip [tail_start..<rows] saved);
            c3 = foldl (\<lambda>c r. blank_abs_row c (viewport_abs c r)) c2 [rbottom + 1 - count..<Suc rbottom]
        in foldl mark_row_dirty c3 [0..<Suc rbottom])"

definition scroll_up_internal :: "core \<Rightarrow> nat \<Rightarrow> core" where
  "scroll_up_internal c count =
     (let rtop = tc_scroll_region_top c; rbottom = tc_scroll_region_bottom c;
          is_full_screen = (rtop = 0 \<and> rbottom = tc_rows c - 1);
          count = min count (rbottom - rtop + 1)
      in if is_full_screen then
           let c1 = ((\<lambda>d. ring_push_blank d (cu_bg (tc_cursor c))) ^^ count) c in
           if count = 1 then
             let c2 = c1\<lparr>tc_scroll_event := Some (case tc_scroll_event c1 of
                          Some e \<Rightarrow> e\<lparr>sc_count := sc_count e + 1\<rparr>
                        | None \<Rightarrow> \<lparr>sc_direction = Up, sc_count = 1\<rparr>)\<rparr>
             in mark_row_dirty (shift_dirty_down_by_one c2) rbottom
           else mark_all_dirty (c1\<lparr>tc_scroll_event := None\<rparr>)
         else if should_transcribe_region_scroll c rtop then
           scroll_up_region_transcribing c rbottom count
         else shift_rows_up c rtop rbottom count)"

definition scroll_down_internal :: "core \<Rightarrow> nat \<Rightarrow> core" where
  "scroll_down_internal c count =
     (let rtop = tc_scroll_region_top c; rbottom = tc_scroll_region_bottom c;
          count = min count (rbottom - rtop + 1)
      in shift_rows_down c rtop rbottom count)"

definition line_feed :: "core \<Rightarrow> core" where
  "line_feed c =
     (let c1 = c\<lparr>tc_last_write := None\<rparr> in
      if cur_row c1 \<ge> tc_scroll_region_bottom c1 then scroll_up_internal c1 1
      else upd_cursor (\<lambda>u. u\<lparr>cu_row := cu_row u + 1\<rparr>) c1)"

subsection \<open>Reading rows\<close>

definition push_cell_attrs :: "cell \<Rightarrow> u8 list" where
  "push_cell_attrs cl =
     [as_u8 (cl_width cl), pc_tag (cl_fg cl), pc_r (cl_fg cl), pc_g (cl_fg cl), pc_b (cl_fg cl),
      pc_tag (cl_bg cl), pc_r (cl_bg cl), pc_g (cl_bg cl), pc_b (cl_bg cl),
      ucast (cl_flags cl), ucast (drop_bit 8 (cl_flags cl)),
      as_u8 (cl_hyperlink_id cl), as_u8 (cl_hyperlink_id cl div 256)]"

definition pack_overflow :: "rstring \<Rightarrow> u8 list" where
  "pack_overflow s = [0xFF, as_u8 (length s div 256), as_u8 (length s)] @ s"

definition pack_inline :: "cell \<Rightarrow> u8 list" where
  "pack_inline cl = as_u8 (cl_char_len cl) # take (cl_char_len cl) (cl_char_data cl)"

definition pack_row_abs :: "core \<Rightarrow> nat \<Rightarrow> u8 list" where
  "pack_row_abs c a =
     (let cols = tc_cols c; base = a * cols in
      if base + cols > length (tc_ring_cells c) then []
      else concat (map (\<lambda>col.
        let cl = tc_ring_cells c ! (base + col) in
        (if is_overflow cl then
           pack_overflow (case map_of (tc_overflow c) (col, a) of Some s \<Rightarrow> s | None \<Rightarrow> [0x20])
         else pack_inline cl) @ push_cell_attrs cl) [0..<cols]))"

definition get_row_packed :: "core \<Rightarrow> nat \<Rightarrow> u8 list" where
  "get_row_packed c row = (if row \<ge> tc_rows c then [] else pack_row_abs c (viewport_abs c row))"

definition pack_slim_row :: "core \<Rightarrow> slim_row \<Rightarrow> u8 list" where
  "pack_slim_row c row = concat (map (\<lambda>slim.
     let cl = slim_to_cell slim (tc_styles c) (tc_chars c) in
     (if is_overflow cl then
        let s = slim_overflow_str slim (tc_chars c) in pack_overflow (if s = [] then [0x20] else s)
      else pack_inline cl) @ push_cell_attrs cl) (take (tc_cols c) row))"

text \<open>The grapheme of a compressed cell, and the text, the cells and the styled cells of a row.\<close>

definition slim_glyph :: "core \<Rightarrow> slim_cell \<Rightarrow> rstring" where
  "slim_glyph c slim =
     (if is_char_table slim then slim_overflow_str slim (tc_chars c)
      else case get_char_inline (slim_to_cell slim (tc_styles c) (tc_chars c)) of
             Some s \<Rightarrow> s | None \<Rightarrow> [])"

definition slim_row_text :: "core \<Rightarrow> slim_row \<Rightarrow> rstring" where
  "slim_row_text c row = concat (map (slim_glyph c) (filter (\<lambda>s. sl_width s \<noteq> 0) row))"

definition slim_row_cells :: "core \<Rightarrow> slim_row \<Rightarrow> (rstring \<times> nat) list" where
  "slim_row_cells c row =
     map (\<lambda>s. (slim_glyph c s, sl_width s)) (filter (\<lambda>s. sl_width s \<noteq> 0) row)"

record scrollback_cell =
  sb_glyph :: rstring
  sb_width :: nat
  sb_fg :: "32 word"
  sb_bg :: "32 word"
  sb_flags :: flags16

definition slim_row_cells_styled :: "core \<Rightarrow> slim_row \<Rightarrow> scrollback_cell list" where
  "slim_row_cells_styled c row =
     map (\<lambda>s. let style = style_get_or_default (tc_styles c) (sl_style_id s) in
        \<lparr>sb_glyph = slim_glyph c s, sb_width = sl_width s, sb_fg = color_to_u32 (se_fg style),
         sb_bg = color_to_u32 (se_bg style), sb_flags = se_flags style\<rparr>)
       (filter (\<lambda>s. sl_width s \<noteq> 0) row)"

definition scrollback_row :: "core \<Rightarrow> nat \<Rightarrow> slim_row option" where
  "scrollback_row c i = (if i < length (tc_scrollback_slim c) then Some (tc_scrollback_slim c ! i) else None)"

definition scrollback_row_packed :: "core \<Rightarrow> nat \<Rightarrow> u8 list" where
  "scrollback_row_packed c i = (case scrollback_row c i of Some row \<Rightarrow> pack_slim_row c row | None \<Rightarrow> [])"

definition scrollback_row_cells :: "core \<Rightarrow> nat \<Rightarrow> (rstring \<times> nat) list" where
  "scrollback_row_cells c i = (case scrollback_row c i of Some row \<Rightarrow> slim_row_cells c row | None \<Rightarrow> [])"

definition scrollback_row_cells_styled :: "core \<Rightarrow> nat \<Rightarrow> scrollback_cell list" where
  "scrollback_row_cells_styled c i =
     (case scrollback_row c i of Some row \<Rightarrow> slim_row_cells_styled c row | None \<Rightarrow> [])"

definition get_scrollback_line_wrapped :: "core \<Rightarrow> nat \<Rightarrow> bool" where
  "get_scrollback_line_wrapped c i =
     (if i < length (tc_scrollback_wrapped c) then tc_scrollback_wrapped c ! i else False)"

end
