(* ===== verification/GridFacts.thy ===== *)
theory GridFacts
  imports Grid
begin

text \<open>
  The grid seen row by row: shape invariant, frame conditions, and the effect of the row
  operations on the list of viewport rows (cells, wrap flag, overflow strings).
\<close>

subsection \<open>Frame conditions\<close>

text \<open>\<open>grid_frame c c'\<close>: only the cells, wrap flags, overflow entries and dirty bits differ.\<close>

definition grid_frame :: "core \<Rightarrow> core \<Rightarrow> bool" where
  "grid_frame c c' \<longleftrightarrow> (\<exists>cells wrapped ovf ridx dirty.
     c' = c\<lparr>tc_ring_cells := cells, tc_ring_wrapped := wrapped, tc_overflow := ovf,
            tc_overflow_ridx := ridx, tc_dirty := dirty\<rparr>)"

lemma grid_frameI:
  "c' = c\<lparr>tc_ring_cells := cells, tc_ring_wrapped := wrapped, tc_overflow := ovf,
     tc_overflow_ridx := ridx, tc_dirty := dirty\<rparr> \<Longrightarrow> grid_frame c c'"
  unfolding grid_frame_def by blast

lemma grid_frame_refl [simp]: "grid_frame c c"
  by (rule grid_frameI [where cells = "tc_ring_cells c" and wrapped = "tc_ring_wrapped c"
        and ovf = "tc_overflow c" and ridx = "tc_overflow_ridx c" and dirty = "tc_dirty c"]) simp

lemma grid_frame_trans: "grid_frame c d \<Longrightarrow> grid_frame d e \<Longrightarrow> grid_frame c e"
  unfolding grid_frame_def by force

lemma grid_frame_upd:
  "grid_frame c (c\<lparr>tc_ring_cells := x1\<rparr>)" "grid_frame c (c\<lparr>tc_ring_wrapped := x2\<rparr>)"
  "grid_frame c (c\<lparr>tc_overflow := x3\<rparr>)" "grid_frame c (c\<lparr>tc_overflow_ridx := x4\<rparr>)"
  "grid_frame c (c\<lparr>tc_dirty := x5\<rparr>)"
  "grid_frame c (c\<lparr>tc_ring_cells := x1, tc_ring_wrapped := x2\<rparr>)"
  "grid_frame c (c\<lparr>tc_overflow := x3, tc_overflow_ridx := x4\<rparr>)"
  unfolding grid_frame_def
  by (intro exI, (rule core.equality; simp))+

lemma grid_frameD:
  assumes "grid_frame c c'"
  shows "tc_cols c' = tc_cols c" "tc_rows c' = tc_rows c" "tc_ring_head c' = tc_ring_head c"
    "tc_ring_size c' = tc_ring_size c" "tc_ring_capacity c' = tc_ring_capacity c"
    "tc_scrollback_slim c' = tc_scrollback_slim c" "tc_scrollback_wrapped c' = tc_scrollback_wrapped c"
    "tc_scrollback_capacity c' = tc_scrollback_capacity c"
    "tc_scrollback_evicted_total c' = tc_scrollback_evicted_total c"
    "tc_scrollback_bypass c' = tc_scrollback_bypass c"
    "tc_virtual_scrollback_len c' = tc_virtual_scrollback_len c"
    "tc_styles c' = tc_styles c" "tc_chars c' = tc_chars c" "tc_cursor c' = tc_cursor c"
    "tc_saved_cursor c' = tc_saved_cursor c" "tc_modes c' = tc_modes c"
    "tc_tab_stops c' = tc_tab_stops c" "tc_grapheme_buffer c' = tc_grapheme_buffer c"
    "tc_wrap_pending c' = tc_wrap_pending c" "tc_last_write c' = tc_last_write c"
    "tc_g0_charset c' = tc_g0_charset c" "tc_g1_charset c' = tc_g1_charset c"
    "tc_active_charset c' = tc_active_charset c"
    "tc_scroll_region_top c' = tc_scroll_region_top c"
    "tc_scroll_region_bottom c' = tc_scroll_region_bottom c"
    "tc_scroll_region_scrollback_enabled c' = tc_scroll_region_scrollback_enabled c"
    "tc_response_queue c' = tc_response_queue c" "tc_scroll_event c' = tc_scroll_event c"
    "tc_parser c' = tc_parser c" "tc_mode_actions c' = tc_mode_actions c"
    "tc_events c' = tc_events c" "tc_hyperlink_table c' = tc_hyperlink_table c"
    "tc_hyperlink_next_id c' = tc_hyperlink_next_id c"
    "tc_active_hyperlink_id c' = tc_active_hyperlink_id c"
    "tc_kitty_placeholder_active c' = tc_kitty_placeholder_active c"
  using assms by (auto simp: grid_frame_def)

lemma grid_frame_abs: "grid_frame c c' \<Longrightarrow> viewport_abs c' r = viewport_abs c r"
  by (simp add: viewport_abs_def grid_frameD)

lemma grid_frame_bce: "grid_frame c c' \<Longrightarrow> bce_cell c' = bce_cell c"
  by (simp add: bce_cell_def grid_frameD)

text \<open>Each operation is stated in the form the simplifier chains.\<close>

lemmas grid_frame_upds [simp] = grid_frame_upd [THEN grid_frame_trans [rotated]]

lemma grid_frame_overflow_clear_abs [simp]: "grid_frame c d \<Longrightarrow> grid_frame c (overflow_clear_abs d a)"
  by (simp add: overflow_clear_abs_def)

lemma grid_frame_overflow_drop [simp]: "grid_frame c d \<Longrightarrow> grid_frame c (overflow_drop d col a)"
  by (simp add: overflow_drop_def)

lemma grid_frame_overflow_store [simp]: "grid_frame c d \<Longrightarrow> grid_frame c (overflow_store d col a s)"
  by (simp add: overflow_store_def)

lemma grid_frame_upd_cell [simp]: "grid_frame c d \<Longrightarrow> grid_frame c (upd_cell i f d)"
  by (simp add: upd_cell_def)

lemma grid_frame_fill_cells [simp]: "grid_frame c d \<Longrightarrow> grid_frame c (fill_cells b n cl d)"
  by (simp add: fill_cells_def)

lemma grid_frame_mark_row_dirty [simp]: "grid_frame c d \<Longrightarrow> grid_frame c (mark_row_dirty d r)"
  by (simp add: mark_row_dirty_def)

lemma grid_frame_mark_all_dirty [simp]: "grid_frame c d \<Longrightarrow> grid_frame c (mark_all_dirty d)"
  by (simp add: mark_all_dirty_def)

lemma grid_frame_shift_dirty [simp]: "grid_frame c d \<Longrightarrow> grid_frame c (shift_dirty_down_by_one d)"
  by (simp add: shift_dirty_down_by_one_def)

lemma grid_frame_set_line_wrapped [simp]: "grid_frame c d \<Longrightarrow> grid_frame c (set_line_wrapped d r w)"
  by (simp add: set_line_wrapped_def)

lemma grid_frame_move_overflow [simp]: "grid_frame c d \<Longrightarrow> grid_frame c (move_overflow d s e)"
  by (simp add: move_overflow_def split: option.split)

lemma grid_frame_move_row [simp]: "grid_frame c d \<Longrightarrow> grid_frame c (move_row d s e)"
  by (simp add: move_row_def Let_def)

lemma grid_frame_blank_abs_row [simp]: "grid_frame c d \<Longrightarrow> grid_frame c (blank_abs_row d a)"
  by (simp add: blank_abs_row_def)

lemma grid_frame_clear_line [simp]: "grid_frame c d \<Longrightarrow> grid_frame c (clear_line d r)"
  by (simp add: clear_line_def)

lemma grid_frame_clear_line_range [simp]: "grid_frame c d \<Longrightarrow> grid_frame c (clear_line_range d r a b)"
  by (simp add: clear_line_range_def Let_def)

lemma grid_frame_set_cell [simp]: "grid_frame c d \<Longrightarrow> grid_frame c (set_cell d col row s w fg bg fl)"
  by (simp add: set_cell_def Let_def split: option.split)

lemma grid_frame_set_cell_ascii [simp]: "grid_frame c d \<Longrightarrow> grid_frame c (set_cell_ascii d col row b fg bg fl)"
  by (simp add: set_cell_ascii_def Let_def split: option.split)

lemma grid_frame_blank_wide [simp]: "grid_frame c d \<Longrightarrow> grid_frame c (blank_wide_pair_half d col row)"
  by (simp add: blank_wide_pair_half_def Let_def split: option.split)

lemma grid_frame_foldl:
  "(\<And>x e. grid_frame c e \<Longrightarrow> grid_frame c (f e x)) \<Longrightarrow> grid_frame c d \<Longrightarrow> grid_frame c (foldl f d xs)"
  by (induction xs arbitrary: d) auto

lemma grid_frame_shift_rows_up [simp]: "grid_frame c d \<Longrightarrow> grid_frame c (shift_rows_up d a b n)"
  unfolding shift_rows_up_def Let_def
  by (simp del: upt_Suc add: grid_frame_foldl)

lemma grid_frame_shift_rows_down [simp]: "grid_frame c d \<Longrightarrow> grid_frame c (shift_rows_down d a b n)"
  unfolding shift_rows_down_def Let_def
  by (simp del: upt_Suc add: grid_frame_foldl)

subsection \<open>Shape\<close>

definition grid_ok :: "core \<Rightarrow> bool" where
  "grid_ok c \<longleftrightarrow>
     0 < tc_cols c \<and> tc_cols c \<le> U16_MAX \<and> 0 < tc_rows c \<and> tc_rows c \<le> U16_MAX
     \<and> length (tc_ring_cells c) = tc_rows c * tc_cols c
     \<and> length (tc_ring_wrapped c) = tc_rows c \<and> tc_ring_head c < tc_rows c
     \<and> length (tc_dirty c) = (tc_rows c + 63) div 64
     \<and> ridx_agrees (tc_overflow c) (tc_overflow_ridx c)
     \<and> list_all (\<lambda>e. fst (fst e) < tc_cols c \<and> snd (fst e) < tc_rows c) (tc_overflow c)"

type_synonym row_view = "cell list \<times> bool \<times> (nat \<Rightarrow> rstring option)"

definition arow :: "core \<Rightarrow> nat \<Rightarrow> row_view" where
  "arow c a = (slice (a * tc_cols c) (tc_cols c) (tc_ring_cells c), tc_ring_wrapped c ! a,
     \<lambda>col. map_of (tc_overflow c) (col, a))"

definition vrow :: "core \<Rightarrow> nat \<Rightarrow> row_view" where
  "vrow c r = arow c (viewport_abs c r)"

definition blank_row :: "core \<Rightarrow> row_view" where
  "blank_row c = (replicate (tc_cols c) (bce_cell c), False, Map.empty)"

definition strip_overflow :: "row_view \<Rightarrow> row_view" where
  "strip_overflow v = (fst v, fst (snd v), Map.empty)"

lemma grid_okD:
  assumes "grid_ok c"
  shows "0 < tc_cols c" "0 < tc_rows c" "length (tc_ring_cells c) = tc_rows c * tc_cols c"
    "length (tc_ring_wrapped c) = tc_rows c" "tc_ring_head c < tc_rows c"
    "ridx_agrees (tc_overflow c) (tc_overflow_ridx c)"
    "length (tc_dirty c) = (tc_rows c + 63) div 64"
  using assms by (simp_all add: grid_ok_def)

lemma abs_lt: "grid_ok c \<Longrightarrow> viewport_abs c r < tc_rows c"
  by (simp add: viewport_abs_def grid_ok_def)

lemma abs_inj:
  assumes "grid_ok c" and "r < tc_rows c" and "r' < tc_rows c"
  shows "viewport_abs c r = viewport_abs c r' \<longleftrightarrow> r = r'"
proof
  let ?n = "tc_rows c" and ?h = "tc_ring_head c"
  assume eq: "viewport_abs c r = viewport_abs c r'"
  have h: "?h < ?n" using assms(1) by (simp add: grid_ok_def)
  have m: "(?h + x) mod ?n = (if ?h + x < ?n then ?h + x else ?h + x - ?n)" if "x < ?n" for x
    using that h by (simp add: mod_if)
  from eq have "(?h + r) mod ?n = (?h + r') mod ?n" using assms(1) by (simp add: viewport_abs_def grid_ok_def)
  then show "r = r'" unfolding m [OF assms(2)] m [OF assms(3)]
    using h assms(2,3) by (auto split: if_splits)
qed simp

lemma abs_surj:
  assumes "grid_ok c" and "a < tc_rows c"
  obtains r where "r < tc_rows c" "viewport_abs c r = a"
proof -
  let ?n = "tc_rows c" and ?h = "tc_ring_head c"
  let ?r = "if ?h \<le> a then a - ?h else a + ?n - ?h"
  have h: "?h < ?n" using assms(1) by (simp add: grid_ok_def)
  have "?r < ?n" using h assms(2) by auto
  moreover have "viewport_abs c ?r = a" using h assms by (auto simp: viewport_abs_def mod_if)
  ultimately show thesis by (rule that)
qed

lemma cell_index_Some:
  assumes "grid_ok c" and "col < tc_cols c" and "row < tc_rows c"
  shows "cell_index c col row = Some (viewport_abs c row * tc_cols c + col)"
  using block_index_lt [OF abs_lt [OF assms(1), of row] assms(2)] assms
  by (simp add: cell_index_def viewport_cell_offset_def Let_def grid_okD)

lemma cell_index_in_bounds:
  "cell_index c col row = Some i \<Longrightarrow> i < length (tc_ring_cells c) \<and> col < tc_cols c \<and> row < tc_rows c"
  by (auto simp: cell_index_def viewport_cell_offset_def Let_def split: if_splits)

subsection \<open>Blocks\<close>

lemma slice_splice:
  assumes "length xs = n * w" and "a < n" and "x < n" and "length ys = w"
  shows "slice (a * w) w (splice (x * w) ys xs) = (if a = x then ys else slice (a * w) w xs)"
proof -
  have a: "a * w + w \<le> length xs" and x: "x * w + length ys \<le> length xs"
    using block_end_le [of a n w] block_end_le [of x n w] assms by simp_all
  have el: "splice (x * w) ys xs ! (a * w + k) = (if a = x then ys ! k else xs ! (a * w + k))"
    if "k < w" for k
  proof (cases "a = x")
    case True
    have "a * w + k < length xs" using a that by linarith
    with True show ?thesis using x assms(4) that by (subst nth_splice) auto
  next
    case False
    have lt: "a * w + k < length xs" using a that by linarith
    have "\<not> (x * w \<le> a * w + k \<and> a * w + k < x * w + length ys)"
    proof
      assume h: "x * w \<le> a * w + k \<and> a * w + k < x * w + length ys"
      then obtain j where "a * w + k = x * w + j" "j < w" using assms(4) by (metis add_less_cancel_left le_Suc_ex)
      with block_disjoint [OF False that] show False by blast
    qed
    with False lt show ?thesis by (subst nth_splice [OF x]) auto
  qed
  show ?thesis
    by (rule nth_equalityI)
      (use a x assms(4) el in \<open>auto simp: length_slice length_splice nth_slice\<close>)
qed

lemma arow_frame: "tc_cols c' = tc_cols c \<Longrightarrow> tc_ring_cells c' = tc_ring_cells c \<Longrightarrow>
    tc_ring_wrapped c' = tc_ring_wrapped c \<Longrightarrow> tc_overflow c' = tc_overflow c \<Longrightarrow> arow c' a = arow c a"
  by (simp add: arow_def)

lemma arow_mark_row_dirty [simp]: "arow (mark_row_dirty c r) a = arow c a"
  by (simp add: arow_def mark_row_dirty_def)

lemma map_of_clear_row:
  "map_of (overflow_clear_row t row) k = (if snd k = row then None else map_of t k)"
  using map_of_retain [of "\<lambda>k. snd k \<noteq> row" t k] by (simp add: overflow_clear_row_def)

lemma map_of_clear_range:
  "map_of (overflow_clear_range t row s e) k =
     (if snd k = row \<and> s \<le> fst k \<and> fst k < e then None else map_of t k)"
  using map_of_retain [of "\<lambda>k. snd k \<noteq> row \<or> fst k < s \<or> fst k \<ge> e" t k]
  by (auto simp: overflow_clear_range_def)

end
