(* ===== verification/RowFacts.thy ===== *)
theory RowFacts
  imports GridFacts
begin

text \<open>
  The effect of the row operations on the rows of the viewport, and the preservation of the grid
  invariant.
\<close>

lemma grid_okI:
  assumes "grid_ok c" and "grid_frame c c'"
    and "length (tc_ring_cells c') = length (tc_ring_cells c)"
    and "length (tc_ring_wrapped c') = length (tc_ring_wrapped c)"
    and "length (tc_dirty c') = length (tc_dirty c)"
    and "ridx_agrees (tc_overflow c') (tc_overflow_ridx c')"
    and "\<And>col a. map_of (tc_overflow c') (col, a) \<noteq> None \<Longrightarrow> col < tc_cols c \<and> a < tc_rows c"
  shows "grid_ok c'"
proof -
  have "fst (fst e) < tc_cols c \<and> snd (fst e) < tc_rows c" if "e \<in> set (tc_overflow c')" for e
    using assms(7) [of "fst (fst e)" "snd (fst e)"] that
    by (metis map_of_eq_None_iff image_eqI prod.collapse)
  with assms show ?thesis by (simp add: grid_ok_def grid_frameD list_all_iff)
qed

lemma overflow_range:
  assumes "grid_ok c" and "map_of (tc_overflow c) (col, a) \<noteq> None"
  shows "col < tc_cols c \<and> a < tc_rows c"
proof -
  obtain s where "((col, a), s) \<in> set (tc_overflow c)" using assms(2) by (auto dest: map_of_SomeD)
  with assms(1) show ?thesis by (auto simp: grid_ok_def list_all_iff)
qed

lemma overflow_range_Some: "grid_ok c \<Longrightarrow> map_of (tc_overflow c) (col, a) = Some s \<Longrightarrow> col < tc_cols c \<and> a < tc_rows c"
  using overflow_range [of c col a] by simp

subsection \<open>Dirty bits and wrap flags\<close>

lemma mark_row_dirty_fields [simp]:
  "tc_ring_cells (mark_row_dirty c r) = tc_ring_cells c"
  "tc_ring_wrapped (mark_row_dirty c r) = tc_ring_wrapped c"
  "tc_overflow (mark_row_dirty c r) = tc_overflow c"
  "tc_overflow_ridx (mark_row_dirty c r) = tc_overflow_ridx c"
  "length (tc_dirty (mark_row_dirty c r)) = length (tc_dirty c)"
  by (simp_all add: mark_row_dirty_def)

lemma mark_row_dirty_ok [simp]: "grid_ok c \<Longrightarrow> grid_ok (mark_row_dirty c r)"
  by (rule grid_okI [of c]) (auto simp: grid_okD dest: overflow_range_Some)

lemma mark_all_dirty_ok [simp]: "grid_ok c \<Longrightarrow> grid_ok (mark_all_dirty c)"
  by (rule grid_okI [of c]) (auto simp: grid_okD mark_all_dirty_def dest: overflow_range_Some)

lemma foldl_mark_row_dirty:
  "grid_ok c \<Longrightarrow> grid_ok (foldl mark_row_dirty c rs)"
  "arow (foldl mark_row_dirty c rs) a = arow c a"
  by (induction rs arbitrary: c) simp_all

lemma vrow_mark_row_dirty [simp]: "vrow (mark_row_dirty c r) r' = vrow c r'"
  using grid_frame_abs [OF grid_frame_mark_row_dirty [OF grid_frame_refl]] by (simp add: vrow_def)

lemma set_line_wrapped_fields [simp]:
  "tc_ring_cells (set_line_wrapped c r w) = tc_ring_cells c"
  "length (tc_ring_wrapped (set_line_wrapped c r w)) = length (tc_ring_wrapped c)"
  "tc_overflow (set_line_wrapped c r w) = tc_overflow c"
  "tc_overflow_ridx (set_line_wrapped c r w) = tc_overflow_ridx c"
  "tc_dirty (set_line_wrapped c r w) = tc_dirty c"
  by (simp_all add: set_line_wrapped_def)

lemma set_line_wrapped_ok [simp]: "grid_ok c \<Longrightarrow> grid_ok (set_line_wrapped c r w)"
  by (rule grid_okI [of c]) (auto simp: grid_okD dest: overflow_range_Some)

lemma vrow_set_line_wrapped:
  assumes "grid_ok c" and "r < tc_rows c" and "r' < tc_rows c"
  shows "vrow (set_line_wrapped c r w) r' =
    (if r' = r then (fst (vrow c r), w, snd (snd (vrow c r))) else vrow c r')"
proof -
  have "viewport_abs (set_line_wrapped c r w) r' = viewport_abs c r'"
    by (rule grid_frame_abs) simp
  then show ?thesis
    using assms abs_inj [OF assms] abs_lt [OF assms(1), of r] abs_lt [OF assms(1), of r']
    by (auto simp: vrow_def arow_def set_line_wrapped_def grid_okD)
qed

subsection \<open>Blanking and moving rows\<close>

lemma overflow_clear_abs_ok [simp]: "grid_ok c \<Longrightarrow> grid_ok (overflow_clear_abs c a)"
  by (rule grid_okI [of c]) (auto simp: grid_okD overflow_clear_abs_def map_of_clear_row
      ridx_agrees_clear_row split: if_splits dest: overflow_range_Some)

lemma arow_overflow_clear_abs:
  "arow (overflow_clear_abs c x) a = (if a = x then strip_overflow (arow c a) else arow c a)"
  by (auto simp: arow_def overflow_clear_abs_def map_of_clear_row strip_overflow_def)

lemma blank_abs_row_ok [simp]:
  assumes "grid_ok c" and "x < tc_rows c"
  shows "grid_ok (blank_abs_row c x)"
proof (rule grid_okI [OF assms(1)])
  show "length (tc_ring_cells (blank_abs_row c x)) = length (tc_ring_cells c)"
    using block_end_le [OF assms(2), of "tc_cols c"] assms(1)
    by (simp add: blank_abs_row_def overflow_clear_abs_def fill_cells_def length_splice grid_okD)
qed (use assms in \<open>auto simp: blank_abs_row_def overflow_clear_abs_def fill_cells_def grid_okD
      map_of_clear_row ridx_agrees_clear_row split: if_splits dest: overflow_range_Some\<close>)

lemma arow_blank_abs_row:
  assumes "grid_ok c" and "x < tc_rows c" and "a < tc_rows c"
  shows "arow (blank_abs_row c x) a = (if a = x then blank_row c else arow c a)"
  using assms slice_splice [of "tc_ring_cells c" "tc_rows c" "tc_cols c" a x
      "replicate (tc_cols c) (bce_cell c)"]
  by (auto simp: arow_def blank_abs_row_def overflow_clear_abs_def fill_cells_def grid_okD
      map_of_clear_row blank_row_def)

text \<open>The loop that re-keys the overflow entries of a row.\<close>

definition rekey :: "nat \<Rightarrow> nat \<Rightarrow> overflow_table \<Rightarrow> nat list \<Rightarrow> overflow_table" where
  "rekey src dst t cols = foldl (\<lambda>t col. case map_of t (col, src) of
     Some v \<Rightarrow> AList.update (col, dst) v (AList.delete (col, src) t) | None \<Rightarrow> t) t cols"

lemma rekey_Cons: "rekey src dst t (col # cols) = rekey src dst (case map_of t (col, src) of
     Some v \<Rightarrow> AList.update (col, dst) v (AList.delete (col, src) t) | None \<Rightarrow> t) cols"
  by (simp add: rekey_def)

lemma rekey_distinct: "distinct (map fst t) \<Longrightarrow> distinct (map fst (rekey src dst t cols))"
  by (induction cols arbitrary: t)
    (auto simp: rekey_Cons distinct_update distinct_delete rekey_def [of _ _ _ "[]"] split: option.split)

lemma rekey_map:
  assumes "src \<noteq> dst" and "distinct cols"
  shows "map_of (rekey src dst t cols) (c, r) =
    (if c \<in> set cols \<and> r = src then None
     else if c \<in> set cols \<and> r = dst \<and> map_of t (c, src) \<noteq> None then map_of t (c, src)
     else map_of t (c, r))"
  using assms(2)
proof (induction cols arbitrary: t)
  case Nil
  then show ?case by (simp add: rekey_def)
next
  case (Cons col cols)
  then show ?case using assms(1)
    by (cases "map_of t (col, src)") (auto simp: rekey_Cons map_of_update map_of_delete)
qed

lemma ridx_cols_agrees:
  "ridx_agrees t ridx \<Longrightarrow> map_of ridx row = Some cols \<Longrightarrow>
     distinct cols \<and> set cols = {c. map_of t (c, row) \<noteq> None} \<and> cols \<noteq> []"
proof -
  assume a: "ridx_agrees t ridx" and m: "map_of ridx row = Some cols"
  then have "ridx_cols ridx row = cols" by (simp add: ridx_cols_def)
  with a have "distinct cols" "set cols = table_cols t row" by (auto simp: ridx_agrees_def)
  moreover have "cols \<noteq> []" using a m by (auto simp: ridx_agrees_def no_empty_row_def)
  ultimately show ?thesis
    by (auto simp: table_cols_def map_of_eq_None_iff)
qed

lemma ridx_none_agrees: "ridx_agrees t ridx \<Longrightarrow> map_of ridx row = None \<Longrightarrow> map_of t (c, row) = None"
proof -
  assume a: "ridx_agrees t ridx" and m: "map_of ridx row = None"
  then have "ridx_cols ridx row = []" by (simp add: ridx_cols_def)
  with a have "table_cols t row = {}" unfolding ridx_agrees_def by (metis list.set(1))
  then show ?thesis by (auto simp: table_cols_def map_of_eq_None_iff)
qed

lemma table_cols_map: "table_cols t row = {c. map_of t (c, row) \<noteq> None}"
  by (auto simp: table_cols_def map_of_eq_None_iff)

lemma ridx_agreesI:
  assumes "distinct (map fst t)" "distinct (map fst ridx)" "no_empty_row ridx"
    and "\<And>row. distinct (ridx_cols ridx row) \<and> set (ridx_cols ridx row) = {c. map_of t (c, row) \<noteq> None}"
  shows "ridx_agrees t ridx"
  using assms by (simp add: ridx_agrees_def table_cols_map)

lemma ridx_agreesD:
  assumes "ridx_agrees t ridx"
  shows "distinct (map fst t)" "distinct (map fst ridx)" "no_empty_row ridx"
    "distinct (ridx_cols ridx row)" "set (ridx_cols ridx row) = {c. map_of t (c, row) \<noteq> None}"
  using assms by (simp_all add: ridx_agrees_def table_cols_map)

lemma move_overflow_agrees:
  assumes "ridx_agrees (tc_overflow c) (tc_overflow_ridx c)" and "src \<noteq> dst"
    and "\<And>col. map_of (tc_overflow c) (col, dst) = None"
  shows "ridx_agrees (tc_overflow (move_overflow c src dst)) (tc_overflow_ridx (move_overflow c src dst))
    \<and> map_of (tc_overflow (move_overflow c src dst)) (col, r) =
      (if r = src then None else if r = dst then map_of (tc_overflow c) (col, src)
       else map_of (tc_overflow c) (col, r))"
proof (cases "map_of (tc_overflow_ridx c) src")
  case None
  with assms ridx_none_agrees [OF assms(1) None] show ?thesis by (simp add: move_overflow_def)
next
  case (Some cols)
  note cols = ridx_cols_agrees [OF assms(1) Some]
  have m: "map_of (rekey src dst (tc_overflow c) cols) (x, r) =
      (if r = src then None else if r = dst then map_of (tc_overflow c) (x, src)
       else map_of (tc_overflow c) (x, r))" for x r
    using cols assms(2,3) by (auto simp: rekey_map)
  have mo: "tc_overflow (move_overflow c src dst) = rekey src dst (tc_overflow c) cols"
    "tc_overflow_ridx (move_overflow c src dst) = AList.update dst cols (AList.delete src (tc_overflow_ridx c))"
    using Some by (simp_all add: move_overflow_def rekey_def)
  note D = ridx_agreesD [OF assms(1)]
  have "ridx_agrees (rekey src dst (tc_overflow c) cols) (AList.update dst cols (AList.delete src (tc_overflow_ridx c)))"
  proof (rule ridx_agreesI)
    show "distinct (map fst (rekey src dst (tc_overflow c) cols))" by (rule rekey_distinct [OF D(1)])
    show "distinct (map fst (AList.update dst cols (AList.delete src (tc_overflow_ridx c))))"
      by (simp add: distinct_update distinct_delete D(2))
    show "no_empty_row (AList.update dst cols (AList.delete src (tc_overflow_ridx c)))"
      using cols D(3) by simp
    show "distinct (ridx_cols (AList.update dst cols (AList.delete src (tc_overflow_ridx c))) row) \<and>
        set (ridx_cols (AList.update dst cols (AList.delete src (tc_overflow_ridx c))) row) =
        {c'. map_of (rekey src dst (tc_overflow c) cols) (c', row) \<noteq> None}" for row
      using cols D(4,5) [of row] assms(2,3) by (auto simp: m)
  qed
  with m mo show ?thesis by simp
qed

lemma move_overflow_frame [simp]:
  "tc_ring_cells (move_overflow c s d) = tc_ring_cells c"
  "tc_ring_wrapped (move_overflow c s d) = tc_ring_wrapped c" "tc_cols (move_overflow c s d) = tc_cols c"
  "tc_dirty (move_overflow c s d) = tc_dirty c"
  by (simp_all add: move_overflow_def split: option.split)

lemma move_row_effect:
  assumes "grid_ok c" and "s < tc_rows c" and "d < tc_rows c" and "s \<noteq> d"
    and "snd (snd (arow c d)) = Map.empty"
  shows "grid_ok (move_row c s d)"
    and "a < tc_rows c \<Longrightarrow> arow (move_row c s d) a =
      (if a = d then arow c s else if a = s then strip_overflow (arow c s) else arow c a)"
proof -
  let ?w = "tc_cols c"
  let ?c1 = "c\<lparr>tc_ring_cells := splice (d * ?w) (slice (s * ?w) ?w (tc_ring_cells c)) (tc_ring_cells c),
    tc_ring_wrapped := (tc_ring_wrapped c)[d := tc_ring_wrapped c ! s]\<rparr>"
  have mr: "move_row c s d = move_overflow ?c1 s d" by (simp add: move_row_def Let_def)
  have emp: "map_of (tc_overflow c) (col, d) = None" for col
    using assms(5) by (auto simp: arow_def fun_eq_iff)
  have mo: "ridx_agrees (tc_overflow (move_overflow ?c1 s d)) (tc_overflow_ridx (move_overflow ?c1 s d))
      \<and> map_of (tc_overflow (move_overflow ?c1 s d)) (col, r) =
        (if r = s then None else if r = d then map_of (tc_overflow c) (col, s)
         else map_of (tc_overflow c) (col, r))" for col r
    using move_overflow_agrees [of ?c1 s d col r] assms emp by (simp add: grid_okD)
  have e: "s * ?w + ?w \<le> length (tc_ring_cells c)" "d * ?w + ?w \<le> length (tc_ring_cells c)"
    using block_end_le [of s "tc_rows c" ?w] block_end_le [of d "tc_rows c" ?w] assms by (simp_all add: grid_okD)
  have len: "length (slice (s * ?w) ?w (tc_ring_cells c)) = ?w" by (rule length_slice [OF e(1)])
  show "grid_ok (move_row c s d)"
    unfolding mr
  proof (rule grid_okI [OF assms(1)])
    show "length (tc_ring_cells (move_overflow ?c1 s d)) = length (tc_ring_cells c)"
      using e len by (simp add: length_splice)
  qed (use mo assms in \<open>auto split: if_splits dest: overflow_range_Some\<close>)
  assume a: "a < tc_rows c"
  have "slice (a * ?w) ?w (splice (d * ?w) (slice (s * ?w) ?w (tc_ring_cells c)) (tc_ring_cells c)) =
      (if a = d then slice (s * ?w) ?w (tc_ring_cells c) else slice (a * ?w) ?w (tc_ring_cells c))"
    by (rule slice_splice [of _ "tc_rows c"]) (use assms a len in \<open>simp_all add: grid_okD\<close>)
  then show "arow (move_row c s d) a =
      (if a = d then arow c s else if a = s then strip_overflow (arow c s) else arow c a)"
    unfolding mr using assms(3,4) mo by (auto simp: arow_def strip_overflow_def grid_okD [OF assms(1)])
qed

end
