(* ===== verification/ScrollbackFacts.thy ===== *)
theory ScrollbackFacts
  imports Scroll RowFacts "HOL-Library.Multiset"
begin

text \<open>
  The compressed scrollback as a list of rows: compressing a row appends its contents, releasing a
  row drops it, and neither changes what the other rows decode to.  The handles held by the rows
  are exactly what the intern tables' interface (\<open>intern_table\<close>) speaks about.
\<close>

subsection \<open>Handles held by compressed cells\<close>

definition style_handles :: "style_table \<Rightarrow> slim_row \<Rightarrow> (nat \<times> style_entry) list" where
  "style_handles st L = map (\<lambda>s. (sl_style_id s, style_get_or_default st (sl_style_id s))) L"

definition char_handles :: "char_table \<Rightarrow> slim_row \<Rightarrow> (nat \<times> rstring) list" where
  "char_handles ch L =
     map (\<lambda>s. (sl_char_ref s, char_get_or_default ch (sl_char_ref s))) (filter is_char_table L)"

definition covered :: "slim_row \<Rightarrow> style_table \<Rightarrow> char_table \<Rightarrow> bool" where
  "covered L st ch \<longleftrightarrow> style.holds (st, style_handles st L) \<and> chars.holds (ch, char_handles ch L)"

type_synonym content = "cell \<times> rstring option"

definition cell_content :: "cell \<Rightarrow> rstring option \<Rightarrow> content" where
  "cell_content cl ovf = (scrollback_form cl, if is_overflow cl \<and> cl_width cl \<noteq> 0 then ovf else None)"

definition slim_content :: "style_table \<Rightarrow> char_table \<Rightarrow> slim_cell \<Rightarrow> content" where
  "slim_content st ch s =
     (let cl = slim_to_cell s st ch in (cl, if is_overflow cl then Some (slim_overflow_str s ch) else None))"

lemma handle_count_mset: "mset xs = mset ys \<Longrightarrow> handle_count xs i = handle_count ys i"
  unfolding handle_count_def by (metis mset_filter size_mset)

lemma style_holds_perm: "mset xs = mset ys \<Longrightarrow> style.holds (t, xs) = style.holds (t, ys)"
  unfolding style.holds_def using handle_count_mset [of xs ys] mset_eq_setD [of xs ys] by auto

lemma chars_holds_perm: "mset xs = mset ys \<Longrightarrow> chars.holds (t, xs) = chars.holds (t, ys)"
  unfolding chars.holds_def using handle_count_mset [of xs ys] mset_eq_setD [of xs ys] by auto

lemma covered_perm: "mset L = mset L' \<Longrightarrow> covered L st ch = covered L' st ch"
proof -
  assume m: "mset L = mset L'"
  then have "mset (style_handles st L) = mset (style_handles st L')" by (simp add: style_handles_def)
  moreover have "mset (char_handles ch L) = mset (char_handles ch L')"
    using m by (simp add: char_handles_def mset_filter)
  ultimately show ?thesis using style_holds_perm chars_holds_perm unfolding covered_def by metis
qed

lemma coveredD:
  assumes "covered L st ch"
  shows "style_ok st" "char_ok ch" "s \<in> set L \<Longrightarrow> slim_refs_live s st ch"
proof -
  show "style_ok st" "char_ok ch" using assms by (simp_all add: covered_def style.holds_def chars.holds_def)
  assume s: "s \<in> set L"
  have "0 < itable_refcount st (sl_style_id s)"
    using style.held_live [of "(st, style_handles st L)" "(sl_style_id s, style_get_or_default st (sl_style_id s))"]
      assms s by (simp add: covered_def style_handles_def)
  moreover have "0 < itable_refcount ch (sl_char_ref s)" if "is_char_table s"
    using chars.held_live [of "(ch, char_handles ch L)" "(sl_char_ref s, char_get_or_default ch (sl_char_ref s))"]
      assms s that by (simp add: covered_def char_handles_def)
  ultimately show "slim_refs_live s st ch" by (simp add: slim_refs_live_def)
qed

lemma covered_Nil: "style_ok st \<Longrightarrow> char_ok ch \<Longrightarrow> covered [] st ch"
  by (simp add: covered_def style.holds_def chars.holds_def style_handles_def char_handles_def
      handle_count_def)

lemma slim_content_cong:
  assumes "style_get_or_default st' (sl_style_id s) = style_get_or_default st (sl_style_id s)"
    and "is_char_table s \<Longrightarrow> char_get_or_default ch' (sl_char_ref s) = char_get_or_default ch (sl_char_ref s)"
  shows "slim_content st' ch' s = slim_content st ch s"
  using slim_to_cell_cong [OF assms] by (simp add: slim_content_def Let_def)

subsection \<open>Compressing one cell\<close>

lemma style_handles_eqI:
  assumes "\<And>s. s \<in> set L \<Longrightarrow> style_get_or_default st' (sl_style_id s) = style_get_or_default st (sl_style_id s)"
  shows "style_handles st' L = style_handles st L"
  using assms by (simp add: style_handles_def)

lemma style_handles_Cons:
  "style_handles st (s # L) = (sl_style_id s, style_get_or_default st (sl_style_id s)) # style_handles st L"
  by (simp add: style_handles_def)

lemma char_handles_Cons:
  "char_handles ch (s # L) =
    (if is_char_table s then [(sl_char_ref s, char_get_or_default ch (sl_char_ref s))] else [])
      @ char_handles ch L"
  by (simp add: char_handles_def)

lemma char_handles_eqI:
  assumes "\<And>s. s \<in> set L \<Longrightarrow> is_char_table s \<Longrightarrow>
    char_get_or_default ch' (sl_char_ref s) = char_get_or_default ch (sl_char_ref s)"
  shows "char_handles ch' L = char_handles ch L"
  using assms by (simp add: char_handles_def)

lemma itable_intern_grows: "length (it_storage (snd (itable_intern cap s t e))) \<le> Suc (length (it_storage t))"
  by (auto simp: itable_intern_def Let_def split: option.splits)

definition tables_room :: "nat \<Rightarrow> style_table \<Rightarrow> char_table \<Rightarrow> bool" where
  "tables_room n st ch \<longleftrightarrow>
     length (it_storage st) + n \<le> U16_MAX \<and> length (it_storage ch) + n \<le> MAX_ENTRIES"

lemma cell_to_slim_room:
  assumes "cell_to_slim cl ovf st ch = (slim, st', ch')" and "tables_room (Suc n) st ch"
  shows "tables_room n st' ch'"
proof -
  have "length (it_storage st') \<le> Suc (length (it_storage st))"
    using itable_intern_grows [of U16_MAX 0 st] by (simp add: cell_to_slim_tables(1) [OF assms(1)] style_intern_def)
  moreover have "length (it_storage ch') \<le> Suc (length (it_storage ch))"
    using itable_intern_grows [of MAX_ENTRIES CHAR_TABLE_SATURATED_ID ch]
    by (auto simp: cell_to_slim_tables(2) [OF assms(1)] char_intern_def Let_def split: option.split)
  ultimately show ?thesis using assms(2) by (simp add: tables_room_def)
qed

definition cell_storable :: "cell \<Rightarrow> rstring option \<Rightarrow> bool" where
  "cell_storable cl ovf \<longleftrightarrow>
     stored_cell cl \<and> (case ovf of None \<Rightarrow> \<not> is_overflow cl | Some s \<Rightarrow> is_overflow cl \<and> 16 < length s)"

lemma cell_to_slim_ids:
  assumes "cell_to_slim cl ovf st ch = (slim, st', ch')"
  shows "sl_style_id slim = fst (style_intern st (cell_style cl))"
    and "is_char_table slim \<longleftrightarrow> interned_grapheme cl ovf \<noteq> None"
    and "is_char_table slim \<Longrightarrow> sl_char_ref slim = fst (char_intern ch
      (case interned_grapheme cl ovf of Some s \<Rightarrow> if is_overflow cl \<or> utf8_valid s then s else [0x3F] | None \<Rightarrow> []))"
proof -
  have inl: "\<not> is_char_table \<lparr>sl_char_ref = r, sl_width = w,
      sl_flags = SLIM_FLAG_INLINE_ASCII OR push_bit SLIM_INLINE_LEN_SHIFT (as_u8 (n - 1)), sl_style_id = i\<rparr>"
    if "1 \<le> n" "n \<le> 4" for r w n i
  proof -
    have "n = 1 \<or> n = 2 \<or> n = 3 \<or> n = 4" using that by linarith
    then show ?thesis by (auto simp: is_char_table_def slim_flag_defs as_u8_def)
  qed
  show "sl_style_id slim = fst (style_intern st (cell_style cl))"
    "is_char_table slim \<longleftrightarrow> interned_grapheme cl ovf \<noteq> None"
    "is_char_table slim \<Longrightarrow> sl_char_ref slim = fst (char_intern ch
      (case interned_grapheme cl ovf of Some s \<Rightarrow> if is_overflow cl \<or> utf8_valid s then s else [0x3F] | None \<Rightarrow> []))"
    using assms inl [of "cl_char_len cl"]
    by (auto simp: cell_to_slim_def Let_def interned_grapheme_def split_def cell_to_slim_char_simps
        split: if_splits option.splits)
qed

lemma interned_nonempty:
  assumes "interned_grapheme cl ovf = Some g" and "cell_storable cl ovf"
  shows "g \<noteq> []"
proof (cases "is_overflow cl")
  case True
  with assms show ?thesis by (auto simp: interned_grapheme_def cell_storable_def split: if_splits option.splits)
next
  case False
  then have "g = take (cl_char_len cl) (cl_char_data cl)" "cl_char_len cl \<noteq> 0" "length (cl_char_data cl) = 16"
    using assms by (simp_all add: interned_grapheme_def cell_storable_def stored_cell_def char_data_ok_def
        split: if_splits)
  then show ?thesis by auto
qed

lemma compress_cell_step:
  assumes cov: "covered L st ch" and room: "tables_room (Suc n) st ch" and len: "length L < U32_MAX"
    and cl: "cell_storable cl ovf" and r: "cell_to_slim cl ovf st ch = (slim, st', ch')"
  shows "covered (slim # L) st' ch'" "tables_room n st' ch'"
    "slim_content st' ch' slim = cell_content cl ovf"
    "s \<in> set L \<Longrightarrow> slim_content st' ch' s = slim_content st ch s"
proof -
  note t = cell_to_slim_tables [OF r] and ids = cell_to_slim_ids [OF r]
  have ok: "style_ok st" "char_ok ch" using coveredD [OF cov] by simp_all
  have accS: "accepted U16_MAX st (cell_style cl)" and accC: "accepted MAX_ENTRIES ch x" for x
    using room by (simp_all add: tables_room_def accepted_def)
  show "tables_room n st' ch'" by (rule cell_to_slim_room [OF r room])
  have ovf: "is_overflow cl \<Longrightarrow> \<exists>s. ovf = Some s \<and> 16 < length s"
    using cl by (auto simp: cell_storable_def split: option.splits)
  have sc: "stored_cell cl" using cl by (simp add: cell_storable_def)
  have "case interned_grapheme cl ovf of None \<Rightarrow> True | Some s \<Rightarrow> accepted MAX_ENTRIES ch s"
    using accC by (simp split: option.split)
  from cell_to_slim_restores [OF ok(1) accS ok(2) this sc ovf r]
  have rt: "slim_to_cell slim st' ch' = scrollback_form cl" "style_ok st'" "char_ok ch'"
    "is_overflow cl \<and> cl_width cl \<noteq> 0 \<longrightarrow> ovf = Some (slim_overflow_str slim ch')" by auto
  have "is_overflow (scrollback_form cl) \<longleftrightarrow> is_overflow cl \<and> cl_width cl \<noteq> 0"
    by (simp add: scrollback_form_def is_overflow_def)
  with rt show "slim_content st' ch' slim = cell_content cl ovf"
    by (simp add: slim_content_def cell_content_def)
  have live: "s \<in> set L \<Longrightarrow> slim_refs_live s st ch" for s using coveredD(3) [OF cov] .
  have frS: "style_get_or_default st' (sl_style_id s) = style_get_or_default st (sl_style_id s)"
    if "s \<in> set L" for s
    unfolding t(1) using style.intern_frame [OF ok(1)] live [OF that] by (simp add: slim_refs_live_def)
  have frC: "char_get_or_default ch' (sl_char_ref s) = char_get_or_default ch (sl_char_ref s)"
    if "s \<in> set L" "is_char_table s" for s
    unfolding t(2) using chars.intern_frame [OF ok(2)] live [OF that(1)] that(2)
    by (simp add: slim_refs_live_def split: option.split)
  show "s \<in> set L \<Longrightarrow> slim_content st' ch' s = slim_content st ch s"
    by (rule slim_content_cong) (use frS frC in auto)
  have hS: "style.holds (st, style_handles st L)" and hC: "chars.holds (ch, char_handles ch L)"
    using cov by (simp_all add: covered_def)
  have "style.holds (client_step style_intern style_dec_ref (accepted U16_MAX) (st, style_handles st L) (Acquire (cell_style cl)))"
    by (rule style.acquire_holds [OF hS]) (use len in \<open>simp_all add: style_handles_def\<close>)
  then have "style.holds (st', (sl_style_id slim, cell_style cl) # style_handles st L)"
    using accS by (simp add: client_step_def split_def Let_def ids(1) t(1))
  moreover have "cell_style cl = style_get_or_default st' (sl_style_id slim)"
    unfolding ids(1) t(1) using style.intern_get [OF ok(1) _ accS] by simp
  moreover have "style_handles st L = style_handles st' L" by (rule style_handles_eqI [symmetric]) (rule frS)
  ultimately have S: "style.holds (st', style_handles st' (slim # L))" by (simp only: style_handles_Cons)
  have CL: "char_handles ch' L = char_handles ch L" by (rule char_handles_eqI) (rule frC)
  have C: "chars.holds (ch', char_handles ch' (slim # L))"
  proof (cases "interned_grapheme cl ovf")
    case None
    then have "ch' = ch" "\<not> is_char_table slim" using ids(2) t(2) by simp_all
    then show ?thesis using hC by (simp add: char_handles_Cons)
  next
    case (Some g)
    let ?s = "if is_overflow cl \<or> utf8_valid g then g else [0x3F]"
    have ne: "?s \<noteq> []" using interned_nonempty [OF Some cl] by simp
    have "chars.holds (client_step char_intern char_dec_ref (accepted MAX_ENTRIES) (ch, char_handles ch L) (Acquire ?s))"
      by (rule chars.acquire_holds [OF hC ne])
        (use len le_less_trans [OF length_filter_le [of is_char_table L]] in \<open>simp add: char_handles_def\<close>)
    then have "chars.holds (ch', (fst (char_intern ch ?s), ?s) # char_handles ch L)"
      using accC [of ?s] Some by (simp only: client_step_def split_def t(2) table_op.case option.case fst_conv snd_conv Let_def if_True)
    moreover have "sl_char_ref slim = fst (char_intern ch ?s)" using ids(2,3) Some by simp
    moreover have "char_get_or_default ch' (fst (char_intern ch ?s)) = ?s"
      unfolding t(2) Some option.case using chars.intern_get [OF ok(2) ne accC] by simp
    ultimately show ?thesis using CL ids(2) Some by (simp add: char_handles_Cons)
  qed
  show "covered (slim # L) st' ch'" using S C by (simp add: covered_def)
qed
end
