(* ===== verification/ShiftFacts.thy ===== *)
theory ShiftFacts
  imports RowFacts
begin

text \<open>
  Region shifts: \<open>shift_rows_up\<close> and \<open>shift_rows_down\<close> implement the shift of a block of
  the list of rows, overflow strings included.
\<close>

lemma vrow_overflow_clear:
  assumes "grid_ok c" and "x < tc_rows c" and "r < tc_rows c"
  shows "vrow (overflow_clear_abs c (viewport_abs c x)) r =
    (if r = x then strip_overflow (vrow c r) else vrow c r)"
proof -
  have "viewport_abs (overflow_clear_abs c (viewport_abs c x)) r = viewport_abs c r"
    by (rule grid_frame_abs) simp
  then show ?thesis using abs_inj [OF assms(1) assms(3,2)]
    by (simp add: vrow_def arow_overflow_clear_abs)
qed

lemma vrow_blank_abs_row:
  assumes "grid_ok c" and "x < tc_rows c" and "r < tc_rows c"
  shows "vrow (blank_abs_row c (viewport_abs c x)) r = (if r = x then blank_row c else vrow c r)"
proof -
  have "viewport_abs (blank_abs_row c (viewport_abs c x)) r = viewport_abs c r"
    by (rule grid_frame_abs) simp
  then show ?thesis using abs_inj [OF assms(1) assms(3,2)] abs_lt [OF assms(1)] assms(1)
    by (simp add: vrow_def arow_blank_abs_row)
qed

lemma vrow_move_row:
  assumes "grid_ok c" and "s < tc_rows c" and "d < tc_rows c" and "s \<noteq> d" and "r < tc_rows c"
    and "snd (snd (vrow c d)) = Map.empty"
  shows "vrow (move_row c (viewport_abs c s) (viewport_abs c d)) r =
      (if r = d then vrow c s else if r = s then strip_overflow (vrow c s) else vrow c r)"
    and "grid_ok (move_row c (viewport_abs c s) (viewport_abs c d))"
proof -
  have ne: "viewport_abs c s \<noteq> viewport_abs c d" using abs_inj assms(1-4) by blast
  have emp: "snd (snd (arow c (viewport_abs c d))) = Map.empty" using assms(6) by (simp add: vrow_def)
  have "viewport_abs (move_row c (viewport_abs c s) (viewport_abs c d)) r = viewport_abs c r"
    by (rule grid_frame_abs) simp
  with move_row_effect(2) [OF assms(1) abs_lt abs_lt ne emp, OF assms(1) assms(1) abs_lt [OF assms(1), of r]]
  show "vrow (move_row c (viewport_abs c s) (viewport_abs c d)) r =
      (if r = d then vrow c s else if r = s then strip_overflow (vrow c s) else vrow c r)"
    using abs_inj [OF assms(1,5)] assms(2,3) by (simp add: vrow_def)
  show "grid_ok (move_row c (viewport_abs c s) (viewport_abs c d))"
    by (rule move_row_effect(1) [OF assms(1) abs_lt abs_lt ne emp]) (use assms(1) in simp_all)
qed

lemma strip_idem [simp]: "strip_overflow (strip_overflow v) = strip_overflow v"
  by (simp add: strip_overflow_def)

lemma strip_empty [simp]: "snd (snd (strip_overflow v)) = Map.empty"
  by (simp add: strip_overflow_def)

lemma blank_row_frame: "grid_frame c c' \<Longrightarrow> blank_row c' = blank_row c"
  by (simp add: blank_row_def grid_frame_bce grid_frameD)

lemma abs_lt_frame: "grid_frame c d \<Longrightarrow> grid_ok d \<Longrightarrow> viewport_abs d r < tc_rows c"
  using abs_lt [of d r] by (simp add: grid_frameD)

text \<open>Loops over a range of rows, each step changing one row.\<close>

lemma row_loop:
  assumes ok: "grid_ok c" and rows: "m + k \<le> tc_rows c"
    and step: "\<And>d r. grid_ok d \<Longrightarrow> grid_frame c d \<Longrightarrow> r < tc_rows c \<Longrightarrow>
      grid_ok (f d r) \<and> grid_frame c (f d r) \<and>
      (\<forall>x < tc_rows c. vrow (f d r) x = (if x = r then g (vrow d x) else vrow d x))"
  shows "grid_ok (foldl f c [m..<m + k]) \<and> grid_frame c (foldl f c [m..<m + k]) \<and>
    (\<forall>x < tc_rows c. vrow (foldl f c [m..<m + k]) x = (if m \<le> x \<and> x < m + k then g (vrow c x) else vrow c x))"
  using rows
proof (induction k)
  case 0
  with ok show ?case by auto
next
  case (Suc k)
  let ?d = "foldl f c [m..<m + k]"
  have IH: "grid_ok ?d" "grid_frame c ?d"
    "\<forall>x < tc_rows c. vrow ?d x = (if m \<le> x \<and> x < m + k then g (vrow c x) else vrow c x)"
    using Suc by simp_all
  have r: "m + k < tc_rows c" using Suc.prems by simp
  from step [OF IH(1,2) r] IH(3) show ?case by auto
qed

lemma clear_loop:
  assumes "grid_ok c" and "m + k \<le> tc_rows c"
  defines "d \<equiv> foldl (\<lambda>c r. overflow_clear_abs c (viewport_abs c r)) c [m..<m + k]"
  shows "grid_ok d \<and> grid_frame c d \<and> (\<forall>x < tc_rows c. vrow d x =
    (if m \<le> x \<and> x < m + k then strip_overflow (vrow c x) else vrow c x))"
  unfolding d_def
  by (rule row_loop [OF assms(1,2)]) (simp add: vrow_overflow_clear grid_frameD)

lemma blank_loop:
  assumes "grid_ok c" and "m + k \<le> tc_rows c"
  defines "d \<equiv> foldl (\<lambda>c r. blank_abs_row c (viewport_abs c r)) c [m..<m + k]"
  shows "grid_ok d \<and> grid_frame c d \<and> (\<forall>x < tc_rows c. vrow d x =
    (if m \<le> x \<and> x < m + k then blank_row c else vrow c x))"
  unfolding d_def
  by (rule row_loop [OF assms(1,2)]) (simp add: vrow_blank_abs_row grid_frameD blank_row_frame abs_lt_frame)

lemma mark_loop:
  assumes "grid_ok c"
  shows "grid_ok (foldl mark_row_dirty c rs) \<and> vrow (foldl mark_row_dirty c rs) x = vrow c x"
  using assms by (induction rs arbitrary: c) simp_all

lemma move_up_loop:
  assumes ok: "grid_ok c" and n: "0 < n" and k: "s + k + n \<le> tc_rows c"
    and c0: "grid_ok c0" "grid_frame c c0" "\<forall>x < tc_rows c. vrow c0 x =
      (if s \<le> x \<and> x < s + n then strip_overflow (vrow c x) else vrow c x)"
  defines "f \<equiv> \<lambda>c dst. move_row c (viewport_abs c (dst + n)) (viewport_abs c dst)"
  shows "grid_ok (foldl f c0 [s..<s + k]) \<and> grid_frame c (foldl f c0 [s..<s + k]) \<and>
    (\<forall>x < tc_rows c. vrow (foldl f c0 [s..<s + k]) x =
      (if s \<le> x \<and> x < s + k then vrow c (x + n)
       else if s \<le> x \<and> x < s + k + n then strip_overflow (vrow c x) else vrow c x))"
  using k
proof (induction k)
  case 0
  with c0 show ?case by auto
next
  case (Suc k)
  let ?d = "foldl f c0 [s..<s + k]"
  have IH: "grid_ok ?d" "grid_frame c ?d" and v: "\<forall>x < tc_rows c. vrow ?d x =
      (if s \<le> x \<and> x < s + k then vrow c (x + n)
       else if s \<le> x \<and> x < s + k + n then strip_overflow (vrow c x) else vrow c x)"
    using Suc by simp_all
  have rows: "tc_rows ?d = tc_rows c" using IH(2) by (rule grid_frameD)
  have lt: "s + k + n < tc_rows ?d" "s + k < tc_rows ?d" using Suc.prems rows by simp_all
  have emp: "snd (snd (vrow ?d (s + k))) = Map.empty" using v lt n by (simp add: rows)
  note mv = vrow_move_row [OF IH(1) lt _ _ emp]
  have fd: "f ?d (s + k) = move_row ?d (viewport_abs ?d (s + k + n)) (viewport_abs ?d (s + k))"
    by (simp only: f_def)
  have "grid_ok (f ?d (s + k)) \<and> grid_frame c (f ?d (s + k))"
    unfolding fd using mv(2) [of 0] IH n lt by simp
  moreover have "vrow (f ?d (s + k)) x =
      (if x = s + k then vrow c (x + n) else if x = s + k + n then strip_overflow (vrow c x)
       else vrow ?d x)" if "x < tc_rows c" for x
    unfolding fd using mv(1) [of x] that n lt v rows by simp
  ultimately show ?case using v n by auto
qed

lemma shift_rows_up_view:
  assumes "grid_ok c" and "0 < n" and "s \<le> e" and "e < tc_rows c" and "n \<le> e - s + 1"
  shows "grid_ok (shift_rows_up c s e n) \<and> (\<forall>x < tc_rows c. vrow (shift_rows_up c s e n) x =
    (if s \<le> x \<and> x \<le> e then (if x + n \<le> e then vrow c (x + n) else blank_row c) else vrow c x))"
proof -
  let ?c1 = "foldl (\<lambda>c r. overflow_clear_abs c (viewport_abs c r)) c [s..<s + n]"
  let ?k = "e + 1 - s - n"
  let ?f = "\<lambda>c dst. move_row c (viewport_abs c (dst + n)) (viewport_abs c dst)"
  let ?c2 = "foldl ?f ?c1 [s..<s + ?k]"
  let ?c3 = "foldl (\<lambda>c r. blank_abs_row c (viewport_abs c r)) ?c2 [e + 1 - n..<e + 1 - n + n]"
  have 1: "grid_ok ?c1 \<and> grid_frame c ?c1 \<and> (\<forall>x < tc_rows c. vrow ?c1 x =
      (if s \<le> x \<and> x < s + n then strip_overflow (vrow c x) else vrow c x))"
    by (rule clear_loop) (use assms in simp_all)
  have 2: "grid_ok ?c2 \<and> grid_frame c ?c2 \<and> (\<forall>x < tc_rows c. vrow ?c2 x =
      (if s \<le> x \<and> x < s + ?k then vrow c (x + n)
       else if s \<le> x \<and> x < s + ?k + n then strip_overflow (vrow c x) else vrow c x))"
    by (rule move_up_loop) (use 1 assms in simp_all)
  have r2: "tc_rows ?c2 = tc_rows c" "blank_row ?c2 = blank_row c"
    using 2 by (simp_all add: grid_frameD blank_row_frame)
  have 3: "grid_ok ?c3 \<and> grid_frame ?c2 ?c3 \<and> (\<forall>x < tc_rows ?c2. vrow ?c3 x =
      (if e + 1 - n \<le> x \<and> x < e + 1 - n + n then blank_row ?c2 else vrow ?c2 x))"
    by (rule blank_loop) (use 2 assms r2 in simp_all)
  have last: "foldl (\<lambda>c dst. if dst + n \<le> e then ?f c dst else c) ?c1 [s..<Suc (e - n)] = ?c2"
  proof (cases "s + n \<le> e")
    case True
    then have "Suc (e - n) = s + ?k" using assms by simp
    then have "[s..<Suc (e - n)] = [s..<s + ?k]" by (simp only:)
    moreover have "foldl (\<lambda>c dst. if dst + n \<le> e then ?f c dst else c) d [s..<s + ?k]
        = foldl ?f d [s..<s + ?k]" for d
      by (rule foldl_cong) auto
    ultimately show ?thesis by simp
  next
    case False
    then have "?k = 0" using assms by simp
    moreover have "foldl (\<lambda>c dst. if dst + n \<le> e then ?f c dst else c) d xs = d"
      if "\<forall>x \<in> set xs. e < x + n" for xs d
      using that by (induction xs arbitrary: d) auto
    ultimately show ?thesis using False by auto
  qed
  have "e + 1 - n + n = Suc e" using assms by simp
  then have eq: "shift_rows_up c s e n = foldl mark_row_dirty ?c3 [s..<Suc e]"
    using assms last by (simp add: shift_rows_up_def Let_def min_absorb1 grid_okD del: upt_Suc)
  show ?thesis unfolding eq
    using mark_loop 3 2 r2 assms by auto
qed

text \<open>The reverse direction.\<close>

lemma move_down_loop:
  assumes ok: "grid_ok c" and n: "0 < n" and k: "k \<le> e + 1 - s - n" and e: "s \<le> e" "e < tc_rows c" "n \<le> e - s + 1"
    and c0: "grid_ok c0" "grid_frame c c0" "\<forall>x < tc_rows c. vrow c0 x =
      (if e + 1 - n \<le> x \<and> x \<le> e then strip_overflow (vrow c x) else vrow c x)"
  defines "f \<equiv> \<lambda>c dst. move_row c (viewport_abs c (dst - n)) (viewport_abs c dst)"
  shows "grid_ok (foldl f c0 (rev [e + 1 - k..<Suc e])) \<and> grid_frame c (foldl f c0 (rev [e + 1 - k..<Suc e])) \<and>
    (\<forall>x < tc_rows c. vrow (foldl f c0 (rev [e + 1 - k..<Suc e])) x =
      (if e + 1 - k \<le> x \<and> x \<le> e then vrow c (x - n)
       else if e + 1 - k - n \<le> x \<and> x \<le> e then strip_overflow (vrow c x) else vrow c x))"
  using k
proof (induction k)
  case 0
  with c0 show ?case by auto
next
  case (Suc k)
  let ?d = "foldl f c0 (rev [e + 1 - k..<Suc e])"
  have IH: "grid_ok ?d" "grid_frame c ?d" and v: "\<forall>x < tc_rows c. vrow ?d x =
      (if e + 1 - k \<le> x \<and> x \<le> e then vrow c (x - n)
       else if e + 1 - k - n \<le> x \<and> x \<le> e then strip_overflow (vrow c x) else vrow c x)"
    using Suc by simp_all
  have rows: "tc_rows ?d = tc_rows c" using IH(2) by (rule grid_frameD)
  let ?t = "e - k"
  have b: "n + k \<le> e" "s + n \<le> ?t" using Suc.prems e by simp_all
  have lt: "?t - n < tc_rows ?d" "?t < tc_rows ?d" "?t - n \<noteq> ?t" using b n e rows by (simp_all del: upt_Suc)
  have "\<not> e + 1 - k \<le> ?t" "e + 1 - k - n \<le> ?t" "?t \<le> e" using b n by simp_all
  then have emp: "snd (snd (vrow ?d ?t)) = Map.empty"
    using v lt(2) rows by (simp only: if_True if_False simp_thms strip_empty)
  note mv = vrow_move_row [OF IH(1) lt _ emp]
  have "e + 1 - Suc k = ?t" "e + 1 - k = Suc ?t" using b by simp_all
  then have sp: "rev [e + 1 - Suc k..<Suc e] = rev [e + 1 - k..<Suc e] @ [?t]"
    using b by (simp add: upt_conv_Cons del: upt_Suc)
  have fd: "f ?d ?t = move_row ?d (viewport_abs ?d (?t - n)) (viewport_abs ?d ?t)"
    by (simp only: f_def)
  have "grid_ok (f ?d ?t) \<and> grid_frame c (f ?d ?t)"
    unfolding fd using mv(2) [of 0] IH n lt by (simp del: upt_Suc)
  moreover have "vrow (f ?d ?t) x =
      (if x = ?t then vrow c (?t - n) else if x = ?t - n then strip_overflow (vrow c x)
       else vrow ?d x)" if "x < tc_rows c" for x
    unfolding fd using mv(1) [of x] that n lt v rows b e by (auto simp del: upt_Suc)
  ultimately show ?case unfolding sp using v n b by (auto simp del: upt_Suc)
qed

lemma shift_rows_down_view:
  assumes "grid_ok c" and "0 < n" and "s \<le> e" and "e < tc_rows c" and "n \<le> e - s + 1"
  shows "grid_ok (shift_rows_down c s e n) \<and> (\<forall>x < tc_rows c. vrow (shift_rows_down c s e n) x =
    (if s \<le> x \<and> x \<le> e then (if s + n \<le> x then vrow c (x - n) else blank_row c) else vrow c x))"
proof -
  have n2: "e + 1 - n + n = Suc e" using assms by simp
  let ?c1 = "foldl (\<lambda>c r. overflow_clear_abs c (viewport_abs c r)) c [e + 1 - n..<e + 1 - n + n]"
  let ?k = "e + 1 - s - n"
  let ?f = "\<lambda>c dst. move_row c (viewport_abs c (dst - n)) (viewport_abs c dst)"
  let ?c2 = "foldl ?f ?c1 (rev [e + 1 - ?k..<Suc e])"
  let ?c3 = "foldl (\<lambda>c r. blank_abs_row c (viewport_abs c r)) ?c2 [s..<s + n]"
  have "grid_ok ?c1 \<and> grid_frame c ?c1 \<and> (\<forall>x < tc_rows c. vrow ?c1 x =
      (if e + 1 - n \<le> x \<and> x < e + 1 - n + n then strip_overflow (vrow c x) else vrow c x))"
    by (rule clear_loop) (use assms in simp_all)
  then have 1: "grid_ok ?c1" "grid_frame c ?c1" "\<forall>x < tc_rows c. vrow ?c1 x =
      (if e + 1 - n \<le> x \<and> x \<le> e then strip_overflow (vrow c x) else vrow c x)"
    unfolding n2 by auto
  have 2: "grid_ok ?c2 \<and> grid_frame c ?c2 \<and> (\<forall>x < tc_rows c. vrow ?c2 x =
      (if e + 1 - ?k \<le> x \<and> x \<le> e then vrow c (x - n)
       else if e + 1 - ?k - n \<le> x \<and> x \<le> e then strip_overflow (vrow c x) else vrow c x))"
    by (rule move_down_loop [OF assms(1,2) order_refl assms(3-5) 1])
  have r2: "tc_rows ?c2 = tc_rows c" "blank_row ?c2 = blank_row c"
    using 2 by (simp_all add: grid_frameD blank_row_frame)
  have 3: "grid_ok ?c3 \<and> grid_frame ?c2 ?c3 \<and> (\<forall>x < tc_rows ?c2. vrow ?c3 x =
      (if s \<le> x \<and> x < s + n then blank_row ?c2 else vrow ?c2 x))"
    by (rule blank_loop) (use 2 assms r2 in simp_all)
  have ks: "e + 1 - ?k = s + n" using assms by simp
  have eq: "shift_rows_down c s e n = foldl mark_row_dirty ?c3 [s..<Suc e]"
    using assms n2 ks by (simp add: shift_rows_down_def Let_def min_absorb1 grid_okD del: upt_Suc)
  show ?thesis unfolding eq
    using mark_loop 3 2 r2 assms ks by (auto simp del: upt_Suc)
qed

lemma shift_clamp:
  "shift_rows_up c s e n = shift_rows_up c s e (min n (e - s + 1))"
  "shift_rows_down c s e n = shift_rows_down c s e (min n (e - s + 1))"
proof -
  have z: "(min n (e - s + 1) = 0) = (n = 0)" by (simp add: min_def)
  have idem: "min (min n (e - s + 1)) (e - s + 1) = min n (e - s + 1)" by simp
  show "shift_rows_up c s e n = shift_rows_up c s e (min n (e - s + 1))"
    "shift_rows_down c s e n = shift_rows_down c s e (min n (e - s + 1))"
    by (simp_all only: shift_rows_up_def shift_rows_down_def z idem Let_def)
qed

lemma shift_rows_ok [simp]:
  assumes "grid_ok c"
  shows "grid_ok (shift_rows_up c s e n)" "grid_ok (shift_rows_down c s e n)"
proof -
  have "grid_ok (shift_rows_up c s e n) \<and> grid_ok (shift_rows_down c s e n)"
  proof (cases "n = 0 \<or> e \<ge> tc_rows c \<or> s > e")
    case True
    with assms show ?thesis by (auto simp: shift_rows_up_def shift_rows_down_def)
  next
    case False
    then show ?thesis
      using shift_rows_up_view [OF assms, of "min n (e - s + 1)" s e]
        shift_rows_down_view [OF assms, of "min n (e - s + 1)" s e] shift_clamp [of c s e n] by simp
  qed
  then show "grid_ok (shift_rows_up c s e n)" "grid_ok (shift_rows_down c s e n)" by simp_all
qed

subsection \<open>The viewport as a list of rows\<close>

definition viewport :: "core \<Rightarrow> row_view list" where
  "viewport c = map (vrow c) [0..<tc_rows c]"

text \<open>The reference: drop the first \<open>n\<close> rows of the block \<open>[s, e]\<close> (or the last, downwards)
  and fill with blanks at the other end.\<close>

definition shift_up_spec :: "'r \<Rightarrow> nat \<Rightarrow> nat \<Rightarrow> nat \<Rightarrow> 'r list \<Rightarrow> 'r list" where
  "shift_up_spec b s e n rs =
     take s rs @ drop (s + n) (take (Suc e) rs) @ replicate n b @ drop (Suc e) rs"

definition shift_down_spec :: "'r \<Rightarrow> nat \<Rightarrow> nat \<Rightarrow> nat \<Rightarrow> 'r list \<Rightarrow> 'r list" where
  "shift_down_spec b s e n rs =
     take s rs @ replicate n b @ take (e + 1 - s - n) (drop s rs) @ drop (Suc e) rs"

text \<open>C4. Scrolling a block of lines is exactly the list operation: shifting rows \<open>s..e\<close> up (or
  down) by \<open>n\<close> drops \<open>n\<close> rows of the block at one end, inserts \<open>n\<close> blank rows of the
  current background at the other, and leaves every other row alone; cells, wrap flags and overflow
  strings move together.\<close>

theorem shift_rows_refine:
  assumes "grid_ok c" and "0 < n" and "s \<le> e" and "e < tc_rows c" and "n \<le> e - s + 1"
  shows "viewport (shift_rows_up c s e n) = shift_up_spec (blank_row c) s e n (viewport c)
    \<and> viewport (shift_rows_down c s e n) = shift_down_spec (blank_row c) s e n (viewport c)"
proof
  have up: "tc_rows (shift_rows_up c s e n) = tc_rows c" "tc_rows (shift_rows_down c s e n) = tc_rows c"
    by (rule grid_frameD; simp)+
  have len: "length (viewport d) = tc_rows d" for d by (simp add: viewport_def)
  note u = shift_rows_up_view [OF assms] and d = shift_rows_down_view [OF assms]
  show "viewport (shift_rows_up c s e n) = shift_up_spec (blank_row c) s e n (viewport c)"
  proof (rule nth_equalityI)
    show l: "length (viewport (shift_rows_up c s e n)) = length (shift_up_spec (blank_row c) s e n (viewport c))"
      using assms up by (simp add: shift_up_spec_def len)
    fix i assume "i < length (viewport (shift_rows_up c s e n))"
    then have i: "i < tc_rows c" by (simp add: len up)
    then show "viewport (shift_rows_up c s e n) ! i = shift_up_spec (blank_row c) s e n (viewport c) ! i"
      using u assms by (auto simp: viewport_def up shift_up_spec_def nth_append add.commute [of n])
  qed
  show "viewport (shift_rows_down c s e n) = shift_down_spec (blank_row c) s e n (viewport c)"
  proof (rule nth_equalityI)
    show l: "length (viewport (shift_rows_down c s e n)) = length (shift_down_spec (blank_row c) s e n (viewport c))"
      using assms up by (simp add: shift_down_spec_def len)
    fix i assume "i < length (viewport (shift_rows_down c s e n))"
    then have i: "i < tc_rows c" by (simp add: len up)
    then show "viewport (shift_rows_down c s e n) ! i = shift_down_spec (blank_row c) s e n (viewport c) ! i"
      using d assms by (auto simp: viewport_def up shift_down_spec_def nth_append)
  qed
qed

lemma core_new_grid_ok:
  assumes "0 < cols" and "cols \<le> U16_MAX" and "0 < rows" and "rows \<le> U16_MAX"
  shows "grid_ok (core_new cols rows sb)"
  using assms by (simp add: grid_ok_def core_new_def mark_all_dirty_def)

lemma shift_rows_refine_witness:
  "viewport (shift_rows_up (core_new 2 4 0) 1 3 2) =
     shift_up_spec (blank_row (core_new 2 4 0)) 1 3 2 (viewport (core_new 2 4 0))
   \<and> viewport (shift_rows_down (core_new 2 4 0) 1 3 2) =
     shift_down_spec (blank_row (core_new 2 4 0)) 1 3 2 (viewport (core_new 2 4 0))"
  by (rule shift_rows_refine)
    (simp_all add: core_new_grid_ok U16_MAX_def, simp add: core_new_def mark_all_dirty_def)

end
