(* ===== verification/PrintHandler.thy ===== *)
theory PrintHandler
  imports Scroll
begin

text \<open>
  \<open>print_handler.rs\<close>: printing a character at the cursor, with grapheme buffering, charset
  translation, line wrap, wide characters and their placeholders, and the retroactive merge of
  combining characters into the cell written last.
\<close>

definition MAX_MERGED_CLUSTER_BYTES :: nat where "MAX_MERGED_CLUSTER_BYTES = 256"

subsection \<open>Charset translation\<close>

definition line_drawing_table :: "nat list" where
  "line_drawing_table =
     [0x0020, 0x25C6, 0x2592, 0x2409, 0x240C, 0x240D, 0x240A, 0x00B0, 0x00B1, 0x2424, 0x240B,
      0x2518, 0x2510, 0x250C, 0x2514, 0x253C, 0x23BA, 0x23BB, 0x2500, 0x23BC, 0x23BD, 0x251C,
      0x2524, 0x2534, 0x252C, 0x2502, 0x2264, 0x2265, 0x03C0, 0x2260, 0x00A3, 0x00B7]"

definition translate_line_drawing :: "nat \<Rightarrow> nat" where
  "translate_line_drawing cp =
     (if 0x5F \<le> cp \<and> cp \<le> 0x7E then line_drawing_table ! (cp - 0x5F) else cp)"

definition translate_charset :: "core \<Rightarrow> nat \<Rightarrow> nat" where
  "translate_charset c cp =
     (let charset = (if tc_active_charset c = 0 then tc_g0_charset c else tc_g1_charset c)
      in if charset = 1 then translate_line_drawing cp else cp)"

subsection \<open>Keeping wide pairs together\<close>

definition cell_width_is :: "core \<Rightarrow> nat \<Rightarrow> nat \<Rightarrow> nat \<Rightarrow> bool" where
  "cell_width_is c col row w \<longleftrightarrow>
     (case cell_index c col row of None \<Rightarrow> False | Some i \<Rightarrow> cl_width (tc_ring_cells c ! i) = w)"

definition blank_orphaned_neighbor_before_overwrite :: "core \<Rightarrow> nat \<Rightarrow> nat \<Rightarrow> nat \<Rightarrow> core" where
  "blank_orphaned_neighbor_before_overwrite c col row old_width =
     (if old_width = 2 then
        if col + 1 < tc_cols c \<and> cell_width_is c (col + 1) row 0
        then blank_wide_pair_half c (col + 1) row else c
      else if old_width = 0 \<and> col > 0 then
        if cell_width_is c (col - 1) row 2 then blank_wide_pair_half c (col - 1) row else c
      else c)"

definition blank_orphaned_base_before_placeholder :: "core \<Rightarrow> nat \<Rightarrow> nat \<Rightarrow> core" where
  "blank_orphaned_base_before_placeholder c ph_col row =
     (if \<not> cell_width_is c ph_col row 2 then c
      else if ph_col + 1 \<ge> tc_cols c then c
      else if cell_width_is c (ph_col + 1) row 0 then blank_wide_pair_half c (ph_col + 1) row else c)"

subsection \<open>Writing cells\<close>

text \<open>\<open>set_char\<close> together with the bookkeeping of the overflow table; styling a cell; the
  placeholder right of a wide cell.\<close>

definition store_grapheme :: "core \<Rightarrow> nat \<Rightarrow> nat \<Rightarrow> nat \<Rightarrow> rstring \<Rightarrow> core" where
  "store_grapheme c i col a s =
     (let c1 = upd_cell i (\<lambda>cl. set_char cl s) c
      in if is_overflow (tc_ring_cells c1 ! i) then overflow_store c1 col a s else overflow_drop c1 col a)"

definition style_cell :: "nat \<Rightarrow> packed_color \<Rightarrow> packed_color \<Rightarrow> flags16 \<Rightarrow> nat \<Rightarrow> cell \<Rightarrow> cell" where
  "style_cell w fg bg flags hl cl =
     cl\<lparr>cl_width := w, cl_fg := fg, cl_bg := bg, cl_flags := flags, cl_hyperlink_id := hl\<rparr>"

definition put_spacer ::
  "core \<Rightarrow> nat \<Rightarrow> nat \<Rightarrow> packed_color \<Rightarrow> packed_color \<Rightarrow> flags16 \<Rightarrow> nat \<Rightarrow> core" where
  "put_spacer c col row fg bg flags hl =
     (case cell_index c col row of
        None \<Rightarrow> c
      | Some i \<Rightarrow> overflow_drop
          (upd_cell i (\<lambda>cl. style_cell 0 fg bg flags hl (cl\<lparr>cl_char_data := replicate 16 0, cl_char_len := 0\<rparr>)) c)
          col (viewport_abs c row))"

text \<open>The wrap to the next line, which marks it as a continuation.\<close>

definition wrap_to_next_line :: "core \<Rightarrow> core" where
  "wrap_to_next_line c =
     (let c1 = line_feed (carriage_return c)
      in c1\<lparr>tc_ring_wrapped := (tc_ring_wrapped c1)[viewport_abs c1 (cur_row c1) := True]\<rparr>)"

definition advance_cursor :: "core \<Rightarrow> nat \<Rightarrow> core" where
  "advance_cursor c new_col =
     (if new_col \<ge> tc_cols c then
        if get_mode c MODE_AUTO_WRAP
        then (upd_cursor (\<lambda>u. u\<lparr>cu_col := tc_cols c - 1\<rparr>) c)\<lparr>tc_wrap_pending := True\<rparr> else c
      else upd_cursor (\<lambda>u. u\<lparr>cu_col := new_col\<rparr>) c)"

definition write_base :: "core \<Rightarrow> nat \<Rightarrow> nat \<Rightarrow> rstring \<Rightarrow> nat \<Rightarrow> core" where
  "write_base c col row char_str width =
     (case cell_index c col row of
        None \<Rightarrow> c
      | Some i \<Rightarrow>
          let old_width = cl_width (tc_ring_cells c ! i);
              c1 = (if old_width \<noteq> 1 then blank_orphaned_neighbor_before_overwrite c col row old_width else c);
              c2 = store_grapheme c1 i col (viewport_abs c1 row) char_str;
              u = tc_cursor c2;
              c3 = upd_cell i (style_cell width (cu_fg u) (cu_bg u) (cu_flags u) (tc_active_hyperlink_id c2)) c2
          in (mark_row_dirty c3 row)\<lparr>tc_last_write := Some (col, row)\<rparr>)"

definition write_grapheme_to_grid :: "core \<Rightarrow> rstring \<Rightarrow> nat \<Rightarrow> core" where
  "write_grapheme_to_grid c char_str width =
     (let c1 = (if tc_wrap_pending c then wrap_to_next_line (c\<lparr>tc_wrap_pending := False\<rparr>) else c);
          c2 = (if width = 2 \<and> cur_col c1 \<ge> tc_cols c1 - 1 \<and> get_mode c1 MODE_AUTO_WRAP
                then wrap_to_next_line c1 else c1);
          col = cur_col c2; row = cur_row c2;
          c3 = write_base c2 col row char_str width;
          c4 = (if width = 2 \<and> col + 1 < tc_cols c3 then
                  let u = tc_cursor c3 in
                  put_spacer (blank_orphaned_base_before_placeholder c3 (col + 1) row)
                    (col + 1) row (cu_fg u) (cu_bg u) (cu_flags u) (tc_active_hyperlink_id c3)
                else c3)
      in advance_cursor c4 (col + width))"

definition write_ascii :: "core \<Rightarrow> nat \<Rightarrow> nat \<Rightarrow> u8 \<Rightarrow> core" where
  "write_ascii c col row byte =
     (case cell_index c col row of
        None \<Rightarrow> c
      | Some i \<Rightarrow>
          let old_width = cl_width (tc_ring_cells c ! i);
              was_overflow = is_overflow (tc_ring_cells c ! i);
              c1 = (if old_width \<noteq> 1 then blank_orphaned_neighbor_before_overwrite c col row old_width else c);
              u = tc_cursor c1;
              c2 = upd_cell i (\<lambda>cl. style_cell 1 (cu_fg u) (cu_bg u) (cu_flags u) (tc_active_hyperlink_id c1)
                     (cl\<lparr>cl_char_data := (cl_char_data cl)[0 := byte], cl_char_len := 1\<rparr>)) c1;
              c3 = (if was_overflow then overflow_drop c2 col (viewport_abs c2 row) else c2)
          in (mark_row_dirty c3 row)\<lparr>tc_last_write := Some (col, row)\<rparr>)"

definition handle_print_ascii :: "core \<Rightarrow> nat \<Rightarrow> core" where
  "handle_print_ascii c cp =
     (let col = cur_col c in advance_cursor (write_ascii c col (cur_row c) (as_u8 cp)) (col + 1))"

text \<open>\<open>char::from_u32\<close> followed by \<open>encode_utf8\<close>.\<close>

definition encode_or :: "nat \<Rightarrow> nat \<Rightarrow> rstring" where
  "encode_or dflt cp = utf8_encode (if is_scalar cp then cp else dflt)"

definition handle_print_slow :: "core \<Rightarrow> nat \<Rightarrow> core" where
  "handle_print_slow c cp = write_grapheme_to_grid c (encode_or 0x20 (translate_charset c cp)) (char_width cp)"

subsection \<open>Retroactive merge of zero-width characters\<close>

definition cell_content_at :: "core \<Rightarrow> nat \<Rightarrow> nat \<Rightarrow> nat \<Rightarrow> rstring" where
  "cell_content_at c i col a =
     (let cl = tc_ring_cells c ! i in
      if is_overflow cl then (case map_of (tc_overflow c) (col, a) of Some s \<Rightarrow> s | None \<Rightarrow> [])
      else (case get_char_inline cl of Some s \<Rightarrow> s | None \<Rightarrow> [0x20]))"

definition relocate_widened_base_via_wrap :: "core \<Rightarrow> nat \<Rightarrow> nat \<Rightarrow> core" where
  "relocate_widened_base_via_wrap c old_col old_row =
     (case cell_index c old_col old_row of
        None \<Rightarrow> c
      | Some old_i \<Rightarrow>
          let old_abs = viewport_abs c old_row;
              content = cell_content_at c old_i old_col old_abs;
              cl = tc_ring_cells c ! old_i;
              fg = cl_fg cl; bg = cl_bg cl; flags = cl_flags cl; hl = cl_hyperlink_id cl;
              c1 = mark_row_dirty (overflow_drop (upd_cell old_i (\<lambda>_. bce_cell c) c) old_col old_abs) old_row;
              c2 = wrap_to_next_line c1;
              new_row = cur_row c2;
              c3 = (case cell_index c2 0 new_row of
                      None \<Rightarrow> c2
                    | Some i \<Rightarrow>
                        let old_width = cl_width (tc_ring_cells c2 ! i)
                        in if old_width \<noteq> 1 then blank_orphaned_neighbor_before_overwrite c2 0 new_row old_width else c2);
              c4 = (case cell_index c3 0 new_row of
                      None \<Rightarrow> c3
                    | Some i \<Rightarrow> upd_cell i (style_cell 2 fg bg flags hl)
                        (store_grapheme c3 i 0 (viewport_abs c3 new_row) content));
              c5 = put_spacer (blank_orphaned_base_before_placeholder c4 1 new_row) 1 new_row fg bg flags hl;
              c6 = mark_row_dirty c5 new_row;
              c7 = (if 2 \<ge> tc_cols c6 then
                      if get_mode c6 MODE_AUTO_WRAP
                      then (upd_cursor (\<lambda>u. u\<lparr>cu_col := tc_cols c6 - 1\<rparr>) c6)\<lparr>tc_wrap_pending := True\<rparr> else c6
                    else (upd_cursor (\<lambda>u. u\<lparr>cu_col := 2\<rparr>) c6)\<lparr>tc_wrap_pending := False\<rparr>)
          in c7\<lparr>tc_last_write := Some (0, new_row)\<rparr>)"

definition widen_after_merge :: "core \<Rightarrow> nat \<Rightarrow> nat \<Rightarrow> core" where
  "widen_after_merge c col row =
     (if col = tc_cols c - 1 then
        if get_mode c MODE_AUTO_WRAP then relocate_widened_base_via_wrap c col row
        else (case cell_index c col row of
                None \<Rightarrow> c | Some i \<Rightarrow> upd_cell i (\<lambda>cl. cl\<lparr>cl_width := 2\<rparr>) c)
      else case cell_index c col row of
        None \<Rightarrow> c
      | Some base_i \<Rightarrow>
          let c1 = upd_cell base_i (\<lambda>cl. cl\<lparr>cl_width := 2\<rparr>) c;
              base = tc_ring_cells c1 ! base_i;
              c2 = put_spacer (blank_orphaned_base_before_placeholder c1 (col + 1) row) (col + 1) row
                     (cl_fg base) (cl_bg base) (cl_flags base) (cl_hyperlink_id base);
              c3 = advance_cursor (mark_row_dirty c2 row) (col + 2)
          in c3\<lparr>tc_last_write := Some (col, row)\<rparr>)"

definition merge_into :: "core \<Rightarrow> nat \<Rightarrow> nat \<Rightarrow> nat \<Rightarrow> core \<times> bool" where
  "merge_into c cp col row =
     (case cell_index c col row of
        None \<Rightarrow> (c, False)
      | Some i \<Rightarrow>
          let a = viewport_abs c row; content = cell_content_at c i col a in
          if length content \<ge> MAX_MERGED_CLUSTER_BYTES then (c, True)
          else
            let content = content @ encode_or 0xFFFD cp;
                old_width = cl_width (tc_ring_cells c ! i);
                c1 = (mark_row_dirty (store_grapheme c i col a content) row)\<lparr>tc_last_write := Some (col, row)\<rparr>
            in (if cp = 0xFE0F \<and> old_width = 1 then widen_after_merge c1 col row else c1, True))"

definition try_retroactive_merge :: "core \<Rightarrow> nat \<Rightarrow> core \<times> bool" where
  "try_retroactive_merge c cp =
     (case tc_last_write c of
        None \<Rightarrow> (c, False)
      | Some (col, row) \<Rightarrow>
          if cell_width_is c col row 0 then
            if col = 0 then (c, False) else merge_into c cp (col - 1) row
          else merge_into c cp col row)"

subsection \<open>Grapheme buffer and printing\<close>

definition flush_grapheme_buffer :: "core \<Rightarrow> core" where
  "flush_grapheme_buffer c =
     (let buf = tc_grapheme_buffer c in
      if buf = [] then c
      else
        let cluster = concat (map utf8_encode (filter is_scalar buf));
            width = (if 0xFE0E \<in> set buf then 1
                     else if 0xFE0F \<in> set buf then 2
                     else if length buf = 1 then
                       (if is_emoji_presentation (hd buf) then 2 else char_width (hd buf))
                     else 2)
        in write_grapheme_to_grid (c\<lparr>tc_grapheme_buffer := []\<rparr>) cluster width)"

definition push_grapheme :: "core \<Rightarrow> nat \<Rightarrow> core" where
  "push_grapheme c cp = c\<lparr>tc_grapheme_buffer := tc_grapheme_buffer c @ [cp]\<rparr>"

text \<open>The end of \<open>handle_print\<close>: a character that takes no part in clustering.\<close>

definition print_char :: "core \<Rightarrow> nat \<Rightarrow> core" where
  "print_char c cp =
     (if 0x20 \<le> cp \<and> cp < 0x7F \<and> \<not> tc_wrap_pending c \<and> tc_active_charset c = 0 \<and> tc_g0_charset c = 0
         \<and> (cur_col c + 1 < tc_cols c \<or> get_mode c MODE_AUTO_WRAP)
      then handle_print_ascii c cp
      else handle_print_slow c cp)"

text \<open>Whether a character extends the buffered cluster.\<close>

definition extends_cluster :: "nat list \<Rightarrow> nat \<Rightarrow> bool" where
  "extends_cluster buf cp \<longleftrightarrow>
     (let props = classify_codepoint cp in
      cp = 0x200D \<or> props AND VARIATION_SEL \<noteq> 0 \<or> props AND SKIN_TONE \<noteq> 0
      \<or> (last buf = 0x200D \<and> props AND EXT_PICTOGRAPHIC \<noteq> 0) \<or> props AND COMBINING \<noteq> 0)"

definition completes_flag :: "nat list \<Rightarrow> nat \<Rightarrow> bool" where
  "completes_flag buf cp \<longleftrightarrow>
     classify_codepoint cp AND REGIONAL_IND \<noteq> 0 \<and> length buf = 1 \<and> 0x1F1E6 \<le> hd buf \<and> hd buf \<le> 0x1F1FF"

definition cluster_print :: "core \<Rightarrow> nat \<Rightarrow> core" where
  "cluster_print c cp =
     (let props = classify_codepoint cp in
      if tc_grapheme_buffer c \<noteq> [] then
        if cp = 0x200D \<or> props AND VARIATION_SEL \<noteq> 0 \<or> props AND SKIN_TONE \<noteq> 0 then push_grapheme c cp
        else if completes_flag (tc_grapheme_buffer c) cp then flush_grapheme_buffer (push_grapheme c cp)
        else if extends_cluster (tc_grapheme_buffer c) cp then push_grapheme c cp
        else print_char (flush_grapheme_buffer c) cp
      else if props AND (EXT_PICTOGRAPHIC OR REGIONAL_IND) \<noteq> 0 then push_grapheme c cp
      else if props AND (VARIATION_SEL OR COMBINING) \<noteq> 0 then fst (try_retroactive_merge c cp)
      else print_char c cp)"

definition handle_print :: "core \<Rightarrow> nat \<Rightarrow> core" where
  "handle_print c cp =
     (if cp = 0x10EEEE then (flush_grapheme_buffer c)\<lparr>tc_kitty_placeholder_active := True\<rparr>
      else if tc_kitty_placeholder_active c \<and> classify_codepoint cp AND COMBINING \<noteq> 0 then c
      else
        let c1 = c\<lparr>tc_kitty_placeholder_active := False\<rparr>;
            c2 = (if length (tc_grapheme_buffer c1) \<ge> 64 then flush_grapheme_buffer c1 else c1)
        in cluster_print c2 cp)"

end
