(* ===== verification/GridInv.thy ===== *)
theory GridInv
  imports ShiftFacts PrintHandler
begin

text \<open>
  The invariant of the grid contents: every cell is well formed, and an overflow string exists at a
  position only while the cell there carries the overflow marker.  The lemmas show that writing a
  cell, blanking a wide-pair half, placing a spacer and all row operations keep it.
\<close>

definition cell_ok :: "cell \<Rightarrow> bool" where
  "cell_ok cl \<longleftrightarrow> stored_cell cl \<and> cl_width cl \<le> 2"

text \<open>What a cell may be asked to show: at least one character, and not much more than the
  256 bytes at which merging stops.\<close>

definition grapheme_ok :: "rstring \<Rightarrow> bool" where
  "grapheme_ok s \<longleftrightarrow> utf8_valid s \<and> s \<noteq> [] \<and> length s \<le> 260"

definition cells_fine :: "core \<Rightarrow> bool" where
  "cells_fine c \<longleftrightarrow> (\<forall>cl \<in> set (tc_ring_cells c). cell_ok cl)"

definition overflow_fine :: "core \<Rightarrow> bool" where
  "overflow_fine c \<longleftrightarrow> (\<forall>col a s. map_of (tc_overflow c) (col, a) = Some s \<longrightarrow>
     is_overflow (tc_ring_cells c ! (a * tc_cols c + col)) \<and> grapheme_ok s \<and> 16 < length s)"

definition grid_inv :: "core \<Rightarrow> bool" where
  "grid_inv c \<longleftrightarrow> grid_ok c \<and> cells_fine c \<and> overflow_fine c"

lemma grid_invD:
  assumes "grid_inv c"
  shows "grid_ok c" "i < length (tc_ring_cells c) \<Longrightarrow> cell_ok (tc_ring_cells c ! i)"
    "map_of (tc_overflow c) (col, a) = Some s \<Longrightarrow> is_overflow (tc_ring_cells c ! (a * tc_cols c + col))"
    "map_of (tc_overflow c) (col, a) = Some s \<Longrightarrow> grapheme_ok s"
    "map_of (tc_overflow c) (col, a) = Some s \<Longrightarrow> 16 < length s"
  using assms by (auto simp: grid_inv_def cells_fine_def overflow_fine_def)

subsection \<open>Well-formed cells\<close>

lemma cell_okD:
  "cell_ok cl \<Longrightarrow> char_data_ok cl" "cell_ok cl \<Longrightarrow> cl_width cl \<le> 2"
  "cell_ok cl \<Longrightarrow> cl_width cl \<noteq> 0 \<Longrightarrow> cl_char_len cl \<noteq> 0"
  by (simp_all add: cell_ok_def stored_cell_def)

lemma utf8_valid_space [simp]: "utf8_valid [0x20]"
  by (simp add: utf8_valid.simps utf8_step_def byte_at_def)

lemma utf8_valid_ascii: "b < 0x80 \<Longrightarrow> utf8_valid [b]"
  by (simp add: utf8_valid.simps utf8_step_def byte_at_def)

lemma cell_ok_empty [simp]: "cell_ok cell_empty"
  using char_data_ok_empty by (simp add: cell_ok_def stored_cell_def) (simp add: cell_empty_def)

lemma cell_ok_bce [simp]: "cell_ok (bce_cell c)"
  using char_data_ok_empty
  by (simp add: cell_ok_def stored_cell_def bce_cell_def char_data_ok_def) (simp add: cell_empty_def)

lemma bce_not_overflow [simp]: "\<not> is_overflow (bce_cell c)"
  by (simp add: bce_cell_def cell_empty_def is_overflow_def)

lemma set_char_len_ne: "s \<noteq> [] \<Longrightarrow> cl_char_len (set_char cl s) \<noteq> 0"
  by (simp add: set_char_def)

lemma cell_ok_set_char: "cell_ok cl \<Longrightarrow> utf8_valid s \<Longrightarrow> s \<noteq> [] \<Longrightarrow> cell_ok (set_char cl s)"
  using set_char_ok [of s cl] set_char_len_ne [of s cl] by (simp add: cell_ok_def stored_cell_def)

lemma char_data_ok_upd [simp]:
  "char_data_ok (cl\<lparr>cl_width := w\<rparr>) = char_data_ok cl" "char_data_ok (style_cell w fg bg fl hl cl) = char_data_ok cl"
  by (simp_all add: char_data_ok_def style_cell_def)

lemma is_overflow_upd [simp]:
  "is_overflow (cl\<lparr>cl_width := w\<rparr>) = is_overflow cl" "is_overflow (style_cell w fg bg fl hl cl) = is_overflow cl"
  by (simp_all add: is_overflow_def style_cell_def)

lemma style_cell_sel [simp]:
  "cl_char_len (style_cell w fg bg fl hl cl) = cl_char_len cl" "cl_width (style_cell w fg bg fl hl cl) = w"
  "cl_char_data (style_cell w fg bg fl hl cl) = cl_char_data cl"
  by (simp_all add: style_cell_def)

lemma cell_ok_style:
  "cell_ok cl \<Longrightarrow> w \<le> 2 \<Longrightarrow> cl_char_len cl \<noteq> 0 \<or> w = 0 \<Longrightarrow> cell_ok (style_cell w fg bg fl hl cl)"
  by (auto simp: cell_ok_def stored_cell_def)

lemma cell_ok_width:
  "cell_ok cl \<Longrightarrow> w \<le> 2 \<Longrightarrow> cl_char_len cl \<noteq> 0 \<or> w = 0 \<Longrightarrow> cell_ok (cl\<lparr>cl_width := w\<rparr>)"
  by (auto simp: cell_ok_def stored_cell_def)

lemma cell_ok_spacer:
  "cell_ok (style_cell 0 fg bg fl hl (cl\<lparr>cl_char_data := replicate 16 0, cl_char_len := 0\<rparr>))"
  by (simp add: cell_ok_def stored_cell_def char_data_ok_def)

lemma cell_ok_ascii:
  assumes "cell_ok cl" and "b < 0x80"
  shows "cell_ok (style_cell 1 fg bg fl hl (cl\<lparr>cl_char_data := (cl_char_data cl)[0 := b], cl_char_len := 1\<rparr>))"
proof -
  have "length (cl_char_data cl) = 16" using assms(1) by (simp add: cell_ok_def stored_cell_def char_data_ok_def)
  then have "take 1 ((cl_char_data cl)[0 := b]) = [b]" by (cases "cl_char_data cl") simp_all
  with \<open>length (cl_char_data cl) = 16\<close> assms(2) show ?thesis
    by (simp add: cell_ok_def stored_cell_def char_data_ok_def utf8_valid_ascii)
qed

subsection \<open>Fields of the elementary updates\<close>

lemma upd_cell_fields [simp]:
  "tc_ring_cells (upd_cell i f c) = (tc_ring_cells c)[i := f (tc_ring_cells c ! i)]"
  "tc_ring_wrapped (upd_cell i f c) = tc_ring_wrapped c" "tc_dirty (upd_cell i f c) = tc_dirty c"
  "tc_overflow (upd_cell i f c) = tc_overflow c" "tc_overflow_ridx (upd_cell i f c) = tc_overflow_ridx c"
  "tc_cols (upd_cell i f c) = tc_cols c" "tc_rows (upd_cell i f c) = tc_rows c"
  "tc_ring_head (upd_cell i f c) = tc_ring_head c" "tc_cursor (upd_cell i f c) = tc_cursor c"
  by (simp_all add: upd_cell_def)

lemma overflow_drop_fields [simp]:
  "tc_ring_cells (overflow_drop c col a) = tc_ring_cells c"
  "tc_ring_wrapped (overflow_drop c col a) = tc_ring_wrapped c" "tc_dirty (overflow_drop c col a) = tc_dirty c"
  "tc_cols (overflow_drop c col a) = tc_cols c" "tc_rows (overflow_drop c col a) = tc_rows c"
  "tc_ring_head (overflow_drop c col a) = tc_ring_head c" "tc_cursor (overflow_drop c col a) = tc_cursor c"
  by (simp_all add: overflow_drop_def)

lemma overflow_store_fields [simp]:
  "tc_ring_cells (overflow_store c col a s) = tc_ring_cells c"
  "tc_ring_wrapped (overflow_store c col a s) = tc_ring_wrapped c" "tc_dirty (overflow_store c col a s) = tc_dirty c"
  "tc_cols (overflow_store c col a s) = tc_cols c" "tc_rows (overflow_store c col a s) = tc_rows c"
  "tc_ring_head (overflow_store c col a s) = tc_ring_head c" "tc_cursor (overflow_store c col a s) = tc_cursor c"
  by (simp_all add: overflow_store_def)

lemma map_of_overflow_drop: "map_of (tc_overflow (overflow_drop c col a)) = (map_of (tc_overflow c))((col, a) := None)"
  by (auto simp: overflow_drop_def map_of_delete)

lemma map_of_overflow_store:
  "map_of (tc_overflow (overflow_store c col a s)) = (map_of (tc_overflow c))((col, a) := Some s)"
  by (simp add: overflow_store_def map_of_update)

lemma overflow_agrees [simp]:
  "ridx_agrees (tc_overflow c) (tc_overflow_ridx c) \<Longrightarrow>
     ridx_agrees (tc_overflow (overflow_drop c col a)) (tc_overflow_ridx (overflow_drop c col a))"
  "ridx_agrees (tc_overflow c) (tc_overflow_ridx c) \<Longrightarrow>
     ridx_agrees (tc_overflow (overflow_store c col a s)) (tc_overflow_ridx (overflow_store c col a s))"
  by (simp_all add: overflow_drop_def overflow_store_def ridx_agrees_remove ridx_agrees_insert)

lemma overflow_drop_when: "(if tc_overflow c \<noteq> [] then overflow_drop c col a else c) = overflow_drop c col a"
  by (simp add: overflow_drop_def)

subsection \<open>Writing one cell\<close>

lemma cell_index_abs:
  assumes "grid_ok c" and "cell_index c col row = Some i"
  shows "i = viewport_abs c row * tc_cols c + col" "col < tc_cols c" "row < tc_rows c"
    "viewport_abs c row < tc_rows c" "i < length (tc_ring_cells c)"
proof -
  show "col < tc_cols c" "row < tc_rows c" "i < length (tc_ring_cells c)"
    using cell_index_in_bounds [OF assms(2)] by simp_all
  then show "i = viewport_abs c row * tc_cols c + col" using cell_index_Some [OF assms(1), of col row] assms(2) by simp
  show "viewport_abs c row < tc_rows c" by (rule abs_lt [OF assms(1)])
qed

text \<open>The one rule behind every single-cell write: the cell at \<open>(col, a)\<close> becomes \<open>x\<close> and the
  overflow entry of that position becomes \<open>v\<close>.\<close>

lemma grid_inv_write:
  assumes ovf: "map_of (tc_overflow c') = (map_of (tc_overflow c))((col, a) := v)"
    and inv: "grid_inv c" and fr: "grid_frame c c'" and pos: "col < tc_cols c" "a < tc_rows c"
    and cells: "tc_ring_cells c' = (tc_ring_cells c)[a * tc_cols c + col := x]" and x: "cell_ok x"
    and len: "length (tc_ring_wrapped c') = length (tc_ring_wrapped c)" "length (tc_dirty c') = length (tc_dirty c)"
    and agr: "ridx_agrees (tc_overflow c') (tc_overflow_ridx c')"
    and v: "\<And>s. v = Some s \<Longrightarrow> is_overflow x \<and> grapheme_ok s \<and> 16 < length s"
  shows "grid_inv c'"
proof -
  note ok = grid_invD(1) [OF inv]
  have lt: "b * tc_cols c + k < length (tc_ring_cells c)" if "k < tc_cols c" "b < tc_rows c" for k b
    using block_index_lt [OF that(2,1)] by (simp add: grid_okD [OF ok])
  have "grid_ok c'"
  proof (rule grid_okI [OF ok fr _ len agr])
    fix k b assume "map_of (tc_overflow c') (k, b) \<noteq> None"
    then show "k < tc_cols c \<and> b < tc_rows c"
      using pos overflow_range [OF ok, of k b] by (auto simp: ovf split: if_splits)
  qed (simp add: cells)
  moreover have "cells_fine c'"
    using inv x set_update_subset_insert [of "tc_ring_cells c" "a * tc_cols c + col" x]
    by (auto simp: cells_fine_def grid_inv_def cells)
  moreover have "overflow_fine c'"
    unfolding overflow_fine_def
  proof (intro allI impI)
    fix k b s assume s: "map_of (tc_overflow c') (k, b) = Some s"
    show "is_overflow (tc_ring_cells c' ! (b * tc_cols c' + k)) \<and> grapheme_ok s \<and> 16 < length s"
    proof (cases "(k, b) = (col, a)")
      case True
      with s v [of s] lt [OF pos] show ?thesis by (simp add: ovf cells grid_frameD(1) [OF fr])
    next
      case False
      with s have old: "map_of (tc_overflow c) (k, b) = Some s" by (auto simp: ovf split: if_splits)
      note kb = overflow_range_Some [OF ok old]
      have "a * tc_cols c + col \<noteq> b * tc_cols c + k"
        using False block_disjoint [of a b col "tc_cols c" k] pos kb by (cases "a = b") auto
      with grid_invD(3-5) [OF inv old] show ?thesis by (simp add: cells grid_frameD(1) [OF fr])
    qed
  qed
  ultimately show ?thesis by (simp add: grid_inv_def)
qed

lemma grid_inv_same:
  assumes "grid_inv c" and "grid_frame c c'" and "tc_ring_cells c' = tc_ring_cells c"
    and "length (tc_ring_wrapped c') = length (tc_ring_wrapped c)" "length (tc_dirty c') = length (tc_dirty c)"
    and "tc_overflow c' = tc_overflow c" "tc_overflow_ridx c' = tc_overflow_ridx c"
  shows "grid_inv c'"
proof -
  have "grid_ok c'"
    by (rule grid_okI [OF grid_invD(1) [OF assms(1)] assms(2)])
      (use assms grid_invD(1) [OF assms(1)] in \<open>auto simp: grid_okD dest: overflow_range_Some\<close>)
  with assms show ?thesis by (simp add: grid_inv_def cells_fine_def overflow_fine_def grid_frameD)
qed

lemma mark_row_dirty_inv [simp]: "grid_inv c \<Longrightarrow> grid_inv (mark_row_dirty c r)"
  by (rule grid_inv_same [of c]) simp_all

lemma mark_all_dirty_inv [simp]: "grid_inv c \<Longrightarrow> grid_inv (mark_all_dirty c)"
  by (rule grid_inv_same [of c]) (simp_all add: mark_all_dirty_def)

lemma length_shift_dirty: "length (foldl shift_dirty_step d xs) = length d"
  by (induction xs arbitrary: d) (simp_all add: shift_dirty_step_def Let_def)

lemma shift_dirty_inv [simp]: "grid_inv c \<Longrightarrow> grid_inv (shift_dirty_down_by_one c)"
  by (rule grid_inv_same [of c]) (simp_all add: shift_dirty_down_by_one_def length_shift_dirty)

lemma store_grapheme_inv:
  assumes "grid_inv c" and "cell_index c col row = Some i" and "grapheme_ok s"
  shows "grid_inv (store_grapheme c i col (viewport_abs c row) s)"
proof -
  note ix = cell_index_abs [OF grid_invD(1) [OF assms(1)] assms(2)]
  have x: "cell_ok (set_char (tc_ring_cells c ! i) s)"
    using cell_ok_set_char grid_invD(2) [OF assms(1) ix(5)] assms(3) by (simp add: grapheme_ok_def)
  note g = grid_okD [OF grid_invD(1) [OF assms(1)]]
  let ?d = "upd_cell i (\<lambda>cl. set_char cl s) c" and ?a = "viewport_abs c row"
  have fr: "grid_frame c (overflow_store ?d col ?a s)" "grid_frame c (overflow_drop ?d col ?a)" by simp_all
  have cells: "tc_ring_cells ?d = (tc_ring_cells c)[?a * tc_cols c + col := set_char (tc_ring_cells c ! i) s]"
    using ix(1) by simp
  show ?thesis
  proof (cases "is_overflow (set_char (tc_ring_cells c ! i) s)")
    case True
    then have eq: "store_grapheme c i col ?a s = overflow_store ?d col ?a s"
      using ix(5) by (simp add: store_grapheme_def Let_def)
    have "map_of (tc_overflow (overflow_store ?d col ?a s)) = (map_of (tc_overflow c))((col, ?a) := Some s)"
      by (simp add: map_of_overflow_store)
    then show ?thesis unfolding eq
      by (rule grid_inv_write [OF _ assms(1) fr(1) ix(2,4) _ x])
        (use True cells g assms(3) in \<open>simp_all add: set_char_overflow\<close>)
  next
    case False
    then have eq: "store_grapheme c i col ?a s = overflow_drop ?d col ?a"
      using ix(5) by (simp add: store_grapheme_def Let_def)
    have "map_of (tc_overflow (overflow_drop ?d col ?a)) = (map_of (tc_overflow c))((col, ?a) := None)"
      by (simp add: map_of_overflow_drop)
    then show ?thesis unfolding eq
      by (rule grid_inv_write [OF _ assms(1) fr(2) ix(2,4) _ x]) (use cells g in simp_all)
  qed
qed

lemma store_grapheme_cell:
  assumes "grid_inv c" and "cell_index c col row = Some i" and "s \<noteq> []"
  shows "cl_char_len (tc_ring_cells (store_grapheme c i col (viewport_abs c row) s) ! i) \<noteq> 0"
  using cell_index_abs(5) [OF grid_invD(1) [OF assms(1)] assms(2)]
    set_char_len_ne [OF assms(3), of "tc_ring_cells c ! i"]
  by (simp add: store_grapheme_def Let_def)

lemma store_grapheme_frame [simp]:
  "grid_frame c d \<Longrightarrow> grid_frame c (store_grapheme d i col a s)"
  by (simp add: store_grapheme_def Let_def)

text \<open>Writes that keep the overflow marker of the cell.\<close>

lemma upd_cell_keep_inv:
  assumes "grid_inv c" and "cell_index c col row = Some i"
    and "cell_ok (f (tc_ring_cells c ! i))" and "is_overflow (f (tc_ring_cells c ! i)) = is_overflow (tc_ring_cells c ! i)"
  shows "grid_inv (upd_cell i f c)"
proof -
  note ix = cell_index_abs [OF grid_invD(1) [OF assms(1)] assms(2)] and g = grid_okD [OF grid_invD(1) [OF assms(1)]]
  let ?a = "viewport_abs c row"
  have "map_of (tc_overflow (upd_cell i f c)) = (map_of (tc_overflow c))((col, ?a) := map_of (tc_overflow c) (col, ?a))"
    by simp
  then show ?thesis
    by (rule grid_inv_write [OF _ assms(1) grid_frame_upd_cell [OF grid_frame_refl] ix(2,4) _ assms(3)])
      (use ix(1) g assms(4) grid_invD(3-5) [OF assms(1)] in simp_all)
qed

text \<open>Writes of a cell without the marker, which drop the entry of the position.\<close>

lemma upd_cell_drop_inv:
  assumes "grid_inv c" and "cell_index c col row = Some i" and "cell_ok (f (tc_ring_cells c ! i))"
  shows "grid_inv (overflow_drop (upd_cell i f c) col (viewport_abs c row))"
    and "grid_inv (upd_cell i f (overflow_drop c col (viewport_abs c row)))"
proof -
  note ix = cell_index_abs [OF grid_invD(1) [OF assms(1)] assms(2)] and g = grid_okD [OF grid_invD(1) [OF assms(1)]]
  let ?a = "viewport_abs c row"
  have fr: "grid_frame c (overflow_drop (upd_cell i f c) col ?a)" by simp
  have "map_of (tc_overflow (overflow_drop (upd_cell i f c) col ?a)) = (map_of (tc_overflow c))((col, ?a) := None)"
    by (simp add: map_of_overflow_drop)
  then show 1: "grid_inv (overflow_drop (upd_cell i f c) col ?a)"
    by (rule grid_inv_write [OF _ assms(1) fr ix(2,4) _ assms(3)]) (use ix(1) g in simp_all)
  have "upd_cell i f (overflow_drop c col ?a) = overflow_drop (upd_cell i f c) col ?a"
    by (simp add: upd_cell_def overflow_drop_def)
  with 1 show "grid_inv (upd_cell i f (overflow_drop c col ?a))" by simp
qed

lemma style_cell_inv:
  assumes "grid_inv c" and "cell_index c col row = Some i" and "w \<le> 2"
    and "cl_char_len (tc_ring_cells c ! i) \<noteq> 0 \<or> w = 0"
  shows "grid_inv (upd_cell i (style_cell w fg bg fl hl) c)"
proof (rule upd_cell_keep_inv [OF assms(1,2)])
  have "cell_ok (tc_ring_cells c ! i)"
    using cell_index_abs(5) [OF grid_invD(1) [OF assms(1)] assms(2)] assms(1) by (simp add: grid_invD(2))
  then show "cell_ok (style_cell w fg bg fl hl (tc_ring_cells c ! i))"
    using assms by (intro cell_ok_style) simp_all
qed simp

lemma cell_index_frame:
  assumes "grid_ok c" and "grid_ok d" and "grid_frame c d"
  shows "cell_index d col row = cell_index c col row"
  using grid_okD(3) [OF assms(1)] grid_okD(3) [OF assms(2)]
  by (simp add: cell_index_def viewport_cell_offset_def Let_def grid_frameD [OF assms(3)] grid_frame_abs [OF assms(3)])

lemma put_spacer_inv [simp]: "grid_inv c \<Longrightarrow> grid_inv (put_spacer c col row fg bg fl hl)"
  by (auto simp: put_spacer_def split: option.split intro: upd_cell_drop_inv(1) cell_ok_spacer)

lemma put_spacer_frame [simp]: "grid_frame c d \<Longrightarrow> grid_frame c (put_spacer d col row fg bg fl hl)"
  by (simp add: put_spacer_def split: option.split)

lemma blank_wide_inv [simp]:
  assumes "grid_inv c"
  shows "grid_inv (blank_wide_pair_half c col row)"
proof (cases "cell_index c col row")
  case (Some i)
  have "cell_ok (tc_ring_cells c ! i)"
    using cell_index_abs(5) [OF grid_invD(1) [OF assms] Some] assms by (simp add: grid_invD(2))
  then have "cell_ok ((set_char (tc_ring_cells c ! i) [0x20])\<lparr>cl_width := 1\<rparr>)"
    by (intro cell_ok_width cell_ok_set_char) (simp_all add: set_char_len_ne)
  with Some show ?thesis
    by (simp add: blank_wide_pair_half_def Let_def overflow_drop_when upd_cell_drop_inv(2) [OF assms] assms)
qed (simp add: blank_wide_pair_half_def assms)

lemma blank_orphaned_inv [simp]:
  "grid_inv c \<Longrightarrow> grid_inv (blank_orphaned_neighbor_before_overwrite c col row w)"
  "grid_inv c \<Longrightarrow> grid_inv (blank_orphaned_base_before_placeholder c col row)"
  by (simp_all add: blank_orphaned_neighbor_before_overwrite_def blank_orphaned_base_before_placeholder_def)

lemma blank_orphaned_frame [simp]:
  "grid_frame c d \<Longrightarrow> grid_frame c (blank_orphaned_neighbor_before_overwrite d col row w)"
  "grid_frame c d \<Longrightarrow> grid_frame c (blank_orphaned_base_before_placeholder d col row)"
  by (simp_all add: blank_orphaned_neighbor_before_overwrite_def blank_orphaned_base_before_placeholder_def)

text \<open>Blanking a half never adds an overflow entry.\<close>

lemma blank_wide_entries:
  "map_of (tc_overflow (blank_wide_pair_half c col row)) k = Some s \<Longrightarrow> map_of (tc_overflow c) k = Some s"
  by (auto simp: blank_wide_pair_half_def Let_def overflow_drop_when map_of_overflow_drop
      split: option.splits if_splits)

lemma blank_orphaned_entries:
  "map_of (tc_overflow (blank_orphaned_neighbor_before_overwrite c col row w)) k = Some s \<Longrightarrow>
     map_of (tc_overflow c) k = Some s"
  by (auto simp: blank_orphaned_neighbor_before_overwrite_def split: if_splits dest: blank_wide_entries)

end
