(* ===== verification/RingFacts.thy ===== *)
theory RingFacts
  imports GridInv
begin

text \<open>
  The operations that move whole rows, on the list of viewport rows: rotating the ring by a blank
  row, saving and restoring rows, and the region scroll built from them; with the preservation of
  the grid invariant by every row operation.
\<close>

subsection \<open>The invariant row by row\<close>

definition row_fine :: "row_view \<Rightarrow> bool" where
  "row_fine v \<longleftrightarrow> (\<forall>cl \<in> set (fst v). cell_ok cl)
     \<and> (\<forall>k s. snd (snd v) k = Some s \<longrightarrow>
          k < length (fst v) \<and> is_overflow (fst v ! k) \<and> grapheme_ok s \<and> 16 < length s)"

lemma row_fine_strip: "row_fine v \<Longrightarrow> row_fine (strip_overflow v)"
  by (simp add: row_fine_def strip_overflow_def)

lemma row_fine_blank [simp]: "row_fine (blank_row c)"
  by (simp add: row_fine_def blank_row_def)

lemma arow_cells:
  assumes "grid_ok c" and "a < tc_rows c"
  shows "length (fst (arow c a)) = tc_cols c"
    and "k < tc_cols c \<Longrightarrow> fst (arow c a) ! k = tc_ring_cells c ! (a * tc_cols c + k)"
  using block_end_le [OF assms(2), of "tc_cols c"] assms(1)
  by (simp_all add: arow_def length_slice nth_slice grid_okD)

lemma grid_inv_arows:
  assumes "grid_ok c"
  shows "grid_inv c \<longleftrightarrow> (\<forall>a < tc_rows c. row_fine (arow c a))"
proof
  assume inv: "grid_inv c"
  show "\<forall>a < tc_rows c. row_fine (arow c a)"
  proof (intro allI impI)
    fix a assume a: "a < tc_rows c"
    have "set (fst (arow c a)) \<subseteq> set (tc_ring_cells c)"
      unfolding arow_def slice_def by (auto dest: in_set_takeD in_set_dropD)
    then have "\<forall>cl \<in> set (fst (arow c a)). cell_ok cl" using inv by (auto simp: grid_inv_def cells_fine_def)
    moreover have "k < length (fst (arow c a)) \<and> is_overflow (fst (arow c a) ! k) \<and> grapheme_ok s \<and> 16 < length s"
      if "snd (snd (arow c a)) k = Some s" for k s
    proof -
      have "map_of (tc_overflow c) (k, a) = Some s" using that by (simp add: arow_def)
      with grid_invD(3-5) [OF inv this] overflow_range_Some [OF assms this] arow_cells [OF assms a]
      show ?thesis by simp
    qed
    ultimately show "row_fine (arow c a)" by (simp add: row_fine_def)
  qed
next
  assume rows: "\<forall>a < tc_rows c. row_fine (arow c a)"
  have "cells_fine c"
    unfolding cells_fine_def
  proof
    fix cl assume "cl \<in> set (tc_ring_cells c)"
    then obtain i where i: "i < tc_rows c * tc_cols c" "cl = tc_ring_cells c ! i"
      using grid_okD(3) [OF assms] by (auto simp: in_set_conv_nth)
    let ?a = "i div tc_cols c" and ?k = "i mod tc_cols c"
    have a: "?a < tc_rows c" "?k < tc_cols c"
      using i(1) grid_okD(1) [OF assms] by (simp_all add: less_mult_imp_div_less)
    have "fst (arow c ?a) ! ?k = cl" using arow_cells(2) [OF assms a] i(2) by simp
    then have "cl \<in> set (fst (arow c ?a))" using arow_cells(1) [OF assms a(1)] a(2) by (metis nth_mem)
    with rows a(1) show "cell_ok cl" by (simp add: row_fine_def)
  qed
  moreover have "overflow_fine c"
    unfolding overflow_fine_def
  proof (intro allI impI)
    fix k a s assume s: "map_of (tc_overflow c) (k, a) = Some s"
    then have v: "snd (snd (arow c a)) k = Some s" by (simp add: arow_def)
    have rng: "k < tc_cols c" "a < tc_rows c" using overflow_range_Some [OF assms s] by simp_all
    then have "row_fine (arow c a)" using rows by simp
    with v have "is_overflow (fst (arow c a) ! k) \<and> grapheme_ok s \<and> 16 < length s"
      unfolding row_fine_def by blast
    then show "is_overflow (tc_ring_cells c ! (a * tc_cols c + k)) \<and> grapheme_ok s \<and> 16 < length s"
      by (simp add: arow_cells(2) [OF assms rng(2,1)])
  qed
  ultimately show "grid_inv c" using assms by (simp add: grid_inv_def)
qed

lemma grid_inv_vrows:
  assumes "grid_ok c"
  shows "grid_inv c \<longleftrightarrow> (\<forall>r < tc_rows c. row_fine (vrow c r))"
  unfolding grid_inv_arows [OF assms] vrow_def
  using abs_lt [OF assms] abs_surj [OF assms] by metis

lemma grid_inv_from_rows:
  assumes "grid_inv c" and "grid_ok c'" and "tc_rows c' = tc_rows c"
    and "\<And>r. r < tc_rows c \<Longrightarrow> row_fine (vrow c' r) \<or> (\<exists>x < tc_rows c. vrow c' r = vrow c x)"
  shows "grid_inv c'"
  using assms grid_inv_vrows [OF assms(2)] grid_inv_vrows [OF grid_invD(1) [OF assms(1)]] by metis

subsection \<open>Row operations keep the invariant\<close>

lemma overflow_clear_abs_inv [simp]: "grid_inv c \<Longrightarrow> grid_inv (overflow_clear_abs c a)"
proof -
  assume inv: "grid_inv c"
  note ok = grid_invD(1) [OF inv]
  have "tc_rows (overflow_clear_abs c a) = tc_rows c" by (simp add: overflow_clear_abs_def)
  then show ?thesis
    using inv grid_inv_arows [OF overflow_clear_abs_ok [OF ok]] grid_inv_arows [OF ok]
    by (simp add: arow_overflow_clear_abs row_fine_strip)
qed

lemma blank_abs_row_inv [simp]: "grid_inv c \<Longrightarrow> x < tc_rows c \<Longrightarrow> grid_inv (blank_abs_row c x)"
proof -
  assume inv: "grid_inv c" and x: "x < tc_rows c"
  note ok = grid_invD(1) [OF inv]
  have "tc_rows (blank_abs_row c x) = tc_rows c" by (rule grid_frameD) simp
  then show ?thesis
    using inv grid_inv_arows [OF blank_abs_row_ok [OF ok x]] grid_inv_arows [OF ok]
    by (simp add: arow_blank_abs_row ok x)
qed

lemma clear_line_inv [simp]: "grid_inv c \<Longrightarrow> grid_inv (clear_line c row)"
  by (simp add: clear_line_def abs_lt [OF grid_invD(1)])

lemma shift_rows_inv [simp]:
  assumes "grid_inv c"
  shows "grid_inv (shift_rows_up c s e n)" "grid_inv (shift_rows_down c s e n)"
proof -
  note ok = grid_invD(1) [OF assms]
  have rows: "tc_rows (shift_rows_up c s e n) = tc_rows c" "tc_rows (shift_rows_down c s e n) = tc_rows c"
    by (rule grid_frameD; simp)+
  have "grid_inv (shift_rows_up c s e n) \<and> grid_inv (shift_rows_down c s e n)"
  proof (cases "n = 0 \<or> e \<ge> tc_rows c \<or> s > e")
    case True
    with assms show ?thesis by (auto simp: shift_rows_up_def shift_rows_down_def)
  next
    case False
    let ?n = "min n (e - s + 1)"
    have ar: "0 < ?n" "s \<le> e" "e < tc_rows c" "?n \<le> e - s + 1" using False by simp_all
    note u = shift_rows_up_view [OF ok ar] and d = shift_rows_down_view [OF ok ar]
    have "grid_inv (shift_rows_up c s e ?n)"
    proof (rule grid_inv_from_rows [OF assms])
      fix r assume r: "r < tc_rows c"
      show "row_fine (vrow (shift_rows_up c s e ?n) r) \<or>
          (\<exists>x < tc_rows c. vrow (shift_rows_up c s e ?n) r = vrow c x)"
      proof (cases "s \<le> r \<and> r \<le> e \<and> e < r + ?n")
        case True
        then show ?thesis using u r by simp
      next
        case False
        then have "vrow (shift_rows_up c s e ?n) r = vrow c (if s \<le> r \<and> r \<le> e then r + ?n else r)"
          using u r by auto
        moreover have "(if s \<le> r \<and> r \<le> e then r + ?n else r) < tc_rows c" using False ar(3) r by auto
        ultimately show ?thesis by blast
      qed
    qed (use u grid_frameD(2) [of c "shift_rows_up c s e ?n"] in simp_all)
    moreover have "grid_inv (shift_rows_down c s e ?n)"
    proof (rule grid_inv_from_rows [OF assms])
      fix r assume r: "r < tc_rows c"
      show "row_fine (vrow (shift_rows_down c s e ?n) r) \<or>
          (\<exists>x < tc_rows c. vrow (shift_rows_down c s e ?n) r = vrow c x)"
      proof (cases "s \<le> r \<and> r \<le> e \<and> r < s + ?n")
        case True
        then show ?thesis using d r by simp
      next
        case False
        then have "vrow (shift_rows_down c s e ?n) r = vrow c (if s \<le> r \<and> r \<le> e then r - ?n else r)"
          using d r by auto
        moreover have "(if s \<le> r \<and> r \<le> e then r - ?n else r) < tc_rows c" using r by auto
        ultimately show ?thesis by blast
      qed
    qed (use d grid_frameD(2) [of c "shift_rows_down c s e ?n"] in simp_all)
    ultimately show ?thesis using False shift_clamp [of c s e n] by simp
  qed
  then show "grid_inv (shift_rows_up c s e n)" "grid_inv (shift_rows_down c s e n)" by simp_all
qed

text \<open>Rewriting cells where no overflow entry survives.\<close>

lemma grid_inv_shrink:
  assumes inv: "grid_inv c" and fr: "grid_frame c c'"
    and len: "length (tc_ring_cells c') = length (tc_ring_cells c)"
      "length (tc_ring_wrapped c') = length (tc_ring_wrapped c)" "length (tc_dirty c') = length (tc_dirty c)"
    and agr: "ridx_agrees (tc_overflow c') (tc_overflow_ridx c')"
    and cells: "\<forall>cl \<in> set (tc_ring_cells c'). cell_ok cl"
    and ovf: "\<And>k a s. map_of (tc_overflow c') (k, a) = Some s \<Longrightarrow> k < tc_cols c \<Longrightarrow> a < tc_rows c \<Longrightarrow>
      map_of (tc_overflow c) (k, a) = Some s
      \<and> tc_ring_cells c' ! (a * tc_cols c + k) = tc_ring_cells c ! (a * tc_cols c + k)"
    and sub: "\<And>k a. map_of (tc_overflow c') (k, a) \<noteq> None \<Longrightarrow> map_of (tc_overflow c) (k, a) \<noteq> None"
  shows "grid_inv c'"
proof -
  note ok = grid_invD(1) [OF inv]
  have rng: "map_of (tc_overflow c') (k, a) \<noteq> None \<Longrightarrow> k < tc_cols c \<and> a < tc_rows c" for k a
    using overflow_range [OF ok] sub by blast
  have "grid_ok c'" by (rule grid_okI [OF ok fr len agr rng])
  moreover have "overflow_fine c'"
    unfolding overflow_fine_def
  proof (intro allI impI)
    fix k a s assume s: "map_of (tc_overflow c') (k, a) = Some s"
    with rng [of k a] ovf [OF s] grid_invD(3-5) [OF inv, of k a s]
    show "is_overflow (tc_ring_cells c' ! (a * tc_cols c' + k)) \<and> grapheme_ok s \<and> 16 < length s"
      by (simp add: grid_frameD(1) [OF fr])
  qed
  ultimately show ?thesis using cells by (simp add: grid_inv_def cells_fine_def)
qed

subsection \<open>Pushing a blank row\<close>

text \<open>\<open>scroll_frame c c'\<close>: only the grid, the scrollback with its tables and counters, and the
  scroll event differ.\<close>

definition outside_scroll :: "core \<Rightarrow> core" where
  "outside_scroll c =
     c\<lparr>tc_ring_cells := [], tc_ring_wrapped := [], tc_overflow := [], tc_overflow_ridx := [], tc_dirty := [],
       tc_ring_head := 0, tc_scrollback_slim := [], tc_scrollback_wrapped := [],
       tc_scrollback_evicted_total := 0, tc_virtual_scrollback_len := 0,
       tc_styles := style_table_new, tc_chars := char_table_new, tc_scroll_event := None\<rparr>"

definition scroll_frame :: "core \<Rightarrow> core \<Rightarrow> bool" where
  "scroll_frame c c' \<longleftrightarrow> outside_scroll c' = outside_scroll c"

lemma scroll_frame_refl [simp]: "scroll_frame c c"
  by (simp add: scroll_frame_def)

lemma scroll_frame_trans: "scroll_frame c d \<Longrightarrow> scroll_frame d e \<Longrightarrow> scroll_frame c e"
  by (simp add: scroll_frame_def)

lemma scroll_frame_grid: "grid_frame c d \<Longrightarrow> scroll_frame c d"
  by (auto simp: grid_frame_def scroll_frame_def outside_scroll_def)

lemma scroll_frame_grid_step: "grid_frame d e \<Longrightarrow> scroll_frame c d \<Longrightarrow> scroll_frame c e"
  using scroll_frame_grid scroll_frame_trans by blast

lemma scroll_frame_upds [simp]:
  "scroll_frame c (d\<lparr>tc_ring_head := x1\<rparr>) = scroll_frame c d"
  "scroll_frame c (d\<lparr>tc_ring_cells := x2\<rparr>) = scroll_frame c d"
  "scroll_frame c (d\<lparr>tc_ring_wrapped := x3\<rparr>) = scroll_frame c d"
  "scroll_frame c (d\<lparr>tc_overflow := x4\<rparr>) = scroll_frame c d"
  "scroll_frame c (d\<lparr>tc_overflow_ridx := x5\<rparr>) = scroll_frame c d"
  "scroll_frame c (d\<lparr>tc_dirty := x6\<rparr>) = scroll_frame c d"
  "scroll_frame c (d\<lparr>tc_scrollback_slim := x7\<rparr>) = scroll_frame c d"
  "scroll_frame c (d\<lparr>tc_scrollback_wrapped := x8\<rparr>) = scroll_frame c d"
  "scroll_frame c (d\<lparr>tc_scrollback_evicted_total := x9\<rparr>) = scroll_frame c d"
  "scroll_frame c (d\<lparr>tc_virtual_scrollback_len := x10\<rparr>) = scroll_frame c d"
  "scroll_frame c (d\<lparr>tc_styles := x11\<rparr>) = scroll_frame c d"
  "scroll_frame c (d\<lparr>tc_chars := x12\<rparr>) = scroll_frame c d"
  "scroll_frame c (d\<lparr>tc_scroll_event := x13\<rparr>) = scroll_frame c d"
  by (simp_all add: scroll_frame_def outside_scroll_def)

lemma scroll_frame_cong: "scroll_frame c c' \<Longrightarrow> (\<And>x. f (outside_scroll x) = f x) \<Longrightarrow> f c' = f c"
  unfolding scroll_frame_def by metis

lemma scroll_frameD:
  assumes "scroll_frame c c'"
  shows "tc_cols c' = tc_cols c" "tc_rows c' = tc_rows c" "tc_cursor c' = tc_cursor c"
    "tc_scrollback_capacity c' = tc_scrollback_capacity c" "tc_scrollback_bypass c' = tc_scrollback_bypass c"
    "tc_modes c' = tc_modes c" "tc_scroll_region_top c' = tc_scroll_region_top c"
    "tc_scroll_region_bottom c' = tc_scroll_region_bottom c" "tc_wrap_pending c' = tc_wrap_pending c"
    "tc_last_write c' = tc_last_write c" "tc_active_hyperlink_id c' = tc_active_hyperlink_id c"
    "tc_scroll_region_scrollback_enabled c' = tc_scroll_region_scrollback_enabled c"
    "tc_grapheme_buffer c' = tc_grapheme_buffer c"
  by (rule scroll_frame_cong [OF assms], simp add: outside_scroll_def)+

text \<open>Releasing rows touches the intern tables only.\<close>

definition tables_frame :: "core \<Rightarrow> core \<Rightarrow> bool" where
  "tables_frame c c' \<longleftrightarrow> (\<exists>st ch. c' = c\<lparr>tc_styles := st, tc_chars := ch\<rparr>)"

lemma tables_frame_release: "tables_frame c (release_slim_row c row)"
proof -
  have step: "tables_frame c (release_slim_cell d s)" if t: "tables_frame c d" for d s
  proof -
    obtain st ch where "d = c\<lparr>tc_styles := st, tc_chars := ch\<rparr>" using t unfolding tables_frame_def by blast
    then have "release_slim_cell d s = c\<lparr>tc_styles := tc_styles (release_slim_cell d s),
        tc_chars := tc_chars (release_slim_cell d s)\<rparr>"
      by (simp add: release_slim_cell_def Let_def)
    then show ?thesis unfolding tables_frame_def by blast
  qed
  have "tables_frame c d \<Longrightarrow> tables_frame c (foldl release_slim_cell d xs)" for d xs
    by (induction xs arbitrary: d) (simp_all add: step)
  moreover have "c = c\<lparr>tc_styles := tc_styles c, tc_chars := tc_chars c\<rparr>" by simp
  then have "tables_frame c c" unfolding tables_frame_def by blast
  ultimately show ?thesis by (simp add: release_slim_row_def)
qed

lemma release_slim_row_fields [simp]:
  "tc_cols (release_slim_row c row) = tc_cols c" "tc_rows (release_slim_row c row) = tc_rows c"
  "tc_ring_cells (release_slim_row c row) = tc_ring_cells c"
  "tc_ring_wrapped (release_slim_row c row) = tc_ring_wrapped c"
  "tc_ring_head (release_slim_row c row) = tc_ring_head c" "tc_dirty (release_slim_row c row) = tc_dirty c"
  "tc_overflow (release_slim_row c row) = tc_overflow c"
  "tc_overflow_ridx (release_slim_row c row) = tc_overflow_ridx c"
  "tc_scrollback_slim (release_slim_row c row) = tc_scrollback_slim c"
  "tc_scrollback_wrapped (release_slim_row c row) = tc_scrollback_wrapped c"
  "tc_scrollback_evicted_total (release_slim_row c row) = tc_scrollback_evicted_total c"
  "tc_virtual_scrollback_len (release_slim_row c row) = tc_virtual_scrollback_len c"
  "tc_scrollback_capacity (release_slim_row c row) = tc_scrollback_capacity c"
  using tables_frame_release [of c row] by (auto simp: tables_frame_def)

lemma scroll_frame_release [simp]: "scroll_frame c (release_slim_row d row) = scroll_frame c d"
  using tables_frame_release [of d row] by (auto simp: tables_frame_def)

lemma scroll_frame_overflow_clear [simp]:
  "scroll_frame c (overflow_clear_abs_if d a) = scroll_frame c d"
  by (simp add: overflow_clear_abs_if_def overflow_clear_abs_def)

lemma evict_top_row_frame [simp]: "scroll_frame c (evict_top_row c)"
  by (auto simp: evict_top_row_def Let_def split: prod.split list.split)

text \<open>What eviction leaves in the grid: everything but the overflow entries of the top row.\<close>

lemma overflow_clear_if_fields [simp]:
  "tc_cols (overflow_clear_abs_if c a) = tc_cols c" "tc_rows (overflow_clear_abs_if c a) = tc_rows c"
  "tc_ring_cells (overflow_clear_abs_if c a) = tc_ring_cells c"
  "tc_ring_wrapped (overflow_clear_abs_if c a) = tc_ring_wrapped c"
  "tc_ring_head (overflow_clear_abs_if c a) = tc_ring_head c" "tc_dirty (overflow_clear_abs_if c a) = tc_dirty c"
  "tc_scrollback_capacity (overflow_clear_abs_if c a) = tc_scrollback_capacity c"
  by (simp_all add: overflow_clear_abs_if_def overflow_clear_abs_def)

lemma overflow_clear_if_tables [simp]:
  "tc_overflow (overflow_clear_abs_if (c\<lparr>tc_styles := st, tc_chars := ch\<rparr>) a) = tc_overflow (overflow_clear_abs_if c a)"
  "tc_overflow_ridx (overflow_clear_abs_if (c\<lparr>tc_styles := st, tc_chars := ch\<rparr>) a) =
     tc_overflow_ridx (overflow_clear_abs_if c a)"
  by (simp_all add: overflow_clear_abs_if_def overflow_clear_abs_def)

lemma evict_top_row_grid:
  "tc_cols (evict_top_row c) = tc_cols c" "tc_rows (evict_top_row c) = tc_rows c"
  "tc_ring_cells (evict_top_row c) = tc_ring_cells c" "tc_ring_wrapped (evict_top_row c) = tc_ring_wrapped c"
  "tc_ring_head (evict_top_row c) = tc_ring_head c" "tc_dirty (evict_top_row c) = tc_dirty c"
  "tc_overflow (evict_top_row c) = tc_overflow (overflow_clear_abs_if c (tc_ring_head c))"
  "tc_overflow_ridx (evict_top_row c) = tc_overflow_ridx (overflow_clear_abs_if c (tc_ring_head c))"
  by (simp_all add: evict_top_row_def Let_def split_def split: list.split)

lemma grid_ok_congI:
  assumes "grid_ok c" and "tc_cols d = tc_cols c" "tc_rows d = tc_rows c" "tc_ring_head d < tc_rows c"
    and "length (tc_ring_cells d) = length (tc_ring_cells c)"
    and "length (tc_ring_wrapped d) = length (tc_ring_wrapped c)" "length (tc_dirty d) = length (tc_dirty c)"
    and "ridx_agrees (tc_overflow d) (tc_overflow_ridx d)"
    and "set (tc_overflow d) \<subseteq> set (tc_overflow c)"
  shows "grid_ok d"
  using assms by (auto simp: grid_ok_def list_all_iff)

lemma overflow_clear_if_facts:
  assumes "ridx_agrees (tc_overflow c) (tc_overflow_ridx c)"
  shows "ridx_agrees (tc_overflow (overflow_clear_abs_if c a)) (tc_overflow_ridx (overflow_clear_abs_if c a))"
    and "set (tc_overflow (overflow_clear_abs_if c a)) \<subseteq> set (tc_overflow c)"
    and "map_of (tc_overflow (overflow_clear_abs_if c a)) (k, b) = (if b = a then None else map_of (tc_overflow c) (k, b))"
proof -
  show "ridx_agrees (tc_overflow (overflow_clear_abs_if c a)) (tc_overflow_ridx (overflow_clear_abs_if c a))"
    using assms ridx_agrees_clear_row [OF assms, of a]
    by (cases "tc_overflow c = []") (simp_all add: overflow_clear_abs_if_def overflow_clear_abs_def)
  show "set (tc_overflow (overflow_clear_abs_if c a)) \<subseteq> set (tc_overflow c)"
    by (auto simp: overflow_clear_abs_if_def overflow_clear_abs_def overflow_clear_row_def)
  show "map_of (tc_overflow (overflow_clear_abs_if c a)) (k, b) = (if b = a then None else map_of (tc_overflow c) (k, b))"
    by (simp add: overflow_clear_abs_if_def overflow_clear_abs_def map_of_clear_row)
qed

definition pushed_row :: "core \<Rightarrow> packed_color \<Rightarrow> row_view" where
  "pushed_row c bg = (replicate (tc_cols c) (cell_empty\<lparr>cl_bg := bg\<rparr>), False, Map.empty)"

lemma pushed_cell: "(if bg = color_default then cell_empty else cell_empty\<lparr>cl_bg := bg\<rparr>) = cell_empty\<lparr>cl_bg := bg\<rparr>"
  by (simp add: cell_empty_def)

lemma row_fine_pushed [simp]: "row_fine (pushed_row c bg)"
proof -
  have "cell_ok (cell_empty\<lparr>cl_bg := bg\<rparr>)"
    using cell_ok_empty by (simp add: cell_ok_def stored_cell_def char_data_ok_def)
  then show ?thesis by (simp add: row_fine_def pushed_row_def)
qed

lemma ring_push_blank_step:
  assumes ok: "grid_ok c"
  defines "h \<equiv> tc_ring_head c"
  shows "ring_push_blank c bg = overflow_clear_abs_if
    ((evict_top_row c)\<lparr>tc_ring_head := (h + 1) mod tc_rows c,
       tc_ring_cells := splice (h * tc_cols c) (replicate (tc_cols c) (cell_empty\<lparr>cl_bg := bg\<rparr>)) (tc_ring_cells c),
       tc_ring_wrapped := (tc_ring_wrapped c)[h := False]\<rparr>) h"
proof -
  note g = grid_okD [OF ok]
  have "h < tc_rows c" using g by (simp add: h_def)
  then have nb: "((h + 1) mod tc_rows c + tc_rows c - 1) mod tc_rows c = h" by (auto simp: mod_if)
  have "h * tc_cols c + tc_cols c \<le> length (tc_ring_cells c)"
    using block_end_le [OF \<open>h < tc_rows c\<close>, of "tc_cols c"] g by simp
  with g nb show ?thesis
    by (simp add: ring_push_blank_def Let_def evict_top_row_grid fill_cells_def pushed_cell h_def [symmetric])
qed

lemma ring_push_blank_view:
  assumes ok: "grid_ok c"
  shows "grid_ok (ring_push_blank c bg)" and "scroll_frame c (ring_push_blank c bg)"
    and "viewport (ring_push_blank c bg) = tl (viewport c) @ [pushed_row c bg]"
proof -
  let ?h = "tc_ring_head c" and ?n = "tc_rows c" and ?w = "tc_cols c"
  let ?d = "ring_push_blank c bg"
  note st = ring_push_blank_step [OF ok, of bg] and g = grid_okD [OF ok] and e = evict_top_row_grid [of c]
  have h: "?h < ?n" by (rule g)
  have e1: "?h * ?w + ?w \<le> length (tc_ring_cells c)" using block_end_le [OF h, of ?w] g by simp
  have fields: "tc_cols ?d = ?w" "tc_rows ?d = ?n" "tc_ring_head ?d = (?h + 1) mod ?n"
    "tc_ring_cells ?d = splice (?h * ?w) (replicate ?w (cell_empty\<lparr>cl_bg := bg\<rparr>)) (tc_ring_cells c)"
    "tc_ring_wrapped ?d = (tc_ring_wrapped c)[?h := False]" "tc_dirty ?d = tc_dirty c"
    by (simp_all add: st e)
  note cl = overflow_clear_if_facts [OF g(6), of ?h]
  let ?x = "(evict_top_row c)\<lparr>tc_ring_head := (?h + 1) mod ?n,
       tc_ring_cells := splice (?h * ?w) (replicate ?w (cell_empty\<lparr>cl_bg := bg\<rparr>)) (tc_ring_cells c),
       tc_ring_wrapped := (tc_ring_wrapped c)[?h := False]\<rparr>"
  have x: "tc_overflow ?x = tc_overflow (overflow_clear_abs_if c ?h)"
    "tc_overflow_ridx ?x = tc_overflow_ridx (overflow_clear_abs_if c ?h)" by (simp_all add: e)
  have agr: "ridx_agrees (tc_overflow ?x) (tc_overflow_ridx ?x)" using cl(1) by (simp only: x)
  note cl2 = overflow_clear_if_facts [OF agr, of ?h]
  have ovd: "tc_overflow ?d = tc_overflow (overflow_clear_abs_if ?x ?h)" by (simp only: st)
  have sub: "set (tc_overflow ?d) \<subseteq> set (tc_overflow c)"
    using subset_trans [OF cl2(2)] cl(2) by (simp only: ovd x)
  have m: "map_of (tc_overflow ?d) (k, b) = (if b = ?h then None else map_of (tc_overflow c) (k, b))" for k b
    by (simp only: ovd cl2(3) x cl(3)) simp
  have agr2: "ridx_agrees (tc_overflow ?d) (tc_overflow_ridx ?d)" unfolding st by (rule cl2(1))
  show ok': "grid_ok ?d"
    by (rule grid_ok_congI [OF ok fields(1,2) _ _ _ _ agr2 sub])
      (use fields(3-6) e1 h in \<open>simp_all add: length_splice\<close>)
  show "scroll_frame c ?d" by (simp add: st)
  have ar: "arow ?d a = (if a = ?h then pushed_row c bg else arow c a)" if "a < ?n" for a
    using slice_splice [of "tc_ring_cells c" ?n ?w a ?h "replicate ?w (cell_empty\<lparr>cl_bg := bg\<rparr>)"] that h g
    by (auto simp: arow_def fields m pushed_row_def)
  have v: "vrow ?d r = (if r = ?n - 1 then pushed_row c bg else vrow c (r + 1))" if "r < ?n" for r
  proof -
    have a: "viewport_abs ?d r = (?h + (r + 1)) mod ?n"
      using g by (simp add: viewport_abs_def fields mod_add_left_eq)
    show ?thesis
    proof (cases "r = ?n - 1")
      case True
      then have "viewport_abs ?d r = ?h" using a h by simp
      with True h show ?thesis by (simp add: vrow_def ar)
    next
      case False
      then have "viewport_abs ?d r = viewport_abs c (r + 1)" using a g by (simp add: viewport_abs_def)
      moreover have "viewport_abs c (r + 1) \<noteq> ?h"
        using abs_inj [OF ok, of "r + 1" 0] that False h by (simp add: viewport_abs_def)
      ultimately show ?thesis using False abs_lt [OF ok, of "r + 1"] by (simp add: vrow_def ar)
    qed
  qed
  show "viewport ?d = tl (viewport c) @ [pushed_row c bg]"
  proof (rule nth_equalityI)
    show "length (viewport ?d) = length (tl (viewport c) @ [pushed_row c bg])"
      using g by (simp add: viewport_def fields)
    fix i assume "i < length (viewport ?d)"
    then show "viewport ?d ! i = (tl (viewport c) @ [pushed_row c bg]) ! i"
      using g by (auto simp: viewport_def fields v nth_append nth_tl)
  qed
qed

lemma viewport_nth: "r < tc_rows c \<Longrightarrow> viewport c ! r = vrow c r" "length (viewport c) = tc_rows c"
  by (simp_all add: viewport_def)

lemma grid_inv_viewport: "grid_ok c \<Longrightarrow> grid_inv c \<longleftrightarrow> (\<forall>v \<in> set (viewport c). row_fine v)"
  by (auto simp: grid_inv_vrows viewport_def)

lemma ring_push_blank_inv: "grid_inv c \<Longrightarrow> grid_inv (ring_push_blank c bg)"
proof -
  assume inv: "grid_inv c"
  note v = ring_push_blank_view [OF grid_invD(1) [OF inv], of bg]
  have "set (tl (viewport c)) \<subseteq> set (viewport c)" by (cases "viewport c") auto
  then show ?thesis
    using inv grid_inv_viewport [OF v(1)] grid_inv_viewport [OF grid_invD(1) [OF inv]] by (auto simp: v(3))
qed

text \<open>Several rows.\<close>

lemma ring_push_many:
  assumes "grid_ok c" and "n \<le> tc_rows c"
  shows "grid_ok (((\<lambda>d. ring_push_blank d bg) ^^ n) c)
    \<and> scroll_frame c (((\<lambda>d. ring_push_blank d bg) ^^ n) c)
    \<and> viewport (((\<lambda>d. ring_push_blank d bg) ^^ n) c) = drop n (viewport c) @ replicate n (pushed_row c bg)"
  using assms(2)
proof (induction n)
  case (Suc n)
  let ?d = "((\<lambda>d. ring_push_blank d bg) ^^ n) c"
  have IH: "grid_ok ?d" "scroll_frame c ?d" "viewport ?d = drop n (viewport c) @ replicate n (pushed_row c bg)"
    using Suc by simp_all
  have "pushed_row ?d bg = pushed_row c bg" using IH(2) by (simp add: pushed_row_def scroll_frameD)
  moreover have "drop n (viewport c) \<noteq> []" using Suc.prems by (simp add: viewport_nth)
  ultimately show ?case
    using ring_push_blank_view [OF IH(1), of bg] IH scroll_frame_trans [OF IH(2)]
    by (simp add: drop_Suc tl_drop [symmetric] replicate_append_same [symmetric] del: replicate_append_same)
qed (use assms in simp)

lemma ring_push_many_inv: "grid_inv c \<Longrightarrow> grid_inv (((\<lambda>d. ring_push_blank d bg) ^^ n) c)"
  by (induction n) (simp_all add: ring_push_blank_inv)

subsection \<open>Saving and restoring rows\<close>

lemma map_of_collect:
  "map_of (concat (map (\<lambda>x. case f x of Some s \<Rightarrow> [(x, s)] | None \<Rightarrow> []) xs)) k =
     (if k \<in> set xs then f k else None)"
  by (induction xs) (auto split: option.split)

lemma keys_collect:
  "map fst (concat (map (\<lambda>x. case f x of Some s \<Rightarrow> [(x, s)] | None \<Rightarrow> []) xs)) = filter (\<lambda>x. f x \<noteq> None) xs"
  by (induction xs) (auto split: option.split)

definition saved_view :: "saved_row \<Rightarrow> row_view" where
  "saved_view sv = (fst sv, fst (snd sv), map_of (snd (snd sv)))"

definition saved_fine :: "nat \<Rightarrow> saved_row \<Rightarrow> bool" where
  "saved_fine w sv \<longleftrightarrow> length (fst sv) = w \<and> distinct (map fst (snd (snd sv)))
     \<and> (\<forall>k \<in> set (map fst (snd (snd sv))). k < w)"

lemma save_row_view:
  assumes "grid_ok c"
  shows "saved_view (save_row c row) = vrow c row" and "saved_fine (tc_cols c) (save_row c row)"
proof -
  let ?a = "viewport_abs c row" and ?es = "snd (snd (save_row c row))"
  have es: "?es = concat (map (\<lambda>col. case map_of (tc_overflow c) (col, ?a) of Some s \<Rightarrow> [(col, s)] | None \<Rightarrow> [])
      (ridx_cols (tc_overflow_ridx c) ?a))"
    by (simp add: save_row_def Let_def)
  note D = ridx_agreesD(4,5) [OF grid_okD(6) [OF assms], of ?a]
  have "map_of ?es = (\<lambda>k. map_of (tc_overflow c) (k, ?a))"
    by (rule ext) (auto simp: es map_of_collect D(2))
  then show "saved_view (save_row c row) = vrow c row"
    by (simp add: saved_view_def vrow_def arow_def) (simp add: save_row_def Let_def)
  have "length (fst (save_row c row)) = tc_cols c"
    using arow_cells(1) [OF assms abs_lt [OF assms], of row] by (simp add: save_row_def Let_def arow_def)
  moreover have "k < tc_cols c" if "k \<in> set (map fst ?es)" for k
    using that overflow_range [OF assms, of k ?a] by (simp add: es keys_collect)
  moreover have "distinct (map fst ?es)" by (simp add: es keys_collect D(1))
  ultimately show "saved_fine (tc_cols c) (save_row c row)" by (simp add: saved_fine_def)
qed

definition put_entries :: "nat \<Rightarrow> overflow_table \<Rightarrow> (nat \<times> rstring) list \<Rightarrow> overflow_table" where
  "put_entries a t es = foldl (\<lambda>t (col, s). AList.update (col, a) s t) t es"

lemma put_entries_Cons: "put_entries a t ((k, s) # es) = put_entries a (AList.update (k, a) s t) es"
  by (simp add: put_entries_def)

lemma put_entries_map:
  "distinct (map fst es) \<Longrightarrow> map_of (put_entries a t es) (k, b) =
     (if b = a \<and> map_of es k \<noteq> None then map_of es k else map_of t (k, b))"
proof (induction es arbitrary: t)
  case (Cons e es)
  obtain x s where e: "e = (x, s)" by force
  have "map_of es x = None" using Cons.prems by (simp add: e map_of_eq_None_iff)
  with Cons show ?case by (auto simp: e put_entries_Cons map_of_update)
qed (simp add: put_entries_def)

lemma put_entries_distinct: "distinct (map fst t) \<Longrightarrow> distinct (map fst (put_entries a t es))"
  by (induction es arbitrary: t) (auto simp: put_entries_Cons distinct_update put_entries_def [of _ _ "[]"])

lemma restore_row_view:
  assumes ok: "grid_ok c" and row: "row < tc_rows c" and sv: "saved_fine (tc_cols c) sv"
  defines "d \<equiv> restore_row c row sv"
  shows "grid_frame c d" and "grid_ok d"
    and "r < tc_rows c \<Longrightarrow> vrow d r = (if r = row then saved_view sv else vrow c r)"
proof -
  obtain cells w es where dsv: "sv = (cells, w, es)" by (metis surj_pair)
  have len: "length cells = tc_cols c" and es: "distinct (map fst es)" "\<forall>k \<in> set (map fst es). k < tc_cols c"
    using sv by (simp_all add: saved_fine_def dsv)
  let ?a = "viewport_abs c row" and ?w = "tc_cols c"
  note g = grid_okD [OF ok] and agr = grid_okD(6) [OF ok]
  have a: "?a < tc_rows c" by (rule abs_lt [OF ok])
  have e1: "?a * ?w + length cells \<le> length (tc_ring_cells c)" using block_end_le [OF a, of ?w] g len by simp
  have ov: "tc_overflow d = put_entries ?a (overflow_clear_row (tc_overflow c) ?a) es"
    by (auto simp: d_def dsv restore_row_def Let_def overflow_clear_abs_def put_entries_def viewport_abs_def)
  have ri: "tc_overflow_ridx d = (if es = [] then AList.delete ?a (tc_overflow_ridx c)
      else AList.update ?a (map fst es) (AList.delete ?a (tc_overflow_ridx c)))"
    by (auto simp: d_def dsv restore_row_def Let_def overflow_clear_abs_def overflow_ridx_clear_row_def)
  have cells: "tc_ring_cells d = splice (?a * ?w) cells (tc_ring_cells c)"
    "tc_ring_wrapped d = (tc_ring_wrapped c)[?a := w]" "tc_dirty d = tc_dirty c"
    by (simp_all add: d_def dsv restore_row_def Let_def overflow_clear_abs_def)
  show fr: "grid_frame c d"
    by (simp add: d_def dsv restore_row_def Let_def)
  have m: "map_of (tc_overflow d) (k, b) = (if b = ?a then map_of es k else map_of (tc_overflow c) (k, b))" for k b
    by (auto simp: ov put_entries_map [OF es(1)] map_of_clear_row)
  have mem: "map_of es k \<noteq> None \<longleftrightarrow> k \<in> set (map fst es)" for k by (simp add: map_of_eq_None_iff)
  then have keys: "{k. map_of es k \<noteq> None} = set (map fst es)" by auto
  note D = ridx_agreesD [OF agr]
  have agr2: "ridx_agrees (tc_overflow d) (tc_overflow_ridx d)"
  proof (rule ridx_agreesI)
    show "distinct (map fst (tc_overflow d))" unfolding ov by (rule put_entries_distinct) (simp add: D)
    show "distinct (map fst (tc_overflow_ridx d))" by (simp add: ri distinct_update distinct_delete D)
    show "no_empty_row (tc_overflow_ridx d)" using D by (simp add: ri)
    show "distinct (ridx_cols (tc_overflow_ridx d) b) \<and>
        set (ridx_cols (tc_overflow_ridx d) b) = {k. map_of (tc_overflow d) (k, b) \<noteq> None}" for b
    proof (cases "b = ?a")
      case True
      then show ?thesis using keys es(1) by (cases "es = []") (simp_all add: ri m)
    next
      case False
      then show ?thesis using D(4,5) [of b] by (simp add: ri m)
    qed
  qed
  show ok': "grid_ok d"
  proof (rule grid_okI [OF ok fr _ _ _ agr2])
    show "length (tc_ring_cells d) = length (tc_ring_cells c)" using e1 by (simp add: cells length_splice)
    show "map_of (tc_overflow d) (k, b) \<noteq> None \<Longrightarrow> k < tc_cols c \<and> b < tc_rows c" for k b
      using a es(2) overflow_range [OF ok, of k b] mem [of k] by (cases "b = ?a") (auto simp: m)
  qed (simp_all add: cells)
  assume r: "r < tc_rows c"
  have "viewport_abs d r = viewport_abs c r" by (rule grid_frame_abs [OF fr])
  then show "vrow d r = (if r = row then saved_view sv else vrow c r)"
    using slice_splice [of "tc_ring_cells c" "tc_rows c" ?w "viewport_abs c r" ?a cells] g len a
      abs_lt [OF ok, of r] abs_inj [OF ok r row]
    by (auto simp: vrow_def arow_def cells m grid_frameD(1) [OF fr] saved_view_def dsv)
qed

subsection \<open>Region scroll with transcription\<close>

text \<open>Restoring a block of saved rows.\<close>

lemma restore_loop:
  assumes ok: "grid_ok d" and m: "m + length svs \<le> tc_rows d"
    and sv: "\<forall>sv \<in> set svs. saved_fine (tc_cols d) sv"
  defines "f \<equiv> \<lambda>c (row, sv). restore_row c row sv"
  shows "grid_frame d (foldl f d (zip [m..<m + length svs] svs)) \<and> grid_ok (foldl f d (zip [m..<m + length svs] svs))
    \<and> (\<forall>r < tc_rows d. vrow (foldl f d (zip [m..<m + length svs] svs)) r =
      (if m \<le> r \<and> r < m + length svs then saved_view (svs ! (r - m)) else vrow d r))"
  using m sv
proof (induction svs rule: rev_induct)
  case Nil
  with ok show ?case by auto
next
  case (snoc x svs)
  let ?e = "foldl f d (zip [m..<m + length svs] svs)"
  have IH: "grid_frame d ?e" "grid_ok ?e" "\<forall>r < tc_rows d. vrow ?e r =
      (if m \<le> r \<and> r < m + length svs then saved_view (svs ! (r - m)) else vrow d r)"
    using snoc by simp_all
  have sx: "saved_fine (tc_cols ?e) x" using snoc.prems(2) by (simp add: grid_frameD(1) [OF IH(1)])
  have lt: "m + length svs < tc_rows ?e" using snoc.prems(1) by (simp add: grid_frameD(2) [OF IH(1)])
  note rr = restore_row_view [OF IH(2) lt sx]
  have z: "zip [m..<m + length (svs @ [x])] (svs @ [x]) = zip [m..<m + length svs] svs @ [(m + length svs, x)]"
    by simp
  have "foldl f d (zip [m..<m + length (svs @ [x])] (svs @ [x])) = restore_row ?e (m + length svs) x"
    unfolding z by (simp add: f_def)
  with rr IH show ?case
    by (auto simp: grid_frameD(2) [OF IH(1)] nth_append intro: grid_frame_trans)
qed

lemma blank_row_pushed: "pushed_row c (cu_bg (tc_cursor c)) = blank_row c"
  by (simp add: pushed_row_def blank_row_def bce_cell_def)

lemma blank_row_scroll: "scroll_frame c d \<Longrightarrow> blank_row d = blank_row c"
  by (simp add: blank_row_def bce_cell_def scroll_frameD)

lemma scroll_transcribing_view:
  assumes ok: "grid_ok c" and rb: "rbottom < tc_rows c" and n: "n \<le> rbottom + 1"
  shows "grid_ok (scroll_up_region_transcribing c rbottom n)"
    and "scroll_frame c (scroll_up_region_transcribing c rbottom n)"
    and "viewport (scroll_up_region_transcribing c rbottom n) = shift_up_spec (blank_row c) 0 rbottom n (viewport c)"
proof -
  let ?n = "tc_rows c" and ?t = "rbottom + 1" and ?bg = "cu_bg (tc_cursor c)"
  let ?svs = "map (save_row c) [?t..<?n]"
  let ?c1 = "((\<lambda>c. ring_push_blank c ?bg) ^^ n) c"
  let ?c2 = "foldl (\<lambda>c (row, sv). restore_row c row sv) ?c1 (zip [?t..<?n] ?svs)"
  let ?c3 = "foldl (\<lambda>c r. blank_abs_row c (viewport_abs c r)) ?c2 [?t - n..<?t - n + n]"
  have "n \<le> ?n" using n rb by simp
  note 1 = ring_push_many [OF ok this, of ?bg]
  then have c1: "grid_ok ?c1" "scroll_frame c ?c1"
    and v1: "viewport ?c1 = drop n (viewport c) @ replicate n (blank_row c)" by (simp_all add: blank_row_pushed)
  have rows: "tc_rows ?c1 = ?n" "tc_cols ?c1 = tc_cols c" using c1(2) by (simp_all add: scroll_frameD)
  have e: "?t + length ?svs = ?n" using rb by simp
  have sv: "\<forall>sv \<in> set ?svs. saved_fine (tc_cols ?c1) sv" using save_row_view(2) [OF ok] rows by simp
  have 2: "grid_frame ?c1 ?c2 \<and> grid_ok ?c2 \<and> (\<forall>r < tc_rows ?c1. vrow ?c2 r =
      (if ?t \<le> r \<and> r < ?n then saved_view (?svs ! (r - ?t)) else vrow ?c1 r))"
    by (rule restore_loop [OF c1(1), of ?t ?svs, unfolded e, OF _ sv]) (simp add: rows)
  have v2: "vrow ?c2 r = (if ?t \<le> r then vrow c r else vrow ?c1 r)" if r: "r < ?n" for r
  proof -
    have "?t \<le> r \<Longrightarrow> saved_view (?svs ! (r - ?t)) = vrow c r"
      using r save_row_view(1) [OF ok] by (simp del: upt_Suc)
    moreover have "vrow ?c2 r = (if ?t \<le> r \<and> r < ?n then saved_view (?svs ! (r - ?t)) else vrow ?c1 r)"
      using 2 r rows(1) by metis
    ultimately show ?thesis using r by presburger
  qed
  have f2: "grid_frame ?c1 ?c2" and ok2: "grid_ok ?c2" using 2 by blast+
  have c2: "grid_ok ?c2" "tc_rows ?c2 = ?n" "blank_row ?c2 = blank_row c"
    using ok2 rows(1) grid_frameD(2) [OF f2] blank_row_frame [OF f2] blank_row_scroll [OF c1(2)] by metis+
  have 3: "grid_ok ?c3 \<and> grid_frame ?c2 ?c3 \<and> (\<forall>x < tc_rows ?c2. vrow ?c3 x =
      (if ?t - n \<le> x \<and> x < ?t - n + n then blank_row ?c2 else vrow ?c2 x))"
    by (rule blank_loop) (use c2 n rb in simp_all)
  have f3: "grid_frame ?c2 ?c3" and ok3: "grid_ok ?c3" using 3 by blast+
  have tn: "?t - n + n = Suc rbottom" using n by simp
  have eq: "scroll_up_region_transcribing c rbottom n = foldl mark_row_dirty ?c3 [0..<Suc rbottom]"
    using tn by (simp add: scroll_up_region_transcribing_def Let_def grid_okD [OF ok] del: upt_Suc)
  let ?d = "scroll_up_region_transcribing c rbottom n"
  have fr: "grid_frame ?c1 ?d"
    unfolding eq by (rule grid_frame_foldl [OF grid_frame_mark_row_dirty grid_frame_trans [OF f2 f3]])
  show "scroll_frame c ?d" using c1(2) scroll_frame_grid [OF fr] scroll_frame_trans by blast
  show ok': "grid_ok ?d" unfolding eq using mark_loop [OF ok3] by blast
  have rd: "tc_rows ?d = ?n" using fr rows by (simp add: grid_frameD)
  have v: "vrow ?d r = (if r + n < ?t then vrow c (r + n) else if r < ?t then blank_row c else vrow c r)" if r: "r < ?n" for r
  proof -
    have "vrow ?d r = vrow ?c3 r" unfolding eq using mark_loop [OF ok3] by blast
    also have "\<dots> = (if ?t - n \<le> r \<and> r < ?t then blank_row c else vrow ?c2 r)"
      using conjunct2 [OF conjunct2 [OF 3], rule_format, of r] r n unfolding c2(2,3) by auto
    also have "\<dots> = (if r + n < ?t then vrow c (r + n) else if r < ?t then blank_row c else vrow c r)"
    proof (cases "r + n < ?t")
      case True
      then have lt: "r < ?n - n" "n + r < ?n" using rb by simp_all
      have "vrow ?c1 r = viewport ?c1 ! r" using r by (simp add: viewport_nth rows)
      also have "\<dots> = vrow c (r + n)" unfolding v1 using lt by (simp add: nth_append viewport_nth add.commute)
      finally have "vrow ?c1 r = vrow c (r + n)" .
      moreover have "\<not> ?t - n \<le> r" using True by simp
      ultimately show ?thesis using True v2 [OF r] by simp
    next
      case False
      with v2 [OF r] show ?thesis by auto
    qed
    finally show ?thesis .
  qed
  show "viewport ?d = shift_up_spec (blank_row c) 0 rbottom n (viewport c)"
  proof (rule nth_equalityI)
    show "length (viewport ?d) = length (shift_up_spec (blank_row c) 0 rbottom n (viewport c))"
      using n rb by (simp add: viewport_nth rd shift_up_spec_def)
    fix i assume "i < length (viewport ?d)"
    then have i: "i < ?n" by (simp add: viewport_nth rd)
    then show "viewport ?d ! i = shift_up_spec (blank_row c) 0 rbottom n (viewport c) ! i"
      using v [OF i] n rb by (auto simp: viewport_nth rd shift_up_spec_def nth_append add.commute [of n])
  qed
qed

lemma scroll_transcribing_inv:
  assumes "grid_inv c" and "rbottom < tc_rows c" and "n \<le> rbottom + 1"
  shows "grid_inv (scroll_up_region_transcribing c rbottom n)"
proof -
  note ok = grid_invD(1) [OF assms(1)] and v = scroll_transcribing_view [OF grid_invD(1) [OF assms(1)] assms(2,3)]
  have "set (shift_up_spec (blank_row c) 0 rbottom n (viewport c)) \<subseteq> insert (blank_row c) (set (viewport c))"
    by (auto simp: shift_up_spec_def dest: in_set_takeD in_set_dropD)
  then show ?thesis
    using assms(1) by (auto simp: grid_inv_viewport [OF ok] grid_inv_viewport [OF v(1)] v(3))
qed

end
