(* ===== verification/HistoryFacts.thy ===== *)
theory HistoryFacts
  imports ScrollbackFacts RingFacts
begin

text \<open>
  The scrollback as a bounded log: pushing a blank row appends the contents of the top row to the
  history and drops the oldest row when the capacity is reached, while the contents of every other
  row stay what they were although all rows share the two intern tables.
\<close>

subsection \<open>Compressing a row\<close>

definition row_contents :: "style_table \<Rightarrow> char_table \<Rightarrow> slim_row \<Rightarrow> content list" where
  "row_contents st ch row = map (slim_content st ch) row"

definition grid_content :: "core \<Rightarrow> nat \<Rightarrow> nat \<Rightarrow> content" where
  "grid_content c a k = cell_content (tc_ring_cells c ! (a * tc_cols c + k)) (map_of (tc_overflow c) (k, a))"

text \<open>Every marked cell of the row has its string (a lost string would be stored as empty).\<close>

definition row_complete :: "core \<Rightarrow> nat \<Rightarrow> bool" where
  "row_complete c a \<longleftrightarrow> (\<forall>k < tc_cols c. is_overflow (tc_ring_cells c ! (a * tc_cols c + k)) \<longrightarrow>
     map_of (tc_overflow c) (k, a) \<noteq> None)"

lemma compress_prefix:
  assumes inv: "grid_inv c" and a: "a < tc_rows c" and full: "row_complete c a"
    and cov: "covered L (tc_styles c) (tc_chars c)"
    and room: "tables_room (n + m) (tc_styles c) (tc_chars c)" and len: "length L + n \<le> U32_MAX"
    and n: "n \<le> tc_cols c"
  shows "\<exists>row st ch. foldl (compress_cell c a) ([], tc_styles c, tc_chars c) [0..<n] = (row, st, ch)
    \<and> covered (row @ L) st ch \<and> tables_room m st ch
    \<and> row_contents st ch row = map (grid_content c a) [0..<n]
    \<and> (\<forall>s \<in> set L. slim_content st ch s = slim_content (tc_styles c) (tc_chars c) s)"
  using room len n
proof (induction n arbitrary: m)
  case 0
  with cov show ?case by (simp add: row_contents_def)
next
  case (Suc n)
  obtain row st ch where IH: "foldl (compress_cell c a) ([], tc_styles c, tc_chars c) [0..<n] = (row, st, ch)"
      "covered (row @ L) st ch" "tables_room (Suc m) st ch"
      "row_contents st ch row = map (grid_content c a) [0..<n]"
      "\<forall>s \<in> set L. slim_content st ch s = slim_content (tc_styles c) (tc_chars c) s"
    using Suc.IH [of "Suc m"] Suc.prems by auto
  let ?cl = "tc_ring_cells c ! (a * tc_cols c + n)"
  let ?ovf = "if is_overflow ?cl then map_of (tc_overflow c) (n, a) else None"
  have lt: "a * tc_cols c + n < length (tc_ring_cells c)"
    using block_index_lt [OF a, of n "tc_cols c"] Suc.prems(3) by (simp add: grid_okD(3) [OF grid_invD(1) [OF inv]])
  have "n < tc_cols c" using Suc.prems(3) by simp
  with full have present: "is_overflow ?cl \<Longrightarrow> map_of (tc_overflow c) (n, a) \<noteq> None"
    unfolding row_complete_def by blast
  have sto: "cell_storable ?cl ?ovf"
    using grid_invD(2) [OF inv lt] grid_invD(5) [OF inv] present
    by (auto simp: cell_storable_def cell_ok_def split: option.split)
  obtain slim st' ch' where cs: "cell_to_slim ?cl ?ovf st ch = (slim, st', ch')" by (metis surj_pair)
  have lrow: "length row = n" using arg_cong [OF IH(4), of length] by (simp add: row_contents_def)
  then have ll: "length (row @ L) < U32_MAX" using Suc.prems(2) by simp
  note step = compress_cell_step [OF IH(2,3) ll sto cs]
  have "foldl (compress_cell c a) ([], tc_styles c, tc_chars c) [0..<Suc n] = (row @ [slim], st', ch')"
    using IH(1) cs by (simp add: compress_cell_def)
  moreover have "covered ((row @ [slim]) @ L) st' ch'"
    using step(1) by (subst covered_perm [of _ "slim # row @ L"]) simp_all
  moreover have "row_contents st' ch' (row @ [slim]) = map (grid_content c a) [0..<Suc n]"
  proof -
    have "row_contents st' ch' row = row_contents st ch row"
      unfolding row_contents_def by (rule map_cong) (use step(4) in auto)
    moreover have "slim_content st' ch' slim = grid_content c a n"
      unfolding step(3) grid_content_def cell_content_def by simp
    moreover have "row_contents st' ch' (row @ [slim]) = row_contents st' ch' row @ [slim_content st' ch' slim]"
      by (simp add: row_contents_def)
    ultimately show ?thesis using IH(4) by simp
  qed
  moreover have "\<forall>s \<in> set L. slim_content st' ch' s = slim_content (tc_styles c) (tc_chars c) s"
    using step(4) IH(5) by simp
  ultimately show ?case using step(2) by blast
qed

lemma compress_row_effect:
  assumes "grid_inv c" and "a < tc_rows c" and "row_complete c a"
    and "covered L (tc_styles c) (tc_chars c)" and "tables_room (tc_cols c + m) (tc_styles c) (tc_chars c)"
    and "length L + tc_cols c \<le> U32_MAX" and "compress_row c a = (row, st, ch)"
  shows "covered (row @ L) st ch" "tables_room m st ch"
    "row_contents st ch row = map (grid_content c a) [0..<tc_cols c]"
    "s \<in> set L \<Longrightarrow> slim_content st ch s = slim_content (tc_styles c) (tc_chars c) s"
    "length row = tc_cols c"
proof -
  have *: "covered (row @ L) st ch \<and> tables_room m st ch
    \<and> row_contents st ch row = map (grid_content c a) [0..<tc_cols c]
    \<and> (\<forall>s \<in> set L. slim_content st ch s = slim_content (tc_styles c) (tc_chars c) s)"
    using compress_prefix [OF assms(1-6) order_refl] assms(7) by (auto simp: compress_row_def)
  then show "covered (row @ L) st ch" "tables_room m st ch"
    "row_contents st ch row = map (grid_content c a) [0..<tc_cols c]"
    "s \<in> set L \<Longrightarrow> slim_content st ch s = slim_content (tc_styles c) (tc_chars c) s" by simp_all
  from * have "length (row_contents st ch row) = tc_cols c" by simp
  then show "length row = tc_cols c" by (simp add: row_contents_def)
qed

subsection \<open>Releasing a row\<close>

lemma holds_handles:
  "style.holds (st', style_handles st L) \<Longrightarrow> style_handles st' L = style_handles st L"
  "chars.holds (ch', char_handles ch L) \<Longrightarrow> char_handles ch' L = char_handles ch L"
  by (auto simp: style.holds_def chars.holds_def style_handles_def char_handles_def)

lemma release_cell_covered:
  assumes cov: "covered (s # L) st ch"
  defines "st' \<equiv> style_dec_ref st (sl_style_id s)"
    and "ch' \<equiv> (if is_char_table s then char_dec_ref ch (sl_char_ref s) else ch)"
  shows "covered L st' ch'" and "x \<in> set L \<Longrightarrow> slim_content st' ch' x = slim_content st ch x"
    and "tables_room n st ch \<Longrightarrow> tables_room n st' ch'"
proof -
  have "style.holds (st, (sl_style_id s, style_get_or_default st (sl_style_id s)) # style_handles st L)"
    using cov by (simp add: covered_def style_handles_Cons)
  from style.release_holds [OF this, of 0]
  have S: "style.holds (st', style_handles st L)" by (simp add: client_step_def st'_def)
  have C: "chars.holds (ch', char_handles ch L)"
  proof (cases "is_char_table s")
    case True
    then have "chars.holds (ch, (sl_char_ref s, char_get_or_default ch (sl_char_ref s)) # char_handles ch L)"
      using cov by (simp add: covered_def char_handles_Cons)
    from chars.release_holds [OF this, of 0] True show ?thesis by (simp add: client_step_def ch'_def)
  next
    case False
    with cov show ?thesis by (simp add: covered_def char_handles_Cons ch'_def)
  qed
  show "covered L st' ch'" using S C holds_handles(1) [OF S] holds_handles(2) [OF C] by (simp add: covered_def)
  have sx: "style_get_or_default st' (sl_style_id x) = style_get_or_default st (sl_style_id x)" if "x \<in> set L" for x
    using S that by (auto simp: style.holds_def style_handles_def)
  have cx: "char_get_or_default ch' (sl_char_ref x) = char_get_or_default ch (sl_char_ref x)"
    if "x \<in> set L" "is_char_table x" for x
    using C that by (auto simp: chars.holds_def char_handles_def)
  show "x \<in> set L \<Longrightarrow> slim_content st' ch' x = slim_content st ch x"
    by (rule slim_content_cong) (use sx cx in auto)
  show "tables_room n st ch \<Longrightarrow> tables_room n st' ch'"
    by (auto simp: tables_room_def st'_def ch'_def style_dec_ref_def char_dec_ref_def itable_dec_ref_def Let_def
        split: if_splits)
qed

lemma release_row_covered:
  assumes "covered (row @ L) (tc_styles c) (tc_chars c)"
  shows "covered L (tc_styles (release_slim_row c row)) (tc_chars (release_slim_row c row))"
    and "x \<in> set L \<Longrightarrow> slim_content (tc_styles (release_slim_row c row)) (tc_chars (release_slim_row c row)) x =
      slim_content (tc_styles c) (tc_chars c) x"
    and "tables_room n (tc_styles c) (tc_chars c) \<Longrightarrow>
      tables_room n (tc_styles (release_slim_row c row)) (tc_chars (release_slim_row c row))"
proof -
  have "covered L (tc_styles (release_slim_row c row)) (tc_chars (release_slim_row c row))
    \<and> (\<forall>x \<in> set L. slim_content (tc_styles (release_slim_row c row)) (tc_chars (release_slim_row c row)) x =
        slim_content (tc_styles c) (tc_chars c) x)
    \<and> (tables_room n (tc_styles c) (tc_chars c) \<longrightarrow>
      tables_room n (tc_styles (release_slim_row c row)) (tc_chars (release_slim_row c row)))"
    using assms
  proof (induction row arbitrary: c)
    case Nil
    then show ?case by (simp add: release_slim_row_def)
  next
    case (Cons s row)
    let ?c1 = "release_slim_cell c s"
    have t: "tc_styles ?c1 = style_dec_ref (tc_styles c) (sl_style_id s)"
      "tc_chars ?c1 = (if is_char_table s then char_dec_ref (tc_chars c) (sl_char_ref s) else tc_chars c)"
      by (simp_all add: release_slim_cell_def Let_def)
    have cov: "covered (s # row @ L) (tc_styles c) (tc_chars c)" using Cons.prems by simp
    note r = release_cell_covered [OF cov, folded t]
    have "release_slim_row c (s # row) = release_slim_row ?c1 row" by (simp add: release_slim_row_def)
    with Cons.IH [OF r(1)] r(2,3) show ?case by simp
  qed
  then show "covered L (tc_styles (release_slim_row c row)) (tc_chars (release_slim_row c row))"
    "x \<in> set L \<Longrightarrow> slim_content (tc_styles (release_slim_row c row)) (tc_chars (release_slim_row c row)) x =
      slim_content (tc_styles c) (tc_chars c) x"
    "tables_room n (tc_styles c) (tc_chars c) \<Longrightarrow>
      tables_room n (tc_styles (release_slim_row c row)) (tc_chars (release_slim_row c row))" by simp_all
qed

subsection \<open>The history\<close>

type_synonym history_row = "content list \<times> bool"

definition history :: "core \<Rightarrow> history_row list" where
  "history c = zip (map (row_contents (tc_styles c) (tc_chars c)) (tc_scrollback_slim c)) (tc_scrollback_wrapped c)"

text \<open>What the history keeps of a viewport row.\<close>

definition row_summary :: "row_view \<Rightarrow> history_row" where
  "row_summary v =
     (map (\<lambda>k. cell_content (fst v ! k) (snd (snd v) k)) [0..<length (fst v)], fst (snd v))"

definition view_complete :: "row_view \<Rightarrow> bool" where
  "view_complete v \<longleftrightarrow> (\<forall>k < length (fst v). is_overflow (fst v ! k) \<longrightarrow> snd (snd v) k \<noteq> None)"

text \<open>The scrollback invariant: every reference of a stored cell is counted in the tables.\<close>

definition sb_ok :: "core \<Rightarrow> bool" where
  "sb_ok c \<longleftrightarrow> covered (concat (tc_scrollback_slim c)) (tc_styles c) (tc_chars c)
     \<and> length (tc_scrollback_wrapped c) = length (tc_scrollback_slim c)
     \<and> length (tc_scrollback_slim c) \<le> tc_scrollback_capacity c
     \<and> (\<forall>row \<in> set (tc_scrollback_slim c). length row = tc_cols c)
     \<and> (tc_scrollback_capacity c + 1) * tc_cols c \<le> U32_MAX"

lemma last_n_step:
  "0 < n \<Longrightarrow> length xs \<le> n \<Longrightarrow> last_n n (xs @ [x]) = (if length xs = n then tl xs else xs) @ [x]"
  by (cases xs) (auto simp: last_n_def)

lemma concat_length: "\<forall>row \<in> set rs. length row = w \<Longrightarrow> length (concat rs) = length rs * w"
  by (induction rs) auto

lemma row_contents_cong:
  "(\<And>s. s \<in> set row \<Longrightarrow> slim_content st' ch' s = slim_content st ch s) \<Longrightarrow>
     row_contents st' ch' row = row_contents st ch row"
  by (simp add: row_contents_def)

text \<open>The effect of the eviction step on the scrollback.\<close>

lemma evict_history:
  assumes inv: "grid_inv c" and sb: "sb_ok c" and cap: "0 < tc_scrollback_capacity c"
    and bypass: "\<not> tc_scrollback_bypass c" and full: "row_complete c (tc_ring_head c)"
    and room: "tables_room (tc_cols c + m) (tc_styles c) (tc_chars c)"
  defines "d \<equiv> evict_top_row c"
  shows "sb_ok d \<and> tables_room m (tc_styles d) (tc_chars d)
    \<and> history d = last_n (tc_scrollback_capacity c)
        (history c @ [(map (grid_content c (tc_ring_head c)) [0..<tc_cols c], tc_ring_wrapped c ! tc_ring_head c)])"
proof -
  let ?h = "tc_ring_head c" and ?cap = "tc_scrollback_capacity c" and ?slims = "tc_scrollback_slim c"
  let ?ws = "tc_scrollback_wrapped c"
  have h: "?h < tc_rows c" using inv by (simp add: grid_inv_def grid_okD)
  obtain row st ch where cr: "compress_row c ?h = (row, st, ch)" by (metis surj_pair)
  have sb': "covered (concat ?slims) (tc_styles c) (tc_chars c)" "length ?ws = length ?slims"
    "length ?slims \<le> ?cap" "\<forall>row \<in> set ?slims. length row = tc_cols c" "(?cap + 1) * tc_cols c \<le> U32_MAX"
    using sb by (simp_all add: sb_ok_def)
  have len: "length (concat ?slims) + tc_cols c \<le> U32_MAX"
  proof -
    have "length ?slims * tc_cols c \<le> ?cap * tc_cols c" using sb'(3) by (rule mult_le_mono1)
    moreover have "(?cap + 1) * tc_cols c = ?cap * tc_cols c + tc_cols c" by simp
    ultimately show ?thesis using sb'(5) unfolding concat_length [OF sb'(4)] by linarith
  qed
  note ce = compress_row_effect [OF inv h full sb'(1) room len cr]
  have same: "row_contents st ch r = row_contents (tc_styles c) (tc_chars c) r" if "r \<in> set ?slims" for r
    by (rule row_contents_cong) (use ce(4) that in auto)
  let ?new = "(map (grid_content c ?h) [0..<tc_cols c], tc_ring_wrapped c ! ?h)"
  have hist: "history c = zip (map (row_contents st ch) ?slims) ?ws"
    using same by (simp add: history_def cong: map_cong)
  have hl: "length (history c) = length ?slims" using sb'(2) by (simp add: history_def)
  note dd = d_def evict_top_row_def Let_def cr cap bypass
  show ?thesis
  proof (cases "length ?slims = ?cap")
    case False
    then have lt: "\<not> ?cap \<le> length ?slims" using sb'(3) by simp
    have d: "tc_scrollback_slim d = ?slims @ [row]" "tc_scrollback_wrapped d = ?ws @ [tc_ring_wrapped c ! ?h]"
      "tc_styles d = st" "tc_chars d = ch" "tc_cols d = tc_cols c" "tc_scrollback_capacity d = ?cap"
      using lt by (simp_all add: dd overflow_clear_abs_if_def overflow_clear_abs_def)
    have "covered (concat (?slims @ [row])) st ch"
      using ce(1) by (subst covered_perm [of _ "row @ concat ?slims"]) simp_all
    then have "sb_ok d" unfolding sb_ok_def d using sb' ce(5) lt by simp
    moreover have "history d = history c @ [?new]"
      unfolding history_def [of d] d hist using ce(3) sb'(2) by simp
    moreover have "last_n ?cap (history c @ [?new]) = history c @ [?new]"
      using last_n_step [OF cap, of "history c" ?new] False sb'(3) hl by simp
    ultimately show ?thesis using ce(2) d by simp
  next
    case True
    with cap obtain old rest where sl: "?slims = old # rest" by (cases ?slims) auto
    define e where "e = release_slim_row (overflow_clear_abs_if (c\<lparr>tc_styles := st, tc_chars := ch\<rparr>) ?h
        \<lparr>tc_scrollback_slim := rest\<rparr>) old"
    have e0: "tc_styles (overflow_clear_abs_if (c\<lparr>tc_styles := st, tc_chars := ch\<rparr>) ?h \<lparr>tc_scrollback_slim := rest\<rparr>) = st"
      "tc_chars (overflow_clear_abs_if (c\<lparr>tc_styles := st, tc_chars := ch\<rparr>) ?h \<lparr>tc_scrollback_slim := rest\<rparr>) = ch"
      by (simp_all add: overflow_clear_abs_if_def overflow_clear_abs_def)
    have cov: "covered (old @ (concat rest @ row)) st ch"
      using ce(1) by (subst covered_perm [of _ "row @ concat ?slims"]) (simp_all add: sl)
    note rel = release_row_covered [where c = "overflow_clear_abs_if (c\<lparr>tc_styles := st, tc_chars := ch\<rparr>) ?h
        \<lparr>tc_scrollback_slim := rest\<rparr>", unfolded e0, OF cov, folded e_def]
    have d: "tc_scrollback_slim d = rest @ [row]" "tc_scrollback_wrapped d = tl ?ws @ [tc_ring_wrapped c ! ?h]"
      "tc_styles d = tc_styles e" "tc_chars d = tc_chars e" "tc_cols d = tc_cols c" "tc_scrollback_capacity d = ?cap"
      using True sl by (simp_all add: dd e_def overflow_clear_abs_if_def overflow_clear_abs_def)
    have "sb_ok d" unfolding sb_ok_def d using sb' ce(5) rel(1) True by (simp add: sl)
    moreover have "tables_room m (tc_styles d) (tc_chars d)" unfolding d using rel(3) [OF ce(2)] .
    moreover have "history d = tl (history c) @ [?new]"
    proof -
      have r: "row_contents (tc_styles e) (tc_chars e) r = row_contents st ch r" if "set r \<subseteq> set (concat rest @ row)" for r
        by (rule row_contents_cong) (use rel(2) that in blast)
      have "map (row_contents (tc_styles e) (tc_chars e)) rest = map (row_contents st ch) rest"
        by (rule map_cong [OF refl], rule r) auto
      moreover have "row_contents (tc_styles e) (tc_chars e) row = fst ?new" using r [of row] ce(3) by simp
      ultimately show ?thesis
        unfolding history_def [of d] d hist using sb'(2) by (cases ?ws) (simp_all add: sl cong: map_cong)
    qed
    moreover have "last_n ?cap (history c @ [?new]) = tl (history c) @ [?new]"
      using last_n_step [OF cap, of "history c" ?new] True hl by simp
    ultimately show ?thesis by simp
  qed
qed

subsection \<open>Scrolling\<close>

lemma ring_push_scrollback:
  assumes "grid_ok c"
  shows "tc_scrollback_slim (ring_push_blank c bg) = tc_scrollback_slim (evict_top_row c)"
    "tc_scrollback_wrapped (ring_push_blank c bg) = tc_scrollback_wrapped (evict_top_row c)"
    "tc_styles (ring_push_blank c bg) = tc_styles (evict_top_row c)"
    "tc_chars (ring_push_blank c bg) = tc_chars (evict_top_row c)"
  by (simp_all add: ring_push_blank_step [OF assms] overflow_clear_abs_if_def overflow_clear_abs_def)

lemma top_row_summary:
  assumes "grid_ok c"
  shows "row_summary (hd (viewport c)) =
      (map (grid_content c (tc_ring_head c)) [0..<tc_cols c], tc_ring_wrapped c ! tc_ring_head c)"
    and "view_complete (hd (viewport c)) \<longleftrightarrow> row_complete c (tc_ring_head c)"
proof -
  note g = grid_okD [OF assms]
  have "viewport c \<noteq> []" using g by (simp add: viewport_def)
  then have "hd (viewport c) = vrow c 0" using g by (simp add: hd_conv_nth viewport_nth)
  then have hd: "hd (viewport c) = arow c (tc_ring_head c)" using g by (simp add: vrow_def viewport_abs_def)
  have len: "length (fst (arow c (tc_ring_head c))) = tc_cols c"
    by (rule arow_cells(1)) (use assms g in simp_all)
  have nth: "k < tc_cols c \<Longrightarrow> fst (arow c (tc_ring_head c)) ! k = tc_ring_cells c ! (tc_ring_head c * tc_cols c + k)" for k
    by (rule arow_cells(2)) (use assms g in simp_all)
  have ov: "snd (snd (arow c (tc_ring_head c))) k = map_of (tc_overflow c) (k, tc_ring_head c)" for k
    by (simp add: arow_def)
  have wr: "fst (snd (arow c (tc_ring_head c))) = tc_ring_wrapped c ! tc_ring_head c"
    by (simp add: arow_def)
  show "row_summary (hd (viewport c)) =
      (map (grid_content c (tc_ring_head c)) [0..<tc_cols c], tc_ring_wrapped c ! tc_ring_head c)"
    unfolding hd row_summary_def len ov wr grid_content_def by (simp add: nth)
  show "view_complete (hd (viewport c)) \<longleftrightarrow> row_complete c (tc_ring_head c)"
    unfolding hd view_complete_def len ov row_complete_def by (simp add: nth)
qed

lemma push_history:
  fixes bg :: packed_color
  assumes inv: "grid_inv c" and sb: "sb_ok c" and cap: "0 < tc_scrollback_capacity c"
    and bypass: "\<not> tc_scrollback_bypass c" and full: "view_complete (hd (viewport c))"
    and room: "tables_room (tc_cols c + m) (tc_styles c) (tc_chars c)"
  defines "d \<equiv> ring_push_blank c bg"
  shows "sb_ok d \<and> tables_room m (tc_styles d) (tc_chars d)
    \<and> history d = last_n (tc_scrollback_capacity c) (history c @ [row_summary (hd (viewport c))])"
proof -
  note ok = grid_invD(1) [OF inv]
  have f: "row_complete c (tc_ring_head c)" using full top_row_summary(2) [OF ok] by simp
  note ev = evict_history [OF inv sb cap bypass f room]
  note sc = scroll_frameD [OF evict_top_row_frame, of c]
    scroll_frameD [OF ring_push_blank_view(2) [OF ok], of bg]
  show ?thesis
    using ev unfolding sb_ok_def d_def history_def [of "ring_push_blank c bg"] history_def [of "evict_top_row c"]
      ring_push_scrollback [OF ok] sc top_row_summary(1) [OF ok] by simp
qed

lemma push_many_history:
  assumes inv: "grid_inv c" and sb: "sb_ok c" and cap: "0 < tc_scrollback_capacity c"
    and bypass: "\<not> tc_scrollback_bypass c" and n: "n \<le> tc_rows c"
    and full: "list_all view_complete (take n (viewport c))"
    and room: "tables_room (n * tc_cols c) (tc_styles c) (tc_chars c)"
  shows "sb_ok (((\<lambda>d. ring_push_blank d bg) ^^ n) c)
    \<and> history (((\<lambda>d. ring_push_blank d bg) ^^ n) c) =
        last_n (tc_scrollback_capacity c) (history c @ map row_summary (take n (viewport c)))"
proof -
  have "k \<le> n \<Longrightarrow> sb_ok (((\<lambda>d. ring_push_blank d bg) ^^ k) c)
    \<and> tables_room ((n - k) * tc_cols c) (tc_styles (((\<lambda>d. ring_push_blank d bg) ^^ k) c))
        (tc_chars (((\<lambda>d. ring_push_blank d bg) ^^ k) c))
    \<and> history (((\<lambda>d. ring_push_blank d bg) ^^ k) c) =
        last_n (tc_scrollback_capacity c) (history c @ map row_summary (take k (viewport c)))" for k
  proof (induction k)
    case 0
    have "length (history c) \<le> tc_scrollback_capacity c" using sb by (simp add: sb_ok_def history_def)
    then show ?case using sb room by (simp add: last_n_def)
  next
    case (Suc k)
    let ?d = "((\<lambda>d. ring_push_blank d bg) ^^ k) c"
    have IH: "sb_ok ?d" "tables_room ((n - k) * tc_cols c) (tc_styles ?d) (tc_chars ?d)"
      "history ?d = last_n (tc_scrollback_capacity c) (history c @ map row_summary (take k (viewport c)))"
      using Suc by simp_all
    have k: "k \<le> tc_rows c" "k < n" using Suc.prems n by simp_all
    note pm = ring_push_many [OF grid_invD(1) [OF inv] k(1), of bg]
    have sc: "scroll_frame c ?d" using pm by blast
    have dr: "drop k (viewport c) \<noteq> []" using k n by (simp add: viewport_nth)
    have hd: "hd (viewport ?d) = viewport c ! k"
      using pm dr k n by (simp add: hd_append hd_drop_conv_nth viewport_nth)
    have "view_complete (hd (viewport ?d))" unfolding hd
      using full k n by (simp add: list_all_length viewport_nth)
    moreover have "(n - k) * tc_cols c = tc_cols ?d + (n - Suc k) * tc_cols c"
      using k(2) by (simp add: scroll_frameD [OF sc] Suc_diff_Suc [symmetric, of k n] del: Suc_diff_Suc)
    then have "tables_room (tc_cols ?d + (n - Suc k) * tc_cols c) (tc_styles ?d) (tc_chars ?d)" using IH(2) by simp
    ultimately have st: "sb_ok (ring_push_blank ?d bg)
      \<and> tables_room ((n - Suc k) * tc_cols c) (tc_styles (ring_push_blank ?d bg)) (tc_chars (ring_push_blank ?d bg))
      \<and> history (ring_push_blank ?d bg) = last_n (tc_scrollback_capacity c) (history ?d @ [row_summary (viewport c ! k)])"
      using push_history [where c = ?d and m = "(n - Suc k) * tc_cols c" and bg = bg] cap bypass
        ring_push_many_inv [OF inv, of k bg] IH(1)
      by (simp add: hd scroll_frameD [OF sc])
    have "take (Suc k) (viewport c) = take k (viewport c) @ [viewport c ! k]"
      using k n by (simp add: take_Suc_conv_app_nth viewport_nth)
    with st show ?case by (simp add: IH(3) last_n_append)
  qed
  from this [of n] show ?thesis by simp
qed

lemma history_frame:
  "grid_frame c d \<Longrightarrow> history d = history c" "history (c\<lparr>tc_scroll_event := e\<rparr>) = history c"
  by (simp_all add: history_def grid_frameD)

lemma viewport_cong:
  assumes "tc_rows d = tc_rows c" and "\<And>r. r < tc_rows c \<Longrightarrow> vrow d r = vrow c r"
  shows "viewport d = viewport c"
  unfolding viewport_def assms(1) by (rule map_cong) (use assms(2) in auto)

lemma viewport_same_grid:
  assumes "tc_rows d = tc_rows c" "tc_cols d = tc_cols c" "tc_ring_head d = tc_ring_head c"
    "tc_ring_cells d = tc_ring_cells c" "tc_ring_wrapped d = tc_ring_wrapped c" "tc_overflow d = tc_overflow c"
  shows "viewport d = viewport c"
  by (rule viewport_cong) (simp_all add: assms vrow_def arow_def viewport_abs_def)

lemma viewport_marks [simp]:
  "viewport (mark_row_dirty c r) = viewport c" "viewport (mark_all_dirty c) = viewport c"
  "viewport (shift_dirty_down_by_one c) = viewport c" "viewport (c\<lparr>tc_scroll_event := e\<rparr>) = viewport c"
  by (rule viewport_same_grid; simp add: mark_row_dirty_def mark_all_dirty_def shift_dirty_down_by_one_def)+

text \<open>The part of a scroll after the rows are pushed: dirty bits and the scroll event.\<close>

lemma full_screen_scroll_tail:
  fixes c c1 :: core and n b :: nat and e :: "scroll_event option"
  defines "d \<equiv> (if n = 1 then
      mark_row_dirty (shift_dirty_down_by_one (c1\<lparr>tc_scroll_event := e\<rparr>)) b
    else mark_all_dirty (c1\<lparr>tc_scroll_event := None\<rparr>))"
  shows "viewport d = viewport c1" and "history d = history c1" and "sb_ok d = sb_ok c1"
    and "scroll_frame c d = scroll_frame c c1" and "grid_ok d = grid_ok c1" and "grid_inv d = grid_inv c1"
proof -
  show "viewport d = viewport c1" by (simp add: d_def)
  show "history d = history c1" by (simp add: d_def history_def mark_row_dirty_def mark_all_dirty_def shift_dirty_down_by_one_def)
  show "sb_ok d = sb_ok c1" by (simp add: d_def sb_ok_def mark_row_dirty_def mark_all_dirty_def shift_dirty_down_by_one_def)
  show "scroll_frame c d = scroll_frame c c1"
    by (simp add: d_def mark_row_dirty_def mark_all_dirty_def shift_dirty_down_by_one_def)
  show g: "grid_ok d = grid_ok c1"
    by (simp add: d_def grid_ok_def mark_row_dirty_def mark_all_dirty_def shift_dirty_down_by_one_def length_shift_dirty)
  show "grid_inv d = grid_inv c1"
    using g by (simp add: grid_inv_def d_def cells_fine_def overflow_fine_def mark_row_dirty_def mark_all_dirty_def
        shift_dirty_down_by_one_def)
qed

lemma shift_up_full:
  "e + 1 = length vs \<Longrightarrow> n \<le> length vs \<Longrightarrow> shift_up_spec b 0 e n vs = drop n vs @ replicate n b"
  by (simp add: shift_up_spec_def)

lemma core_new_fields [simp]:
  "tc_cols (core_new w h sb) = w" "tc_rows (core_new w h sb) = h"
  "tc_ring_cells (core_new w h sb) = replicate (h * w) cell_empty" "tc_overflow (core_new w h sb) = []"
  "tc_scrollback_slim (core_new w h sb) = []" "tc_scrollback_wrapped (core_new w h sb) = []"
  "tc_scrollback_capacity (core_new w h sb) = sb" "\<not> tc_scrollback_bypass (core_new w h sb)"
  "tc_styles (core_new w h sb) = style_table_new" "tc_chars (core_new w h sb) = char_table_new"
  "tc_scroll_region_top (core_new w h sb) = 0" "tc_scroll_region_bottom (core_new w h sb) = h - 1"
  "tc_cursor (core_new w h sb) = cursor_new"
  by (simp_all add: core_new_def mark_all_dirty_def)

lemma core_new_inv:
  assumes "0 < w" "w \<le> U16_MAX" "0 < h" "h \<le> U16_MAX"
  shows "grid_inv (core_new w h sb)"
  using core_new_grid_ok [OF assms] by (simp add: grid_inv_def cells_fine_def overflow_fine_def)

lemma core_new_sb_ok: "(sb + 1) * w \<le> U32_MAX \<Longrightarrow> sb_ok (core_new w h sb)"
  by (simp add: sb_ok_def covered_Nil style_table_new_ok char_table_new_ok)

lemma core_new_complete:
  assumes "0 < w" "w \<le> U16_MAX" "0 < h" "h \<le> U16_MAX"
  shows "list_all view_complete (viewport (core_new w h sb))"
proof -
  let ?c = "core_new w h sb"
  have ok: "grid_ok ?c" by (rule core_new_grid_ok [OF assms])
  have "\<not> is_overflow cell_empty" by (simp add: cell_empty_def is_overflow_def)
  moreover have "fst (vrow ?c r) ! k = cell_empty" if "r < h" "k < w" for r k
    using arow_cells(2) [OF ok abs_lt [OF ok], of k r] block_index_lt [OF abs_lt [OF ok], of k w r] that
    by (simp add: vrow_def)
  moreover have "length (fst (vrow ?c r)) = w" for r
    using arow_cells(1) [OF ok abs_lt [OF ok], of r] by (simp add: vrow_def)
  ultimately show ?thesis by (auto simp: view_complete_def viewport_def list_all_iff)
qed

text \<open>After its pushes a region scroll with transcription only touches the grid.\<close>

lemma transcribing_grid_frame:
  fixes sv :: saved_row
  shows "grid_frame c d \<Longrightarrow> grid_frame c (restore_row d row sv)"
  by (simp add: restore_row_def Let_def split: prod.split)

lemma transcribing_tail:
  "grid_frame c1 (foldl mark_row_dirty (foldl (\<lambda>c r. blank_abs_row c (viewport_abs c r))
     (foldl (\<lambda>c (row, sv). restore_row c row sv) c1 svs) rs) ms)"
proof -
  have "grid_frame c1 (foldl (\<lambda>c (row, sv). restore_row c row sv) c1 svs)"
    by (rule grid_frame_foldl) (auto intro: transcribing_grid_frame)
  then have "grid_frame c1 (foldl (\<lambda>c r. blank_abs_row c (viewport_abs c r))
     (foldl (\<lambda>c (row, sv). restore_row c row sv) c1 svs) rs)"
    by (rule grid_frame_foldl [rotated]) simp
  then show ?thesis by (rule grid_frame_foldl [rotated]) simp
qed

lemmas transcribing_tail_frame = grid_frameD(12,13,6,7) [OF transcribing_tail]

text \<open>C2. Scrolling up is a bounded log.  When the scroll region starts at the top of the screen (and
  is either the whole screen or eligible for transcription), scrolling by \<open>n\<close> rows drops the top
  \<open>n\<close> rows of the region from the viewport, fills it with blank rows at its lower end, leaves the
  rows below it alone, and appends exactly the contents of the dropped rows to the history, of which
  the newest \<open>capacity\<close> rows are kept; older history rows keep their contents although all rows
  share the intern tables.\<close>

theorem scroll_up_is_bounded_log:
  fixes c :: core and n :: nat
  assumes inv: "grid_inv c" and sb: "sb_ok c" and cap: "0 < tc_scrollback_capacity c"
    and bypass: "\<not> tc_scrollback_bypass c"
    and region: "tc_scroll_region_top c = 0" "tc_scroll_region_bottom c < tc_rows c"
    and kind: "tc_scroll_region_bottom c = tc_rows c - 1 \<or> should_transcribe_region_scroll c 0"
    and full: "list_all view_complete (take n (viewport c))"
    and room: "tables_room (n * tc_cols c) (tc_styles c) (tc_chars c)"
    and bound: "n \<le> tc_scroll_region_bottom c + 1"
  shows "viewport (scroll_up_internal c n) =
      shift_up_spec (blank_row c) 0 (tc_scroll_region_bottom c) n (viewport c)
    \<and> history (scroll_up_internal c n) =
      last_n (tc_scrollback_capacity c) (history c @ map row_summary (take n (viewport c)))"
proof -
  note ok = grid_invD(1) [OF inv]
  let ?b = "tc_scroll_region_bottom c" and ?bg = "cu_bg (tc_cursor c)"
  let ?c1 = "((\<lambda>d. ring_push_blank d ?bg) ^^ n) c"
  have n: "n \<le> tc_rows c" using bound region(2) by simp
  note pm = ring_push_many [OF ok n, of ?bg]
  note ph = push_many_history [OF inv sb cap bypass n full room, of ?bg]
  show ?thesis
  proof (cases "?b = tc_rows c - 1")
    case True
    then have b: "?b + 1 = length (viewport c)" using region(2) by (simp add: viewport_nth)
    let ?e = "Some (case tc_scroll_event ?c1 of Some e \<Rightarrow> e\<lparr>sc_count := sc_count e + 1\<rparr>
      | None \<Rightarrow> \<lparr>sc_direction = Up, sc_count = 1\<rparr>)"
    have "scroll_up_internal c n = (if n = 1 then
        mark_row_dirty (shift_dirty_down_by_one (?c1\<lparr>tc_scroll_event := ?e\<rparr>)) ?b
      else mark_all_dirty (?c1\<lparr>tc_scroll_event := None\<rparr>))"
      using True region(1) bound by (simp add: scroll_up_internal_def Let_def min_absorb1)
    then show ?thesis
      using full_screen_scroll_tail(1,2) [where n = n and ?c1.0 = ?c1 and e = ?e and b = ?b] pm ph shift_up_full [OF b, of n] n
      by (simp add: blank_row_pushed viewport_nth)
  next
    case False
    then have eq: "scroll_up_internal c n = scroll_up_region_transcribing c ?b n"
      using kind region bound by (simp add: scroll_up_internal_def Let_def min_absorb1)
    have "history (scroll_up_region_transcribing c ?b n) = history ?c1"
      unfolding scroll_up_region_transcribing_def Let_def using grid_okD(3) [OF ok]
      by (simp add: history_frame(1) [OF transcribing_tail] del: upt_Suc)
    then show ?thesis
      unfolding eq using scroll_transcribing_view(3) [OF ok region(2) bound] ph by simp
  qed
qed

lemma scroll_up_is_bounded_log_witness:
  "viewport (scroll_up_internal (core_new 2 3 2) 1) =
      shift_up_spec (blank_row (core_new 2 3 2)) 0 2 1 (viewport (core_new 2 3 2))
    \<and> history (scroll_up_internal (core_new 2 3 2) 1) =
      last_n 2 (history (core_new 2 3 2) @ map row_summary (take 1 (viewport (core_new 2 3 2))))"
proof -
  have "list_all view_complete (take 1 (viewport (core_new 2 3 2)))"
    using core_new_complete [of 2 3 2] by (auto simp: U16_MAX_def list_all_iff dest: in_set_takeD)
  moreover have "sb_ok (core_new 2 3 2)" by (rule core_new_sb_ok) (simp add: U32_MAX_def)
  moreover have "tables_room 2 style_table_new char_table_new"
    by (simp add: tables_room_def style_table_new_def char_table_new_def U16_MAX_def U32_MAX_def MAX_ENTRIES_def)
  ultimately show ?thesis
    using scroll_up_is_bounded_log [of "core_new 2 3 2" 1] core_new_inv [of 2 3 2] by (simp add: U16_MAX_def)
qed

end
