(* ===== verification/CsiHandlers.thy ===== *)
theory CsiHandlers
  imports Scroll
begin

text \<open>
  The handlers of control sequences: cursor movement (\<open>csi_cursor.rs\<close>), editing
  (\<open>csi_edit.rs\<close>), erasing (\<open>csi_screen.rs\<close>), scrolling (\<open>csi_scroll.rs\<close>),
  attributes (\<open>sgr.rs\<close>), modes (\<open>csi_modes.rs\<close>), device reports
  (\<open>csi_device.rs\<close>) and the dispatcher over them (\<open>csi_dispatch.rs\<close>).
\<close>

unbundle bit_operations_syntax

subsection \<open>Cursor movement\<close>

definition to_zero_indexed_col :: "core \<Rightarrow> nat \<Rightarrow> nat" where
  "to_zero_indexed_col c col = (if col = 0 then 0 else min (col - 1) (tc_cols c - 1))"

definition to_zero_indexed_row :: "core \<Rightarrow> nat \<Rightarrow> nat" where
  "to_zero_indexed_row c row =
     (if get_mode c MODE_ORIGIN then
        let base = tc_scroll_region_top c; limit = tc_scroll_region_bottom c
        in if row = 0 then base else min (sat_add16 base (row - 1)) limit
      else if row = 0 then 0 else min (row - 1) (tc_rows c - 1))"

definition in_scroll_region :: "core \<Rightarrow> bool" where
  "in_scroll_region c \<longleftrightarrow> cur_row c \<ge> tc_scroll_region_top c \<and> cur_row c \<le> tc_scroll_region_bottom c"

text \<open>Placing the cursor and dropping a pending wrap.\<close>

definition move_cursor :: "core \<Rightarrow> nat \<Rightarrow> nat \<Rightarrow> core" where
  "move_cursor c col row = (upd_cursor (\<lambda>u. u\<lparr>cu_col := col, cu_row := row\<rparr>) c)\<lparr>tc_wrap_pending := False\<rparr>"

definition row_above :: "core \<Rightarrow> nat \<Rightarrow> nat" where
  "row_above c count =
     (let min_row = (if in_scroll_region c then tc_scroll_region_top c else 0)
      in max (cur_row c - count) min_row)"

definition row_below :: "core \<Rightarrow> nat \<Rightarrow> nat" where
  "row_below c count =
     (let max_row = (if in_scroll_region c then tc_scroll_region_bottom c else tc_rows c - 1)
      in min (sat_add16 (cur_row c) count) max_row)"

definition handle_cursor_up :: "core \<Rightarrow> nat \<Rightarrow> core" where
  "handle_cursor_up c count = move_cursor c (cur_col c) (row_above c count)"

definition handle_cursor_down :: "core \<Rightarrow> nat \<Rightarrow> core" where
  "handle_cursor_down c count = move_cursor c (cur_col c) (row_below c count)"

definition handle_cursor_forward :: "core \<Rightarrow> nat \<Rightarrow> core" where
  "handle_cursor_forward c count =
     move_cursor c (min (sat_add16 (cur_col c) count) (tc_cols c - 1)) (cur_row c)"

definition handle_cursor_back :: "core \<Rightarrow> nat \<Rightarrow> core" where
  "handle_cursor_back c count = move_cursor c (cur_col c - count) (cur_row c)"

definition handle_cursor_next_line :: "core \<Rightarrow> nat \<Rightarrow> core" where
  "handle_cursor_next_line c count = move_cursor c 0 (row_below c count)"

definition handle_cursor_previous_line :: "core \<Rightarrow> nat \<Rightarrow> core" where
  "handle_cursor_previous_line c count = move_cursor c 0 (row_above c count)"

definition handle_cursor_horizontal_absolute :: "core \<Rightarrow> nat \<Rightarrow> core" where
  "handle_cursor_horizontal_absolute c col = move_cursor c (to_zero_indexed_col c col) (cur_row c)"

definition handle_cursor_position :: "core \<Rightarrow> nat \<Rightarrow> nat \<Rightarrow> core" where
  "handle_cursor_position c row col = move_cursor c (to_zero_indexed_col c col) (to_zero_indexed_row c row)"

definition handle_cursor_vertical_absolute :: "core \<Rightarrow> nat \<Rightarrow> core" where
  "handle_cursor_vertical_absolute c row = move_cursor c (cur_col c) (to_zero_indexed_row c row)"

definition handle_decscusr :: "core \<Rightarrow> nat \<Rightarrow> core" where
  "handle_decscusr c ps =
     (if ps = 0 then c\<lparr>tc_cursor_style_override := None, tc_cursor_blink_override := None\<rparr>
      else if ps \<le> 6 then
        let shape = (if ps = 1 \<or> ps = 2 then 0 else if ps = 3 \<or> ps = 4 then 1 else 2)
        in c\<lparr>tc_cursor_style_override := Some shape, tc_cursor_blink_override := Some (ps mod 2 = 1)\<rparr>
      else c)"

subsection \<open>Inserting and deleting\<close>

definition handle_insert_lines :: "core \<Rightarrow> nat \<Rightarrow> core" where
  "handle_insert_lines c count =
     (let rtop = tc_scroll_region_top c; rbottom = tc_scroll_region_bottom c in
      if cur_row c < rtop \<or> cur_row c > rbottom then c
      else shift_rows_down c (cur_row c) rbottom (min count (rbottom - cur_row c + 1)))"

definition handle_delete_lines :: "core \<Rightarrow> nat \<Rightarrow> core" where
  "handle_delete_lines c count =
     (let rtop = tc_scroll_region_top c; rbottom = tc_scroll_region_bottom c in
      if cur_row c < rtop \<or> cur_row c > rbottom then c
      else shift_rows_up c (cur_row c) rbottom (min count (rbottom - cur_row c + 1)))"

text \<open>The two copy loops inside a row, and the overflow entries dropped from the cursor on.\<close>

definition copy_cells :: "nat \<Rightarrow> nat list \<Rightarrow> (nat \<Rightarrow> nat) \<Rightarrow> cell list \<Rightarrow> cell list" where
  "copy_cells base dsts src cells =
     foldl (\<lambda>cells k. cells[base + k := cells ! (base + src k)]) cells dsts"

definition drop_overflow_range :: "core \<Rightarrow> nat \<Rightarrow> nat \<Rightarrow> core" where
  "drop_overflow_range c a col =
     c\<lparr>tc_overflow := overflow_clear_range (tc_overflow c) a col (tc_cols c),
       tc_overflow_ridx := overflow_ridx_clear_range (tc_overflow_ridx c) a col (tc_cols c)\<rparr>"

definition handle_insert_characters :: "core \<Rightarrow> nat \<Rightarrow> core" where
  "handle_insert_characters c count =
     (let col = cur_col c; row = cur_row c; cols = tc_cols c in
      if col \<ge> cols then c
      else
        let count = min count (cols - col) in
        if count = 0 then c
        else
          let a = viewport_abs c row; base = a * cols in
          if base + cols > length (tc_ring_cells c) then c
          else
            let col_was_spacer = (get_cell_width c col row = 0);
                c1 = c\<lparr>tc_ring_cells :=
                       copy_cells base (rev [col + count..<cols]) (\<lambda>k. k - count) (tc_ring_cells c)\<rparr>;
                c2 = fill_cells (base + col) count (bce_cell c1) c1;
                c3 = mark_row_dirty (drop_overflow_range c2 a col) row;
                c4 = (if col_was_spacer then
                        let d1 = (if col > 0 then blank_wide_pair_half c3 (col - 1) row else c3)
                        in if col + count < cols then blank_wide_pair_half d1 (col + count) row else d1
                      else c3)
            in if get_cell_width c4 (cols - 1) row = 2 then blank_wide_pair_half c4 (cols - 1) row else c4)"

definition handle_delete_characters :: "core \<Rightarrow> nat \<Rightarrow> core" where
  "handle_delete_characters c count =
     (let col = cur_col c; row = cur_row c; cols = tc_cols c in
      if col \<ge> cols then c
      else
        let count = min count (cols - col) in
        if count = 0 then c
        else
          let a = viewport_abs c row; base = a * cols in
          if base + cols > length (tc_ring_cells c) then c
          else
            let col_was_spacer = (get_cell_width c col row = 0);
                boundary = cols - count;
                boundary_shift_nonempty = (boundary > col);
                c1 = c\<lparr>tc_ring_cells :=
                       copy_cells base [col..<cols - count] (\<lambda>k. k + count) (tc_ring_cells c)\<rparr>;
                c2 = fill_cells (base + (cols - count)) count (bce_cell c1) c1;
                c3 = mark_row_dirty (drop_overflow_range c2 a col) row;
                c4 = (if col_was_spacer \<and> col > 0 then blank_wide_pair_half c3 (col - 1) row else c3);
                c5 = (if get_cell_width c4 col row = 0 then blank_wide_pair_half c4 col row else c4)
            in if boundary_shift_nonempty \<and> get_cell_width c5 (boundary - 1) row = 2
               then blank_wide_pair_half c5 (boundary - 1) row else c5)"

subsection \<open>Erasing\<close>

definition SCROLLBACK_SENTINEL :: nat where "SCROLLBACK_SENTINEL = 0xFF"

datatype range_edges = EdgeLeft | EdgeRight | EdgeBoth

definition left_edge :: "range_edges \<Rightarrow> bool" where
  "left_edge e \<longleftrightarrow> e = EdgeLeft \<or> e = EdgeBoth"

definition right_edge :: "range_edges \<Rightarrow> bool" where
  "right_edge e \<longleftrightarrow> e = EdgeRight \<or> e = EdgeBoth"

definition erase_range_with_edge_repair :: "core \<Rightarrow> nat \<Rightarrow> nat \<Rightarrow> nat \<Rightarrow> range_edges \<Rightarrow> core" where
  "erase_range_with_edge_repair c row start stop edges =
     (if stop \<le> start then clear_line_range c row start stop
      else
        let start_is_spacer = (left_edge edges \<and> get_cell_width c start row = 0);
            last_is_base = (right_edge edges \<and> get_cell_width c (stop - 1) row = 2);
            c1 = clear_line_range c row start stop;
            c2 = (if start_is_spacer \<and> start > 0 then blank_wide_pair_half c1 (start - 1) row else c1)
        in if last_is_base then blank_wide_pair_half c2 stop row else c2)"

definition handle_erase_in_line :: "core \<Rightarrow> u8 \<Rightarrow> core" where
  "handle_erase_in_line c mode =
     (if mode = 0 then erase_range_with_edge_repair c (cur_row c) (cur_col c) (tc_cols c) EdgeLeft
      else if mode = 1 then erase_range_with_edge_repair c (cur_row c) 0 (cur_col c + 1) EdgeRight
      else if mode = 2 then clear_line c (cur_row c)
      else c)"

definition handle_erase_in_display :: "core \<Rightarrow> u8 \<Rightarrow> core \<times> nat" where
  "handle_erase_in_display c mode =
     (if mode = 0 then
        let c1 = handle_erase_in_line c 0
        in (foldl clear_line c1 [cur_row c1 + 1..<tc_rows c1], 0)
      else if mode = 1 then (handle_erase_in_line (foldl clear_line c [0..<cur_row c]) 1, 0)
      else if mode = 2 then (foldl clear_line c [0..<tc_rows c], 0)
      else if mode = 3 then (c, SCROLLBACK_SENTINEL)
      else (c, 0))"

definition handle_erase_characters :: "core \<Rightarrow> nat \<Rightarrow> core" where
  "handle_erase_characters c count =
     erase_range_with_edge_repair c (cur_row c) (cur_col c)
       (min (sat_add16 (cur_col c) count) (tc_cols c)) EdgeBoth"

subsection \<open>Scrolling\<close>

definition handle_scroll_up :: "core \<Rightarrow> nat \<Rightarrow> core" where
  "handle_scroll_up c count = scroll_up_internal c count"

definition handle_scroll_down :: "core \<Rightarrow> nat \<Rightarrow> core" where
  "handle_scroll_down c count = scroll_down_internal c count"

definition handle_decstbm :: "core \<Rightarrow> nat \<Rightarrow> nat \<Rightarrow> core" where
  "handle_decstbm c rtop rbottom =
     (let t = (if rtop = 0 then 0 else min (rtop - 1) (tc_rows c - 1));
          b = (if rbottom = 0 then tc_rows c - 1 else min (rbottom - 1) (tc_rows c - 1));
          c1 = set_scroll_region c t b
      in move_cursor c1 0 (if get_mode c1 MODE_ORIGIN then tc_scroll_region_top c1 else 0))"

subsection \<open>Attributes\<close>

definition set_flag :: "flags16 \<Rightarrow> cursor_state \<Rightarrow> cursor_state" where
  "set_flag f u = u\<lparr>cu_flags := cu_flags u OR f\<rparr>"

definition unset_flag :: "flags16 \<Rightarrow> cursor_state \<Rightarrow> cursor_state" where
  "unset_flag f u = u\<lparr>cu_flags := cu_flags u AND NOT f\<rparr>"

definition sgr_reset :: "cursor_state \<Rightarrow> cursor_state" where
  "sgr_reset u = u\<lparr>cu_fg := color_default, cu_bg := color_default, cu_flags := 0\<rparr>"

text \<open>The parameters that stand alone.\<close>

definition sgr_single :: "nat \<Rightarrow> cursor_state \<Rightarrow> cursor_state" where
  "sgr_single p u =
     (if p = 0 then sgr_reset u
      else if p = 1 then set_flag STYLE_BOLD u
      else if p = 2 then set_flag STYLE_DIM u
      else if p = 3 then set_flag STYLE_ITALIC u
      else if p = 4 then set_flag STYLE_UNDERLINE u
      else if p = 5 then set_flag STYLE_BLINK u
      else if p = 7 then set_flag STYLE_REVERSE u
      else if p = 8 then set_flag STYLE_HIDDEN u
      else if p = 9 then set_flag STYLE_STRIKETHROUGH u
      else if p = 22 then unset_flag (STYLE_BOLD OR STYLE_DIM) u
      else if p = 23 then unset_flag STYLE_ITALIC u
      else if p = 24 then unset_flag STYLE_UNDERLINE u
      else if p = 25 then unset_flag STYLE_BLINK u
      else if p = 27 then unset_flag STYLE_REVERSE u
      else if p = 28 then unset_flag STYLE_HIDDEN u
      else if p = 29 then unset_flag STYLE_STRIKETHROUGH u
      else if 30 \<le> p \<and> p \<le> 37 then u\<lparr>cu_fg := color_indexed (as_u8 (p - 30))\<rparr>
      else if p = 39 then u\<lparr>cu_fg := color_default\<rparr>
      else if 40 \<le> p \<and> p \<le> 47 then u\<lparr>cu_bg := color_indexed (as_u8 (p - 40))\<rparr>
      else if p = 49 then u\<lparr>cu_bg := color_default\<rparr>
      else if 90 \<le> p \<and> p \<le> 97 then u\<lparr>cu_fg := color_indexed (as_u8 (p - 90 + 8))\<rparr>
      else if 100 \<le> p \<and> p \<le> 107 then u\<lparr>cu_bg := color_indexed (as_u8 (p - 100 + 8))\<rparr>
      else u)"

text \<open>What follows 38 or 48: the colour, if one is complete, and the parameters left over.\<close>

fun ext_color :: "nat list \<Rightarrow> packed_color option \<times> nat list" where
  "ext_color [] = (None, [])"
| "ext_color (k # rest) =
     (if k = 5 then (case rest of [] \<Rightarrow> (None, []) | n # rest \<Rightarrow> (Some (color_indexed (as_u8 n)), rest))
      else if k = 2 then
        (case rest of
           r # g # b # rest' \<Rightarrow> (Some (color_rgb (as_u8 r) (as_u8 g) (as_u8 b)), rest')
         | _ \<Rightarrow> (None, rest))
      else (None, rest))"

lemma ext_color_shorter: "length (snd (ext_color ps)) \<le> length ps"
  by (cases ps) (auto split: list.split)

function sgr_run :: "nat list \<Rightarrow> cursor_state \<Rightarrow> cursor_state" where
  "sgr_run [] u = u"
| "sgr_run (p # ps) u =
     (if p = 38 then
        sgr_run (snd (ext_color ps)) (case fst (ext_color ps) of Some col \<Rightarrow> u\<lparr>cu_fg := col\<rparr> | None \<Rightarrow> u)
      else if p = 48 then
        sgr_run (snd (ext_color ps)) (case fst (ext_color ps) of Some col \<Rightarrow> u\<lparr>cu_bg := col\<rparr> | None \<Rightarrow> u)
      else sgr_run ps (sgr_single p u))"
  by pat_completeness auto
termination
  by (relation "measure (\<lambda>(ps, u). length ps)") (auto simp: le_imp_less_Suc ext_color_shorter)

definition handle_sgr :: "core \<Rightarrow> nat list \<Rightarrow> core" where
  "handle_sgr c params = (if params = [] then upd_cursor sgr_reset c else upd_cursor (sgr_run params) c)"

subsection \<open>Modes\<close>

definition MODE_ACTION_NONE :: nat where "MODE_ACTION_NONE = 0"
definition MODE_ACTION_SWITCH_TO_ALT :: nat where "MODE_ACTION_SWITCH_TO_ALT = 1"
definition MODE_ACTION_SAVE_AND_SWITCH_TO_ALT :: nat where "MODE_ACTION_SAVE_AND_SWITCH_TO_ALT = 2"
definition MODE_ACTION_SWITCH_TO_MAIN :: nat where "MODE_ACTION_SWITCH_TO_MAIN = 3"
definition MODE_ACTION_TS_FALLBACK :: nat where "MODE_ACTION_TS_FALLBACK = 0xFF"

lemmas mode_action_defs = MODE_ACTION_NONE_def MODE_ACTION_SWITCH_TO_ALT_def
  MODE_ACTION_SAVE_AND_SWITCH_TO_ALT_def MODE_ACTION_SWITCH_TO_MAIN_def MODE_ACTION_TS_FALLBACK_def

text \<open>The modes whose whole effect is one mode bit.\<close>

definition boolean_mode :: "nat \<Rightarrow> nat option" where
  "boolean_mode mode =
     (if mode = 3 then Some MODE_COLUMN_132
      else if mode = 5 then Some MODE_REVERSE_SCREEN
      else if mode = 6 then Some MODE_ORIGIN
      else if mode = 7 then Some MODE_AUTO_WRAP
      else if mode = 12 then Some MODE_CURSOR_BLINK
      else if mode = 1004 then Some MODE_FOCUS_TRACKING
      else if mode = 2004 then Some MODE_BRACKETED_PASTE
      else if mode = 2026 then Some MODE_SYNCHRONIZED_OUTPUT
      else if mode = 1007 then Some MODE_ALTERNATE_SCROLL
      else if mode = 1000 then Some MODE_MOUSE_NORMAL_TRACKING
      else if mode = 1002 then Some MODE_MOUSE_BUTTON_EVENT_TRACKING
      else if mode = 1003 then Some MODE_MOUSE_ANY_EVENT_TRACKING
      else if mode = 1006 then Some MODE_MOUSE_SGR_ENCODING
      else None)"

definition handle_set_mode :: "core \<Rightarrow> nat \<Rightarrow> bool \<Rightarrow> core \<times> nat" where
  "handle_set_mode c mode enable =
     (case boolean_mode mode of
        Some b \<Rightarrow> (set_mode c b enable, MODE_ACTION_NONE)
      | None \<Rightarrow>
          if mode = 25 then
            let c1 = (if tc_cursor_show_interrupt c \<and> enable \<and> \<not> get_mode c MODE_CURSOR_VISIBLE
                      then c\<lparr>tc_cursor_just_shown := True\<rparr> else c)
            in (set_mode c1 MODE_CURSOR_VISIBLE enable, MODE_ACTION_NONE)
          else if mode = 47 \<or> mode = 1047 then
            (set_mode (set_mode c MODE_SYNCHRONIZED_OUTPUT False) MODE_ALT_SCREEN enable,
             if enable then MODE_ACTION_SWITCH_TO_ALT else MODE_ACTION_SWITCH_TO_MAIN)
          else if mode = 1048 then (if enable then save_cursor c else restore_cursor c, MODE_ACTION_NONE)
          else if mode = 1049 then
            (set_mode (set_mode c MODE_SYNCHRONIZED_OUTPUT False) MODE_ALT_SCREEN enable,
             if enable then MODE_ACTION_SAVE_AND_SWITCH_TO_ALT else MODE_ACTION_SWITCH_TO_MAIN)
          else if mode = 1 \<or> mode = 1005 then (c, MODE_ACTION_TS_FALLBACK)
          else (c, MODE_ACTION_NONE))"

subsection \<open>Device reports\<close>

definition write_response :: "core \<Rightarrow> u8 list \<Rightarrow> core \<times> nat" where
  "write_response c data = (c\<lparr>tc_response_queue := tc_response_queue c @ data\<rparr>, min (length data) 255)"

text \<open>The digit loop, least significant digit first.\<close>

fun digits_rev :: "nat \<Rightarrow> u8 list" where
  "digits_rev n = (if n = 0 then [] else (as_u8 (n mod 10) + 0x30) # digits_rev (n div 10))"

declare digits_rev.simps [simp del]

definition write_decimal :: "nat \<Rightarrow> u8 list" where
  "write_decimal val = (if val = 0 then [0x30] else rev (digits_rev val))"

definition format_cpr :: "core \<Rightarrow> core \<times> nat" where
  "format_cpr c =
     (let row = sat_add16 (cur_row c) 1; col = sat_add16 (cur_col c) 1
      in write_response c ([0x1B, 0x5B] @ write_decimal row @ [0x3B] @ write_decimal col @ [0x52]))"

definition handle_device_status_report :: "core \<Rightarrow> u8 \<Rightarrow> core \<times> nat" where
  "handle_device_status_report c ps =
     (if ps = 5 then write_response c [0x1B, 0x5B, 0x30, 0x6E]
      else if ps = 6 then format_cpr c else (c, 0))"

definition handle_primary_device_attributes :: "core \<Rightarrow> core \<times> nat" where
  "handle_primary_device_attributes c = write_response c
     [0x1B, 0x5B, 0x3F, 0x36, 0x35, 0x3B, 0x31, 0x3B, 0x34, 0x3B, 0x32, 0x32, 0x63]"

definition handle_secondary_device_attributes :: "core \<Rightarrow> core \<times> nat" where
  "handle_secondary_device_attributes c = write_response c
     [0x1B, 0x5B, 0x3E, 0x36, 0x35, 0x3B, 0x31, 0x3B, 0x30, 0x63]"

definition take_response :: "core \<Rightarrow> u8 list \<times> core" where
  "take_response c = (tc_response_queue c, c\<lparr>tc_response_queue := []\<rparr>)"

definition decrpm_value :: "core \<Rightarrow> nat \<Rightarrow> nat" where
  "decrpm_value c mode =
     (let report = (\<lambda>b. if get_mode c b then 1 else 2) in
      if mode = 3 then report MODE_COLUMN_132
      else if mode = 5 then report MODE_REVERSE_SCREEN
      else if mode = 6 then report MODE_ORIGIN
      else if mode = 7 then report MODE_AUTO_WRAP
      else if mode = 12 then report MODE_CURSOR_BLINK
      else if mode = 25 then report MODE_CURSOR_VISIBLE
      else if mode = 1004 then report MODE_FOCUS_TRACKING
      else if mode = 2004 then report MODE_BRACKETED_PASTE
      else if mode = 2026 then report MODE_SYNCHRONIZED_OUTPUT
      else if mode \<in> {1, 47, 1000, 1002, 1003, 1005, 1006, 1047, 1048, 1049} then 2
      else 0)"

definition handle_decrpm :: "core \<Rightarrow> nat \<Rightarrow> core \<times> nat" where
  "handle_decrpm c mode = write_response c
     ([0x1B, 0x5B, 0x3F] @ write_decimal mode @ [0x3B, as_u8 (decrpm_value c mode) + 0x30, 0x24, 0x79])"

definition format_xtwinops :: "core \<Rightarrow> nat \<Rightarrow> nat \<Rightarrow> nat \<Rightarrow> core \<times> nat" where
  "format_xtwinops c ps p1 p2 = write_response c
     ([0x1B, 0x5B, as_u8 ps + 0x30, 0x3B] @ write_decimal p1 @ [0x3B] @ write_decimal p2 @ [0x74])"

definition handle_xtwinops_text_area_px :: "core \<Rightarrow> core \<times> nat" where
  "handle_xtwinops_text_area_px c =
     format_xtwinops c 4 (tc_rows c * tc_cell_height_px c) (tc_cols c * tc_cell_width_px c)"

definition handle_xtwinops_cell_size :: "core \<Rightarrow> core \<times> nat" where
  "handle_xtwinops_cell_size c = format_xtwinops c 6 (tc_cell_height_px c) (tc_cell_width_px c)"

definition handle_xtwinops_text_area_chars :: "core \<Rightarrow> core \<times> nat" where
  "handle_xtwinops_text_area_chars c = format_xtwinops c 8 (tc_rows c) (tc_cols c)"

subsection \<open>Dispatch\<close>

text \<open>One parameter of \<open>CSI ? ... h\<close> or \<open>CSI ? ... l\<close>: the mode handler and the action queue.\<close>

definition set_mode_param :: "bool \<Rightarrow> core \<Rightarrow> nat \<Rightarrow> core" where
  "set_mode_param enable c p =
     (let (c1, action) = handle_set_mode c p enable in
      if action = 0 then c1
      else if action = MODE_ACTION_TS_FALLBACK
      then c1\<lparr>tc_mode_actions := tc_mode_actions c1 @ [if enable then 0xFF else 0xFE, p mod 256, p div 256 mod 256]\<rparr>
      else c1\<lparr>tc_mode_actions := tc_mode_actions c1 @ [action]\<rparr>)"

definition csi_plain :: "core \<Rightarrow> nat list \<Rightarrow> u8 \<Rightarrow> core" where
  "csi_plain c params final_byte =
     (let one = get_first_or_one params; zero = get_first_or_zero params in
      if final_byte = 0x41 then handle_cursor_up c one
      else if final_byte = 0x42 then handle_cursor_down c one
      else if final_byte = 0x43 then handle_cursor_forward c one
      else if final_byte = 0x44 then handle_cursor_back c one
      else if final_byte = 0x45 then handle_cursor_next_line c one
      else if final_byte = 0x46 then handle_cursor_previous_line c one
      else if final_byte = 0x47 then handle_cursor_horizontal_absolute c one
      else if final_byte = 0x48 \<or> final_byte = 0x66
      then handle_cursor_position c (get_param params 0 1) (get_param params 1 1)
      else if final_byte = 0x64 then handle_cursor_vertical_absolute c one
      else if final_byte = 0x4A then
        (let (c1, r) = handle_erase_in_display c (as_u8 zero)
         in if r = SCROLLBACK_SENTINEL then clear_scrollback c1 else c1)
      else if final_byte = 0x4B then handle_erase_in_line c (as_u8 zero)
      else if final_byte = 0x58 then handle_erase_characters c one
      else if final_byte = 0x40 then handle_insert_characters c one
      else if final_byte = 0x50 then handle_delete_characters c one
      else if final_byte = 0x4C then handle_insert_lines c one
      else if final_byte = 0x4D then handle_delete_lines c one
      else if final_byte = 0x53 then handle_scroll_up c one
      else if final_byte = 0x54 then handle_scroll_down c one
      else if final_byte = 0x72 then handle_decstbm c (get_param params 0 1) (get_param params 1 0)
      else if final_byte = 0x6D then handle_sgr c params
      else if final_byte = 0x6E then fst (handle_device_status_report c (as_u8 zero))
      else if final_byte = 0x63 then fst (handle_primary_device_attributes c)
      else if final_byte = 0x74 then
        (if zero = 14 then fst (handle_xtwinops_text_area_px c)
         else if zero = 16 then fst (handle_xtwinops_cell_size c)
         else if zero = 18 then fst (handle_xtwinops_text_area_chars c) else c)
      else c)"

definition csi_private :: "core \<Rightarrow> nat list \<Rightarrow> u8 list \<Rightarrow> u8 \<Rightarrow> core" where
  "csi_private c params intermediates final_byte =
     (if final_byte = 0x68 then foldl (set_mode_param True) c params
      else if final_byte = 0x6C then foldl (set_mode_param False) c params
      else if final_byte = 0x63 then fst (handle_primary_device_attributes c)
      else if final_byte = 0x70 \<and> 1 < length intermediates \<and> intermediates ! 1 = 0x24
      then fst (handle_decrpm c (get_first_or_zero params))
      else c)"

definition handle_csi_internal :: "core \<Rightarrow> nat list \<Rightarrow> u8 list \<Rightarrow> u8 \<Rightarrow> core" where
  "handle_csi_internal c params intermediates final_byte =
     (case intermediates of
        [] \<Rightarrow> csi_plain c params final_byte
      | i # _ \<Rightarrow>
          if i = 0x3F then csi_private c params intermediates final_byte
          else if i = 0x20 \<and> final_byte = 0x71 then handle_decscusr c (get_first_or_zero params)
          else if i = 0x3E \<and> final_byte = 0x63 then fst (handle_secondary_device_attributes c)
          else c)"

end
