(* ===== verification/EscHandlers.thy ===== *)
theory EscHandlers
  imports Scroll
begin

text \<open>
  Control characters (\<open>c0_handler.rs\<close>), escape sequences (\<open>esc_handler.rs\<close>) and the
  classification of application program commands (\<open>apc_handler.rs\<close>).
\<close>

subsection \<open>Control characters\<close>

definition BEL_SENTINEL :: nat where "BEL_SENTINEL = 0xFE"

definition find_next_tab_stop :: "core \<Rightarrow> nat" where
  "find_next_tab_stop c = next_tab_stop c (cur_col c)"

definition execute_line_feed :: "core \<Rightarrow> core" where
  "execute_line_feed c = (line_feed c)\<lparr>tc_wrap_pending := False\<rparr>"

definition handle_execute :: "core \<Rightarrow> u8 \<Rightarrow> core \<times> nat" where
  "handle_execute c byte =
     (if byte = 0x07 then (c, BEL_SENTINEL)
      else if byte = 0x08 then
        ((upd_cursor (\<lambda>u. u\<lparr>cu_col := cu_col u - 1\<rparr>) c)\<lparr>tc_wrap_pending := False\<rparr>, 0)
      else if byte = 0x09 then
        ((upd_cursor (\<lambda>u. u\<lparr>cu_col := find_next_tab_stop c\<rparr>) c)\<lparr>tc_wrap_pending := False\<rparr>, 0)
      else if byte = 0x0A \<or> byte = 0x0B \<or> byte = 0x0C then (execute_line_feed c, 0)
      else if byte = 0x0D then
        ((upd_cursor (\<lambda>u. u\<lparr>cu_col := 0\<rparr>) c)\<lparr>tc_wrap_pending := False\<rparr>, 0)
      else if byte = 0x0E then (c\<lparr>tc_active_charset := 1\<rparr>, 0)
      else if byte = 0x0F then (c\<lparr>tc_active_charset := 0\<rparr>, 0)
      else (c, 0))"

definition handle_execute_internal :: "core \<Rightarrow> u8 \<Rightarrow> core" where
  "handle_execute_internal c byte =
     (if byte = 0x07 then fire_bell_callback c else fst (handle_execute c byte))"

subsection \<open>Escape sequences\<close>

definition esc_index :: "core \<Rightarrow> core" where
  "esc_index c =
     (if cur_row c \<ge> tc_scroll_region_bottom c then scroll_up_internal c 1
      else upd_cursor (\<lambda>u. u\<lparr>cu_row := cu_row u + 1\<rparr>) c)"

definition esc_next_line :: "core \<Rightarrow> core" where
  "esc_next_line c = esc_index (upd_cursor (\<lambda>u. u\<lparr>cu_col := 0\<rparr>) c)"

definition esc_reverse_index :: "core \<Rightarrow> core" where
  "esc_reverse_index c =
     (if cur_row c \<le> tc_scroll_region_top c then scroll_down_internal c 1
      else upd_cursor (\<lambda>u. u\<lparr>cu_row := cu_row u - 1\<rparr>) c)"

definition esc_horizontal_tab_set :: "core \<Rightarrow> core" where
  "esc_horizontal_tab_set c = set_tab_stop c (cur_col c)"

definition esc_full_reset :: "core \<Rightarrow> core" where
  "esc_full_reset c = core_reset c"

text \<open>The numeric entry point.\<close>

definition handle_esc :: "core \<Rightarrow> nat \<Rightarrow> nat \<Rightarrow> core" where
  "handle_esc c action data =
     (if action = 0 then save_cursor c
      else if action = 1 then restore_cursor c
      else if action = 2 then esc_index c
      else if action = 3 then esc_next_line c
      else if action = 4 then esc_reverse_index c
      else if action = 5 then esc_horizontal_tab_set c
      else if action = 6 then esc_full_reset c
      else if action = 7 then set_g0_charset c data
      else if action = 8 then set_g1_charset c data
      else c)"

definition charset_byte_to_value :: "u8 \<Rightarrow> nat" where
  "charset_byte_to_value byte = (if byte = 0x30 then 1 else 0)"

definition handle_esc_internal :: "core \<Rightarrow> u8 option \<Rightarrow> u8 \<Rightarrow> core" where
  "handle_esc_internal c intermediate final_byte =
     (case intermediate of
        Some i \<Rightarrow>
          if i = 0x28 then set_g0_charset c (charset_byte_to_value final_byte)
          else if i = 0x29 then set_g1_charset c (charset_byte_to_value final_byte)
          else c
      | None \<Rightarrow>
          if final_byte = 0x37 then save_cursor c
          else if final_byte = 0x38 then restore_cursor c
          else if final_byte = 0x44 then esc_index c
          else if final_byte = 0x45 then esc_next_line c
          else if final_byte = 0x4D then esc_reverse_index c
          else if final_byte = 0x48 then esc_horizontal_tab_set c
          else if final_byte = 0x63 then esc_full_reset c
          else c)"

subsection \<open>Kitty graphics commands\<close>

datatype kitty_apc_result = NotKitty | QueryHandled | FinalChunk | MoreChunks

text \<open>\<open>slice::split\<close>: the pieces between separators, at least one.\<close>

fun split_bytes :: "u8 \<Rightarrow> u8 list \<Rightarrow> u8 list list" where
  "split_bytes sep [] = [[]]"
| "split_bytes sep (b # bs) =
     (if b = sep then [] # split_bytes sep bs
      else case split_bytes sep bs of [] \<Rightarrow> [[b]] | p # ps \<Rightarrow> (b # p) # ps)"

text \<open>One \<open>key=value\<close> pair: the action and the more-chunks flag after it.\<close>

definition kitty_pair :: "u8 \<times> bool \<Rightarrow> u8 list \<Rightarrow> u8 \<times> bool" where
  "kitty_pair st pair =
     (let key = takeWhile (\<lambda>b. b \<noteq> 0x3D) pair; rest = dropWhile (\<lambda>b. b \<noteq> 0x3D) pair in
      case rest of
        [] \<Rightarrow> st
      | _ # val \<Rightarrow>
          if key = [0x61] then (case val of [] \<Rightarrow> st | v # _ \<Rightarrow> (v, snd st))
          else if key = [0x6D] then (if val = [0x31] then (fst st, True) else st)
          else st)"

definition handle_kitty_apc :: "u8 list \<Rightarrow> kitty_apc_result" where
  "handle_kitty_apc payload =
     (case payload of
        [] \<Rightarrow> NotKitty
      | g # data \<Rightarrow>
          if g \<noteq> 0x47 then NotKitty
          else
            let control_data = takeWhile (\<lambda>b. b \<noteq> 0x3B) data;
                (action, more_chunks) = foldl kitty_pair (0x74, False) (split_bytes 0x2C control_data);
                is_query = (action = 0x71)
            in if more_chunks \<and> \<not> is_query then MoreChunks
               else if is_query then QueryHandled else FinalChunk)"

end
