(* ===== verification/OscHandler.thy ===== *)
theory OscHandler
  imports Scroll
begin

text \<open>
  Operating system commands (\<open>osc_handler.rs\<close>): the responder hook, hyperlinks and their
  garbage collection, semantic prompt marks, fold marks and the cursor shape; with the mark queues
  of \<open>terminal_core.rs\<close>.
\<close>

subsection \<open>The responder\<close>

definition MAX_OSC_RESPONDER_BYTES_PER_PARSE_PASS :: nat where
  "MAX_OSC_RESPONDER_BYTES_PER_PARSE_PASS = 8192"

definition append_within_budget :: "core \<Rightarrow> u8 list \<Rightarrow> core" where
  "append_within_budget c response =
     (if length (tc_response_queue c) + length response > MAX_OSC_RESPONDER_BYTES_PER_PARSE_PASS then c
      else c\<lparr>tc_response_queue := tc_response_queue c @ response\<rparr>)"

definition consult_osc_responder :: "core \<Rightarrow> nat \<Rightarrow> rstring \<Rightarrow> osc_terminator \<Rightarrow> nat \<Rightarrow> core" where
  "consult_osc_responder c code payload terminator received_len =
     (case tc_osc_responder c of
        None \<Rightarrow> c
      | Some respond \<Rightarrow> foldl append_within_budget c (respond code payload terminator received_len))"

subsection \<open>Hyperlinks\<close>

definition live_hyperlinks :: "core \<Rightarrow> nat \<Rightarrow> bool" where
  "live_hyperlinks c i \<longleftrightarrow>
     (i \<noteq> 0 \<and> i = tc_active_hyperlink_id c) \<or> list_ex (\<lambda>cl. cl_hyperlink_id cl \<noteq> 0 \<and> cl_hyperlink_id cl = i) (tc_ring_cells c)"

definition gc_hyperlink_table :: "core \<Rightarrow> core" where
  "gc_hyperlink_table c =
     c\<lparr>tc_hyperlink_table := map (\<lambda>(i, e). if i = 0 then e
         else if e \<noteq> None \<and> \<not> live_hyperlinks c (i mod 65536) then None else e)
       (enumerate 0 (tc_hyperlink_table c))\<rparr>"

definition allocate_hyperlink :: "core \<Rightarrow> rstring \<Rightarrow> rstring \<Rightarrow> core \<times> nat" where
  "allocate_hyperlink c params uri =
     (let c1 = (if length (tc_hyperlink_table c) > 1024 then gc_hyperlink_table c else c);
          i = tc_hyperlink_next_id c1;
          table = tc_hyperlink_table c1 @ replicate (i + 1 - length (tc_hyperlink_table c1)) None
      in (c1\<lparr>tc_hyperlink_table := table[i := Some (params, uri)],
             tc_hyperlink_next_id := (if i = U16_MAX then 1 else i + 1)\<rparr>, i))"

subsection \<open>Strings\<close>

text \<open>\<open>str::find\<close> with a separator: the parts before and after its first occurrence.\<close>

definition split_once :: "u8 \<Rightarrow> rstring \<Rightarrow> (rstring \<times> rstring) option" where
  "split_once sep s =
     (case dropWhile (\<lambda>b. b \<noteq> sep) s of
        [] \<Rightarrow> None | _ # rest \<Rightarrow> Some (takeWhile (\<lambda>b. b \<noteq> sep) s, rest))"

fun strip_prefix :: "rstring \<Rightarrow> rstring \<Rightarrow> rstring option" where
  "strip_prefix [] s = Some s"
| "strip_prefix (p # ps) [] = None"
| "strip_prefix (p # ps) (b # bs) = (if p = b then strip_prefix ps bs else None)"

text \<open>\<open>str::parse::<i32>\<close>: an optional sign, at least one digit, no overflow.\<close>

definition digits_value :: "u8 list \<Rightarrow> nat" where
  "digits_value ds = foldl (\<lambda>n b. 10 * n + (unat b - 0x30)) 0 ds"

definition parse_i32 :: "rstring \<Rightarrow> int option" where
  "parse_i32 s =
     (let neg = (case s of b # _ \<Rightarrow> b = 0x2D | [] \<Rightarrow> False);
          ds = (case s of b # rest \<Rightarrow> if b = 0x2D \<or> b = 0x2B then rest else s | [] \<Rightarrow> []);
          v = (if neg then - int (digits_value ds) else int (digits_value ds))
      in if ds = [] \<or> \<not> list_all (in_range 0x30 0x39) ds then None
         else if - 2147483648 \<le> v \<and> v \<le> 2147483647 then Some v else None)"

text \<open>\<open>str::trim_end\<close> on the characters with the property \<open>White_Space\<close>.\<close>

definition is_whitespace :: "nat \<Rightarrow> bool" where
  "is_whitespace cp \<longleftrightarrow>
     (0x9 \<le> cp \<and> cp \<le> 0xD) \<or> cp = 0x20 \<or> cp = 0x85 \<or> cp = 0xA0 \<or> cp = 0x1680
     \<or> (0x2000 \<le> cp \<and> cp \<le> 0x200A) \<or> cp = 0x2028 \<or> cp = 0x2029 \<or> cp = 0x202F \<or> cp = 0x205F \<or> cp = 0x3000"

definition trim_end :: "rstring \<Rightarrow> rstring" where
  "trim_end s = concat (map utf8_encode (rev (dropWhile is_whitespace (rev (utf8_chars s)))))"

subsection \<open>Prompt marks\<close>

definition cursor_abs_row :: "core \<Rightarrow> nat" where
  "cursor_abs_row c = get_scrollback_length c + cur_row c"

definition viewport_row_text :: "core \<Rightarrow> nat \<Rightarrow> rstring" where
  "viewport_row_text c row =
     concat (map (\<lambda>col. if get_cell_width c col row = 0 then [] else get_cell_char c col row) [0..<tc_cols c])"

definition capture_b_mark :: "core \<Rightarrow> nat \<Rightarrow> core" where
  "capture_b_mark c abs_row =
     (let texts = (if length (tc_bypass_b_mark_texts c) \<ge> MAX_PENDING_PROMPT_MARKS then
                     (case tc_pending_prompt_marks c of
                        [] \<Rightarrow> tc_bypass_b_mark_texts c
                      | oldest # _ \<Rightarrow> AList.delete (pm_abs_row oldest) (tc_bypass_b_mark_texts c))
                   else tc_bypass_b_mark_texts c)
      in c\<lparr>tc_bypass_b_mark_texts :=
             AList.update abs_row (trim_end (viewport_row_text c (cur_row c))) texts\<rparr>)"

definition push_pending_prompt_mark :: "core \<Rightarrow> u8 \<Rightarrow> int option \<Rightarrow> core" where
  "push_pending_prompt_mark c kind exit_code =
     (let abs_row = cursor_abs_row c;
          mark = \<lparr>pm_kind = kind, pm_abs_row = abs_row, pm_exit_code = exit_code,
                  pm_evicted_total = tc_scrollback_evicted_total c\<rparr>;
          c1 = (if length (tc_pending_prompt_marks c) \<ge> MAX_PENDING_PROMPT_MARKS then
                  (case tc_pending_prompt_marks c of
                     [] \<Rightarrow> c
                   | evicted # rest \<Rightarrow>
                       c\<lparr>tc_pending_prompt_marks := rest,
                         tc_bypass_b_mark_texts := AList.delete (pm_abs_row evicted) (tc_bypass_b_mark_texts c)\<rparr>)
                else c);
          c2 = c1\<lparr>tc_pending_prompt_marks := tc_pending_prompt_marks c1 @ [mark]\<rparr>
      in if tc_capture_bypass_b_marks c2 \<and> kind = 0x42 then capture_b_mark c2 abs_row else c2)"

definition parse_osc133_mark :: "rstring \<Rightarrow> (u8 \<times> int option) option" where
  "parse_osc133_mark data =
     (let (head, rest) = (case split_once 0x3B data of None \<Rightarrow> (data, None) | Some (h, r) \<Rightarrow> (h, Some r)) in
      if head \<in> {[0x41], [0x42], [0x43], [0x44]} then
        let kind = hd head;
            exit_code = (if kind = 0x44 then
                           (case rest of None \<Rightarrow> None | Some r \<Rightarrow> parse_i32 (takeWhile (\<lambda>b. b \<noteq> 0x3B) r))
                         else None)
        in Some (kind, exit_code)
      else None)"

subsection \<open>Fold marks\<close>

definition MAX_FOLD_LABEL_BYTES :: nat where "MAX_FOLD_LABEL_BYTES = 256"

definition push_pending_fold_mark :: "core \<Rightarrow> fold_mark_kind \<Rightarrow> rstring \<Rightarrow> core" where
  "push_pending_fold_mark c kind label =
     (let mark = \<lparr>fm_kind = kind, fm_abs_row = cursor_abs_row c,
                  fm_evicted_total = tc_scrollback_evicted_total c, fm_label = label\<rparr>;
          marks = (if length (tc_pending_fold_marks c) \<ge> MAX_PENDING_FOLD_MARKS
                   then tl (tc_pending_fold_marks c) else tc_pending_fold_marks c)
      in c\<lparr>tc_pending_fold_marks := marks @ [mark]\<rparr>)"

text \<open>The start offsets of the characters of a string (\<open>char_indices\<close>).\<close>

function char_offsets :: "nat \<Rightarrow> rstring \<Rightarrow> nat list" where
  "char_offsets i s =
     (if s = [] then [] else i # char_offsets (i + snd (utf8_step s)) (drop (snd (utf8_step s)) s))"
  by auto
termination
  by (relation "measure (\<lambda>(i, s). length s)") (auto simp: utf8_step_pos)

declare char_offsets.simps [simp del]

definition truncate_to_char_boundary :: "rstring \<Rightarrow> nat \<Rightarrow> rstring" where
  "truncate_to_char_boundary s max_bytes =
     (if length s \<le> max_bytes then s
      else take (foldl (\<lambda>_ i. i) 0 (takeWhile (\<lambda>i. i \<le> max_bytes) (char_offsets 0 s))) s)"

text \<open>\<open>emterm;fold;\<close>, \<open>begin;\<close>, \<open>begin\<close> and \<open>end\<close>.\<close>

definition fold_prefix :: rstring where
  "fold_prefix = [0x65, 0x6D, 0x74, 0x65, 0x72, 0x6D, 0x3B, 0x66, 0x6F, 0x6C, 0x64, 0x3B]"

definition fold_begin :: rstring where "fold_begin = [0x62, 0x65, 0x67, 0x69, 0x6E]"
definition fold_end :: rstring where "fold_end = [0x65, 0x6E, 0x64]"

definition parse_emterm_fold_mark :: "rstring \<Rightarrow> (fold_mark_kind \<times> rstring) option" where
  "parse_emterm_fold_mark data =
     (case strip_prefix fold_prefix data of
        None \<Rightarrow> None
      | Some rest \<Rightarrow>
          (case strip_prefix (fold_begin @ [0x3B]) rest of
             Some label \<Rightarrow> Some (FoldBegin, truncate_to_char_boundary label MAX_FOLD_LABEL_BYTES)
           | None \<Rightarrow>
               if rest = fold_begin then Some (FoldBegin, [])
               else if rest = fold_end then Some (FoldEnd, [])
               else None))"

subsection \<open>Dispatch\<close>

definition osc_action_type :: "core \<Rightarrow> nat \<Rightarrow> nat" where
  "osc_action_type c param =
     (let native =
        (if param \<in> {0, 1, 2, 4, 7, 8, 9, 10, 11, 12, 22, 52, 104, 110, 111, 112, 133} then param
         else if param = 777 then 100 else if param = 1337 then 101 else 255)
      in if native = 255 then
           (case find (\<lambda>e. fst e = param) (tc_osc_app_params c) of Some (_, a) \<Rightarrow> a | None \<Rightarrow> 255)
         else native)"

definition handle_hyperlink :: "core \<Rightarrow> rstring \<Rightarrow> core" where
  "handle_hyperlink c data =
     (case split_once 0x3B data of
        None \<Rightarrow> c
      | Some (params, uri) \<Rightarrow>
          if uri = [] then c\<lparr>tc_active_hyperlink_id := 0\<rparr>
          else let (c1, i) = allocate_hyperlink c params uri in c1\<lparr>tc_active_hyperlink_id := i\<rparr>)"

definition handle_cursor_shape :: "core \<Rightarrow> rstring \<Rightarrow> core" where
  "handle_cursor_shape c data =
     (if data = [0x62, 0x6C, 0x6F, 0x63, 0x6B] then c\<lparr>tc_cursor_style_override := Some 0\<rparr>
      else if data = [0x75, 0x6E, 0x64, 0x65, 0x72, 0x6C, 0x69, 0x6E, 0x65]
      then c\<lparr>tc_cursor_style_override := Some 1\<rparr>
      else if data = [0x62, 0x61, 0x72] then c\<lparr>tc_cursor_style_override := Some 2\<rparr>
      else if data = [] then c\<lparr>tc_cursor_style_override := None\<rparr>
      else c)"

definition handle_osc_internal :: "core \<Rightarrow> nat \<Rightarrow> rstring \<Rightarrow> osc_terminator \<Rightarrow> nat \<Rightarrow> core" where
  "handle_osc_internal c0 param data terminator received_len =
     (let c = consult_osc_responder c0 param data terminator received_len in
      if param = 8 then fire_osc_callback (handle_hyperlink c data) 8 data
      else
        let action_type = osc_action_type c param;
            c1 = (if param = 133 \<and> \<not> get_mode c MODE_ALT_SCREEN then
                    (case parse_osc133_mark data of
                       Some (kind, exit_code) \<Rightarrow> push_pending_prompt_mark c kind exit_code | None \<Rightarrow> c)
                  else c);
            c2 = (if param = 777 \<and> \<not> get_mode c1 MODE_ALT_SCREEN then
                    (case parse_emterm_fold_mark data of
                       Some (kind, label) \<Rightarrow> push_pending_fold_mark c1 kind label | None \<Rightarrow> c1)
                  else c1);
            c3 = (if param = 22 then handle_cursor_shape c2 data else c2)
        in fire_osc_callback c3 action_type data)"

end
