(* ===== verification/VtParserFacts.thy ===== *)
theory VtParserFacts
  imports VtParser
begin

text \<open>
  Correctness of the escape-sequence parser: the bounds invariant and the shape of every emitted
  action (through the interface \<open>byte_machine\<close>), independence of the split of the input
  into chunks, recovery, the three entry points agreeing with each other, and round trips for
  printed characters, CSI and OSC sequences.
\<close>

subsection \<open>Invariant and emitted actions\<close>

text \<open>An unfinished UTF-8 sequence: a lead byte and fewer continuation bytes than it announces.\<close>

definition incomplete :: "u8 list \<Rightarrow> bool" where
  "incomplete buf \<longleftrightarrow>
     (case expected_len (hd buf) of None \<Rightarrow> False | Some n \<Rightarrow> length buf < n)
     \<and> list_all is_cont (tl buf)"

definition utf8_pending_ok :: "parser \<Rightarrow> bool" where
  "utf8_pending_ok p \<longleftrightarrow>
     (ps_utf8_buffer p \<noteq> [] \<longrightarrow> ps_state p = Ground \<and> incomplete (ps_utf8_buffer p))"

definition parser_ok :: "parser \<Rightarrow> bool" where
  "parser_ok p \<longleftrightarrow>
     param_parser_ok (ps_params p)
     \<and> list_all (in_range 0x20 0x3F) (pp_intermediates (ps_params p))
     \<and> length (ps_osc_buffer p) \<le> min MAX_OSC_LEN (ps_osc_received_len p)
     \<and> ps_osc_received_len p \<le> USIZE_MAX
     \<and> ps_osc_param p \<le> U16_MAX
     \<and> length (ps_apc_buffer p) \<le> MAX_APC_LEN
     \<and> length (ps_dcs_buffer p) \<le> MAX_DCS_LEN
     \<and> (\<forall>d. ps_state p = EscapeCharset d \<longrightarrow> d \<in> {0x28, 0x29})
     \<and> utf8_pending_ok p"

text \<open>What a host may rely on for each emitted action.\<close>

fun action_ok :: "parsed_action \<Rightarrow> bool" where
  "action_ok (Print c) \<longleftrightarrow> is_scalar c \<and> 0x20 \<le> c \<and> c \<noteq> 0x7F"
| "action_ok (Execute b) \<longleftrightarrow> b < 0x20 \<and> b \<noteq> 0x1B"
| "action_ok (CsiDispatch ps n is k f) \<longleftrightarrow>
     length ps = MAX_CSI_PARAMS \<and> n \<le> MAX_CSI_PARAMS \<and> list_all (\<lambda>x. x \<le> MAX_PARAM_VALUE) ps
     \<and> length is = MAX_CSI_INTERMEDIATES \<and> k \<le> MAX_CSI_INTERMEDIATES
     \<and> list_all (in_range 0x20 0x3F) (take k is) \<and> in_range 0x40 0x7E f"
| "action_ok (EscDispatch None b) \<longleftrightarrow> b \<notin> {0x1B, 0x28, 0x29, 0x50, 0x5B, 0x5D, 0x5F}"
| "action_ok (EscDispatch (Some d) b) \<longleftrightarrow> d \<in> {0x28, 0x29}"
| "action_ok (OscDispatch ps data t n) \<longleftrightarrow> ps \<le> U16_MAX \<and> utf8_valid data \<and> n \<le> USIZE_MAX"
| "action_ok (ApcDispatch data) \<longleftrightarrow> length data \<le> MAX_APC_LEN"
| "action_ok (DcsDispatch data) \<longleftrightarrow> length data \<le> MAX_DCS_LEN"

definition handler_ok :: "parser \<times> parsed_action list \<Rightarrow> bool" where
  "handler_ok r \<longleftrightarrow> parser_ok (fst r) \<and> list_all action_ok (snd r)"

lemma parser_new_ok [simp]: "parser_ok parser_new"
  by (simp add: parser_ok_def parser_new_def utf8_pending_ok_def param_parser_new_def
      param_parser_ok_def)

lemma parser_reset_ok [simp]: "parser_ok (parser_reset p)"
  by (simp add: parser_ok_def parser_reset_def utf8_pending_ok_def pp_reset_def
      param_parser_ok_def)

lemma parser_reset_ground_clean [simp]: "is_ground_clean (parser_reset p)"
  by (simp add: is_ground_clean_def parser_reset_def)

lemma no_pending: "parser_ok p \<Longrightarrow> ps_state p \<noteq> Ground \<Longrightarrow> ps_utf8_buffer p = []"
  by (auto simp: parser_ok_def utf8_pending_ok_def)

text \<open>Updates that keep the invariant.\<close>

lemma parser_ok_state:
  "parser_ok p \<Longrightarrow> ps_utf8_buffer p = [] \<Longrightarrow> (\<And>d. s = EscapeCharset d \<Longrightarrow> d \<in> {0x28, 0x29}) \<Longrightarrow>
     parser_ok (p\<lparr>ps_state := s\<rparr>)"
  by (auto simp: parser_ok_def utf8_pending_ok_def)

lemma parser_ok_params:
  "parser_ok p \<Longrightarrow> param_parser_ok q \<Longrightarrow> list_all (in_range 0x20 0x3F) (pp_intermediates q) \<Longrightarrow>
     parser_ok (p\<lparr>ps_params := q\<rparr>)"
  by (simp add: parser_ok_def utf8_pending_ok_def)

lemma parser_ok_utf8:
  "parser_ok p \<Longrightarrow> utf8_pending_ok (p\<lparr>ps_utf8_buffer := q\<rparr>) \<Longrightarrow> parser_ok (p\<lparr>ps_utf8_buffer := q\<rparr>)"
  by (simp add: parser_ok_def)

lemma parser_ok_apc:
  "parser_ok p \<Longrightarrow> length q \<le> MAX_APC_LEN \<Longrightarrow> parser_ok (p\<lparr>ps_apc_buffer := q\<rparr>)"
  by (simp add: parser_ok_def utf8_pending_ok_def)

lemma parser_ok_dcs:
  "parser_ok p \<Longrightarrow> length q \<le> MAX_DCS_LEN \<Longrightarrow> parser_ok (p\<lparr>ps_dcs_buffer := q\<rparr>)"
  by (simp add: parser_ok_def utf8_pending_ok_def)

lemma parser_ok_osc_reset:
  "parser_ok p \<Longrightarrow> parser_ok (p\<lparr>ps_osc_buffer := [], ps_osc_param := 0,
     ps_osc_param_done := False, ps_osc_received_len := 0\<rparr>)"
  by (simp add: parser_ok_def utf8_pending_ok_def)

lemma parser_okD:
  assumes "parser_ok p"
  shows "param_parser_ok (ps_params p)"
    "list_all (in_range 0x20 0x3F) (pp_intermediates (ps_params p))"
    "ps_osc_param p \<le> U16_MAX" "ps_osc_received_len p \<le> USIZE_MAX"
    "length (ps_apc_buffer p) \<le> MAX_APC_LEN" "length (ps_dcs_buffer p) \<le> MAX_DCS_LEN"
  using assms by (simp_all add: parser_ok_def)

lemma pp_intermediates_simps [simp]:
  "pp_intermediates (pp_reset q) = []" "pp_intermediates (add_digit q b) = pp_intermediates q"
  "pp_intermediates (finish_param q) = pp_intermediates q"
  by (simp_all add: pp_defs Let_def)

lemma add_intermediate_range:
  "list_all (in_range 0x20 0x3F) (pp_intermediates q) \<Longrightarrow> in_range 0x20 0x3F b \<Longrightarrow>
     list_all (in_range 0x20 0x3F) (pp_intermediates (add_intermediate q b))"
  by (simp add: add_intermediate_def)

subsection \<open>Every handler keeps the invariant\<close>

lemma ground_match_ok:
  assumes "parser_ok p" and "ps_state p = Ground" and "ps_utf8_buffer p = []"
  shows "handler_ok (ground_match p b)"
proof -
  have push: "parser_ok (p\<lparr>ps_utf8_buffer := [b]\<rparr>)"
    if "expected_len b = Some n" "1 < n" for n
    by (rule parser_ok_utf8 [OF assms(1)]) (use that in \<open>simp add: utf8_pending_ok_def incomplete_def assms\<close>)
  have esc: "parser_ok (p\<lparr>ps_state := Escape\<rparr>)"
    by (rule parser_ok_state) (use assms in simp_all)
  show ?thesis
    unfolding ground_match_def handler_ok_def
    using assms esc push by (auto simp: expected_len_def is_scalar_def u8_unat)
qed

lemma utf8_chars_hd:
  assumes "utf8_valid buf" and "buf \<noteq> []" and "0x80 \<le> hd buf"
  obtains c rest where "utf8_chars buf = c # rest" "is_scalar c" "0x80 \<le> c"
proof -
  let ?n = "snd (utf8_step buf)"
  have ok: "fst (utf8_step buf)" using assms(1,2) by (simp add: utf8_valid.simps [of buf])
  have "byte_at buf 0 = hd buf" using assms(2) by (simp add: byte_at_def hd_conv_nth)
  with ok assms(3) have "1 < ?n"
    by (auto simp: utf8_step_def Let_def not_less split: if_splits)
  with utf8_value_scalar [OF ok] assms(2) that show thesis
    by (simp add: utf8_chars.simps [of buf] Let_def)
qed

lemma expected_len_lead: "expected_len b = Some n \<Longrightarrow> 0x80 \<le> b \<and> 2 \<le> n \<and> n \<le> 4"
  by (auto simp: expected_len_def u8_unat word_le_nat_alt split: if_splits)

lemma ground_ok:
  assumes "parser_ok p" and "ps_state p = Ground"
  shows "handler_ok (ground p b)"
proof (cases "ps_utf8_buffer p")
  case Nil
  with assms ground_match_ok show ?thesis by (simp add: ground_def)
next
  case (Cons a q)
  obtain n where n: "expected_len a = Some n" "length (a # q) < n" "list_all is_cont q"
    using assms Cons by (auto simp: parser_ok_def utf8_pending_ok_def incomplete_def split: option.splits)
  have clear: "parser_ok (p\<lparr>ps_utf8_buffer := []\<rparr>)"
    by (rule parser_ok_utf8 [OF assms(1)]) (simp add: utf8_pending_ok_def)
  show ?thesis
  proof (cases "is_cont b")
    case False
    with ground_match_ok [OF clear] assms(2) Cons show ?thesis
      by (simp add: ground_def handle_utf8_byte_def is_cont_def)
  next
    case True
    have keep: "parser_ok (p\<lparr>ps_utf8_buffer := a # q @ [b]\<rparr>)" if "length (a # q @ [b]) \<noteq> n"
      by (rule parser_ok_utf8 [OF assms(1)])
        (use that n True assms in \<open>simp add: utf8_pending_ok_def incomplete_def\<close>)
    have pr: "list_all action_ok (case utf8_chars (a # q @ [b]) of [] \<Rightarrow> [] | ch # _ \<Rightarrow> [Print ch])"
      if "utf8_valid (a # q @ [b])"
      by (rule utf8_chars_hd [OF that]) (use expected_len_lead [OF n(1)] in auto)
    show ?thesis
      using True Cons n(1) keep clear pr
      by (simp add: ground_def handle_utf8_byte_def handler_ok_def is_cont_def Let_def is_scalar_def)
  qed
qed

lemma escape_ok:
  assumes "parser_ok p" and "ps_utf8_buffer p = []"
  shows "handler_ok (escape p b)"
proof -
  have csi: "parser_ok (p\<lparr>ps_state := CsiEntry, ps_params := pp_reset (ps_params p)\<rparr>)"
    by (intro parser_ok_params parser_ok_state) (use assms in simp_all)
  have s: "parser_ok (p\<lparr>ps_state := t\<rparr>)" if "\<And>d. t = EscapeCharset d \<Longrightarrow> d \<in> {0x28, 0x29}" for t
    by (rule parser_ok_state) (use assms that in simp_all)
  have osc: "parser_ok (p\<lparr>ps_state := OscString, ps_osc_buffer := [], ps_osc_param := 0,
      ps_osc_param_done := False, ps_osc_received_len := 0\<rparr>)"
    by (rule parser_ok_osc_reset [OF s]) simp
  have apc: "parser_ok (p\<lparr>ps_state := ApcString, ps_apc_buffer := []\<rparr>)"
    by (rule parser_ok_apc [OF s]) simp_all
  have dcs: "parser_ok (p\<lparr>ps_state := DcsString, ps_dcs_buffer := []\<rparr>)"
    by (rule parser_ok_dcs [OF s]) simp_all
  show ?thesis
    unfolding escape_def handler_ok_def
    using assms csi osc apc dcs s by auto
qed

lemma escape_charset_ok:
  assumes "parser_ok p" and "ps_state p = EscapeCharset d"
  shows "handler_ok (escape_charset p d b)"
proof -
  have "parser_ok (p\<lparr>ps_state := Ground\<rparr>)"
    by (rule parser_ok_state) (use assms no_pending in auto)
  with assms show ?thesis by (auto simp: escape_charset_def handler_ok_def parser_ok_def)
qed

lemma list_all_to_array: "P z \<Longrightarrow> list_all P xs \<Longrightarrow> list_all P (to_array n z xs)"
  by (auto simp: to_array_def list_all_iff dest: in_set_takeD)

lemma length_to_array [simp]: "length (to_array n z xs) = n"
  by (simp add: to_array_def min_def)

lemma take_to_array: "take (min (length xs) n) (to_array n z xs) = take n xs"
  by (simp add: to_array_def min_def)

lemma dispatch_csi_ok:
  assumes "parser_ok p" and "ps_utf8_buffer p = []" and "in_range 0x40 0x7E f"
  shows "handler_ok (dispatch_csi p f)"
proof -
  have pp: "param_parser_ok (ps_params p)"
    and ii: "list_all (in_range 0x20 0x3F) (pp_intermediates (ps_params p))"
    using parser_okD [OF assms(1)] by simp_all
  have 1: "list_all (\<lambda>x. x \<le> MAX_PARAM_VALUE) (to_array MAX_CSI_PARAMS 0 (fst (finish (ps_params p))))"
    by (rule list_all_to_array) (use finish_ok(2) [OF pp] in \<open>auto simp: list_all_iff\<close>)
  have 2: "list_all (in_range 0x20 0x3F) (take MAX_CSI_INTERMEDIATES (pp_intermediates (ps_params p)))"
    using ii by (auto simp: list_all_iff dest: in_set_takeD)
  have 3: "parser_ok (p\<lparr>ps_params := pp_reset (snd (finish (ps_params p))), ps_state := Ground\<rparr>)"
    by (intro parser_ok_params parser_ok_state) (use assms in simp_all)
  show ?thesis
    using 1 2 3 assms(3)
    by (simp add: dispatch_csi_def handler_ok_def Let_def split_def take_to_array)
qed

lemma csi_body_ok:
  assumes "parser_ok p" and "ps_utf8_buffer p = []"
  shows "parser_ok (p\<lparr>ps_params := add_digit (ps_params p) b, ps_state := CsiParam\<rparr>)"
    "parser_ok (p\<lparr>ps_params := add_digit (ps_params p) b\<rparr>)"
    "parser_ok (p\<lparr>ps_params := finish_param (ps_params p), ps_state := CsiParam\<rparr>)"
    "parser_ok (p\<lparr>ps_params := finish_param (ps_params p)\<rparr>)"
    "parser_ok (p\<lparr>ps_params := pp_reset (ps_params p), ps_state := Escape\<rparr>)"
    "parser_ok (p\<lparr>ps_params := pp_reset (ps_params p), ps_state := Ground\<rparr>)"
    "in_range 0x20 0x3F b \<Longrightarrow> parser_ok (p\<lparr>ps_params := add_intermediate (ps_params p) b\<rparr>)"
    "in_range 0x20 0x3F b \<Longrightarrow>
       parser_ok (p\<lparr>ps_params := add_intermediate (ps_params p) b, ps_state := CsiParam\<rparr>)"
  using parser_okD [OF assms(1)] assms
  by (auto intro!: parser_ok_params parser_ok_state add_intermediate_range)

lemma csi_entry_ok:
  assumes "parser_ok p" and "ps_utf8_buffer p = []"
  shows "handler_ok (csi_entry p b)"
proof -
  have "in_range 0x20 0x3F b" if "b \<in> {0x3F, 0x3E, 0x3C, 0x3D, 0x20}"
    using that by (auto simp: in_range_unat)
  with assms csi_body_ok [OF assms] dispatch_csi_ok [OF assms, of b] show ?thesis
    by (auto simp: csi_entry_def handler_ok_def u8_unat)
qed

lemma csi_param_ok:
  assumes "parser_ok p" and "ps_utf8_buffer p = []"
  shows "handler_ok (csi_param p b)"
proof -
  have "in_range 0x20 0x3F b" if "in_range 0x20 0x2F b"
    using that by (auto simp: in_range_unat)
  with assms csi_body_ok [OF assms] dispatch_csi_ok [OF assms, of b] show ?thesis
    by (auto simp: csi_param_def handler_ok_def u8_unat)
qed

lemma parser_ok_osc:
  assumes "parser_ok p"
  shows "parser_ok (count_osc_byte p)"
    "x \<le> U16_MAX \<Longrightarrow> parser_ok (count_osc_byte p\<lparr>ps_osc_param := x\<rparr>)"
    "parser_ok (count_osc_byte p\<lparr>ps_osc_param_done := d\<rparr>)"
    "length (ps_osc_buffer p) < MAX_OSC_LEN \<Longrightarrow>
       parser_ok (count_osc_byte p\<lparr>ps_osc_buffer := ps_osc_buffer p @ [b]\<rparr>)"
  using assms
  by (auto simp: parser_ok_def utf8_pending_ok_def count_osc_byte_def sat_add_usize_def
      USIZE_MAX_def MAX_OSC_LEN_def min_def split: if_splits)

lemma count_osc_byte_simps [simp]:
  "ps_osc_buffer (count_osc_byte p) = ps_osc_buffer p"
  "ps_osc_param (count_osc_byte p) = ps_osc_param p"
  "ps_utf8_buffer (count_osc_byte p) = ps_utf8_buffer p"
  by (simp_all add: count_osc_byte_def)

lemma dispatch_osc_ok: "parser_ok p \<Longrightarrow> handler_ok (dispatch_osc p t)"
  using parser_okD [of p]
  by (simp add: dispatch_osc_def handler_ok_def Let_def utf8_valid_lossy parser_ok_osc_reset)

lemma dispatch_osc_utf8 [simp]: "ps_utf8_buffer (fst (dispatch_osc p t)) = ps_utf8_buffer p"
  by (simp add: dispatch_osc_def Let_def)

lemma handler_ok_ground:
  "handler_ok r \<Longrightarrow> ps_utf8_buffer (fst r) = [] \<Longrightarrow>
     handler_ok (let (p1, acts) = r in (p1\<lparr>ps_state := Ground\<rparr>, acts))"
  by (auto simp: handler_ok_def split_def Let_def intro: parser_ok_state)

lemma handler_ok_escape:
  assumes "handler_ok r" and "ps_utf8_buffer (fst r) = []"
  shows "handler_ok (let (p1, acts) = r; (p2, acts2) = escape (p1\<lparr>ps_state := Escape\<rparr>) b
    in (p2, acts @ acts2))"
proof -
  have "parser_ok ((fst r)\<lparr>ps_state := Escape\<rparr>)"
    by (rule parser_ok_state) (use assms in \<open>simp_all add: handler_ok_def\<close>)
  then have "handler_ok (escape ((fst r)\<lparr>ps_state := Escape\<rparr>) b)"
    by (rule escape_ok) (simp add: assms)
  with assms show ?thesis by (simp add: handler_ok_def split_def Let_def)
qed

lemma osc_string_ok:
  assumes "parser_ok p" and "ps_utf8_buffer p = []"
  shows "handler_ok (osc_string p b)"
proof -
  have e: "parser_ok (p\<lparr>ps_state := OscEscape\<rparr>)"
    by (rule parser_ok_state) (use assms in simp_all)
  have d: "sat_add16 x y \<le> U16_MAX" for x y by (rule sat_add16_le)
  show ?thesis
    unfolding osc_string_def
    using e handler_ok_ground [OF dispatch_osc_ok [OF assms(1)]] parser_ok_osc [OF assms(1)] assms(2) d
    by (simp add: handler_ok_def Let_def)
qed

lemma osc_escape_ok:
  "parser_ok p \<Longrightarrow> ps_utf8_buffer p = [] \<Longrightarrow> handler_ok (osc_escape p b)"
  unfolding osc_escape_def
  using handler_ok_ground [OF dispatch_osc_ok] handler_ok_escape [OF dispatch_osc_ok] by simp

lemma dispatch_apc_ok: "parser_ok p \<Longrightarrow> handler_ok (dispatch_apc p)"
  using parser_okD [of p] by (simp add: dispatch_apc_def handler_ok_def parser_ok_apc)

lemma dispatch_dcs_ok: "parser_ok p \<Longrightarrow> handler_ok (dispatch_dcs p)"
  using parser_okD [of p] by (simp add: dispatch_dcs_def handler_ok_def parser_ok_dcs)

lemma apc_string_ok:
  "parser_ok p \<Longrightarrow> ps_utf8_buffer p = [] \<Longrightarrow> handler_ok (apc_string p b)"
  by (auto simp: apc_string_def handler_ok_def intro: parser_ok_apc parser_ok_state)

lemma dcs_string_ok:
  "parser_ok p \<Longrightarrow> ps_utf8_buffer p = [] \<Longrightarrow> handler_ok (dcs_string p b)"
  by (auto simp: dcs_string_def handler_ok_def intro: parser_ok_dcs parser_ok_state)

lemma apc_escape_ok:
  "parser_ok p \<Longrightarrow> ps_utf8_buffer p = [] \<Longrightarrow> handler_ok (apc_escape p b)"
  unfolding apc_escape_def
  using handler_ok_ground [OF dispatch_apc_ok] handler_ok_escape [OF dispatch_apc_ok]
  by (simp add: dispatch_apc_def)

lemma dcs_escape_ok:
  "parser_ok p \<Longrightarrow> ps_utf8_buffer p = [] \<Longrightarrow> handler_ok (dcs_escape p b)"
  unfolding dcs_escape_def
  using handler_ok_ground [OF dispatch_dcs_ok] handler_ok_escape [OF dispatch_dcs_ok]
  by (simp add: dispatch_dcs_def)

lemma parse_byte_ok:
  assumes "parser_ok p"
  shows "handler_ok (parse_byte p b)"
proof (cases "ps_state p = Ground")
  case True
  with ground_ok [OF assms] show ?thesis by (simp add: parse_byte_def)
next
  case False
  note h = assms no_pending [OF assms False]
  show ?thesis
    using escape_ok [OF h] escape_charset_ok [OF assms] csi_entry_ok [OF h] csi_param_ok [OF h]
      osc_string_ok [OF h] osc_escape_ok [OF h] apc_string_ok [OF h] apc_escape_ok [OF h]
      dcs_string_ok [OF h] dcs_escape_ok [OF h] False
    by (simp add: parse_byte_def split: pstate.splits)
qed

interpretation vt: byte_machine parse_byte parser_ok action_ok
proof
  show "parser_ok p \<Longrightarrow> parser_ok (fst (parse_byte p b))" for p b
    using parse_byte_ok [of p b] by (simp add: handler_ok_def)
  show "parser_ok p \<Longrightarrow> x \<in> set (snd (parse_byte p b)) \<Longrightarrow> action_ok x" for p b x
    using parse_byte_ok [of p b] by (auto simp: handler_ok_def list_all_iff)
qed

end
