(* ===== verification/CoreInv.thy ===== *)
theory CoreInv
  imports HistoryFacts CsiHandlers EscHandlers OscHandler VtParserFacts
begin

text \<open>
  The invariant of the whole terminal state, and that the control-sequence, escape, control-character
  and OSC handlers keep it: the grid is well formed, the cursor and the scroll region stay inside the
  screen, the scrollback stays within its capacity, and the queues of prompt and fold marks stay
  within their bounds.
\<close>

subsection \<open>The invariant\<close>

definition ctl_ok :: "core \<Rightarrow> bool" where
  "ctl_ok c \<longleftrightarrow>
     cur_col c < tc_cols c \<and> cur_row c < tc_rows c
     \<and> tc_scroll_region_top c \<le> tc_scroll_region_bottom c \<and> tc_scroll_region_bottom c < tc_rows c
     \<and> length (tc_tab_stops c) = tc_cols c
     \<and> length (tc_grapheme_buffer c) \<le> 64 \<and> list_all is_scalar (tc_grapheme_buffer c)"

definition hist_ok :: "core \<Rightarrow> bool" where
  "hist_ok c \<longleftrightarrow>
     length (tc_scrollback_wrapped c) = length (tc_scrollback_slim c)
     \<and> length (tc_scrollback_slim c) \<le> tc_scrollback_capacity c
     \<and> tc_virtual_scrollback_len c \<le> tc_scrollback_capacity c"

text \<open>Every captured prompt text belongs to a pending prompt mark, so the bound on the marks bounds
  the texts.\<close>

definition marks_ok :: "core \<Rightarrow> bool" where
  "marks_ok c \<longleftrightarrow>
     length (tc_pending_prompt_marks c) \<le> MAX_PENDING_PROMPT_MARKS
     \<and> length (tc_pending_fold_marks c) \<le> MAX_PENDING_FOLD_MARKS
     \<and> distinct (map fst (tc_bypass_b_mark_texts c))
     \<and> set (map fst (tc_bypass_b_mark_texts c)) \<subseteq> set (map pm_abs_row (tc_pending_prompt_marks c))"

definition core_ok :: "core \<Rightarrow> bool" where
  "core_ok c \<longleftrightarrow> grid_inv c \<and> ctl_ok c \<and> hist_ok c \<and> marks_ok c"

lemmas part_defs = ctl_ok_def hist_ok_def marks_ok_def

lemma core_okD:
  assumes "core_ok c"
  shows "grid_inv c" "grid_ok c" "ctl_ok c" "hist_ok c" "marks_ok c"
    "0 < tc_cols c" "0 < tc_rows c" "cur_col c < tc_cols c" "cur_row c < tc_rows c"
    "tc_scroll_region_top c \<le> tc_scroll_region_bottom c" "tc_scroll_region_bottom c < tc_rows c"
    "tc_scroll_region_top c < tc_rows c"
    "length (tc_tab_stops c) = tc_cols c" "length (tc_grapheme_buffer c) \<le> 64"
    "list_all is_scalar (tc_grapheme_buffer c)"
  using assms grid_invD(1) [of c] by (auto simp: core_ok_def ctl_ok_def grid_okD)

lemma texts_bounded:
  assumes "marks_ok c"
  shows "length (tc_bypass_b_mark_texts c) \<le> MAX_PENDING_PROMPT_MARKS"
proof -
  have "length (tc_bypass_b_mark_texts c) = card (set (map fst (tc_bypass_b_mark_texts c)))"
    using assms distinct_card [of "map fst (tc_bypass_b_mark_texts c)"] by (simp add: marks_ok_def)
  also have "\<dots> \<le> card (set (map pm_abs_row (tc_pending_prompt_marks c)))"
    using assms by (intro card_mono) (simp_all add: marks_ok_def)
  also have "\<dots> \<le> length (tc_pending_prompt_marks c)"
    using card_length [of "map pm_abs_row (tc_pending_prompt_marks c)"] by simp
  also have "\<dots> \<le> MAX_PENDING_PROMPT_MARKS" using assms by (simp add: marks_ok_def)
  finally show ?thesis .
qed

subsection \<open>Updates outside the grid\<close>

lemma grid_inv_upd [simp]:
  "grid_inv (c\<lparr>tc_cursor := x1\<rparr>) = grid_inv c" "grid_inv (c\<lparr>tc_saved_cursor := x2\<rparr>) = grid_inv c"
  "grid_inv (c\<lparr>tc_wrap_pending := x3\<rparr>) = grid_inv c" "grid_inv (c\<lparr>tc_last_write := x4\<rparr>) = grid_inv c"
  "grid_inv (c\<lparr>tc_grapheme_buffer := x5\<rparr>) = grid_inv c" "grid_inv (c\<lparr>tc_modes := x6\<rparr>) = grid_inv c"
  "grid_inv (c\<lparr>tc_g0_charset := x7\<rparr>) = grid_inv c" "grid_inv (c\<lparr>tc_g1_charset := x8\<rparr>) = grid_inv c"
  "grid_inv (c\<lparr>tc_active_charset := x9\<rparr>) = grid_inv c"
  "grid_inv (c\<lparr>tc_kitty_placeholder_active := x10\<rparr>) = grid_inv c"
  "grid_inv (c\<lparr>tc_tab_stops := x11\<rparr>) = grid_inv c"
  "grid_inv (c\<lparr>tc_scroll_region_top := x12\<rparr>) = grid_inv c"
  "grid_inv (c\<lparr>tc_scroll_region_bottom := x13\<rparr>) = grid_inv c"
  "grid_inv (c\<lparr>tc_response_queue := x14\<rparr>) = grid_inv c" "grid_inv (c\<lparr>tc_scroll_event := x15\<rparr>) = grid_inv c"
  "grid_inv (c\<lparr>tc_parser := x16\<rparr>) = grid_inv c" "grid_inv (c\<lparr>tc_mode_actions := x17\<rparr>) = grid_inv c"
  "grid_inv (c\<lparr>tc_events := x18\<rparr>) = grid_inv c" "grid_inv (c\<lparr>tc_hyperlink_table := x19\<rparr>) = grid_inv c"
  "grid_inv (c\<lparr>tc_hyperlink_next_id := x20\<rparr>) = grid_inv c"
  "grid_inv (c\<lparr>tc_active_hyperlink_id := x21\<rparr>) = grid_inv c"
  "grid_inv (c\<lparr>tc_cursor_just_shown := x22\<rparr>) = grid_inv c"
  "grid_inv (c\<lparr>tc_pending_prompt_marks := x23\<rparr>) = grid_inv c"
  "grid_inv (c\<lparr>tc_pending_fold_marks := x24\<rparr>) = grid_inv c"
  "grid_inv (c\<lparr>tc_bypass_b_mark_texts := x25\<rparr>) = grid_inv c"
  "grid_inv (c\<lparr>tc_cursor_style_override := x26\<rparr>) = grid_inv c"
  "grid_inv (c\<lparr>tc_cursor_blink_override := x27\<rparr>) = grid_inv c"
  "grid_inv (c\<lparr>tc_ring_size := x28\<rparr>) = grid_inv c"
  "grid_inv (c\<lparr>tc_scrollback_slim := x29\<rparr>) = grid_inv c"
  "grid_inv (c\<lparr>tc_scrollback_wrapped := x30\<rparr>) = grid_inv c"
  "grid_inv (c\<lparr>tc_styles := x31\<rparr>) = grid_inv c" "grid_inv (c\<lparr>tc_chars := x32\<rparr>) = grid_inv c"
  by (simp_all add: grid_inv_def grid_ok_def cells_fine_def overflow_fine_def)

text \<open>Steps that only change the grid, or only the grid and the scrollback.\<close>

lemma ctl_ok_scroll: "scroll_frame c d \<Longrightarrow> ctl_ok d = ctl_ok c"
  by (rule scroll_frame_cong) (simp_all add: ctl_ok_def outside_scroll_def)

lemma marks_ok_scroll: "scroll_frame c d \<Longrightarrow> marks_ok d = marks_ok c"
  by (rule scroll_frame_cong) (simp_all add: marks_ok_def outside_scroll_def)

lemma core_ok_scroll: "core_ok c \<Longrightarrow> scroll_frame c d \<Longrightarrow> grid_inv d \<Longrightarrow> hist_ok d \<Longrightarrow> core_ok d"
  by (simp add: core_ok_def ctl_ok_scroll marks_ok_scroll)

lemma grid_frame_hist: "grid_frame c d \<Longrightarrow> hist_ok d = hist_ok c"
  by (auto simp: hist_ok_def grid_frame_def)

lemma core_ok_grid: "core_ok c \<Longrightarrow> grid_frame c d \<Longrightarrow> grid_inv d \<Longrightarrow> core_ok d"
  using core_ok_scroll [OF _ scroll_frame_grid, of c d] grid_frame_hist [of c d] by (simp add: core_okD(4))

subsection \<open>Scrolling\<close>

lemma overflow_clear_if_hist [simp]:
  "hist_ok (overflow_clear_abs_if c a) = hist_ok c"
  "tc_scrollback_slim (overflow_clear_abs_if c a) = tc_scrollback_slim c"
  "tc_scrollback_wrapped (overflow_clear_abs_if c a) = tc_scrollback_wrapped c"
  "tc_virtual_scrollback_len (overflow_clear_abs_if c a) = tc_virtual_scrollback_len c"
  by (simp_all add: overflow_clear_abs_if_def overflow_clear_abs_def hist_ok_def)

lemma evict_top_row_hist:
  assumes "hist_ok c"
  shows "hist_ok (evict_top_row c)"
proof -
  obtain row st ch where cr: "compress_row c (tc_ring_head c) = (row, st, ch)" by (metis prod_cases3)
  show ?thesis
    using assms
    by (auto simp: evict_top_row_def Let_def cr hist_ok_def split: list.split)
qed

lemma ring_push_blank_hist: "hist_ok c \<Longrightarrow> hist_ok (ring_push_blank c bg)"
  using evict_top_row_hist [of c]
  by (auto simp: ring_push_blank_def Let_def fill_cells_def) (auto simp: hist_ok_def)

lemma ring_push_many_hist: "hist_ok c \<Longrightarrow> hist_ok (((\<lambda>d. ring_push_blank d bg) ^^ n) c)"
  by (induction n) (simp_all add: ring_push_blank_hist)

lemma full_screen_hist:
  "hist_ok (if n = 1 then mark_row_dirty (shift_dirty_down_by_one (c1\<lparr>tc_scroll_event := e\<rparr>)) b
     else mark_all_dirty (c1\<lparr>tc_scroll_event := None\<rparr>)) = hist_ok c1"
  by (simp add: hist_ok_def mark_row_dirty_def mark_all_dirty_def shift_dirty_down_by_one_def)

lemma scroll_up_internal_ok:
  assumes "core_ok c"
  shows "core_ok (scroll_up_internal c n)" and "scroll_frame c (scroll_up_internal c n)"
proof -
  note k = core_okD [OF assms]
  let ?m = "min n (tc_scroll_region_bottom c - tc_scroll_region_top c + 1)"
  let ?c1 = "((\<lambda>d. ring_push_blank d (cu_bg (tc_cursor c))) ^^ ?m) c"
  have m: "?m \<le> tc_scroll_region_bottom c + 1" "?m \<le> tc_rows c" using k by simp_all
  have pm: "scroll_frame c ?c1" using ring_push_many [OF k(2) m(2)] by blast
  have c1: "grid_inv ?c1" "hist_ok ?c1" using ring_push_many_inv [OF k(1)] ring_push_many_hist [OF k(4)] by blast+
  have "grid_inv (scroll_up_internal c n) \<and> hist_ok (scroll_up_internal c n) \<and> scroll_frame c (scroll_up_internal c n)"
  proof (cases "tc_scroll_region_top c = 0 \<and> tc_scroll_region_bottom c = tc_rows c - 1")
    case True
    let ?e = "Some (case tc_scroll_event ?c1 of Some e \<Rightarrow> e\<lparr>sc_count := sc_count e + 1\<rparr>
      | None \<Rightarrow> \<lparr>sc_direction = Up, sc_count = 1\<rparr>)"
    have "scroll_up_internal c n = (if ?m = 1 then
        mark_row_dirty (shift_dirty_down_by_one (?c1\<lparr>tc_scroll_event := ?e\<rparr>)) (tc_scroll_region_bottom c)
      else mark_all_dirty (?c1\<lparr>tc_scroll_event := None\<rparr>))"
      using True by (simp only: scroll_up_internal_def Let_def simp_thms if_True)
    then show ?thesis
      using full_screen_scroll_tail(4) [where n = ?m and ?c1.0 = ?c1 and e = ?e and b = "tc_scroll_region_bottom c" and c = c]
        full_screen_scroll_tail(6) [where n = ?m and ?c1.0 = ?c1 and e = ?e and b = "tc_scroll_region_bottom c"]
        full_screen_hist [where n = ?m and ?c1.0 = ?c1 and e = ?e and b = "tc_scroll_region_bottom c"] c1 pm
      by presburger
  next
    case False
    show ?thesis
    proof (cases "should_transcribe_region_scroll c (tc_scroll_region_top c)")
      case True
      then have top: "tc_scroll_region_top c = 0" by (simp add: should_transcribe_region_scroll_def)
      have eq: "scroll_up_internal c n = scroll_up_region_transcribing c (tc_scroll_region_bottom c) ?m"
        using False True unfolding scroll_up_internal_def Let_def by auto
      have gf: "grid_frame ?c1 (scroll_up_region_transcribing c (tc_scroll_region_bottom c) ?m)"
        unfolding scroll_up_region_transcribing_def Let_def using grid_okD(3) [OF k(2)] transcribing_tail by simp
      show ?thesis
        unfolding eq using scroll_transcribing_inv [OF k(1) k(11) m(1)] grid_frame_hist [OF gf] c1(2)
          scroll_frame_grid_step [OF gf pm] by simp
    next
      case nt: False
      have eq: "scroll_up_internal c n = shift_rows_up c (tc_scroll_region_top c) (tc_scroll_region_bottom c) ?m"
        using False nt unfolding scroll_up_internal_def Let_def by auto
      have gf: "grid_frame c (shift_rows_up c (tc_scroll_region_top c) (tc_scroll_region_bottom c) ?m)" by simp
      show ?thesis
        unfolding eq using grid_frame_hist [OF gf] scroll_frame_grid [OF gf] k(1,4) by simp
    qed
  qed
  then show "core_ok (scroll_up_internal c n)" "scroll_frame c (scroll_up_internal c n)"
    using core_ok_scroll [OF assms] by blast+
qed

lemma scroll_down_internal_ok: "core_ok c \<Longrightarrow> core_ok (scroll_down_internal c n)"
  unfolding scroll_down_internal_def Let_def
  by (rule core_ok_grid [OF _ grid_frame_shift_rows_down [OF grid_frame_refl]]) (simp_all add: core_okD(1))

subsection \<open>Rewriting part of a row\<close>

text \<open>The rule behind erasing, inserting and deleting characters: columns \<open>s..e\<close> of one physical
  row are rewritten and lose their overflow entries.\<close>

lemma range_write_inv:
  assumes inv: "grid_inv c" and a: "a < tc_rows c"
    and len: "length cells = length (tc_ring_cells c)" and fine: "\<forall>cl \<in> set cells. cell_ok cl"
    and same: "\<And>i. i < length cells \<Longrightarrow> i < a * tc_cols c + s \<or> a * tc_cols c + min e (tc_cols c) \<le> i \<Longrightarrow>
      cells ! i = tc_ring_cells c ! i"
  shows "grid_inv (c\<lparr>tc_ring_cells := cells, tc_overflow := overflow_clear_range (tc_overflow c) a s e,
      tc_overflow_ridx := overflow_ridx_clear_range (tc_overflow_ridx c) a s e\<rparr>)"
    (is "grid_inv ?d")
proof (rule grid_inv_shrink [OF inv])
  note g = grid_okD [OF grid_invD(1) [OF inv]]
  show "grid_frame c ?d"
    by (rule grid_frameI [where dirty = "tc_dirty c" and wrapped = "tc_ring_wrapped c"]) simp
  show "ridx_agrees (tc_overflow ?d) (tc_overflow_ridx ?d)" using g(6) by (simp add: ridx_agrees_clear_range)
  show "map_of (tc_overflow c) (k, b) = Some t
      \<and> tc_ring_cells ?d ! (b * tc_cols c + k) = tc_ring_cells c ! (b * tc_cols c + k)"
    if m: "map_of (tc_overflow ?d) (k, b) = Some t" and k: "k < tc_cols c" and b: "b < tc_rows c" for k b t
  proof
    from m show "map_of (tc_overflow c) (k, b) = Some t" by (simp add: map_of_clear_range split: if_splits)
    have "b * tc_cols c + k < length cells" using block_index_lt [OF b k] g(3) len by simp
    moreover have "b * tc_cols c + k < a * tc_cols c + s \<or> a * tc_cols c + min e (tc_cols c) \<le> b * tc_cols c + k"
    proof (cases "a = b")
      case True
      with m k show ?thesis by (auto simp: map_of_clear_range split: if_splits)
    next
      case False
      then consider "b * tc_cols c + tc_cols c \<le> a * tc_cols c" | "a * tc_cols c + tc_cols c \<le> b * tc_cols c"
        using mult_le_mono1 [of "Suc b" a "tc_cols c"] mult_le_mono1 [of "Suc a" b "tc_cols c"] by fastforce
      then show ?thesis using k by cases (auto simp: min_def)
    qed
    ultimately show "tc_ring_cells ?d ! (b * tc_cols c + k) = tc_ring_cells c ! (b * tc_cols c + k)"
      using same by simp
  qed
  show "map_of (tc_overflow c) (k, b) \<noteq> None" if "map_of (tc_overflow ?d) (k, b) \<noteq> None" for k b
    using that by (auto simp: map_of_clear_range split: if_splits)
qed (use len fine in simp_all)

lemma cells_fineD: "grid_inv c \<Longrightarrow> \<forall>cl \<in> set (tc_ring_cells c). cell_ok cl"
  by (simp add: grid_inv_def cells_fine_def)

lemma set_splice: "set (splice i ys xs) \<subseteq> set ys \<union> set xs"
  unfolding splice_def by (auto dest!: in_set_takeD in_set_dropD)

lemma clear_line_range_inv [simp]:
  assumes inv: "grid_inv c"
  shows "grid_inv (clear_line_range c row s e)"
proof (cases "row < tc_rows c")
  case True
  let ?a = "viewport_abs c row" and ?s = "min s (tc_cols c)" and ?e = "min e (tc_cols c)"
  let ?cells = "splice (?a * tc_cols c + ?s) (replicate (?e - ?s) (bce_cell c)) (tc_ring_cells c)"
  note g = grid_okD [OF grid_invD(1) [OF inv]]
  have a: "?a < tc_rows c" by (rule abs_lt [OF grid_invD(1) [OF inv]])
  have bl: "?a * tc_cols c + tc_cols c \<le> length (tc_ring_cells c)"
    using mult_le_mono1 [of "Suc ?a" "tc_rows c" "tc_cols c"] a g(3) by simp
  have le: "?a * tc_cols c + ?s + (?e - ?s) \<le> length (tc_ring_cells c)" using bl by (auto simp: min_def)
  have "grid_inv (c\<lparr>tc_ring_cells := ?cells, tc_overflow := overflow_clear_range (tc_overflow c) ?a s e,
      tc_overflow_ridx := overflow_ridx_clear_range (tc_overflow_ridx c) ?a s e\<rparr>)"
  proof (rule range_write_inv [OF inv a])
    show "length ?cells = length (tc_ring_cells c)" using le by (simp add: length_splice)
    show "\<forall>cl \<in> set ?cells. cell_ok cl"
      using set_splice [of "?a * tc_cols c + ?s" "replicate (?e - ?s) (bce_cell c)" "tc_ring_cells c"]
        cells_fineD [OF inv] by (auto simp: subset_iff split: if_splits)
    show "?cells ! i = tc_ring_cells c ! i"
      if "i < length ?cells" "i < ?a * tc_cols c + s \<or> ?a * tc_cols c + ?e \<le> i" for i
      using that le bl by (auto simp: length_splice nth_splice)
  qed
  then show ?thesis
    using True bl by (simp add: clear_line_range_def Let_def fill_cells_def)
qed (simp add: clear_line_range_def inv)

subsection \<open>Inserting and deleting characters\<close>

lemma copy_cells_length [simp]: "length (copy_cells base ks src cells) = length cells"
proof -
  have "length (foldl (\<lambda>cells k. cells[base + k := cells ! (base + src k)]) cells ks) = length cells"
    by (induction ks arbitrary: cells) simp_all
  then show ?thesis by (simp add: copy_cells_def)
qed

lemma copy_cells_set:
  "(\<And>k. k \<in> set ks \<Longrightarrow> base + src k < length cells) \<Longrightarrow> \<forall>cl \<in> set cells. P cl \<Longrightarrow>
     \<forall>cl \<in> set (copy_cells base ks src cells). P cl"
  unfolding copy_cells_def
proof (induction ks arbitrary: cells)
  case (Cons k ks)
  have "P (cells ! (base + src k))" using Cons.prems by simp
  then have "\<forall>cl \<in> set (cells[base + k := cells ! (base + src k)]). P cl"
    using Cons.prems(2) set_update_subset_insert [of cells "base + k"] by blast
  with Cons.IH [of "cells[base + k := cells ! (base + src k)]"] Cons.prems(1) show ?case by simp
qed simp

lemma copy_cells_nth:
  "(\<And>k. k \<in> set ks \<Longrightarrow> i \<noteq> base + k) \<Longrightarrow> copy_cells base ks src cells ! i = cells ! i"
  unfolding copy_cells_def
proof (induction ks arbitrary: cells)
  case (Cons k ks)
  have "i \<noteq> base + k" using Cons.prems [of k] by simp
  with Cons.IH [of "cells[base + k := cells ! (base + src k)]"] Cons.prems show ?case by simp
qed simp

text \<open>The shared middle of both handlers: cells move inside the row from column \<open>s\<close> on, a block of
  blanks is written there, and the overflow entries from \<open>s\<close> on are dropped.\<close>

lemma shift_cells_inv:
  assumes inv: "grid_inv c" and a: "a < tc_rows c" and s: "s \<le> b" and bn: "b + n \<le> tc_cols c"
    and ks: "\<And>k. k \<in> set ks \<Longrightarrow> s \<le> k \<and> k < tc_cols c \<and> src k < tc_cols c"
  defines "d \<equiv> fill_cells (a * tc_cols c + b) n (bce_cell c)
      (c\<lparr>tc_ring_cells := copy_cells (a * tc_cols c) ks src (tc_ring_cells c)\<rparr>)"
  shows "grid_inv (drop_overflow_range d a s)" and "grid_frame c (drop_overflow_range d a s)"
proof -
  note g = grid_okD [OF grid_invD(1) [OF inv]]
  let ?cp = "copy_cells (a * tc_cols c) ks src (tc_ring_cells c)"
  let ?cells = "splice (a * tc_cols c + b) (replicate n (bce_cell c)) ?cp"
  have bl: "a * tc_cols c + tc_cols c \<le> length (tc_ring_cells c)"
    using mult_le_mono1 [of "Suc a" "tc_rows c" "tc_cols c"] a g(3) by simp
  have "grid_inv (c\<lparr>tc_ring_cells := ?cells, tc_overflow := overflow_clear_range (tc_overflow c) a s (tc_cols c),
      tc_overflow_ridx := overflow_ridx_clear_range (tc_overflow_ridx c) a s (tc_cols c)\<rparr>)"
  proof (rule range_write_inv [OF inv a])
    have le: "a * tc_cols c + b + length (replicate n (bce_cell c)) \<le> length ?cp" using bl bn by simp
    then show len: "length ?cells = length (tc_ring_cells c)" by (simp add: length_splice)
    have "a * tc_cols c + src k < length (tc_ring_cells c)" if "k \<in> set ks" for k using ks [OF that] bl by simp
    with copy_cells_set [of ks "a * tc_cols c" src "tc_ring_cells c" cell_ok] cells_fineD [OF inv]
    have "\<forall>cl \<in> set ?cp. cell_ok cl" by blast
    with set_splice [of "a * tc_cols c + b" "replicate n (bce_cell c)" ?cp]
    show "\<forall>cl \<in> set ?cells. cell_ok cl" by (auto simp: subset_iff split: if_splits)
    fix i assume i: "i < length ?cells" "i < a * tc_cols c + s \<or> a * tc_cols c + min (tc_cols c) (tc_cols c) \<le> i"
    then have "?cells ! i = ?cp ! i" using le len bl s bn by (auto simp: nth_splice)
    also have "\<dots> = tc_ring_cells c ! i" using i(2) ks by (intro copy_cells_nth) force
    finally show "?cells ! i = tc_ring_cells c ! i" .
  qed
  then show "grid_inv (drop_overflow_range d a s)" by (simp add: d_def drop_overflow_range_def fill_cells_def)
  show "grid_frame c (drop_overflow_range d a s)"
    by (simp add: d_def drop_overflow_range_def)
qed

lemma bce_cell_cells [simp]: "bce_cell (c\<lparr>tc_ring_cells := x\<rparr>) = bce_cell c"
  by (simp add: bce_cell_def)

text \<open>Conditional steps.\<close>

lemma grid_if:
  "grid_inv a \<Longrightarrow> grid_inv b \<Longrightarrow> grid_inv (if P then a else b)"
  "grid_frame c a \<Longrightarrow> grid_frame c b \<Longrightarrow> grid_frame c (if P then a else b)"
  by simp_all

lemmas grid_steps = grid_if blank_wide_inv mark_row_dirty_inv grid_frame_blank_wide grid_frame_mark_row_dirty
  grid_frame_refl

lemma handle_insert_characters_inv:
  assumes "grid_inv c"
  shows "grid_inv (handle_insert_characters c n)" and "grid_frame c (handle_insert_characters c n)"
proof -
  let ?n = "min n (tc_cols c - cur_col c)" and ?a = "viewport_abs c (cur_row c)"
  have a: "?a < tc_rows c" by (rule abs_lt [OF grid_invD(1) [OF assms]])
  have "grid_inv (handle_insert_characters c n) \<and> grid_frame c (handle_insert_characters c n)"
  proof (cases "cur_col c < tc_cols c")
    case True
    have bn: "cur_col c + ?n \<le> tc_cols c" using True by simp
    have ks: "k \<in> set (rev [cur_col c + ?n..<tc_cols c]) \<Longrightarrow> cur_col c \<le> k \<and> k < tc_cols c \<and> k - ?n < tc_cols c" for k
      by auto
    note d = shift_cells_inv [OF assms a order_refl bn ks]
    show ?thesis
      unfolding handle_insert_characters_def Let_def bce_cell_cells
      by (intro conjI grid_steps assms d)
  qed (simp add: handle_insert_characters_def Let_def assms)
  then show "grid_inv (handle_insert_characters c n)" "grid_frame c (handle_insert_characters c n)" by simp_all
qed

lemma handle_delete_characters_inv:
  assumes "grid_inv c"
  shows "grid_inv (handle_delete_characters c n)" and "grid_frame c (handle_delete_characters c n)"
proof -
  let ?n = "min n (tc_cols c - cur_col c)" and ?a = "viewport_abs c (cur_row c)"
  have a: "?a < tc_rows c" by (rule abs_lt [OF grid_invD(1) [OF assms]])
  have "grid_inv (handle_delete_characters c n) \<and> grid_frame c (handle_delete_characters c n)"
  proof (cases "cur_col c < tc_cols c")
    case True
    have b: "cur_col c \<le> tc_cols c - ?n" "tc_cols c - ?n + ?n \<le> tc_cols c" using True by auto
    have ks: "k \<in> set [cur_col c..<tc_cols c - ?n] \<Longrightarrow> cur_col c \<le> k \<and> k < tc_cols c \<and> k + ?n < tc_cols c" for k
      by auto
    note d = shift_cells_inv [OF assms a b ks]
    show ?thesis
      unfolding handle_delete_characters_def Let_def bce_cell_cells
      by (intro conjI grid_steps assms d)
  qed (simp add: handle_delete_characters_def Let_def assms)
  then show "grid_inv (handle_delete_characters c n)" "grid_frame c (handle_delete_characters c n)" by simp_all
qed

subsection \<open>Control updates\<close>

lemma core_ok_upd [simp]:
  "core_ok (c\<lparr>tc_saved_cursor := x2\<rparr>) = core_ok c"
  "core_ok (c\<lparr>tc_wrap_pending := x3\<rparr>) = core_ok c" "core_ok (c\<lparr>tc_last_write := x4\<rparr>) = core_ok c"
  "core_ok (c\<lparr>tc_modes := x6\<rparr>) = core_ok c"
  "core_ok (c\<lparr>tc_g0_charset := x7\<rparr>) = core_ok c" "core_ok (c\<lparr>tc_g1_charset := x8\<rparr>) = core_ok c"
  "core_ok (c\<lparr>tc_active_charset := x9\<rparr>) = core_ok c"
  "core_ok (c\<lparr>tc_kitty_placeholder_active := x10\<rparr>) = core_ok c"
  "core_ok (c\<lparr>tc_response_queue := x14\<rparr>) = core_ok c" "core_ok (c\<lparr>tc_scroll_event := x15\<rparr>) = core_ok c"
  "core_ok (c\<lparr>tc_parser := x16\<rparr>) = core_ok c" "core_ok (c\<lparr>tc_mode_actions := x17\<rparr>) = core_ok c"
  "core_ok (c\<lparr>tc_events := x18\<rparr>) = core_ok c" "core_ok (c\<lparr>tc_hyperlink_table := x19\<rparr>) = core_ok c"
  "core_ok (c\<lparr>tc_hyperlink_next_id := x20\<rparr>) = core_ok c"
  "core_ok (c\<lparr>tc_active_hyperlink_id := x21\<rparr>) = core_ok c"
  "core_ok (c\<lparr>tc_cursor_just_shown := x22\<rparr>) = core_ok c"
  "core_ok (c\<lparr>tc_cursor_style_override := x26\<rparr>) = core_ok c"
  "core_ok (c\<lparr>tc_cursor_blink_override := x27\<rparr>) = core_ok c"
  "core_ok (c\<lparr>tc_ring_size := x28\<rparr>) = core_ok c"
  by (simp_all add: core_ok_def part_defs)

lemma core_ok_cursor:
  "core_ok c \<Longrightarrow> cu_col u < tc_cols c \<Longrightarrow> cu_row u < tc_rows c \<Longrightarrow> core_ok (c\<lparr>tc_cursor := u\<rparr>)"
  by (simp add: core_ok_def part_defs)

lemma core_ok_upd_cursor [intro]:
  "core_ok c \<Longrightarrow> cu_col (f (tc_cursor c)) < tc_cols c \<Longrightarrow> cu_row (f (tc_cursor c)) < tc_rows c \<Longrightarrow>
     core_ok (upd_cursor f c)"
  by (simp add: upd_cursor_def core_ok_cursor)

lemma core_ok_buffer:
  "core_ok c \<Longrightarrow> length b \<le> 64 \<Longrightarrow> list_all is_scalar b \<Longrightarrow> core_ok (c\<lparr>tc_grapheme_buffer := b\<rparr>)"
  by (simp add: core_ok_def part_defs)

lemma set_mode_core_ok [simp]: "core_ok (set_mode c b v) = core_ok c"
  by (simp add: set_mode_def)

lemma fire_core_ok [simp]:
  "core_ok (fire c e) = core_ok c" "core_ok (fire_osc_callback c k d) = core_ok c"
  "core_ok (fire_apc_callback c ap) = core_ok c" "core_ok (fire_dcs_callback c ap) = core_ok c"
  "core_ok (fire_bell_callback c) = core_ok c" "core_ok (fire_reset_callback c) = core_ok c"
  by (simp_all add: fire_def fire_osc_callback_def fire_apc_callback_def fire_dcs_callback_def
      fire_bell_callback_def fire_reset_callback_def)

lemma charset_core_ok [simp]:
  "core_ok (set_g0_charset c x) = core_ok c" "core_ok (set_g1_charset c x) = core_ok c"
  by (simp_all add: set_g0_charset_def set_g1_charset_def)

lemma write_response_core_ok [simp]: "core_ok (fst (write_response c r)) = core_ok c"
  by (simp add: write_response_def)

lemma save_restore_core_ok:
  assumes "core_ok c"
  shows "core_ok (save_cursor c)" "core_ok (restore_cursor c)"
  using assms core_okD(6,7) [OF assms]
  by (auto simp: save_cursor_def restore_cursor_def Let_def cursor_new_def intro: core_ok_cursor split: option.split)

lemma tab_stop_core_ok: "core_ok c \<Longrightarrow> core_ok (set_tab_stop c col)"
  by (simp add: set_tab_stop_def core_ok_def part_defs)

lemma next_tab_stop_lt:
  assumes "core_ok c"
  shows "next_tab_stop c col < tc_cols c"
  using core_okD(6,13) [OF assms] find_Some_iff [of "\<lambda>i. tc_tab_stops c ! i" "[col + 1..<length (tc_tab_stops c)]"]
  by (auto simp: next_tab_stop_def split: option.split)

lemma core_reset_ok:
  assumes "core_ok c"
  shows "core_ok (core_reset c)"
proof -
  have g: "grid_ok c" "0 < tc_cols c" "0 < tc_rows c" using core_okD [OF assms] by blast+
  have "grid_inv (core_reset c)"
    using g by (simp add: grid_inv_def core_reset_def fire_reset_callback_def fire_def mark_all_dirty_def
        cells_fine_def overflow_fine_def grid_ok_def)
  then show ?thesis
    using g by (simp add: core_ok_def part_defs core_reset_def fire_reset_callback_def fire_def mark_all_dirty_def
        cursor_new_def default_tab_stops_def)
qed

subsection \<open>The CSI handlers\<close>

lemma move_cursor_ok: "core_ok c \<Longrightarrow> col < tc_cols c \<Longrightarrow> row < tc_rows c \<Longrightarrow> core_ok (move_cursor c col row)"
  by (auto simp: move_cursor_def)

lemma movement_bounds:
  assumes "core_ok c"
  shows "row_above c n < tc_rows c" "row_below c n < tc_rows c"
    "to_zero_indexed_col c k < tc_cols c" "to_zero_indexed_row c k < tc_rows c"
    "min (sat_add16 (cur_col c) n) (tc_cols c - 1) < tc_cols c"
  using core_okD(6-12) [OF assms]
  by (auto simp: row_above_def row_below_def to_zero_indexed_col_def to_zero_indexed_row_def Let_def min_def)

lemma cursor_handlers_ok:
  assumes "core_ok c"
  shows "core_ok (handle_cursor_up c n)" "core_ok (handle_cursor_down c n)"
    "core_ok (handle_cursor_forward c n)" "core_ok (handle_cursor_back c n)"
    "core_ok (handle_cursor_next_line c n)" "core_ok (handle_cursor_previous_line c n)"
    "core_ok (handle_cursor_horizontal_absolute c n)" "core_ok (handle_cursor_position c n k)"
    "core_ok (handle_cursor_vertical_absolute c n)" "core_ok (handle_decscusr c n)"
  using core_okD(6-9) [OF assms] movement_bounds [OF assms] assms
  by (simp_all add: handle_cursor_up_def handle_cursor_down_def handle_cursor_forward_def handle_cursor_back_def
      handle_cursor_next_line_def handle_cursor_previous_line_def handle_cursor_horizontal_absolute_def
      handle_cursor_position_def handle_cursor_vertical_absolute_def handle_decscusr_def move_cursor_ok)

lemma clear_line_core_ok: "core_ok c \<Longrightarrow> core_ok (clear_line c r)"
  by (rule core_ok_grid, assumption) (simp_all add: core_okD(1))

lemma fold_clear_core_ok: "core_ok c \<Longrightarrow> core_ok (foldl clear_line c rs)"
  by (induction rs arbitrary: c) (simp_all add: clear_line_core_ok)

lemma erase_range_ok:
  assumes "core_ok c"
  shows "core_ok (erase_range_with_edge_repair c row s e k)"
proof (rule core_ok_grid [OF assms])
  show "grid_frame c (erase_range_with_edge_repair c row s e k)"
    unfolding erase_range_with_edge_repair_def Let_def by (intro grid_steps grid_frame_clear_line_range)
  show "grid_inv (erase_range_with_edge_repair c row s e k)"
    unfolding erase_range_with_edge_repair_def Let_def
    by (intro grid_steps clear_line_range_inv core_okD(1) [OF assms])
qed

lemma erase_handlers_ok:
  assumes "core_ok c"
  shows "core_ok (handle_erase_in_line c m)" "core_ok (fst (handle_erase_in_display c m))"
    "core_ok (handle_erase_characters c n)"
  using assms
  by (simp_all add: handle_erase_in_line_def handle_erase_in_display_def handle_erase_characters_def Let_def
      erase_range_ok clear_line_core_ok fold_clear_core_ok)

lemma edit_handlers_ok:
  assumes "core_ok c"
  shows "core_ok (handle_insert_lines c n)" "core_ok (handle_delete_lines c n)"
    "core_ok (handle_insert_characters c n)" "core_ok (handle_delete_characters c n)"
proof -
  show "core_ok (handle_insert_characters c n)" "core_ok (handle_delete_characters c n)"
    using core_ok_grid [OF assms] handle_insert_characters_inv handle_delete_characters_inv core_okD(1) [OF assms]
    by blast+
  show "core_ok (handle_insert_lines c n)" "core_ok (handle_delete_lines c n)"
    using core_ok_grid [OF assms grid_frame_shift_rows_down [OF grid_frame_refl]]
      core_ok_grid [OF assms grid_frame_shift_rows_up [OF grid_frame_refl]] core_okD(1) [OF assms] assms
    by (simp_all add: handle_insert_lines_def handle_delete_lines_def Let_def)
qed

lemma set_scroll_region_ok:
  assumes "core_ok c"
  shows "core_ok (set_scroll_region c t b)"
    and "tc_scroll_region_top (set_scroll_region c t b) < tc_rows c"
    and "tc_rows (set_scroll_region c t b) = tc_rows c" "tc_cols (set_scroll_region c t b) = tc_cols c"
  using assms core_okD(6,7) [OF assms]
  by (auto simp: set_scroll_region_def Let_def core_ok_def part_defs)

lemma handle_decstbm_ok:
  assumes "core_ok c"
  shows "core_ok (handle_decstbm c t b)"
  using set_scroll_region_ok [OF assms] core_okD(6,7) [OF assms]
  by (auto simp: handle_decstbm_def Let_def intro!: move_cursor_ok)

lemma ext_color_keeps [simp]:
  "cu_col (set_flag f u) = cu_col u" "cu_row (set_flag f u) = cu_row u"
  "cu_col (unset_flag f u) = cu_col u" "cu_row (unset_flag f u) = cu_row u"
  "cu_col (sgr_reset u) = cu_col u" "cu_row (sgr_reset u) = cu_row u"
  "cu_col (sgr_single p u) = cu_col u" "cu_row (sgr_single p u) = cu_row u"
  by (simp_all add: set_flag_def unset_flag_def sgr_reset_def sgr_single_def)

lemma sgr_run_keeps [simp]: "cu_col (sgr_run ps u) = cu_col u" "cu_row (sgr_run ps u) = cu_row u"
  by (induction ps u rule: sgr_run.induct) (simp_all split: option.split)

lemma handle_sgr_ok: "core_ok c \<Longrightarrow> core_ok (handle_sgr c ps)"
  by (auto simp: handle_sgr_def core_okD)

lemma handle_set_mode_ok: "core_ok c \<Longrightarrow> core_ok (fst (handle_set_mode c m e))"
  by (simp add: handle_set_mode_def Let_def save_restore_core_ok split: option.split)

lemma set_mode_param_ok: "core_ok c \<Longrightarrow> core_ok (set_mode_param e c p)"
  using handle_set_mode_ok [of c p e] by (simp add: set_mode_param_def split_def Let_def)

lemma set_mode_params_ok: "core_ok c \<Longrightarrow> core_ok (foldl (set_mode_param e) c ps)"
  by (induction ps arbitrary: c) (simp_all add: set_mode_param_ok)

lemma device_reports_ok [simp]:
  "core_ok (fst (format_cpr c)) = core_ok c" "core_ok (fst (handle_device_status_report c p)) = core_ok c"
  "core_ok (fst (handle_primary_device_attributes c)) = core_ok c"
  "core_ok (fst (handle_secondary_device_attributes c)) = core_ok c"
  "core_ok (fst (handle_decrpm c m)) = core_ok c" "core_ok (fst (format_xtwinops c a x y)) = core_ok c"
  "core_ok (fst (handle_xtwinops_text_area_px c)) = core_ok c"
  "core_ok (fst (handle_xtwinops_cell_size c)) = core_ok c"
  "core_ok (fst (handle_xtwinops_text_area_chars c)) = core_ok c"
  by (simp_all add: format_cpr_def Let_def handle_device_status_report_def handle_primary_device_attributes_def
      handle_secondary_device_attributes_def handle_decrpm_def format_xtwinops_def handle_xtwinops_text_area_px_def
      handle_xtwinops_cell_size_def handle_xtwinops_text_area_chars_def)

lemma release_rows_frame: "tables_frame c d \<Longrightarrow> tables_frame c (release_rows d rs)"
proof (induction rs arbitrary: d)
  case (Cons r rs)
  have "tables_frame c (release_slim_row d r)"
    using Cons.prems tables_frame_release [of d r] unfolding tables_frame_def by force
  with Cons.IH show ?case by (simp add: release_rows_def)
qed (simp add: release_rows_def)

lemma tables_frame_refl: "tables_frame c c"
  unfolding tables_frame_def by (rule exI [of _ "tc_styles c"], rule exI [of _ "tc_chars c"]) simp

lemma clear_scrollback_ok:
  assumes "core_ok c"
  shows "core_ok (clear_scrollback c)"
proof (cases "tc_scrollback_slim c = []")
  case False
  let ?d = "c\<lparr>tc_scrollback_slim := []\<rparr>"
  obtain st ch where r: "release_rows ?d (tc_scrollback_slim c) = ?d\<lparr>tc_styles := st, tc_chars := ch\<rparr>"
    using release_rows_frame [OF tables_frame_refl, of ?d] unfolding tables_frame_def by blast
  have "core_ok ((?d\<lparr>tc_styles := st, tc_chars := ch\<rparr>)\<lparr>tc_scrollback_wrapped := []\<rparr>)"
    using assms by (simp add: core_ok_def part_defs)
  then show ?thesis
    using False core_ok_grid [OF _ grid_frame_mark_all_dirty [OF grid_frame_refl]]
    by (simp add: clear_scrollback_def r core_okD(1))
qed (simp add: clear_scrollback_def assms)

lemma handle_csi_internal_ok:
  assumes "core_ok c"
  shows "core_ok (handle_csi_internal c ps ints b)"
proof -
  have "core_ok (csi_plain c ps b)"
    using assms erase_handlers_ok [OF assms]
    by (simp add: csi_plain_def Let_def split_def cursor_handlers_ok edit_handlers_ok handle_decstbm_ok handle_sgr_ok
        handle_scroll_up_def handle_scroll_down_def scroll_up_internal_ok scroll_down_internal_ok clear_scrollback_ok)
  moreover have "core_ok (csi_private c ps ints b)"
    using assms by (simp add: csi_private_def set_mode_params_ok)
  ultimately show ?thesis
    using assms by (simp add: handle_csi_internal_def cursor_handlers_ok split: list.split)
qed

subsection \<open>Control characters, escape sequences and OSC strings\<close>

lemma cursor_down_ok:
  "core_ok c \<Longrightarrow> \<not> cur_row c \<ge> tc_scroll_region_bottom c \<Longrightarrow> core_ok (upd_cursor (\<lambda>u. u\<lparr>cu_row := cu_row u + 1\<rparr>) c)"
  using core_okD(8,11) [of c] by auto

lemma line_feed_ok: "core_ok c \<Longrightarrow> core_ok (line_feed c)"
  using cursor_down_ok [of "c\<lparr>tc_last_write := None\<rparr>"] by (simp add: line_feed_def Let_def scroll_up_internal_ok)

lemma carriage_return_ok: "core_ok c \<Longrightarrow> core_ok (carriage_return c)"
  by (auto simp: carriage_return_def core_okD)

lemma esc_handlers_ok:
  assumes "core_ok c"
  shows "core_ok (esc_index c)" "core_ok (esc_next_line c)" "core_ok (esc_reverse_index c)"
proof -
  have index: "core_ok (esc_index d)" if "core_ok d" for d
    using cursor_down_ok [OF that] that by (simp add: esc_index_def scroll_up_internal_ok)
  show "core_ok (esc_index c)" by (rule index [OF assms])
  show "core_ok (esc_next_line c)"
    unfolding esc_next_line_def by (rule index) (use assms in \<open>auto simp: core_okD\<close>)
  have "core_ok (upd_cursor (\<lambda>u. u\<lparr>cu_row := cu_row u - 1\<rparr>) c)"
    using core_okD(8,9) [OF assms] assms by auto
  then show "core_ok (esc_reverse_index c)"
    using assms by (simp add: esc_reverse_index_def scroll_down_internal_ok)
qed

lemma handle_esc_internal_ok: "core_ok c \<Longrightarrow> core_ok (handle_esc_internal c i b)"
  by (simp add: handle_esc_internal_def esc_handlers_ok save_restore_core_ok esc_horizontal_tab_set_def
      tab_stop_core_ok esc_full_reset_def core_reset_ok split: option.split)

lemma handle_execute_internal_ok:
  assumes "core_ok c"
  shows "core_ok (handle_execute_internal c b)"
proof -
  note k = core_okD(6-9) [OF assms]
  have "core_ok (upd_cursor (\<lambda>u. u\<lparr>cu_col := cu_col u - 1\<rparr>) c)"
    "core_ok (upd_cursor (\<lambda>u. u\<lparr>cu_col := find_next_tab_stop c\<rparr>) c)"
    "core_ok (upd_cursor (\<lambda>u. u\<lparr>cu_col := 0\<rparr>) c)"
    using k next_tab_stop_lt [OF assms] assms by (auto simp: find_next_tab_stop_def)
  with assms line_feed_ok [OF assms] show ?thesis
    by (simp add: handle_execute_internal_def handle_execute_def execute_line_feed_def)
qed

lemma append_within_budget_ok [simp]: "core_ok (append_within_budget c r) = core_ok c"
  by (simp add: append_within_budget_def)

lemma consult_ok [simp]: "core_ok (consult_osc_responder c k d t n) = core_ok c"
proof -
  have "core_ok (foldl append_within_budget c rs) = core_ok c" for rs
    by (induction rs arbitrary: c) simp_all
  then show ?thesis by (simp add: consult_osc_responder_def split: option.split)
qed

lemma hyperlink_ok [simp]: "core_ok (handle_hyperlink c d) = core_ok c"
  by (auto simp: handle_hyperlink_def allocate_hyperlink_def gc_hyperlink_table_def Let_def split: option.split)

lemma cursor_shape_ok [simp]: "core_ok (handle_cursor_shape c d) = core_ok c"
  by (simp add: handle_cursor_shape_def)

lemma core_ok_marks: "core_ok c \<Longrightarrow> marks_ok (c\<lparr>tc_pending_prompt_marks := ms, tc_bypass_b_mark_texts := ts\<rparr>) \<Longrightarrow>
    core_ok (c\<lparr>tc_pending_prompt_marks := ms, tc_bypass_b_mark_texts := ts\<rparr>)"
  by (simp add: core_ok_def part_defs)

lemma keys_delete: "fst ` set (AList.delete k t) = fst ` set t - {k}"
  using arg_cong [OF delete_keys [of k t], of set] by simp

lemma capture_texts_ok:
  assumes "marks_ok c" and "abs_row \<in> set (map pm_abs_row (tc_pending_prompt_marks c))"
  shows "marks_ok (capture_b_mark c abs_row)"
proof -
  have "marks_ok (c\<lparr>tc_bypass_b_mark_texts := AList.update abs_row s (AList.delete k (tc_bypass_b_mark_texts c))\<rparr>)"
    "marks_ok (c\<lparr>tc_bypass_b_mark_texts := AList.update abs_row s (tc_bypass_b_mark_texts c)\<rparr>)" for k s
    using assms by (auto simp: marks_ok_def distinct_update distinct_delete dom_update keys_delete)
  then show ?thesis
    by (auto simp: capture_b_mark_def Let_def split: list.split)
qed

lemma core_ok_if: "core_ok b \<Longrightarrow> core_ok a \<Longrightarrow> core_ok (if P then a else b)"
  by simp

lemma push_pending_prompt_mark_ok:
  assumes "core_ok c"
  shows "core_ok (push_pending_prompt_mark c kind code)"
proof -
  let ?mark = "\<lparr>pm_kind = kind, pm_abs_row = cursor_abs_row c, pm_exit_code = code,
    pm_evicted_total = tc_scrollback_evicted_total c\<rparr>"
  let ?c1 = "if length (tc_pending_prompt_marks c) \<ge> MAX_PENDING_PROMPT_MARKS then
      (case tc_pending_prompt_marks c of [] \<Rightarrow> c
       | evicted # rest \<Rightarrow> c\<lparr>tc_pending_prompt_marks := rest,
           tc_bypass_b_mark_texts := AList.delete (pm_abs_row evicted) (tc_bypass_b_mark_texts c)\<rparr>)
    else c"
  let ?c2 = "?c1\<lparr>tc_pending_prompt_marks := tc_pending_prompt_marks ?c1 @ [?mark]\<rparr>"
  have m: "marks_ok c" by (rule core_okD(5) [OF assms])
  have m2: "marks_ok ?c2"
  proof (cases "length (tc_pending_prompt_marks c) \<ge> MAX_PENDING_PROMPT_MARKS")
    case True
    then obtain e es where es: "tc_pending_prompt_marks c = e # es"
      by (cases "tc_pending_prompt_marks c") (auto simp: MAX_PENDING_PROMPT_MARKS_def)
    then show ?thesis
      using m by (auto simp: marks_ok_def distinct_delete keys_delete)
  qed (use m in \<open>auto simp: marks_ok_def\<close>)
  then have k: "core_ok ?c2"
    using assms by (auto simp: core_ok_def part_defs split: list.split)
  have "core_ok (capture_b_mark ?c2 (cursor_abs_row c))"
  proof -
    have "marks_ok (capture_b_mark ?c2 (cursor_abs_row c))" by (rule capture_texts_ok [OF m2]) simp
    then show ?thesis using k by (simp add: core_ok_def part_defs capture_b_mark_def Let_def)
  qed
  with k show ?thesis unfolding push_pending_prompt_mark_def Let_def by (rule core_ok_if)
qed

lemma push_pending_fold_mark_ok: "core_ok c \<Longrightarrow> core_ok (push_pending_fold_mark c kind label)"
  by (auto simp: push_pending_fold_mark_def Let_def core_ok_def part_defs MAX_PENDING_FOLD_MARKS_def)

lemma handle_osc_internal_ok:
  assumes "core_ok c"
  shows "core_ok (handle_osc_internal c param d t n)"
  using assms
  by (auto simp: handle_osc_internal_def Let_def push_pending_prompt_mark_ok push_pending_fold_mark_ok
      split: option.split)

end
