(* ===== verification/PrintInv.thy ===== *)
theory PrintInv
  imports CoreInv
begin

text \<open>
  Printing keeps the terminal invariant: writing a grapheme with its wrap, wide-pair repair and
  spacer, the ASCII fast path, the retroactive merge of zero-width characters with the relocation of
  a base that became wide, and the grapheme buffer.
\<close>

subsection \<open>Text\<close>

lemma utf8_valid_append: "utf8_valid s \<Longrightarrow> utf8_valid (s @ t) = utf8_valid t"
proof (induction s rule: utf8_valid.induct)
  case (1 s)
  show ?case
  proof (cases "s = []")
    case False
    with "1.prems" have st: "fst (utf8_step s)" "utf8_valid (drop (snd (utf8_step s)) s)"
      by (simp_all add: utf8_valid.simps [of s] Let_def split: if_splits)
    have "utf8_valid (s @ t) = utf8_valid (take (snd (utf8_step s)) s @ drop (snd (utf8_step s)) s @ t)"
      by (simp flip: append_assoc)
    also have "\<dots> = utf8_valid (drop (snd (utf8_step s)) s @ t)" by (rule utf8_valid_step [OF False st(1)])
    also have "\<dots> = utf8_valid t" using "1.IH" [OF False] st by simp
    finally show ?thesis .
  qed simp
qed

lemma utf8_valid_encodes: "list_all is_scalar cps \<Longrightarrow> utf8_valid (concat (map utf8_encode cps))"
  by (induction cps) (simp_all add: utf8_valid_encode_append)

lemma encodes_length: "length (concat (map utf8_encode cps)) \<le> 4 * length cps"
  by (induction cps) (simp_all add: utf8_encode_length)

lemma encode_or_facts: "is_scalar d \<Longrightarrow> utf8_valid (encode_or d cp)" "encode_or d cp \<noteq> []" "length (encode_or d cp) \<le> 4"
  by (simp_all add: encode_or_def utf8_encode_length)

lemma grapheme_ok_encode_or: "is_scalar d \<Longrightarrow> grapheme_ok (encode_or d cp)"
  using encode_or_facts [of d cp] by (simp add: grapheme_ok_def)

subsection \<open>Writing a grapheme\<close>

lemma wrap_to_next_line_ok:
  assumes "core_ok c"
  shows "core_ok (wrap_to_next_line c)"
proof -
  let ?d = "line_feed (carriage_return c)"
  have d: "core_ok ?d" by (rule line_feed_ok [OF carriage_return_ok [OF assms]])
  show ?thesis
    unfolding wrap_to_next_line_def Let_def
  proof (rule core_ok_grid [OF d])
    show "grid_frame ?d (?d\<lparr>tc_ring_wrapped := (tc_ring_wrapped ?d)[viewport_abs ?d (cur_row ?d) := True]\<rparr>)" by simp
    then show "grid_inv (?d\<lparr>tc_ring_wrapped := (tc_ring_wrapped ?d)[viewport_abs ?d (cur_row ?d) := True]\<rparr>)"
      by (rule grid_inv_same [OF core_okD(1) [OF d]]) simp_all
  qed
qed

lemma advance_cursor_ok: "core_ok c \<Longrightarrow> core_ok (advance_cursor c k)"
  by (auto simp: advance_cursor_def core_okD)

lemma put_spacer_ok: "core_ok c \<Longrightarrow> core_ok (put_spacer c col row fg bg fl hl)"
  by (rule core_ok_grid, assumption) (simp_all add: core_okD(1))

lemma blank_orphaned_ok:
  "core_ok c \<Longrightarrow> core_ok (blank_orphaned_neighbor_before_overwrite c col row w)"
  "core_ok c \<Longrightarrow> core_ok (blank_orphaned_base_before_placeholder c col row)"
  by (rule core_ok_grid, assumption, simp_all add: core_okD(1))+

lemma mark_row_core_ok: "core_ok c \<Longrightarrow> core_ok (mark_row_dirty c r)"
  by (rule core_ok_grid, assumption) (simp_all add: core_okD(1))

text \<open>A cell stored and styled in one go.\<close>

lemma styled_store_inv:
  assumes "grid_inv c" and "cell_index c col row = Some i" and "grapheme_ok s" and "w \<le> 2"
  defines "d \<equiv> store_grapheme c i col (viewport_abs c row) s"
  shows "grid_inv (upd_cell i (style_cell w fg bg fl hl) d)"
proof -
  have d: "grid_inv d" unfolding d_def by (rule store_grapheme_inv [OF assms(1-3)])
  have "cell_index d col row = Some i"
    using cell_index_frame [OF grid_invD(1) [OF assms(1)] grid_invD(1) [OF d]] assms(2) by (simp add: d_def)
  then show ?thesis
    using store_grapheme_cell [OF assms(1,2)] assms(3,4)
    by (intro style_cell_inv [OF d]) (simp_all add: d_def grapheme_ok_def)
qed

lemma blank_before_overwrite:
  fixes w :: nat
  assumes "grid_inv c" and "cell_index c col row = Some i"
  defines "d \<equiv> (if w \<noteq> 1 then blank_orphaned_neighbor_before_overwrite c col row w else c)"
  shows "grid_inv d" "grid_frame c d" "cell_index d col row = Some i"
proof -
  show 1: "grid_inv d" "grid_frame c d" using assms(1) by (simp_all add: d_def)
  show "cell_index d col row = Some i"
    using cell_index_frame [OF grid_invD(1) [OF assms(1)] grid_invD(1) [OF 1(1)] 1(2)] assms(2) by simp
qed

lemma write_base_ok:
  assumes "core_ok c" and "grapheme_ok s" and "w \<le> 2"
  shows "core_ok (write_base c col row s w)"
proof (cases "cell_index c col row")
  case (Some i)
  let ?w = "cl_width (tc_ring_cells c ! i)"
  let ?c1 = "if ?w \<noteq> 1 then blank_orphaned_neighbor_before_overwrite c col row ?w else c"
  let ?c2 = "store_grapheme ?c1 i col (viewport_abs ?c1 row) s"
  let ?u = "tc_cursor ?c2"
  note b = blank_before_overwrite [OF core_okD(1) [OF assms(1)] Some, of ?w]
  have "core_ok (upd_cell i (style_cell w (cu_fg ?u) (cu_bg ?u) (cu_flags ?u) (tc_active_hyperlink_id ?c2)) ?c2)"
    by (rule core_ok_grid [OF assms(1)])
      (intro grid_frame_upd_cell store_grapheme_frame b(2), rule styled_store_inv [OF b(1,3) assms(2,3)])
  then have "core_ok (mark_row_dirty (upd_cell i (style_cell w (cu_fg ?u) (cu_bg ?u) (cu_flags ?u)
      (tc_active_hyperlink_id ?c2)) ?c2) row)" by (rule mark_row_core_ok)
  with Some show ?thesis unfolding write_base_def Let_def by simp
qed (simp add: write_base_def assms)

lemma write_grapheme_to_grid_ok:
  assumes "core_ok c" and "grapheme_ok s" and "w \<le> 2"
  shows "core_ok (write_grapheme_to_grid c s w)"
  unfolding write_grapheme_to_grid_def Let_def
  by (intro advance_cursor_ok core_ok_if put_spacer_ok blank_orphaned_ok write_base_ok wrap_to_next_line_ok assms)
    (simp_all add: assms)

lemma overflow_drop_id: "map_of (tc_overflow c) (col, a) = None \<Longrightarrow> overflow_drop c col a = c"
  by (simp add: overflow_drop_def)

lemma write_ascii_ok:
  assumes "core_ok c" and "b < 0x80"
  shows "core_ok (write_ascii c col row b)"
proof (cases "cell_index c col row")
  case (Some i)
  note inv = core_okD(1) [OF assms(1)]
  let ?w = "cl_width (tc_ring_cells c ! i)"
  let ?c1 = "if ?w \<noteq> 1 then blank_orphaned_neighbor_before_overwrite c col row ?w else c"
  note b = blank_before_overwrite [OF inv Some, of ?w]
  let ?u = "tc_cursor ?c1"
  let ?f = "\<lambda>cl. style_cell 1 (cu_fg ?u) (cu_bg ?u) (cu_flags ?u) (tc_active_hyperlink_id ?c1)
      (cl\<lparr>cl_char_data := (cl_char_data cl)[0 := b], cl_char_len := 1\<rparr>)"
  let ?c2 = "upd_cell i ?f ?c1" and ?a = "viewport_abs c row"
  have va: "viewport_abs ?c2 row = ?a" using grid_frame_abs [OF grid_frame_upd_cell [OF b(2)]] by simp
  have drop: "(if is_overflow (tc_ring_cells c ! i) then overflow_drop ?c2 col ?a else ?c2) = overflow_drop ?c2 col ?a"
  proof (cases "is_overflow (tc_ring_cells c ! i)")
    case False
    have "map_of (tc_overflow ?c1) (col, ?a) = None"
    proof (rule ccontr)
      assume "map_of (tc_overflow ?c1) (col, ?a) \<noteq> None"
      then obtain s where "map_of (tc_overflow ?c1) (col, ?a) = Some s" by blast
      then have "map_of (tc_overflow c) (col, ?a) = Some s" by (auto split: if_splits dest: blank_orphaned_entries)
      from grid_invD(3) [OF inv this] False show False
        using cell_index_abs(1) [OF grid_invD(1) [OF inv] Some] by simp
    qed
    then show ?thesis using False by (simp add: overflow_drop_id)
  qed simp
  have i: "i < length (tc_ring_cells ?c1)" by (rule cell_index_abs(5) [OF grid_invD(1) [OF b(1)] b(3)])
  have "grid_inv (overflow_drop ?c2 col (viewport_abs ?c1 row))"
    by (rule upd_cell_drop_inv(1) [OF b(1,3)]) (rule cell_ok_ascii [OF grid_invD(2) [OF b(1) i] assms(2)])
  then have "grid_inv (overflow_drop ?c2 col ?a)" using grid_frame_abs [OF b(2)] by simp
  then have "core_ok (overflow_drop ?c2 col ?a)"
    by (rule core_ok_grid [OF assms(1) grid_frame_overflow_drop [OF grid_frame_upd_cell [OF b(2)]]])
  then have "core_ok ((mark_row_dirty (overflow_drop ?c2 col ?a) row)\<lparr>tc_last_write := Some (col, row)\<rparr>)"
    by (simp add: mark_row_core_ok)
  then show ?thesis unfolding write_ascii_def Let_def by (simp only: Some option.case va drop)
qed (simp add: write_ascii_def assms)

subsection \<open>Merging into the last cell\<close>

text \<open>What a cell shows after a store, and that what any cell shows is well-formed text.\<close>

lemma cell_content_valid:
  assumes "grid_inv c" and "cell_index c col row = Some i"
  shows "utf8_valid (cell_content_at c i col (viewport_abs c row))"
  using assms
  by (auto simp: cell_content_at_def Let_def get_char_inline_def grapheme_ok_def dest: grid_invD(4) split: option.split)

lemma store_grapheme_content:
  assumes "grid_inv c" and "cell_index c col row = Some i" and "grapheme_ok s"
  shows "cell_content_at (store_grapheme c i col (viewport_abs c row) s) i col (viewport_abs c row) = s"
proof -
  note ix = cell_index_abs [OF grid_invD(1) [OF assms(1)] assms(2)]
  have s: "utf8_valid s" using assms(3) by (simp add: grapheme_ok_def)
  have ok: "char_data_ok (tc_ring_cells c ! i)" using grid_invD(2) [OF assms(1) ix(5)] by (simp add: cell_okD)
  show ?thesis
  proof (cases "length s \<le> 16")
    case True
    then have "\<not> is_overflow (set_char (tc_ring_cells c ! i) s)" by (simp add: is_overflow_def set_char_def)
    moreover have "get_char_inline (set_char (tc_ring_cells c ! i) s) = Some s"
      using True s ok by (simp add: get_char_inline_def set_char_def char_data_ok_def splice_def)
    ultimately show ?thesis using ix(5) by (simp add: store_grapheme_def Let_def cell_content_at_def)
  next
    case False
    then have "is_overflow (set_char (tc_ring_cells c ! i) s)" by (simp add: is_overflow_def set_char_def)
    then show ?thesis
      using ix(5) by (simp add: store_grapheme_def Let_def cell_content_at_def map_of_overflow_store)
  qed
qed

lemma relocate_ok:
  assumes "core_ok c" and "cell_index c col row = Some i"
    and "grapheme_ok (cell_content_at c i col (viewport_abs c row))"
  shows "core_ok (relocate_widened_base_via_wrap c col row)"
proof -
  note inv = core_okD(1) [OF assms(1)]
  let ?s = "cell_content_at c i col (viewport_abs c row)" and ?cl = "tc_ring_cells c ! i"
  let ?c1 = "mark_row_dirty (overflow_drop (upd_cell i (\<lambda>_. bce_cell c) c) col (viewport_abs c row)) row"
  let ?c2 = "wrap_to_next_line ?c1"
  let ?r = "cur_row ?c2"
  define c3 where "c3 = (case cell_index ?c2 0 ?r of None \<Rightarrow> ?c2
    | Some k \<Rightarrow> if cl_width (tc_ring_cells ?c2 ! k) \<noteq> 1
        then blank_orphaned_neighbor_before_overwrite ?c2 0 ?r (cl_width (tc_ring_cells ?c2 ! k)) else ?c2)"
  define c4 where "c4 = (case cell_index c3 0 ?r of None \<Rightarrow> c3
    | Some k \<Rightarrow> upd_cell k (style_cell 2 (cl_fg ?cl) (cl_bg ?cl) (cl_flags ?cl) (cl_hyperlink_id ?cl))
        (store_grapheme c3 k 0 (viewport_abs c3 ?r) ?s))"
  define c6 where "c6 = mark_row_dirty (put_spacer (blank_orphaned_base_before_placeholder c4 1 ?r) 1 ?r
    (cl_fg ?cl) (cl_bg ?cl) (cl_flags ?cl) (cl_hyperlink_id ?cl)) ?r"
  have "core_ok ?c1"
    by (intro mark_row_core_ok core_ok_grid [OF assms(1)] upd_cell_drop_inv(1) [OF inv assms(2)]) simp_all
  then have "core_ok ?c2" by (rule wrap_to_next_line_ok)
  then have k3: "core_ok c3" unfolding c3_def by (simp add: blank_orphaned_ok split: option.split)
  have k4: "core_ok c4"
  proof (cases "cell_index c3 0 ?r")
    case (Some k)
    have "core_ok (upd_cell k (style_cell 2 (cl_fg ?cl) (cl_bg ?cl) (cl_flags ?cl) (cl_hyperlink_id ?cl))
        (store_grapheme c3 k 0 (viewport_abs c3 ?r) ?s))"
      by (rule core_ok_grid [OF k3]) (simp, rule styled_store_inv [OF core_okD(1) [OF k3] Some assms(3)], simp)
    with Some show ?thesis by (simp add: c4_def)
  qed (simp add: c4_def k3)
  have k6: "core_ok c6" unfolding c6_def by (intro mark_row_core_ok put_spacer_ok blank_orphaned_ok k4)
  have "core_ok (upd_cursor (\<lambda>u. u\<lparr>cu_col := tc_cols c6 - 1\<rparr>) c6)"
    "\<not> 2 \<ge> tc_cols c6 \<Longrightarrow> core_ok (upd_cursor (\<lambda>u. u\<lparr>cu_col := 2\<rparr>) c6)"
    using k6 by (auto simp: core_okD)
  with k6 show ?thesis
    unfolding relocate_widened_base_via_wrap_def Let_def assms(2) option.case
    unfolding c3_def [symmetric] c4_def [symmetric] c6_def [symmetric] by simp
qed

lemma set_width_ok:
  assumes "core_ok c" and "cell_index c col row = Some i" and "cl_char_len (tc_ring_cells c ! i) \<noteq> 0"
  shows "core_ok (upd_cell i (\<lambda>cl. cl\<lparr>cl_width := 2\<rparr>) c)"
proof (rule core_ok_grid [OF assms(1)])
  note inv = core_okD(1) [OF assms(1)]
  have "cell_ok (tc_ring_cells c ! i)"
    using cell_index_abs(5) [OF grid_invD(1) [OF inv] assms(2)] inv by (simp add: grid_invD(2))
  then have "cell_ok ((tc_ring_cells c ! i)\<lparr>cl_width := 2\<rparr>)" using assms(3) by (intro cell_ok_width) simp_all
  then show "grid_inv (upd_cell i (\<lambda>cl. cl\<lparr>cl_width := 2\<rparr>) c)"
    by (rule upd_cell_keep_inv [OF inv assms(2)]) simp
qed simp

lemma widen_after_merge_ok:
  assumes "core_ok c" and "cell_index c col row = Some i" and "cl_char_len (tc_ring_cells c ! i) \<noteq> 0"
    and "grapheme_ok (cell_content_at c i col (viewport_abs c row))"
  shows "core_ok (widen_after_merge c col row)"
  using relocate_ok [OF assms(1,2,4)] set_width_ok [OF assms(1-3)] assms(2)
  by (auto simp: widen_after_merge_def Let_def advance_cursor_ok mark_row_core_ok put_spacer_ok blank_orphaned_ok)

lemma last_write_index [simp]:
  "cell_index (c\<lparr>tc_last_write := x\<rparr>) col row = cell_index c col row"
  "viewport_abs (c\<lparr>tc_last_write := x\<rparr>) row = viewport_abs c row"
  "cell_content_at (c\<lparr>tc_last_write := x\<rparr>) i col a = cell_content_at c i col a"
  "cell_content_at (mark_row_dirty c r) i col a = cell_content_at c i col a"
  by (simp_all add: cell_index_def viewport_cell_offset_def viewport_abs_def cell_content_at_def Let_def)

lemma merge_into_ok:
  assumes "core_ok c"
  shows "core_ok (fst (merge_into c cp col row))"
proof (cases "cell_index c col row")
  case (Some i)
  note inv = core_okD(1) [OF assms]
  let ?a = "viewport_abs c row" and ?s = "cell_content_at c i col (viewport_abs c row)"
  let ?t = "?s @ encode_or 0xFFFD cp"
  show ?thesis
  proof (cases "length ?s \<ge> MAX_MERGED_CLUSTER_BYTES")
    case False
    have r: "is_scalar 0xFFFD" by (simp add: is_scalar_def)
    have t: "grapheme_ok ?t"
      using False utf8_valid_append [OF cell_content_valid [OF inv Some], of "encode_or 0xFFFD cp"]
        grapheme_ok_encode_or [OF r, of cp] encode_or_facts(3) [of "0xFFFD" cp]
      by (simp add: grapheme_ok_def MAX_MERGED_CLUSTER_BYTES_def)
    let ?d = "store_grapheme c i col ?a ?t" and ?lw = "Some (col, row)"
    let ?c1 = "(mark_row_dirty ?d row)\<lparr>tc_last_write := ?lw\<rparr>"
    have d: "core_ok ?d" by (rule core_ok_grid [OF assms]) (simp_all add: store_grapheme_inv [OF inv Some t])
    then have c1: "core_ok ?c1" by (simp add: mark_row_core_ok)
    have ix: "cell_index ?c1 col row = Some i"
      using cell_index_frame [OF core_okD(2) [OF assms] core_okD(2) [OF mark_row_core_ok [OF d]]] Some by simp
    have "cl_char_len (tc_ring_cells ?c1 ! i) \<noteq> 0"
      using store_grapheme_cell [OF inv Some, of ?t] t by (simp add: grapheme_ok_def)
    moreover have "viewport_abs ?c1 row = ?a"
      using grid_frame_abs [of c "mark_row_dirty ?d row"] by simp
    then have "cell_content_at ?c1 i col (viewport_abs ?c1 row) = ?t"
      using store_grapheme_content [OF inv Some t] by simp
    ultimately have "core_ok (widen_after_merge ?c1 col row)"
      using widen_after_merge_ok [OF c1 ix] t by simp
    with c1 False Some show ?thesis by (auto simp: merge_into_def Let_def)
  qed (simp add: merge_into_def Let_def Some assms)
qed (simp add: merge_into_def assms)

lemma try_retroactive_merge_ok: "core_ok c \<Longrightarrow> core_ok (fst (try_retroactive_merge c cp))"
  by (simp add: try_retroactive_merge_def merge_into_ok split: option.split prod.split)

subsection \<open>The grapheme buffer and printing\<close>

lemma flush_grapheme_buffer_ok:
  assumes "core_ok c"
  shows "core_ok (flush_grapheme_buffer c)"
proof (cases "tc_grapheme_buffer c = []")
  case False
  let ?buf = "tc_grapheme_buffer c"
  let ?s = "concat (map utf8_encode (filter is_scalar ?buf))"
  have b: "length ?buf \<le> 64" "list_all is_scalar ?buf" by (rule core_okD [OF assms])+
  have "grapheme_ok ?s"
  proof -
    have f: "filter is_scalar ?buf = ?buf" using b(2) by (simp add: filter_id_conv list_all_iff)
    have "?s \<noteq> []" unfolding f using False by (cases ?buf) simp_all
    with b utf8_valid_encodes [OF b(2)] encodes_length [of ?buf] f show ?thesis by (simp add: grapheme_ok_def)
  qed
  moreover have "core_ok (c\<lparr>tc_grapheme_buffer := []\<rparr>)" by (rule core_ok_buffer [OF assms]) simp_all
  ultimately show ?thesis
    using False by (simp add: flush_grapheme_buffer_def Let_def write_grapheme_to_grid_ok char_width_le)
qed (simp add: flush_grapheme_buffer_def assms)

lemma push_grapheme_ok:
  "core_ok c \<Longrightarrow> length (tc_grapheme_buffer c) < 64 \<Longrightarrow> is_scalar cp \<Longrightarrow> core_ok (push_grapheme c cp)"
  unfolding push_grapheme_def by (rule core_ok_buffer) (simp_all add: core_okD)

lemma print_char_ok:
  assumes "core_ok c"
  shows "core_ok (print_char c cp)"
proof -
  have "is_scalar 0x20" by (simp add: is_scalar_def)
  then have "core_ok (handle_print_slow c cp)"
    by (simp add: handle_print_slow_def write_grapheme_to_grid_ok assms grapheme_ok_encode_or char_width_le)
  moreover have "core_ok (handle_print_ascii c cp)" if "0x20 \<le> cp" "cp < 0x7F"
  proof -
    have "as_u8 cp < 0x80" using that by (simp add: word_less_nat_alt)
    then show ?thesis by (simp add: handle_print_ascii_def Let_def advance_cursor_ok write_ascii_ok assms)
  qed
  ultimately show ?thesis by (simp add: print_char_def)
qed

lemma cluster_print_ok:
  assumes "core_ok c" and "length (tc_grapheme_buffer c) < 64" and "is_scalar cp"
  shows "core_ok (cluster_print c cp)"
  using push_grapheme_ok [OF assms] assms(1)
  by (simp add: cluster_print_def Let_def flush_grapheme_buffer_ok print_char_ok try_retroactive_merge_ok)

lemma write_grapheme_buffer [simp]:
  "tc_grapheme_buffer (write_base c col row s w) = tc_grapheme_buffer c"
  "tc_grapheme_buffer (advance_cursor c k) = tc_grapheme_buffer c"
  "tc_grapheme_buffer (put_spacer c col row fg bg fl hl) = tc_grapheme_buffer c"
  "tc_grapheme_buffer (blank_orphaned_base_before_placeholder c col row) = tc_grapheme_buffer c"
proof -
  have "grid_frame c (store_grapheme (blank_orphaned_neighbor_before_overwrite c col row w') i col a s)"
    "grid_frame c (store_grapheme c i col a s)" for i a w' by simp_all
  note st = this [THEN grid_frameD(18)]
  show "tc_grapheme_buffer (write_base c col row s w) = tc_grapheme_buffer c"
    using st by (simp add: write_base_def Let_def mark_row_dirty_def upd_cell_def split: option.split)
  show "tc_grapheme_buffer (advance_cursor c k) = tc_grapheme_buffer c"
    by (simp add: advance_cursor_def upd_cursor_def)
  have "grid_frame c (put_spacer c col row fg bg fl hl)" "grid_frame c (blank_orphaned_base_before_placeholder c col row)"
    by simp_all
  then show "tc_grapheme_buffer (put_spacer c col row fg bg fl hl) = tc_grapheme_buffer c"
    "tc_grapheme_buffer (blank_orphaned_base_before_placeholder c col row) = tc_grapheme_buffer c"
    by (simp_all add: grid_frameD)
qed

lemma wrap_to_next_line_buffer:
  assumes "core_ok c"
  shows "tc_grapheme_buffer (wrap_to_next_line c) = tc_grapheme_buffer c"
proof -
  have "core_ok (c\<lparr>tc_cursor := (tc_cursor c)\<lparr>cu_col := 0\<rparr>, tc_last_write := None\<rparr>)"
    using assms core_okD(6-9) [OF assms] by (simp add: core_ok_cursor)
  then show ?thesis
    using scroll_frameD(13) [OF scroll_up_internal_ok(2)]
    by (simp add: wrap_to_next_line_def line_feed_def carriage_return_def upd_cursor_def Let_def)
qed

lemma write_grapheme_to_grid_buffer:
  assumes "core_ok c"
  shows "tc_grapheme_buffer (write_grapheme_to_grid c s w) = tc_grapheme_buffer c"
proof -
  let ?c1 = "if tc_wrap_pending c then wrap_to_next_line (c\<lparr>tc_wrap_pending := False\<rparr>) else c"
  have c1: "core_ok ?c1" "tc_grapheme_buffer ?c1 = tc_grapheme_buffer c"
    using wrap_to_next_line_ok [of "c\<lparr>tc_wrap_pending := False\<rparr>"]
      wrap_to_next_line_buffer [of "c\<lparr>tc_wrap_pending := False\<rparr>"] assms by simp_all
  then have "tc_grapheme_buffer (if P then wrap_to_next_line ?c1 else ?c1) = tc_grapheme_buffer c" for P
    using wrap_to_next_line_buffer [OF c1(1)] by simp
  then show ?thesis
    unfolding write_grapheme_to_grid_def Let_def by simp
qed

lemma flush_empties: "core_ok c \<Longrightarrow> tc_grapheme_buffer (flush_grapheme_buffer c) = []"
  using write_grapheme_to_grid_buffer [OF core_ok_buffer [of c "[]"]]
  by (simp add: flush_grapheme_buffer_def Let_def)

lemma handle_print_ok:
  assumes "core_ok c" and "is_scalar cp"
  shows "core_ok (handle_print c cp)"
proof -
  let ?c1 = "c\<lparr>tc_kitty_placeholder_active := False\<rparr>"
  let ?c2 = "if length (tc_grapheme_buffer ?c1) \<ge> 64 then flush_grapheme_buffer ?c1 else ?c1"
  have "core_ok ?c2" "length (tc_grapheme_buffer ?c2) < 64"
    using assms flush_grapheme_buffer_ok [of ?c1] flush_empties [of ?c1] by simp_all
  then have "core_ok (cluster_print ?c2 cp)" by (rule cluster_print_ok [OF _ _ assms(2)])
  with assms flush_grapheme_buffer_ok [OF assms(1)] show ?thesis by (simp add: handle_print_def Let_def)
qed

end
