(* ===== verification/Dispatch.thy ===== *)
theory Dispatch
  imports PrintHandler CsiHandlers EscHandlers OscHandler
begin

text \<open>
  \<open>terminal_dispatch.rs\<close>: the byte stream entry points.  Actions of the parser are routed to
  the handlers; a chunk that starts in a clean ground state is first run through the ASCII fast
  path, and a chunk much longer than the ring may skip lines that would scroll away anyway.
\<close>

subsection \<open>Actions\<close>

definition flush_and_invalidate :: "core \<Rightarrow> core" where
  "flush_and_invalidate c =
     (if tc_grapheme_buffer c \<noteq> [] then flush_grapheme_buffer c else c)\<lparr>tc_last_write := None\<rparr>"

definition dispatch_action :: "core \<Rightarrow> parsed_action \<Rightarrow> core" where
  "dispatch_action c action =
     (case action of
        Print ch \<Rightarrow> handle_print c ch
      | Execute byte \<Rightarrow> handle_execute_internal (flush_and_invalidate c) byte
      | CsiDispatch params param_count ints int_count final_byte \<Rightarrow>
          handle_csi_internal (flush_and_invalidate c) (take param_count params) (take int_count ints) final_byte
      | EscDispatch intermediate final_byte \<Rightarrow> handle_esc_internal (flush_and_invalidate c) intermediate final_byte
      | OscDispatch param data terminator received_len \<Rightarrow>
          handle_osc_internal (flush_and_invalidate c) param data terminator received_len
      | ApcDispatch payload \<Rightarrow>
          let c1 = flush_and_invalidate c
          in if handle_kitty_apc payload = QueryHandled then c1 else fire_apc_callback c1 payload
      | DcsDispatch payload \<Rightarrow> fire_dcs_callback (flush_and_invalidate c) payload)"

text \<open>The scan of the action queue, three bytes per fallback entry.\<close>

function pending_switch :: "nat list \<Rightarrow> bool" where
  "pending_switch [] = False"
| "pending_switch (code # rest) =
     (if code = 0xFF \<or> code = 0xFE then pending_switch (drop 2 rest)
      else if 1 \<le> code \<and> code \<le> 3 then True
      else pending_switch rest)"
  by pat_completeness auto
termination by (relation "measure length") auto

definition has_pending_buffer_switch :: "core \<Rightarrow> bool" where
  "has_pending_buffer_switch c = pending_switch (tc_mode_actions c)"

definition emit_action :: "core \<Rightarrow> parsed_action \<Rightarrow> core \<times> bool" where
  "emit_action c action =
     (let c1 = dispatch_action c action
      in (c1, \<not> has_pending_buffer_switch c1 \<and> \<not> tc_cursor_just_shown c1))"

subsection \<open>ASCII fast path\<close>

text \<open>One byte of the fast path; \<open>None\<close> leaves it for the slow path.\<close>

definition fast_byte :: "core \<Rightarrow> u8 \<Rightarrow> core option" where
  "fast_byte c b =
     (if in_range 0x20 0x7E b then
        if tc_wrap_pending c then None
        else
          let col = cur_col c; row = cur_row c;
              c1 = write_ascii c col row b;
              new_col = col + 1
          in Some (if new_col < tc_cols c1 then upd_cursor (\<lambda>u. u\<lparr>cu_col := new_col\<rparr>) c1
                   else if get_mode c1 MODE_AUTO_WRAP
                   then (upd_cursor (\<lambda>u. u\<lparr>cu_col := tc_cols c1 - 1\<rparr>) c1)\<lparr>tc_wrap_pending := True\<rparr>
                   else c1)
      else if b = 0x0D then
        Some ((upd_cursor (\<lambda>u. u\<lparr>cu_col := 0\<rparr>) c)\<lparr>tc_wrap_pending := False, tc_last_write := None\<rparr>)
      else if b = 0x0A \<or> b = 0x0B \<or> b = 0x0C then Some ((line_feed c)\<lparr>tc_wrap_pending := False\<rparr>)
      else if b = 0x08 then
        Some ((upd_cursor (\<lambda>u. u\<lparr>cu_col := cu_col u - 1\<rparr>) c)\<lparr>tc_wrap_pending := False, tc_last_write := None\<rparr>)
      else if b = 0x09 then
        Some ((upd_cursor (\<lambda>u. u\<lparr>cu_col := next_tab_stop c (cur_col c)\<rparr>) c)
                \<lparr>tc_wrap_pending := False, tc_last_write := None\<rparr>)
      else if b = 0x07 then Some (fire_bell_callback c)
      else None)"

fun fast_run :: "core \<Rightarrow> u8 list \<Rightarrow> core \<times> u8 list" where
  "fast_run c [] = (c, [])"
| "fast_run c (b # bs) = (case fast_byte c b of None \<Rightarrow> (c, b # bs) | Some c1 \<Rightarrow> fast_run c1 bs)"

lemma fast_run_length: "length (snd (fast_run c bs)) \<le> length bs"
  by (induction bs arbitrary: c) (auto split: option.split intro: le_SucI)

subsection \<open>Bulk skip\<close>

definition fast_eligible :: "u8 \<Rightarrow> bool" where
  "fast_eligible b \<longleftrightarrow> b \<in> {0x0A, 0x07, 0x08, 0x09, 0x0B, 0x0C, 0x0D} \<or> in_range 0x20 0x7E b"

definition can_fast_ascii :: "core \<Rightarrow> bool" where
  "can_fast_ascii c \<longleftrightarrow> tc_active_charset c = 0 \<and> tc_g0_charset c = 0 \<and> \<not> tc_kitty_placeholder_active c"

definition count_newlines :: "u8 list \<Rightarrow> nat" where
  "count_newlines data = length (filter (\<lambda>b. b = 0x0A) data)"

text \<open>The data after the \<open>n\<close>-th newline.\<close>

fun after_newlines :: "nat \<Rightarrow> u8 list \<Rightarrow> u8 list" where
  "after_newlines n [] = []"
| "after_newlines n (b # bs) =
     (if b = 0x0A then if n \<le> 1 then bs else after_newlines (n - 1) bs else after_newlines n bs)"

lemma after_newlines_length: "length (after_newlines n bs) \<le> length bs"
  by (induction bs arbitrary: n) (auto intro: le_SucI)

definition bulk_skip_applies :: "parser \<Rightarrow> core \<Rightarrow> u8 list \<Rightarrow> bool" where
  "bulk_skip_applies p c data \<longleftrightarrow>
     can_fast_ascii c \<and> is_ground_clean p \<and> tc_grapheme_buffer c = []
     \<and> cur_row c \<ge> tc_scroll_region_bottom c \<and> tc_scroll_region_top c = 0
     \<and> tc_scroll_region_bottom c = tc_rows c - 1 \<and> length data > tc_ring_capacity c * 4
     \<and> list_all fast_eligible data \<and> count_newlines data > tc_rows c"

definition bulk_skip :: "core \<Rightarrow> u8 list \<Rightarrow> core \<times> u8 list" where
  "bulk_skip c data =
     (let skip_lines = count_newlines data - tc_rows c;
          c1 = c\<lparr>tc_ring_head := 0, tc_ring_size := 0, tc_scroll_event := None,
                 tc_overflow := [], tc_overflow_ridx := []\<rparr>;
          bg = cu_bg (tc_cursor c1);
          c2 = ((\<lambda>d. ring_push_blank d bg) ^^ tc_rows c1) c1;
          c3 = (upd_cursor (\<lambda>u. u\<lparr>cu_row := tc_rows c2 - 1, cu_col := 0\<rparr>) c2)\<lparr>tc_wrap_pending := False\<rparr>
      in (mark_all_dirty c3, after_newlines skip_lines data))"

subsection \<open>Processing a chunk\<close>

definition fast_phase :: "bool \<Rightarrow> parser \<Rightarrow> core \<Rightarrow> u8 list \<Rightarrow> core \<times> u8 list" where
  "fast_phase can_fast p c data =
     (if can_fast \<and> is_ground_clean p \<and> tc_grapheme_buffer c = [] then fast_run c data else (c, data))"

lemma fast_phase_length: "length (snd (fast_phase can_fast p c data)) \<le> length data"
  by (simp add: fast_phase_def fast_run_length)

function process_loop :: "bool \<Rightarrow> parser \<Rightarrow> core \<Rightarrow> u8 list \<Rightarrow> parser \<times> core \<times> u8 list" where
  "process_loop can_fast p c data =
     (if data = [] then (p, c, [])
      else
        let (c1, rest) = fast_phase can_fast p c data
        in if length rest < length data then process_loop can_fast p c1 rest
           else
             let (consumed, p2, c2) = parse_interruptible emit_action p c1 rest;
                 left = drop consumed rest
             in if has_pending_buffer_switch c2 then (p2, c2, left)
                else if tc_cursor_just_shown c2 then (p2, c2\<lparr>tc_cursor_just_shown := False\<rparr>, left)
                else if consumed = 0 then (p2, c2, left)
                else process_loop can_fast p2 c2 left)"
  by auto
termination
proof (relation "measure (\<lambda>(can_fast, p, c, data). length data)", goal_cases)
  case (3 can_fast p c data x c1 rest y consumed z p2 c2 left)
  have "rest = snd (fast_phase can_fast p c data)" using 3(2,3) by (metis snd_conv)
  then have "length rest \<le> length data" by (simp add: fast_phase_length)
  with 3 show ?case by simp
qed (auto split: prod.splits)

declare process_loop.simps [simp del]

text \<open>The parser is moved out of the core while it runs and put back at the end.\<close>

definition process_pty_data :: "core \<Rightarrow> u8 list \<Rightarrow> core \<times> nat" where
  "process_pty_data c0 data =
     (let p = tc_parser c0;
          c = c0\<lparr>tc_parser := parser_new\<rparr>;
          (c1, data1) = (if bulk_skip_applies p c data then bulk_skip c data else (c, data));
          (p2, c2, left) = process_loop (can_fast_ascii c) p c1 data1
      in (c2\<lparr>tc_parser := p2\<rparr>, length data - length left))"

text \<open>Resuming until everything is consumed; the accumulated mode actions are returned.  The
  cancellation flag is polled before every round: \<open>cancel k\<close> is its value at round \<open>k\<close>.\<close>

function fully_loop :: "(nat \<Rightarrow> bool) \<Rightarrow> nat \<Rightarrow> core \<Rightarrow> u8 list \<Rightarrow> nat list \<Rightarrow> core \<times> nat list option" where
  "fully_loop cancel k c data actions =
     (if data = [] then (c, Some actions)
      else if cancel k then (c, None)
      else
        let (c1, consumed) = process_pty_data c data;
            (acts, c2) = take_mode_actions c1
        in if consumed = 0 then (c2, Some (actions @ acts))
           else fully_loop cancel (k + 1) c2 (drop consumed data) (actions @ acts))"
  by auto
termination by (relation "measure (\<lambda>(cancel, k, c, data, actions). length data)") auto

declare fully_loop.simps [simp del]

definition process_pty_data_fully_cancellable :: "core \<Rightarrow> u8 list \<Rightarrow> (nat \<Rightarrow> bool) \<Rightarrow> core \<times> nat list option" where
  "process_pty_data_fully_cancellable c bytes cancel = fully_loop cancel 0 c bytes []"

definition process_pty_data_fully :: "core \<Rightarrow> u8 list \<Rightarrow> core \<times> nat list" where
  "process_pty_data_fully c bytes =
     (case process_pty_data_fully_cancellable c bytes (\<lambda>_. False) of
        (c1, Some actions) \<Rightarrow> (c1, actions) | (c1, None) \<Rightarrow> (c1, []))"

end
