(* ===== verification/VtParserProps.thy ===== *)
theory VtParserProps
  imports VtParserFacts
begin

text \<open>
  The properties of the escape-sequence parser.  The lemmas before each property compute the
  parser on the byte sequences in question.
\<close>

lemma parse_Nil [simp]: "parse p [] = (p, [])"
  by (simp add: parse_def)

lemma parse_Cons:
  "parse p (b # bs) =
     (let (p1, a1) = parse_byte p b; (p2, a2) = parse p1 bs in (p2, a1 @ a2))"
  by (simp add: parse_def)

lemma parse_append:
  "parse p (xs @ ys) = (let (p1, a1) = parse p xs; (p2, a2) = parse p1 ys in (p2, a1 @ a2))"
  by (simp add: parse_def run_machine_append)

lemma parse_silent_step: "parse_byte p b = (q, []) \<Longrightarrow> parse p (b # bs) = parse q bs"
  by (simp add: parse_Cons)

lemma parse_silent_append: "parse p xs = (q, []) \<Longrightarrow> parse p (xs @ ys) = parse q ys"
  by (simp add: parse_append)

subsection \<open>Printed characters\<close>

lemma parse_conts:
  assumes "ps_state p = Ground" and "expected_len b = Some n"
    and "Suc (length pre + length conts) = n" and "conts \<noteq> []" and "list_all is_cont conts"
    and "utf8_valid (b # pre @ conts)" and "utf8_chars (b # pre @ conts) = [c]"
  shows "parse (p\<lparr>ps_utf8_buffer := b # pre\<rparr>) conts = (p\<lparr>ps_utf8_buffer := []\<rparr>, [Print c])"
  using assms
proof (induction conts arbitrary: pre)
  case (Cons d conts)
  have d: "in_range 0x80 0xBF d" using Cons.prems(5) by (simp add: is_cont_def)
  have g: "parse_byte (p\<lparr>ps_utf8_buffer := b # pre\<rparr>) d
      = handle_utf8_byte (p\<lparr>ps_utf8_buffer := b # pre\<rparr>) d"
    using Cons.prems(1) by (simp add: parse_byte_def ground_def)
  show ?case
  proof (cases conts)
    case Nil
    with Cons.prems d g show ?thesis
      by (simp add: parse_Cons handle_utf8_byte_def Let_def)
  next
    case (Cons e r)
    have "parse (p\<lparr>ps_utf8_buffer := b # pre @ [d]\<rparr>) conts
        = (p\<lparr>ps_utf8_buffer := []\<rparr>, [Print c])"
      by (rule Cons.IH [of "pre @ [d]"]) (use Cons.prems Cons in simp_all)
    moreover have "parse_byte (p\<lparr>ps_utf8_buffer := b # pre\<rparr>) d
        = (p\<lparr>ps_utf8_buffer := b # pre @ [d]\<rparr>, [])"
      using Cons.prems(2,3) d g Cons by (simp add: handle_utf8_byte_def Let_def)
    ultimately show ?thesis by (simp add: parse_silent_step)
  qed
qed simp

text \<open>The encoding of a scalar is ASCII, or a lead byte announcing the continuation bytes that
  follow it.\<close>

lemma utf8_encode_shape:
  assumes "is_scalar c"
  obtains "c < 0x80" "utf8_encode c = [as_u8 c]"
  | b conts where "utf8_encode c = b # conts" "conts \<noteq> []" "list_all is_cont conts"
      "expected_len b = Some (Suc (length conts))" "in_range 0xC0 0xF7 b"
  using assms
proof (cases c rule: scalar_cases)
  case one
  with that(1) show ?thesis by (simp add: utf8_encode_def)
next
  case two
  then have "c div 64 < 32" by simp
  with two show ?thesis by (intro that(2)) (auto simp: utf8_encode_def expected_len_def in_range_unat)
next
  case three
  have "c div 4096 < 16" using three(2) by simp
  with three show ?thesis by (intro that(2)) (auto simp: utf8_encode_def expected_len_def in_range_unat)
next
  case four
  have "c div 262144 < 5" using four(2) by simp
  with four show ?thesis by (intro that(2)) (auto simp: utf8_encode_def expected_len_def in_range_unat)
qed

lemma lead_byte_step:
  assumes "is_ground_clean p" and "in_range 0xC0 0xF7 b"
  shows "parse_byte p b = (p\<lparr>ps_utf8_buffer := [b]\<rparr>, [])"
  using assms
  by (auto simp: is_ground_clean_def parse_byte_def ground_def ground_match_def u8_unat)

lemma ascii_step:
  assumes "is_ground_clean p" and "in_range 0x20 0x7E b"
  shows "parse_byte p b = (p, [Print (unat b)])"
  using assms
  by (auto simp: is_ground_clean_def parse_byte_def ground_def ground_match_def u8_unat)

lemma clean_utf8_id: "is_ground_clean p \<Longrightarrow> p\<lparr>ps_utf8_buffer := []\<rparr> = p"
  by (simp add: is_ground_clean_def)

definition printable :: "nat \<Rightarrow> bool" where
  "printable c \<longleftrightarrow> is_scalar c \<and> 0x20 \<le> c \<and> c \<noteq> 0x7F"

lemma parse_char:
  assumes "is_ground_clean p" and "printable c"
  shows "parse p (utf8_encode c) = (p, [Print c])"
proof -
  have sc: "is_scalar c" using assms(2) by (simp add: printable_def)
  show ?thesis
  proof (rule utf8_encode_shape [OF sc])
    assume "c < 0x80" and e: "utf8_encode c = [as_u8 c]"
    with assms(2) have "in_range 0x20 0x7E (as_u8 c)" by (auto simp: printable_def in_range_unat)
    from ascii_step [OF assms(1) this] \<open>c < 0x80\<close> show ?thesis by (simp add: e parse_Cons)
  next
    fix b conts
    assume e: "utf8_encode c = b # conts" and h: "conts \<noteq> []" "list_all is_cont conts"
      "expected_len b = Some (Suc (length conts))" "in_range 0xC0 0xF7 b"
    have v: "utf8_valid (b # conts)" "utf8_chars (b # conts) = [c]"
      using utf8_valid_encode [OF sc] utf8_chars_encode_append [OF sc, of "[]"]
      by (simp_all add: e [symmetric] utf8_chars.simps [of "[]"])
    have "parse (p\<lparr>ps_utf8_buffer := [b]\<rparr>) conts = (p\<lparr>ps_utf8_buffer := []\<rparr>, [Print c])"
      by (rule parse_conts) (use assms(1) h v in \<open>simp_all add: is_ground_clean_def\<close>)
    with lead_byte_step [OF assms(1) h(4)] clean_utf8_id [OF assms(1)] show ?thesis
      by (simp add: e parse_silent_step)
  qed
qed

text \<open>C16. A text of printable Unicode characters fed to a clean parser is reported as exactly one
  \<open>Print\<close> per character, in order, and leaves the parser unchanged.\<close>

theorem parse_text:
  "is_ground_clean p \<Longrightarrow> list_all printable cs \<Longrightarrow>
     parse p (concat (map utf8_encode cs)) = (p, map Print cs)"
  by (induction cs) (simp_all add: parse_append parse_char)

lemma parse_text_witness:
  "parse parser_new (concat (map utf8_encode [0x41, 0xE9, 0x20AC, 0x1F600])) =
     (parser_new, [Print 0x41, Print 0xE9, Print 0x20AC, Print 0x1F600])"
  using parse_text [of parser_new "[0x41, 0xE9, 0x20AC, 0x1F600]"]
  by (simp add: is_ground_clean_def parser_new_def printable_def is_scalar_def)

lemma parse_conts_partial:
  assumes "ps_state p = Ground" and "expected_len b = Some n"
    and "Suc (length pre + length conts) < n" and "list_all is_cont conts"
  shows "parse (p\<lparr>ps_utf8_buffer := b # pre\<rparr>) conts = (p\<lparr>ps_utf8_buffer := b # pre @ conts\<rparr>, [])"
  using assms
proof (induction conts arbitrary: pre)
  case (Cons d conts)
  have "parse_byte (p\<lparr>ps_utf8_buffer := b # pre\<rparr>) d = (p\<lparr>ps_utf8_buffer := b # pre @ [d]\<rparr>, [])"
    using Cons.prems by (simp add: parse_byte_def ground_def handle_utf8_byte_def is_cont_def Let_def)
  moreover have "parse (p\<lparr>ps_utf8_buffer := b # pre @ [d]\<rparr>) conts
      = (p\<lparr>ps_utf8_buffer := b # pre @ d # conts\<rparr>, [])"
    using Cons.IH [of "pre @ [d]"] Cons.prems by simp
  ultimately show ?case by (simp add: parse_silent_step)
qed simp

lemma ascii_step_pending:
  assumes "is_ground_clean p" and "in_range 0x20 0x7E b"
  shows "parse_byte (p\<lparr>ps_utf8_buffer := a # buf\<rparr>) b = (p, [Print (unat b)])"
proof -
  have "\<not> in_range 0x80 0xBF b" "b \<noteq> 0x1B" "b \<noteq> 0x7F"
    "\<not> in_range 0 0x1A b" "\<not> in_range 0x1C 0x1F b"
    using assms(2) by (auto simp: in_range_unat)
  with assms show ?thesis
    by (simp add: parse_byte_def ground_def handle_utf8_byte_def ground_match_def
        is_ground_clean_def)
qed

text \<open>A truncated multi-byte character followed by an ASCII character is dropped without a
  trace: only the ASCII character is reported, although the comment at the branch announces a
  replacement character.\<close>

theorem truncated_char_dropped:
  assumes "is_ground_clean p" and "is_scalar c" and "0 < k" and "k < length (utf8_encode c)"
    and "in_range 0x20 0x7E b"
  shows "parse p (take k (utf8_encode c) @ [b]) = (p, [Print (unat b)])"
proof (rule utf8_encode_shape [OF assms(2)])
  assume "utf8_encode c = [as_u8 c]"
  with assms(3,4) show ?thesis by simp
next
  fix l conts
  assume e: "utf8_encode c = l # conts" and h: "list_all is_cont conts"
    "expected_len l = Some (Suc (length conts))" "in_range 0xC0 0xF7 l"
  let ?cs = "take (k - 1) conts"
  have "list_all is_cont ?cs" using h(1) by (auto simp: list_all_iff dest: in_set_takeD)
  moreover have "Suc (length ?cs) < Suc (length conts)" using assms(3,4) e by simp
  ultimately have "parse (p\<lparr>ps_utf8_buffer := [l]\<rparr>) ?cs = (p\<lparr>ps_utf8_buffer := l # ?cs\<rparr>, [])"
    using parse_conts_partial [of p l "Suc (length conts)" "[]" ?cs] assms(1) h(2)
    by (simp add: is_ground_clean_def)
  moreover have "take k (utf8_encode c) = l # ?cs"
    using assms(3) by (cases k) (simp_all add: e)
  ultimately show ?thesis
    using lead_byte_step [OF assms(1) h(3)] ascii_step_pending [OF assms(1,5)]
    by (simp add: parse_silent_step parse_silent_append parse_Cons)
qed

lemma truncated_char_dropped_witness:
  "parse parser_new (take 2 (utf8_encode 0x20AC) @ [0x41]) = (parser_new, [Print 0x41])"
  using truncated_char_dropped [of parser_new "0x20AC" 2 "0x41"]
  by (simp add: is_ground_clean_def parser_new_def is_scalar_def utf8_encode_length in_range_unat)

subsection \<open>CSI sequences\<close>

definition is_private_marker :: "u8 \<Rightarrow> bool" where
  "is_private_marker b \<longleftrightarrow> b \<in> {0x3F, 0x3E, 0x3C, 0x3D, 0x20}"

fun csi_params_text :: "nat list \<Rightarrow> u8 list" where
  "csi_params_text [] = []"
| "csi_params_text [x] = decimal x"
| "csi_params_text (x # xs) = decimal x @ 0x3B # csi_params_text xs"

definition csi_text :: "u8 list \<Rightarrow> nat list \<Rightarrow> u8 \<Rightarrow> u8 list" where
  "csi_text marker ps f = [0x1B, 0x5B] @ marker @ csi_params_text ps @ [f]"

definition in_csi :: "parser \<Rightarrow> bool" where
  "in_csi p \<longleftrightarrow> ps_state p = CsiEntry \<or> ps_state p = CsiParam"

lemma csi_digit_step:
  assumes "in_csi p" and "is_digit b"
  shows "parse_byte p b = (p\<lparr>ps_params := add_digit (ps_params p) b, ps_state := CsiParam\<rparr>, [])"
  using assms by (auto simp: in_csi_def parse_byte_def csi_entry_def csi_param_def)

lemma csi_digits:
  assumes "in_csi p" and "list_all is_digit ds" and "ds \<noteq> []"
  shows "parse p ds =
    (p\<lparr>ps_params := foldl add_digit (ps_params p) ds, ps_state := CsiParam\<rparr>, [])"
  using assms
proof (induction ds arbitrary: p)
  case (Cons d ds)
  let ?q = "p\<lparr>ps_params := add_digit (ps_params p) d, ps_state := CsiParam\<rparr>"
  have s: "parse_byte p d = (?q, [])" using csi_digit_step Cons.prems by simp
  have "parse ?q ds = (p\<lparr>ps_params := foldl add_digit (ps_params p) (d # ds), ps_state := CsiParam\<rparr>, [])"
    using Cons.IH [of ?q] Cons.prems by (cases "ds = []") (simp_all add: in_csi_def)
  with s show ?case by (simp add: parse_silent_step)
qed simp

lemma csi_number:
  assumes "in_csi p" and "pp_current (ps_params p) = 0" and "x \<le> MAX_PARAM_VALUE"
  shows "parse p (decimal x) =
    (p\<lparr>ps_params := (ps_params p)\<lparr>pp_current := x, pp_has_current := True\<rparr>, ps_state := CsiParam\<rparr>, [])"
  using csi_digits [OF assms(1), of "decimal x"] foldl_add_digit_decimal [OF assms(3,2)]
  by (simp add: list_all_iff decimal_digits)

lemma pp_params_same:
  "(q::param_parser)\<lparr>pp_params := pp_params q, pp_current := a, pp_has_current := c\<rparr>
     = q\<lparr>pp_current := a, pp_has_current := c\<rparr>"
  by (cases q) simp

text \<open>Parsing the parameters collects all but the last in the vector and leaves the last one
  pending.\<close>

lemma csi_params_parsed:
  assumes "in_csi p" and "pp_current (ps_params p) = 0"
    and "ps \<noteq> []" and "list_all (\<lambda>x. x \<le> MAX_PARAM_VALUE) ps"
    and "length (pp_params (ps_params p)) + length ps \<le> MAX_PARAMS"
  shows "parse p (csi_params_text ps) =
    (p\<lparr>ps_params := (ps_params p)\<lparr>pp_params := pp_params (ps_params p) @ butlast ps,
        pp_current := last ps, pp_has_current := True\<rparr>, ps_state := CsiParam\<rparr>, [])"
  using assms
proof (induction ps arbitrary: p rule: csi_params_text.induct)
  case (2 x)
  then show ?case using csi_number [of p x] by (simp add: pp_params_same)
next
  case (3 x y xs)
  let ?q = "p\<lparr>ps_params := (ps_params p)\<lparr>pp_current := x, pp_has_current := True\<rparr>, ps_state := CsiParam\<rparr>"
  let ?r = "p\<lparr>ps_params := (ps_params p)\<lparr>pp_params := pp_params (ps_params p) @ [x],
      pp_current := 0, pp_has_current := False\<rparr>, ps_state := CsiParam\<rparr>"
  have n: "parse p (decimal x) = (?q, [])" using csi_number [of p x] "3.prems" by simp
  have sep: "parse_byte ?q 0x3B = (?r, [])"
    using "3.prems" by (simp add: parse_byte_def csi_param_def is_digit_def in_range_unat
        finish_param_def Let_def)
  have r: "in_csi ?r" by (simp add: in_csi_def)
  have "parse ?r (csi_params_text (y # xs)) =
    (p\<lparr>ps_params := (ps_params p)\<lparr>pp_params := pp_params (ps_params p) @ butlast (x # y # xs),
        pp_current := last (x # y # xs), pp_has_current := True\<rparr>, ps_state := CsiParam\<rparr>, [])"
    using "3.IH" [OF r] "3.prems" by simp
  with n sep show ?case by (simp add: parse_silent_append parse_silent_step)
qed simp

lemma pp_reset_new: "pp_reset q = param_parser_new"
  by (cases q) (simp add: pp_reset_def param_parser_new_def)

lemma csi_final_step:
  assumes "in_csi p" and "in_range 0x40 0x7E f"
  shows "parse_byte p f = dispatch_csi p f"
proof -
  have "\<not> is_digit f" "f \<notin> {0x3F, 0x3E, 0x3C, 0x3D, 0x20, 0x3B, 0x3A}" "\<not> in_range 0x20 0x2F f"
    using assms(2) by (auto simp: is_digit_def in_range_unat)
  with assms show ?thesis
    by (auto simp: in_csi_def parse_byte_def csi_entry_def csi_param_def)
qed

lemma csi_prefix:
  assumes "is_ground_clean p"
  shows "parse p [0x1B, 0x5B] = (p\<lparr>ps_state := CsiEntry, ps_params := param_parser_new\<rparr>, [])"
  using assms
  by (simp add: parse_Cons is_ground_clean_def parse_byte_def ground_def ground_match_def
      escape_def pp_reset_new)

lemma csi_marker_step:
  assumes "ps_state p = CsiEntry" and "ps_params p = param_parser_new" and "is_private_marker b"
  shows "parse_byte p b =
    (p\<lparr>ps_params := param_parser_new\<lparr>pp_intermediates := [b]\<rparr>, ps_state := CsiParam\<rparr>, [])"
  using assms
  by (auto simp: parse_byte_def csi_entry_def is_private_marker_def is_digit_def in_range_unat
      add_intermediate_def param_parser_new_def)

lemma csi_dispatch_pending:
  assumes "ps_params p = param_parser_new
      \<lparr>pp_intermediates := m, pp_params := butlast ps, pp_current := last ps, pp_has_current := True\<rparr>"
    and "ps \<noteq> []" and "length ps \<le> MAX_CSI_PARAMS" and "length m \<le> MAX_CSI_INTERMEDIATES"
  shows "dispatch_csi p f = (p\<lparr>ps_params := param_parser_new, ps_state := Ground\<rparr>,
    [CsiDispatch (to_array MAX_CSI_PARAMS 0 ps) (length ps) (to_array MAX_CSI_INTERMEDIATES 0 m)
       (length m) f])"
proof -
  have "length (butlast ps) < MAX_PARAMS" using assms(2,3) by (simp add: MAX_PARAMS_def MAX_CSI_PARAMS_def)
  moreover have "butlast ps @ [last ps] = ps" using assms(2) by simp
  ultimately show ?thesis using assms
    by (simp add: dispatch_csi_def finish_def Let_def split_def pp_reset_new min_def)
qed

lemma csi_dispatch_empty:
  assumes "ps_params p = param_parser_new\<lparr>pp_intermediates := m\<rparr>" and "length m \<le> MAX_CSI_INTERMEDIATES"
  shows "dispatch_csi p f = (p\<lparr>ps_params := param_parser_new, ps_state := Ground\<rparr>,
    [CsiDispatch (to_array MAX_CSI_PARAMS 0 []) 0 (to_array MAX_CSI_INTERMEDIATES 0 m) (length m) f])"
  using assms
  by (simp add: dispatch_csi_def finish_def Let_def split_def pp_reset_new min_def param_parser_new_def)

lemma csi_body:
  assumes "in_csi p" and "ps_params p = param_parser_new\<lparr>pp_intermediates := m\<rparr>"
    and "length m \<le> MAX_CSI_INTERMEDIATES" and "list_all (\<lambda>x. x \<le> MAX_PARAM_VALUE) ps"
    and "length ps \<le> MAX_CSI_PARAMS" and "in_range 0x40 0x7E f"
  shows "parse p (csi_params_text ps @ [f]) =
    (p\<lparr>ps_params := param_parser_new, ps_state := Ground\<rparr>,
     [CsiDispatch (to_array MAX_CSI_PARAMS 0 ps) (length ps) (to_array MAX_CSI_INTERMEDIATES 0 m)
        (length m) f])"
proof (cases "ps = []")
  case True
  with csi_final_step [OF assms(1,6)] csi_dispatch_empty [OF assms(2,3)] show ?thesis
    by (simp add: parse_Cons)
next
  case False
  let ?q = "p\<lparr>ps_params := param_parser_new
      \<lparr>pp_intermediates := m, pp_params := butlast ps, pp_current := last ps, pp_has_current := True\<rparr>,
      ps_state := CsiParam\<rparr>"
  have "parse p (csi_params_text ps) = (?q, [])"
    using csi_params_parsed [of p ps] assms False
    by (simp add: param_parser_new_def MAX_PARAMS_def MAX_CSI_PARAMS_def)
  moreover have "parse_byte ?q f = dispatch_csi ?q f"
    by (rule csi_final_step) (use assms in \<open>simp_all add: in_csi_def\<close>)
  moreover have "dispatch_csi ?q f = (?q\<lparr>ps_params := param_parser_new, ps_state := Ground\<rparr>,
    [CsiDispatch (to_array MAX_CSI_PARAMS 0 ps) (length ps) (to_array MAX_CSI_INTERMEDIATES 0 m)
       (length m) f])"
    by (rule csi_dispatch_pending) (use assms False in simp_all)
  ultimately show ?thesis by (simp add: parse_silent_append parse_Cons)
qed

lemma csi_text_parsed:
  assumes "is_ground_clean p" and "length m \<le> 1" and "list_all is_private_marker m"
    and "list_all (\<lambda>x. x \<le> MAX_PARAM_VALUE) ps" and "length ps \<le> MAX_CSI_PARAMS"
    and "in_range 0x40 0x7E f"
  shows "parse p (csi_text m ps f) = (p\<lparr>ps_params := param_parser_new\<rparr>,
     [CsiDispatch (to_array MAX_CSI_PARAMS 0 ps) (length ps) (to_array MAX_CSI_INTERMEDIATES 0 m)
        (length m) f])"
proof -
  let ?q = "p\<lparr>ps_state := CsiEntry, ps_params := param_parser_new\<rparr>"
  have ground: "p\<lparr>ps_params := x, ps_state := Ground\<rparr> = p\<lparr>ps_params := x\<rparr>" for x
    using assms(1) by (cases p) (simp add: is_ground_clean_def)
  have new: "param_parser_new\<lparr>pp_intermediates := []\<rparr> = param_parser_new"
    by (simp add: param_parser_new_def)
  have len: "length m \<le> MAX_CSI_INTERMEDIATES" using assms(2) by (simp add: MAX_CSI_INTERMEDIATES_def)
  show ?thesis
  proof (cases m)
    case Nil
    have "in_csi ?q" by (simp add: in_csi_def)
    from csi_body [OF this _ len assms(4-6)] Nil ground new csi_prefix [OF assms(1)] show ?thesis
      by (simp add: csi_text_def parse_silent_append [where xs = "[0x1B, 0x5B]", simplified])
  next
    case (Cons b bs)
    then have m: "m = [b]" "is_private_marker b" using assms(2,3) by simp_all
    let ?r = "?q\<lparr>ps_params := param_parser_new\<lparr>pp_intermediates := [b]\<rparr>, ps_state := CsiParam\<rparr>"
    have "in_csi ?r" by (simp add: in_csi_def)
    from csi_body [OF this _ len assms(4-6)] m ground csi_prefix [OF assms(1)]
      csi_marker_step [of ?q b]
    show ?thesis
      by (simp add: csi_text_def parse_silent_append [where xs = "[0x1B, 0x5B]", simplified]
          parse_silent_step)
  qed
qed

text \<open>C17. A CSI sequence is reported with exactly the parameters written in it: for at most one
  private marker, up to 16 parameters of at most 9999 and a final byte, one \<open>CsiDispatch\<close>
  carries them (padded with zeros), and the parser is back in its clean ground state.\<close>

theorem parse_csi:
  assumes "is_ground_clean p" and "length m \<le> 1" and "list_all is_private_marker m"
    and "list_all (\<lambda>x. x \<le> MAX_PARAM_VALUE) ps" and "length ps \<le> MAX_CSI_PARAMS"
    and "in_range 0x40 0x7E f"
  shows "parse p (csi_text m ps f) = (p\<lparr>ps_params := param_parser_new\<rparr>,
     [CsiDispatch (to_array MAX_CSI_PARAMS 0 ps) (length ps) (to_array MAX_CSI_INTERMEDIATES 0 m)
        (length m) f])"
  by (rule csi_text_parsed [OF assms])

lemma parse_csi_witness:
  "parse parser_new [0x1B, 0x5B, 0x3F, 0x31, 0x30, 0x34, 0x39, 0x3B, 0x37, 0x68] =
    (parser_new\<lparr>ps_params := param_parser_new\<rparr>,
     [CsiDispatch (to_array MAX_CSI_PARAMS 0 [1049, 7]) 2 (to_array MAX_CSI_INTERMEDIATES 0 [0x3F]) 1 0x68])"
  using parse_csi [of parser_new "[0x3F]" "[1049, 7]" "0x68"]
  by (simp add: is_ground_clean_def parser_new_def is_private_marker_def MAX_PARAM_VALUE_def
      MAX_CSI_PARAMS_def in_range_unat csi_text_def decimal.simps as_u8_def)

subsection \<open>OSC, APC and DCS strings\<close>

lemma osc_prefix:
  assumes "is_ground_clean p"
  shows "parse p [0x1B, 0x5D] = (p\<lparr>ps_state := OscString, ps_osc_buffer := [], ps_osc_param := 0,
    ps_osc_param_done := False, ps_osc_received_len := 0\<rparr>, [])"
  using assms
  by (simp add: parse_Cons is_ground_clean_def parse_byte_def ground_def ground_match_def escape_def)

definition osc_step_num :: "nat \<Rightarrow> u8 \<Rightarrow> nat" where
  "osc_step_num n b = sat_add16 (sat_mul16 n 10) (unat (b - 0x30))"

lemma osc_step_digit: "n * 10 + d \<le> U16_MAX \<Longrightarrow> d < 10 \<Longrightarrow> osc_step_num n (as_u8 (48 + d)) = n * 10 + d"
  by (simp add: osc_step_num_def digit_sub sat_defs)

lemma foldl_osc_decimal: "n \<le> U16_MAX \<Longrightarrow> foldl osc_step_num 0 (decimal n) = n"
proof (induction n rule: decimal.induct)
  case (1 n)
  show ?case
  proof (cases "n < 10")
    case True
    with "1.prems" osc_step_digit [of 0 n] show ?thesis by (simp add: decimal.simps [of n])
  next
    case False
    have "n div 10 * 10 + n mod 10 = n" by simp
    with "1.prems" have "n div 10 * 10 + n mod 10 \<le> U16_MAX" by simp
    from osc_step_digit [OF this] "1.IH" [OF False] "1.prems" False show ?thesis
      by (simp add: decimal.simps [of n])
  qed
qed

lemma osc_digits:
  assumes "ps_state p = OscString" and "\<not> ps_osc_param_done p" and "list_all is_digit ds"
    and "ps_osc_received_len p + length ds \<le> USIZE_MAX"
  shows "parse p ds = (p\<lparr>ps_osc_received_len := ps_osc_received_len p + length ds,
    ps_osc_param := foldl osc_step_num (ps_osc_param p) ds\<rparr>, [])"
  using assms
proof (induction ds arbitrary: p)
  case (Cons d ds)
  let ?q = "p\<lparr>ps_osc_received_len := ps_osc_received_len p + 1,
    ps_osc_param := osc_step_num (ps_osc_param p) d\<rparr>"
  have "d \<noteq> 7" "d \<noteq> 0x1B" using Cons.prems(3) by (auto simp: is_digit_def in_range_unat)
  then have "parse_byte p d = (?q, [])"
    using Cons.prems by (simp add: parse_byte_def osc_string_def count_osc_byte_def
        sat_add_usize_def osc_step_num_def Let_def)
  with Cons.IH [of ?q] Cons.prems show ?case by (simp add: parse_silent_step)
qed simp

definition string_byte :: "u8 \<Rightarrow> bool" where
  "string_byte b \<longleftrightarrow> b \<noteq> 0x07 \<and> b \<noteq> 0x1B"

lemma osc_data:
  assumes "ps_state p = OscString" and "ps_osc_param_done p" and "list_all string_byte bs"
    and "ps_osc_received_len p + length bs \<le> USIZE_MAX"
    and "length (ps_osc_buffer p) \<le> MAX_OSC_LEN"
  shows "parse p bs = (p\<lparr>ps_osc_received_len := ps_osc_received_len p + length bs,
    ps_osc_buffer := take MAX_OSC_LEN (ps_osc_buffer p @ bs)\<rparr>, [])"
  using assms
proof (induction bs arbitrary: p)
  case (Cons b bs)
  let ?q = "p\<lparr>ps_osc_received_len := ps_osc_received_len p + 1,
    ps_osc_buffer := take MAX_OSC_LEN (ps_osc_buffer p @ [b])\<rparr>"
  have "parse_byte p b = (?q, [])"
    using Cons.prems
    by (cases p) (simp add: parse_byte_def osc_string_def count_osc_byte_def
        sat_add_usize_def Let_def string_byte_def not_less)
  moreover have "parse ?q bs = (p\<lparr>ps_osc_received_len := ps_osc_received_len p + length (b # bs),
    ps_osc_buffer := take MAX_OSC_LEN (ps_osc_buffer p @ b # bs)\<rparr>, [])"
    using Cons.IH [of ?q] Cons.prems by (cases "length (ps_osc_buffer p) < MAX_OSC_LEN") simp_all
  ultimately show ?case by (simp add: parse_silent_step)
next
  case Nil
  then show ?case by (cases p) simp
qed

fun terminator_bytes :: "osc_terminator \<Rightarrow> u8 list" where
  "terminator_bytes Bel = [0x07]"
| "terminator_bytes St = [0x1B, 0x5C]"
| "terminator_bytes Unterminated = []"

lemma osc_finish:
  assumes "ps_state p = OscString" and "t \<noteq> Unterminated"
  shows "parse p (terminator_bytes t) = ((fst (dispatch_osc p t))\<lparr>ps_state := Ground\<rparr>, snd (dispatch_osc p t))"
  using assms
  by (cases t) (simp_all add: parse_Cons parse_byte_def osc_string_def osc_escape_def Let_def
      split_def dispatch_osc_def)

lemma decimal_length: "n < 10 ^ k \<Longrightarrow> 0 < k \<Longrightarrow> length (decimal n) \<le> k"
proof (induction k arbitrary: n)
  case (Suc k)
  show ?case
  proof (cases "n < 10")
    case True
    then show ?thesis by (simp add: decimal.simps [of n])
  next
    case False
    with Suc.prems have "n div 10 < 10 ^ k" "0 < k" by (auto intro: gr0I)
    with Suc.IH False show ?thesis by (simp add: decimal.simps [of n])
  qed
qed simp

lemma osc_parsed:
  assumes "is_ground_clean p" and "n \<le> U16_MAX" and "list_all string_byte data"
    and "length data \<le> MAX_OSC_LEN" and "utf8_valid data" and "t \<noteq> Unterminated"
  shows "parse p ([0x1B, 0x5D] @ decimal n @ 0x3B # data @ terminator_bytes t) =
    (p\<lparr>ps_osc_buffer := [], ps_osc_param := 0, ps_osc_param_done := False, ps_osc_received_len := 0\<rparr>,
     [OscDispatch n data t (length (decimal n) + 1 + length data)])"
proof -
  let ?p1 = "p\<lparr>ps_state := OscString, ps_osc_buffer := [], ps_osc_param := 0,
    ps_osc_param_done := False, ps_osc_received_len := 0\<rparr>"
  let ?p2 = "?p1\<lparr>ps_osc_received_len := length (decimal n), ps_osc_param := n\<rparr>"
  let ?p3 = "?p2\<lparr>ps_osc_received_len := length (decimal n) + 1, ps_osc_param_done := True\<rparr>"
  let ?p4 = "?p3\<lparr>ps_osc_received_len := length (decimal n) + 1 + length data, ps_osc_buffer := data\<rparr>"
  have len: "length (decimal n) \<le> 5"
    by (rule decimal_length) (use assms(2) in \<open>simp_all add: U16_MAX_def\<close>)
  have all: "length (decimal n) + 1 + length data \<le> USIZE_MAX"
    using len assms(4) by (simp add: USIZE_MAX_def MAX_OSC_LEN_def)
  have d: "list_all is_digit (decimal n)" by (simp add: list_all_iff decimal_digits)
  have 1: "parse ?p1 (decimal n) = (?p2, [])"
    using osc_digits [of ?p1 "decimal n"] d all foldl_osc_decimal [OF assms(2)] by simp
  have 2: "parse_byte ?p2 0x3B = (?p3, [])"
    using all by (simp add: parse_byte_def osc_string_def is_digit_def in_range_unat
        count_osc_byte_def sat_add_usize_def)
  have 3: "parse ?p3 data = (?p4, [])"
    using osc_data [of ?p3 data] assms(3,4) all by simp
  have 4: "parse ?p4 (terminator_bytes t) = ((fst (dispatch_osc ?p4 t))\<lparr>ps_state := Ground\<rparr>, snd (dispatch_osc ?p4 t))"
    by (rule osc_finish) (use assms(6) in simp_all)
  have "parse p ([0x1B, 0x5D] @ decimal n @ 0x3B # data @ terminator_bytes t)
      = parse ?p1 (decimal n @ 0x3B # data @ terminator_bytes t)"
    using parse_silent_append [OF osc_prefix [OF assms(1)]] by simp
  also have "\<dots> = parse ?p4 (terminator_bytes t)"
    using 1 2 3 by (simp add: parse_silent_append parse_silent_step)
  finally show ?thesis
    using 4 assms(1,5) by (cases p) (simp add: dispatch_osc_def Let_def is_ground_clean_def)
qed

text \<open>An OSC string is reported with its number, its text and its terminator: for a number of
  at most 65535 and well-formed UTF-8 data of at most 16 MiB without BEL and ESC, exactly one
  \<open>OscDispatch\<close> is emitted, its received length is the length of everything between
  \<open>ESC ]\<close> and the terminator, and the parser is back in its clean ground state.\<close>

theorem parse_osc:
  assumes "is_ground_clean p" and "n \<le> U16_MAX" and "list_all string_byte data"
    and "length data \<le> MAX_OSC_LEN" and "utf8_valid data" and "t \<noteq> Unterminated"
  shows "parse p ([0x1B, 0x5D] @ decimal n @ 0x3B # data @ terminator_bytes t) =
    (p\<lparr>ps_osc_buffer := [], ps_osc_param := 0, ps_osc_param_done := False, ps_osc_received_len := 0\<rparr>,
     [OscDispatch n data t (length (decimal n) + 1 + length data)])"
  by (rule osc_parsed [OF assms])

lemma parse_osc_witness:
  "parse parser_new [0x1B, 0x5D, 0x38, 0x3B, 0x68, 0xC3, 0xA9, 0x1B, 0x5C] =
    (parser_new, [OscDispatch 8 [0x68, 0xC3, 0xA9] St 5])"
  using parse_osc [of parser_new 8 "[0x68, 0xC3, 0xA9]" St]
  by (simp add: is_ground_clean_def parser_new_def U16_MAX_def MAX_OSC_LEN_def string_byte_def
      decimal.simps as_u8_def utf8_valid.simps utf8_step_def Let_def in_range_unat u8_lt_unat
      is_cont_def byte_at_def)

lemma apc_data:
  assumes "ps_state p = ApcString" and "0x1B \<notin> set bs" and "length (ps_apc_buffer p) \<le> MAX_APC_LEN"
  shows "parse p bs = (p\<lparr>ps_apc_buffer := take MAX_APC_LEN (ps_apc_buffer p @ bs)\<rparr>, [])"
  using assms
proof (induction bs arbitrary: p)
  case (Cons b bs)
  let ?q = "p\<lparr>ps_apc_buffer := take MAX_APC_LEN (ps_apc_buffer p @ [b])\<rparr>"
  have "parse_byte p b = (?q, [])"
    using Cons.prems by (cases p) (auto simp: parse_byte_def apc_string_def not_less)
  moreover have "parse ?q bs = (p\<lparr>ps_apc_buffer := take MAX_APC_LEN (ps_apc_buffer p @ b # bs)\<rparr>, [])"
    using Cons.IH [of ?q] Cons.prems by (cases "length (ps_apc_buffer p) < MAX_APC_LEN") simp_all
  ultimately show ?case by (simp add: parse_silent_step)
qed simp

lemma dcs_data:
  assumes "ps_state p = DcsString" and "0x1B \<notin> set bs" and "length (ps_dcs_buffer p) \<le> MAX_DCS_LEN"
  shows "parse p bs = (p\<lparr>ps_dcs_buffer := take MAX_DCS_LEN (ps_dcs_buffer p @ bs)\<rparr>, [])"
  using assms
proof (induction bs arbitrary: p)
  case (Cons b bs)
  let ?q = "p\<lparr>ps_dcs_buffer := take MAX_DCS_LEN (ps_dcs_buffer p @ [b])\<rparr>"
  have "parse_byte p b = (?q, [])"
    using Cons.prems by (cases p) (auto simp: parse_byte_def dcs_string_def not_less)
  moreover have "parse ?q bs = (p\<lparr>ps_dcs_buffer := take MAX_DCS_LEN (ps_dcs_buffer p @ b # bs)\<rparr>, [])"
    using Cons.IH [of ?q] Cons.prems by (cases "length (ps_dcs_buffer p) < MAX_DCS_LEN") simp_all
  ultimately show ?case by (simp add: parse_silent_step)
qed simp

lemma string_prefix:
  assumes "is_ground_clean p"
  shows "parse p [0x1B, 0x5F] = (p\<lparr>ps_state := ApcString, ps_apc_buffer := []\<rparr>, [])"
    "parse p [0x1B, 0x50] = (p\<lparr>ps_state := DcsString, ps_dcs_buffer := []\<rparr>, [])"
  using assms
  by (simp_all add: parse_Cons is_ground_clean_def parse_byte_def ground_def ground_match_def escape_def)

lemma string_finish:
  "ps_state p = ApcString \<Longrightarrow> parse p [0x1B, 0x5C] =
     (p\<lparr>ps_state := Ground, ps_apc_buffer := []\<rparr>, [ApcDispatch (ps_apc_buffer p)])"
  "ps_state p = DcsString \<Longrightarrow> parse p [0x1B, 0x5C] =
     (p\<lparr>ps_state := Ground, ps_dcs_buffer := []\<rparr>, [DcsDispatch (ps_dcs_buffer p)])"
  by (simp_all add: parse_Cons parse_byte_def apc_string_def apc_escape_def dispatch_apc_def
      dcs_string_def dcs_escape_def dispatch_dcs_def)

lemma apc_dcs_parsed:
  assumes "is_ground_clean p" and "0x1B \<notin> set data"
  shows "parse p ([0x1B, 0x5F] @ data @ [0x1B, 0x5C]) =
      (p\<lparr>ps_apc_buffer := []\<rparr>, [ApcDispatch (take MAX_APC_LEN data)])
    \<and> parse p ([0x1B, 0x50] @ data @ [0x1B, 0x5C]) =
      (p\<lparr>ps_dcs_buffer := []\<rparr>, [DcsDispatch (take MAX_DCS_LEN data)])"
proof -
  let ?a = "p\<lparr>ps_state := ApcString, ps_apc_buffer := []\<rparr>"
  let ?d = "p\<lparr>ps_state := DcsString, ps_dcs_buffer := []\<rparr>"
  have "parse p ([0x1B, 0x5F] @ data @ [0x1B, 0x5C]) = parse ?a (data @ [0x1B, 0x5C])"
    using parse_silent_append [OF string_prefix(1) [OF assms(1)]] by simp
  also have "\<dots> = parse (?a\<lparr>ps_apc_buffer := take MAX_APC_LEN data\<rparr>) [0x1B, 0x5C]"
    using apc_data [of ?a data] assms(2) by (simp add: parse_silent_append)
  finally have a: "parse p ([0x1B, 0x5F] @ data @ [0x1B, 0x5C]) =
      (p\<lparr>ps_apc_buffer := []\<rparr>, [ApcDispatch (take MAX_APC_LEN data)])"
    using assms(1) by (cases p) (simp add: string_finish is_ground_clean_def)
  have "parse p ([0x1B, 0x50] @ data @ [0x1B, 0x5C]) = parse ?d (data @ [0x1B, 0x5C])"
    using parse_silent_append [OF string_prefix(2) [OF assms(1)]] by simp
  also have "\<dots> = parse (?d\<lparr>ps_dcs_buffer := take MAX_DCS_LEN data\<rparr>) [0x1B, 0x5C]"
    using dcs_data [of ?d data] assms(2) by (simp add: parse_silent_append)
  finally have "parse p ([0x1B, 0x50] @ data @ [0x1B, 0x5C]) =
      (p\<lparr>ps_dcs_buffer := []\<rparr>, [DcsDispatch (take MAX_DCS_LEN data)])"
    using assms(1) by (cases p) (simp add: string_finish is_ground_clean_def)
  with a show ?thesis by blast
qed

text \<open>APC and DCS strings are delivered whole: the payload between the introducer and
  \<open>ESC \\<close> is handed over unchanged, cut at 4 MiB for APC and 16 MiB for DCS, and the parser
  returns to its clean ground state with the buffer released.\<close>

theorem parse_apc_dcs:
  assumes "is_ground_clean p" and "0x1B \<notin> set data"
  shows "parse p ([0x1B, 0x5F] @ data @ [0x1B, 0x5C]) =
      (p\<lparr>ps_apc_buffer := []\<rparr>, [ApcDispatch (take MAX_APC_LEN data)])
    \<and> parse p ([0x1B, 0x50] @ data @ [0x1B, 0x5C]) =
      (p\<lparr>ps_dcs_buffer := []\<rparr>, [DcsDispatch (take MAX_DCS_LEN data)])"
  by (rule apc_dcs_parsed [OF assms])

lemma parse_apc_dcs_witness:
  "parse parser_new [0x1B, 0x5F, 0x47, 0x41, 0x1B, 0x5C] = (parser_new, [ApcDispatch [0x47, 0x41]])
   \<and> parse parser_new [0x1B, 0x50, 0x71, 0x1B, 0x5C] = (parser_new, [DcsDispatch [0x71]])"
  using parse_apc_dcs [of parser_new "[0x47, 0x41]"] parse_apc_dcs [of parser_new "[0x71]"]
  by (simp add: is_ground_clean_def parser_new_def MAX_APC_LEN_def MAX_DCS_LEN_def)

subsection \<open>Safety, recovery and the three entry points\<close>

text \<open>C15. Whatever bytes arrive, the parser stays within its bounds (parameters, intermediates,
  string buffers, the UTF-8 buffer) and every action it emits is well formed: printed characters
  are Unicode scalar values and no control codes, parameters are at most 9999, the array counts fit
  the arrays, OSC text is UTF-8.\<close>

theorem parse_safe:
  "parser_ok p \<Longrightarrow> parser_ok (fst (parse p input)) \<and> list_all action_ok (snd (parse p input))"
  unfolding parse_def list_all_iff using vt.run_inv vt.run_out by blast

lemma parse_safe_witness:
  "parser_ok (fst (parse parser_new [0xE2, 0x1B, 0x5D])) \<and>
   list_all action_ok (snd (parse parser_new [0xE2, 0x1B, 0x5D]))"
  by (rule parse_safe) simp

text \<open>C18. Recovery: from any reachable state, \<open>ESC \\<close> brings the parser back to its clean
  ground state.\<close>

theorem parse_recovers:
  assumes "parser_ok p"
  shows "is_ground_clean (fst (parse p [0x1B, 0x5C]))"
proof (cases "ps_state p = Ground")
  case True
  then show ?thesis
    by (cases "ps_utf8_buffer p = []") (simp_all add: parse_Cons parse_byte_def ground_def
        ground_match_def handle_utf8_byte_def in_range_unat escape_def is_ground_clean_def)
next
  case False
  note buf = no_pending [OF assms False]
  show ?thesis
    using False buf
    by (cases "ps_state p") (simp_all add: parse_Cons parse_byte_def escape_def escape_charset_def
        csi_entry_def csi_param_def is_digit_def in_range_unat osc_string_def osc_escape_def
        dispatch_osc_def apc_string_def apc_escape_def dispatch_apc_def dcs_string_def
        dcs_escape_def dispatch_dcs_def is_ground_clean_def ground_def ground_match_def Let_def)
qed

lemma parse_recovers_witness:
  "is_ground_clean (fst (parse (parser_new\<lparr>ps_state := EscapeCharset 0x28\<rparr>) [0x1B, 0x5C]))"
proof (rule parse_recovers)
  show "parser_ok (parser_new\<lparr>ps_state := EscapeCharset 0x28\<rparr>)"
    by (rule parser_ok_state [OF parser_new_ok]) (simp_all add: parser_new_def)
qed

text \<open>A byte that completes a CSI sequence emits that action alone and leaves the parser clean:
  this is what lets the caller stop there and hand the remaining bytes to another parser.\<close>

theorem csi_dispatch_ends_clean:
  assumes "parser_ok p" and "CsiDispatch ps n is k f \<in> set (snd (parse_byte p b))"
  shows "is_ground_clean (fst (parse_byte p b)) \<and> snd (parse_byte p b) = [CsiDispatch ps n is k f]"
proof -
  have no: "CsiDispatch ps n is k f \<notin> set (snd (ground_match q b))"
    "CsiDispatch ps n is k f \<notin> set (snd (escape q b))" for q
    by (simp_all add: ground_match_def escape_def)
  have "ps_state p = CsiEntry \<or> ps_state p = CsiParam"
    using assms(2) no
    by (cases "ps_state p") (auto simp: parse_byte_def ground_def handle_utf8_byte_def Let_def
        split_def escape_charset_def osc_string_def osc_escape_def apc_string_def apc_escape_def
        dcs_string_def dcs_escape_def dispatch_osc_def dispatch_apc_def dispatch_dcs_def
        split: if_splits option.splits list.splits)
  moreover from this have "ps_utf8_buffer p = []"
    by (intro no_pending [OF assms(1)]) auto
  ultimately show ?thesis
    using assms(2)
    by (auto simp: parse_byte_def csi_entry_def csi_param_def dispatch_csi_def Let_def split_def
        is_ground_clean_def split: if_splits)
qed

lemma csi_dispatch_ends_clean_witness:
  "\<exists>p ps n is k f. CsiDispatch ps n is k f \<in> set (snd (parse_byte p 0x48)) \<and>
     is_ground_clean (fst (parse_byte p 0x48))"
proof -
  let ?p = "parser_new\<lparr>ps_state := CsiEntry\<rparr>"
  let ?a = "CsiDispatch (replicate 16 0) 0 (replicate 2 0) 0 0x48"
  have ok: "parser_ok ?p" by (rule parser_ok_state [OF parser_new_ok]) (simp_all add: parser_new_def)
  have m: "?a \<in> set (snd (parse_byte ?p 0x48))"
    by (simp add: parse_byte_def csi_entry_def parser_new_def param_parser_new_def is_digit_def
        in_range_unat dispatch_csi_def finish_def to_array_def MAX_CSI_PARAMS_def
        MAX_CSI_INTERMEDIATES_def)
  from csi_dispatch_ends_clean [OF ok m] m show ?thesis by blast
qed

lemma deliver_append:
  "deliver emit s (xs @ ys) =
     (let (s1, a) = deliver emit s xs; (s2, b) = deliver emit s1 ys in (s2, a \<or> b))"
  by (induction xs arbitrary: s) (auto split: prod.splits)

text \<open>Interruptible parsing consumes a prefix of the input and has exactly the effect of
  parsing that prefix: it stops after the first byte one of whose actions the host refuses, or at
  the end, and the bytes left can be fed to the parser later.\<close>

theorem parse_interruptible_prefix:
  assumes "parse_interruptible emit p s input = (n, p', s')"
  shows "n \<le> length input \<and> fst (parse p (take n input)) = p'
    \<and> fst (deliver emit s (snd (parse p (take n input)))) = s'
    \<and> (\<forall>m < n. \<not> snd (deliver emit s (snd (parse p (take m input)))))
    \<and> (n < length input \<longrightarrow> snd (deliver emit s (snd (parse p (take n input)))))"
  using assms
proof (induction input arbitrary: p s n p' s')
  case Nil
  then show ?case by simp
next
  case (Cons b bs)
  obtain p1 acts where pb: "parse_byte p b = (p1, acts)" by fastforce
  obtain s1 stop where d: "deliver emit s acts = (s1, stop)" by fastforce
  have tk: "parse p (b # ys) = (fst (parse p1 ys), acts @ snd (parse p1 ys))" for ys
    by (simp add: parse_Cons pb split_def Let_def)
  have dl: "deliver emit s (acts @ xs) = (fst (deliver emit s1 xs), stop \<or> snd (deliver emit s1 xs))" for xs
    by (simp add: deliver_append d split_def Let_def)
  show ?case
  proof (cases stop)
    case True
    with Cons.prems pb d have "n = 1" "p' = p1" "s' = s1" by simp_all
    with True tk [of "[]"] d show ?thesis by simp
  next
    case False
    then obtain k where r: "parse_interruptible emit p1 s1 bs = (k, p', s')" and n: "n = Suc k"
      using Cons.prems pb d by (auto split: prod.splits)
    from Cons.IH [OF r] show ?thesis
      unfolding n by (auto simp: tk dl False less_Suc_eq_0_disj)
  qed
qed

lemma parse_interruptible_prefix_witness:
  "fst (parse parser_new (take 1 [0x41, 0x42])) = parser_new"
  using parse_interruptible_prefix [of "\<lambda>s a. (Suc s, False)" parser_new 0 "[0x41, 0x42]" 1 parser_new 1]
  by (simp add: parse_byte_def ground_def ground_match_def parser_new_def in_range_unat)

text \<open>The offset-reporting entry point emits the actions of plain parsing, in order; each is
  tagged with the length of the shortest prefix of the input that emits it.\<close>

theorem parse_with_offsets_prefixes:
  "fst (parse_with_offsets p input) = fst (parse p input)
   \<and> map fst (snd (parse_with_offsets p input)) = snd (parse p input)
   \<and> map fst (filter (\<lambda>e. snd e \<le> n) (snd (parse_with_offsets p input)))
      = snd (parse p (take n input))"
proof -
  have gen: "fst (parse_offsets_from i p input) = fst (parse p input)
      \<and> map fst (filter (\<lambda>e. snd e \<le> i + n) (snd (parse_offsets_from i p input)))
        = snd (parse p (take n input))
      \<and> (\<forall>e \<in> set (snd (parse_offsets_from i p input)). i < snd e \<and> snd e \<le> i + length input)" for i n
  proof (induction input arbitrary: i n p)
    case (Cons b bs)
    obtain p1 acts where pb: "parse_byte p b = (p1, acts)" by fastforce
    have "filter (\<lambda>e. snd e \<le> i) (snd (parse_offsets_from (Suc i) p1 bs)) = []"
      using Cons.IH [of "Suc i" p1 0] by (auto simp: filter_empty_conv)
    with Cons.IH [of "Suc i" p1 "n - 1"] show ?case
      by (cases n) (auto simp: pb parse_Cons split_def filter_map comp_def filter_empty_conv Let_def)
  qed simp
  have "filter (\<lambda>e. snd e \<le> length input) (snd (parse_offsets_from 0 p input))
      = snd (parse_offsets_from 0 p input)"
    using gen [of 0 0] by (auto simp: filter_id_conv)
  with gen [of 0 "length input"] gen [of 0 n] show ?thesis
    by (simp add: parse_with_offsets_def)
qed

end
