(* ===== verification/DispatchInv.thy ===== *)
theory DispatchInv
  imports PrintInv Dispatch VtParserProps
begin

text \<open>
  The byte stream entry points keep the terminal invariant.  The parser and its sink meet in the
  locale \<open>action_sink\<close>: whatever consumes the parser's actions one by one and keeps an invariant
  on well-formed actions keeps it over a whole chunk.
\<close>

subsection \<open>The interface between parser and terminal\<close>

locale action_sink =
  fixes emit :: "'s \<Rightarrow> parsed_action \<Rightarrow> 's \<times> bool" and inv :: "'s \<Rightarrow> bool"
  assumes emit_keeps: "inv s \<Longrightarrow> action_ok a \<Longrightarrow> inv (fst (emit s a))"
begin

lemma deliver_keeps: "inv s \<Longrightarrow> list_all action_ok as \<Longrightarrow> inv (fst (deliver emit s as))"
proof (induction "as" arbitrary: s)
  case (Cons a as)
  then show ?case using emit_keeps [of s a] by (simp add: split_def Let_def)
qed simp

lemma interruptible_keeps:
  "parser_ok p \<Longrightarrow> inv s \<Longrightarrow> parse_interruptible emit p s bs = (n, p', s') \<Longrightarrow> parser_ok p' \<and> inv s'"
proof (induction bs arbitrary: p s n)
  case (Cons b bs)
  obtain p1 acts where pb: "parse_byte p b = (p1, acts)" by fastforce
  obtain s1 stop where d: "deliver emit s acts = (s1, stop)" by fastforce
  have "handler_ok (p1, acts)" using parse_byte_ok [OF Cons.prems(1), of b] pb by simp
  then have p1: "parser_ok p1" "inv s1"
    using deliver_keeps [OF Cons.prems(2), of acts] d by (simp_all add: handler_ok_def)
  show ?case
  proof (cases stop)
    case True
    with Cons.prems(3) pb d p1 show ?thesis by simp
  next
    case False
    then obtain k where "parse_interruptible emit p1 s1 bs = (k, p', s')"
      using Cons.prems(3) pb d by (auto split: prod.splits)
    then show ?thesis by (rule Cons.IH [OF p1])
  qed
qed simp

end

subsection \<open>Actions\<close>

lemma flush_and_invalidate_ok: "core_ok c \<Longrightarrow> core_ok (flush_and_invalidate c)"
  by (simp add: flush_and_invalidate_def flush_grapheme_buffer_ok)

lemma dispatch_action_ok: "core_ok c \<Longrightarrow> action_ok a \<Longrightarrow> core_ok (dispatch_action c a)"
  using flush_and_invalidate_ok [of c]
  by (cases a) (simp_all add: dispatch_action_def Let_def handle_print_ok handle_execute_internal_ok
      handle_csi_internal_ok handle_esc_internal_ok handle_osc_internal_ok)

interpretation terminal: action_sink emit_action core_ok
  by unfold_locales (simp add: emit_action_def Let_def dispatch_action_ok)

subsection \<open>Fast path and bulk skip\<close>

lemma fast_byte_ok:
  assumes "core_ok c" and "fast_byte c b = Some d"
  shows "core_ok d"
proof (cases "in_range 0x20 0x7E b")
  case True
  let ?c1 = "write_ascii c (cur_col c) (cur_row c) b"
  have "b < 0x80" using True by (simp add: in_range_def word_less_nat_alt word_le_nat_alt)
  then have c1: "core_ok ?c1" by (rule write_ascii_ok [OF assms(1)])
  have "core_ok (upd_cursor (\<lambda>u. u\<lparr>cu_col := tc_cols ?c1 - 1\<rparr>) ?c1)"
    "cur_col c + 1 < tc_cols ?c1 \<Longrightarrow> core_ok (upd_cursor (\<lambda>u. u\<lparr>cu_col := cur_col c + 1\<rparr>) ?c1)"
    using core_okD(6-9) [OF c1] c1 by (simp_all add: core_ok_upd_cursor)
  with c1 assms(2) True show ?thesis by (auto simp: fast_byte_def Let_def split: if_splits)
next
  case False
  note k = core_okD(6-9) [OF assms(1)]
  have "core_ok (upd_cursor (\<lambda>u. u\<lparr>cu_col := cu_col u - 1\<rparr>) c)"
    "core_ok (upd_cursor (\<lambda>u. u\<lparr>cu_col := next_tab_stop c (cur_col c)\<rparr>) c)"
    "core_ok (upd_cursor (\<lambda>u. u\<lparr>cu_col := 0\<rparr>) c)"
    using k next_tab_stop_lt [OF assms(1)] assms(1) by auto
  with assms False line_feed_ok [OF assms(1)] show ?thesis by (auto simp: fast_byte_def split: if_splits)
qed

lemma fast_run_ok: "core_ok c \<Longrightarrow> core_ok (fst (fast_run c bs))"
  by (induction bs arbitrary: c) (auto split: option.split dest: fast_byte_ok)

lemma mark_all_core_ok: "core_ok c \<Longrightarrow> core_ok (mark_all_dirty c)"
  by (rule core_ok_grid, assumption) (simp_all add: core_okD(1))

lemma bulk_skip_ok:
  assumes "core_ok c"
  shows "core_ok (fst (bulk_skip c data))"
proof -
  let ?c1 = "c\<lparr>tc_ring_head := 0, tc_ring_size := 0, tc_scroll_event := None, tc_overflow := [], tc_overflow_ridx := []\<rparr>"
  let ?c2 = "((\<lambda>d. ring_push_blank d (cu_bg (tc_cursor ?c1))) ^^ tc_rows ?c1) ?c1"
  have "core_ok ?c1"
    using assms core_okD(1,2) [OF assms]
    by (simp add: core_ok_def part_defs grid_inv_def grid_ok_def cells_fine_def overflow_fine_def)
  note k = core_okD [OF this]
  have fr: "scroll_frame ?c1 ?c2" using ring_push_many [OF k(2) order_refl] by blast
  have c2: "core_ok ?c2"
    by (rule core_ok_scroll [OF \<open>core_ok ?c1\<close> fr ring_push_many_inv [OF k(1)] ring_push_many_hist [OF k(4)]])
  have "core_ok (upd_cursor (\<lambda>u. u\<lparr>cu_row := tc_rows ?c2 - 1, cu_col := 0\<rparr>) ?c2)"
    using c2 core_okD(6,7) [OF c2] by auto
  then have "core_ok ((upd_cursor (\<lambda>u. u\<lparr>cu_row := tc_rows ?c2 - 1, cu_col := 0\<rparr>) ?c2)\<lparr>tc_wrap_pending := False\<rparr>)"
    by simp
  then show ?thesis unfolding bulk_skip_def Let_def fst_conv by (rule mark_all_core_ok)
qed

subsection \<open>Chunks\<close>

definition term_ok :: "core \<Rightarrow> bool" where
  "term_ok c \<longleftrightarrow> core_ok c \<and> parser_ok (tc_parser c)"

lemma process_loop_ok:
  "parser_ok p \<Longrightarrow> core_ok c \<Longrightarrow> process_loop fast p c data = (p', c', left) \<Longrightarrow> parser_ok p' \<and> core_ok c'"
proof (induction fast p c data arbitrary: p' c' left rule: process_loop.induct)
  case (1 fast p c data)
  obtain c1 rest where fp: "fast_phase fast p c data = (c1, rest)" by fastforce
  obtain consumed p2 c2 where pi: "parse_interruptible emit_action p c1 rest = (consumed, p2, c2)"
    by (metis prod_cases3)
  have c1: "core_ok c1" using fp fast_run_ok [OF "1.prems"(2), of data] "1.prems"(2)
    by (auto simp: fast_phase_def split: if_splits)
  note p2 = terminal.interruptible_keeps [OF "1.prems"(1) c1 pi]
  note eq = "1.prems"(3) [unfolded process_loop.simps [of fast p c data] fp Let_def split_conv pi]
  show ?case
  proof (cases "data \<noteq> [] \<and> length rest < length data")
    case True
    then show ?thesis using "1.IH"(1) [OF _ fp [symmetric] refl] eq "1.prems"(1) c1 by simp
  next
    case False
    show ?thesis
    proof (cases "data = [] \<or> has_pending_buffer_switch c2 \<or> tc_cursor_just_shown c2 \<or> consumed = 0")
      case True
      then show ?thesis using eq p2 False "1.prems"(1,2) by (auto split: if_splits)
    next
      case nt: False
      then show ?thesis
        using "1.IH"(2) [OF _ fp [symmetric] refl _ pi [symmetric] refl refl] eq p2 False by simp
    qed
  qed
qed

lemma process_pty_data_ok:
  assumes "term_ok c"
  shows "term_ok (fst (process_pty_data c data))"
proof -
  let ?c = "c\<lparr>tc_parser := parser_new\<rparr>"
  obtain c1 data1 where b: "(if bulk_skip_applies (tc_parser c) ?c data then bulk_skip ?c data else (?c, data)) = (c1, data1)"
    by fastforce
  obtain p2 c2 left where l: "process_loop (can_fast_ascii ?c) (tc_parser c) c1 data1 = (p2, c2, left)"
    by (metis prod_cases3)
  have "core_ok ?c" using assms by (simp add: term_ok_def)
  then have "core_ok c1" using b bulk_skip_ok [of ?c data] by (auto split: if_splits)
  then have "parser_ok p2 \<and> core_ok c2" using process_loop_ok [OF _ _ l] assms by (simp add: term_ok_def)
  then show ?thesis using b l by (simp add: process_pty_data_def Let_def term_ok_def)
qed

lemma fully_loop_ok: "term_ok c \<Longrightarrow> term_ok (fst (fully_loop cancel k c data acts))"
proof (induction cancel k c data acts rule: fully_loop.induct)
  case (1 cancel k c data acts)
  obtain c1 n where pd: "process_pty_data c data = (c1, n)" by fastforce
  obtain as c2 where tm: "take_mode_actions c1 = (as, c2)" by fastforce
  have "term_ok c1" using process_pty_data_ok [OF "1.prems", of data] pd by simp
  then have c2: "term_ok c2" using tm by (auto simp: term_ok_def take_mode_actions_def)
  show ?case
    using "1.prems" "1.IH" [OF _ _ pd [symmetric] refl tm [symmetric] refl _ c2] c2
    by (simp add: fully_loop.simps [of cancel k c data acts] pd tm)
qed

end
