(* ===== verification/Terminal.thy ===== *)
theory Terminal
  imports DispatchInv
begin

text \<open>
  The terminal as its host sees it: what the host may do to a terminal, the states it can reach,
  and what holds of all of them; and that feeding bytes makes progress and consumes everything.
\<close>

subsection \<open>Progress\<close>

lemma parse_interruptible_consumes:
  "parse_interruptible emit p s bs = (n, p', s') \<Longrightarrow> n \<le> length bs \<and> (bs \<noteq> [] \<longrightarrow> 0 < n)"
proof (induction bs arbitrary: p s n)
  case (Cons b bs)
  then show ?case by (fastforce split: prod.splits if_splits)
qed simp

lemma process_loop_consumes:
  "process_loop fast p c data = (p', c', left) \<Longrightarrow> length left \<le> length data \<and> (data \<noteq> [] \<longrightarrow> length left < length data)"
proof (induction fast p c data arbitrary: p' c' left rule: process_loop.induct)
  case (1 fast p c data)
  obtain c1 rest where fp: "fast_phase fast p c data = (c1, rest)" by fastforce
  obtain consumed p2 c2 where pi: "parse_interruptible emit_action p c1 rest = (consumed, p2, c2)"
    by (metis prod_cases3)
  note eq = "1.prems" [unfolded process_loop.simps [of fast p c data] fp Let_def split_conv pi]
  have le: "length rest \<le> length data" using fast_phase_length [of fast p c data] fp by simp
  note n = parse_interruptible_consumes [OF pi]
  show ?case
  proof (cases "data = []")
    case ne: False
    show ?thesis
    proof (cases "length rest < length data")
      case True
      then show ?thesis using "1.IH"(1) [OF ne fp [symmetric] refl True] eq ne by fastforce
    next
      case False
      with le ne have r: "length rest = length data" "rest \<noteq> []" by auto
      then have "consumed \<noteq> 0" "length (drop consumed rest) < length data" using n by auto
      then show ?thesis
        using "1.IH"(2) [OF ne fp [symmetric] refl False pi [symmetric] refl refl refl _ _ \<open>consumed \<noteq> 0\<close>] eq ne False
        by (fastforce split: if_splits)
    qed
  qed (use eq in simp)
qed

lemma after_newlines_shorter: "0 < count_newlines bs \<Longrightarrow> length (after_newlines n bs) < length bs"
proof (induction bs arbitrary: n)
  case (Cons b bs)
  show ?case
  proof (cases "b = 0x0A")
    case True
    then show ?thesis using after_newlines_length [of "n - 1" bs] by simp
  next
    case False
    then have "length (after_newlines n bs) < length bs"
      using Cons by (simp add: count_newlines_def)
    with False show ?thesis by simp
  qed
qed (simp add: count_newlines_def)

lemma process_pty_data_consumes:
  assumes "process_pty_data c data = (c', n)"
  shows "n \<le> length data \<and> (data \<noteq> [] \<longrightarrow> 0 < n)"
proof -
  let ?c = "c\<lparr>tc_parser := parser_new\<rparr>"
  obtain c1 data1 where b: "(if bulk_skip_applies (tc_parser c) ?c data then bulk_skip ?c data else (?c, data)) = (c1, data1)"
    by fastforce
  obtain p2 c2 left where l: "process_loop (can_fast_ascii ?c) (tc_parser c) c1 data1 = (p2, c2, left)"
    by (metis prod_cases3)
  have n: "n = length data - length left" using assms b l by (simp add: process_pty_data_def Let_def)
  note len = process_loop_consumes [OF l]
  have "length data1 \<le> length data \<and> (data1 = data \<or> length data1 < length data)"
  proof (cases "bulk_skip_applies (tc_parser c) ?c data")
    case True
    then have "0 < count_newlines data" by (simp add: bulk_skip_applies_def)
    then show ?thesis using True b after_newlines_shorter [of data] by (auto simp: bulk_skip_def Let_def less_imp_le)
  next
    case False
    then show ?thesis using b by simp
  qed
  with n len show ?thesis by (cases "data1 = []") auto
qed

subsection \<open>Feeding everything\<close>

text \<open>\<open>feeds c bytes c' acts\<close>: chunk after chunk the terminal consumes all of \<open>bytes\<close>; between
  two chunks the queued mode actions are taken, \<open>acts\<close> in total.\<close>

inductive feeds :: "core \<Rightarrow> u8 list \<Rightarrow> core \<Rightarrow> nat list \<Rightarrow> bool" where
  feeds_done: "feeds c [] c []"
| feeds_chunk: "bytes \<noteq> [] \<Longrightarrow> process_pty_data c bytes = (c1, n) \<Longrightarrow> take_mode_actions c1 = (acts, c2) \<Longrightarrow>
    feeds c2 (drop n bytes) c3 rest \<Longrightarrow> feeds c bytes c3 (acts @ rest)"

inductive_cases feeds_NilE: "feeds c [] c' acts"

lemma fully_loop_feeds:
  "(\<And>j. \<not> cancel j) \<Longrightarrow> \<exists>c' new. fully_loop cancel k c data acts = (c', Some (acts @ new)) \<and> feeds c data c' new"
proof (induction cancel k c data acts rule: fully_loop.induct)
  case (1 cancel k c data acts)
  show ?case
  proof (cases "data = []")
    case True
    then show ?thesis by (auto simp: fully_loop.simps intro: feeds_done)
  next
    case False
    obtain c1 n where pd: "process_pty_data c data = (c1, n)" by fastforce
    obtain as c2 where tm: "take_mode_actions c1 = (as, c2)" by fastforce
    have n: "n \<noteq> 0" using process_pty_data_consumes [OF pd] False by simp
    obtain c' new where r: "fully_loop cancel (k + 1) c2 (drop n data) (acts @ as) = (c', Some (acts @ as @ new))"
      and f: "feeds c2 (drop n data) c' new"
      using "1.IH" [OF False "1.prems" pd [symmetric] refl tm [symmetric] refl n "1.prems"] by auto
    have "feeds c data c' (as @ new)" by (rule feeds_chunk [OF False pd tm f])
    moreover have "fully_loop cancel k c data acts = (c', Some (acts @ as @ new))"
      using False "1.prems" [of k] n r by (simp add: fully_loop.simps [of cancel k c data acts] pd tm)
    ultimately show ?thesis by blast
  qed
qed

text \<open>C5. Feeding makes progress and never loses input: every chunk consumes at least one byte, so
  \<open>process_pty_data_fully\<close> returns after finitely many chunks with all of the input consumed,
  and the actions it returns are exactly those queued along the way, in order.\<close>

theorem process_pty_data_fully_feeds:
  "feeds c bytes (fst (process_pty_data_fully c bytes)) (snd (process_pty_data_fully c bytes))"
  using fully_loop_feeds [of "\<lambda>_. False" 0 c bytes "[]"]
  by (auto simp: process_pty_data_fully_def process_pty_data_fully_cancellable_def)

subsection \<open>What the host may do\<close>

lemma evict_oldest_scrollback_ok:
  assumes "core_ok c"
  shows "core_ok (fst (evict_oldest_scrollback c n))"
proof (cases "length (tc_scrollback_slim c) \<le> n")
  case False
  let ?k = "length (tc_scrollback_slim c) - n"
  let ?d = "c\<lparr>tc_scrollback_slim := drop ?k (tc_scrollback_slim c)\<rparr>"
  obtain st ch where r: "release_rows ?d (take ?k (tc_scrollback_slim c)) = ?d\<lparr>tc_styles := st, tc_chars := ch\<rparr>"
    using release_rows_frame [OF tables_frame_refl, of ?d] unfolding tables_frame_def by blast
  have "length (tc_scrollback_slim c) - ?k \<le> tc_scrollback_capacity c"
    using core_okD(4) [OF assms] by (auto simp: hist_ok_def)
  then have "core_ok (?d\<lparr>tc_styles := st, tc_chars := ch, tc_scrollback_wrapped := drop ?k (tc_scrollback_wrapped c),
      tc_scrollback_evicted_total := tc_scrollback_evicted_total c + ?k\<rparr>)"
    using assms by (simp add: core_ok_def part_defs grid_inv_def grid_ok_def cells_fine_def overflow_fine_def)
  then show ?thesis
    using False by (simp add: evict_oldest_scrollback_def Let_def r mark_all_core_ok)
qed (simp add: evict_oldest_scrollback_def assms)

text \<open>The host drains the mark queues together (\<open>terminal_core/replay.rs\<close>).\<close>

definition drain_marks :: "core \<Rightarrow> core" where
  "drain_marks c = snd (take_bypass_b_mark_texts (snd (take_fold_marks (snd (take_prompt_marks c)))))"

lemma drain_marks_ok: "core_ok c \<Longrightarrow> core_ok (drain_marks c)"
  by (simp add: drain_marks_def take_fold_marks_def take_bypass_b_mark_texts_def take_prompt_marks_def core_ok_def part_defs
      MAX_PENDING_PROMPT_MARKS_def)

inductive host_step :: "core \<Rightarrow> core \<Rightarrow> bool" where
  feed_chunk: "host_step c (fst (process_pty_data c bytes))"
| feed_fully: "host_step c (fst (process_pty_data_fully_cancellable c bytes cancel))"
| full_reset: "host_step c (core_reset c)"
| drain_all_marks: "host_step c (drain_marks c)"
| drain_folds: "host_step c (snd (take_fold_marks c))"
| drain_mode_actions: "host_step c (snd (take_mode_actions c))"
| drain_response: "host_step c (snd (take_response c))"
| evict_rows: "host_step c (fst (evict_oldest_scrollback c n))"
| clear_history: "host_step c (clear_scrollback c)"
| redrawn: "host_step c (clear_scroll_event (clear_dirty c))"
| move: "host_step c (set_cursor c col row)"
| set_region: "host_step c (set_scroll_region c t b)"
| choose_modes: "host_step c (set_modes c m)"
| cell_size: "host_step c (set_cell_size_px c w h)"
| region_scrollback: "host_step c (set_scroll_region_scrollback_enabled c e)"
| app_param: "host_step c (register_osc_app_param c p a)"
| show_interrupt: "host_step c (set_cursor_show_interrupt c e)"
| drop_cluster: "host_step c (clear_grapheme_buffer c)"

lemma clear_dirty_ok: "core_ok c \<Longrightarrow> core_ok (clear_dirty c)"
proof (rule core_ok_grid, assumption)
  show "grid_frame c (clear_dirty c)" by (simp add: clear_dirty_def)
  then show "core_ok c \<Longrightarrow> grid_inv (clear_dirty c)"
    by (intro grid_inv_same [OF core_okD(1)]) (simp_all add: clear_dirty_def)
qed

lemma configure_ok:
  assumes "core_ok c"
  shows "core_ok (set_cell_size_px c w h)" "core_ok (set_scroll_region_scrollback_enabled c e)"
    "core_ok (register_osc_app_param c p a)" "core_ok (set_cursor_show_interrupt c e)"
    "core_ok (set_modes c m)" "core_ok (clear_grapheme_buffer c)"
  using assms
  by (simp_all add: set_cell_size_px_def set_scroll_region_scrollback_enabled_def register_osc_app_param_def
      set_cursor_show_interrupt_def set_modes_def clear_grapheme_buffer_def core_ok_def part_defs grid_inv_def
      grid_ok_def cells_fine_def overflow_fine_def)

lemma same_parser [simp]:
  "tc_parser (core_reset c) = parser_reset (tc_parser c)" "tc_parser (mark_all_dirty c) = tc_parser c"
  "tc_parser (drain_marks c) = tc_parser c" "tc_parser (upd_cursor f c) = tc_parser c"
  by (simp_all add: core_reset_def fire_reset_callback_def fire_def mark_all_dirty_def drain_marks_def take_fold_marks_def
      take_bypass_b_mark_texts_def take_prompt_marks_def upd_cursor_def)

lemma release_parser [simp]: "tc_parser (release_rows c rs) = tc_parser c"
  using release_rows_frame [OF tables_frame_refl, of c rs] by (auto simp: tables_frame_def)

lemma host_step_ok:
  assumes "host_step c d" and "term_ok c"
  shows "term_ok d"
  using assms
proof (induction rule: host_step.induct)
  case (feed_fully c bytes cancel)
  then show ?case by (simp add: process_pty_data_fully_cancellable_def fully_loop_ok)
next
  case (evict_rows c n)
  then show ?case
    using evict_oldest_scrollback_ok [of c n]
    by (auto simp: term_ok_def evict_oldest_scrollback_def Let_def)
next
  case (clear_history c)
  then show ?case using clear_scrollback_ok [of c] by (auto simp: term_ok_def clear_scrollback_def)
next
  case (move c col row)
  then show ?case using core_okD(6,7) [of c] by (auto simp: term_ok_def set_cursor_def intro!: core_ok_upd_cursor)
next
  case (redrawn c)
  then show ?case using clear_dirty_ok [of c] by (simp add: term_ok_def clear_scroll_event_def) (simp add: clear_dirty_def)
next
  case (drain_folds c)
  then show ?case by (simp add: term_ok_def take_fold_marks_def core_ok_def part_defs)
next
  case (drain_response c)
  then show ?case by (simp add: term_ok_def take_response_def)
next
  case (drain_mode_actions c)
  then show ?case by (simp add: term_ok_def take_mode_actions_def)
next
  case (set_region c t b)
  then show ?case using set_scroll_region_ok(1) [of c t b] by (auto simp: term_ok_def set_scroll_region_def Let_def)
qed (simp_all add: term_ok_def process_pty_data_ok [unfolded term_ok_def] core_reset_ok drain_marks_ok configure_ok,
    simp_all add: set_cell_size_px_def set_scroll_region_scrollback_enabled_def register_osc_app_param_def
      set_cursor_show_interrupt_def set_modes_def clear_grapheme_buffer_def)

subsection \<open>Reachable terminals\<close>

inductive reachable :: "core \<Rightarrow> bool" where
  fresh: "0 < w \<Longrightarrow> w \<le> U16_MAX \<Longrightarrow> 0 < h \<Longrightarrow> h \<le> U16_MAX \<Longrightarrow> reachable (core_new w h sb)"
| stepped: "reachable c \<Longrightarrow> host_step c d \<Longrightarrow> reachable d"

lemma core_new_ok:
  assumes "0 < w" "w \<le> U16_MAX" "0 < h" "h \<le> U16_MAX"
  shows "term_ok (core_new w h sb)"
proof -
  have "grid_inv (core_new w h sb)" by (rule core_new_inv [OF assms])
  then show ?thesis
    using assms
    by (simp add: term_ok_def core_ok_def part_defs) (simp add: core_new_def mark_all_dirty_def cursor_new_def
        default_tab_stops_def)
qed

lemma reachable_ok: "reachable c \<Longrightarrow> term_ok c"
  by (induction rule: reachable.induct) (auto simp: core_new_ok intro: host_step_ok)



end
