(* ===== verification/FastPath.thy ===== *)
theory FastPath
  imports Terminal
begin

text \<open>
  The ASCII fast path of \<open>terminal_dispatch.rs\<close> against the parser and the action
  dispatcher: on every byte both take (BEL apart) they do exactly the same to the terminal.
\<close>

unbundle bit_operations_syntax

subsection \<open>ASCII characters take no part in clustering\<close>

lemma not_in_ranges: "list_all (\<lambda>r. cp < fst r) rs \<Longrightarrow> \<not> in_ranges rs cp"
  by (induction rs) (auto simp: in_ranges_def)

lemma above_ascii:
  "list_all (\<lambda>r. (0x7F :: nat) \<le> fst r) rs \<Longrightarrow> cp < 0x7F \<Longrightarrow> list_all (\<lambda>r. cp < fst r) rs"
  by (auto simp: list_all_iff intro: less_le_trans)

lemma ascii_tables:
  "list_all (\<lambda>r. 0x7F \<le> fst r) COMBINING_RANGES"
  "list_all (\<lambda>r. 0x7F \<le> fst r) emoji_presentation_ranges"
  "list_all (\<lambda>r. 0x7F \<le> fst r) extended_pictographic_ranges"
  by (simp_all add: COMBINING_RANGES_def emoji_presentation_ranges_def extended_pictographic_ranges_def)

lemma classify_ascii:
  assumes "0x20 \<le> cp" and "cp < 0x7F"
  shows "classify_codepoint cp = 1"
  using ascii_tables [THEN above_ascii, OF assms(2), THEN not_in_ranges] assms
  by (simp add: classify_codepoint_def is_combining_char_iff is_emoji_presentation_def
      is_extended_pictographic_def is_regional_indicator_def is_skin_tone_modifier_def
      is_variation_selector_def flag_if_def as_u8_def)

subsection \<open>One byte\<close>

text \<open>The terminal the fast path may run on: plain ASCII charset, nothing buffered, no Kitty
  placeholder pending, automatic wrap on.\<close>

definition fast_state :: "core \<Rightarrow> bool" where
  "fast_state c \<longleftrightarrow> can_fast_ascii c \<and> tc_grapheme_buffer c = [] \<and> get_mode c MODE_AUTO_WRAP"

lemma fast_char:
  assumes "fast_state c" and "in_range 0x20 0x7E b" and "\<not> tc_wrap_pending c"
  shows "fast_byte c b = Some (dispatch_action c (Print (unat b)))"
proof -
  have cp: "0x20 \<le> unat b" "unat b < 0x7F" using assms(2) by (simp_all add: in_range_unat)
  let ?c1 = "write_ascii c (cur_col c) (cur_row c) b"
  have "handle_print c (unat b) = cluster_print (c\<lparr>tc_kitty_placeholder_active := False\<rparr>) (unat b)"
    using assms(1) cp by (simp add: handle_print_def fast_state_def can_fast_ascii_def Let_def)
  moreover have "c\<lparr>tc_kitty_placeholder_active := False\<rparr> = c"
    using assms(1) by (simp add: fast_state_def can_fast_ascii_def)
  ultimately have "handle_print c (unat b) = print_char c (unat b)"
    using assms(1) cp by (simp add: cluster_print_def fast_state_def classify_ascii class_flag_defs)
  also have "\<dots> = advance_cursor ?c1 (cur_col c + 1)"
    using assms(1,3) cp by (simp add: print_char_def fast_state_def can_fast_ascii_def handle_print_ascii_def Let_def)
  also have "fast_byte c b = Some (advance_cursor ?c1 (cur_col c + 1))"
    using assms(2,3) by (auto simp: fast_byte_def Let_def advance_cursor_def)
  ultimately show ?thesis by (simp add: dispatch_action_def)
qed

lemma next_tab_stop_last_write [simp]: "next_tab_stop (c\<lparr>tc_last_write := x\<rparr>) k = next_tab_stop c k"
  by (simp add: next_tab_stop_def split: option.split)

lemma fast_control:
  assumes "fast_state c" and "fast_byte c b = Some d" and "\<not> in_range 0x20 0x7E b" and "b \<noteq> 0x07"
  shows "d = dispatch_action c (Execute b)"
proof -
  have "flush_and_invalidate c = c\<lparr>tc_last_write := None\<rparr>"
    using assms(1) by (simp add: flush_and_invalidate_def fast_state_def)
  moreover have "line_feed (c\<lparr>tc_last_write := None\<rparr>) = line_feed c" by (simp add: line_feed_def)
  ultimately show ?thesis
    using assms(2-4)
    by (auto simp: dispatch_action_def handle_execute_internal_def handle_execute_def execute_line_feed_def
        fast_byte_def upd_cursor_def find_next_tab_stop_def split: if_splits)
qed

subsection \<open>A run of bytes\<close>

lemma fast_state_scroll: "scroll_frame c d \<Longrightarrow> fast_state d = fast_state c"
  by (rule scroll_frame_cong)
    (simp_all add: fast_state_def can_fast_ascii_def get_mode_def outside_scroll_def)

lemma fast_state_upd [simp]:
  "fast_state (c\<lparr>tc_last_write := x\<rparr>) = fast_state c" "fast_state (c\<lparr>tc_wrap_pending := w\<rparr>) = fast_state c"
  "fast_state (upd_cursor f c) = fast_state c" "fast_state (fire_bell_callback c) = fast_state c"
  by (simp_all add: fast_state_def can_fast_ascii_def get_mode_def upd_cursor_def fire_bell_callback_def fire_def)

lemma write_ascii_state:
  assumes "fast_state c"
  shows "fast_state (write_ascii c col row b)"
proof (cases "cell_index c col row")
  case (Some i)
  have keep: "fast_state (d\<lparr>tc_last_write := w\<rparr>)" if "grid_frame c d" for d w
    using fast_state_scroll [OF scroll_frame_grid [OF that]] assms by simp
  show ?thesis unfolding write_ascii_def Let_def Some option.case by (rule keep) simp
qed (simp add: write_ascii_def assms)

lemma fast_byte_state:
  assumes "core_ok c" and "fast_state c" and "fast_byte c b = Some d"
  shows "fast_state d"
proof -
  have lf: "fast_state (line_feed c)"
    using assms(1,2) fast_state_scroll [OF scroll_up_internal_ok(2) [of "c\<lparr>tc_last_write := None\<rparr>" 1]]
    by (simp add: line_feed_def Let_def)
  with lf write_ascii_state [OF assms(2)] assms(2,3) show ?thesis by (auto simp: fast_byte_def Let_def split: if_splits)
qed

lemma control_step:
  assumes "is_ground_clean p" and "b \<in> {0x08, 0x09, 0x0A, 0x0B, 0x0C, 0x0D}"
  shows "parse_byte p b = (p, [Execute b])"
  using assms by (elim insertE emptyE) (simp_all add: is_ground_clean_def parse_byte_def ground_def ground_match_def in_range_def)

lemma fast_byte_parses:
  assumes "fast_state c" and "is_ground_clean p" and "fast_byte c b = Some d" and "b \<noteq> 0x07"
  obtains a where "parse_byte p b = (p, [a])" "dispatch_action c a = d"
proof (cases "in_range 0x20 0x7E b")
  case True
  then have "\<not> tc_wrap_pending c" using assms(3) by (auto simp: fast_byte_def)
  with fast_char [OF assms(1) True] assms(3) have "dispatch_action c (Print (unat b)) = d" by simp
  then show thesis using that ascii_step [OF assms(2) True] by blast
next
  case False
  then have "b \<in> {0x08, 0x09, 0x0A, 0x0B, 0x0C, 0x0D}" using assms(3,4) by (auto simp: fast_byte_def split: if_splits)
  then show thesis
    using that control_step [OF assms(2)] fast_control [OF assms(1,3) False assms(4)] by blast
qed

lemma fast_run_parses:
  assumes "core_ok c" and "fast_state c" and "is_ground_clean p" and "0x07 \<notin> set bs" and "fast_run c bs = (d, rest)"
  shows "\<exists>pre acts. bs = pre @ rest \<and> parse p pre = (p, acts) \<and> fst (deliver emit_action c acts) = d"
  using assms
proof (induction bs arbitrary: c)
  case (Cons b bs)
  show ?case
  proof (cases "fast_byte c b")
    case None
    with Cons.prems(5) have "b # bs = [] @ rest \<and> parse p [] = (p, []) \<and> fst (deliver emit_action c []) = d"
      by (simp add: parse_def)
    then show ?thesis by blast
  next
    case (Some c1)
    have "b \<noteq> 0x07" using Cons.prems(4) by auto
    with fast_byte_parses [OF Cons.prems(2,3) Some]
    obtain a where a: "parse_byte p b = (p, [a])" "dispatch_action c a = c1" by blast
    obtain pre acts where t: "bs = pre @ rest" "parse p pre = (p, acts)" "fst (deliver emit_action c1 acts) = d"
      using Cons.IH [OF fast_byte_ok [OF Cons.prems(1) Some] fast_byte_state [OF Cons.prems(1,2) Some] Cons.prems(3)]
        Cons.prems(4,5) Some by auto
    have "b # bs = (b # pre) @ rest" "parse p (b # pre) = (p, a # acts)"
      using t a by (simp_all add: parse_Cons)
    moreover have "fst (deliver emit_action c (a # acts)) = d"
      using t(3) a(2) by (simp add: emit_action_def Let_def split_def)
    ultimately show ?thesis by blast
  qed
qed (simp add: parse_def)



end
