(* ===== verification/ReportFacts.thy ===== *)
theory ReportFacts
  imports FastPath
begin

text \<open>
  What control sequences do, observed from outside: cursor reports, mode reports, attributes,
  erasing, and the text answered to the application.
\<close>

unbundle bit_operations_syntax

subsection \<open>Decimal numbers\<close>

lemma digits_rev_decimal: "0 < n \<Longrightarrow> rev (digits_rev n) = decimal n"
proof (induction n rule: digits_rev.induct)
  case (1 n)
  have d: "as_u8 (n mod 10) + 0x30 = as_u8 (48 + n mod 10)" by (simp add: as_u8_def)
  show ?case
  proof (cases "n < 10")
    case True
    with "1.prems" d show ?thesis by (simp add: digits_rev.simps [of n] digits_rev.simps [of 0] decimal.simps [of n])
  next
    case False
    then have "0 < n div 10" by (simp add: div_greater_zero_iff)
    with "1.IH" False d show ?thesis by (simp add: digits_rev.simps [of n] decimal.simps [of n])
  qed
qed

lemma write_decimal_decimal: "write_decimal n = decimal n"
  using digits_rev_decimal [of n] by (cases "n = 0") (simp_all add: write_decimal_def decimal.simps [of 0] as_u8_def)

subsection \<open>Cursor position\<close>

lemma cup_effect:
  assumes "core_ok c" and "\<not> get_mode c MODE_ORIGIN" and "1 \<le> row" "row \<le> tc_rows c" "1 \<le> col" "col \<le> tc_cols c"
  shows "handle_csi_internal c [row, col] [] 0x48 = move_cursor c (col - 1) (row - 1)"
proof -
  have "to_zero_indexed_col c col = col - 1" "to_zero_indexed_row c row = row - 1"
    using assms by (auto simp: to_zero_indexed_col_def to_zero_indexed_row_def)
  moreover have "get_param [row, col] 0 1 = row" "get_param [row, col] 1 1 = col"
    using assms by (simp_all add: get_param_def)
  ultimately show ?thesis by (simp add: handle_csi_internal_def csi_plain_def Let_def handle_cursor_position_def)
qed

text \<open>C20. The cursor report is exact and readable: after \<open>CSI row ; col H\<close> inside the screen
  (origin mode off, at most 9999 rows and columns), \<open>CSI 6 n\<close> answers with a sequence that
  the terminal's own parser reads as \<open>CSI row ; col R\<close>.\<close>

theorem cursor_report_roundtrip:
  assumes "core_ok c" and "\<not> get_mode c MODE_ORIGIN" and "tc_response_queue c = []"
    and "1 \<le> row" "row \<le> tc_rows c" "row \<le> 9999" and "1 \<le> col" "col \<le> tc_cols c" "col \<le> 9999"
  shows "parse parser_new
      (tc_response_queue (handle_csi_internal (handle_csi_internal c [row, col] [] 0x48) [6] [] 0x6E)) =
    (parser_new, [CsiDispatch (to_array MAX_CSI_PARAMS 0 [row, col]) 2 (to_array MAX_CSI_INTERMEDIATES 0 []) 0 0x52])"
proof -
  let ?d = "handle_csi_internal c [row, col] [] 0x48"
  have d: "?d = move_cursor c (col - 1) (row - 1)" by (rule cup_effect) (use assms in simp_all)
  have pos: "cur_row ?d = row - 1" "cur_col ?d = col - 1" "tc_response_queue ?d = []"
    using assms(3) by (simp_all add: d move_cursor_def upd_cursor_def)
  have one: "sat_add16 (row - 1) 1 = row" "sat_add16 (col - 1) 1 = col"
    using assms by (simp_all add: sat_add16_exact U16_MAX_def)
  have "tc_response_queue (handle_csi_internal ?d [6] [] 0x6E) = csi_text [] [row, col] 0x52"
    using pos by (simp add: handle_csi_internal_def csi_plain_def Let_def handle_device_status_report_def
        get_first_or_zero_def get_param_def format_cpr_def one [unfolded One_nat_def] write_response_def csi_text_def write_decimal_decimal as_u8_def)
  moreover have "parse parser_new (csi_text [] [row, col] 0x52) = (parser_new\<lparr>ps_params := param_parser_new\<rparr>,
      [CsiDispatch (to_array MAX_CSI_PARAMS 0 [row, col]) (length [row, col]) (to_array MAX_CSI_INTERMEDIATES 0 []) (length ([] :: u8 list)) 0x52])"
    by (rule csi_text_parsed)
      (use assms in \<open>simp_all add: is_ground_clean_def parser_new_def MAX_PARAM_VALUE_def MAX_CSI_PARAMS_def in_range_unat\<close>)
  moreover have "parser_new\<lparr>ps_params := param_parser_new\<rparr> = parser_new" by (simp add: parser_new_def)
  ultimately show ?thesis by simp
qed

lemma cursor_report_roundtrip_witness:
  "parse parser_new
      (tc_response_queue (handle_csi_internal (handle_csi_internal (core_new 80 24 100) [5, 12] [] 0x48) [6] [] 0x6E)) =
    (parser_new, [CsiDispatch (to_array MAX_CSI_PARAMS 0 [5, 12]) 2 (to_array MAX_CSI_INTERMEDIATES 0 []) 0 0x52])"
proof -
  have "core_ok (core_new 80 24 100)" using core_new_ok [of 80 24 100] by (simp add: term_ok_def U16_MAX_def)
  then show ?thesis
    by (rule cursor_report_roundtrip)
      (simp_all, simp_all add: core_new_def mark_all_dirty_def get_mode_def default_modes_def mode_defs)
qed

subsection \<open>Mode reports\<close>

definition reported_modes :: "nat list" where
  "reported_modes = [3, 5, 6, 7, 12, 25, 1004, 2004, 2026]"

definition unreported_modes :: "nat list" where
  "unreported_modes = [47, 1000, 1002, 1003, 1006, 1047, 1049]"

lemma set_mode_param_get:
  "boolean_mode m = Some b \<Longrightarrow> get_mode (set_mode_param e c m) k = get_mode (set_mode c b e) k"
  by (simp add: set_mode_param_def handle_set_mode_def MODE_ACTION_NONE_def)

lemma just_shown_mode [simp]: "get_mode (c\<lparr>tc_cursor_just_shown := x\<rparr>) k = get_mode c k"
  by (simp add: get_mode_def)

lemma set_mode_param_visible:
  "get_mode (set_mode_param e c 25) k = get_mode (set_mode c MODE_CURSOR_VISIBLE e) k"
  by (simp add: set_mode_param_def handle_set_mode_def boolean_mode_def MODE_ACTION_NONE_def Let_def get_set_mode)

text \<open>The mode bit behind a report.\<close>

definition reported_bit :: "nat \<Rightarrow> nat option" where
  "reported_bit m = (if m \<in> set reported_modes then if m = 25 then Some MODE_CURSOR_VISIBLE else boolean_mode m else None)"

lemma decrpm_value_bit:
  "decrpm_value c m = (case reported_bit m of Some b \<Rightarrow> if get_mode c b then 1 else 2
     | None \<Rightarrow> if m \<in> {1, 47, 1000, 1002, 1003, 1005, 1006, 1047, 1048, 1049} then 2 else 0)"
  by (simp add: decrpm_value_def Let_def reported_bit_def reported_modes_def boolean_mode_def)

lemma reported_bit_inj: "reported_bit m = Some b \<Longrightarrow> reported_bit k = Some b \<Longrightarrow> k = m"
  by (simp add: reported_bit_def reported_modes_def boolean_mode_def mode_defs split: if_splits)

lemma reported_bit_set: "reported_bit m = Some b \<Longrightarrow> get_mode (set_mode_param e c m) k = get_mode (set_mode c b e) k"
  using set_mode_param_visible set_mode_param_get by (auto simp: reported_bit_def split: if_splits)

lemma reported_bit_Some: "m \<in> set reported_modes \<Longrightarrow> \<exists>b < 32. reported_bit m = Some b"
  by (auto simp: reported_bit_def reported_modes_def boolean_mode_def mode_defs)

text \<open>Mode reports follow the modes: after setting or resetting one of the modes that have a
  state of their own, DECRPM reports it as set (1) or reset (2), and any other mode as before.\<close>

theorem decrpm_follows_modes:
  assumes "m \<in> set reported_modes"
  shows "decrpm_value (set_mode_param e c m) k = (if k = m then if e then 1 else 2 else decrpm_value c k)"
proof -
  obtain b where b: "reported_bit m = Some b" "b < 32" using reported_bit_Some [OF assms] by blast
  show ?thesis
  proof (cases "reported_bit k")
    case None
    then show ?thesis using b by (auto simp: decrpm_value_bit)
  next
    case (Some b')
    then have "b' = b \<longleftrightarrow> k = m" using b reported_bit_inj by auto
    with Some b show ?thesis by (simp add: decrpm_value_bit reported_bit_set get_set_mode)
  qed
qed

lemma decrpm_follows_modes_witness: "decrpm_value (set_mode_param True (core_new 80 24 0) 2004) 2004 = 1"
  using decrpm_follows_modes [of 2004 True "core_new 80 24 0" 2004] by (simp add: reported_modes_def)

text \<open>The mouse and alternate-screen modes are always reported as reset, even right after they
  have been set: an application that asks whether mouse tracking is on is told it is off.\<close>

theorem decrpm_denies_mouse_modes:
  "list_all (\<lambda>m. decrpm_value (set_mode_param True c m) m = 2) unreported_modes
   \<and> get_mode (set_mode_param True c 1000) MODE_MOUSE_NORMAL_TRACKING
   \<and> get_mode (set_mode_param True c 1006) MODE_MOUSE_SGR_ENCODING"
proof -
  have "boolean_mode 1000 = Some MODE_MOUSE_NORMAL_TRACKING" "boolean_mode 1006 = Some MODE_MOUSE_SGR_ENCODING"
    by (simp_all add: boolean_mode_def)
  then show ?thesis
    by (simp add: set_mode_param_get get_set_mode mode_defs unreported_modes_def decrpm_value_def Let_def)
qed

subsection \<open>Attributes\<close>

lemma sgr_reset_single: "sgr_reset (sgr_single p u) = sgr_reset u"
  by (simp add: sgr_single_def set_flag_def unset_flag_def sgr_reset_def)

lemma sgr_reset_run: "sgr_reset (sgr_run ps u) = sgr_reset u"
proof (induction ps u rule: sgr_run.induct)
  case (2 p ps u)
  have col: "sgr_reset (case fst (ext_color ps) of Some col \<Rightarrow> u\<lparr>cu_fg := col\<rparr> | None \<Rightarrow> u) = sgr_reset u"
    "sgr_reset (case fst (ext_color ps) of Some col \<Rightarrow> u\<lparr>cu_bg := col\<rparr> | None \<Rightarrow> u) = sgr_reset u"
    by (simp_all add: sgr_reset_def split: option.split)
  then show ?case using "2.IH" sgr_reset_single [of p u] by simp
qed simp

lemma sgr_run_plain: "list_all (\<lambda>p. p \<noteq> 38 \<and> p \<noteq> 48) ps \<Longrightarrow> sgr_run (ps @ qs) u = sgr_run qs (sgr_run ps u)"
  by (induction ps arbitrary: u) simp_all

text \<open>SGR parameters are processed strictly from left to right and touch nothing but the pen:
  a 0 after parameters without an extended colour makes those before it irrelevant, and what is left
  is the pen reset to its defaults and then changed by the parameters after the 0 (position,
  visibility and charsets stay).\<close>

theorem sgr_reset_law:
  assumes "list_all (\<lambda>p. p \<noteq> 38 \<and> p \<noteq> 48) ps"
  shows "handle_csi_internal c (ps @ 0 # qs) [] 0x6D = handle_csi_internal c (0 # qs) [] 0x6D
    \<and> tc_cursor (handle_csi_internal c (ps @ 0 # qs) [] 0x6D) = sgr_run qs (sgr_reset (tc_cursor c))"
proof -
  have "sgr_run (ps @ 0 # qs) u = sgr_run qs (sgr_reset u)" for u
    using sgr_run_plain [OF assms, of "0 # qs" u] sgr_reset_run [of ps u] by (simp add: sgr_single_def)
  moreover have "sgr_run (0 # qs) u = sgr_run qs (sgr_reset u)" for u by (simp add: sgr_single_def)
  moreover have "sgr_run [0] u = sgr_reset u" "sgr_reset (sgr_reset u) = sgr_reset u" for u
    by (simp_all add: sgr_single_def sgr_reset_def)
  ultimately show ?thesis
    by (simp add: handle_csi_internal_def csi_plain_def Let_def handle_sgr_def upd_cursor_def)
qed

lemma sgr_reset_law_witness:
  "tc_cursor (handle_csi_internal (core_new 80 24 0) [1, 31, 0, 4] [] 0x6D) = sgr_run [4] (sgr_reset cursor_new)"
  using sgr_reset_law [of "[1, 31]" "core_new 80 24 0" "[4]", THEN conjunct2] by simp

subsection \<open>Parameters cut to a byte\<close>

text \<open>The parameter of ED and EL is cut to eight bits before it is interpreted, although
  parameters go up to 9999: \<open>CSI 258 J\<close> clears the screen and \<open>CSI 259 J\<close> the scrollback,
  where a parameter out of range should do nothing.\<close>

theorem erase_parameter_wraps:
  "handle_csi_internal c [n + 256] [] 0x4A = handle_csi_internal c [n] [] 0x4A
   \<and> handle_csi_internal c [n + 256] [] 0x4B = handle_csi_internal c [n] [] 0x4B
   \<and> handle_csi_internal c [259] [] 0x4A = clear_scrollback c"
proof -
  have wrap: "as_u8 (n + 256) = as_u8 n" for n by (simp add: as_u8_def)
  have "as_u8 259 = 3" by (simp add: as_u8_def)
  then show ?thesis
    by (simp add: handle_csi_internal_def csi_plain_def Let_def get_first_or_zero_def wrap
        handle_erase_in_display_def SCROLLBACK_SENTINEL_def)
qed

subsection \<open>Erasing\<close>

lemma clear_line_vrow:
  assumes "grid_ok c" and "r < tc_rows c" and "k < tc_rows c"
  shows "vrow (clear_line c k) r = (if r = k then blank_row c else vrow c r)"
proof -
  have len: "viewport_abs c k * tc_cols c + tc_cols c \<le> length (tc_ring_cells c)"
    using block_index_lt [OF abs_lt [OF assms(1), of k], of "tc_cols c - 1" "tc_cols c"] grid_okD(1,3) [OF assms(1)]
    by simp
  have eq: "clear_line c k = mark_row_dirty (blank_abs_row c (viewport_abs c k)) k"
    using assms(3) len by (simp add: clear_line_def)
  have "viewport_abs (clear_line c k) r = viewport_abs c r" by (rule grid_frame_abs) simp
  moreover have "arow (blank_abs_row c (viewport_abs c k)) (viewport_abs c r) =
      (if viewport_abs c r = viewport_abs c k then blank_row c else arow c (viewport_abs c r))"
    using arow_blank_abs_row [OF assms(1) abs_lt [OF assms(1)] abs_lt [OF assms(1)]] by simp
  ultimately show ?thesis
    by (simp add: vrow_def eq abs_inj [OF assms])
qed

lemma clear_lines_vrow:
  "grid_ok c \<Longrightarrow> \<forall>k \<in> set ks. k < tc_rows c \<Longrightarrow> r < tc_rows c \<Longrightarrow>
     vrow (foldl clear_line c ks) r = (if r \<in> set ks then blank_row c else vrow c r)"
proof (induction ks arbitrary: c)
  case (Cons k ks)
  have fr: "grid_frame c (clear_line c k)" by simp
  have eq: "grid_ok (clear_line c k)" "tc_rows (clear_line c k) = tc_rows c" "blank_row (clear_line c k) = blank_row c"
    using Cons.prems(1) by (simp_all only: grid_frameD(2) [OF fr] blank_row_frame [OF fr])
      (simp add: clear_line_def abs_lt)
  with Cons.IH [of "clear_line c k"] Cons.prems clear_line_vrow [of c r k] show ?case by auto
qed simp

lemma clear_lines_frame: "grid_frame c d \<Longrightarrow> grid_frame c (foldl clear_line d ks)"
  by (induction ks arbitrary: d) simp_all

text \<open>C21. Erasing is exact: \<open>CSI 2 J\<close> turns every row of the screen into a blank row of the
  current background and \<open>CSI 2 K\<close> only the row of the cursor; the cursor and the scrollback stay.\<close>

theorem erase_exact:
  assumes "core_ok c"
  defines "d \<equiv> handle_csi_internal c [2] [] 0x4A" and "e \<equiv> handle_csi_internal c [2] [] 0x4B"
  shows "viewport d = replicate (tc_rows c) (blank_row c) \<and> viewport e = (viewport c)[cur_row c := blank_row c]
    \<and> tc_cursor d = tc_cursor c \<and> tc_cursor e = tc_cursor c
    \<and> tc_scrollback_slim d = tc_scrollback_slim c \<and> tc_scrollback_slim e = tc_scrollback_slim c"
proof -
  note ok = core_okD(2) [OF assms(1)] and cur = core_okD(9) [OF assms(1)]
  have two: "(as_u8 2 :: u8) = 2" by (simp add: as_u8_def)
  have d: "d = foldl clear_line c [0..<tc_rows c]"
    by (simp add: d_def handle_csi_internal_def csi_plain_def Let_def get_first_or_zero_def
        handle_erase_in_display_def two SCROLLBACK_SENTINEL_def)
  have e: "e = clear_line c (cur_row c)"
    by (simp add: e_def handle_csi_internal_def csi_plain_def Let_def get_first_or_zero_def
        handle_erase_in_line_def two)
  have fr: "grid_frame c d" "grid_frame c e" unfolding d e by (simp_all add: clear_lines_frame)
  have "viewport d = replicate (tc_rows c) (blank_row c)"
    by (rule nth_equalityI)
      (simp_all add: viewport_nth grid_frameD(2) [OF fr(1)], simp add: d clear_lines_vrow [OF ok])
  moreover have "viewport e = (viewport c)[cur_row c := blank_row c]"
    by (rule nth_equalityI)
      (simp_all add: viewport_nth grid_frameD(2) [OF fr(2)],
        auto simp: e clear_line_vrow [OF ok _ cur] viewport_nth nth_list_update)
  ultimately show ?thesis using fr by (simp add: grid_frameD)
qed

lemma erase_exact_witness:
  "viewport (handle_csi_internal (core_new 3 2 5) [2] [] 0x4A) = replicate 2 (blank_row (core_new 3 2 5))"
proof -
  have "core_ok (core_new 3 2 5)" using core_new_ok [of 3 2 5] by (simp add: term_ok_def U16_MAX_def)
  from erase_exact [OF this] show ?thesis by simp
qed

end
