(* ===== verification/EditFacts.thy ===== *)
theory EditFacts
  imports ReportFacts
begin

text \<open>
  Inserting and deleting characters inside a row: what the two copy loops compute, and what they do
  to graphemes too long for their cell.
\<close>

subsection \<open>The copy loops\<close>

text \<open>A copy loop that never reads a cell it has already written copies the old contents.\<close>

lemma copy_cells_eval:
  "distinct ks \<Longrightarrow> sorted_wrt (\<lambda>a b. src b \<noteq> a) ks \<Longrightarrow> \<forall>k \<in> set ks. base + k < length cells \<Longrightarrow>
     copy_cells base ks src cells ! (base + j) = cells ! (base + (if j \<in> set ks then src j else j))"
proof (induction ks arbitrary: cells)
  case (Cons k ks)
  let ?c = "cells[base + k := cells ! (base + src k)]"
  have "copy_cells base (k # ks) src cells ! (base + j) = copy_cells base ks src ?c ! (base + j)"
    by (simp add: copy_cells_def)
  also have "\<dots> = ?c ! (base + (if j \<in> set ks then src j else j))" by (rule Cons.IH) (use Cons.prems in simp_all)
  also have "\<dots> = cells ! (base + (if j \<in> set (k # ks) then src j else j))"
    using Cons.prems by (auto simp: nth_list_update)
  finally show ?case .
qed (simp add: copy_cells_def)

lemma copy_right:
  assumes "0 < n" and "base + cols \<le> length cells"
  shows "copy_cells base (rev [b..<cols]) (\<lambda>k. k - n) cells ! (base + j) =
    cells ! (base + (if b \<le> j \<and> j < cols then j - n else j))"
proof -
  have "sorted_wrt (\<lambda>x y. y - n \<noteq> x) (rev [b..<cols])"
    unfolding sorted_wrt_rev by (rule sorted_wrt_mono_rel [OF _ sorted_wrt_upt]) auto
  then show ?thesis using copy_cells_eval [of "rev [b..<cols]" "\<lambda>k. k - n" base cells j] assms by simp
qed

lemma copy_left:
  assumes "0 < n" and "base + cols \<le> length cells" and "e \<le> cols"
  shows "copy_cells base [b..<e] (\<lambda>k. k + n) cells ! (base + j) =
    cells ! (base + (if b \<le> j \<and> j < e then j + n else j))"
proof -
  have "sorted_wrt (\<lambda>x y. y + n \<noteq> x) [b..<e]"
    by (rule sorted_wrt_mono_rel [OF _ sorted_wrt_upt]) auto
  then show ?thesis using copy_cells_eval [of "[b..<e]" "\<lambda>k. k + n" base cells j] assms by simp
qed

subsection \<open>One row\<close>

definition row_cells :: "core \<Rightarrow> nat \<Rightarrow> cell list" where
  "row_cells c r = fst (vrow c r)"

lemma row_cells_nth:
  assumes "grid_ok c" and "k < tc_cols c"
  shows "row_cells c r ! k = tc_ring_cells c ! (viewport_abs c r * tc_cols c + k)" "length (row_cells c r) = tc_cols c"
  using arow_cells(1) [OF assms(1) abs_lt [OF assms(1)], of r] arow_cells(2) [OF assms(1) abs_lt [OF assms(1)] assms(2), of r]
  by (simp_all add: row_cells_def vrow_def)

definition narrow_row :: "core \<Rightarrow> nat \<Rightarrow> bool" where
  "narrow_row c r \<longleftrightarrow> list_all (\<lambda>cl. cl_width cl = 1) (row_cells c r)"

lemma cell_width_row:
  assumes "grid_ok c" and "k < tc_cols c" and "r < tc_rows c"
  shows "get_cell_width c k r = cl_width (row_cells c r ! k)"
  using cell_index_Some [OF assms] row_cells_nth(1) [OF assms(1,2)] by (simp add: get_cell_width_def)

lemma bce_width [simp]: "cl_width (bce_cell c) = 1"
  by (simp add: bce_cell_def cell_empty_def)

text \<open>The common part of both handlers on a row: cells copied, blanks filled in, entries dropped.\<close>

lemma edited_row:
  fixes c :: core and b s n :: nat and ks :: "nat list" and src :: "nat \<Rightarrow> nat"
  defines "a \<equiv> viewport_abs c (cur_row c)"
  defines "d \<equiv> mark_row_dirty (drop_overflow_range (fill_cells (a * tc_cols c + b) n (bce_cell c)
      (c\<lparr>tc_ring_cells := copy_cells (a * tc_cols c) ks src (tc_ring_cells c)\<rparr>)) a s) (cur_row c)"
  assumes "core_ok c" and "s \<le> b" and "b + n \<le> tc_cols c"
    and ks: "\<forall>k \<in> set ks. s \<le> k \<and> k < tc_cols c \<and> src k < tc_cols c"
    and distinct: "distinct ks" "sorted_wrt (\<lambda>x y. src y \<noteq> x) ks"
  shows "grid_inv d" "grid_frame c d"
    and "k < tc_cols c \<Longrightarrow> row_cells d (cur_row c) ! k =
      (if b \<le> k \<and> k < b + n then bce_cell c else row_cells c (cur_row c) ! (if k \<in> set ks then src k else k))"
    and "s \<le> k \<Longrightarrow> k < tc_cols c \<Longrightarrow> map_of (tc_overflow d) (k, a) = None"
proof -
  note ok = core_okD(2) [OF assms(3)] and g = grid_okD [OF core_okD(2) [OF assms(3)]]
  have a: "a < tc_rows c" unfolding a_def by (rule abs_lt [OF ok])
  let ?x = "drop_overflow_range (fill_cells (a * tc_cols c + b) n (bce_cell c)
      (c\<lparr>tc_ring_cells := copy_cells (a * tc_cols c) ks src (tc_ring_cells c)\<rparr>)) a s"
  have "grid_inv ?x \<and> grid_frame c ?x"
    using shift_cells_inv [OF core_okD(1) [OF assms(3)] a assms(4,5), of ks src] ks by blast
  then show inv: "grid_inv d" and fr: "grid_frame c d" unfolding d_def by simp_all
  have bl: "a * tc_cols c + tc_cols c \<le> length (tc_ring_cells c)"
    using block_end_le [OF a, of "tc_cols c"] g(3) by simp
  let ?cp = "copy_cells (a * tc_cols c) ks src (tc_ring_cells c)"
  have cells: "tc_ring_cells d = splice (a * tc_cols c + b) (replicate n (bce_cell c)) ?cp"
    by (simp add: d_def drop_overflow_range_def fill_cells_def mark_row_dirty_def)
  show "row_cells d (cur_row c) ! k =
      (if b \<le> k \<and> k < b + n then bce_cell c else row_cells c (cur_row c) ! (if k \<in> set ks then src k else k))"
    if k: "k < tc_cols c"
  proof -
    have cp: "?cp ! (a * tc_cols c + k) = tc_ring_cells c ! (a * tc_cols c + (if k \<in> set ks then src k else k))"
      by (rule copy_cells_eval [OF distinct]) (use ks bl in force)
    have "row_cells d (cur_row c) ! k = tc_ring_cells d ! (a * tc_cols c + k)"
      using row_cells_nth(1) [OF grid_invD(1) [OF inv], of k "cur_row c"] k
      by (simp add: grid_frameD(1) [OF fr] grid_frame_abs [OF fr] a_def)
    also have "\<dots> = (if b \<le> k \<and> k < b + n then bce_cell c else ?cp ! (a * tc_cols c + k))"
      unfolding cells using bl k assms(5) by (subst nth_splice) auto
    finally show ?thesis using cp row_cells_nth(1) [OF ok, of _ "cur_row c"] k ks by (auto simp: a_def)
  qed
  show "map_of (tc_overflow d) (k, a) = None" if "s \<le> k" "k < tc_cols c"
    using that by (simp add: d_def mark_row_dirty_def drop_overflow_range_def fill_cells_def map_of_clear_range)
qed

lemma narrow_nth:
  assumes "core_ok c" and "narrow_row c (cur_row c)" and "k < tc_cols c"
  shows "cl_width (row_cells c (cur_row c) ! k) = 1" "get_cell_width c k (cur_row c) = 1"
proof -
  show w: "cl_width (row_cells c (cur_row c) ! k) = 1"
    using assms row_cells_nth(2) [OF core_okD(2) [OF assms(1)] assms(3), of "cur_row c"]
    by (simp add: narrow_row_def list_all_length)
  then show "get_cell_width c k (cur_row c) = 1"
    using cell_width_row [OF core_okD(2) [OF assms(1)] assms(3) core_okD(9) [OF assms(1)]] by simp
qed

lemma insert_characters_row:
  assumes "core_ok c" and "narrow_row c (cur_row c)" and "0 < n" and "cur_col c + n \<le> tc_cols c"
  defines "d \<equiv> handle_insert_characters c n"
  shows "row_cells d (cur_row c) =
      take (cur_col c) (row_cells c (cur_row c)) @ replicate n (bce_cell c)
        @ take (tc_cols c - cur_col c - n) (drop (cur_col c) (row_cells c (cur_row c)))"
    and "cur_col c \<le> k \<Longrightarrow> k < tc_cols c \<Longrightarrow> map_of (tc_overflow d) (k, viewport_abs c (cur_row c)) = None"
proof -
  note ok = core_okD(2) [OF assms(1)] and cur = core_okD(8,9) [OF assms(1)]
  let ?a = "viewport_abs c (cur_row c)" and ?col = "cur_col c" and ?row = "row_cells c (cur_row c)"
  let ?ks = "rev [?col + n..<tc_cols c]" and ?src = "\<lambda>k. k - n"
  let ?e = "mark_row_dirty (drop_overflow_range (fill_cells (?a * tc_cols c + ?col) n (bce_cell c)
      (c\<lparr>tc_ring_cells := copy_cells (?a * tc_cols c) ?ks ?src (tc_ring_cells c)\<rparr>)) ?a ?col) (cur_row c)"
  have ks: "\<forall>k \<in> set ?ks. ?col \<le> k \<and> k < tc_cols c \<and> ?src k < tc_cols c" by auto
  have srt: "distinct ?ks" "sorted_wrt (\<lambda>x y. ?src y \<noteq> x) ?ks"
    using \<open>0 < n\<close> by (simp_all add: sorted_wrt_rev sorted_wrt_mono_rel [OF _ sorted_wrt_upt])
  note r = edited_row [OF assms(1) order_refl assms(4) ks srt]
  have at: "row_cells ?e (cur_row c) ! k = (if k < ?col then ?row ! k else if k < ?col + n then bce_cell c else ?row ! (k - n))"
    if "k < tc_cols c" for k
    using r(3) [OF that] that by auto
  have bl: "?a * tc_cols c + tc_cols c \<le> length (tc_ring_cells c)"
    using block_end_le [OF abs_lt [OF ok, of "cur_row c"], of "tc_cols c"] grid_okD(3) [OF ok] by simp
  have "cl_width (row_cells ?e (cur_row c) ! (tc_cols c - 1)) = 1"
    using at [of "tc_cols c - 1"] narrow_nth(1) [OF assms(1,2)] cur by simp
  then have last: "get_cell_width ?e (tc_cols c - 1) (cur_row c) = 1"
    using cell_width_row [OF grid_invD(1) [OF r(1)], of "tc_cols c - 1" "cur_row c"] cur grid_frameD(1,2) [OF r(2)] by simp
  have eq: "d = ?e"
    using assms(3,4) cur bl last narrow_nth(2) [OF assms(1,2) cur(1)]
    unfolding d_def handle_insert_characters_def Let_def bce_cell_cells by (simp add: min_absorb1)
  show "row_cells d (cur_row c) = take ?col ?row @ replicate n (bce_cell c) @ take (tc_cols c - ?col - n) (drop ?col ?row)"
  proof (rule nth_equalityI)
    have len: "length ?row = tc_cols c" "length (row_cells d (cur_row c)) = tc_cols c"
      using row_cells_nth(2) [OF ok cur(1)] row_cells_nth(2) [OF grid_invD(1) [OF r(1)], of ?col] cur grid_frameD(1) [OF r(2)]
      by (simp_all add: eq)
    then show "length (row_cells d (cur_row c)) =
      length (take ?col ?row @ replicate n (bce_cell c) @ take (tc_cols c - ?col - n) (drop ?col ?row))"
      using assms(4) cur by simp
    fix k assume "k < length (row_cells d (cur_row c))"
    then show "row_cells d (cur_row c) ! k =
      (take ?col ?row @ replicate n (bce_cell c) @ take (tc_cols c - ?col - n) (drop ?col ?row)) ! k"
      using at [of k] len assms(4) cur by (auto simp: eq nth_append)
  qed
  show "map_of (tc_overflow d) (k, ?a) = None" if "?col \<le> k" "k < tc_cols c"
    using r(4) [OF that] by (simp add: eq)
qed

lemma delete_characters_row:
  assumes "core_ok c" and "narrow_row c (cur_row c)" and "0 < n" and "cur_col c + n \<le> tc_cols c"
  defines "d \<equiv> handle_delete_characters c n"
  shows "row_cells d (cur_row c) =
      take (cur_col c) (row_cells c (cur_row c)) @ drop (cur_col c + n) (row_cells c (cur_row c)) @ replicate n (bce_cell c)"
proof -
  note ok = core_okD(2) [OF assms(1)] and cur = core_okD(8,9) [OF assms(1)]
  let ?a = "viewport_abs c (cur_row c)" and ?col = "cur_col c" and ?row = "row_cells c (cur_row c)"
  let ?b = "tc_cols c - n"
  let ?ks = "[?col..<?b]" and ?src = "\<lambda>k. k + n"
  let ?e = "mark_row_dirty (drop_overflow_range (fill_cells (?a * tc_cols c + ?b) n (bce_cell c)
      (c\<lparr>tc_ring_cells := copy_cells (?a * tc_cols c) ?ks ?src (tc_ring_cells c)\<rparr>)) ?a ?col) (cur_row c)"
  have ks: "\<forall>k \<in> set ?ks. ?col \<le> k \<and> k < tc_cols c \<and> ?src k < tc_cols c" by auto
  have srt: "distinct ?ks" "sorted_wrt (\<lambda>x y. ?src y \<noteq> x) ?ks"
    by (simp_all add: sorted_wrt_mono_rel [OF _ sorted_wrt_upt])
  have b: "?col \<le> ?b" "?b + n \<le> tc_cols c" using assms(4) by simp_all
  note r = edited_row [OF assms(1) b ks srt]
  have at: "row_cells ?e (cur_row c) ! k = (if k < ?col then ?row ! k else if k < ?b then ?row ! (k + n) else bce_cell c)"
    if "k < tc_cols c" for k
    using r(3) [OF that] that b by auto
  have bl: "?a * tc_cols c + tc_cols c \<le> length (tc_ring_cells c)"
    using block_end_le [OF abs_lt [OF ok, of "cur_row c"], of "tc_cols c"] grid_okD(3) [OF ok] by simp
  have w: "get_cell_width ?e k (cur_row c) = 1" if k: "k < tc_cols c" for k
  proof -
    have "cl_width (row_cells ?e (cur_row c) ! k) = 1"
      using at [OF k] narrow_nth(1) [OF assms(1,2)] k by auto
    then show ?thesis
      using cell_width_row [OF grid_invD(1) [OF r(1)], of k "cur_row c"] cur k grid_frameD(1,2) [OF r(2)] by simp
  qed
  have eq: "d = ?e"
    using assms(3,4) cur bl w [of ?col] w [of "?b - 1"] narrow_nth(2) [OF assms(1,2) cur(1)]
    unfolding d_def handle_delete_characters_def Let_def bce_cell_cells by (simp add: min_absorb1)
  show "row_cells d (cur_row c) = take ?col ?row @ drop (?col + n) ?row @ replicate n (bce_cell c)"
  proof (rule nth_equalityI)
    have len: "length ?row = tc_cols c" "length (row_cells d (cur_row c)) = tc_cols c"
      using row_cells_nth(2) [OF ok cur(1)] row_cells_nth(2) [OF grid_invD(1) [OF r(1)], of ?col] cur grid_frameD(1) [OF r(2)]
      by (simp_all add: eq)
    then show "length (row_cells d (cur_row c)) = length (take ?col ?row @ drop (?col + n) ?row @ replicate n (bce_cell c))"
      using assms(4) cur by simp
    fix k assume "k < length (row_cells d (cur_row c))"
    then show "row_cells d (cur_row c) ! k = (take ?col ?row @ drop (?col + n) ?row @ replicate n (bce_cell c)) ! k"
      using at [of k] len assms(4) cur by (auto simp: eq nth_append add.commute [of n])
  qed
qed

text \<open>C22. Inserting and deleting characters are list edits of the cursor row: on a row of
  single-width cells, ICH inserts \<open>n\<close> blank cells at the cursor and cuts the row to the screen
  width, and DCH removes the \<open>n\<close> cells at the cursor and fills up with blanks at the end.\<close>

theorem edit_characters_exact:
  assumes "core_ok c" and "narrow_row c (cur_row c)" and "0 < n" and "cur_col c + n \<le> tc_cols c"
  shows "row_cells (handle_insert_characters c n) (cur_row c) =
      take (tc_cols c) (take (cur_col c) (row_cells c (cur_row c)) @ replicate n (bce_cell c)
        @ drop (cur_col c) (row_cells c (cur_row c)))
    \<and> row_cells (handle_delete_characters c n) (cur_row c) =
      take (cur_col c) (row_cells c (cur_row c)) @ drop (cur_col c + n) (row_cells c (cur_row c)) @ replicate n (bce_cell c)"
  using insert_characters_row(1) [OF assms] delete_characters_row [OF assms] assms(4)
    row_cells_nth(2) [OF core_okD(2) [OF assms(1)] core_okD(8) [OF assms(1)], of "cur_row c"]
  by (simp add: min_absorb2)

lemma fresh_narrow: "core_ok (core_new w h sb) \<Longrightarrow> r < h \<Longrightarrow> narrow_row (core_new w h sb) r"
proof -
  assume ok: "core_ok (core_new w h sb)" and r: "r < h"
  let ?c = "core_new w h sb"
  note g = core_okD(2) [OF ok]
  have "row_cells ?c r ! k = cell_empty" if k: "k < w" for k
    using row_cells_nth(1) [OF g, of k r] block_index_lt [OF abs_lt [OF g, of r], of k w] k by simp
  moreover have "cl_width cell_empty = 1" by (simp add: cell_empty_def)
  ultimately show "narrow_row ?c r"
    using row_cells_nth(2) [OF g, of 0 r] core_okD(6) [OF ok] by (simp add: narrow_row_def list_all_length)
qed

lemma edit_characters_exact_witness:
  "length (row_cells (handle_insert_characters (core_new 8 2 0) 3) 0) = 8"
proof -
  have ok: "core_ok (core_new 8 2 0)" using core_new_ok [of 8 2 0] by (simp add: term_ok_def U16_MAX_def)
  have row: "length (row_cells (core_new 8 2 0) 0) = 8" using row_cells_nth(2) [OF core_okD(2) [OF ok], of 0 0] by simp
  have "cur_row (core_new 8 2 0) = 0" "cur_col (core_new 8 2 0) = 0" by (simp_all add: cursor_new_def)
  with edit_characters_exact [OF ok, of 3] fresh_narrow [OF ok, of 0] row show ?thesis by simp
qed

lemma cell_char_row:
  assumes "grid_ok c" and "k < tc_cols c" and "r < tc_rows c" and "is_overflow (row_cells c r ! k)"
  shows "get_cell_char c k r = (case map_of (tc_overflow c) (k, viewport_abs c r) of Some s \<Rightarrow> s | None \<Rightarrow> [])"
  using cell_index_Some [OF assms(1-3)] row_cells_nth(1) [OF assms(1,2), of r] assms(4)
  by (simp add: get_cell_char_def Let_def)

text \<open>Inserting characters loses long graphemes: when a cell right of the cursor shows a cluster of
  more than 16 bytes (kept in the overflow table), ICH moves the cell but drops its text, so the
  position it moves to shows nothing.\<close>

theorem insert_loses_graphemes:
  assumes "core_ok c" and "narrow_row c (cur_row c)" and "0 < n" and "cur_col c \<le> k" and "k + n < tc_cols c"
    and "is_overflow (row_cells c (cur_row c) ! k)"
    and "map_of (tc_overflow c) (k, viewport_abs c (cur_row c)) = Some s"
  shows "get_cell_char c k (cur_row c) = s
    \<and> get_cell_char (handle_insert_characters c n) (k + n) (cur_row c) = []"
proof -
  let ?d = "handle_insert_characters c n"
  note inv = handle_insert_characters_inv [OF core_okD(1) [OF assms(1)], of n]
  have n: "cur_col c + n \<le> tc_cols c" using assms(4,5) by simp
  note row = insert_characters_row [OF assms(1-3) n]
  have len: "length (row_cells c (cur_row c)) = tc_cols c"
    using row_cells_nth(2) [OF core_okD(2) [OF assms(1)] core_okD(8) [OF assms(1)]] .
  have "row_cells ?d (cur_row c) ! (k + n) = row_cells c (cur_row c) ! k"
    unfolding row(1) using assms(4,5) len n by (simp add: nth_append)
  then have ovf: "is_overflow (row_cells ?d (cur_row c) ! (k + n))" using assms(6) by simp
  have "map_of (tc_overflow ?d) (k + n, viewport_abs ?d (cur_row c)) = None"
    using row(2) [of "k + n"] assms(4,5) grid_frame_abs [OF inv(2)] by simp
  then have "get_cell_char ?d (k + n) (cur_row c) = []"
    using cell_char_row [OF grid_invD(1) [OF inv(1)] _ _ ovf] assms(5) core_okD(9) [OF assms(1)]
    by (simp add: grid_frameD(1,2) [OF inv(2)])
  moreover have "get_cell_char c k (cur_row c) = s"
    using cell_char_row [OF core_okD(2) [OF assms(1)] _ core_okD(9) [OF assms(1)] assms(6)] assms(5,7) by simp
  ultimately show ?thesis by blast
qed

lemma utf8_valid_replicate: "b < 0x80 \<Longrightarrow> utf8_valid (replicate n b)"
  by (induction n) (simp_all add: utf8_valid_append [OF utf8_valid_ascii, simplified])

lemma insert_loses_graphemes_witness:
  "get_cell_char (handle_insert_characters (store_grapheme (core_new 8 2 0) 0 0 0 (replicate 17 0x61)) 1) 1 0 = []"
proof -
  let ?s = "replicate 17 (0x61 :: u8)" and ?c = "core_new 8 2 0"
  let ?d = "store_grapheme ?c 0 0 0 ?s"
  have ok: "core_ok ?c" using core_new_ok [of 8 2 0] by (simp add: term_ok_def U16_MAX_def)
  have pos: "cur_row ?c = 0" "cur_col ?c = 0" "viewport_abs ?c 0 = 0"
    by (simp_all add: cursor_new_def viewport_abs_def) (simp add: core_new_def mark_all_dirty_def)
  have ix: "cell_index ?c 0 0 = Some 0" using cell_index_Some [OF core_okD(2) [OF ok], of 0 0] pos by simp
  have s: "grapheme_ok ?s" unfolding grapheme_ok_def using utf8_valid_replicate [of "0x61" 17] by simp
  have inv: "grid_inv ?d" using store_grapheme_inv [OF core_okD(1) [OF ok] ix s] pos by simp
  have fr: "grid_frame ?c ?d" by simp
  have d: "core_ok ?d" by (rule core_ok_grid [OF ok fr inv])
  have at: "cur_row ?d = 0" "cur_col ?d = 0" "viewport_abs ?d 0 = 0" "tc_cols ?d = 8" "tc_rows ?d = 2"
    using pos by (simp_all add: grid_frameD [OF fr] grid_frame_abs [OF fr])
  have cells: "tc_ring_cells ?d = (replicate 16 cell_empty)[0 := set_char cell_empty ?s]"
    by (simp add: store_grapheme_def Let_def numeral_eq_Suc)
  have row: "row_cells ?d 0 ! k = ((replicate 16 cell_empty)[0 := set_char cell_empty ?s]) ! k" if "k < 8" for k
    using row_cells_nth(1) [OF grid_invD(1) [OF inv], of k 0] that at cells by simp
  have e: "is_overflow (set_char cell_empty ?s)" "cl_width (set_char cell_empty ?s) = 1" "cl_width cell_empty = 1"
    by (simp_all add: set_char_def is_overflow_def cell_empty_def)
  have "narrow_row ?d 0"
    using row_cells_nth(2) [OF grid_invD(1) [OF inv], of 0 0] row e at
    by (auto simp: narrow_row_def list_all_length nth_list_update nth_Cons')
  moreover have "map_of (tc_overflow ?d) (0, 0) = Some ?s"
    using e(1) by (simp add: store_grapheme_def Let_def map_of_overflow_store)
  moreover have "is_overflow (row_cells ?d 0 ! 0)" using row [of 0] e(1) by simp
  ultimately show ?thesis
    using insert_loses_graphemes [OF d, of 1 0 ?s] at by simp
qed

end
