(* ===== verification/Reflow.thy ===== *)
theory Reflow
  imports Scroll
begin

text \<open>
  Resizing: \<open>reflow.rs\<close> and the resize entry points of \<open>ring_buffer.rs\<close> and
  \<open>terminal_core.rs\<close>.  A change of width joins wrapped lines and splits them again; a change
  of height only moves rows across the boundary between viewport and scrollback.  The splitting
  loop need not end (with one column and a wide character), so it is a partial function and a
  resize that hangs is \<open>None\<close>.
\<close>

subsection \<open>Lines\<close>

record physical_line =
  pl_cells :: "cell list"
  pl_overflow :: "rstring option list"
  pl_wrapped :: bool

record logical_line =
  ll_cells :: "cell list"
  ll_overflow :: "rstring option list"

definition blank_line :: "nat \<Rightarrow> physical_line" where
  "blank_line cols = \<lparr>pl_cells = replicate cols cell_empty, pl_overflow = replicate cols None, pl_wrapped = False\<rparr>"

definition drain_slim_row :: "core \<Rightarrow> nat \<Rightarrow> physical_line" where
  "drain_slim_row c i =
     (let row = tc_scrollback_slim c ! i;
          slims = map (\<lambda>k. if k < length row then row ! k else slim_empty) [0..<tc_cols c];
          cells = map (\<lambda>s. slim_to_cell s (tc_styles c) (tc_chars c)) slims
      in \<lparr>pl_cells = cells,
          pl_overflow = map (\<lambda>s. if is_overflow (slim_to_cell s (tc_styles c) (tc_chars c))
                                 then Some (slim_overflow_str s (tc_chars c)) else None) slims,
          pl_wrapped = (if i < length (tc_scrollback_wrapped c) then tc_scrollback_wrapped c ! i else False)\<rparr>)"

definition drain_viewport_row :: "core \<Rightarrow> nat \<Rightarrow> physical_line" where
  "drain_viewport_row c r =
     (let a = (tc_ring_head c + r) mod tc_rows c; base = a * tc_cols c in
      \<lparr>pl_cells = map (\<lambda>k. tc_ring_cells c ! (base + k)) [0..<tc_cols c],
       pl_overflow = map (\<lambda>k. if is_overflow (tc_ring_cells c ! (base + k))
                              then map_of (tc_overflow c) (k, a) else None) [0..<tc_cols c],
       pl_wrapped = tc_ring_wrapped c ! a\<rparr>)"

definition reflow_drain :: "core \<Rightarrow> physical_line list" where
  "reflow_drain c =
     map (drain_slim_row c) [0..<length (tc_scrollback_slim c)] @ map (drain_viewport_row c) [0..<tc_rows c]"

subsection \<open>Joining wrapped lines\<close>

definition is_blank_cell :: "cell \<Rightarrow> bool" where
  "is_blank_cell cl \<longleftrightarrow> cl_width cl = 0 \<or> (cl_width cl = 1 \<and> get_char_inline cl = Some [0x20])"

definition trimmed_len :: "cell list \<Rightarrow> nat" where
  "trimmed_len cells = length (dropWhile is_blank_cell (rev cells))"

text \<open>One logical line: the inner loop, with the cursor column where it is found.\<close>

fun join_group ::
  "nat \<Rightarrow> nat \<Rightarrow> nat \<Rightarrow> physical_line list \<Rightarrow> logical_line \<Rightarrow> nat option \<Rightarrow>
     logical_line \<times> nat option \<times> nat \<times> physical_line list" where
  "join_group cursor_phys cursor_col i [] acc cur = (acc, cur, i, [])"
| "join_group cursor_phys cursor_col i (line # rest) acc cur =
     (let next_is_continuation = (case rest of [] \<Rightarrow> False | n # _ \<Rightarrow> pl_wrapped n);
          n = (if next_is_continuation then length (pl_cells line) else trimmed_len (pl_cells line));
          cur = (if i = cursor_phys then Some (length (ll_cells acc) + cursor_col) else cur);
          acc = \<lparr>ll_cells = ll_cells acc @ take n (pl_cells line),
                 ll_overflow = ll_overflow acc @ take n (pl_overflow line)\<rparr>
      in if next_is_continuation then join_group cursor_phys cursor_col (i + 1) rest acc cur
         else (acc, cur, i + 1, rest))"

lemma join_group_rest:
  "length (snd (snd (snd (join_group cp cc i lines acc cur)))) \<le> length lines - 1"
proof (induction lines arbitrary: i acc cur)
  case (Cons line rest)
  show ?case
  proof (cases rest)
    case (Cons n rs)
    have "\<And>i' acc' cur'. length (snd (snd (snd (join_group cp cc i' rest acc' cur')))) \<le> length rest"
      using Cons.IH by (meson diff_le_self le_trans)
    then show ?thesis by (simp add: Let_def)
  qed (simp add: Let_def)
qed simp

function join_loop ::
  "nat \<Rightarrow> nat \<Rightarrow> nat \<Rightarrow> nat \<Rightarrow> physical_line list \<Rightarrow> logical_line list \<Rightarrow> nat \<Rightarrow> nat \<Rightarrow>
     logical_line list \<times> nat \<times> nat" where
  "join_loop cursor_phys cursor_col old_cols i lines logical ci cc =
     (if lines = [] then (logical, ci, cc)
      else
        let (line, cur, i2, rest) = join_group cursor_phys cursor_col i lines \<lparr>ll_cells = [], ll_overflow = []\<rparr> None;
            (ci, cc) = (case cur of Some k \<Rightarrow> (length logical, k) | None \<Rightarrow> (ci, cc));
            (ci, cc) = (if i < cursor_phys \<and> cursor_phys < i2
                        then (length logical, (cursor_phys - i) * old_cols + cursor_col) else (ci, cc))
        in join_loop cursor_phys cursor_col old_cols i2 rest (logical @ [line]) ci cc)"
  by auto
termination
proof (relation "measure (\<lambda>(a, b, c, i, lines, l, m, n). length lines)", goal_cases)
  case (2 cp cc oc i lines logical ci ccol x line y cur z i2 rest)
  have "rest = snd (snd (snd (join_group cp cc i lines \<lparr>ll_cells = [], ll_overflow = []\<rparr> None)))"
    using 2(2-5) by (metis snd_conv)
  with join_group_rest [of cp cc i lines "\<lparr>ll_cells = [], ll_overflow = []\<rparr>" None] 2(1)
  show ?case by (cases lines) auto
qed simp

declare join_loop.simps [simp del]

definition reflow_join_wrapped :: "physical_line list \<Rightarrow> nat \<Rightarrow> nat \<Rightarrow> nat \<Rightarrow> logical_line list \<times> nat \<times> nat" where
  "reflow_join_wrapped phys_lines cursor_phys cursor_col old_cols =
     join_loop cursor_phys cursor_col old_cols 0 phys_lines [] 0 cursor_col"

subsection \<open>Splitting at a width\<close>

record split_state =
  sp_phys :: "physical_line list"
  sp_cells :: "cell list"
  sp_overflow :: "rstring option list"
  sp_col :: nat
  sp_cursor :: "nat \<times> nat"

text \<open>Padding the line under construction and pushing it; it is a continuation when the group
  already has a line.\<close>

definition flush_line :: "nat \<Rightarrow> nat \<Rightarrow> split_state \<Rightarrow> split_state" where
  "flush_line new_cols first st =
     st\<lparr>sp_phys := sp_phys st @
          [\<lparr>pl_cells = sp_cells st @ replicate (new_cols - length (sp_cells st)) cell_empty,
            pl_overflow = sp_overflow st @ replicate (new_cols - length (sp_cells st)) None,
            pl_wrapped = (length (sp_phys st) > first)\<rparr>],
        sp_cells := [], sp_overflow := [], sp_col := 0\<rparr>"

definition push_cell :: "cell \<Rightarrow> rstring option \<Rightarrow> split_state \<Rightarrow> split_state" where
  "push_cell cl ovf st = st\<lparr>sp_cells := sp_cells st @ [cl], sp_overflow := sp_overflow st @ [ovf]\<rparr>"

definition at_wide_end :: "nat \<Rightarrow> logical_line \<Rightarrow> nat \<Rightarrow> split_state \<Rightarrow> bool" where
  "at_wide_end new_cols line ci st \<longleftrightarrow> max (cl_width (ll_cells line ! ci)) 1 = 2 \<and> sp_col st = new_cols - 1"

text \<open>Placing the cell at \<open>ci\<close> with its spacer, and wrapping a full line.\<close>

definition place_cell :: "nat \<Rightarrow> nat \<Rightarrow> bool \<Rightarrow> nat \<Rightarrow> logical_line \<Rightarrow> nat \<Rightarrow> split_state \<Rightarrow> nat \<times> split_state" where
  "place_cell new_cols first is_cursor cursor_col line ci st =
     (let cells = ll_cells line; cl = cells ! ci;
          st1 = (if is_cursor \<and> ci = cursor_col then st\<lparr>sp_cursor := (length (sp_phys st), sp_col st)\<rparr> else st);
          st2 = (push_cell cl (if ci < length (ll_overflow line) then ll_overflow line ! ci else None) st1)
                  \<lparr>sp_col := sp_col st1 + 1\<rparr>;
          with_spacer = (max (cl_width cl) 1 = 2 \<and> ci + 1 < length cells \<and> cl_width (cells ! (ci + 1)) = 0);
          st3 = (if with_spacer then (push_cell (cells ! (ci + 1)) None st2)\<lparr>sp_col := sp_col st2 + 1\<rparr> else st2);
          ci2 = (if with_spacer then ci + 2 else ci + 1)
      in (ci2, if sp_col st3 \<ge> new_cols \<and> ci2 < length cells then flush_line new_cols first st3 else st3))"

partial_function (option) split_cells ::
  "nat \<Rightarrow> nat \<Rightarrow> bool \<Rightarrow> nat \<Rightarrow> logical_line \<Rightarrow> nat \<Rightarrow> split_state \<Rightarrow> split_state option" where
  "split_cells new_cols first is_cursor cursor_col line ci st =
     (if ci < length (ll_cells line) then
        if at_wide_end new_cols line ci st
        then split_cells new_cols first is_cursor cursor_col line ci
               (flush_line new_cols first (push_cell cell_empty None st))
        else split_cells new_cols first is_cursor cursor_col line
               (fst (place_cell new_cols first is_cursor cursor_col line ci st))
               (snd (place_cell new_cols first is_cursor cursor_col line ci st))
      else Some st)"

definition split_line ::
  "nat \<Rightarrow> bool \<Rightarrow> nat \<Rightarrow> logical_line \<Rightarrow> split_state \<Rightarrow> split_state option" where
  "split_line new_cols is_cursor cursor_col line st =
     (let first = length (sp_phys st) in
      if ll_cells line = [] then
        let st1 = (if is_cursor then st\<lparr>sp_cursor := (length (sp_phys st), 0)\<rparr> else st)
        in Some (st1\<lparr>sp_phys := sp_phys st1 @ [blank_line new_cols]\<rparr>)
      else
        case split_cells new_cols first is_cursor cursor_col line 0
               (st\<lparr>sp_cells := [], sp_overflow := [], sp_col := 0\<rparr>) of
          None \<Rightarrow> None
        | Some st1 \<Rightarrow>
            let st2 = (if is_cursor \<and> cursor_col \<ge> length (ll_cells line)
                       then st1\<lparr>sp_cursor := (length (sp_phys st1), min (sp_col st1) (new_cols - 1))\<rparr> else st1)
            in Some (flush_line new_cols first st2))"

fun split_lines :: "nat \<Rightarrow> nat \<Rightarrow> nat \<Rightarrow> nat \<Rightarrow> logical_line list \<Rightarrow> split_state \<Rightarrow> split_state option" where
  "split_lines new_cols cursor_idx cursor_col li [] st = Some st"
| "split_lines new_cols cursor_idx cursor_col li (line # rest) st =
     (case split_line new_cols (li = cursor_idx) cursor_col line st of
        None \<Rightarrow> None
      | Some st1 \<Rightarrow> split_lines new_cols cursor_idx cursor_col (li + 1) rest st1)"

definition reflow_split_at_width ::
  "logical_line list \<Rightarrow> nat \<Rightarrow> nat \<Rightarrow> nat \<Rightarrow> (physical_line list \<times> nat \<times> nat) option" where
  "reflow_split_at_width logical_lines new_cols cursor_logical_idx cursor_logical_col =
     (case split_lines new_cols cursor_logical_idx cursor_logical_col 0 logical_lines
             \<lparr>sp_phys = [], sp_cells = [], sp_overflow = [], sp_col = 0, sp_cursor = (0, 0)\<rparr> of
        None \<Rightarrow> None
      | Some st \<Rightarrow> Some (sp_phys st, sp_cursor st))"

subsection \<open>Rebuilding the ring and the scrollback\<close>

definition kept_line :: "physical_line list \<Rightarrow> nat \<Rightarrow> nat \<Rightarrow> nat \<Rightarrow> physical_line option" where
  "kept_line lines skip keep i =
     (if i < keep \<and> skip + i < length lines then Some (lines ! (skip + i)) else None)"

definition fit_cells :: "nat \<Rightarrow> physical_line \<Rightarrow> cell list" where
  "fit_cells cols line = take cols (pl_cells line) @ replicate (cols - length (pl_cells line)) cell_empty"

definition line_overflow_at :: "physical_line \<Rightarrow> nat \<Rightarrow> rstring option" where
  "line_overflow_at line k = (if k < length (pl_overflow line) then pl_overflow line ! k else None)"

definition line_overflow_entries :: "nat \<Rightarrow> nat \<Rightarrow> physical_line \<Rightarrow> overflow_table" where
  "line_overflow_entries cols row line =
     concat (map (\<lambda>k. case line_overflow_at line k of Some s \<Rightarrow> [((k, row), s)] | None \<Rightarrow> [])
       [0..<min (length (pl_cells line)) cols])"

definition compress_step ::
  "slim_row \<times> style_table \<times> char_table \<Rightarrow> cell \<times> rstring option \<Rightarrow> slim_row \<times> style_table \<times> char_table" where
  "compress_step st co =
     (let (row, styles, chars) = st; (slim, styles, chars) = cell_to_slim (fst co) (snd co) styles chars
      in (row @ [slim], styles, chars))"

definition compress_line ::
  "nat \<Rightarrow> slim_row list \<times> style_table \<times> char_table \<Rightarrow> physical_line \<Rightarrow> slim_row list \<times> style_table \<times> char_table" where
  "compress_line cols st line =
     (let (rws, styles, chars) = st;
          (row, styles, chars) = foldl compress_step ([], styles, chars)
            (map (\<lambda>k. (if k < length (pl_cells line) then pl_cells line ! k else cell_empty,
                       line_overflow_at line k)) [0..<cols])
      in (rws @ [row], styles, chars))"

definition repopulate_ring_from_lines ::
  "core \<Rightarrow> physical_line list \<Rightarrow> nat \<Rightarrow> nat \<Rightarrow> nat \<Rightarrow> nat \<Rightarrow> nat \<Rightarrow> core" where
  "repopulate_ring_from_lines c lines skip keep new_rows new_cols scrollback_capacity =
     (let vp_start = keep - new_rows;
          vp = map (\<lambda>r. kept_line lines skip keep (vp_start + r)) [0..<new_rows];
          grid = concat (map (\<lambda>l. case l of Some line \<Rightarrow> fit_cells new_cols line
                                   | None \<Rightarrow> replicate new_cols cell_empty) vp);
          wrapped = map (\<lambda>l. case l of Some line \<Rightarrow> pl_wrapped line | None \<Rightarrow> False) vp;
          overflow = concat (map (\<lambda>(r, l). case l of Some line \<Rightarrow> line_overflow_entries new_cols r line | None \<Rightarrow> [])
                              (enumerate 0 vp));
          sb_count = min vp_start scrollback_capacity;
          sb_skip = vp_start - sb_count;
          sb_lines = concat (map (\<lambda>i. case kept_line lines skip vp_start (sb_skip + i) of
                               Some line \<Rightarrow> [line] | None \<Rightarrow> []) [0..<sb_count]);
          (slim, styles, chars) = foldl (compress_line new_cols) ([], style_table_new, char_table_new) sb_lines
      in c\<lparr>tc_ring_cells := grid, tc_ring_wrapped := wrapped, tc_ring_head := 0, tc_ring_size := new_rows,
           tc_ring_capacity := scrollback_capacity + new_rows, tc_scrollback_capacity := scrollback_capacity,
           tc_scrollback_slim := slim, tc_scrollback_wrapped := map pl_wrapped sb_lines,
           tc_styles := styles, tc_chars := chars,
           tc_overflow := overflow, tc_overflow_ridx := overflow_ridx_rebuild overflow\<rparr>)"

subsection \<open>Change of height\<close>

text \<open>How many lines are kept and how many of the oldest are skipped, and the cursor row after.\<close>

definition height_skip :: "nat \<Rightarrow> nat \<Rightarrow> nat \<Rightarrow> nat \<Rightarrow> nat \<Rightarrow> nat" where
  "height_skip total_lines total_capacity cursor_abs cursor_row new_rows =
     (let keep = min total_lines total_capacity in
      if total_lines \<le> total_capacity then 0
      else min (cursor_abs - (keep - new_rows) - min cursor_row (new_rows - 1)) (total_lines - keep))"

definition resize_same_width_reference :: "core \<Rightarrow> nat \<Rightarrow> nat \<Rightarrow> nat \<Rightarrow> nat \<Rightarrow> core \<times> nat \<times> nat" where
  "resize_same_width_reference c new_rows scrollback_lines cursor_col cursor_row =
     (let lines = reflow_drain c; total_lines = length lines;
          cursor_abs = total_lines - tc_rows c + cursor_row;
          total_capacity = scrollback_lines + new_rows;
          keep = min total_lines total_capacity;
          skip = height_skip total_lines total_capacity cursor_abs cursor_row new_rows;
          c1 = repopulate_ring_from_lines c lines skip keep new_rows (tc_cols c) scrollback_lines
      in (c1, cursor_col, cursor_abs - skip - (keep - new_rows)))"

definition push_scrollback_row :: "core \<Rightarrow> nat \<Rightarrow> core" where
  "push_scrollback_row c r =
     (let a = viewport_abs c r; (row, styles, chars) = compress_row c a
      in c\<lparr>tc_styles := styles, tc_chars := chars, tc_scrollback_slim := tc_scrollback_slim c @ [row],
           tc_scrollback_wrapped := tc_scrollback_wrapped c @ [tc_ring_wrapped c ! a]\<rparr>)"

text \<open>The viewport row \<open>r\<close> as it goes to row \<open>r2\<close> of the new grid.\<close>

definition carried_overflow :: "core \<Rightarrow> nat \<Rightarrow> nat \<Rightarrow> overflow_table" where
  "carried_overflow c r r2 =
     concat (map (\<lambda>k. case map_of (tc_overflow c) (k, viewport_abs c r) of Some s \<Rightarrow> [((k, r2), s)] | None \<Rightarrow> [])
       [0..<tc_cols c])"

definition carried_cells :: "core \<Rightarrow> nat \<Rightarrow> cell list" where
  "carried_cells c r = slice (viewport_abs c r * tc_cols c) (tc_cols c) (tc_ring_cells c)"

text \<open>One row pulled back from the scrollback: cells, overflow strings and wrap flag.\<close>

definition pull_row :: "core \<Rightarrow> core \<times> cell list \<times> rstring option list \<times> bool" where
  "pull_row c =
     (let line = drain_slim_row c (length (tc_scrollback_slim c) - 1);
          wrapped = (case tc_scrollback_wrapped c of [] \<Rightarrow> False | ws \<Rightarrow> last ws);
          c1 = c\<lparr>tc_scrollback_slim := butlast (tc_scrollback_slim c),
                 tc_scrollback_wrapped := butlast (tc_scrollback_wrapped c)\<rparr>
      in (release_slim_row c1 (last (tc_scrollback_slim c)), pl_cells line, pl_overflow line, wrapped))"

fun pull_rows :: "nat \<Rightarrow> core \<Rightarrow> core \<times> (cell list \<times> rstring option list \<times> bool) list" where
  "pull_rows 0 c = (c, [])"
| "pull_rows (Suc n) c =
     (let (c1, row) = pull_row c; (c2, above) = pull_rows n c1 in (c2, above @ [row]))"

definition pulled_overflow :: "nat \<Rightarrow> rstring option list \<Rightarrow> overflow_table" where
  "pulled_overflow r ovf =
     concat (map (\<lambda>(k, s). case s of Some s \<Rightarrow> [((k, r), s)] | None \<Rightarrow> []) (enumerate 0 ovf))"

definition drop_oldest :: "core \<Rightarrow> core" where
  "drop_oldest c =
     (case tc_scrollback_slim c of
        [] \<Rightarrow> c\<lparr>tc_scrollback_wrapped := tl (tc_scrollback_wrapped c)\<rparr>
      | old # rest \<Rightarrow> (release_slim_row (c\<lparr>tc_scrollback_slim := rest\<rparr>) old)
                        \<lparr>tc_scrollback_wrapped := tl (tc_scrollback_wrapped c)\<rparr>)"

definition install_grid ::
  "core \<Rightarrow> nat \<Rightarrow> nat \<Rightarrow> cell list \<Rightarrow> bool list \<Rightarrow> overflow_table \<Rightarrow> core" where
  "install_grid c new_rows scrollback_capacity grid wrapped overflow =
     c\<lparr>tc_ring_cells := grid, tc_ring_wrapped := wrapped, tc_ring_head := 0, tc_ring_size := new_rows,
       tc_ring_capacity := scrollback_capacity + new_rows, tc_scrollback_capacity := scrollback_capacity,
       tc_overflow := overflow, tc_overflow_ridx := overflow_ridx_rebuild overflow\<rparr>"

definition shrink_viewport :: "core \<Rightarrow> nat \<Rightarrow> nat \<Rightarrow> nat \<Rightarrow> core" where
  "shrink_viewport c new_rows scrollback_capacity eov =
     (let n = eov - new_rows;
          c1 = foldl push_scrollback_row c [0..<n];
          grid = concat (map (\<lambda>r. carried_cells c1 (n + r)) [0..<new_rows]);
          wrapped = map (\<lambda>r. tc_ring_wrapped c1 ! viewport_abs c1 (n + r)) [0..<new_rows];
          overflow = concat (map (\<lambda>r. carried_overflow c1 (n + r) r) [0..<new_rows])
      in install_grid c1 new_rows scrollback_capacity grid wrapped overflow)"

definition grow_viewport :: "core \<Rightarrow> nat \<Rightarrow> nat \<Rightarrow> nat \<Rightarrow> core" where
  "grow_viewport c new_rows scrollback_capacity eov =
     (let pulled = min (new_rows - eov) (length (tc_scrollback_slim c));
          (c1, rws) = pull_rows pulled c;
          pad = new_rows - pulled - eov;
          grid = concat (map fst rws) @ concat (map (carried_cells c1) [0..<eov])
                   @ replicate (pad * tc_cols c1) cell_empty;
          wrapped = map (\<lambda>row. snd (snd row)) rws
                   @ map (\<lambda>r. tc_ring_wrapped c1 ! viewport_abs c1 r) [0..<eov] @ replicate pad False;
          overflow = concat (map (\<lambda>(r, row). pulled_overflow r (fst (snd row))) (enumerate 0 rws))
                   @ concat (map (\<lambda>r. carried_overflow c1 r (pulled + r)) [0..<eov])
      in install_grid c1 new_rows scrollback_capacity grid wrapped overflow)"

definition resize_same_width :: "core \<Rightarrow> nat \<Rightarrow> nat \<Rightarrow> nat \<Rightarrow> nat \<Rightarrow> core \<times> nat \<times> nat" where
  "resize_same_width c new_rows scrollback_lines cursor_col cursor_row =
     (let sc = length (tc_scrollback_slim c); total_lines = sc + tc_rows c;
          cursor_abs = sc + cursor_row;
          total_capacity = scrollback_lines + new_rows;
          keep = min total_lines total_capacity;
          skip = height_skip total_lines total_capacity cursor_abs cursor_row new_rows
      in if skip > sc then resize_same_width_reference c new_rows scrollback_lines cursor_col cursor_row
         else
           let new_cursor_row = cursor_abs - skip - (keep - new_rows);
               trailing_drop = total_lines - total_capacity - skip;
               eov = tc_rows c - trailing_drop;
               c1 = (drop_oldest ^^ skip) c
           in (if eov \<ge> new_rows then shrink_viewport c1 new_rows scrollback_lines eov
               else grow_viewport c1 new_rows scrollback_lines eov,
               cursor_col, new_cursor_row))"

subsection \<open>Change of width\<close>

definition blank_physical :: "physical_line \<Rightarrow> bool" where
  "blank_physical line \<longleftrightarrow> list_all is_blank_cell (pl_cells line)"

fun trim_blank_lines :: "physical_line list \<Rightarrow> nat \<Rightarrow> nat \<Rightarrow> nat" where
  "trim_blank_lines lines new_rows 0 = 0"
| "trim_blank_lines lines new_rows (Suc n) =
     (if Suc n > new_rows \<and> blank_physical (lines ! n) then trim_blank_lines lines new_rows n else Suc n)"

definition resize_full_reflow :: "core \<Rightarrow> nat \<Rightarrow> nat \<Rightarrow> nat \<Rightarrow> nat \<Rightarrow> nat \<Rightarrow> (core \<times> nat \<times> nat) option" where
  "resize_full_reflow c new_cols new_rows scrollback_lines cursor_col cursor_row =
     (let phys_lines = reflow_drain c;
          cursor_phys_abs = length phys_lines - tc_rows c + cursor_row;
          (logical_lines, li, lc) = reflow_join_wrapped phys_lines cursor_phys_abs cursor_col (tc_cols c)
      in case reflow_split_at_width logical_lines new_cols li lc of
           None \<Rightarrow> None
         | Some (new_phys, cursor_new_phys, cursor_new_col) \<Rightarrow>
             let keep_count = max (trim_blank_lines new_phys new_rows (length new_phys)) new_rows;
                 total_capacity = scrollback_lines + new_rows;
                 keep = min keep_count total_capacity;
                 skip = keep_count - total_capacity;
                 c1 = repopulate_ring_from_lines c new_phys skip keep new_rows new_cols scrollback_lines
             in Some (c1, cursor_new_col, cursor_new_phys - skip - (keep - new_rows)))"

subsection \<open>Entry points\<close>

text \<open>\<open>Vec::resize\<close> of the tab stops and the stops of the added columns.\<close>

definition resized_tab_stops :: "nat \<Rightarrow> nat \<Rightarrow> bool list \<Rightarrow> bool list" where
  "resized_tab_stops old_cols new_cols stops =
     (let ts = take new_cols stops @ replicate (new_cols - length stops) False
      in if new_cols > old_cols
         then map (\<lambda>(i, b). b \<or> (old_cols \<le> i \<and> (i - old_cols) mod 8 = 0)) (enumerate 0 ts) else ts)"

definition resize_post_cleanup :: "core \<Rightarrow> nat \<Rightarrow> nat \<Rightarrow> core" where
  "resize_post_cleanup c new_cols new_rows =
     (mark_all_dirty (c\<lparr>tc_tab_stops := resized_tab_stops (tc_cols c) new_cols (tc_tab_stops c),
        tc_cols := new_cols, tc_rows := new_rows, tc_dirty := replicate ((new_rows + 63) div 64) 0\<rparr>))
      \<lparr>tc_scroll_region_top := 0, tc_scroll_region_bottom := new_rows - 1,
       tc_wrap_pending := False, tc_grapheme_buffer := []\<rparr>"

definition resize_reflow :: "core \<Rightarrow> nat \<Rightarrow> nat \<Rightarrow> nat \<Rightarrow> core option" where
  "resize_reflow c new_cols new_rows scrollback_lines =
     (case (if new_cols = tc_cols c
            then Some (resize_same_width c new_rows scrollback_lines (cur_col c) (cur_row c))
            else resize_full_reflow c new_cols new_rows scrollback_lines (cur_col c) (cur_row c)) of
        None \<Rightarrow> None
      | Some (c1, final_col, final_row) \<Rightarrow>
          Some (upd_cursor (\<lambda>u. u\<lparr>cu_col := min (final_col mod 65536) (new_cols - 1),
                                 cu_row := min (final_row mod 65536) (new_rows - 1)\<rparr>)
                 (resize_post_cleanup c1 new_cols new_rows)))"

definition clear_scrollback_rows :: "core \<Rightarrow> core" where
  "clear_scrollback_rows c =
     (release_rows (c\<lparr>tc_scrollback_slim := []\<rparr>) (tc_scrollback_slim c))\<lparr>tc_scrollback_wrapped := []\<rparr>"

definition resize_no_reflow :: "core \<Rightarrow> nat \<Rightarrow> nat \<Rightarrow> core" where
  "resize_no_reflow c new_cols new_rows =
     (let copy_rows = min (tc_rows c) new_rows; copy_cols = min (tc_cols c) new_cols;
          grid = concat (map (\<lambda>r. take copy_cols (carried_cells c r)
                     @ replicate (new_cols - copy_cols) cell_empty) [0..<copy_rows])
                   @ replicate ((new_rows - copy_rows) * new_cols) cell_empty;
          wrapped = map (\<lambda>r. tc_ring_wrapped c ! viewport_abs c r) [0..<copy_rows]
                   @ replicate (new_rows - copy_rows) False;
          c1 = (clear_scrollback_rows c)\<lparr>tc_scrollback_capacity := 0, tc_ring_cells := grid,
                 tc_ring_wrapped := wrapped, tc_ring_head := 0, tc_ring_size := new_rows,
                 tc_ring_capacity := new_rows\<rparr>
      in upd_cursor (\<lambda>u. u\<lparr>cu_col := min (cu_col u) (new_cols - 1), cu_row := min (cu_row u) (new_rows - 1)\<rparr>)
           (resize_post_cleanup c1 new_cols new_rows))"

definition restore_bypass_invariant_after_reflow :: "core \<Rightarrow> core" where
  "restore_bypass_invariant_after_reflow c =
     (let leaked = length (tc_scrollback_slim c) in
      if leaked = 0 then c
      else
        let c1 = clear_scrollback_rows c;
            total = tc_virtual_scrollback_len c1 + leaked
        in if total \<le> tc_scrollback_capacity c1 then c1\<lparr>tc_virtual_scrollback_len := total\<rparr>
           else c1\<lparr>tc_virtual_scrollback_len := tc_scrollback_capacity c1,
                   tc_scrollback_evicted_total :=
                     tc_scrollback_evicted_total c1 + (total - tc_scrollback_capacity c1)\<rparr>)"

definition resize :: "core \<Rightarrow> nat \<Rightarrow> nat \<Rightarrow> core option" where
  "resize c new_cols new_rows =
     (let c1 = c\<lparr>tc_last_write := None, tc_reflow_call_count := tc_reflow_call_count c + 1\<rparr>
      in case resize_reflow c1 new_cols new_rows (tc_ring_capacity c1 - tc_rows c1) of
           None \<Rightarrow> None
         | Some c2 \<Rightarrow>
             Some (if tc_scrollback_bypass c2 then restore_bypass_invariant_after_reflow c2 else c2))"

end
