(* ===== verification/ReflowFacts.thy ===== *)
theory ReflowFacts
  imports Reflow
begin

text \<open>
  Facts on the change of width: joining and splitting ends for at least two columns, every new
  line has the new width, and the text of every paragraph survives; with one column and a wide
  character it does not end, and a wide character at the end of a line loses its placeholder.
\<close>

subsection \<open>The text of lines\<close>

text \<open>The cells that show something, each with its overflow string.\<close>

definition ink :: "cell list \<Rightarrow> rstring option list \<Rightarrow> (cell \<times> rstring option) list" where
  "ink cells ovf = filter (\<lambda>(c, _). \<not> is_blank_cell c) (zip cells ovf)"

definition ink_line :: "physical_line \<Rightarrow> (cell \<times> rstring option) list" where
  "ink_line l = ink (pl_cells l) (pl_overflow l)"

definition ink_logical :: "logical_line \<Rightarrow> (cell \<times> rstring option) list" where
  "ink_logical l = ink (ll_cells l) (ll_overflow l)"

definition ink_lines :: "physical_line list \<Rightarrow> (cell \<times> rstring option) list" where
  "ink_lines ls = concat (map ink_line ls)"

definition even_line :: "physical_line \<Rightarrow> bool" where
  "even_line l \<longleftrightarrow> length (pl_overflow l) = length (pl_cells l)"

definition even_logical :: "logical_line \<Rightarrow> bool" where
  "even_logical l \<longleftrightarrow> length (ll_overflow l) = length (ll_cells l)"

definition full_line :: "nat \<Rightarrow> physical_line \<Rightarrow> bool" where
  "full_line n l \<longleftrightarrow> length (pl_cells l) = n \<and> length (pl_overflow l) = n"

definition grouped :: "physical_line list \<Rightarrow> bool" where
  "grouped ls \<longleftrightarrow> (case ls of [] \<Rightarrow> True | l # rest \<Rightarrow> \<not> pl_wrapped l \<and> list_all pl_wrapped rest)"

lemma blank_empty [simp]: "is_blank_cell cell_empty"
  by (simp add: is_blank_cell_def get_char_inline_def cell_empty_def utf8_valid.simps utf8_step_def
      in_range_def Let_def byte_at_def)

lemma ink_Nil [simp]: "ink [] ovf = []" "ink cells [] = []"
  by (simp_all add: ink_def)

lemma ink_append: "length xs = length os \<Longrightarrow> ink (xs @ ys) (os @ ps) = ink xs os @ ink ys ps"
  by (simp add: ink_def)

lemma ink_blank: "list_all is_blank_cell xs \<Longrightarrow> ink xs os = []"
  by (auto simp: ink_def filter_empty_conv list_all_iff dest: set_zip_leftD)

lemma ink_Cons: "ink (x # xs) (y # ys) = (if is_blank_cell x then [] else [(x, y)]) @ ink xs ys"
  by (simp add: ink_def)

lemma ink_pad: "length xs = length os \<Longrightarrow> ink (xs @ replicate n cell_empty) (os @ replicate n None) = ink xs os"
  by (simp add: ink_append ink_blank list_all_iff)

lemma ink_lines_simps [simp]: "ink_lines [] = []" "ink_lines (l # ls) = ink_line l @ ink_lines ls"
  "ink_lines (ls @ ks) = ink_lines ls @ ink_lines ks"
  by (simp_all add: ink_lines_def)

lemma grouped_snoc: "grouped (ls @ [l]) \<longleftrightarrow> grouped ls \<and> pl_wrapped l = (ls \<noteq> [])"
  by (cases ls) (auto simp: grouped_def)

subsection \<open>Splitting one line\<close>

definition split_inv :: "nat \<Rightarrow> physical_line list \<Rightarrow> (cell \<times> rstring option) list \<Rightarrow> split_state \<Rightarrow> bool" where
  "split_inv n done txt st \<longleftrightarrow>
     sp_col st = length (sp_cells st) \<and> length (sp_overflow st) = length (sp_cells st) \<and> sp_col st \<le> n
     \<and> (\<exists>g. sp_phys st = done @ g \<and> grouped g \<and> list_all (full_line n) g
            \<and> ink_lines g @ ink (sp_cells st) (sp_overflow st) = txt)"

lemma split_inv_flush:
  assumes "split_inv n done txt st" "first = length done"
  shows "split_inv n done txt (flush_line n first st)"
proof -
  let ?l = "\<lparr>pl_cells = sp_cells st @ replicate (n - length (sp_cells st)) cell_empty,
            pl_overflow = sp_overflow st @ replicate (n - length (sp_cells st)) None,
            pl_wrapped = (length (sp_phys st) > first)\<rparr>"
  obtain g where g: "sp_phys st = done @ g" "grouped g" "list_all (full_line n) g"
    "ink_lines g @ ink (sp_cells st) (sp_overflow st) = txt"
    using assms(1) by (auto simp: split_inv_def)
  have len: "length (sp_overflow st) = length (sp_cells st)" "length (sp_cells st) \<le> n"
    using assms(1) by (auto simp: split_inv_def)
  have "grouped (g @ [?l])" using g(1,2) assms(2) by (simp add: grouped_snoc)
  moreover have "ink_lines (g @ [?l]) = txt"
    using g(4) len(1) by (simp add: ink_line_def ink_pad)
  moreover have "full_line n ?l" using len by (simp add: full_line_def)
  ultimately show ?thesis
    using g(1,3) by (simp add: split_inv_def flush_line_def)
qed

lemma split_inv_push:
  assumes "split_inv n done txt st" "sp_col st < n"
  shows "split_inv n done (txt @ ink [cl] [ovf]) ((push_cell cl ovf st)\<lparr>sp_col := sp_col st + 1\<rparr>)"
  using assms by (auto simp: split_inv_def push_cell_def ink_append)

lemma split_inv_cursor [simp]: "split_inv n done txt (st\<lparr>sp_cursor := p\<rparr>) = split_inv n done txt st"
  by (simp add: split_inv_def)

lemma flush_col [simp]: "sp_col (flush_line n first st) = 0"
  by (simp add: flush_line_def)

text \<open>The padded line before a wide character: its blank cell adds no text.\<close>

lemma split_inv_wide_end:
  assumes "split_inv n done txt st" "first = length done" "sp_col st < n"
  shows "split_inv n done txt (flush_line n first (push_cell cell_empty None st))"
proof -
  have "split_inv n done (txt @ ink [cell_empty] [None]) ((push_cell cell_empty None st)\<lparr>sp_col := sp_col st + 1\<rparr>)"
    by (rule split_inv_push [OF assms(1,3)])
  from split_inv_flush [OF this assms(2)] show ?thesis
    by (simp add: ink_blank flush_line_def)
qed

definition ink_upto :: "logical_line \<Rightarrow> nat \<Rightarrow> (cell \<times> rstring option) list" where
  "ink_upto line i = ink (take i (ll_cells line)) (take i (ll_overflow line))"

lemma ink_upto_Suc:
  assumes "even_logical line" "i < length (ll_cells line)"
  shows "ink_upto line (Suc i) = ink_upto line i @ ink [ll_cells line ! i] [ll_overflow line ! i]"
  using assms by (simp add: ink_upto_def take_Suc_conv_app_nth even_logical_def ink_append)

lemma ink_width0 [simp]: "cl_width c = 0 \<Longrightarrow> ink [c] os = []"
  by (rule ink_blank) (simp add: is_blank_cell_def)

lemma flush_if_col: "q \<Longrightarrow> 0 < n \<Longrightarrow> sp_col (if n \<le> sp_col s \<and> q then flush_line n f s else s) < n"
  by auto

lemma place_cell_inv:
  assumes inv: "split_inv n done (ink_upto line ci) st" and first: "first = length done"
    and even: "even_logical line" and ci: "ci < length (ll_cells line)" and col: "sp_col st < n"
    and not_end: "\<not> at_wide_end n line ci st"
    and res: "place_cell n first is_cursor cc line ci st = (ci2, st2)"
  shows "split_inv n done (ink_upto line ci2) st2 \<and> ci < ci2 \<and> ci2 \<le> length (ll_cells line)
    \<and> (ci2 < length (ll_cells line) \<longrightarrow> sp_col st2 < n)"
proof -
  let ?cells = "ll_cells line"
  let ?st1 = "if is_cursor \<and> ci = cc then st\<lparr>sp_cursor := (length (sp_phys st), sp_col st)\<rparr> else st"
  let ?st2 = "(push_cell (?cells ! ci) (ll_overflow line ! ci) ?st1)\<lparr>sp_col := sp_col ?st1 + 1\<rparr>"
  let ?sp = "max (cl_width (?cells ! ci)) 1 = 2 \<and> ci + 1 < length ?cells \<and> cl_width (?cells ! (ci + 1)) = 0"
  let ?st3 = "if ?sp then (push_cell (?cells ! (ci + 1)) None ?st2)\<lparr>sp_col := sp_col ?st2 + 1\<rparr> else ?st2"
  let ?ci2 = "if ?sp then ci + 2 else ci + 1"
  have ov: "ci < length (ll_overflow line)" using even ci by (simp add: even_logical_def)
  have st1: "split_inv n done (ink_upto line ci) ?st1" "sp_col ?st1 < n" using inv col by (auto split: if_split)
  have i2: "split_inv n done (ink_upto line (ci + 1)) ?st2"
    using split_inv_push [OF st1] by (simp add: ink_upto_Suc [OF even ci])
  have i3: "split_inv n done (ink_upto line ?ci2) ?st3"
  proof (cases ?sp)
    case True
    have "sp_col ?st2 < n" using True not_end col by (auto simp: at_wide_end_def)
    from split_inv_push [OF i2 this, of "?cells ! (ci + 1)" None] True show ?thesis
      by (simp add: ink_upto_Suc [OF even])
  next
    case False
    then show ?thesis using i2 by (simp only: if_False)
  qed
  have eqs: "ci2 = ?ci2" "st2 = (if sp_col ?st3 \<ge> n \<and> ?ci2 < length ?cells then flush_line n first ?st3 else ?st3)"
    using res ov unfolding place_cell_def Let_def by (simp_all only: if_True prod.inject) auto
  have "split_inv n done (ink_upto line ci2) st2"
    using i3 split_inv_flush [OF i3 first] unfolding eqs by (simp only: split: if_split) blast
  moreover have "ci < ci2" "ci2 \<le> length ?cells" using ci by (auto simp: eqs(1))
  moreover have "sp_col st2 < n" if "ci2 < length ?cells"
    using that col unfolding eqs by (intro flush_if_col) simp_all
  ultimately show ?thesis by blast
qed


text \<open>The loop ends and keeps the invariant when no wide character needs more columns than there are.\<close>

definition fits :: "nat \<Rightarrow> logical_line \<Rightarrow> bool" where
  "fits n line \<longleftrightarrow> 0 < n \<and> (2 \<le> n \<or> list_all (\<lambda>c. cl_width c \<noteq> 2) (ll_cells line))"

lemma split_cells_inv:
  assumes "split_inv n done (ink_upto line ci) st" "first = length done" "even_logical line" "fits n line"
    "ci \<le> length (ll_cells line)" "ci < length (ll_cells line) \<longrightarrow> sp_col st < n"
  shows "\<exists>st'. split_cells n first is_cursor cc line ci st = Some st' \<and> split_inv n done (ink_logical line) st'"
  using assms
proof (induction "2 * (length (ll_cells line) - ci) + (if at_wide_end n line ci st then 1 else 0)"
    arbitrary: ci st rule: less_induct)
  case less
  show ?case
  proof (cases "ci < length (ll_cells line)")
    case False
    with less.prems(5) have "ci = length (ll_cells line)" by simp
    with less.prems(1,3) show ?thesis
      by (subst split_cells.simps) (simp add: ink_upto_def ink_logical_def even_logical_def)
  next
    case ci: True
    then have col: "sp_col st < n" using less.prems(6) by simp
    show ?thesis
    proof (cases "at_wide_end n line ci st")
      case True
      let ?st = "flush_line n first (push_cell cell_empty None st)"
      have w: "cl_width (ll_cells line ! ci) = 2" using True by (auto simp: at_wide_end_def)
      then have "2 \<le> n" using less.prems(4) ci by (auto simp: fits_def list_all_length)
      then have no_end: "\<not> at_wide_end n line ci ?st" by (simp add: at_wide_end_def)
      have "\<exists>st'. split_cells n first is_cursor cc line ci ?st = Some st' \<and> split_inv n done (ink_logical line) st'"
        by (rule less.hyps) (use True no_end less.prems split_inv_wide_end [OF less.prems(1,2) col] col in simp_all)
      with True ci show ?thesis by (subst split_cells.simps) simp
    next
      case False
      obtain ci2 st2 where res: "place_cell n first is_cursor cc line ci st = (ci2, st2)" by force
      from place_cell_inv [OF less.prems(1-3) ci col False res]
      have inv2: "split_inv n done (ink_upto line ci2) st2" "ci < ci2" "ci2 \<le> length (ll_cells line)"
        "ci2 < length (ll_cells line) \<longrightarrow> sp_col st2 < n" by auto
      have "\<exists>st'. split_cells n first is_cursor cc line ci2 st2 = Some st' \<and> split_inv n done (ink_logical line) st'"
        by (rule less.hyps) (use False ci inv2 less.prems in auto)
      with False ci res show ?thesis by (subst split_cells.simps) simp
    qed
  qed
qed

text \<open>One logical line becomes one group of full lines with the same text.\<close>

definition group_of :: "nat \<Rightarrow> logical_line \<Rightarrow> physical_line list \<Rightarrow> bool" where
  "group_of n line g \<longleftrightarrow> g \<noteq> [] \<and> grouped g \<and> list_all (full_line n) g \<and> ink_lines g = ink_logical line"

lemma split_line_group:
  assumes "even_logical line" "fits n line"
  shows "\<exists>st' g. split_line n is_cursor cc line st = Some st' \<and> sp_phys st' = sp_phys st @ g \<and> group_of n line g"
proof (cases "ll_cells line = []")
  case True
  have "group_of n line [blank_line n]"
    using True by (simp add: group_of_def grouped_def blank_line_def full_line_def ink_line_def ink_blank
        list_all_iff ink_logical_def)
  then show ?thesis using True by (auto simp: split_line_def Let_def)
next
  case False
  let ?first = "length (sp_phys st)"
  let ?st = "st\<lparr>sp_cells := [], sp_overflow := [], sp_col := 0\<rparr>"
  have "split_inv n (sp_phys st) (ink_upto line 0) ?st"
    by (simp add: split_inv_def grouped_def ink_upto_def)
  then obtain st1 where st1: "split_cells n ?first is_cursor cc line 0 ?st = Some st1"
    "split_inv n (sp_phys st) (ink_logical line) st1"
    using split_cells_inv [of n "sp_phys st" line 0 ?st ?first is_cursor cc] assms by (auto simp: fits_def)
  let ?st2 = "if is_cursor \<and> cc \<ge> length (ll_cells line)
              then st1\<lparr>sp_cursor := (length (sp_phys st1), min (sp_col st1) (n - 1))\<rparr> else st1"
  have "split_inv n (sp_phys st) (ink_logical line) ?st2" using st1(2) by (auto split: if_split)
  from split_inv_flush [OF this refl]
  obtain g where g: "sp_phys (flush_line n ?first ?st2) = sp_phys st @ g" "grouped g" "list_all (full_line n) g"
    "ink_lines g = ink_logical line"
    by (auto simp: split_inv_def flush_line_def)
  have "length (sp_phys (flush_line n ?first ?st2)) > length (sp_phys st)"
    using st1(2) by (auto simp: split_inv_def flush_line_def)
  then have "g \<noteq> []" by (simp add: g(1))
  with g have "group_of n line g" by (simp add: group_of_def)
  moreover have "split_line n is_cursor cc line st = Some (flush_line n ?first ?st2)"
    using False st1(1) by (simp add: split_line_def Let_def)
  ultimately show ?thesis using g(1) by blast
qed

lemma split_lines_groups:
  assumes "list_all even_logical lines" "list_all (fits n) lines"
  shows "\<exists>st' gs. split_lines n li lc i lines st = Some st' \<and> sp_phys st' = sp_phys st @ concat gs
    \<and> list_all2 (group_of n) lines gs"
  using assms
proof (induction lines arbitrary: i st)
  case (Cons line lines)
  obtain st1 g where st1: "split_line n (i = li) lc line st = Some st1" "sp_phys st1 = sp_phys st @ g" "group_of n line g"
    using split_line_group Cons.prems by (metis list.pred_inject(2))
  obtain st2 gs where "split_lines n li lc (i + 1) lines st1 = Some st2" "sp_phys st2 = sp_phys st1 @ concat gs"
    "list_all2 (group_of n) lines gs"
    using Cons by (metis list.pred_inject(2))
  with st1 show ?case by (intro exI [of _ st2] exI [of _ "g # gs"]) simp
qed simp


subsection \<open>Joining\<close>

lemma ink_trimmed:
  "ink (take (trimmed_len cells) cells) (take (trimmed_len cells) ovf) = ink cells ovf"
proof -
  let ?n = "trimmed_len cells"
  have "rev cells = takeWhile is_blank_cell (rev cells) @ dropWhile is_blank_cell (rev cells)" by simp
  then have split: "cells = rev (dropWhile is_blank_cell (rev cells)) @ rev (takeWhile is_blank_cell (rev cells))"
    by (metis rev_append rev_rev_ident)
  have n: "?n = length (rev (dropWhile is_blank_cell (rev cells)))" by (simp add: trimmed_len_def)
  have "drop ?n cells = rev (takeWhile is_blank_cell (rev cells))"
    by (subst split) (simp add: n)
  then have blank: "list_all is_blank_cell (drop ?n cells)"
    by (auto simp: list_all_iff dest: set_takeWhileD)
  have "zip cells ovf = zip (take ?n cells) (take ?n ovf) @ zip (drop ?n cells) (drop ?n ovf)"
    by (simp only: take_zip [symmetric] drop_zip [symmetric] append_take_drop_id)
  then have "ink cells ovf = ink (take ?n cells) (take ?n ovf) @ ink (drop ?n cells) (drop ?n ovf)"
    by (simp add: ink_def)
  with ink_blank [OF blank] show ?thesis by simp
qed

lemma trimmed_len_le: "trimmed_len cells \<le> length cells"
  unfolding trimmed_len_def by (metis length_dropWhile_le length_rev)

lemma join_group_line:
  assumes "even_line line" "even_logical acc"
    and "k = (if cont then length (pl_cells line) else trimmed_len (pl_cells line))"
    and "acc2 = \<lparr>ll_cells = ll_cells acc @ take k (pl_cells line), ll_overflow = ll_overflow acc @ take k (pl_overflow line)\<rparr>"
  shows "even_logical acc2 \<and> ink_logical acc2 = ink_logical acc @ ink_line line"
  using assms trimmed_len_le [of "pl_cells line"]
  by (simp add: even_line_def even_logical_def ink_logical_def ink_line_def ink_append ink_trimmed)

text \<open>One pass of the inner loop takes a group and leaves what follows it.\<close>

lemma join_group_takes:
  assumes "g \<noteq> []" "list_all pl_wrapped (tl g)" "list_all even_line g" "even_logical acc"
    "rest = [] \<or> \<not> pl_wrapped (hd rest)"
  shows "\<exists>line cur. join_group cp cc i (g @ rest) acc cur0 = (line, cur, i + length g, rest)
    \<and> even_logical line \<and> ink_logical line = ink_logical acc @ ink_lines g"
  using assms
proof (induction g arbitrary: i acc cur0)
  case (Cons l g)
  define cont where "cont = (g \<noteq> [])"
  have next_wrapped: "(case g @ rest of [] \<Rightarrow> False | m # _ \<Rightarrow> pl_wrapped m) = cont"
    using Cons.prems(2,5) by (cases g; cases rest) (auto simp: cont_def)
  define k where "k = (if cont then length (pl_cells l) else trimmed_len (pl_cells l))"
  define acc2 where "acc2 = \<lparr>ll_cells = ll_cells acc @ take k (pl_cells l), ll_overflow = ll_overflow acc @ take k (pl_overflow l)\<rparr>"
  have acc2: "even_logical acc2 \<and> ink_logical acc2 = ink_logical acc @ ink_line l"
    by (rule join_group_line [OF _ Cons.prems(4) k_def acc2_def]) (use Cons.prems(3) in simp)
  let ?cur = "if i = cp then Some (length (ll_cells acc) + cc) else cur0"
  have step: "join_group cp cc i ((l # g) @ rest) acc cur0 =
      (if cont then join_group cp cc (i + 1) (g @ rest) acc2 ?cur else (acc2, ?cur, i + 1, g @ rest))"
    by (simp only: append_Cons join_group.simps Let_def next_wrapped acc2_def k_def)
  show ?case
  proof (cases cont)
    case True
    then have "g \<noteq> []" by (simp add: cont_def)
    moreover from this have "list_all pl_wrapped (tl g)"
      using Cons.prems(2) by (auto simp: list_all_iff dest: list.set_sel(2))
    ultimately show ?thesis
      using True Cons.IH [of acc2 "i + 1" ?cur] Cons.prems(3,5) acc2 step by (auto simp del: join_group.simps)
  next
    case False
    with acc2 step show ?thesis by (simp add: cont_def del: join_group.simps)
  qed
qed simp

lemma join_loop_groups:
  assumes "list_all2 (group_of n) lines gs"
  shows "\<exists>out ci' cc'. join_loop cp cc oc i (concat gs) logical ci ccol = (logical @ out, ci', cc')
    \<and> map ink_logical out = map ink_logical lines"
  using assms
proof (induction lines gs arbitrary: i logical ci ccol rule: list_all2_induct)
  case Nil
  then show ?case by (simp add: join_loop.simps)
next
  case (Cons line lines g gs)
  have hd_rest: "concat gs = [] \<or> \<not> pl_wrapped (hd (concat gs))"
    using Cons.hyps(2) by (cases gs; cases lines) (auto simp: group_of_def grouped_def split: list.splits)
  have g: "g \<noteq> []" "list_all pl_wrapped (tl g)" "list_all even_line g" "ink_lines g = ink_logical line"
    using Cons.hyps(1) by (auto simp: group_of_def grouped_def full_line_def even_line_def list_all_iff split: list.splits)
  obtain l cur where l: "join_group cp cc i (g @ concat gs) \<lparr>ll_cells = [], ll_overflow = []\<rparr> None =
      (l, cur, i + length g, concat gs)" "ink_logical l = ink_logical line"
    using join_group_takes [OF g(1-3) _ hd_rest, of "\<lparr>ll_cells = [], ll_overflow = []\<rparr>" cp cc i None] g(4)
    by (auto simp: even_logical_def ink_logical_def)
  let ?p1 = "case cur of Some k \<Rightarrow> (length logical, k) | None \<Rightarrow> (ci, ccol)"
  let ?p = "if i < cp \<and> cp < i + length g then (length logical, (cp - i) * oc + cc) else ?p1"
  have "join_loop cp cc oc i (concat (g # gs)) logical ci ccol =
      join_loop cp cc oc (i + length g) (concat gs) (logical @ [l]) (fst ?p) (snd ?p)"
    using g(1) l(1) by (subst join_loop.simps) (simp add: Let_def case_prod_beta)
  with Cons.IH [of "i + length g" "logical @ [l]" "fst ?p" "snd ?p"] l(2) show ?case by auto
qed


text \<open>Joining keeps the text, whatever the wrap flags are.\<close>

lemma join_group_text:
  "list_all even_line lines \<Longrightarrow> even_logical acc \<Longrightarrow>
   join_group cp cc i lines acc cur = (line, cur', i', rest) \<Longrightarrow>
   even_logical line \<and> list_all even_line rest \<and> ink_logical line @ ink_lines rest = ink_logical acc @ ink_lines lines"
proof (induction lines arbitrary: i acc cur)
  case (Cons l lines)
  define cont where "cont = (case lines of [] \<Rightarrow> False | m # _ \<Rightarrow> pl_wrapped m)"
  define k where "k = (if cont then length (pl_cells l) else trimmed_len (pl_cells l))"
  define acc2 where "acc2 = \<lparr>ll_cells = ll_cells acc @ take k (pl_cells l), ll_overflow = ll_overflow acc @ take k (pl_overflow l)\<rparr>"
  have acc2: "even_logical acc2 \<and> ink_logical acc2 = ink_logical acc @ ink_line l"
    by (rule join_group_line [OF _ Cons.prems(2) k_def acc2_def]) (use Cons.prems(1) in simp)
  let ?cur = "if i = cp then Some (length (ll_cells acc) + cc) else cur"
  have step: "join_group cp cc i (l # lines) acc cur =
      (if cont then join_group cp cc (i + 1) lines acc2 ?cur else (acc2, ?cur, i + 1, lines))"
    by (simp only: join_group.simps Let_def cont_def [symmetric] acc2_def k_def)
  show ?case
    using Cons.IH [of acc2 "i + 1" ?cur] Cons.prems(1,3) acc2 step
    by (cases cont) (auto simp del: join_group.simps)
qed simp

lemma join_loop_text:
  "list_all even_line lines \<Longrightarrow> list_all even_logical logical \<Longrightarrow>
   join_loop cp cc oc i lines logical ci ccol = (out, p) \<Longrightarrow>
   list_all even_logical out \<and> concat (map ink_logical out) = concat (map ink_logical logical) @ ink_lines lines"
proof (induction cp cc oc i lines logical ci ccol rule: join_loop.induct)
  case (1 cp cc oc i lines logical ci ccol)
  show ?case
  proof (cases "lines = []")
    case True
    with 1 show ?thesis by (simp add: join_loop.simps)
  next
    case False
    obtain line cur i2 rest where g: "join_group cp cc i lines \<lparr>ll_cells = [], ll_overflow = []\<rparr> None = (line, cur, i2, rest)"
      by (metis prod_cases4)
    from join_group_text [OF 1(2) _ g]
    have t: "even_logical line" "list_all even_line rest" "ink_logical line @ ink_lines rest = ink_lines lines"
      by (auto simp: even_logical_def ink_logical_def)
    let ?p1 = "case cur of Some k \<Rightarrow> (length logical, k) | None \<Rightarrow> (ci, ccol)"
    let ?p = "if i < cp \<and> cp < i2 then (length logical, (cp - i) * oc + cc) else ?p1"
    have step: "join_loop cp cc oc i lines logical ci ccol = join_loop cp cc oc i2 rest (logical @ [line]) (fst ?p) (snd ?p)"
      using False g by (subst join_loop.simps) (simp add: Let_def case_prod_beta)
    have "list_all even_logical out \<and>
        concat (map ink_logical out) = concat (map ink_logical (logical @ [line])) @ ink_lines rest"
      by (rule 1(1) [OF False g [symmetric] refl refl refl refl prod.collapse refl prod.collapse])
        (use t 1(3,4) step in \<open>auto simp: case_prod_beta\<close>)
    with t(3) show ?thesis by simp
  qed
qed


subsection \<open>Properties\<close>



text \<open>With one column the loop returns only when no wide character is left.\<close>

lemma split_cells_one_column:
  assumes "split_cells 1 first is_cursor cc line ci st = Some st'"
    and "ci < length (ll_cells line) \<longrightarrow> sp_col st = 0"
  shows "\<forall>k. ci \<le> k \<and> k < length (ll_cells line) \<longrightarrow> cl_width (ll_cells line ! k) \<noteq> 2"
proof -
  have "n = 1 \<longrightarrow> (ci < length (ll_cells line) \<longrightarrow> sp_col st = 0) \<longrightarrow>
      (\<forall>k. ci \<le> k \<and> k < length (ll_cells line) \<longrightarrow> cl_width (ll_cells line ! k) \<noteq> 2)"
    if "split_cells n first is_cursor cc line ci st = Some st'" for n st'
    using that
  proof (induction n first is_cursor cc line ci st st' rule: split_cells.raw_induct [rotated, consumes 1, case_names 1])
    case (1 sc n first is_cursor cc line ci st y)
    show ?case
    proof (intro impI)
      assume n: "n = 1" and col: "ci < length (ll_cells line) \<longrightarrow> sp_col st = 0"
      show "\<forall>k. ci \<le> k \<and> k < length (ll_cells line) \<longrightarrow> cl_width (ll_cells line ! k) \<noteq> 2"
      proof (cases "ci < length (ll_cells line)")
        case ci: True
        show ?thesis
        proof (cases "at_wide_end n line ci st")
          case True
          with 1 n ci show ?thesis by simp
        next
          case False
          then have w: "cl_width (ll_cells line ! ci) \<noteq> 2" using n col ci by (auto simp: at_wide_end_def)
          then have pc: "fst (place_cell n first is_cursor cc line ci st) = ci + 1"
            "ci + 1 < length (ll_cells line) \<longrightarrow> sp_col (snd (place_cell n first is_cursor cc line ci st)) = 0"
            using n col ci by (auto simp: place_cell_def Let_def push_cell_def max_def)
          have "\<forall>k. ci + 1 \<le> k \<and> k < length (ll_cells line) \<longrightarrow> cl_width (ll_cells line ! k) \<noteq> 2"
            using 1 n ci False pc by simp
          with w show ?thesis by (metis Suc_eq_plus1 le_antisym not_less_eq_eq)
        qed
      qed auto
    qed
  qed
  with assms show ?thesis by blast
qed

lemma split_lines_one_column:
  "split_lines 1 li lc i lines st = Some st' \<Longrightarrow> line \<in> set lines \<Longrightarrow> c \<in> set (ll_cells line) \<Longrightarrow> cl_width c \<noteq> 2"
proof (induction lines arbitrary: i st)
  case (Cons l lines)
  obtain st1 where st1: "split_line 1 (i = li) lc l st = Some st1" "split_lines 1 li lc (i + 1) lines st1 = Some st'"
    using Cons.prems(1) by (auto split: option.splits)
  have "cl_width c \<noteq> 2" if c: "c \<in> set (ll_cells l)"
  proof -
    from c st1(1) obtain s s' where "split_cells 1 (length (sp_phys st)) (i = li) lc l 0 s = Some s'" "sp_col s = 0"
      by (auto simp: split_line_def Let_def split: if_splits option.splits)
    from split_cells_one_column [OF this(1)] this(2) c show ?thesis by (auto simp: in_set_conv_nth)
  qed
  with Cons st1(2) show ?case by auto
qed simp


lemma even_drained: "list_all even_line (reflow_drain c)"
  by (auto simp: list_all_iff reflow_drain_def even_line_def drain_slim_row_def drain_viewport_row_def Let_def)

lemma drained_viewport_cell:
  assumes "r < tc_rows c" "k < tc_cols c"
  shows "\<exists>l ovf. l \<in> set (reflow_drain c) \<and> (tc_ring_cells c ! (viewport_abs c r * tc_cols c + k), ovf) \<in> set (zip (pl_cells l) (pl_overflow l))"
proof (intro exI conjI)
  let ?l = "drain_viewport_row c r"
  show "?l \<in> set (reflow_drain c)" using assms(1) by (auto simp: reflow_drain_def)
  show "(tc_ring_cells c ! (viewport_abs c r * tc_cols c + k), pl_overflow ?l ! k) \<in> set (zip (pl_cells ?l) (pl_overflow ?l))"
    using assms by (auto simp: in_set_zip drain_viewport_row_def viewport_abs_def Let_def intro!: exI [of _ k])
qed

text \<open>C25. Resizing a terminal to one column never returns while a character of two columns is on the
  screen: the loop pads a line and tries the same cell again, for ever.\<close>

theorem resize_one_column_hangs:
  assumes "tc_cols c \<noteq> 1" and "r < tc_rows c" and "k < tc_cols c"
    and "cl_width (tc_ring_cells c ! (viewport_abs c r * tc_cols c + k)) = 2"
  shows "resize c 1 new_rows = None"
proof -
  let ?c = "c\<lparr>tc_last_write := None, tc_reflow_call_count := tc_reflow_call_count c + 1\<rparr>"
  let ?cl = "tc_ring_cells c ! (viewport_abs c r * tc_cols c + k)"
  obtain l ovf where l: "l \<in> set (reflow_drain ?c)" "(?cl, ovf) \<in> set (zip (pl_cells l) (pl_overflow l))"
    using drained_viewport_cell [of r ?c k] assms(2,3) by (auto simp: viewport_abs_def)
  then have inked: "(?cl, ovf) \<in> set (ink_lines (reflow_drain ?c))"
    using assms(4) by (force simp: ink_lines_def ink_line_def ink_def is_blank_cell_def)
  have "reflow_split_at_width (fst (reflow_join_wrapped (reflow_drain ?c) cp cc oc)) 1 li lc = None" for cp cc oc li lc
  proof -
    obtain lines p where j: "reflow_join_wrapped (reflow_drain ?c) cp cc oc = (lines, p)" by (rule prod.exhaust)
    then have "concat (map ink_logical lines) = ink_lines (reflow_drain ?c)"
      using join_loop_text [OF even_drained, of "[]" cp cc oc 0 ?c 0 cc lines p] by (simp add: reflow_join_wrapped_def)
    then have "(?cl, ovf) \<in> set (concat (map ink_logical lines))" using inked by simp
    then obtain line where "line \<in> set lines" "(?cl, ovf) \<in> set (ink_logical line)" by auto
    then have "line \<in> set lines" "?cl \<in> set (ll_cells line)"
      by (auto simp: ink_logical_def ink_def dest: set_zip_leftD)
    with split_lines_one_column assms(4) j show ?thesis
      by (fastforce simp: reflow_split_at_width_def split: option.split)
  qed
  then show ?thesis
    using assms(1)
    by (simp add: resize_def resize_reflow_def resize_full_reflow_def Let_def case_prod_beta)
qed

lemma resize_one_column_hangs_witness:
  "resize ((core_new 2 1 0)\<lparr>tc_ring_cells := [cell_empty\<lparr>cl_width := 2\<rparr>, cell_empty\<lparr>cl_width := 0\<rparr>]\<rparr>) 1 1 = None"
  by (rule resize_one_column_hangs [where r = 0 and k = 0]) (simp_all add: core_new_def viewport_abs_def mark_all_dirty_def)

text \<open>A wide character at the end of a line loses its placeholder when the width changes: trimming the
  line drops the placeholder as if it were blank, and splitting fills the place with an ordinary blank
  cell of width 1.\<close>

theorem reflow_loses_placeholder:
  assumes "cl_width wide = 2" and "cl_width spacer = 0" and "2 < n"
  shows "\<exists>cur. reflow_split_at_width
      (fst (reflow_join_wrapped [\<lparr>pl_cells = [wide, spacer], pl_overflow = [None, None], pl_wrapped = False\<rparr>] cp cc 2)) n li lc
    = Some ([\<lparr>pl_cells = wide # replicate (n - 1) cell_empty, pl_overflow = replicate n None, pl_wrapped = False\<rparr>], cur)"
proof -
  have trim: "trimmed_len [wide, spacer] = 1"
    using assms(1,2) by (simp add: trimmed_len_def is_blank_cell_def)
  have joined: "fst (reflow_join_wrapped [\<lparr>pl_cells = [wide, spacer], pl_overflow = [None, None], pl_wrapped = False\<rparr>] cp cc 2)
      = [\<lparr>ll_cells = [wide], ll_overflow = [None]\<rparr>]"
    by (simp add: reflow_join_wrapped_def join_loop.simps trim Let_def case_prod_beta)
  have pad: "None # replicate (n - Suc 0) None = replicate n (None :: rstring option)"
    using assms(3) by (cases n) simp_all
  show ?thesis
    unfolding joined using assms
    by (auto simp: reflow_split_at_width_def split_line_def split_cells.simps at_wide_end_def place_cell_def
        push_cell_def flush_line_def pad Let_def)
qed

lemma reflow_loses_placeholder_witness:
  "\<exists>cur. reflow_split_at_width
      (fst (reflow_join_wrapped [\<lparr>pl_cells = [cell_empty\<lparr>cl_width := 2\<rparr>, cell_empty\<lparr>cl_width := 0\<rparr>],
         pl_overflow = [None, None], pl_wrapped = False\<rparr>] 0 0 2)) 4 0 0
    = Some ([\<lparr>pl_cells = cell_empty\<lparr>cl_width := 2\<rparr> # replicate 3 cell_empty, pl_overflow = replicate 4 None, pl_wrapped = False\<rparr>], cur)"
  using reflow_loses_placeholder [of "cell_empty\<lparr>cl_width := 2\<rparr>" "cell_empty\<lparr>cl_width := 0\<rparr>" 4 0 0 0 0] by simp

end
