(* ===== verification/RustStr.thy ===== *)
theory RustStr
  imports OscHandler EscHandlers
begin

text \<open>
  What the string code uses of Rust's \<open>str\<close>: trimming, slicing, which panics inside a character,
  splitting at the last occurrence, and the number parsers \<open>from_str_radix\<close> and \<open>parse\<close>.
\<close>

unbundle bit_operations_syntax

datatype 'a outcome = Panic | Done 'a

fun and_then :: "'a outcome \<Rightarrow> ('a \<Rightarrow> 'b outcome) \<Rightarrow> 'b outcome" where
  "and_then Panic f = Panic"
| "and_then (Done a) f = f a"

lemma and_then_Done: "and_then x f = Done y \<longleftrightarrow> (\<exists>a. x = Done a \<and> f a = Done y)"
  by (cases x) auto

text \<open>The question mark on an \<open>Option\<close>: \<open>None\<close> returns from the function.\<close>

definition or_return :: "'a option outcome \<Rightarrow> ('a \<Rightarrow> 'b option outcome) \<Rightarrow> 'b option outcome" where
  "or_return x f = and_then x (\<lambda>v. case v of None \<Rightarrow> Done None | Some a \<Rightarrow> f a)"

subsection \<open>Strings\<close>

definition trim_str :: "rstring \<Rightarrow> rstring" where
  "trim_str s = concat (map utf8_encode (dropWhile is_whitespace (rev (dropWhile is_whitespace (rev (utf8_chars s))))))"

definition is_char_boundary :: "rstring \<Rightarrow> nat \<Rightarrow> bool" where
  "is_char_boundary s i \<longleftrightarrow> i = 0 \<or> i = length s \<or> (i < length s \<and> \<not> in_range 0x80 0xBF (s ! i))"

definition str_slice :: "rstring \<Rightarrow> nat \<Rightarrow> nat \<Rightarrow> rstring outcome" where
  "str_slice s a b =
     (if a \<le> b \<and> is_char_boundary s a \<and> is_char_boundary s b then Done (take (b - a) (drop a s)) else Panic)"

definition hex_digit :: "u8 \<Rightarrow> nat option" where
  "hex_digit b =
     (if in_range 0x30 0x39 b then Some (unat b - 0x30)
      else if in_range 0x61 0x66 b then Some (unat b - 0x61 + 10)
      else if in_range 0x41 0x46 b then Some (unat b - 0x41 + 10) else None)"

text \<open>\<open>from_str_radix(s, 16)\<close> for an unsigned type with the given maximum: an optional plus sign
  before at least one digit, no overflow.\<close>

fun hex_value :: "nat \<Rightarrow> rstring \<Rightarrow> nat option" where
  "hex_value n [] = Some n"
| "hex_value n (b # bs) = (case hex_digit b of None \<Rightarrow> None | Some d \<Rightarrow> hex_value (16 * n + d) bs)"

definition from_hex :: "nat \<Rightarrow> rstring \<Rightarrow> nat option" where
  "from_hex maximum s =
     (let ds = (case s of b # rest \<Rightarrow> if b = 0x2B \<and> rest \<noteq> [] then rest else s | [] \<Rightarrow> []) in
      if ds = [] then None
      else case hex_value 0 ds of Some v \<Rightarrow> if v \<le> maximum then Some v else None | None \<Rightarrow> None)"

text \<open>\<open>str::parse\<close> for an unsigned type: an optional plus sign before at least one decimal digit, no
  overflow.\<close>

fun dec_value :: "nat \<Rightarrow> rstring \<Rightarrow> nat option" where
  "dec_value n [] = Some n"
| "dec_value n (b # bs) = (if is_digit b then dec_value (10 * n + (unat b - 0x30)) bs else None)"

definition from_decimal :: "nat \<Rightarrow> rstring \<Rightarrow> nat option" where
  "from_decimal maximum s =
     (let ds = (case s of b # rest \<Rightarrow> if b = 0x2B \<and> rest \<noteq> [] then rest else s | [] \<Rightarrow> []) in
      if ds = [] then None
      else case dec_value 0 ds of Some v \<Rightarrow> if v \<le> maximum then Some v else None | None \<Rightarrow> None)"

text \<open>\<open>rsplit_once\<close> at a character and at a string.\<close>

definition rsplit_once :: "u8 \<Rightarrow> rstring \<Rightarrow> (rstring \<times> rstring) option" where
  "rsplit_once sep s =
     (case dropWhile (\<lambda>b. b \<noteq> sep) (rev s) of
        [] \<Rightarrow> None
      | _ # r \<Rightarrow> Some (rev r, rev (takeWhile (\<lambda>b. b \<noteq> sep) (rev s))))"

definition rsplit_once_str :: "rstring \<Rightarrow> rstring \<Rightarrow> (rstring \<times> rstring) option" where
  "rsplit_once_str pat s =
     (case find (\<lambda>i. strip_prefix pat (drop i s) \<noteq> None) (rev [0..<Suc (length s)]) of
        None \<Rightarrow> None
      | Some i \<Rightarrow> Some (take i s, drop (i + length pat) s))"

subsection \<open>Facts\<close>

lemma dec_value_append:
  "dec_value n (as @ bs) = (case dec_value n as of None \<Rightarrow> None | Some m \<Rightarrow> dec_value m bs)"
  by (induction n as rule: dec_value.induct) auto

lemma dec_value_decimal: "dec_value 0 (decimal n) = Some n"
proof (induction n rule: decimal.induct)
  case (1 n)
  have digit: "is_digit (as_u8 (0x30 + m)) \<and> unat (as_u8 (0x30 + m)) = 0x30 + m" if "m < 10" for m
    using that is_digit_as_u8 [of m] by simp
  show ?case
  proof (cases "n < 10")
    case True
    then show ?thesis using digit [of n] by (subst decimal.simps) simp
  next
    case False
    have "n mod 10 < 10" by simp
    from digit [OF this] show ?thesis
      using 1 [OF False] False by (subst decimal.simps) (simp add: dec_value_append)
  qed
qed

lemma from_decimal_decimal: "n \<le> m \<Longrightarrow> from_decimal m (decimal n) = Some n"
proof -
  assume "n \<le> m"
  have "hd (decimal n) \<in> set (decimal n)" by simp
  then have "is_digit (hd (decimal n))" by (rule decimal_digits)
  then have "hd (decimal n) \<noteq> 0x2B" by (auto simp: is_digit_def in_range_def)
  then have "(case decimal n of b # rest \<Rightarrow> if b = 0x2B \<and> rest \<noteq> [] then rest else decimal n | [] \<Rightarrow> []) = decimal n"
    by (cases "decimal n") auto
  with \<open>n \<le> m\<close> show ?thesis by (simp add: from_decimal_def dec_value_decimal Let_def)
qed

lemma rsplit_once_last: "sep \<notin> set b \<Longrightarrow> rsplit_once sep (a @ sep # b) = Some (a, b)"
proof -
  assume "sep \<notin> set b"
  then have "takeWhile (\<lambda>x. x \<noteq> sep) (rev b @ sep # rev a) = rev b" "dropWhile (\<lambda>x. x \<noteq> sep) (rev b @ sep # rev a) = sep # rev a"
    by (subst takeWhile_append2 dropWhile_append2; auto)+
  then show ?thesis by (simp add: rsplit_once_def)
qed

end
