(* ===== verification/ColorSpec.thy ===== *)
theory ColorSpec
  imports RustStr
begin

text \<open>
  \<open>color_spec.rs\<close>: colour specifications of OSC 4, 10, 11 and 12.
\<close>

datatype color_spec_result = Color u8 u8 u8 | ColorQuery

subsection \<open>Parsing\<close>

definition parse_component :: "rstring \<Rightarrow> u8 option" where
  "parse_component s =
     (case from_hex U16_MAX s of
        None \<Rightarrow> None
      | Some val \<Rightarrow>
          if length s = 1 then Some (as_u8 val * 17)
          else if length s = 2 then Some (as_u8 val)
          else if length s = 4 then Some (as_u8 (val div 256)) else None)"

definition parse_rgb_colon :: "rstring \<Rightarrow> color_spec_result option" where
  "parse_rgb_colon s =
     (case split_bytes 0x2F s of
        [p0, p1, p2] \<Rightarrow>
          (case parse_component p0 of None \<Rightarrow> None
           | Some r \<Rightarrow> (case parse_component p1 of None \<Rightarrow> None
               | Some g \<Rightarrow> (case parse_component p2 of None \<Rightarrow> None | Some b \<Rightarrow> Some (Color r g b))))
      | _ \<Rightarrow> None)"

text \<open>One component of a hash specification: the slice, its value and the scaling to eight bits.\<close>

definition hash_component :: "rstring \<Rightarrow> nat \<Rightarrow> nat \<Rightarrow> u8 option outcome" where
  "hash_component s w i =
     and_then (str_slice s (i * w) (i * w + w)) (\<lambda>part. Done
       (case from_hex (if w = 4 then U16_MAX else 255) part of
          None \<Rightarrow> None
        | Some v \<Rightarrow> Some (if w = 1 then as_u8 v * 17 else if w = 2 then as_u8 v else as_u8 (v div 256))))"

definition hash_color :: "(u8 \<Rightarrow> u8 \<Rightarrow> u8 \<Rightarrow> 'c) \<Rightarrow> rstring \<Rightarrow> nat \<Rightarrow> 'c option outcome" where
  "hash_color mk s w =
     or_return (hash_component s w 0) (\<lambda>r. or_return (hash_component s w 1) (\<lambda>g.
       or_return (hash_component s w 2) (\<lambda>b. Done (Some (mk r g b)))))"

definition parse_hash :: "rstring \<Rightarrow> color_spec_result option outcome" where
  "parse_hash s =
     (if length s = 3 then hash_color Color s 1
      else if length s = 6 then hash_color Color s 2
      else if length s = 12 then hash_color Color s 4
      else Done None)"

definition parse_color_spec :: "rstring \<Rightarrow> color_spec_result option outcome" where
  "parse_color_spec spec =
     (let spec = trim_str spec in
      if spec = [0x3F] then Done (Some ColorQuery)
      else case strip_prefix [0x72, 0x67, 0x62, 0x3A] spec of
        Some rest \<Rightarrow> Done (parse_rgb_colon rest)
      | None \<Rightarrow>
          (case strip_prefix [0x23] spec of Some rest \<Rightarrow> parse_hash rest | None \<Rightarrow> Done None))"

subsection \<open>The answer to a query\<close>

definition hex_char :: "nat \<Rightarrow> u8" where
  "hex_char d = (if d < 10 then as_u8 (0x30 + d) else as_u8 (0x61 + (d - 10)))"

text \<open>\<open>{:04x}\<close> of the component repeated in both bytes.\<close>

definition hex4 :: "u8 \<Rightarrow> rstring" where
  "hex4 v = (let n = unat v * 256 + unat v
             in map hex_char [n div 4096 mod 16, n div 256 mod 16, n div 16 mod 16, n mod 16])"

definition format_color_response :: "u8 \<Rightarrow> u8 \<Rightarrow> u8 \<Rightarrow> rstring" where
  "format_color_response r g b = [0x72, 0x67, 0x62, 0x3A] @ hex4 r @ [0x2F] @ hex4 g @ [0x2F] @ hex4 b"

subsection \<open>Round trip\<close>

lemma hex_char_digit: "d < 16 \<Longrightarrow> hex_digit (hex_char d) = Some d"
  by (auto simp: hex_digit_def hex_char_def in_range_unat)

lemma hex_char_ascii: "d < 16 \<Longrightarrow> 0x30 \<le> unat (hex_char d) \<and> unat (hex_char d) \<le> 0x66"
  by (auto simp: hex_char_def)

lemma hex_char_ne:
  assumes "d < 16"
  shows "hex_char d \<noteq> 0x2F" "hex_char d \<noteq> 0x2B"
  using hex_char_ascii [OF assms] by auto

lemma hex4_sum:
  assumes "n < 65536"
  shows "((n div 4096 mod 16 * 16 + n div 256 mod 16) * 16 + n div 16 mod 16) * 16 + n mod 16 = (n :: nat)"
proof -
  define a b d where "a = n div 16" and "b = a div 16" and "d = b div 16"
  have q: "n div 256 = b" "n div 4096 = d" by (simp_all add: a_def b_def d_def div_mult2_eq [symmetric])
  have "d < 16" using assms q(2) by (simp add: less_mult_imp_div_less flip: q(2))
  then have "d mod 16 = d" by simp
  moreover have "n = 16 * a + n mod 16" "a = 16 * b + a mod 16" "b = 16 * d + b mod 16"
    by (simp_all add: a_def b_def d_def)
  ultimately show ?thesis unfolding q a_def [symmetric] by (metis mult.commute)
qed

lemma hex4_length [simp]: "length (hex4 v) = 4"
  by (simp add: hex4_def Let_def)

lemma hex4_value:
  assumes "U16_MAX \<le> m"
  shows "from_hex m (hex4 v) = Some (unat v * 256 + unat v)"
proof -
  let ?n = "unat v * 256 + unat v"
  have v: "unat v < 256" by (rule u8_cases_lt)
  have digits: "hex_value 0 (hex4 v) = Some (((?n div 4096 mod 16 * 16 + ?n div 256 mod 16) * 16 + ?n div 16 mod 16) * 16 + ?n mod 16)"
    by (simp add: hex4_def Let_def hex_char_digit mult.commute [of 16])
  have sum: "((?n div 4096 mod 16 * 16 + ?n div 256 mod 16) * 16 + ?n div 16 mod 16) * 16 + ?n mod 16 = ?n"
    by (rule hex4_sum) (use v in simp)
  have val: "hex_value 0 (hex4 v) = Some ?n" by (simp only: digits sum)
  have "?n \<le> m" using v assms by (simp add: U16_MAX_def)
  moreover have "hd (hex4 v) \<noteq> 0x2B" using hex_char_ne(2) by (simp add: hex4_def Let_def)
  ultimately show ?thesis
    using val v by (simp add: from_hex_def hex4_def Let_def)
qed

lemma high_byte: "as_u8 (257 * unat v div 256) = v"
proof -
  have "257 * unat v div 256 = unat v" using u8_cases_lt [of v] by linarith
  then show ?thesis by simp
qed

lemma hex4_component: "parse_component (hex4 v) = Some v"
  by (simp add: parse_component_def hex4_value high_byte)

lemma split_no_sep: "sep \<notin> set p \<Longrightarrow> split_bytes sep (p @ sep # q) = p # split_bytes sep q"
  by (induction p) (auto split: list.split)

lemma split_last: "sep \<notin> set p \<Longrightarrow> split_bytes sep p = [p]"
  by (induction p) (auto split: list.split)

lemma hex4_no_slash: "0x2F \<notin> set (hex4 v)"
  using hex_char_ne(1) by (auto simp: hex4_def Let_def)

end
