(* ===== verification/Theme.thy ===== *)
theory Theme
  imports ColorSpec
begin

text \<open>
  \<open>src-tauri/src/render/theme.rs\<close>: the colours of a terminal tab.  A colour scheme seeds the
  theme, the OSC colour controls override it, answer queries and reset it to the scheme.
  The font fields, which no operation of this file reads, are left out.
\<close>

type_synonym rgb = "u8 \<times> u8 \<times> u8"

datatype theme_cursor_style = ThemeBlock | ThemeUnderline | ThemeBar

record theme =
  th_fg :: rgb
  th_scheme_fg :: rgb
  th_bg :: rgb
  th_scheme_bg :: rgb
  th_cursor_fg :: rgb
  th_scheme_cursor_fg :: rgb
  th_cursor_fg_override_active :: bool
  th_palette16 :: "rgb list"
  th_scheme_palette16 :: "rgb list"
  th_palette256 :: "rgb option list"
  th_cursor_style :: theme_cursor_style
  th_bold_brightens_ansi_colors :: bool

definition DEFAULT_PALETTE16 :: "rgb list" where
  "DEFAULT_PALETTE16 =
     [(0x00, 0x00, 0x00), (0xff, 0x00, 0x00), (0x00, 0xdd, 0x00), (0xee, 0xee, 0x00),
      (0x40, 0x40, 0xff), (0xff, 0x00, 0xff), (0x00, 0xdd, 0xdd), (0xde, 0xda, 0xcf),
      (0x55, 0x55, 0x55), (0xff, 0x60, 0x60), (0x60, 0xff, 0x60), (0xff, 0xff, 0x60),
      (0x60, 0x60, 0xff), (0xff, 0x60, 0xff), (0x60, 0xff, 0xff), (0xff, 0xff, 0xff)]"

definition DEFAULT_TERMINAL_FG :: rgb where "DEFAULT_TERMINAL_FG = (0x40, 0xff, 0x40)"
definition DEFAULT_TERMINAL_BG :: rgb where "DEFAULT_TERMINAL_BG = (0x00, 0x00, 0x00)"
definition DEFAULT_TERMINAL_CURSOR_FG :: rgb where "DEFAULT_TERMINAL_CURSOR_FG = (0x00, 0x80, 0x00)"

definition theme_default :: theme where
  "theme_default =
     \<lparr>th_fg = DEFAULT_TERMINAL_FG, th_scheme_fg = DEFAULT_TERMINAL_FG,
      th_bg = DEFAULT_TERMINAL_BG, th_scheme_bg = DEFAULT_TERMINAL_BG,
      th_cursor_fg = DEFAULT_TERMINAL_CURSOR_FG, th_scheme_cursor_fg = DEFAULT_TERMINAL_CURSOR_FG,
      th_cursor_fg_override_active = False,
      th_palette16 = DEFAULT_PALETTE16, th_scheme_palette16 = DEFAULT_PALETTE16,
      th_palette256 = replicate 256 None, th_cursor_style = ThemeBlock,
      th_bold_brightens_ansi_colors = True\<rparr>"

subsection \<open>Parsing a colour\<close>

definition theme_component :: "rstring \<Rightarrow> u8 option" where
  "theme_component s =
     (if s = [] then None
      else case from_hex U32_MAX s of
        None \<Rightarrow> None
      | Some val \<Rightarrow>
          if length s = 1 then Some (as_u8 (val * 17))
          else if length s = 2 then Some (as_u8 val)
          else if length s = 3 then Some (as_u8 (val div 16))
          else if length s = 4 then Some (as_u8 (val div 256)) else None)"

definition theme_rgb_colon :: "rstring \<Rightarrow> rgb option" where
  "theme_rgb_colon s =
     (case split_bytes 0x2F s of
        [p0, p1, p2] \<Rightarrow>
          (case theme_component p0 of None \<Rightarrow> None
           | Some r \<Rightarrow> (case theme_component p1 of None \<Rightarrow> None
               | Some g \<Rightarrow> (case theme_component p2 of None \<Rightarrow> None | Some b \<Rightarrow> Some (r, g, b))))
      | _ \<Rightarrow> None)"

definition theme_hash :: "rstring \<Rightarrow> rgb option outcome" where
  "theme_hash s =
     (if length s = 3 then hash_color (\<lambda>r g b. (r, g, b)) s 1
      else if length s = 6 then hash_color (\<lambda>r g b. (r, g, b)) s 2
      else if length s = 12 then hash_color (\<lambda>r g b. (r, g, b)) s 4
      else Done None)"

definition theme_color_spec :: "rstring \<Rightarrow> rgb option outcome" where
  "theme_color_spec spec =
     (let spec = trim_str spec in
      case strip_prefix [0x72, 0x67, 0x62, 0x3A] spec of
        Some rest \<Rightarrow> Done (theme_rgb_colon rest)
      | None \<Rightarrow>
          (case strip_prefix [0x23] spec of Some rest \<Rightarrow> theme_hash rest | None \<Rightarrow> Done None))"

definition xterm_256_color :: "nat \<Rightarrow> rgb" where
  "xterm_256_color index =
     (if 232 \<le> index
      then let level = as_u8 (8 + (index - 232) * 10) in (level, level, level)
      else let n = index - 16; r = n div 36; g = n div 6 mod 6; b = n mod 6;
               component = (\<lambda>level. if level = 0 then 0 else as_u8 (55 + level * 40))
           in (component r, component g, component b))"

subsection \<open>OSC controls\<close>

record osc_outcome =
  oo_changed :: bool
  oo_responses :: "u8 list list"

definition osc_outcome_default :: osc_outcome where
  "osc_outcome_default = \<lparr>oo_changed = False, oo_responses = []\<rparr>"

definition format_osc_color_response ::
  "nat \<Rightarrow> nat option \<Rightarrow> rgb \<Rightarrow> osc_terminator \<Rightarrow> u8 list option" where
  "format_osc_color_response code index c terminator =
     (case (case terminator of Bel \<Rightarrow> Some [0x07] | St \<Rightarrow> Some [0x1B, 0x5C] | Unterminated \<Rightarrow> None) of
        None \<Rightarrow> None
      | Some terminator_bytes \<Rightarrow>
          (let (r, g, b) = c in
           Some ([0x1B, 0x5D] @ decimal code @ (case index of Some i \<Rightarrow> [0x3B] @ decimal i | None \<Rightarrow> []) @
                 [0x3B] @ format_color_response r g b @ terminator_bytes)))"

definition push_response :: "osc_outcome \<Rightarrow> u8 list option \<Rightarrow> osc_outcome" where
  "push_response out resp =
     (case resp of Some r \<Rightarrow> out\<lparr>oo_responses := oo_responses out @ [r]\<rparr> | None \<Rightarrow> out)"

definition MAX_PALETTE_QUERY_RESPONSES_PER_DISPATCH :: nat where
  "MAX_PALETTE_QUERY_RESPONSES_PER_DISPATCH = 256"

definition restore_cursor_fg_on_full_reset :: "theme \<Rightarrow> theme \<times> bool" where
  "restore_cursor_fg_on_full_reset t =
     (if th_cursor_fg_override_active t
      then (t\<lparr>th_cursor_fg := th_scheme_cursor_fg t, th_cursor_fg_override_active := False\<rparr>, True)
      else (t, False))"

definition resolve_palette_color :: "theme \<Rightarrow> nat \<Rightarrow> rgb" where
  "resolve_palette_color t index =
     (case th_palette256 t ! index of
        Some c \<Rightarrow> c
      | None \<Rightarrow> if index < 16 then th_palette16 t ! index else xterm_256_color index)"

definition set_palette_entry :: "theme \<Rightarrow> nat \<Rightarrow> rgb \<Rightarrow> theme" where
  "set_palette_entry t index c =
     (let t = t\<lparr>th_palette256 := (th_palette256 t)[index := Some c]\<rparr>
      in if index < 16 then t\<lparr>th_palette16 := (th_palette16 t)[index := c]\<rparr> else t)"

fun palette_set_loop ::
  "osc_terminator \<Rightarrow> theme \<Rightarrow> osc_outcome \<Rightarrow> rstring list \<Rightarrow> (theme \<times> osc_outcome) outcome" where
  "palette_set_loop te t out (index_str # spec_str # tokens) =
     (case from_decimal USIZE_MAX (trim_str index_str) of
        None \<Rightarrow> palette_set_loop te t out tokens
      | Some index \<Rightarrow>
          if 256 \<le> index then palette_set_loop te t out tokens
          else if trim_str spec_str = [0x3F]
          then if MAX_PALETTE_QUERY_RESPONSES_PER_DISPATCH \<le> length (oo_responses out)
               then palette_set_loop te t out tokens
               else palette_set_loop te t
                      (push_response out (format_osc_color_response 4 (Some index) (resolve_palette_color t index) te))
                      tokens
          else and_then (theme_color_spec spec_str) (\<lambda>spec.
                 case spec of
                   Some c \<Rightarrow> palette_set_loop te (set_palette_entry t index c) (out\<lparr>oo_changed := True\<rparr>) tokens
                 | None \<Rightarrow> palette_set_loop te t out tokens))"
| "palette_set_loop te t out tokens = Done (t, out)"

definition apply_palette_set :: "theme \<Rightarrow> rstring \<Rightarrow> osc_terminator \<Rightarrow> (theme \<times> osc_outcome) outcome" where
  "apply_palette_set t data te = palette_set_loop te t osc_outcome_default (split_bytes 0x3B data)"

definition default_color :: "theme \<Rightarrow> nat \<Rightarrow> rgb option" where
  "default_color t target =
     (if target = 10 then Some (th_fg t) else if target = 11 then Some (th_bg t)
      else if target = 12 then Some (th_cursor_fg t) else None)"

definition set_default_color :: "theme \<Rightarrow> nat \<Rightarrow> rgb \<Rightarrow> theme" where
  "set_default_color t target c =
     (if target = 10 then t\<lparr>th_fg := c\<rparr> else if target = 11 then t\<lparr>th_bg := c\<rparr>
      else if target = 12 then t\<lparr>th_cursor_fg := c, th_cursor_fg_override_active := True\<rparr> else t)"

text \<open>The loop leaves at the first target above 12, so \<open>osc_num + offset\<close> never wraps.\<close>

fun default_color_loop ::
  "osc_terminator \<Rightarrow> nat \<Rightarrow> theme \<Rightarrow> osc_outcome \<Rightarrow> rstring list \<Rightarrow> (theme \<times> osc_outcome) outcome" where
  "default_color_loop te target t out [] = Done (t, out)"
| "default_color_loop te target t out (spec # specs) =
     (if 12 < target then Done (t, out)
      else if trim_str spec = [0x3F]
      then default_color_loop te (target + 1) t
             (case default_color t target of
                Some c \<Rightarrow> push_response out (format_osc_color_response target None c te)
              | None \<Rightarrow> out) specs
      else if trim_str spec = [] then default_color_loop te (target + 1) t out specs
      else and_then (theme_color_spec spec) (\<lambda>parsed.
             case parsed of
               Some c \<Rightarrow> default_color_loop te (target + 1) (set_default_color t target c)
                          (if default_color t target \<noteq> None then out\<lparr>oo_changed := True\<rparr> else out) specs
             | None \<Rightarrow> default_color_loop te (target + 1) t out specs))"

definition apply_default_color_set ::
  "theme \<Rightarrow> nat \<Rightarrow> rstring \<Rightarrow> osc_terminator \<Rightarrow> (theme \<times> osc_outcome) outcome" where
  "apply_default_color_set t osc_num data te =
     default_color_loop te osc_num t osc_outcome_default (split_bytes 0x3B data)"

definition apply_cursor_style :: "theme \<Rightarrow> rstring \<Rightarrow> theme \<times> bool" where
  "apply_cursor_style t data =
     (let trimmed = dropWhile (\<lambda>b. b = 0x3C) (dropWhile (\<lambda>b. b = 0x3E) (trim_str data));
          new_style =
            (if trimmed \<in> {[], map of_char ''default'', map of_char ''block''} then Some ThemeBlock
             else if trimmed = map of_char ''underline'' then Some ThemeUnderline
             else if trimmed \<in> {map of_char ''bar'', map of_char ''vertical-text''} then Some ThemeBar
             else None)
      in case new_style of
           None \<Rightarrow> (t, False)
         | Some s \<Rightarrow> if th_cursor_style t \<noteq> s then (t\<lparr>th_cursor_style := s\<rparr>, True) else (t, False))"

definition palette_reset_entry :: "theme \<times> bool \<Rightarrow> rstring \<Rightarrow> theme \<times> bool" where
  "palette_reset_entry tc part =
     (let (t, changed) = tc in
      case from_decimal USIZE_MAX (trim_str part) of
        None \<Rightarrow> (t, changed)
      | Some index \<Rightarrow>
          if 256 \<le> index then (t, changed)
          else let (t, changed) =
                     (if th_palette256 t ! index \<noteq> None
                      then (t\<lparr>th_palette256 := (th_palette256 t)[index := None]\<rparr>, True) else (t, changed))
               in if index < 16 \<and> th_palette16 t ! index \<noteq> th_scheme_palette16 t ! index
                  then (t\<lparr>th_palette16 := (th_palette16 t)[index := th_scheme_palette16 t ! index]\<rparr>, True)
                  else (t, changed))"

definition apply_palette_reset :: "theme \<Rightarrow> rstring \<Rightarrow> theme \<times> bool" where
  "apply_palette_reset t data =
     (let trimmed = trim_str data in
      if trimmed = []
      then let overlay_changed = (\<exists>e\<in>set (th_palette256 t). e \<noteq> None);
               array_changed = (th_palette16 t \<noteq> th_scheme_palette16 t)
           in (t\<lparr>th_palette256 := replicate 256 None, th_palette16 := th_scheme_palette16 t\<rparr>,
               overlay_changed \<or> array_changed)
      else foldl palette_reset_entry (t, False) (split_bytes 0x3B trimmed))"

definition apply_osc :: "theme \<Rightarrow> nat \<Rightarrow> rstring \<Rightarrow> osc_terminator \<Rightarrow> (theme \<times> osc_outcome) outcome" where
  "apply_osc t action_type data te =
     (let answer = (\<lambda>(t, c). Done (t, \<lparr>oo_changed = c, oo_responses = []\<rparr>)) in
      if action_type = 4 then apply_palette_set t data te
      else if action_type \<in> {10, 11, 12} then apply_default_color_set t action_type data te
      else if action_type = 22 then answer (apply_cursor_style t data)
      else if action_type = 104 then answer (apply_palette_reset t data)
      else if action_type = 110 then answer (t\<lparr>th_fg := th_scheme_fg t\<rparr>, True)
      else if action_type = 111 then answer (t\<lparr>th_bg := th_scheme_bg t\<rparr>, True)
      else if action_type = 112
      then answer (t\<lparr>th_cursor_fg := th_scheme_cursor_fg t, th_cursor_fg_override_active := False\<rparr>, True)
      else Done (t, osc_outcome_default))"

subsection \<open>Colour schemes\<close>

record color_scheme_preset =
  cs_name :: rstring
  cs_fg :: rgb
  cs_bg :: rgb
  cs_cursor :: rgb
  cs_palette16 :: "rgb list"

definition COLOR_SCHEME_PRESETS :: "color_scheme_preset list" where
  "COLOR_SCHEME_PRESETS =
   [\<lparr>cs_name = map of_char ''emterm'', cs_fg = DEFAULT_TERMINAL_FG, cs_bg = DEFAULT_TERMINAL_BG, cs_cursor = DEFAULT_TERMINAL_CURSOR_FG,
      cs_palette16 =
       DEFAULT_PALETTE16\<rparr>,
    \<lparr>cs_name = map of_char ''solarized-dark'', cs_fg = (0x83, 0x94, 0x96), cs_bg = (0x00, 0x2b, 0x36), cs_cursor = (0x83, 0x94, 0x96),
      cs_palette16 =
       [(0x07, 0x36, 0x42), (0xdc, 0x32, 0x2f), (0x85, 0x99, 0x00), (0xb5, 0x89, 0x00),
        (0x26, 0x8b, 0xd2), (0xd3, 0x36, 0x82), (0x2a, 0xa1, 0x98), (0xee, 0xe8, 0xd5),
        (0x00, 0x2b, 0x36), (0xcb, 0x4b, 0x16), (0x58, 0x6e, 0x75), (0x65, 0x7b, 0x83),
        (0x83, 0x94, 0x96), (0x6c, 0x71, 0xc4), (0x93, 0xa1, 0xa1), (0xfd, 0xf6, 0xe3)]\<rparr>,
    \<lparr>cs_name = map of_char ''solarized-light'', cs_fg = (0x65, 0x7b, 0x83), cs_bg = (0xfd, 0xf6, 0xe3), cs_cursor = (0x65, 0x7b, 0x83),
      cs_palette16 =
       [(0x07, 0x36, 0x42), (0xdc, 0x32, 0x2f), (0x85, 0x99, 0x00), (0xb5, 0x89, 0x00),
        (0x26, 0x8b, 0xd2), (0xd3, 0x36, 0x82), (0x2a, 0xa1, 0x98), (0xee, 0xe8, 0xd5),
        (0x00, 0x2b, 0x36), (0xcb, 0x4b, 0x16), (0x58, 0x6e, 0x75), (0x65, 0x7b, 0x83),
        (0x83, 0x94, 0x96), (0x6c, 0x71, 0xc4), (0x93, 0xa1, 0xa1), (0xfd, 0xf6, 0xe3)]\<rparr>,
    \<lparr>cs_name = map of_char ''monokai'', cs_fg = (0xf8, 0xf8, 0xf2), cs_bg = (0x27, 0x28, 0x22), cs_cursor = (0xf8, 0xf8, 0xf0),
      cs_palette16 =
       [(0x27, 0x28, 0x22), (0xf9, 0x26, 0x72), (0xa6, 0xe2, 0x2e), (0xf4, 0xbf, 0x75),
        (0x66, 0xd9, 0xef), (0xae, 0x81, 0xff), (0xa1, 0xef, 0xe4), (0xf8, 0xf8, 0xf2),
        (0x75, 0x71, 0x5e), (0xf9, 0x26, 0x72), (0xa6, 0xe2, 0x2e), (0xf4, 0xbf, 0x75),
        (0x66, 0xd9, 0xef), (0xae, 0x81, 0xff), (0xa1, 0xef, 0xe4), (0xf9, 0xf8, 0xf5)]\<rparr>,
    \<lparr>cs_name = map of_char ''dracula'', cs_fg = (0xf8, 0xf8, 0xf2), cs_bg = (0x28, 0x2a, 0x36), cs_cursor = (0xf8, 0xf8, 0xf2),
      cs_palette16 =
       [(0x21, 0x22, 0x2c), (0xff, 0x55, 0x55), (0x50, 0xfa, 0x7b), (0xf1, 0xfa, 0x8c),
        (0xbd, 0x93, 0xf9), (0xff, 0x79, 0xc6), (0x8b, 0xe9, 0xfd), (0xf8, 0xf8, 0xf2),
        (0x6c, 0x71, 0xc4), (0xff, 0x66, 0x66), (0x69, 0xff, 0x94), (0xff, 0xff, 0xb6),
        (0xd6, 0xac, 0xff), (0xff, 0x92, 0xdf), (0xa4, 0xff, 0xff), (0xff, 0xff, 0xff)]\<rparr>,
    \<lparr>cs_name = map of_char ''nord'', cs_fg = (0xd8, 0xde, 0xe9), cs_bg = (0x2e, 0x34, 0x40), cs_cursor = (0xd8, 0xde, 0xe9),
      cs_palette16 =
       [(0x3b, 0x42, 0x52), (0xbf, 0x61, 0x6a), (0xa3, 0xbe, 0x8c), (0xeb, 0xcb, 0x8b),
        (0x81, 0xa1, 0xc1), (0xb4, 0x8e, 0xad), (0x88, 0xc0, 0xd0), (0xe5, 0xe9, 0xf0),
        (0x4c, 0x56, 0x6a), (0xbf, 0x61, 0x6a), (0xa3, 0xbe, 0x8c), (0xeb, 0xcb, 0x8b),
        (0x81, 0xa1, 0xc1), (0xb4, 0x8e, 0xad), (0x8f, 0xbc, 0xbb), (0xec, 0xef, 0xf4)]\<rparr>]"

record user_color_scheme =
  uc_name :: rstring
  uc_foreground :: rstring
  uc_background :: rstring
  uc_cursor :: rstring
  uc_selection :: rstring
  uc_ansi_colors :: "rstring list"

record theme_settings =
  ts_cursor_style :: theme_cursor_style
  ts_bold_brightens_ansi_colors :: bool
  ts_terminal_color_scheme :: rstring
  ts_custom_color_schemes :: "user_color_scheme list"

text \<open>One field of a user scheme: a specification that does not parse keeps the theme.\<close>

definition with_spec :: "rstring \<Rightarrow> (rgb \<Rightarrow> theme) \<Rightarrow> theme \<Rightarrow> theme outcome" where
  "with_spec spec f t = and_then (theme_color_spec spec) (\<lambda>c. Done (case c of Some c \<Rightarrow> f c | None \<Rightarrow> t))"

fun user_palette_loop :: "nat \<Rightarrow> theme \<Rightarrow> rstring list \<Rightarrow> theme outcome" where
  "user_palette_loop i t [] = Done t"
| "user_palette_loop i t (spec # specs) =
     and_then (with_spec spec (\<lambda>c. t\<lparr>th_palette16 := (th_palette16 t)[i := c],
                                      th_scheme_palette16 := (th_scheme_palette16 t)[i := c]\<rparr>) t)
       (\<lambda>t. user_palette_loop (i + 1) t specs)"

definition apply_user_scheme :: "theme \<Rightarrow> user_color_scheme \<Rightarrow> theme outcome" where
  "apply_user_scheme t user =
     and_then (with_spec (uc_foreground user) (\<lambda>c. t\<lparr>th_fg := c, th_scheme_fg := c\<rparr>) t) (\<lambda>t.
     and_then (with_spec (uc_background user) (\<lambda>c. t\<lparr>th_bg := c, th_scheme_bg := c\<rparr>) t) (\<lambda>t.
     and_then (with_spec (uc_cursor user) (\<lambda>c. t\<lparr>th_cursor_fg := c, th_scheme_cursor_fg := c\<rparr>) t) (\<lambda>t.
       user_palette_loop 0 t (take 16 (uc_ansi_colors user)))))"

definition apply_color_scheme :: "theme \<Rightarrow> theme_settings \<Rightarrow> theme outcome" where
  "apply_color_scheme t settings =
     (let name = trim_str (ts_terminal_color_scheme settings) in
      if name = [] then Done t
      else case find (\<lambda>s. uc_name s = name) (ts_custom_color_schemes settings) of
        Some user \<Rightarrow> apply_user_scheme t user
      | None \<Rightarrow>
          (case find (\<lambda>p. cs_name p = name) COLOR_SCHEME_PRESETS of
             Some p \<Rightarrow> Done (t\<lparr>th_fg := cs_fg p, th_scheme_fg := cs_fg p, th_bg := cs_bg p, th_scheme_bg := cs_bg p,
                               th_cursor_fg := cs_cursor p, th_scheme_cursor_fg := cs_cursor p,
                               th_palette16 := cs_palette16 p, th_scheme_palette16 := cs_palette16 p\<rparr>)
           | None \<Rightarrow> Done t))"

definition theme_from_settings :: "theme_settings \<Rightarrow> theme outcome" where
  "theme_from_settings settings =
     apply_color_scheme
       (theme_default\<lparr>th_cursor_style := ts_cursor_style settings,
                       th_bold_brightens_ansi_colors := ts_bold_brightens_ansi_colors settings\<rparr>)
       settings"

end
