(* ===== verification/ThemeFacts.thy ===== *)
theory ThemeFacts
  imports Theme
begin

text \<open>
  Facts on the OSC colour controls: a colour that was set is the one a query reports, a reset
  brings back the active scheme, and a hash specification cut inside a character panics.
\<close>

subsection \<open>Text without spaces\<close>

definition plain :: "u8 \<Rightarrow> bool" where
  "plain b \<longleftrightarrow> 0x21 \<le> unat b \<and> unat b < 0x80"

lemma utf8_encode_plain: "plain b \<Longrightarrow> utf8_encode (unat b) = [b]"
  by (simp add: plain_def utf8_encode_def)

lemma utf8_chars_plain: "(\<And>b. b \<in> set s \<Longrightarrow> plain b) \<Longrightarrow> utf8_chars s = map unat s"
proof (induction s)
  case (Cons b s)
  have b: "plain b" by (rule Cons.prems) simp
  have "utf8_chars (utf8_encode (unat b) @ s) = unat b # utf8_chars s"
    by (rule utf8_chars_encode_append) (use b in \<open>simp add: plain_def is_scalar_def\<close>)
  with Cons b show ?case by (simp add: utf8_encode_plain)
qed simp

lemma trim_plain:
  assumes "\<And>b. b \<in> set s \<Longrightarrow> plain b"
  shows "trim_str s = s"
proof -
  have nw: "\<not> is_whitespace (unat b)" if "b \<in> set s" for b
    using assms [OF that] by (auto simp: plain_def is_whitespace_def)
  have keep: "dropWhile is_whitespace xs = xs" if "\<And>x. x \<in> set xs \<Longrightarrow> \<not> is_whitespace x" for xs
    using that by (cases xs) auto
  have "concat (map (\<lambda>b. utf8_encode (unat b)) s) = s"
    using assms by (induction s) (auto simp: utf8_encode_plain)
  moreover have "dropWhile is_whitespace (rev (map unat s)) = rev (map unat s)"
    by (rule keep) (auto dest: nw)
  moreover have "dropWhile is_whitespace (map unat s) = map unat s"
    by (rule keep) (auto dest: nw)
  ultimately show ?thesis
    by (simp add: trim_str_def utf8_chars_plain [OF assms] comp_def)
qed

lemma plain_digit: "is_digit b \<Longrightarrow> plain b"
  by (auto simp: is_digit_def in_range_unat plain_def)

lemma plain_decimal: "b \<in> set (decimal n) \<Longrightarrow> plain b"
  by (rule plain_digit) (rule decimal_digits)

lemma plain_hex_char: "d < 16 \<Longrightarrow> plain (hex_char d)"
  using hex_char_ascii [of d] by (simp add: plain_def)

lemma plain_hex4: "b \<in> set (hex4 v) \<Longrightarrow> plain b"
  using plain_hex_char by (auto simp: hex4_def Let_def)

lemma plain_response: "b \<in> set (format_color_response r g bl) \<Longrightarrow> plain b"
  by (auto simp: format_color_response_def plain_hex4) (simp_all add: plain_def)

lemma hex_char_no_semi: "d < 16 \<Longrightarrow> hex_char d \<noteq> 0x3B"
  by (auto simp: hex_char_def u8_eq_unat)

lemma response_no_semi: "0x3B \<notin> set (format_color_response r g b)"
  using hex_char_no_semi by (auto simp: format_color_response_def hex4_def Let_def)

lemma decimal_no_semi: "0x3B \<notin> set (decimal n)"
  using decimal_digits [of "0x3B" n] by (auto simp: is_digit_def in_range_def)

subsection \<open>Numbers and colours are read back\<close>

lemma parse_usize_decimal: "n \<le> USIZE_MAX \<Longrightarrow> from_decimal USIZE_MAX (trim_str (decimal n)) = Some n"
  by (simp add: trim_plain plain_decimal from_decimal_decimal)

lemma theme_component_hex4: "theme_component (hex4 v) = Some v"
proof -
  have "hex4 v \<noteq> []" by (simp add: hex4_def Let_def)
  then show ?thesis
    by (simp add: theme_component_def hex4_value U16_MAX_def U32_MAX_def high_byte)
qed

lemma theme_spec_response: "theme_color_spec (format_color_response r g b) = Done (Some (r, g, b))"
proof -
  have "trim_str (format_color_response r g b) = format_color_response r g b"
    by (rule trim_plain) (rule plain_response)
  moreover have "theme_rgb_colon (hex4 r @ 0x2F # hex4 g @ 0x2F # hex4 b) = Some (r, g, b)"
    by (simp add: theme_rgb_colon_def split_no_sep split_last hex4_no_slash theme_component_hex4)
  ultimately show ?thesis
    by (simp add: theme_color_spec_def format_color_response_def Let_def)
qed

lemma response_not_query:
  "trim_str (format_color_response r g b) \<noteq> [0x3F]" "trim_str (format_color_response r g b) \<noteq> []"
  by (simp_all add: trim_plain plain_response) (simp_all add: format_color_response_def)

lemma trim_query: "trim_str [0x3F] = [0x3F]"
  by (rule trim_plain) (simp add: plain_def)

subsection \<open>Shape of the theme\<close>

definition theme_ok :: "theme \<Rightarrow> bool" where
  "theme_ok t \<longleftrightarrow> length (th_palette16 t) = 16 \<and> length (th_scheme_palette16 t) = 16 \<and> length (th_palette256 t) = 256"

text \<open>The scheme part of a theme, which the OSC controls only read.\<close>

definition same_scheme :: "theme \<Rightarrow> theme \<Rightarrow> bool" where
  "same_scheme t u \<longleftrightarrow>
     theme_ok u \<and> th_scheme_fg u = th_scheme_fg t \<and> th_scheme_bg u = th_scheme_bg t
     \<and> th_scheme_cursor_fg u = th_scheme_cursor_fg t \<and> th_scheme_palette16 u = th_scheme_palette16 t
     \<and> th_bold_brightens_ansi_colors u = th_bold_brightens_ansi_colors t"

lemma same_scheme_refl [simp]: "theme_ok t \<Longrightarrow> same_scheme t t"
  by (simp add: same_scheme_def)

lemma same_scheme_trans: "same_scheme t u \<Longrightarrow> same_scheme u v \<Longrightarrow> same_scheme t v"
  by (simp add: same_scheme_def)

lemma same_scheme_ok: "same_scheme t u \<Longrightarrow> theme_ok u"
  by (simp add: same_scheme_def)

lemma set_palette_entry_scheme [simp]: "same_scheme t (set_palette_entry u i c) = same_scheme t u"
  by (simp add: same_scheme_def theme_ok_def set_palette_entry_def Let_def)

lemma set_default_color_scheme [simp]: "same_scheme t (set_default_color u n c) = same_scheme t u"
  by (simp add: same_scheme_def theme_ok_def set_default_color_def)

text \<open>What the walk over the palette pairs keeps: the scheme, and the answer budget.\<close>

lemma push_response_budget:
  "length (oo_responses out) < n \<Longrightarrow> length (oo_responses (push_response out resp)) \<le> n"
  by (simp add: push_response_def split: option.split)

lemma palette_set_loop_keeps:
  "palette_set_loop te t out ts = Done (u, out') \<Longrightarrow> same_scheme t0 t \<Longrightarrow>
     length (oo_responses out) \<le> 256 \<Longrightarrow> same_scheme t0 u \<and> length (oo_responses out') \<le> 256"
proof (induction te t out ts rule: palette_set_loop.induct)
  case (1 te t out index_str spec_str tokens)
  then show ?case
    by (auto simp: and_then_Done push_response_budget MAX_PALETTE_QUERY_RESPONSES_PER_DISPATCH_def
        split: option.splits if_splits)
qed auto

lemma default_color_loop_keeps:
  "default_color_loop te n t out specs = Done (u, out') \<Longrightarrow> same_scheme t0 t \<Longrightarrow>
     length (oo_responses out) + (13 - n) \<le> k \<Longrightarrow> same_scheme t0 u \<and> length (oo_responses out') \<le> k"
proof (induction specs arbitrary: n t out)
  case (Cons spec specs)
  have pushed: "length (oo_responses (push_response out resp)) + (12 - n) \<le> k" if "n \<le> 12" for resp
    using that Cons.prems(3) by (cases resp) (simp_all add: push_response_def)
  show ?case
    using Cons.prems Cons.IH [of "n + 1"] pushed
    by (auto simp: and_then_Done split: option.splits if_splits)
qed auto

lemma palette_reset_entry_scheme:
  assumes "same_scheme t0 t"
  shows "same_scheme t0 (fst (palette_reset_entry (t, c) part))"
  using assms by (auto simp: same_scheme_def theme_ok_def palette_reset_entry_def Let_def split: option.split prod.split)

lemma palette_reset_fold_scheme:
  "same_scheme t0 (fst tc) \<Longrightarrow> same_scheme t0 (fst (foldl palette_reset_entry tc parts))"
proof (induction parts arbitrary: tc)
  case (Cons p parts)
  then show ?case using palette_reset_entry_scheme [of t0 "fst tc" "snd tc" p] by simp
qed simp

lemma apply_palette_reset_scheme:
  assumes "same_scheme t0 t"
  shows "same_scheme t0 (fst (apply_palette_reset t data))"
proof (cases "trim_str data = []")
  case True
  with assms show ?thesis by (auto simp: apply_palette_reset_def Let_def same_scheme_def theme_ok_def)
next
  case False
  with assms palette_reset_fold_scheme [of t0 "(t, False)"] show ?thesis
    by (simp add: apply_palette_reset_def Let_def)
qed

lemma apply_cursor_style_scheme:
  "same_scheme t0 t \<Longrightarrow> same_scheme t0 (fst (apply_cursor_style t data))"
  by (auto simp: apply_cursor_style_def Let_def same_scheme_def theme_ok_def split: option.split)

lemma apply_osc_keeps:
  assumes "apply_osc t n data te = Done (u, out)" "same_scheme t0 t"
  shows "same_scheme t0 u \<and> length (oo_responses out) \<le> 256"
proof -
  consider "n = 4" | "n \<in> {10, 11, 12}" | "n \<notin> {4, 10, 11, 12}" by auto
  then show ?thesis
  proof cases
    case 1
    with assms palette_set_loop_keeps show ?thesis
      by (fastforce simp: apply_osc_def apply_palette_set_def osc_outcome_default_def)
  next
    case 2
    then have "default_color_loop te n t osc_outcome_default (split_bytes 0x3B data) = Done (u, out)"
      using assms(1) by (auto simp: apply_osc_def apply_default_color_set_def)
    from default_color_loop_keeps [OF this assms(2), of 256] show ?thesis
      by (simp add: osc_outcome_default_def)
  next
    case 3
    have fields: "same_scheme t0 (t\<lparr>th_fg := th_scheme_fg t\<rparr>)" "same_scheme t0 (t\<lparr>th_bg := th_scheme_bg t\<rparr>)"
      "same_scheme t0 (t\<lparr>th_cursor_fg := th_scheme_cursor_fg t, th_cursor_fg_override_active := False\<rparr>)"
      using assms(2) by (auto simp: same_scheme_def theme_ok_def)
    show ?thesis
      using 3 assms fields apply_palette_reset_scheme [OF assms(2), of data]
        apply_cursor_style_scheme [OF assms(2), of data]
      by (auto simp: apply_osc_def osc_outcome_default_def Let_def case_prod_beta split: if_splits)
  qed
qed

subsection \<open>Sequences of controls\<close>

fun run_osc :: "theme \<Rightarrow> (nat \<times> rstring \<times> osc_terminator) list \<Rightarrow> theme outcome" where
  "run_osc t [] = Done t"
| "run_osc t ((n, data, te) # ops) = and_then (apply_osc t n data te) (\<lambda>(t, _). run_osc t ops)"

lemma run_osc_scheme: "run_osc t ops = Done u \<Longrightarrow> same_scheme t0 t \<Longrightarrow> same_scheme t0 u"
proof (induction t ops rule: run_osc.induct)
  case (2 t n data te ops)
  then show ?case by (auto simp: and_then_Done split: prod.splits dest: apply_osc_keeps)
qed auto

lemma run_osc_append:
  "run_osc t (ops @ ops') = and_then (run_osc t ops) (\<lambda>t. run_osc t ops')"
proof (induction t ops rule: run_osc.induct)
  case (2 t n data te ops)
  then show ?case by (cases "apply_osc t n data te") auto
qed simp

text \<open>The theme the active scheme gives, before any control.\<close>

definition scheme_theme :: "theme \<Rightarrow> theme" where
  "scheme_theme t = t\<lparr>th_fg := th_scheme_fg t, th_bg := th_scheme_bg t, th_cursor_fg := th_scheme_cursor_fg t,
     th_cursor_fg_override_active := False, th_palette16 := th_scheme_palette16 t, th_palette256 := replicate 256 None\<rparr>"

definition reset_controls :: "(nat \<times> rstring \<times> osc_terminator) list" where
  "reset_controls = [(104, [], Bel), (110, [], Bel), (111, [], Bel), (112, [], Bel)]"

lemma run_reset_controls: "run_osc t reset_controls = Done (scheme_theme t)"
  by (simp add: reset_controls_def apply_osc_def apply_palette_reset_def trim_str_def scheme_theme_def Let_def)

lemma scheme_theme_same: "same_scheme t u \<Longrightarrow> scheme_theme u = (scheme_theme t)\<lparr>th_cursor_style := th_cursor_style u\<rparr>"
  by (simp add: same_scheme_def scheme_theme_def)

subsection \<open>Properties\<close>

text \<open>C23. Whatever OSC colour controls a program sends, as long as none panics, the four reset
  controls bring the colours back to the active scheme: the theme is the one the scheme seeded,
  apart from the cursor style of OSC 22.  So no control damages the mirror of the scheme.
\<close>

theorem osc_reset_restores_scheme:
  assumes "theme_ok t" and "run_osc t ops = Done u"
  shows "run_osc t (ops @ reset_controls) = Done ((scheme_theme t)\<lparr>th_cursor_style := th_cursor_style u\<rparr>)"
proof -
  have "same_scheme t u" by (rule run_osc_scheme [OF assms(2)]) (simp add: assms(1))
  with assms(2) show ?thesis
    by (simp add: run_osc_append run_reset_controls scheme_theme_same)
qed

lemma theme_default_ok: "theme_ok theme_default"
  by (simp add: theme_ok_def theme_default_def DEFAULT_PALETTE16_def)

lemma osc_reset_restores_scheme_witness:
  "run_osc theme_default ([(110, [], St), (111, [], St)] @ reset_controls) =
     Done ((scheme_theme theme_default)\<lparr>th_cursor_style := ThemeBlock\<rparr>)"
proof -
  have "run_osc theme_default [(110, [], St), (111, [], St)] = Done theme_default"
    by (simp add: apply_osc_def theme_default_def)
  from osc_reset_restores_scheme [OF theme_default_ok this] show ?thesis
    by (simp add: theme_default_def)
qed

text \<open>A palette colour that was set is the one that is reported: after OSC 4 sets entry \<open>i\<close>
  to a colour in the notation of the answers, OSC 4 with a question mark answers the introducer,
  the index, exactly that text and the terminator of the request, and changes nothing.
\<close>

theorem palette_set_then_query:
  assumes "theme_ok t" and "i < 256"
  shows "(case apply_osc t 4 (decimal i @ 0x3B # format_color_response r g b) te of
            Panic \<Rightarrow> False
          | Done (u, _) \<Rightarrow>
              apply_osc u 4 (decimal i @ [0x3B, 0x3F]) St =
                Done (u, \<lparr>oo_changed = False,
                  oo_responses = [[0x1B, 0x5D, 0x34, 0x3B] @ decimal i @ [0x3B] @ format_color_response r g b @ [0x1B, 0x5C]]\<rparr>))"
proof -
  have i: "from_decimal USIZE_MAX (trim_str (decimal i)) = Some i"
    by (rule parse_usize_decimal) (use assms(2) in \<open>simp add: USIZE_MAX_def\<close>)
  have pairs: "split_bytes 0x3B (decimal i @ 0x3B # s) = [decimal i, s]" if "0x3B \<notin> set s" for s
    using that by (simp add: split_no_sep split_last decimal_no_semi)
  have stored: "resolve_palette_color (set_palette_entry t i (r, g, b)) i = (r, g, b)"
    using assms by (simp add: resolve_palette_color_def set_palette_entry_def theme_ok_def Let_def)
  have four: "decimal 4 = [0x34]" by (simp add: decimal.simps u8_eq_unat)
  show ?thesis
    using assms(2)
    by (simp add: apply_osc_def apply_palette_set_def pairs response_no_semi i response_not_query
        theme_spec_response trim_query stored osc_outcome_default_def four
        format_osc_color_response_def push_response_def MAX_PALETTE_QUERY_RESPONSES_PER_DISPATCH_def)
qed

lemma palette_set_then_query_witness:
  "(case apply_osc theme_default 4 (decimal 7 @ 0x3B # format_color_response 1 2 3) Bel of
      Panic \<Rightarrow> False
    | Done (u, _) \<Rightarrow>
        apply_osc u 4 (decimal 7 @ [0x3B, 0x3F]) St =
          Done (u, \<lparr>oo_changed = False,
            oo_responses = [[0x1B, 0x5D, 0x34, 0x3B] @ decimal 7 @ [0x3B] @ format_color_response 1 2 3 @ [0x1B, 0x5C]]\<rparr>))"
  by (rule palette_set_then_query) (simp_all add: theme_default_ok)

text \<open>A hash specification of three bytes that is one character of three bytes, as the euro
  sign, is well-formed text, and setting the background to it panics: \<open>parse_hash\<close> compares
  byte lengths and then slices inside the character.
\<close>

theorem hash_inside_character_panics:
  "utf8_valid [0x23, 0xE2, 0x82, 0xAC] \<and> apply_osc t 11 [0x23, 0xE2, 0x82, 0xAC] te = Panic"
proof
  have euro: "utf8_encode 0x20AC = [0xE2, 0x82, 0xAC]" by (simp add: utf8_encode_def u8_eq_unat)
  have hash: "utf8_encode 0x23 = [0x23]" by (simp add: utf8_encode_def u8_eq_unat)
  have bytes: "[0x23, 0xE2, 0x82, 0xAC] = utf8_encode 0x23 @ utf8_encode 0x20AC"
    by (simp add: euro hash)
  show "utf8_valid [0x23, 0xE2, 0x82, 0xAC]"
    unfolding bytes by (simp add: utf8_valid_encode_append is_scalar_def)
  have "utf8_chars (utf8_encode 0x23 @ utf8_encode 0x20AC) = [0x23, 0x20AC]"
    using utf8_chars_encode_append [where c = "0x20AC" and rest = "[]"]
    by (simp add: utf8_chars_encode_append is_scalar_def)
  then have trim: "trim_str [0x23, 0xE2, 0x82, 0xAC] = [0x23, 0xE2, 0x82, 0xAC]"
    by (simp add: trim_str_def is_whitespace_def euro hash flip: bytes)
  have "theme_color_spec [0x23, 0xE2, 0x82, 0xAC] = Panic"
    by (simp add: theme_color_spec_def trim Let_def theme_hash_def hash_color_def hash_component_def
        or_return_def str_slice_def is_char_boundary_def in_range_unat)
  then show "apply_osc t 11 [0x23, 0xE2, 0x82, 0xAC] te = Panic"
    by (simp add: apply_osc_def apply_default_color_set_def trim)
qed

end
