(* ===== verification/MuxProtocol.thy ===== *)
theory MuxProtocol
  imports RustStr SlimCells
begin

text \<open>
  \<open>mux_ipc/src/protocol.rs\<close>: the messages between the terminal, its bridge and the mux daemon,
  their framing in a byte body and in the three text transports, the snapshot payload with its table
  of screen sizes, and the public names of panes.  The base64 codec is a library and a parameter;
  control payloads, which \<open>bincode\<close> serialises, are byte lists here.
\<close>

subsection \<open>Constants\<close>

definition APC_PREFIX :: rstring where
  "APC_PREFIX = [0x65, 0x6D, 0x74, 0x65, 0x72, 0x6D, 0x2D, 0x6D, 0x75, 0x78, 0x3B]"

definition APC_START :: rstring where "APC_START = [0x1B, 0x5F]"
definition APC_ST :: rstring where "APC_ST = [0x1B, 0x5C]"
definition OSC_START :: rstring where "OSC_START = [0x1B, 0x5D]"
definition MUX_OSC_PARAM :: nat where "MUX_OSC_PARAM = 9999"
definition PLAINTEXT_PREFIX :: rstring where "PLAINTEXT_PREFIX = [0x45, 0x4D, 0x55, 0x58, 0x3B]"
definition MAX_FRAME_LENGTH :: nat where "MAX_FRAME_LENGTH = 16 * 1024 * 1024"
definition FRAME_HEADER_LEN :: nat where "FRAME_HEADER_LEN = 5"
definition MAX_SNAPSHOT_FRAME_PAYLOAD :: nat where
  "MAX_SNAPSHOT_FRAME_PAYLOAD = MAX_FRAME_LENGTH - FRAME_HEADER_LEN"
definition MAX_SEGMENTS :: nat where "MAX_SEGMENTS = 64"
definition MAX_SEGMENT_CELLS :: nat where "MAX_SEGMENT_CELLS = 1000000"
definition MAX_CUMULATIVE_SEGMENT_CELLS :: nat where
  "MAX_CUMULATIVE_SEGMENT_CELLS = 32 * MAX_SEGMENT_CELLS"
definition SNAPSHOT_PAYLOAD_MAGIC :: rstring where
  "SNAPSHOT_PAYLOAD_MAGIC = [0x45, 0x4D, 0x53, 0x4E, 0x41, 0x50, 0x32, 0x00]"

definition fits_single_snapshot_frame :: "nat \<Rightarrow> bool" where
  "fits_single_snapshot_frame encoded_len \<longleftrightarrow> encoded_len \<le> MAX_SNAPSHOT_FRAME_PAYLOAD"

subsection \<open>Snapshot payloads\<close>

record dim_segment =
  ds_offset :: nat
  ds_cols :: nat
  ds_rows :: nat

datatype decoded_snapshot_payload =
    Legacy "u8 list"
  | Structured "dim_segment list" "u8 list"
  | Malformed

definition to_le_bytes16 :: "nat \<Rightarrow> u8 list" where
  "to_le_bytes16 n = [as_u8 n, as_u8 (n div 256)]"

definition encode_segment :: "dim_segment \<Rightarrow> u8 list" where
  "encode_segment s = to_le_bytes (ds_offset s) @ to_le_bytes16 (ds_cols s) @ to_le_bytes16 (ds_rows s)"

definition encode_snapshot_payload :: "dim_segment list \<Rightarrow> u8 list \<Rightarrow> u8 list" where
  "encode_snapshot_payload segments bytes =
     SNAPSHOT_PAYLOAD_MAGIC @ to_le_bytes (length segments) @ concat (map encode_segment segments) @ bytes"

definition encoded_snapshot_payload_len :: "nat \<Rightarrow> nat \<Rightarrow> nat" where
  "encoded_snapshot_payload_len segment_count byte_len =
     length SNAPSHOT_PAYLOAD_MAGIC + 4 + segment_count * 8 + byte_len"

definition decode_segment :: "u8 list \<Rightarrow> dim_segment" where
  "decode_segment b =
     \<lparr>ds_offset = from_le_bytes (take 4 b), ds_cols = from_le_bytes (take 2 (drop 4 b)),
      ds_rows = from_le_bytes (take 2 (drop 6 b))\<rparr>"

text \<open>The loop over the table: the previous offset, the cells so far and the segments read.\<close>

fun decode_segments ::
  "nat \<Rightarrow> nat \<Rightarrow> nat option \<Rightarrow> nat \<Rightarrow> dim_segment list \<Rightarrow> u8 list \<Rightarrow> (dim_segment list \<times> u8 list) option" where
  "decode_segments 0 content_len prev_offset cumulative_cells segments rest = Some (segments, rest)"
| "decode_segments (Suc n) content_len prev_offset cumulative_cells segments rest =
     (let s = decode_segment (take 8 rest); cell_count = ds_cols s * ds_rows s in
      if (case prev_offset of Some prev \<Rightarrow> ds_offset s < prev | None \<Rightarrow> False) then None
      else if ds_offset s > content_len then None
      else if cell_count > MAX_SEGMENT_CELLS then None
      else if cumulative_cells + cell_count > MAX_CUMULATIVE_SEGMENT_CELLS then None
      else decode_segments n content_len (Some (ds_offset s)) (cumulative_cells + cell_count)
             (segments @ [s]) (drop 8 rest))"

definition decode_snapshot_payload_typed :: "u8 list \<Rightarrow> decoded_snapshot_payload" where
  "decode_snapshot_payload_typed payload =
     (case strip_prefix SNAPSHOT_PAYLOAD_MAGIC payload of
        None \<Rightarrow> Legacy payload
      | Some rest \<Rightarrow>
          if length rest < 4 then Malformed
          else
            let count = from_le_bytes (take 4 rest); table_end = 4 + count * 8 in
            if count > MAX_SEGMENTS then Malformed
            else if length rest < table_end then Malformed
            else case decode_segments count (length rest - table_end) None 0 [] (drop 4 rest) of
                   None \<Rightarrow> Malformed
                 | Some (segments, content) \<Rightarrow> Structured segments content)"

definition decode_snapshot_payload :: "u8 list \<Rightarrow> dim_segment list \<times> u8 list" where
  "decode_snapshot_payload payload =
     (case decode_snapshot_payload_typed payload of
        Legacy content \<Rightarrow> ([], content)
      | Structured segments content \<Rightarrow> (segments, content)
      | Malformed \<Rightarrow> ([], []))"

subsection \<open>Messages\<close>

datatype message_type =
    PtyOutput | PtyInput | Hello | Welcome | CreatePane | PaneCreated
  | DestroyPane | Resize | Attach | Detach | Detached | Snapshot
  | SnapshotRestore | SessionList | Error | PtyExited | CreateWindow | SwitchWindow
  | RenameWindow | DestroyWindow | Shutdown | RequestPaneSnapshot | MoveWindow | SetVisibility
  | Notify | AgentStatusUpdate | ReadPane | ReadPaneResult | SendText | SendTextResult
  | WaitAgentState | WaitAgentStateResult | AgentApiError | Upgrade | Upgrading | ClientScrollbackCapacity

fun message_type_code :: "message_type \<Rightarrow> u8" where
  "message_type_code PtyOutput = 0x01"
| "message_type_code PtyInput = 0x02"
| "message_type_code Hello = 0x03"
| "message_type_code Welcome = 0x04"
| "message_type_code CreatePane = 0x05"
| "message_type_code PaneCreated = 0x06"
| "message_type_code DestroyPane = 0x07"
| "message_type_code Resize = 0x08"
| "message_type_code Attach = 0x09"
| "message_type_code Detach = 0x0A"
| "message_type_code Detached = 0x0B"
| "message_type_code Snapshot = 0x0C"
| "message_type_code SnapshotRestore = 0x0D"
| "message_type_code SessionList = 0x0E"
| "message_type_code Error = 0x0F"
| "message_type_code PtyExited = 0x10"
| "message_type_code CreateWindow = 0x12"
| "message_type_code SwitchWindow = 0x13"
| "message_type_code RenameWindow = 0x14"
| "message_type_code DestroyWindow = 0x15"
| "message_type_code Shutdown = 0x18"
| "message_type_code RequestPaneSnapshot = 0x19"
| "message_type_code MoveWindow = 0x1A"
| "message_type_code SetVisibility = 0x1B"
| "message_type_code Notify = 0x1C"
| "message_type_code AgentStatusUpdate = 0x1D"
| "message_type_code ReadPane = 0x1E"
| "message_type_code ReadPaneResult = 0x1F"
| "message_type_code SendText = 0x20"
| "message_type_code SendTextResult = 0x21"
| "message_type_code WaitAgentState = 0x22"
| "message_type_code WaitAgentStateResult = 0x23"
| "message_type_code AgentApiError = 0x24"
| "message_type_code Upgrade = 0x25"
| "message_type_code Upgrading = 0x26"
| "message_type_code ClientScrollbackCapacity = 0x27"

definition from_u8 :: "u8 \<Rightarrow> message_type option" where
  "from_u8 v =
     (if v = 0x01 then Some PtyOutput
      else if v = 0x02 then Some PtyInput
      else if v = 0x03 then Some Hello
      else if v = 0x04 then Some Welcome
      else if v = 0x05 then Some CreatePane
      else if v = 0x06 then Some PaneCreated
      else if v = 0x07 then Some DestroyPane
      else if v = 0x08 then Some Resize
      else if v = 0x09 then Some Attach
      else if v = 0x0A then Some Detach
      else if v = 0x0B then Some Detached
      else if v = 0x0C then Some Snapshot
      else if v = 0x0D then Some SnapshotRestore
      else if v = 0x0E then Some SessionList
      else if v = 0x0F then Some Error
      else if v = 0x10 then Some PtyExited
      else if v = 0x12 then Some CreateWindow
      else if v = 0x13 then Some SwitchWindow
      else if v = 0x14 then Some RenameWindow
      else if v = 0x15 then Some DestroyWindow
      else if v = 0x18 then Some Shutdown
      else if v = 0x19 then Some RequestPaneSnapshot
      else if v = 0x1A then Some MoveWindow
      else if v = 0x1B then Some SetVisibility
      else if v = 0x1C then Some Notify
      else if v = 0x1D then Some AgentStatusUpdate
      else if v = 0x1E then Some ReadPane
      else if v = 0x1F then Some ReadPaneResult
      else if v = 0x20 then Some SendText
      else if v = 0x21 then Some SendTextResult
      else if v = 0x22 then Some WaitAgentState
      else if v = 0x23 then Some WaitAgentStateResult
      else if v = 0x24 then Some AgentApiError
      else if v = 0x25 then Some Upgrade
      else if v = 0x26 then Some Upgrading
      else if v = 0x27 then Some ClientScrollbackCapacity
      else None)"

record mux_message =
  mm_type :: message_type
  mm_pane_id :: nat
  mm_payload :: "u8 list"

definition pty_output :: "nat \<Rightarrow> u8 list \<Rightarrow> mux_message" where
  "pty_output pane_id data = \<lparr>mm_type = PtyOutput, mm_pane_id = pane_id, mm_payload = data\<rparr>"

definition pty_input :: "nat \<Rightarrow> u8 list \<Rightarrow> mux_message" where
  "pty_input pane_id data = \<lparr>mm_type = PtyInput, mm_pane_id = pane_id, mm_payload = data\<rparr>"

definition snapshot_message :: "nat \<Rightarrow> u8 list \<Rightarrow> mux_message" where
  "snapshot_message pane_id data = \<lparr>mm_type = Snapshot, mm_pane_id = pane_id, mm_payload = data\<rparr>"

definition visibility_from_payload :: "u8 list \<Rightarrow> bool option" where
  "visibility_from_payload payload = (case payload of [] \<Rightarrow> None | b # _ \<Rightarrow> Some (b \<noteq> 0))"

definition visibility_to_payload :: "bool \<Rightarrow> u8 list" where
  "visibility_to_payload visible = [if visible then 1 else 0]"

definition capacity_from_payload :: "u8 list \<Rightarrow> nat option" where
  "capacity_from_payload payload = (if length payload = 4 then Some (from_le_bytes payload) else None)"

definition capacity_to_payload :: "nat \<Rightarrow> u8 list" where
  "capacity_to_payload n = to_le_bytes n"

definition to_frame_body :: "mux_message \<Rightarrow> u8 list" where
  "to_frame_body m = [message_type_code (mm_type m)] @ to_le_bytes (mm_pane_id m) @ mm_payload m"

definition from_frame_body :: "u8 list \<Rightarrow> mux_message option" where
  "from_frame_body body =
     (if length body < 5 then None
      else case from_u8 (body ! 0) of
        None \<Rightarrow> None
      | Some t \<Rightarrow> Some \<lparr>mm_type = t, mm_pane_id = from_le_bytes (take 4 (drop 1 body)), mm_payload = drop 5 body\<rparr>)"

subsection \<open>Text transports\<close>

record base64 =
  b64_encode :: "u8 list \<Rightarrow> rstring"
  b64_decode :: "rstring \<Rightarrow> u8 list option"

definition to_apc :: "base64 \<Rightarrow> mux_message \<Rightarrow> rstring" where
  "to_apc b64 m = APC_START @ APC_PREFIX @ b64_encode b64 (to_frame_body m) @ APC_ST"

definition to_osc :: "base64 \<Rightarrow> mux_message \<Rightarrow> rstring" where
  "to_osc b64 m = OSC_START @ decimal MUX_OSC_PARAM @ [0x3B] @ APC_PREFIX @ b64_encode b64 (to_frame_body m) @ APC_ST"

definition to_plaintext :: "base64 \<Rightarrow> mux_message \<Rightarrow> rstring" where
  "to_plaintext b64 m = PLAINTEXT_PREFIX @ b64_encode b64 (to_frame_body m) @ [0x0D]"

datatype apc_decode_error = MissingPrefix | InvalidBase64 | InvalidFrameBody

definition from_apc :: "base64 \<Rightarrow> rstring \<Rightarrow> apc_decode_error + mux_message" where
  "from_apc b64 payload =
     (case strip_prefix APC_PREFIX payload of
        None \<Rightarrow> Inl MissingPrefix
      | Some text \<Rightarrow>
          (case b64_decode b64 text of
             None \<Rightarrow> Inl InvalidBase64
           | Some bytes \<Rightarrow>
               (case from_frame_body bytes of None \<Rightarrow> Inl InvalidFrameBody | Some m \<Rightarrow> Inr m)))"

definition parse_rejected_server_version :: "rstring \<Rightarrow> nat option" where
  "parse_rejected_server_version reason =
     (case rsplit_once_str [0x73, 0x65, 0x72, 0x76, 0x65, 0x72, 0x3D] reason of
        None \<Rightarrow> None
      | Some (_, after_marker) \<Rightarrow>
          let digits = takeWhile is_digit after_marker in
          if digits = [] then None else from_decimal U32_MAX digits)"

subsection \<open>Public pane names\<close>

record public_pane_id =
  pid_incarnation :: rstring
  pid_pane_id :: nat

datatype public_pane_id_error = MissingSeparator | InvalidIncarnation | InvalidPaneNumber

definition is_lowercase_hex_digit :: "u8 \<Rightarrow> bool" where
  "is_lowercase_hex_digit b \<longleftrightarrow> is_digit b \<or> in_range 0x61 0x66 b"

definition compose_pane_id :: "rstring \<Rightarrow> nat \<Rightarrow> rstring" where
  "compose_pane_id incarnation pane_id = incarnation @ [0x2D] @ decimal pane_id"

definition parse_pane_id :: "rstring \<Rightarrow> public_pane_id_error + public_pane_id" where
  "parse_pane_id s =
     (case rsplit_once 0x2D s of
        None \<Rightarrow> Inl MissingSeparator
      | Some (incarnation, pane_id_str) \<Rightarrow>
          if incarnation = [] \<or> \<not> list_all is_lowercase_hex_digit incarnation then Inl InvalidIncarnation
          else case from_decimal U32_MAX pane_id_str of
            None \<Rightarrow> Inl InvalidPaneNumber
          | Some n \<Rightarrow> Inr \<lparr>pid_incarnation = incarnation, pid_pane_id = n\<rparr>)"

end
