(* ===== verification/MuxFacts.thy ===== *)
theory MuxFacts
  imports MuxProtocol
begin

text \<open>
  Facts on the mux protocol: frames and snapshot payloads are decoded exactly when they are
  encodings of admissible values, and the three text transports carry a message unchanged.
\<close>

subsection \<open>Little-endian fields\<close>

lemma le_digits4: "n < 4294967296 \<Longrightarrow>
  n mod 256 + 256 * (n div 256 mod 256 + 256 * (n div 65536 mod 256 + 256 * (n div 16777216 mod 256))) = (n :: nat)"
proof -
  assume "n < 4294967296"
  define a b d where "a = n div 256" and "b = a div 256" and "d = b div 256"
  have q: "n div 256 = a" "n div 65536 = b" "n div 16777216 = d"
    by (simp_all add: a_def b_def d_def div_mult2_eq [symmetric])
  have "d < 256" using \<open>n < 4294967296\<close> by (simp flip: q(3) add: less_mult_imp_div_less)
  then have "d mod 256 = d" by simp
  moreover have "n = n mod 256 + 256 * a" "a = a mod 256 + 256 * b" "b = b mod 256 + 256 * d"
    by (simp_all add: a_def b_def d_def)
  ultimately show ?thesis unfolding q by metis
qed

lemma unat_as_u8_mod: "unat (as_u8 n) = n mod 256"
  by (simp add: as_u8_def unat_of_nat)

lemma from_to_le_bytes: "n \<le> U32_MAX \<Longrightarrow> from_le_bytes (to_le_bytes n) = n"
  using le_digits4 [of n]
  by (simp add: from_le_bytes_def to_le_bytes_def upt_rec unat_as_u8_mod U32_MAX_def numeral_2_eq_2 [symmetric] numeral_3_eq_3 [symmetric])

lemma from_to_le_bytes16: "n \<le> U16_MAX \<Longrightarrow> from_le_bytes (to_le_bytes16 n) = n"
proof -
  assume "n \<le> U16_MAX"
  then have "n mod 256 + 256 * (n div 256 mod 256) = n" by (simp add: U16_MAX_def)
  then show ?thesis by (simp add: from_le_bytes_def to_le_bytes16_def unat_as_u8_mod)
qed

lemma length_le_bytes [simp]: "length (to_le_bytes n) = 4" "length (to_le_bytes16 n) = 2"
  by (simp_all add: to_le_bytes_def to_le_bytes16_def)

lemma from_le_bytes_bound: "from_le_bytes bs < 256 ^ length bs"
proof (induction bs)
  case (Cons b bs)
  have "unat b < 256" by (rule u8_cases_lt)
  with Cons show ?case by (simp add: from_le_bytes_def)
qed (simp add: from_le_bytes_def)

lemma from_le_bytes_bounds:
  "length bs = 4 \<Longrightarrow> from_le_bytes bs \<le> U32_MAX"
  "length bs = 2 \<Longrightarrow> from_le_bytes bs \<le> U16_MAX"
  using from_le_bytes_bound [of bs] by (simp_all add: U32_MAX_def U16_MAX_def)

lemma to_from_le_bytes16: "length bs = 2 \<Longrightarrow> to_le_bytes16 (from_le_bytes bs) = bs"
proof -
  assume "length bs = 2"
  then obtain a b where bs: "bs = [a, b]" by (auto simp: numeral_2_eq_2 length_Suc_conv)
  have "unat a < 256" "unat b < 256" by (rule u8_cases_lt)+
  then show ?thesis
    by (simp add: bs from_le_bytes_def to_le_bytes16_def u8_eq_unat unat_as_u8_mod)
qed

subsection \<open>Frames\<close>

lemma from_u8_code: "from_u8 (message_type_code t) = Some t"
  by (cases t) (simp_all add: from_u8_def)

lemma code_from_u8: "from_u8 b = Some t \<Longrightarrow> message_type_code t = b"
  by (simp add: from_u8_def split: if_splits)

lemma frame_body_decodes: "mm_pane_id m \<le> U32_MAX \<Longrightarrow> from_frame_body (to_frame_body m) = Some m"
  by (simp add: from_frame_body_def to_frame_body_def from_u8_code from_to_le_bytes)

text \<open>A frame body is decoded to a message exactly when it is the encoding of that message with
  a pane number of 32 bits: the decoder accepts every encoding and nothing else.\<close>

theorem frame_body_exact:
  "from_frame_body body = Some m \<longleftrightarrow> body = to_frame_body m \<and> mm_pane_id m \<le> U32_MAX"
proof
  assume r: "from_frame_body body = Some m"
  then have len: "5 \<le> length body" by (simp add: from_frame_body_def split: if_splits)
  then obtain t where t: "from_u8 (body ! 0) = Some t"
    "m = \<lparr>mm_type = t, mm_pane_id = from_le_bytes (take 4 (drop 1 body)), mm_payload = drop 5 body\<rparr>"
    using r by (auto simp: from_frame_body_def split: option.splits)
  obtain b rest where body: "body = b # rest" using len by (cases body) auto
  have four: "length (take 4 rest) = 4" using len body by simp
  have "to_le_bytes (from_le_bytes (take 4 rest)) = take 4 rest" by (rule to_from_le_bytes [OF four])
  then have "to_frame_body m = body"
    using t code_from_u8 [OF t(1)] by (simp add: to_frame_body_def body)
  moreover have "mm_pane_id m \<le> U32_MAX" using t(2) from_le_bytes_bounds(1) [OF four] body by simp
  ultimately show "body = to_frame_body m \<and> mm_pane_id m \<le> U32_MAX" by simp
next
  assume "body = to_frame_body m \<and> mm_pane_id m \<le> U32_MAX"
  then show "from_frame_body body = Some m" by (simp add: frame_body_decodes)
qed

subsection \<open>Snapshot payloads\<close>

definition segment_fits :: "dim_segment \<Rightarrow> bool" where
  "segment_fits s \<longleftrightarrow> ds_offset s \<le> U32_MAX \<and> ds_cols s \<le> U16_MAX \<and> ds_rows s \<le> U16_MAX"

definition segment_cells :: "dim_segment \<Rightarrow> nat" where
  "segment_cells s = ds_cols s * ds_rows s"

text \<open>An admissible table: few segments, increasing offsets within the content, bounded screens.\<close>

definition segments_valid :: "dim_segment list \<Rightarrow> nat \<Rightarrow> bool" where
  "segments_valid segs content_len \<longleftrightarrow>
     length segs \<le> MAX_SEGMENTS \<and> sorted (map ds_offset segs)
     \<and> list_all (\<lambda>s. ds_offset s \<le> content_len \<and> segment_cells s \<le> MAX_SEGMENT_CELLS) segs
     \<and> sum_list (map segment_cells segs) \<le> MAX_CUMULATIVE_SEGMENT_CELLS"

lemma length_encode_segment [simp]: "length (encode_segment s) = 8"
  by (simp add: encode_segment_def)

lemma length_encode_segments [simp]: "length (concat (map encode_segment segs)) = 8 * length segs"
  by (induction segs) simp_all

lemma decode_encode_segment: "segment_fits s \<Longrightarrow> decode_segment (encode_segment s) = s"
  by (cases s) (simp add: decode_segment_def encode_segment_def segment_fits_def from_to_le_bytes from_to_le_bytes16)

lemma encode_decode_segment:
  assumes "length b = 8"
  shows "encode_segment (decode_segment b) = b" "segment_fits (decode_segment b)"
proof -
  have l: "length (take 4 b) = 4" "length (take 2 (drop 4 b)) = 2" "length (take 2 (drop 6 b)) = 2"
    using assms by simp_all
  have "b = take 4 b @ drop 4 b" by simp
  also have "drop 4 b = take 2 (drop 4 b) @ drop 2 (drop 4 b)" by (simp only: append_take_drop_id)
  also have "drop 2 (drop 4 b) = take 2 (drop 6 b)" using assms by simp
  finally show "encode_segment (decode_segment b) = b"
    using l by (simp add: encode_segment_def decode_segment_def to_from_le_bytes to_from_le_bytes16)
  show "segment_fits (decode_segment b)"
    using l from_le_bytes_bounds by (simp add: segment_fits_def decode_segment_def)
qed

text \<open>The checks of the loop, from a previous offset and a number of cells on.\<close>

fun chain_valid :: "nat \<Rightarrow> nat option \<Rightarrow> nat \<Rightarrow> dim_segment list \<Rightarrow> bool" where
  "chain_valid len prev cum [] = True"
| "chain_valid len prev cum (s # ss) \<longleftrightarrow>
     (case prev of Some p \<Rightarrow> p \<le> ds_offset s | None \<Rightarrow> True) \<and> ds_offset s \<le> len
     \<and> segment_cells s \<le> MAX_SEGMENT_CELLS \<and> cum + segment_cells s \<le> MAX_CUMULATIVE_SEGMENT_CELLS
     \<and> chain_valid len (Some (ds_offset s)) (cum + segment_cells s) ss"

lemma chain_valid_from:
  "cum \<le> MAX_CUMULATIVE_SEGMENT_CELLS \<Longrightarrow> chain_valid len (Some p) cum ss \<longleftrightarrow>
     sorted (p # map ds_offset ss) \<and> list_all (\<lambda>s. ds_offset s \<le> len \<and> segment_cells s \<le> MAX_SEGMENT_CELLS) ss
     \<and> cum + sum_list (map segment_cells ss) \<le> MAX_CUMULATIVE_SEGMENT_CELLS"
proof (induction ss arbitrary: p cum)
  case (Cons s ss)
  show ?case
  proof (cases "cum + segment_cells s \<le> MAX_CUMULATIVE_SEGMENT_CELLS")
    case True
    with Cons.IH [OF True, of "ds_offset s"] show ?thesis by (auto simp: add.assoc intro: order_trans)
  qed auto
qed simp

lemma chain_valid_all:
  "length ss \<le> MAX_SEGMENTS \<Longrightarrow> chain_valid len None 0 ss = segments_valid ss len"
proof (cases ss)
  case (Cons s rest)
  assume "length ss \<le> MAX_SEGMENTS"
  show ?thesis
  proof (cases "segment_cells s \<le> MAX_CUMULATIVE_SEGMENT_CELLS")
    case True
    with chain_valid_from [OF True, of len "ds_offset s" rest] Cons \<open>length ss \<le> MAX_SEGMENTS\<close>
    show ?thesis by (auto simp: segments_valid_def)
  qed (auto simp: Cons segments_valid_def)
qed (simp add: segments_valid_def)

lemma decode_segments_exact:
  "8 * n \<le> length rest \<Longrightarrow>
   decode_segments n len prev cum acc rest = Some (segs, content) \<longleftrightarrow>
     (\<exists>new. segs = acc @ new \<and> length new = n \<and> rest = concat (map encode_segment new) @ content
        \<and> list_all segment_fits new \<and> chain_valid len prev cum new)"
proof (induction n arbitrary: prev cum acc rest)
  case 0
  then show ?case by auto
next
  case (Suc n)
  let ?s = "decode_segment (take 8 rest)"
  have len8: "length (take 8 rest) = 8" and later: "8 * n \<le> length (drop 8 rest)" using Suc.prems by simp_all
  let ?ok = "chain_valid len prev cum [?s]"
  have step: "decode_segments (Suc n) len prev cum acc rest =
      (if ?ok then decode_segments n len (Some (ds_offset ?s)) (cum + segment_cells ?s) (acc @ [?s]) (drop 8 rest) else None)"
    by (auto simp: Let_def segment_cells_def not_le not_less split: option.split)
  have split: "rest = encode_segment ?s @ drop 8 rest"
    using encode_decode_segment(1) [OF len8] by (metis append_take_drop_id)
  show ?case
  proof
    assume "decode_segments (Suc n) len prev cum acc rest = Some (segs, content)"
    then have ok: ?ok and "decode_segments n len (Some (ds_offset ?s)) (cum + segment_cells ?s) (acc @ [?s]) (drop 8 rest) = Some (segs, content)"
      unfolding step by (simp_all split: if_splits)
    then obtain new where new: "segs = (acc @ [?s]) @ new" "length new = n" "drop 8 rest = concat (map encode_segment new) @ content"
      "list_all segment_fits new" "chain_valid len (Some (ds_offset ?s)) (cum + segment_cells ?s) new"
      using Suc.IH [OF later] by blast
    then show "\<exists>new. segs = acc @ new \<and> length new = Suc n \<and> rest = concat (map encode_segment new) @ content
        \<and> list_all segment_fits new \<and> chain_valid len prev cum new"
      using ok split encode_decode_segment(2) [OF len8] by (intro exI [of _ "?s # new"]) auto
  next
    assume "\<exists>new. segs = acc @ new \<and> length new = Suc n \<and> rest = concat (map encode_segment new) @ content
        \<and> list_all segment_fits new \<and> chain_valid len prev cum new"
    then obtain s new where new: "segs = acc @ s # new" "length new = n"
      "rest = encode_segment s @ concat (map encode_segment new) @ content"
      "segment_fits s" "list_all segment_fits new" "chain_valid len prev cum (s # new)"
      by (auto simp: length_Suc_conv)
    then have s: "?s = s" "drop 8 rest = concat (map encode_segment new) @ content"
      by (simp_all add: decode_encode_segment)
    have "decode_segments n len (Some (ds_offset s)) (cum + segment_cells s) (acc @ [s]) (drop 8 rest) = Some (segs, content)"
      using Suc.IH [OF later, of "Some (ds_offset s)" "cum + segment_cells s" "acc @ [s]"] new s(2) by auto
    then show "decode_segments (Suc n) len prev cum acc rest = Some (segs, content)"
      unfolding step s(1) using new(6) by simp
  qed
qed

lemma strip_prefix_Some: "strip_prefix p s = Some r \<longleftrightarrow> s = p @ r"
  by (induction p s rule: strip_prefix.induct) auto

text \<open>The bytes after the magic number of a structured payload.\<close>

lemma structured_rest:
  "(4 \<le> length rest \<and> from_le_bytes (take 4 rest) \<le> MAX_SEGMENTS \<and> 4 + from_le_bytes (take 4 rest) * 8 \<le> length rest
      \<and> length segs = from_le_bytes (take 4 rest)
      \<and> drop 4 rest = concat (map encode_segment segs) @ content \<and> list_all segment_fits segs
      \<and> chain_valid (length rest - (4 + from_le_bytes (take 4 rest) * 8)) None 0 segs)
   \<longleftrightarrow> (rest = to_le_bytes (length segs) @ concat (map encode_segment segs) @ content
      \<and> length segs \<le> MAX_SEGMENTS \<and> list_all segment_fits segs \<and> chain_valid (length content) None 0 segs)"
  (is "?lhs \<longleftrightarrow> ?rhs")
proof
  let ?count = "from_le_bytes (take 4 rest)"
  assume a: ?lhs
  have a1: "4 \<le> length rest" "?count \<le> MAX_SEGMENTS" "length segs = ?count" "list_all segment_fits segs"
    "drop 4 rest = concat (map encode_segment segs) @ content"
    "chain_valid (length rest - (4 + ?count * 8)) None 0 segs"
    using a by blast+
  from a1(1) have "length (take 4 rest) = 4" by simp
  from to_from_le_bytes [OF this] have "take 4 rest = to_le_bytes (length segs)" by (simp only: a1(3))
  then have rest: "rest = to_le_bytes (length segs) @ concat (map encode_segment segs) @ content"
    using append_take_drop_id [of 4 rest] by (simp only: a1(5))
  from arg_cong [OF this, of length] have "length rest = 4 + 8 * length segs + length content" by simp
  then have "length rest - (4 + ?count * 8) = length content" by (simp only: a1(3) [symmetric])
  with a1(6) have "chain_valid (length content) None 0 segs" by (simp only:)
  with rest a1(2,4) show ?rhs by (simp only: a1(3) simp_thms)
next
  assume ?rhs
  then show ?lhs by (auto simp: from_to_le_bytes MAX_SEGMENTS_def U32_MAX_def)
qed

text \<open>C14. A snapshot payload is decoded to a table of screen sizes and a content exactly when it is the
  encoding of an admissible table and that content: at most 64 segments with fields of their width,
  offsets increasing and inside the content, at most a million cells each and 32 million together.
  So no byte string forces more work than that, and no other byte string is taken for structured.\<close>

theorem snapshot_payload_exact:
  "decode_snapshot_payload_typed payload = Structured segs content \<longleftrightarrow>
     payload = encode_snapshot_payload segs content \<and> list_all segment_fits segs \<and> segments_valid segs (length content)"
proof -
  let ?count = "\<lambda>rest. from_le_bytes (take 4 rest)"
  have "decode_snapshot_payload_typed payload = Structured segs content \<longleftrightarrow>
      (\<exists>rest. payload = SNAPSHOT_PAYLOAD_MAGIC @ rest \<and> 4 \<le> length rest \<and> ?count rest \<le> MAX_SEGMENTS
        \<and> 4 + ?count rest * 8 \<le> length rest
        \<and> decode_segments (?count rest) (length rest - (4 + ?count rest * 8)) None 0 [] (drop 4 rest) = Some (segs, content))"
    by (auto simp: decode_snapshot_payload_typed_def Let_def not_less not_le strip_prefix_Some [symmetric] split: option.splits)
  also have "\<dots> \<longleftrightarrow> (\<exists>rest. payload = SNAPSHOT_PAYLOAD_MAGIC @ rest \<and> 4 \<le> length rest \<and> ?count rest \<le> MAX_SEGMENTS
        \<and> 4 + ?count rest * 8 \<le> length rest \<and> length segs = ?count rest
        \<and> drop 4 rest = concat (map encode_segment segs) @ content \<and> list_all segment_fits segs
        \<and> chain_valid (length rest - (4 + ?count rest * 8)) None 0 segs)"
    by (rule ex_cong, intro conj_cong refl, subst decode_segments_exact) auto
  also have "\<dots> \<longleftrightarrow> (\<exists>rest. payload = SNAPSHOT_PAYLOAD_MAGIC @ rest \<and>
        rest = to_le_bytes (length segs) @ concat (map encode_segment segs) @ content
        \<and> length segs \<le> MAX_SEGMENTS \<and> list_all segment_fits segs \<and> chain_valid (length content) None 0 segs)"
    by (simp only: structured_rest)
  also have "\<dots> \<longleftrightarrow> payload = encode_snapshot_payload segs content \<and> list_all segment_fits segs \<and> segments_valid segs (length content)"
    using chain_valid_all [of segs "length content"]
    by (auto simp: encode_snapshot_payload_def segments_valid_def)
  finally show ?thesis .
qed


end
