(* ===== verification/StdinParser.thy ===== *)
theory StdinParser
  imports MuxProtocol
begin

text \<open>
  \<open>mux/bridge/stdin_parser.rs\<close>: the scanner of the bridge process, which separates mux frames in
  the three transports from other input, byte by byte and across reads.  Messages to the error log
  are left out.  The accumulated OSC number is a \<open>u16\<close>: the multiplication saturates, the addition
  wraps (in a release build; a debug build panics there).
\<close>

datatype transport = Apc | Osc | Plaintext

datatype stdin_action = MuxAction mux_message transport | Passthrough "u8 list"

definition MAX_APC_PAYLOAD :: nat where "MAX_APC_PAYLOAD = 22 * 1024 * 1024"

datatype stdin_state =
    StdinGround | EscSeen | InOscParam | InApc | InApcEsc | InPlaintextPrefix | InPlaintext

record stdin_parser =
  ip_state :: stdin_state
  ip_apc_buf :: "u8 list"
  ip_passthrough_buf :: "u8 list"
  ip_osc_param_accum :: nat
  ip_osc_param_digits :: "u8 list"
  ip_is_osc :: bool
  ip_prefix_matched :: nat
  ip_swallow_partner_eol :: bool

definition stdin_parser_new :: stdin_parser where
  "stdin_parser_new =
     \<lparr>ip_state = StdinGround, ip_apc_buf = [], ip_passthrough_buf = [], ip_osc_param_accum = 0,
      ip_osc_param_digits = [], ip_is_osc = False, ip_prefix_matched = 0, ip_swallow_partner_eol = False\<rparr>"

definition complete_plaintext_sequence :: "base64 \<Rightarrow> u8 list \<Rightarrow> stdin_action list" where
  "complete_plaintext_sequence b64 apc_buf =
     (case from_apc b64 (APC_PREFIX @ utf8_lossy apc_buf) of
        Inr msg \<Rightarrow> [MuxAction msg Plaintext] | Inl _ \<Rightarrow> [])"

definition complete_mux_sequence :: "base64 \<Rightarrow> u8 list \<Rightarrow> bool \<Rightarrow> stdin_action list" where
  "complete_mux_sequence b64 apc_buf is_osc =
     (let payload = utf8_lossy apc_buf; transport = (if is_osc then Osc else Apc) in
      if strip_prefix APC_PREFIX payload \<noteq> None
      then (case from_apc b64 payload of Inr msg \<Rightarrow> [MuxAction msg transport] | Inl _ \<Rightarrow> [])
      else if \<not> is_osc then [Passthrough ([0x1B, 0x5F] @ payload @ [0x1B, 0x5C])]
      else [])"

text \<open>Every arm works on the parser and the actions produced so far.\<close>

type_synonym stdin_run = "stdin_parser \<times> stdin_action list"

definition flush_passthrough :: "stdin_run \<Rightarrow> stdin_run" where
  "flush_passthrough r =
     (let (p, acts) = r in
      if ip_passthrough_buf p \<noteq> []
      then (p\<lparr>ip_passthrough_buf := []\<rparr>, acts @ [Passthrough (ip_passthrough_buf p)]) else (p, acts))"

definition pass :: "u8 list \<Rightarrow> stdin_run \<Rightarrow> stdin_run" where
  "pass bs r = (let (p, acts) = r in (p\<lparr>ip_passthrough_buf := ip_passthrough_buf p @ bs\<rparr>, acts))"

definition upd_run :: "(stdin_parser \<Rightarrow> stdin_parser) \<Rightarrow> stdin_run \<Rightarrow> stdin_run" where
  "upd_run f r = (let (p, acts) = r in (f p, acts))"

definition stdin_ground :: "stdin_run \<Rightarrow> u8 \<Rightarrow> stdin_run" where
  "stdin_ground r b =
     (let swallow = ip_swallow_partner_eol (fst r);
          r = upd_run (\<lambda>p. p\<lparr>ip_swallow_partner_eol := False\<rparr>) r in
      if swallow \<and> (b = 0x0D \<or> b = 0x0A) then r
      else if b = 0x1B then upd_run (\<lambda>p. p\<lparr>ip_state := EscSeen\<rparr>) r
      else if b = PLAINTEXT_PREFIX ! 0
      then upd_run (\<lambda>p. p\<lparr>ip_prefix_matched := 1, ip_state := InPlaintextPrefix\<rparr>) (flush_passthrough r)
      else pass [b] r)"

definition stdin_esc_seen :: "stdin_run \<Rightarrow> u8 \<Rightarrow> stdin_run" where
  "stdin_esc_seen r b =
     (if b = 0x5F
      then upd_run (\<lambda>p. p\<lparr>ip_state := InApc, ip_apc_buf := [], ip_is_osc := False\<rparr>) (flush_passthrough r)
      else if b = 0x5D
      then upd_run (\<lambda>p. p\<lparr>ip_osc_param_accum := 0, ip_osc_param_digits := [], ip_state := InOscParam\<rparr>)
             (flush_passthrough r)
      else upd_run (\<lambda>p. p\<lparr>ip_state := StdinGround\<rparr>) (pass [0x1B, b] r))"

definition stdin_osc_param :: "stdin_run \<Rightarrow> u8 \<Rightarrow> stdin_run" where
  "stdin_osc_param r b =
     (let digits = ip_osc_param_digits (fst r);
          reject = upd_run (\<lambda>p. p\<lparr>ip_osc_param_digits := [], ip_state := StdinGround\<rparr>)
                     (pass ([0x1B, 0x5D] @ digits @ [b]) r)
      in if is_digit b
         then upd_run (\<lambda>p. p\<lparr>ip_osc_param_digits := digits @ [b],
                ip_osc_param_accum := (sat_mul16 (ip_osc_param_accum p) 10 + (unat b - 0x30)) mod 65536\<rparr>) r
         else if b = 0x3B
         then if ip_osc_param_accum (fst r) = MUX_OSC_PARAM
              then upd_run (\<lambda>p. p\<lparr>ip_state := InApc, ip_apc_buf := [], ip_is_osc := True\<rparr>) r
              else reject
         else reject)"

definition stdin_complete :: "base64 \<Rightarrow> stdin_run \<Rightarrow> stdin_run" where
  "stdin_complete b64 r =
     (let (p, acts) = r in
      (p\<lparr>ip_apc_buf := [], ip_state := StdinGround\<rparr>, acts @ complete_mux_sequence b64 (ip_apc_buf p) (ip_is_osc p)))"

definition stdin_in_apc :: "base64 \<Rightarrow> stdin_run \<Rightarrow> u8 \<Rightarrow> stdin_run" where
  "stdin_in_apc b64 r b =
     (if b = 0x1B then upd_run (\<lambda>p. p\<lparr>ip_state := InApcEsc\<rparr>) r
      else if ip_is_osc (fst r) \<and> b = 0x07 then stdin_complete b64 r
      else if length (ip_apc_buf (fst r)) < MAX_APC_PAYLOAD
      then upd_run (\<lambda>p. p\<lparr>ip_apc_buf := ip_apc_buf p @ [b]\<rparr>) r
      else upd_run (\<lambda>p. p\<lparr>ip_apc_buf := [], ip_state := StdinGround\<rparr>) r)"

definition stdin_in_apc_esc :: "base64 \<Rightarrow> stdin_run \<Rightarrow> u8 \<Rightarrow> stdin_run" where
  "stdin_in_apc_esc b64 r b =
     (if b = 0x5C then stdin_complete b64 r
      else upd_run (\<lambda>p. p\<lparr>ip_apc_buf := ip_apc_buf p @ [0x1B, b], ip_state := InApc\<rparr>) r)"

definition stdin_in_prefix :: "stdin_run \<Rightarrow> u8 \<Rightarrow> stdin_run" where
  "stdin_in_prefix r b =
     (let k = ip_prefix_matched (fst r) in
      if b = PLAINTEXT_PREFIX ! k
      then if k + 1 = length PLAINTEXT_PREFIX
           then upd_run (\<lambda>p. p\<lparr>ip_prefix_matched := k + 1, ip_apc_buf := [], ip_state := InPlaintext\<rparr>) r
           else upd_run (\<lambda>p. p\<lparr>ip_prefix_matched := k + 1\<rparr>) r
      else upd_run (\<lambda>p. p\<lparr>ip_prefix_matched := 0, ip_state := StdinGround\<rparr>)
             (pass (take k PLAINTEXT_PREFIX @ [b]) r))"

definition stdin_in_plaintext :: "base64 \<Rightarrow> stdin_run \<Rightarrow> u8 \<Rightarrow> stdin_run" where
  "stdin_in_plaintext b64 r b =
     (let (p, acts) = r in
      if b = 0x0D \<or> b = 0x0A
      then (p\<lparr>ip_apc_buf := [], ip_swallow_partner_eol := True, ip_state := StdinGround\<rparr>,
            acts @ complete_plaintext_sequence b64 (ip_apc_buf p))
      else if length (ip_apc_buf p) < MAX_APC_PAYLOAD then (p\<lparr>ip_apc_buf := ip_apc_buf p @ [b]\<rparr>, acts)
      else (p\<lparr>ip_apc_buf := [], ip_state := StdinGround\<rparr>, acts))"

definition stdin_byte :: "base64 \<Rightarrow> stdin_run \<Rightarrow> u8 \<Rightarrow> stdin_run" where
  "stdin_byte b64 r b =
     (case ip_state (fst r) of
        StdinGround \<Rightarrow> stdin_ground r b
      | EscSeen \<Rightarrow> stdin_esc_seen r b
      | InOscParam \<Rightarrow> stdin_osc_param r b
      | InApc \<Rightarrow> stdin_in_apc b64 r b
      | InApcEsc \<Rightarrow> stdin_in_apc_esc b64 r b
      | InPlaintextPrefix \<Rightarrow> stdin_in_prefix r b
      | InPlaintext \<Rightarrow> stdin_in_plaintext b64 r b)"

definition stdin_feed :: "base64 \<Rightarrow> stdin_parser \<Rightarrow> u8 list \<Rightarrow> stdin_parser \<times> stdin_action list" where
  "stdin_feed b64 p data =
     (let r = foldl (stdin_byte b64) (p, []) data in
      if ip_passthrough_buf (fst r) \<noteq> [] \<and> ip_state (fst r) = StdinGround then flush_passthrough r else r)"

text \<open>The reads of the bridge, one after the other.\<close>

fun stdin_feeds :: "base64 \<Rightarrow> stdin_parser \<Rightarrow> u8 list list \<Rightarrow> stdin_parser \<times> stdin_action list" where
  "stdin_feeds b64 p [] = (p, [])"
| "stdin_feeds b64 p (d # ds) =
     (let (p1, a1) = stdin_feed b64 p d; (p2, a2) = stdin_feeds b64 p1 ds in (p2, a1 @ a2))"

subsection \<open>Reads may be cut anywhere\<close>

text \<open>What has come out, byte by byte: passed bytes and messages in order, the bytes still held back
  for the next flush included.\<close>

definition action_view :: "stdin_action \<Rightarrow> (u8 + mux_message \<times> transport) list" where
  "action_view a = (case a of Passthrough bs \<Rightarrow> map Inl bs | MuxAction m t \<Rightarrow> [Inr (m, t)])"

definition actions_view :: "stdin_action list \<Rightarrow> (u8 + mux_message \<times> transport) list" where
  "actions_view acts = concat (map action_view acts)"

definition run_view :: "stdin_run \<Rightarrow> (u8 + mux_message \<times> transport) list" where
  "run_view r = actions_view (snd r) @ map Inl (ip_passthrough_buf (fst r))"

definition bare :: "stdin_parser \<Rightarrow> stdin_parser" where
  "bare p = p\<lparr>ip_passthrough_buf := []\<rparr>"

lemma actions_view_simps [simp]: "actions_view [] = []" "actions_view (a # as) = action_view a @ actions_view as"
  "actions_view (as @ as') = actions_view as @ actions_view as'"
  "action_view (Passthrough bs) = map Inl bs" "action_view (MuxAction m t) = [Inr (m, t)]"
  by (simp_all add: actions_view_def action_view_def)

text \<open>Bytes are held back only outside of a frame.\<close>

definition held_ok :: "stdin_parser \<Rightarrow> bool" where
  "held_ok p \<longleftrightarrow> (ip_state p = StdinGround \<or> ip_state p = EscSeen \<or> ip_passthrough_buf p = [])"

lemmas stdin_defs = stdin_byte_def stdin_ground_def stdin_esc_seen_def stdin_osc_param_def
  stdin_in_apc_def stdin_in_apc_esc_def stdin_in_prefix_def stdin_in_plaintext_def stdin_complete_def
  upd_run_def pass_def flush_passthrough_def

lemma stdin_byte_held: "held_ok (fst r) \<Longrightarrow> held_ok (fst (stdin_byte b64 r b))"
  by (cases r; cases "ip_state (fst r)") (auto simp: stdin_defs held_ok_def Let_def)

lemma stdin_run_held: "held_ok (fst r) \<Longrightarrow> held_ok (fst (foldl (stdin_byte b64) r data))"
  by (induction data arbitrary: r) (simp_all add: stdin_byte_held)

lemma stdin_feed_held: "held_ok p \<Longrightarrow> held_ok (fst (stdin_feed b64 p data))"
  using stdin_run_held [of "(p, [])" b64 data]
  by (auto simp: stdin_feed_def flush_passthrough_def held_ok_def Let_def split: prod.split)

lemma held_bare [simp]: "held_ok (bare p)"
  by (simp add: held_ok_def bare_def)

text \<open>A byte acts on the parser without its held-back bytes and only adds to the view.\<close>

lemma stdin_byte_bare:
  "held_ok p \<Longrightarrow> bare (fst (stdin_byte b64 (p, acts) b)) = bare (fst (stdin_byte b64 (bare p, []) b))
   \<and> run_view (stdin_byte b64 (p, acts) b) = run_view (p, acts) @ run_view (stdin_byte b64 (bare p, []) b)"
  by (cases "ip_state p") (auto simp: stdin_defs bare_def run_view_def held_ok_def Let_def split: prod.split)

lemma stdin_run_bare:
  "held_ok p \<Longrightarrow>
   bare (fst (foldl (stdin_byte b64) (p, acts) data)) = bare (fst (foldl (stdin_byte b64) (bare p, []) data))
   \<and> run_view (foldl (stdin_byte b64) (p, acts) data) = run_view (p, acts) @ run_view (foldl (stdin_byte b64) (bare p, []) data)"
proof (induction data arbitrary: p acts)
  case Nil
  then show ?case by (simp add: bare_def run_view_def)
next
  case (Cons b data)
  obtain q as where q: "stdin_byte b64 (p, acts) b = (q, as)" by force
  obtain q' as' where q': "stdin_byte b64 (bare p, []) b = (q', as')" by force
  have "held_ok q" "held_ok q'"
    using stdin_byte_held [of "(p, acts)" b64 b] stdin_byte_held [of "(bare p, [])" b64 b] Cons.prems q q' by simp_all
  moreover have "bare q = bare q'" "run_view (q, as) = run_view (p, acts) @ run_view (q', as')"
    using stdin_byte_bare [OF Cons.prems, of b64 acts b] q q' by simp_all
  ultimately show ?case using Cons.IH [of q as] Cons.IH [of q' as'] by (simp add: q q')
qed

lemma stdin_feed_view:
  "bare (fst (stdin_feed b64 p data)) = bare (fst (foldl (stdin_byte b64) (p, []) data))
   \<and> run_view (stdin_feed b64 p data) = run_view (foldl (stdin_byte b64) (p, []) data)"
  by (auto simp: stdin_feed_def bare_def run_view_def flush_passthrough_def Let_def split: prod.split)

lemma run_from:
  "bare (fst r) = bare (fst r') \<Longrightarrow> held_ok (fst r) \<Longrightarrow>
   bare (fst (foldl (stdin_byte b64) r data)) = bare (fst (foldl (stdin_byte b64) (bare (fst r'), []) data))
   \<and> run_view (foldl (stdin_byte b64) r data) = run_view r @ run_view (foldl (stdin_byte b64) (bare (fst r'), []) data)"
  using stdin_run_bare [of "fst r" b64 "snd r" data] by simp

lemma stdin_feeds_run:
  "held_ok p \<Longrightarrow> bare (fst (stdin_feeds b64 p chunks)) = bare (fst (foldl (stdin_byte b64) (p, []) (concat chunks)))
   \<and> run_view (stdin_feeds b64 p chunks) = run_view (foldl (stdin_byte b64) (p, []) (concat chunks))"
proof (induction chunks arbitrary: p)
  case (Cons d ds)
  let ?r = "foldl (stdin_byte b64) (p, []) d"
  obtain p1 a1 where f: "stdin_feed b64 p d = (p1, a1)" by force
  obtain p2 a2 where fs: "stdin_feeds b64 p1 ds = (p2, a2)" by force
  have held: "held_ok p1" "held_ok (fst ?r)"
    using stdin_feed_held [OF Cons.prems, of b64 d] stdin_run_held [of "(p, [])" b64 d] Cons.prems f by simp_all
  have feed: "bare p1 = bare (fst ?r)" "run_view (p1, a1) = run_view ?r"
    using stdin_feed_view [of b64 p d] f by simp_all
  let ?V = "foldl (stdin_byte b64) (bare (fst ?r), []) (concat ds)"
  have IH: "bare p2 = bare (fst ?V)" "run_view (p2, a2) = run_view (p1, []) @ run_view ?V"
    using Cons.IH [of p1] fs run_from [of "(p1, [])" ?r b64 "concat ds"] feed(1) held by simp_all
  have rest: "bare (fst (foldl (stdin_byte b64) ?r (concat ds))) = bare (fst ?V)"
    "run_view (foldl (stdin_byte b64) ?r (concat ds)) = run_view ?r @ run_view ?V"
    using run_from [of ?r ?r b64 "concat ds"] held by simp_all
  have "run_view (p2, a1 @ a2) = actions_view a1 @ run_view (p2, a2)" by (simp add: run_view_def)
  also have "\<dots> = run_view (p1, a1) @ run_view ?V" by (simp add: IH(2)) (simp add: run_view_def)
  finally show ?case using IH(1) rest feed(2) by (simp add: f fs)
qed simp

text \<open>How the input is cut into reads does not matter to the bridge: the messages and the passed
  bytes that come out in order, with the bytes still held back, are those of one read of the whole
  input, and so is the state of the scanner.\<close>

theorem stdin_chunking:
  "bare (fst (stdin_feeds b64 stdin_parser_new chunks)) = bare (fst (stdin_feed b64 stdin_parser_new (concat chunks)))
   \<and> run_view (stdin_feeds b64 stdin_parser_new chunks) = run_view (stdin_feed b64 stdin_parser_new (concat chunks))"
  using stdin_feeds_run [of stdin_parser_new b64 chunks] stdin_feed_view [of b64 stdin_parser_new "concat chunks"]
  by (simp add: held_ok_def stdin_parser_new_def)

end
