(* ===== verification/StdinFacts.thy ===== *)
theory StdinFacts
  imports MuxFacts StdinParser
begin

text \<open>
  Facts on the scanner of the bridge: frames of the three transports, in any order and cut into
  reads anywhere, come out as the messages that were sent, with no byte passed through.
\<close>

subsection \<open>What the code relies on of base64\<close>

definition b64_char :: "u8 \<Rightarrow> bool" where
  "b64_char b \<longleftrightarrow> is_digit b \<or> in_range 0x41 0x5A b \<or> in_range 0x61 0x7A b \<or> b = 0x2B \<or> b = 0x2F \<or> b = 0x3D"

definition base64_codec :: "base64 \<Rightarrow> bool" where
  "base64_codec b64 \<longleftrightarrow> (\<forall>x. b64_decode b64 (b64_encode b64 x) = Some x \<and> list_all b64_char (b64_encode b64 x))"

lemma b64_char_bounds: "b64_char b \<Longrightarrow> 0x2B \<le> unat b \<and> unat b < 0x80 \<and> b \<noteq> 0x3B"
  by (auto simp: b64_char_def is_digit_def in_range_unat)

lemma utf8_valid_seven_bit: "list_all (\<lambda>b. unat b < 0x80) s \<Longrightarrow> utf8_valid s"
proof (induction s)
  case (Cons b s)
  then have "utf8_encode (unat b) @ s = b # s" by (simp add: utf8_encode_def)
  with Cons utf8_valid_encode_append [of "unat b" s] show ?case by (simp add: is_scalar_def)
qed simp

lemma prefix_bytes: "list_all (\<lambda>b. 0x20 \<le> unat b \<and> unat b < 0x80) APC_PREFIX"
  by (simp add: APC_PREFIX_def)

lemma from_apc_sent:
  assumes "base64_codec b64" "mm_pane_id m \<le> U32_MAX"
  shows "from_apc b64 (APC_PREFIX @ b64_encode b64 (to_frame_body m)) = Inr m"
proof -
  have "strip_prefix APC_PREFIX (APC_PREFIX @ t) = Some t" for t by (simp add: strip_prefix_Some)
  with assms show ?thesis by (simp add: from_apc_def base64_codec_def frame_body_decodes)
qed

lemma lossy_sent:
  assumes "base64_codec b64"
  shows "utf8_lossy (APC_PREFIX @ b64_encode b64 x) = APC_PREFIX @ b64_encode b64 x"
    "utf8_lossy (b64_encode b64 x) = b64_encode b64 x"
proof -
  have a: "list_all (\<lambda>b. unat b < 0x80) (b64_encode b64 x)"
    using assms b64_char_bounds by (auto simp: base64_codec_def list_all_iff)
  moreover have "list_all (\<lambda>b. unat b < 0x80) APC_PREFIX" by (simp add: APC_PREFIX_def)
  ultimately have "list_all (\<lambda>b. unat b < 0x80) (APC_PREFIX @ b64_encode b64 x)" by simp
  with a show "utf8_lossy (APC_PREFIX @ b64_encode b64 x) = APC_PREFIX @ b64_encode b64 x"
    "utf8_lossy (b64_encode b64 x) = b64_encode b64 x"
    by (blast intro: utf8_lossy_valid utf8_valid_seven_bit)+
qed

subsection \<open>Frames through the scanner\<close>

lemma apc_body_run:
  assumes "ip_state p = InApc" "list_all (\<lambda>b. 0x20 \<le> unat b) bs" "length (ip_apc_buf p) + length bs \<le> MAX_APC_PAYLOAD"
  shows "foldl (stdin_byte b64) (p, acts) bs = (p\<lparr>ip_apc_buf := ip_apc_buf p @ bs\<rparr>, acts)"
  using assms
proof (induction bs arbitrary: p)
  case (Cons b bs)
  have "b \<noteq> 0x1B" "b \<noteq> 0x07" using Cons.prems(2) by auto
  then have "stdin_byte b64 (p, acts) b = (p\<lparr>ip_apc_buf := ip_apc_buf p @ [b]\<rparr>, acts)"
    using Cons.prems(1,3) by (simp add: stdin_byte_def stdin_in_apc_def upd_run_def)
  with Cons.IH [of "p\<lparr>ip_apc_buf := ip_apc_buf p @ [b]\<rparr>"] Cons.prems show ?case by simp
qed simp

lemma plaintext_body_run:
  assumes "ip_state p = InPlaintext" "list_all (\<lambda>b. 0x20 \<le> unat b) bs" "length (ip_apc_buf p) + length bs \<le> MAX_APC_PAYLOAD"
  shows "foldl (stdin_byte b64) (p, acts) bs = (p\<lparr>ip_apc_buf := ip_apc_buf p @ bs\<rparr>, acts)"
  using assms
proof (induction bs arbitrary: p)
  case (Cons b bs)
  have "b \<noteq> 0x0D" "b \<noteq> 0x0A" using Cons.prems(2) by auto
  then have "stdin_byte b64 (p, acts) b = (p\<lparr>ip_apc_buf := ip_apc_buf p @ [b]\<rparr>, acts)"
    using Cons.prems(1,3) by (simp add: stdin_byte_def stdin_in_plaintext_def)
  with Cons.IH [of "p\<lparr>ip_apc_buf := ip_apc_buf p @ [b]\<rparr>"] Cons.prems show ?case by simp
qed simp

definition stdin_ready :: "stdin_parser \<Rightarrow> bool" where
  "stdin_ready p \<longleftrightarrow> ip_state p = StdinGround \<and> ip_passthrough_buf p = []"

definition encode_by :: "base64 \<Rightarrow> transport \<times> mux_message \<Rightarrow> rstring" where
  "encode_by b64 tm = (case tm of (Apc, m) \<Rightarrow> to_apc b64 m | (Osc, m) \<Rightarrow> to_osc b64 m | (Plaintext, m) \<Rightarrow> to_plaintext b64 m)"

definition sendable :: "base64 \<Rightarrow> mux_message \<Rightarrow> bool" where
  "sendable b64 m \<longleftrightarrow> mm_pane_id m \<le> U32_MAX
     \<and> length APC_PREFIX + length (b64_encode b64 (to_frame_body m)) \<le> MAX_APC_PAYLOAD"

text \<open>The end of an APC or OSC frame whose body has been collected.\<close>

lemma frame_end:
  assumes "base64_codec b64" "mm_pane_id m \<le> U32_MAX" "ip_state p = InApc"
    "ip_apc_buf p = APC_PREFIX @ b64_encode b64 (to_frame_body m)"
  shows "foldl (stdin_byte b64) (p, acts) APC_ST =
    (p\<lparr>ip_apc_buf := [], ip_state := StdinGround\<rparr>, acts @ [MuxAction m (if ip_is_osc p then Osc else Apc)])"
proof -
  have "strip_prefix APC_PREFIX (APC_PREFIX @ t) = Some t" for t by (simp add: strip_prefix_Some)
  then have "complete_mux_sequence b64 (ip_apc_buf p) (ip_is_osc p) = [MuxAction m (if ip_is_osc p then Osc else Apc)]"
    using assms(4) by (simp add: complete_mux_sequence_def lossy_sent [OF assms(1)] from_apc_sent [OF assms(1,2)])
  with assms(3) show ?thesis
    by (simp add: APC_ST_def stdin_byte_def stdin_in_apc_def stdin_in_apc_esc_def stdin_complete_def upd_run_def)
qed

lemma frame_run:
  assumes codec: "base64_codec b64" and m: "sendable b64 m" and p: "stdin_ready p"
  shows "\<exists>q. foldl (stdin_byte b64) (p, acts) (encode_by b64 (t, m)) = (q, acts @ [MuxAction m t]) \<and> stdin_ready q"
proof -
  let ?text = "b64_encode b64 (to_frame_body m)"
  have size: "length APC_PREFIX + length ?text \<le> MAX_APC_PAYLOAD" and pane: "mm_pane_id m \<le> U32_MAX"
    using m by (simp_all add: sendable_def)
  have body: "list_all (\<lambda>b. 0x20 \<le> unat b) ?text"
    using codec b64_char_bounds by (fastforce simp: base64_codec_def list_all_iff)
  then have full: "list_all (\<lambda>b. 0x20 \<le> unat b) (APC_PREFIX @ ?text)"
    using prefix_bytes by (auto simp: list_all_iff)
  have st: "ip_state p = StdinGround" "ip_passthrough_buf p = []" using p by (simp_all add: stdin_ready_def)
  show ?thesis
  proof (cases t)
    case Apc
    let ?p1 = "p\<lparr>ip_swallow_partner_eol := False, ip_state := InApc, ip_apc_buf := [], ip_is_osc := False\<rparr>"
    have "foldl (stdin_byte b64) (p, acts) APC_START = (?p1, acts)"
      using st by (simp add: APC_START_def stdin_byte_def stdin_ground_def stdin_esc_seen_def upd_run_def flush_passthrough_def)
    then have "foldl (stdin_byte b64) (p, acts) (encode_by b64 (t, m)) =
        foldl (stdin_byte b64) (?p1\<lparr>ip_apc_buf := APC_PREFIX @ ?text\<rparr>, acts) APC_ST"
      using apc_body_run [of ?p1 "APC_PREFIX @ ?text" b64 acts] full size Apc
      by (simp add: encode_by_def to_apc_def)
    with frame_end [OF codec pane, of "?p1\<lparr>ip_apc_buf := APC_PREFIX @ ?text\<rparr>" acts] st Apc show ?thesis
      by (simp add: stdin_ready_def)
  next
    case Osc
    let ?p1 = "p\<lparr>ip_swallow_partner_eol := False, ip_state := InApc, ip_apc_buf := [], ip_is_osc := True,
      ip_osc_param_accum := 9999, ip_osc_param_digits := [0x39, 0x39, 0x39, 0x39]\<rparr>"
    have d: "decimal MUX_OSC_PARAM = [0x39, 0x39, 0x39, 0x39]"
      by (simp add: MUX_OSC_PARAM_def decimal.simps u8_eq_unat)
    have "foldl (stdin_byte b64) (p, acts) (OSC_START @ decimal MUX_OSC_PARAM @ [0x3B]) = (?p1, acts)"
      using st unfolding d
      by (simp add: OSC_START_def stdin_byte_def stdin_ground_def stdin_esc_seen_def stdin_osc_param_def upd_run_def
          flush_passthrough_def Let_def is_digit_def in_range_unat sat_mul16_def U16_MAX_def MUX_OSC_PARAM_def)
    then have "foldl (stdin_byte b64) (p, acts) (encode_by b64 (t, m)) =
        foldl (stdin_byte b64) (?p1\<lparr>ip_apc_buf := APC_PREFIX @ ?text\<rparr>, acts) APC_ST"
      using apc_body_run [of ?p1 "APC_PREFIX @ ?text" b64 acts] full size Osc
      by (simp add: encode_by_def to_osc_def)
    with frame_end [OF codec pane, of "?p1\<lparr>ip_apc_buf := APC_PREFIX @ ?text\<rparr>" acts] st Osc show ?thesis
      by (simp add: stdin_ready_def)
  next
    case Plaintext
    let ?p1 = "p\<lparr>ip_swallow_partner_eol := False, ip_state := InPlaintext, ip_apc_buf := [], ip_prefix_matched := 5\<rparr>"
    have "foldl (stdin_byte b64) (p, acts) PLAINTEXT_PREFIX = (?p1, acts)"
      using st by (simp add: PLAINTEXT_PREFIX_def stdin_byte_def stdin_ground_def stdin_in_prefix_def upd_run_def
          flush_passthrough_def Let_def)
    then have "foldl (stdin_byte b64) (p, acts) (encode_by b64 (t, m)) =
        foldl (stdin_byte b64) (?p1\<lparr>ip_apc_buf := ?text\<rparr>, acts) [0x0D]"
      using plaintext_body_run [of ?p1 ?text b64 acts] body size Plaintext
      by (simp add: encode_by_def to_plaintext_def)
    also have "\<dots> = (?p1\<lparr>ip_apc_buf := [], ip_swallow_partner_eol := True, ip_state := StdinGround\<rparr>, acts @ [MuxAction m Plaintext])"
      by (simp add: stdin_byte_def stdin_in_plaintext_def complete_plaintext_sequence_def
          lossy_sent [OF codec] from_apc_sent [OF codec pane])
    finally show ?thesis using st Plaintext by (simp add: stdin_ready_def)
  qed
qed

lemma frames_run:
  assumes "base64_codec b64" "list_all (\<lambda>(t, m). sendable b64 m) msgs" "stdin_ready p"
  shows "\<exists>q. foldl (stdin_byte b64) (p, acts) (concat (map (encode_by b64) msgs)) =
    (q, acts @ map (\<lambda>(t, m). MuxAction m t) msgs) \<and> stdin_ready q"
  using assms(2,3)
proof (induction msgs arbitrary: p acts)
  case (Cons tm msgs)
  obtain t m where tm: "tm = (t, m)" by force
  with Cons.prems obtain q where q: "foldl (stdin_byte b64) (p, acts) (encode_by b64 (t, m)) = (q, acts @ [MuxAction m t])" "stdin_ready q"
    using frame_run [OF assms(1), of m p acts t] by auto
  with Cons.IH [of q "acts @ [MuxAction m t]"] Cons.prems(1) show ?case by (auto simp: tm)
qed simp

text \<open>A codec to evaluate the model with: two letters for each byte.\<close>

definition sample_byte :: "rstring \<Rightarrow> nat \<Rightarrow> u8" where
  "sample_byte s i = as_u8 (16 * (unat (s ! (2 * i)) - 0x41) + (unat (s ! Suc (2 * i)) - 0x41))"

definition sample_codec :: base64 where
  "sample_codec =
     \<lparr>b64_encode = (\<lambda>x. concat (map (\<lambda>b. [as_u8 (0x41 + unat b div 16), as_u8 (0x41 + unat b mod 16)]) x)),
      b64_decode = (\<lambda>s. Some (map (sample_byte s) [0..<length s div 2]))\<rparr>"

lemma sample_pair: "as_u8 (16 * (unat (as_u8 (0x41 + unat (b :: u8) div 16)) - 0x41) + (unat (as_u8 (0x41 + unat b mod 16)) - 0x41)) = b"
proof -
  have "unat b < 256" by (rule u8_cases_lt)
  then have "unat b div 16 < 16" by simp
  then show ?thesis by simp
qed

lemma sample_codec_ok: "base64_codec sample_codec"
proof -
  have len: "length (b64_encode sample_codec x) = 2 * length x" for x
    by (induction x) (simp_all add: sample_codec_def)
  have nth: "b64_encode sample_codec x ! (2 * i) = as_u8 (0x41 + unat (x ! i) div 16)
      \<and> b64_encode sample_codec x ! Suc (2 * i) = as_u8 (0x41 + unat (x ! i) mod 16)" if "i < length x" for x i
    using that
  proof (induction x arbitrary: i)
    case (Cons b x)
    then show ?case by (cases i) (simp_all add: sample_codec_def)
  qed simp
  have "b64_decode sample_codec (b64_encode sample_codec x) = Some x" for x
  proof -
    have "sample_byte (b64_encode sample_codec x) i = x ! i" if "i < length x" for i
      using nth [OF that] sample_pair [of "x ! i"] by (simp add: sample_byte_def)
    then have "map (sample_byte (b64_encode sample_codec x)) [0..<length x] = x"
      by (intro nth_equalityI) simp_all
    then show ?thesis using len [of x] by (simp add: sample_codec_def)
  qed
  moreover have "b64_char (as_u8 (0x41 + n))" if "n < 16" for n
    using that by (simp add: b64_char_def in_range_unat)
  then have "list_all b64_char (b64_encode sample_codec x)" for x
    by (auto simp: sample_codec_def list_all_iff less_mult_imp_div_less u8_cases_lt)
  ultimately show ?thesis by (simp add: base64_codec_def)
qed

text \<open>C26. Whatever messages the terminal sends to the bridge, each over any of the three transports, and
  however the stream is cut into reads, exactly these messages come out, in order, each with its
  transport, and not a byte of them is passed through as input.  This relies on base64 being
  invertible on an alphabet of letters, digits and + / =, and on the size limit of 22 MiB.\<close>

theorem mux_frames_survive:
  assumes "base64_codec b64" and "list_all (\<lambda>(t, m). sendable b64 m) msgs"
    and "concat chunks = concat (map (encode_by b64) msgs)"
  shows "run_view (stdin_feeds b64 stdin_parser_new chunks) = map (\<lambda>(t, m). Inr (m, t)) msgs"
proof -
  have "stdin_ready stdin_parser_new" by (simp add: stdin_ready_def stdin_parser_new_def)
  from frames_run [OF assms(1,2) this, of "[]"] obtain q where
    q: "foldl (stdin_byte b64) (stdin_parser_new, []) (concat chunks) = (q, map (\<lambda>(t, m). MuxAction m t) msgs)" "stdin_ready q"
    by (auto simp: assms(3))
  have "held_ok stdin_parser_new" by (simp add: held_ok_def stdin_parser_new_def)
  from stdin_feeds_run [OF this, of b64 chunks]
  have "run_view (stdin_feeds b64 stdin_parser_new chunks) = run_view (q, map (\<lambda>(t, m). MuxAction m t) msgs)"
    by (simp add: q(1))
  also have "\<dots> = map (\<lambda>(t, m). Inr (m, t)) msgs"
    using q(2) by (induction msgs) (auto simp: run_view_def stdin_ready_def)
  finally show ?thesis .
qed

lemma mux_frames_survive_witness:
  "run_view (stdin_feeds sample_codec stdin_parser_new
      (map (\<lambda>b. [b]) (to_apc sample_codec (pty_input 7 [0x61]) @ to_plaintext sample_codec (pty_input 7 [0x62])))) =
    [Inr (pty_input 7 [0x61], Apc), Inr (pty_input 7 [0x62], Plaintext)]"
proof -
  have "sendable sample_codec (pty_input 7 [b])" for b
    by (simp add: sendable_def pty_input_def to_frame_body_def sample_codec_def U32_MAX_def APC_PREFIX_def
        MAX_APC_PAYLOAD_def to_le_bytes_def upt_rec)
  moreover have "concat (map (\<lambda>b. [b]) xs) = xs" for xs :: "u8 list" by (induction xs) simp_all
  ultimately show ?thesis
    using mux_frames_survive [OF sample_codec_ok, of "[(Apc, pty_input 7 [0x61]), (Plaintext, pty_input 7 [0x62])]"]
    by (simp add: encode_by_def)
qed

text \<open>A frame that follows an \<open>E\<close> of ordinary input is lost: its escape character is consumed as a
  mismatch of the plaintext prefix.\<close>

lemma stdin_pass_run:
  assumes "ip_state p = StdinGround" "\<not> ip_swallow_partner_eol p" "0x1B \<notin> set bs" "0x45 \<notin> set bs"
  shows "foldl (stdin_byte b64) (p, acts) bs = (p\<lparr>ip_passthrough_buf := ip_passthrough_buf p @ bs\<rparr>, acts)"
  using assms
proof (induction bs arbitrary: p)
  case (Cons b bs)
  have "stdin_byte b64 (p, acts) b = (p\<lparr>ip_passthrough_buf := ip_passthrough_buf p @ [b]\<rparr>, acts)"
    using Cons.prems by (cases p) (auto simp: stdin_byte_def stdin_ground_def upd_run_def pass_def PLAINTEXT_PREFIX_def Let_def)
  with Cons.IH [of "p\<lparr>ip_passthrough_buf := ip_passthrough_buf p @ [b]\<rparr>"] Cons.prems show ?case by simp
qed simp

lemma frame_after_E_lost:
  assumes "base64_codec b64" and "0x45 \<notin> set (b64_encode b64 (to_frame_body m))"
  shows "run_view (stdin_feed b64 stdin_parser_new (0x45 # to_apc b64 m)) = map Inl (0x45 # to_apc b64 m)"
proof -
  let ?text = "b64_encode b64 (to_frame_body m)"
  let ?p = "stdin_parser_new\<lparr>ip_passthrough_buf := [0x45, 0x1B]\<rparr>"
  have "0x1B \<notin> set ?text" using assms(1) b64_char_bounds by (fastforce simp: base64_codec_def list_all_iff)
  then have "foldl (stdin_byte b64) (?p, []) (0x5F # APC_PREFIX @ ?text) = (?p\<lparr>ip_passthrough_buf := [0x45, 0x1B] @ 0x5F # APC_PREFIX @ ?text\<rparr>, [])"
    using stdin_pass_run [of ?p "0x5F # APC_PREFIX @ ?text" b64 "[]"] assms(2)
    by (simp add: stdin_parser_new_def APC_PREFIX_def)
  moreover have "foldl (stdin_byte b64) (stdin_parser_new, []) [0x45, 0x1B] = (?p, [])"
    by (simp add: stdin_byte_def stdin_ground_def stdin_in_prefix_def stdin_parser_new_def upd_run_def
        flush_passthrough_def pass_def PLAINTEXT_PREFIX_def Let_def)
  ultimately have "foldl (stdin_byte b64) (stdin_parser_new, []) (0x45 # to_apc b64 m) =
      foldl (stdin_byte b64) (?p\<lparr>ip_passthrough_buf := [0x45, 0x1B] @ 0x5F # APC_PREFIX @ ?text\<rparr>, []) APC_ST"
    by (simp add: to_apc_def APC_START_def)
  also have "\<dots> = (?p\<lparr>ip_passthrough_buf := 0x45 # to_apc b64 m\<rparr>, [])"
    by (simp add: APC_ST_def to_apc_def APC_START_def stdin_byte_def stdin_ground_def stdin_esc_seen_def
        stdin_parser_new_def upd_run_def pass_def PLAINTEXT_PREFIX_def)
  finally show ?thesis using stdin_feed_view [of b64 stdin_parser_new] by (simp add: run_view_def)
qed


text \<open>Escape characters inside a body bypass the size limit.\<close>

lemma escape_pairs_unbounded:
  "length (ip_apc_buf (fst (stdin_feed b64 stdin_parser_new ([0x1B, 0x5F] @ concat (replicate n [0x1B, 0x61]))))) = 2 * n"
proof -
  let ?p = "stdin_parser_new\<lparr>ip_state := InApc\<rparr>"
  have start: "foldl (stdin_byte b64) (stdin_parser_new, []) [0x1B, 0x5F] = (?p, [])"
    by (simp add: stdin_byte_def stdin_ground_def stdin_esc_seen_def stdin_parser_new_def upd_run_def flush_passthrough_def Let_def)
  have "foldl (stdin_byte b64) (p, []) (concat (replicate n [0x1B, 0x61])) =
      (p\<lparr>ip_apc_buf := ip_apc_buf p @ concat (replicate n [0x1B, 0x61])\<rparr>, [])" if "ip_state p = InApc" for p
    using that
  proof (induction n arbitrary: p)
    case (Suc n)
    have "foldl (stdin_byte b64) (p, []) [0x1B, 0x61] = (p\<lparr>ip_apc_buf := ip_apc_buf p @ [0x1B, 0x61]\<rparr>, [])"
      using Suc.prems by (cases p) (simp add: stdin_byte_def stdin_in_apc_def stdin_in_apc_esc_def upd_run_def)
    with Suc.IH [of "p\<lparr>ip_apc_buf := ip_apc_buf p @ [0x1B, 0x61]\<rparr>"] Suc.prems show ?case by simp
  qed simp
  from this [of ?p] have run: "foldl (stdin_byte b64) (stdin_parser_new, []) ([0x1B, 0x5F] @ concat (replicate n [0x1B, 0x61])) =
      (?p\<lparr>ip_apc_buf := concat (replicate n [0x1B, 0x61])\<rparr>, [])"
    using start by (simp add: stdin_parser_new_def)
  have "length (concat (replicate n [0x1B :: u8, 0x61])) = 2 * n" by (induction n) simp_all
  then show ?thesis unfolding stdin_feed_def run by (simp add: stdin_parser_new_def Let_def)
qed

text \<open>The number 655419999 wraps to 9999.\<close>

lemma osc_number_wraps:
  "ip_state (fst (stdin_feed b64 stdin_parser_new
     [0x1B, 0x5D, 0x36, 0x35, 0x35, 0x34, 0x31, 0x39, 0x39, 0x39, 0x39, 0x3B])) = InApc"
  by (simp add: stdin_feed_def stdin_byte_def stdin_ground_def stdin_esc_seen_def stdin_osc_param_def upd_run_def
      stdin_parser_new_def flush_passthrough_def Let_def is_digit_def in_range_unat sat_mul16_def U16_MAX_def
      MUX_OSC_PARAM_def)


end
