(* ===== verification/MuxExtractor.thy ===== *)
theory MuxExtractor
  imports VtParserProps StdinFacts
begin

text \<open>
  \<open>mux_apc_extractor.rs\<close>: the other direction.  A mux tab drives a parser of its own over the
  stream of the bridge and keeps only the mux frames, over APC or over OSC 9999.  This is where the
  escape-sequence parser and the mux protocol meet.
\<close>

record mux_apc_extractor =
  mx_parser :: parser
  mx_osc_param :: nat
  mx_prefix :: rstring

definition extractor_new :: "nat \<Rightarrow> rstring \<Rightarrow> mux_apc_extractor" where
  "extractor_new osc_param prefix = \<lparr>mx_parser = parser_new, mx_osc_param = osc_param, mx_prefix = prefix\<rparr>"

definition extractor_reset :: "mux_apc_extractor \<Rightarrow> mux_apc_extractor" where
  "extractor_reset x = x\<lparr>mx_parser := parser_reset (mx_parser x)\<rparr>"

definition mux_payload :: "nat \<Rightarrow> rstring \<Rightarrow> parsed_action \<Rightarrow> u8 list option" where
  "mux_payload osc_param prefix action =
     (case action of
        ApcDispatch payload \<Rightarrow> Some payload
      | OscDispatch param data _ _ \<Rightarrow>
          if param = osc_param \<and> strip_prefix prefix data \<noteq> None then Some data else None
      | _ \<Rightarrow> None)"

definition feed_with_offsets :: "mux_apc_extractor \<Rightarrow> u8 list \<Rightarrow> mux_apc_extractor \<times> (u8 list \<times> nat) list" where
  "feed_with_offsets x input =
     (let (p, actions) = parse_with_offsets (mx_parser x) input
      in (x\<lparr>mx_parser := p\<rparr>,
          List.map_filter (\<lambda>(action, stop). map_option (\<lambda>payload. (payload, stop)) (mux_payload (mx_osc_param x) (mx_prefix x) action))
            actions))"

definition extractor_feed :: "mux_apc_extractor \<Rightarrow> u8 list \<Rightarrow> mux_apc_extractor \<times> u8 list list" where
  "extractor_feed x input = (let (x, out) = feed_with_offsets x input in (x, map fst out))"

subsection \<open>Only the actions matter\<close>

lemma offsets_parse:
  "fst (parse_offsets_from i p input) = fst (parse p input)
   \<and> map fst (snd (parse_offsets_from i p input)) = snd (parse p input)"
proof (induction input arbitrary: i p)
  case (Cons b bs)
  obtain p1 acts where pb: "parse_byte p b = (p1, acts)" by force
  with Cons.IH [of "Suc i" p1] show ?case by (auto simp: parse_Cons split_def comp_def Let_def)
qed (simp add: parse_def)

lemma map_filter_fst:
  "map fst (List.map_filter (\<lambda>e. map_option (\<lambda>v. (v, snd e)) (f (fst e))) xs) = List.map_filter f (map fst xs)"
  by (induction xs) (auto simp: List.map_filter_def)

lemma extractor_feed_parse:
  "extractor_feed x input = (x\<lparr>mx_parser := fst (parse (mx_parser x) input)\<rparr>,
     List.map_filter (mux_payload (mx_osc_param x) (mx_prefix x)) (snd (parse (mx_parser x) input)))"
  using offsets_parse [of 0 "mx_parser x" input]
  by (simp add: extractor_feed_def feed_with_offsets_def parse_with_offsets_def split_def Let_def map_filter_fst)

text \<open>The reads of a mux tab, one after the other.\<close>

fun extractor_feeds :: "mux_apc_extractor \<Rightarrow> u8 list list \<Rightarrow> u8 list list" where
  "extractor_feeds x [] = []"
| "extractor_feeds x (d # ds) = (let (x1, out) = extractor_feed x d in out @ extractor_feeds x1 ds)"

lemma map_filter_append: "List.map_filter f (xs @ ys) = List.map_filter f xs @ List.map_filter f ys"
  by (simp add: List.map_filter_def)

lemma extractor_feeds_parse:
  "extractor_feeds x chunks =
     List.map_filter (mux_payload (mx_osc_param x) (mx_prefix x)) (snd (parse (mx_parser x) (concat chunks)))"
proof (induction chunks arbitrary: x)
  case (Cons d ds)
  show ?case
    using Cons.IH [of "x\<lparr>mx_parser := fst (parse (mx_parser x) d)\<rparr>"]
    by (simp add: extractor_feed_parse parse_append map_filter_append split_def Let_def)
qed (simp add: parse_def List.map_filter_def)

subsection \<open>Frames\<close>

definition frame_text :: "base64 \<Rightarrow> mux_message \<Rightarrow> rstring" where
  "frame_text b64 m = APC_PREFIX @ b64_encode b64 (to_frame_body m)"

text \<open>What fits the string buffer of the parser for the transport.\<close>

definition deliverable :: "base64 \<Rightarrow> transport \<times> mux_message \<Rightarrow> bool" where
  "deliverable b64 tm \<longleftrightarrow> mm_pane_id (snd tm) \<le> U32_MAX \<and>
     (case fst tm of Apc \<Rightarrow> length (frame_text b64 (snd tm)) \<le> MAX_APC_LEN
      | Osc \<Rightarrow> length (frame_text b64 (snd tm)) \<le> MAX_OSC_LEN
      | Plaintext \<Rightarrow> False)"

lemma frame_text_bytes:
  assumes "base64_codec b64"
  shows "list_all (\<lambda>b. 0x20 \<le> unat b \<and> unat b < 0x80) (frame_text b64 m)"
proof -
  have "list_all (\<lambda>b. 0x20 \<le> unat b \<and> unat b < 0x80) (b64_encode b64 x)" for x
    using assms b64_char_bounds by (fastforce simp: base64_codec_def list_all_iff)
  with prefix_bytes show ?thesis by (auto simp: frame_text_def list_all_iff)
qed

lemma apc_frame_parsed:
  assumes "base64_codec b64" "is_ground_clean p"
  shows "parse p (to_apc b64 m) = (p\<lparr>ps_apc_buffer := []\<rparr>, [ApcDispatch (take MAX_APC_LEN (frame_text b64 m))])"
proof -
  have "0x1B \<notin> set (frame_text b64 m)"
    using frame_text_bytes [OF assms(1), of m] by (auto simp: list_all_iff)
  from apc_dcs_parsed [OF assms(2) this] show ?thesis
    by (simp add: to_apc_def frame_text_def APC_START_def APC_ST_def)
qed

lemma osc_frame_parsed:
  assumes "base64_codec b64" "is_ground_clean p" "length (frame_text b64 m) \<le> MAX_OSC_LEN"
  shows "\<exists>n. parse p (to_osc b64 m) =
    (p\<lparr>ps_osc_buffer := [], ps_osc_param := 0, ps_osc_param_done := False, ps_osc_received_len := 0\<rparr>,
     [OscDispatch MUX_OSC_PARAM (frame_text b64 m) St n])"
proof -
  have bytes: "list_all (\<lambda>b. 0x20 \<le> unat b \<and> unat b < 0x80) (frame_text b64 m)"
    by (rule frame_text_bytes [OF assms(1)])
  have "list_all string_byte (frame_text b64 m)"
    using bytes by (auto simp: list_all_iff string_byte_def)
  moreover have "utf8_valid (frame_text b64 m)"
    by (rule utf8_valid_seven_bit) (use bytes in \<open>simp add: list_all_iff\<close>)
  ultimately have "parse p ([0x1B, 0x5D] @ decimal MUX_OSC_PARAM @ 0x3B # frame_text b64 m @ terminator_bytes St) =
      (p\<lparr>ps_osc_buffer := [], ps_osc_param := 0, ps_osc_param_done := False, ps_osc_received_len := 0\<rparr>,
       [OscDispatch MUX_OSC_PARAM (frame_text b64 m) St (length (decimal MUX_OSC_PARAM) + 1 + length (frame_text b64 m))])"
    using assms(2,3) by (intro osc_parsed) (simp_all add: MUX_OSC_PARAM_def U16_MAX_def)
  then show ?thesis by (simp add: to_osc_def frame_text_def OSC_START_def APC_ST_def)
qed

lemma frame_payload:
  assumes "base64_codec b64" "is_ground_clean p" "deliverable b64 tm"
  shows "is_ground_clean (fst (parse p (encode_by b64 tm)))
    \<and> List.map_filter (mux_payload MUX_OSC_PARAM APC_PREFIX) (snd (parse p (encode_by b64 tm))) = [frame_text b64 (snd tm)]"
proof (cases tm)
  case (Pair t m)
  show ?thesis
  proof (cases t)
    case Apc
    then show ?thesis
      using apc_frame_parsed [OF assms(1,2), of m] assms(2,3) Pair
      by (simp add: encode_by_def deliverable_def mux_payload_def List.map_filter_def is_ground_clean_def)
  next
    case Osc
    have len: "length (frame_text b64 m) \<le> MAX_OSC_LEN" using assms(3) Osc Pair by (simp add: deliverable_def)
    have "strip_prefix APC_PREFIX (frame_text b64 m) \<noteq> None"
      by (metis frame_text_def option.distinct(1) strip_prefix_Some)
    with osc_frame_parsed [OF assms(1,2) len] assms(2) Osc Pair show ?thesis
      by (auto simp: encode_by_def mux_payload_def List.map_filter_def is_ground_clean_def)
  next
    case Plaintext
    with assms(3) Pair show ?thesis by (simp add: deliverable_def)
  qed
qed

lemma frames_payloads:
  assumes "base64_codec b64" "list_all (deliverable b64) msgs" "is_ground_clean p"
  shows "List.map_filter (mux_payload MUX_OSC_PARAM APC_PREFIX) (snd (parse p (concat (map (encode_by b64) msgs))))
    = map (\<lambda>tm. frame_text b64 (snd tm)) msgs"
  using assms(2,3)
proof (induction msgs arbitrary: p)
  case (Cons tm msgs)
  have tm: "deliverable b64 tm" and rest: "list_all (deliverable b64) msgs" using Cons.prems(1) by simp_all
  note f = frame_payload [OF assms(1) Cons.prems(2) tm]
  show ?case
    using f Cons.IH [OF rest conjunct1 [OF f]] by (simp add: parse_append map_filter_append split_def Let_def)
qed (simp add: parse_def List.map_filter_def)

text \<open>C27. Mux messages sent to a terminal over APC or OSC 9999, cut into reads anywhere, are exactly the
  messages its extractor delivers: the escape-sequence parser, the extraction and the decoding of
  frames invert the encoding, as long as each frame fits the string buffer of the parser, 4 MiB of
  text for APC and 16 MiB for OSC.\<close>

theorem extractor_frames_survive:
  assumes "base64_codec b64" and "list_all (deliverable b64) msgs"
    and "concat chunks = concat (map (encode_by b64) msgs)"
  shows "map (from_apc b64) (extractor_feeds (extractor_new MUX_OSC_PARAM APC_PREFIX) chunks) = map (\<lambda>tm. Inr (snd tm)) msgs"
proof -
  have "is_ground_clean parser_new" by (simp add: is_ground_clean_def parser_new_def)
  from frames_payloads [OF assms(1,2) this]
  have "extractor_feeds (extractor_new MUX_OSC_PARAM APC_PREFIX) chunks = map (\<lambda>tm. frame_text b64 (snd tm)) msgs"
    by (simp add: extractor_feeds_parse extractor_new_def assms(3))
  then show ?thesis
    using assms(2) by (auto simp: frame_text_def deliverable_def list_all_iff from_apc_sent [OF assms(1)])
qed

lemma extractor_frames_survive_witness:
  "map (from_apc sample_codec) (extractor_feeds (extractor_new MUX_OSC_PARAM APC_PREFIX)
      (map (\<lambda>b. [b]) (to_apc sample_codec (pty_output 1 [0x61]) @ to_osc sample_codec (pty_output 2 [0x62]))))
   = [Inr (pty_output 1 [0x61]), Inr (pty_output 2 [0x62])]"
proof -
  have "deliverable sample_codec (Apc, pty_output 1 [0x61])" "deliverable sample_codec (Osc, pty_output 2 [0x62])"
    by (simp_all add: deliverable_def frame_text_def pty_output_def to_frame_body_def sample_codec_def U32_MAX_def
        APC_PREFIX_def MAX_APC_LEN_def MAX_OSC_LEN_def to_le_bytes_def upt_rec)
  moreover have "concat (map (\<lambda>b. [b]) xs) = xs" for xs :: "u8 list" by (induction xs) simp_all
  ultimately show ?thesis
    using extractor_frames_survive [OF sample_codec_ok, of "[(Apc, pty_output 1 [0x61]), (Osc, pty_output 2 [0x62])]"]
    by (simp add: encode_by_def)
qed

text \<open>A longer APC frame is cut, although the protocol admits frames of 16 MiB.\<close>

lemma long_apc_frame_cut:
  assumes "base64_codec b64" "MAX_APC_LEN < length (frame_text b64 m)"
  shows "extractor_feeds (extractor_new MUX_OSC_PARAM APC_PREFIX) [to_apc b64 m] = [take MAX_APC_LEN (frame_text b64 m)]"
proof -
  have "is_ground_clean parser_new" by (simp add: is_ground_clean_def parser_new_def)
  from apc_frame_parsed [OF assms(1) this, of m] show ?thesis
    by (simp add: extractor_feeds_parse extractor_new_def mux_payload_def List.map_filter_def)
qed


end
