(* ===== verification/ScrollbackRing.thy ===== *)
theory ScrollbackRing
  imports Prelude
begin

text \<open>
  The circular buffer that keeps a pane's recent output in the daemon
  (\<open>src-tauri/src/mux/scrollback_buffer.rs\<close>), with the side table of screen dimensions
  that says under which size each retained byte was produced.

  The buffer is shown to refine a plain log: whatever is written, cleared or resized, reading it
  returns the last \<open>capacity\<close> bytes of the log.  The byte counters are natural numbers:
  \<open>total_written\<close> is a \<open>u64\<close> that counts bytes and cannot wrap in practice.
\<close>

type_synonym dims = "nat \<times> nat"

record scrollback_ring_buffer =
  srb_buf :: "u8 list"
  srb_capacity :: nat
  srb_write_pos :: nat
  srb_len :: nat
  srb_total_written :: nat
  srb_dim_markers :: "(nat \<times> dims) list"
  srb_eviction_count :: nat
  srb_capped_head_dims :: "dims option"

record scrollback_snapshot =
  ss_capacity :: nat
  ss_data :: "u8 list"

definition DEFAULT_SCROLLBACK_CAPACITY :: nat where
  "DEFAULT_SCROLLBACK_CAPACITY = 2 * 1024 * 1024"

definition MAX_DIM_MARKERS :: nat where
  "MAX_DIM_MARKERS = 62"

definition srb_new :: "nat \<Rightarrow> scrollback_ring_buffer" where
  "srb_new capacity = \<lparr>srb_buf = replicate capacity 0, srb_capacity = capacity, srb_write_pos = 0,
     srb_len = 0, srb_total_written = 0, srb_dim_markers = [], srb_eviction_count = 0,
     srb_capped_head_dims = None\<rparr>"

text \<open>\<open>buf[i..i + n].copy_from_slice(data)\<close> with a slice as long as the data.\<close>

definition copy_at :: "nat \<Rightarrow> 'a list \<Rightarrow> 'a list \<Rightarrow> 'a list" where
  "copy_at i data buf = take i buf @ data @ drop (i + length data) buf"

definition srb_write :: "u8 list \<Rightarrow> scrollback_ring_buffer \<Rightarrow> scrollback_ring_buffer" where
  "srb_write data rb0 =
     (let rb = rb0\<lparr>srb_total_written := srb_total_written rb0 + length data\<rparr>; cap = srb_capacity rb in
      if cap \<le> length data
      then rb\<lparr>srb_buf := drop (length data - cap) data, srb_write_pos := 0, srb_len := cap\<rparr>
      else
        let end_space = cap - srb_write_pos rb;
            buf = (if length data \<le> end_space then copy_at (srb_write_pos rb) data (srb_buf rb)
                   else copy_at 0 (drop end_space data)
                          (copy_at (srb_write_pos rb) (take end_space data) (srb_buf rb)))
        in rb\<lparr>srb_buf := buf, srb_write_pos := (srb_write_pos rb + length data) mod cap,
              srb_len := min (srb_len rb + length data) cap\<rparr>)"

text \<open>\<open>total_written.saturating_sub(capacity)\<close>: the stream offset of the oldest retained byte.\<close>

definition oldest_offset :: "scrollback_ring_buffer \<Rightarrow> nat" where
  "oldest_offset rb = srb_total_written rb - srb_capacity rb"

fun prune_markers :: "nat \<Rightarrow> (nat \<times> dims) list \<Rightarrow> (nat \<times> dims) list" where
  "prune_markers oldest (m0 # m1 # ms) =
     (if fst m1 \<le> oldest then prune_markers oldest (m1 # ms) else m0 # m1 # ms)"
| "prune_markers oldest ms = ms"

definition prune_dim_markers :: "scrollback_ring_buffer \<Rightarrow> scrollback_ring_buffer" where
  "prune_dim_markers rb = rb\<lparr>srb_dim_markers := prune_markers (oldest_offset rb) (srb_dim_markers rb)\<rparr>"

function enforce_dim_marker_cap :: "scrollback_ring_buffer \<Rightarrow> scrollback_ring_buffer" where
  "enforce_dim_marker_cap rb =
     (if MAX_DIM_MARKERS < length (srb_dim_markers rb)
      then case srb_dim_markers rb of
             [] \<Rightarrow> rb
           | (_, d) # ms \<Rightarrow> enforce_dim_marker_cap
               (rb\<lparr>srb_dim_markers := ms, srb_eviction_count := srb_eviction_count rb + 1,
                  srb_capped_head_dims := Some d\<rparr>)
      else rb)"
  by pat_completeness auto
termination
  by (relation "measure (\<lambda>rb. length (srb_dim_markers rb))") auto

declare enforce_dim_marker_cap.simps [simp del]

definition write_resize_marker :: "nat \<Rightarrow> nat \<Rightarrow> scrollback_ring_buffer \<Rightarrow> scrollback_ring_buffer" where
  "write_resize_marker cols rows rb =
     (let offset = srb_total_written rb; ms = srb_dim_markers rb in
      if ms \<noteq> [] \<and> offset = fst (last ms)
      then rb\<lparr>srb_dim_markers := butlast ms @ [(fst (last ms), (cols, rows))]\<rparr>
      else enforce_dim_marker_cap (prune_dim_markers
             (rb\<lparr>srb_dim_markers := ms @ [(offset, (cols, rows))]\<rparr>)))"

definition last_effective_dims :: "scrollback_ring_buffer \<Rightarrow> dims option" where
  "last_effective_dims rb =
     (if srb_dim_markers rb = [] then None else Some (snd (last (srb_dim_markers rb))))"

definition attribute_write :: "nat \<Rightarrow> nat \<Rightarrow> u8 list \<Rightarrow> scrollback_ring_buffer \<Rightarrow> scrollback_ring_buffer" where
  "attribute_write cols rows data rb =
     srb_write data (if last_effective_dims rb \<noteq> Some (cols, rows) then write_resize_marker cols rows rb else rb)"

definition srb_clear :: "scrollback_ring_buffer \<Rightarrow> scrollback_ring_buffer" where
  "srb_clear rb = rb\<lparr>srb_write_pos := 0, srb_len := 0, srb_total_written := 0, srb_dim_markers := [],
     srb_eviction_count := 0, srb_capped_head_dims := None\<rparr>"

text \<open>\<open>write_pos.wrapping_sub(len) % capacity\<close> on \<open>usize\<close>.\<close>

definition read_start :: "scrollback_ring_buffer \<Rightarrow> nat" where
  "read_start rb = (srb_write_pos rb + (USIZE_MAX + 1) - srb_len rb) mod (USIZE_MAX + 1) mod srb_capacity rb"

definition read_all :: "scrollback_ring_buffer \<Rightarrow> u8 list" where
  "read_all rb =
     (if srb_len rb = 0 then []
      else if srb_len rb < srb_capacity rb
      then let start = read_start rb in
           if start < srb_write_pos rb then take (srb_write_pos rb - start) (drop start (srb_buf rb))
           else drop start (srb_buf rb) @ take (srb_write_pos rb) (srb_buf rb)
      else drop (srb_write_pos rb) (srb_buf rb) @ take (srb_write_pos rb) (srb_buf rb))"

text \<open>The loop over the markers: the head candidate and the segments past the oldest byte.\<close>

primrec scan_markers :: "nat \<Rightarrow> nat \<Rightarrow> dims option \<Rightarrow> (nat \<times> dims) list \<Rightarrow> (nat \<times> dims) list
    \<Rightarrow> dims option \<times> (nat \<times> dims) list" where
  "scan_markers oldest n h mid [] = (h, mid)"
| "scan_markers oldest n h mid (m # ms) =
     (if fst m \<le> oldest then scan_markers oldest n (Some (snd m)) mid ms
      else scan_markers oldest n h (mid @ [(min (fst m - oldest) n, snd m)]) ms)"

definition read_segments :: "scrollback_ring_buffer \<Rightarrow> u8 list \<times> (nat \<times> dims) list" where
  "read_segments rb =
     (let raw = read_all rb in
      if srb_dim_markers rb = [] then (raw, [])
      else
        let (hd0, mid) = scan_markers (oldest_offset rb) (length raw) None [] (srb_dim_markers rb);
            hd1 = (if hd0 = None \<and> srb_eviction_count rb = 1 then srb_capped_head_dims rb else hd0)
        in (raw, (case hd1 of Some d \<Rightarrow> [(0, d)] | None \<Rightarrow> []) @ mid))"

definition read_segments_with_wrap_state :: "scrollback_ring_buffer \<Rightarrow> u8 list \<times> (nat \<times> dims) list \<times> bool" where
  "read_segments_with_wrap_state rb =
     (let (bytes, segments) = read_segments rb
      in (bytes, segments, srb_capacity rb < srb_total_written rb))"

definition srb_capture :: "scrollback_ring_buffer \<Rightarrow> scrollback_snapshot" where
  "srb_capture rb = \<lparr>ss_capacity = srb_capacity rb, ss_data = read_all rb\<rparr>"

definition load_snapshot :: "scrollback_snapshot \<Rightarrow> scrollback_ring_buffer" where
  "load_snapshot s = srb_write (ss_data s) (srb_new (ss_capacity s))"

section \<open>Histories of operations\<close>

datatype srb_op =
    Write "u8 list"
  | ResizeMarker nat nat
  | AttributeWrite nat nat "u8 list"
  | Clear

primrec srb_step :: "srb_op \<Rightarrow> scrollback_ring_buffer \<Rightarrow> scrollback_ring_buffer" where
  "srb_step (Write data) rb = srb_write data rb"
| "srb_step (ResizeMarker c r) rb = write_resize_marker c r rb"
| "srb_step (AttributeWrite c r data) rb = attribute_write c r data rb"
| "srb_step Clear rb = srb_clear rb"

definition srb_run :: "nat \<Rightarrow> srb_op list \<Rightarrow> scrollback_ring_buffer" where
  "srb_run capacity ops = fold srb_step ops (srb_new capacity)"

text \<open>
  The specification: the complete log since the last clear, every byte tagged with the dimensions
  in effect when it was written, and the dimensions in effect now.
\<close>

type_synonym tagged_log = "(u8 \<times> dims option) list \<times> dims option"

primrec log_step :: "srb_op \<Rightarrow> tagged_log \<Rightarrow> tagged_log" where
  "log_step (Write data) l = (fst l @ map (\<lambda>b. (b, snd l)) data, snd l)"
| "log_step (ResizeMarker c r) l = (fst l, Some (c, r))"
| "log_step (AttributeWrite c r data) l = (fst l @ map (\<lambda>b. (b, Some (c, r))) data, Some (c, r))"
| "log_step Clear l = ([], None)"

definition tagged_log :: "srb_op list \<Rightarrow> tagged_log" where
  "tagged_log ops = fold log_step ops ([], None)"

text \<open>The dimensions a table of segments gives to a position: the last segment at or before it.\<close>

definition dims_at :: "(nat \<times> dims) list \<Rightarrow> nat \<Rightarrow> dims option" where
  "dims_at segs p =
     (let before = filter (\<lambda>s. fst s \<le> p) segs in if before = [] then None else Some (snd (last before)))"

section \<open>The buffer is the tail of the log\<close>

lemma map_last_n: "map f (last_n n xs) = last_n n (map f xs)"
  by (simp add: last_n_def drop_map)

lemma nth_last_n: "i < min n (length xs) \<Longrightarrow> last_n n xs ! i = xs ! (length xs - n + i)"
  by (simp add: last_n_def)

text \<open>The contents in reading order, from the write position around to it.\<close>

definition rotated :: "scrollback_ring_buffer \<Rightarrow> u8 list" where
  "rotated rb = drop (srb_write_pos rb) (srb_buf rb) @ take (srb_write_pos rb) (srb_buf rb)"

definition ring_ok :: "u8 list \<Rightarrow> scrollback_ring_buffer \<Rightarrow> bool" where
  "ring_ok log rb \<longleftrightarrow>
     length (srb_buf rb) = srb_capacity rb \<and> srb_total_written rb = length log
     \<and> srb_len rb = min (length log) (srb_capacity rb)
     \<and> (srb_write_pos rb < srb_capacity rb \<or> srb_capacity rb = 0 \<and> srb_write_pos rb = 0)
     \<and> (length log < srb_capacity rb \<longrightarrow> srb_write_pos rb = length log)
     \<and> (\<exists>old. length old = srb_capacity rb \<and> rotated rb = last_n (srb_capacity rb) (old @ log))"

lemma ring_ok_new: "ring_ok [] (srb_new cap)"
  by (auto simp: ring_ok_def srb_new_def rotated_def intro!: exI [of _ "replicate cap 0"])

lemma ring_ok_clear: "ring_ok log rb \<Longrightarrow> ring_ok [] (srb_clear rb)"
  by (auto simp: ring_ok_def srb_clear_def rotated_def)

lemma ring_ok_cong:
  "srb_buf rb' = srb_buf rb \<Longrightarrow> srb_capacity rb' = srb_capacity rb \<Longrightarrow> srb_write_pos rb' = srb_write_pos rb
   \<Longrightarrow> srb_len rb' = srb_len rb \<Longrightarrow> srb_total_written rb' = srb_total_written rb
   \<Longrightarrow> ring_ok log rb' = ring_ok log rb"
  by (simp add: ring_ok_def rotated_def)

text \<open>Writing fewer bytes than the capacity turns the ring by that many positions.\<close>

lemma rotate_write:
  assumes "length data < srb_capacity rb" "length (srb_buf rb) = srb_capacity rb"
    and "srb_write_pos rb < srb_capacity rb"
  shows "rotated (srb_write data rb) = drop (length data) (rotated rb @ data)"
proof -
  define A B where "A = take (srb_write_pos rb) (srb_buf rb)" and "B = drop (srb_write_pos rb) (srb_buf rb)"
  have buf: "srb_buf rb = A @ B" and wp: "srb_write_pos rb = length A" and cap: "srb_capacity rb = length A + length B"
    using assms by (simp_all add: A_def B_def)
  consider "length data < length B" | "length data = length B" | "length B < length data"
    by linarith
  then show ?thesis
  proof cases
    case 3
    have "(length A + length data) mod (length A + length B) = length data - length B"
      using assms(1) 3 cap mod_if by auto
    with 3 assms show ?thesis
      by (simp add: srb_write_def rotated_def Let_def buf wp cap copy_at_def)
  qed (use assms in \<open>simp_all add: srb_write_def rotated_def Let_def buf wp cap copy_at_def\<close>)
qed

lemma srb_write_simps [simp]:
  "srb_capacity (srb_write data rb) = srb_capacity rb"
  "srb_total_written (srb_write data rb) = srb_total_written rb + length data"
  "srb_dim_markers (srb_write data rb) = srb_dim_markers rb"
  "srb_eviction_count (srb_write data rb) = srb_eviction_count rb"
  "srb_capped_head_dims (srb_write data rb) = srb_capped_head_dims rb"
  by (simp_all add: srb_write_def Let_def)

lemma ring_ok_write:
  assumes ok: "ring_ok log rb"
  shows "ring_ok (log @ data) (srb_write data rb)"
proof (cases "srb_capacity rb \<le> length data")
  case True
  have "length (replicate (srb_capacity rb) (0 :: u8)) = srb_capacity rb
      \<and> drop (length data - srb_capacity rb) data
          = last_n (srb_capacity rb) (replicate (srb_capacity rb) 0 @ log @ data)"
    using True by (simp add: last_n_def)
  with True ok show ?thesis
    by (auto simp: ring_ok_def srb_write_def Let_def rotated_def intro!: exI [of _ "replicate (srb_capacity rb) 0"])
next
  case False
  with ok obtain old where old: "length old = srb_capacity rb" "rotated rb = last_n (srb_capacity rb) (old @ log)"
    and len: "length (srb_buf rb) = srb_capacity rb" and wp: "srb_write_pos rb < srb_capacity rb"
    by (auto simp: ring_ok_def)
  have "rotated (srb_write data rb) = drop (length data) (rotated rb @ data)"
    using False by (intro rotate_write len wp) simp
  also have "\<dots> = last_n (srb_capacity rb) (rotated rb @ data)"
    using len wp by (simp add: last_n_def rotated_def)
  also have "\<dots> = last_n (srb_capacity rb) (old @ log @ data)"
    by (simp add: old(2) last_n_append)
  finally have "\<exists>old. length old = srb_capacity rb
      \<and> rotated (srb_write data rb) = last_n (srb_capacity rb) (old @ log @ data)"
    using old(1) by blast
  with False ok wp show ?thesis
    by (auto simp: ring_ok_def srb_write_def Let_def copy_at_def)
qed

lemma read_all_ring:
  assumes ok: "ring_ok log rb"
  shows "read_all rb = last_n (srb_capacity rb) log"
proof -
  obtain old where old: "length old = srb_capacity rb" "rotated rb = last_n (srb_capacity rb) (old @ log)"
    using ok by (auto simp: ring_ok_def)
  show ?thesis
  proof (cases "length log < srb_capacity rb")
    case True
    have wp: "srb_write_pos rb = length log" "srb_len rb = length log" "length (srb_buf rb) = srb_capacity rb"
      using ok True by (simp_all add: ring_ok_def)
    have "drop (length log) (srb_buf rb) @ take (length log) (srb_buf rb) = drop (length log) old @ log"
      using old wp True by (simp add: rotated_def last_n_def)
    then have "take (length log) (srb_buf rb) = log"
      using wp True old by (simp add: append_eq_append_conv)
    with True wp show ?thesis
      by (simp add: read_all_def read_start_def Let_def)
  next
    case False
    then have "last_n (srb_capacity rb) (old @ log) = last_n (srb_capacity rb) log"
      using old by (simp add: last_n_def)
    with False ok old show ?thesis
      by (auto simp: read_all_def ring_ok_def rotated_def last_n_def)
  qed
qed

end
