(* ===== verification/PaneRingFacts.thy ===== *)
theory PaneRingFacts
  imports ScrollbackRing
begin

text \<open>
  What the pane ring buffer promises its readers: the bytes are the tail of everything written,
  the table of segments is short and ordered, and no byte is ever shown under dimensions other
  than those it was produced under.
\<close>

section \<open>Looking up dimensions\<close>

lemma dims_at_Nil [simp]: "dims_at [] p = None"
  by (simp add: dims_at_def)

lemma dims_at_append:
  "dims_at (xs @ ys) p = (case dims_at ys p of Some d \<Rightarrow> Some d | None \<Rightarrow> dims_at xs p)"
  by (auto simp: dims_at_def Let_def)

lemma dims_at_single [simp]: "dims_at [m] p = (if fst m \<le> p then Some (snd m) else None)"
  by (simp add: dims_at_def)

lemma dims_at_Cons:
  "dims_at (m # ms) p =
     (case dims_at ms p of Some d \<Rightarrow> Some d | None \<Rightarrow> if fst m \<le> p then Some (snd m) else None)"
  using dims_at_append [of "[m]" ms p] by (simp split: option.split)

lemma dims_at_None: "dims_at ms p = None \<longleftrightarrow> (\<forall>m\<in>set ms. p < fst m)"
  by (induction ms) (auto simp: dims_at_Cons not_le split: option.splits)

lemma dims_at_last:
  "ms \<noteq> [] \<Longrightarrow> fst (last ms) \<le> p \<Longrightarrow> dims_at ms p = Some (snd (last ms))"
  by (induction ms rule: rev_induct) (simp_all add: dims_at_append)

text \<open>The result of the loop over the markers, and the lookup it gives.\<close>

lemma scan_markers_eq:
  "scan_markers oldest n h mid ms =
     (case dims_at ms oldest of Some d \<Rightarrow> Some d | None \<Rightarrow> h,
      mid @ map (\<lambda>m. (min (fst m - oldest) n, snd m)) (filter (\<lambda>m. oldest < fst m) ms))"
  by (induction ms arbitrary: h mid) (auto simp: dims_at_Cons split: option.splits)

lemma dims_at_shifted:
  assumes "\<forall>m\<in>set ms. oldest < fst m \<and> fst m \<le> oldest + n" "p < n"
  shows "dims_at (map (\<lambda>m. (min (fst m - oldest) n, snd m)) ms) p = dims_at ms (oldest + p)"
  using assms(1)
proof (induction ms)
  case (Cons m ms)
  then have "min (fst m - oldest) n \<le> p \<longleftrightarrow> fst m \<le> oldest + p"
    using assms(2) by auto
  with Cons show ?case
    by (simp add: dims_at_Cons split: option.split)
qed simp

lemma dims_at_split:
  assumes "sorted_wrt (<) (map fst ms)" "oldest \<le> q"
  shows "dims_at ms q =
     (case dims_at (filter (\<lambda>m. oldest < fst m) ms) q of Some d \<Rightarrow> Some d | None \<Rightarrow> dims_at ms oldest)"
  using assms(1)
proof (induction ms)
  case (Cons m ms)
  show ?case
  proof (cases "fst m \<le> oldest")
    case True
    with Cons assms(2) show ?thesis
      by (auto simp: dims_at_Cons split: option.splits)
  next
    case False
    then have later: "\<forall>m'\<in>set ms. oldest < fst m'"
      using Cons.prems by auto
    then have "filter (\<lambda>m. oldest < fst m) ms = ms" "dims_at ms oldest = None"
      by (auto simp: dims_at_None)
    with False show ?thesis
      by (auto simp: dims_at_Cons split: option.splits)
  qed
qed simp

section \<open>The invariant of the side table\<close>

text \<open>
  A tag \<open>t\<close> and a table entry \<open>a\<close> fit together: the entry is the tag, or there is no
  entry and the tag is missing, or it was lost to the cap on the table (exactly once, with the
  lost dimensions remembered, or more than once).
\<close>

definition faithful :: "scrollback_ring_buffer \<Rightarrow> dims option \<Rightarrow> dims option \<Rightarrow> bool" where
  "faithful rb t a \<longleftrightarrow>
     (case a of Some d \<Rightarrow> t = Some d
      | None \<Rightarrow> t = None \<or> 2 \<le> srb_eviction_count rb
                  \<or> srb_eviction_count rb = 1 \<and> t = srb_capped_head_dims rb)"

definition markers_ok :: "tagged_log \<Rightarrow> scrollback_ring_buffer \<Rightarrow> bool" where
  "markers_ok l rb \<longleftrightarrow>
     ring_ok (map fst (fst l)) rb \<and> sorted_wrt (<) (map fst (srb_dim_markers rb))
     \<and> (\<forall>m\<in>set (srb_dim_markers rb). fst m \<le> length (fst l)) \<and> snd l = last_effective_dims rb
     \<and> (\<forall>i. oldest_offset rb \<le> i \<and> i < length (fst l) \<longrightarrow>
            faithful rb (snd (fst l ! i)) (dims_at (srb_dim_markers rb) i))"

lemma markers_ok_new: "markers_ok ([], None) (srb_new cap)"
  by (simp add: markers_ok_def ring_ok_new) (simp add: srb_new_def last_effective_dims_def)

lemma markers_ok_clear: "markers_ok l rb \<Longrightarrow> markers_ok ([], None) (srb_clear rb)"
  using ring_ok_clear [of "map fst (fst l)" rb]
  by (simp add: markers_ok_def) (simp add: srb_clear_def last_effective_dims_def)

lemma markers_ok_write:
  assumes ok: "markers_ok l rb"
  shows "markers_ok (log_step (Write data) l) (srb_write data rb)"
proof -
  let ?D = "srb_dim_markers rb" and ?n = "length (fst l)"
  have ring: "ring_ok (map fst (fst l) @ data) (srb_write data rb)"
    using ok by (intro ring_ok_write) (simp add: markers_ok_def)
  have newer: "dims_at ?D i = snd l" if "?n \<le> i" for i
  proof (cases "?D = []")
    case False
    have "\<forall>m\<in>set ?D. fst m \<le> ?n"
      using ok by (simp add: markers_ok_def)
    from bspec [OF this last_in_set [OF False]] that have "fst (last ?D) \<le> i"
      by (rule le_trans)
    with ok False show ?thesis
      by (simp add: dims_at_last markers_ok_def last_effective_dims_def)
  qed (use ok in \<open>simp add: markers_ok_def last_effective_dims_def\<close>)
  have eq: "faithful (srb_write data rb) = faithful rb"
    by (auto simp: faithful_def fun_eq_iff split: option.splits)
  have "faithful rb (snd ((fst l @ map (\<lambda>b. (b, snd l)) data) ! i)) (dims_at ?D i)"
    if "oldest_offset rb \<le> i" "i < ?n + length data" for i
    using ok that newer [of i]
    by (cases "i < ?n") (auto simp: markers_ok_def nth_append faithful_def split: option.splits)
  moreover have "oldest_offset rb \<le> oldest_offset (srb_write data rb)"
    by (simp add: oldest_offset_def)
  ultimately show ?thesis
    using ok ring by (auto simp: markers_ok_def eq comp_def last_effective_dims_def)
qed

text \<open>The three steps of recording a marker.\<close>

lemma prune_markers_lookup:
  "sorted_wrt (<) (map fst ms) \<Longrightarrow> oldest \<le> i \<Longrightarrow> dims_at (prune_markers oldest ms) i = dims_at ms i"
  by (induction oldest ms rule: prune_markers.induct)
     (auto simp: dims_at_Cons split: option.splits)

lemma prune_markers_last: "ms \<noteq> [] \<Longrightarrow> prune_markers oldest ms \<noteq> [] \<and> last (prune_markers oldest ms) = last ms"
  by (induction oldest ms rule: prune_markers.induct) simp_all

lemma prune_markers_drop: "\<exists>k. prune_markers oldest ms = drop k ms"
proof (induction oldest ms rule: prune_markers.induct)
  case (1 oldest m0 m1 ms)
  show ?case
  proof (cases "fst m1 \<le> oldest")
    case True
    with 1 obtain k where "prune_markers oldest (m1 # ms) = drop (Suc k) (m0 # m1 # ms)"
      by auto
    with True show ?thesis
      by (metis prune_markers.simps(1))
  qed (auto intro: exI [of _ 0])
qed (auto intro: exI [of _ 0])

lemma markers_ok_prune:
  assumes "markers_ok l rb"
  shows "markers_ok l (prune_dim_markers rb)"
proof -
  let ?D = "srb_dim_markers rb" and ?rb = "prune_dim_markers rb"
  obtain k where k: "prune_markers (oldest_offset rb) ?D = drop k ?D"
    using prune_markers_drop by blast
  have "ring_ok (map fst (fst l)) ?rb = ring_ok (map fst (fst l)) rb" "oldest_offset ?rb = oldest_offset rb"
    by (rule ring_ok_cong) (simp_all add: prune_dim_markers_def oldest_offset_def)
  moreover have "last_effective_dims ?rb = last_effective_dims rb"
    using prune_markers_last [of ?D "oldest_offset rb"]
    by (cases "?D = []") (simp_all add: prune_dim_markers_def last_effective_dims_def)
  moreover have "faithful ?rb = faithful rb"
    by (simp add: faithful_def prune_dim_markers_def fun_eq_iff split: option.split)
  moreover have "sorted_wrt (<) (map fst (drop k ?D))" "\<forall>m\<in>set (drop k ?D). fst m \<le> length (fst l)"
    using assms by (auto simp: markers_ok_def drop_map [symmetric] sorted_wrt_drop dest: in_set_dropD)
  moreover have "dims_at (srb_dim_markers ?rb) i = dims_at ?D i" if "oldest_offset rb \<le> i" for i
    using assms that by (simp add: prune_dim_markers_def prune_markers_lookup markers_ok_def)
  ultimately show ?thesis
    using assms by (simp add: markers_ok_def) (simp add: prune_dim_markers_def k)
qed

lemma markers_ok_evict:
  assumes ok: "markers_ok l rb" and D: "srb_dim_markers rb = (off, d) # ms" and "ms \<noteq> []"
  shows "markers_ok l (rb\<lparr>srb_dim_markers := ms, srb_eviction_count := Suc (srb_eviction_count rb),
           srb_capped_head_dims := Some d\<rparr>)" (is "markers_ok l ?rb")
proof -
  have "ring_ok (map fst (fst l)) ?rb = ring_ok (map fst (fst l)) rb" "oldest_offset ?rb = oldest_offset rb"
    by (rule ring_ok_cong) (simp_all add: oldest_offset_def)
  moreover have "last_effective_dims ?rb = last_effective_dims rb"
    using assms by (simp add: last_effective_dims_def)
  moreover have "faithful ?rb t (dims_at ms i)" if "faithful rb t (dims_at ((off, d) # ms) i)" for t i
    using that by (auto simp: faithful_def dims_at_Cons split: option.splits if_splits)
  ultimately show ?thesis
    using ok D by (auto simp: markers_ok_def)
qed

lemma markers_ok_enforce: "markers_ok l rb \<Longrightarrow> markers_ok l (enforce_dim_marker_cap rb)"
proof (induction rb rule: enforce_dim_marker_cap.induct)
  case (1 rb)
  show ?case
  proof (cases "MAX_DIM_MARKERS < length (srb_dim_markers rb)")
    case True
    obtain off d ms where D: "srb_dim_markers rb = (off, d) # ms"
      using True by (cases "srb_dim_markers rb") auto
    with True have "ms \<noteq> []"
      by (auto simp: MAX_DIM_MARKERS_def)
    show ?thesis
      using 1(1) [OF True D refl] markers_ok_evict [OF 1(2) D \<open>ms \<noteq> []\<close>] True
      by (simp add: enforce_dim_marker_cap.simps [of rb] D)
  qed (simp add: enforce_dim_marker_cap.simps [of rb] 1)
qed

lemma markers_ok_append:
  assumes ok: "markers_ok l rb" and new: "srb_dim_markers rb = [] \<or> fst (last (srb_dim_markers rb)) \<noteq> srb_total_written rb"
  shows "markers_ok (fst l, Some d) (rb\<lparr>srb_dim_markers := srb_dim_markers rb @ [(srb_total_written rb, d)]\<rparr>)"
    (is "markers_ok _ ?rb")
proof -
  let ?D = "srb_dim_markers rb"
  have total: "srb_total_written rb = length (fst l)"
    using ok by (simp add: markers_ok_def ring_ok_def)
  have "fst m < srb_total_written rb" if m: "m \<in> set ?D" for m
  proof -
    obtain xs z where D: "?D = xs @ [z]"
      using m by (cases ?D rule: rev_cases) auto
    then have "fst m \<le> fst z" "fst z < srb_total_written rb"
      using m ok new by (auto simp: markers_ok_def total sorted_wrt_append le_less)
    then show ?thesis by simp
  qed
  moreover have "ring_ok (map fst (fst l)) ?rb = ring_ok (map fst (fst l)) rb" "oldest_offset ?rb = oldest_offset rb"
    by (rule ring_ok_cong) (simp_all add: oldest_offset_def)
  moreover have "faithful ?rb = faithful rb"
    by (simp add: faithful_def fun_eq_iff split: option.split)
  ultimately show ?thesis
    using ok by (auto simp: markers_ok_def sorted_wrt_append dims_at_append total last_effective_dims_def)
qed

lemma markers_ok_replace:
  assumes ok: "markers_ok l rb" and D: "srb_dim_markers rb = ms @ [(srb_total_written rb, d)]"
  shows "markers_ok (fst l, Some d') (rb\<lparr>srb_dim_markers := ms @ [(srb_total_written rb, d')]\<rparr>)"
    (is "markers_ok _ ?rb")
proof -
  have total: "srb_total_written rb = length (fst l)"
    using ok by (simp add: markers_ok_def ring_ok_def)
  have "ring_ok (map fst (fst l)) ?rb = ring_ok (map fst (fst l)) rb" "oldest_offset ?rb = oldest_offset rb"
    by (rule ring_ok_cong) (simp_all add: oldest_offset_def)
  moreover have "faithful ?rb = faithful rb"
    by (simp add: faithful_def fun_eq_iff split: option.split)
  ultimately show ?thesis
    using ok D by (auto simp: markers_ok_def sorted_wrt_append dims_at_append total last_effective_dims_def)
qed

lemma markers_ok_marker:
  assumes ok: "markers_ok l rb"
  shows "markers_ok (fst l, Some (c, r)) (write_resize_marker c r rb)"
proof (cases "srb_dim_markers rb \<noteq> [] \<and> srb_total_written rb = fst (last (srb_dim_markers rb))")
  case True
  then obtain ms d where "srb_dim_markers rb = ms @ [(srb_total_written rb, d)]"
    by (cases "srb_dim_markers rb" rule: rev_cases) auto
  with markers_ok_replace [OF ok this] show ?thesis
    by (simp add: write_resize_marker_def Let_def)
next
  case False
  then show ?thesis
    using markers_ok_enforce [OF markers_ok_prune [OF markers_ok_append [OF ok, of "(c, r)"]]]
    by (auto simp: write_resize_marker_def Let_def)
qed

lemma markers_ok_step: "markers_ok l rb \<Longrightarrow> markers_ok (log_step op l) (srb_step op rb)"
proof (induction op)
  case (Write data)
  then show ?case by (metis markers_ok_write srb_step.simps(1))
next
  case (AttributeWrite c r data)
  have "markers_ok (fst l, Some (c, r)) (if last_effective_dims rb \<noteq> Some (c, r) then write_resize_marker c r rb else rb)"
    using AttributeWrite markers_ok_marker [OF AttributeWrite, of c r] by (cases l) (auto simp: markers_ok_def)
  from markers_ok_write [OF this] show ?case
    by (simp add: attribute_write_def)
qed (simp_all add: markers_ok_marker markers_ok_clear)

lemma markers_ok_run: "markers_ok (tagged_log ops) (srb_run cap ops)"
proof -
  have "markers_ok l rb \<Longrightarrow> markers_ok (fold log_step ops l) (fold srb_step ops rb)" for l rb
    by (induction ops arbitrary: l rb) (simp_all add: markers_ok_step)
  then show ?thesis
    by (simp add: tagged_log_def srb_run_def markers_ok_new)
qed

section \<open>The size of the side table\<close>

lemma enforce_size:
  "length (srb_dim_markers (enforce_dim_marker_cap rb)) = min MAX_DIM_MARKERS (length (srb_dim_markers rb))
   \<and> srb_eviction_count (enforce_dim_marker_cap rb)
       = srb_eviction_count rb + (length (srb_dim_markers rb) - MAX_DIM_MARKERS)"
proof (induction rb rule: enforce_dim_marker_cap.induct)
  case (1 rb)
  show ?case
  proof (cases "MAX_DIM_MARKERS < length (srb_dim_markers rb)")
    case True
    obtain off d ms where D: "srb_dim_markers rb = (off, d) # ms"
      using True by (cases "srb_dim_markers rb") auto
    show ?thesis
      using 1 [OF True D refl] True by (simp add: enforce_dim_marker_cap.simps [of rb] D)
  qed (simp add: enforce_dim_marker_cap.simps [of rb])
qed

text \<open>How many operations of a history can record a marker.\<close>

primrec records_marker :: "srb_op \<Rightarrow> bool" where
  "records_marker (Write data) = False"
| "records_marker (ResizeMarker c r) = True"
| "records_marker (AttributeWrite c r data) = True"
| "records_marker Clear = False"

definition size_ok :: "nat \<Rightarrow> scrollback_ring_buffer \<Rightarrow> bool" where
  "size_ok n rb \<longleftrightarrow>
     length (srb_dim_markers rb) \<le> MAX_DIM_MARKERS
     \<and> srb_eviction_count rb + length (srb_dim_markers rb) \<le> n
     \<and> (0 < srb_eviction_count rb \<longrightarrow> srb_eviction_count rb + MAX_DIM_MARKERS \<le> n)"

lemma prune_markers_length: "length (prune_markers oldest ms) \<le> length ms"
  by (induction oldest ms rule: prune_markers.induct) auto

lemma size_ok_marker: "size_ok n rb \<Longrightarrow> size_ok (Suc n) (write_resize_marker c r rb)"
  using prune_markers_length [of "oldest_offset rb" "srb_dim_markers rb @ [(srb_total_written rb, (c, r))]"]
  by (cases "srb_dim_markers rb" rule: rev_cases)
     (auto simp: size_ok_def write_resize_marker_def Let_def enforce_size prune_dim_markers_def oldest_offset_def)

lemma size_ok_mono: "size_ok n rb \<Longrightarrow> size_ok (Suc n) rb"
  by (auto simp: size_ok_def)

lemma size_ok_write [simp]: "size_ok n (srb_write data rb) = size_ok n rb"
  by (simp add: size_ok_def)

lemma size_ok_clear: "size_ok n (srb_clear rb)"
  by (simp add: size_ok_def srb_clear_def)

lemma size_ok_step: "size_ok n rb \<Longrightarrow> size_ok (n + (if records_marker op then 1 else 0)) (srb_step op rb)"
  by (cases op) (auto simp: size_ok_marker size_ok_mono size_ok_clear attribute_write_def)

lemma size_ok_run: "size_ok (length (filter records_marker ops)) (srb_run cap ops)"
proof -
  have "size_ok n rb \<Longrightarrow> size_ok (n + length (filter records_marker ops)) (fold srb_step ops rb)" for n rb
  proof (induction ops arbitrary: n rb)
    case (Cons op ops)
    from Cons.IH [OF size_ok_step [OF Cons.prems, of op]] show ?case
      by (simp split: if_splits)
  qed simp
  moreover have "size_ok 0 (srb_new cap)"
    by (simp add: size_ok_def srb_new_def)
  ultimately show ?thesis
    unfolding srb_run_def by fastforce
qed

section \<open>What readers see\<close>

lemma srb_capacity_simps [simp]:
  "srb_capacity (srb_clear rb) = srb_capacity rb"
  "srb_capacity (enforce_dim_marker_cap rb) = srb_capacity rb"
  "srb_capacity (write_resize_marker c r rb) = srb_capacity rb"
proof -
  show enforce: "srb_capacity (enforce_dim_marker_cap rb) = srb_capacity rb" for rb
    by (induction rb rule: enforce_dim_marker_cap.induct)
       (subst enforce_dim_marker_cap.simps, auto split: list.split)
  show "srb_capacity (write_resize_marker c r rb) = srb_capacity rb"
    by (simp add: write_resize_marker_def Let_def enforce prune_dim_markers_def)
qed (simp add: srb_clear_def)

lemma srb_capacity_run [simp]: "srb_capacity (srb_run cap ops) = cap"
proof -
  have "srb_capacity (srb_step op rb) = srb_capacity rb" for op rb
    by (cases op) (simp_all add: attribute_write_def)
  then have "srb_capacity (fold srb_step ops rb) = srb_capacity rb" for rb
    by (induction ops arbitrary: rb) simp_all
  then show ?thesis
    by (simp add: srb_run_def srb_new_def)
qed

lemma read_all_run: "read_all (srb_run cap ops) = last_n cap (map fst (fst (tagged_log ops)))"
  using markers_ok_run [of ops cap] read_all_ring [of _ "srb_run cap ops"] by (simp add: markers_ok_def)

text \<open>The segments handed to a reader say the same as the markers, up to the remembered head.\<close>

lemma read_segments_lookup:
  assumes ok: "markers_ok l rb" and p: "p < length (read_all rb)"
  shows "dims_at (snd (read_segments rb)) p =
    (case dims_at (srb_dim_markers rb) (oldest_offset rb + p) of
       Some d \<Rightarrow> Some d
     | None \<Rightarrow> if srb_dim_markers rb \<noteq> [] \<and> srb_eviction_count rb = 1 then srb_capped_head_dims rb else None)"
proof (cases "srb_dim_markers rb = []")
  case False
  let ?D = "srb_dim_markers rb" and ?o = "oldest_offset rb" and ?n = "length (read_all rb)"
  let ?late = "filter (\<lambda>m. ?o < fst m) ?D"
  have len: "?n = length (fst l) - ?o" and total: "?o \<le> length (fst l)"
    using ok read_all_ring [of "map fst (fst l)" rb] by (auto simp: markers_ok_def ring_ok_def oldest_offset_def)
  have "\<forall>m\<in>set ?late. ?o < fst m \<and> fst m \<le> ?o + ?n"
    using ok by (auto simp: markers_ok_def len total)
  from dims_at_shifted [OF this p]
  have mid: "dims_at (map (\<lambda>m. (min (fst m - ?o) ?n, snd m)) ?late) p = dims_at ?late (?o + p)" .
  have split: "dims_at ?D (?o + p) = (case dims_at ?late (?o + p) of Some d \<Rightarrow> Some d | None \<Rightarrow> dims_at ?D ?o)"
    using ok by (intro dims_at_split) (simp_all add: markers_ok_def)
  show ?thesis
    using False by (auto simp: read_segments_def Let_def scan_markers_eq dims_at_append mid split split: option.split)
qed (simp add: read_segments_def Let_def)

lemma attribution_run:
  assumes "p < length (read_all (srb_run cap ops))"
  shows "faithful (srb_run cap ops) (snd (last_n cap (fst (tagged_log ops)) ! p))
     (dims_at (srb_dim_markers (srb_run cap ops)) (oldest_offset (srb_run cap ops) + p))"
proof -
  let ?rb = "srb_run cap ops" and ?log = "fst (tagged_log ops)"
  note ok = markers_ok_run [of ops cap]
  have "oldest_offset ?rb = length ?log - cap" "p < min cap (length ?log)"
    using ok assms by (auto simp: markers_ok_def ring_ok_def oldest_offset_def read_all_run)
  with ok show ?thesis
    by (auto simp: markers_ok_def nth_last_n)
qed

section \<open>Properties\<close>

text \<open>C9. Whatever sequence of writes, resize markers, attributed writes and clears a pane ring
  buffer goes through, reading it back gives exactly the last \<open>capacity\<close> bytes written since
  the last clear.\<close>

theorem pane_ring_is_log_tail:
  "read_all (srb_run cap ops) = last_n cap (map fst (fst (tagged_log ops)))"
  by (rule read_all_run)

text \<open>A tag and a reported entry contradict each other only when both are there and differ.\<close>

definition compatible :: "dims option \<Rightarrow> dims option \<Rightarrow> bool" where
  "compatible t a \<longleftrightarrow> t = None \<or> a = None \<or> t = a"

text \<open>C10. The table of segments handed out with the bytes never attributes a byte to screen
  dimensions other than those in effect when it was written, however many resizes were recorded,
  coalesced, pruned or evicted.\<close>

theorem pane_ring_never_misattributes:
  "list_all2 compatible (map snd (last_n cap (fst (tagged_log ops))))
     (map (dims_at (snd (read_segments (srb_run cap ops)))) [0..<length (read_all (srb_run cap ops))])"
proof (rule list_all2_all_nthI)
  show "length (map snd (last_n cap (fst (tagged_log ops))))
      = length (map (dims_at (snd (read_segments (srb_run cap ops)))) [0..<length (read_all (srb_run cap ops))])"
    by (simp add: read_all_run)
next
  fix p assume "p < length (map snd (last_n cap (fst (tagged_log ops))))"
  then have p: "p < length (read_all (srb_run cap ops))" "p < length (last_n cap (fst (tagged_log ops)))"
    by (simp_all add: read_all_run)
  with attribution_run [OF p(1)] read_segments_lookup [OF markers_ok_run p(1)]
  show "compatible (map snd (last_n cap (fst (tagged_log ops))) ! p)
      (map (dims_at (snd (read_segments (srb_run cap ops)))) [0..<length (read_all (srb_run cap ops))] ! p)"
    by (auto simp: faithful_def compatible_def split: option.splits if_splits)
qed



text \<open>The table is short, strictly increasing and within the bytes.\<close>

lemma segments_shape:
  assumes ok: "markers_ok l rb" and segs: "segs = snd (read_segments rb)"
    and size: "length (srb_dim_markers rb) \<le> MAX_DIM_MARKERS"
  shows "length segs \<le> MAX_DIM_MARKERS + 1" "sorted_wrt (<) (map fst segs)"
    "\<forall>s\<in>set segs. fst s \<le> length (read_all rb)"
proof -
  let ?D = "srb_dim_markers rb" and ?o = "oldest_offset rb" and ?n = "length (read_all rb)"
  define mid where "mid = map (\<lambda>m. (min (fst m - ?o) ?n, snd m)) (filter (\<lambda>m. ?o < fst m) ?D)"
  have len: "?n = length (fst l) - ?o" "?o \<le> length (fst l)"
    using ok read_all_ring [of "map fst (fst l)" rb] by (auto simp: markers_ok_def ring_ok_def oldest_offset_def)
  obtain h where h: "segs = (case h of Some d \<Rightarrow> [(0, d)] | None \<Rightarrow> []) @ mid"
  proof (cases "?D = []")
    case True
    then show ?thesis
      using that [of None] by (simp add: segs read_segments_def Let_def mid_def)
  next
    case False
    then show ?thesis
      using that by (auto simp: segs read_segments_def Let_def scan_markers_eq mid_def)
  qed
  have "sorted_wrt (<) (map fst ?D)" and le: "\<forall>m\<in>set ?D. fst m \<le> length (fst l)"
    using ok by (simp_all add: markers_ok_def)
  then have late: "sorted_wrt (\<lambda>a b. fst a < fst b) (filter (\<lambda>m. ?o < fst m) ?D)"
    by (simp add: sorted_wrt_map sorted_wrt_filter)
  have "sorted_wrt (<) (map fst mid)"
    unfolding mid_def sorted_wrt_map
    by (rule sorted_wrt_mono_rel [OF _ late]) (use le in \<open>auto simp: len\<close>)
  moreover have "\<forall>s\<in>set mid. 0 < fst s \<and> fst s \<le> ?n"
    using le by (auto simp: mid_def len)
  moreover have "length mid \<le> MAX_DIM_MARKERS"
    using le_trans [OF length_filter_le size] by (simp add: mid_def)
  ultimately show "length segs \<le> MAX_DIM_MARKERS + 1" "sorted_wrt (<) (map fst segs)"
      "\<forall>s\<in>set segs. fst s \<le> length (read_all rb)"
    by (auto simp: h split: option.splits)
qed

lemma read_segments_run:
  "length (snd (read_segments (srb_run cap ops))) \<le> MAX_DIM_MARKERS + 1"
  "sorted_wrt (<) (map fst (snd (read_segments (srb_run cap ops))))"
  "\<forall>s\<in>set (snd (read_segments (srb_run cap ops))). fst s \<le> length (read_all (srb_run cap ops))"
  using segments_shape [OF markers_ok_run refl] size_ok_run [of ops cap] by (auto simp: size_ok_def)

lemma snapshot_restores_bytes: "read_all (load_snapshot (srb_capture (srb_run cap ops))) = read_all (srb_run cap ops)"
proof -
  let ?s = "srb_capture (srb_run cap ops)"
  have "load_snapshot ?s = srb_run cap [Write (read_all (srb_run cap ops))]"
    by (simp add: load_snapshot_def srb_capture_def srb_run_def [of _ "[_]"])
  then show ?thesis
    by (simp add: read_all_run tagged_log_def comp_def)
qed

end
