(* ===== verification/OscIdentify.thy ===== *)
theory OscIdentify
  imports OscHandler
begin

text \<open>
  What an operating system command is, as far as the daemon's filters care
  (\<open>src-tauri/src/mux/osc_identify.rs\<close>, \<open>src-tauri/src/viewer_kinds.rs\<close>): the number
  and data of a command body, and the classification of viewer launches, agent status reports and
  program status reports.  The code has it twice, once on the rebuilt and decoded text and once
  on the borrowed bytes; both are modelled and shown to agree.
\<close>

text \<open>\<open>markdown\<close>, \<open>image\<close>, \<open>json\<close>, \<open>yaml\<close>, \<open>html\<close>.\<close>

definition REPLAYABLE_VIEWER_KINDS :: "rstring list" where
  "REPLAYABLE_VIEWER_KINDS =
     [[0x6D, 0x61, 0x72, 0x6B, 0x64, 0x6F, 0x77, 0x6E], [0x69, 0x6D, 0x61, 0x67, 0x65],
      [0x6A, 0x73, 0x6F, 0x6E], [0x79, 0x61, 0x6D, 0x6C], [0x68, 0x74, 0x6D, 0x6C]]"

text \<open>\<open>agent-status\<close>, \<open>emterm;\<close> and \<open>emterm-md\<close>.\<close>

definition AGENT_STATUS_OSC_KIND :: rstring where
  "AGENT_STATUS_OSC_KIND = [0x61, 0x67, 0x65, 0x6E, 0x74, 0x2D, 0x73, 0x74, 0x61, 0x74, 0x75, 0x73]"

definition OSC_777_PAYLOAD_PREFIX :: rstring where
  "OSC_777_PAYLOAD_PREFIX = [0x65, 0x6D, 0x74, 0x65, 0x72, 0x6D, 0x3B]"

definition MARKDOWN_LAUNCH_TOKEN :: rstring where
  "MARKDOWN_LAUNCH_TOKEN = [0x65, 0x6D, 0x74, 0x65, 0x72, 0x6D, 0x2D, 0x6D, 0x64]"

definition OSC_NUMBER_EMTERM :: nat where "OSC_NUMBER_EMTERM = 777"
definition OSC_NUMBER_MARKDOWN :: nat where "OSC_NUMBER_MARKDOWN = 9999"
definition OSC_NUMBER_PROGRAM_STATUS :: nat where "OSC_NUMBER_PROGRAM_STATUS = 7501"

record recovered_osc =
  ro_number :: "nat option"
  ro_data :: rstring

datatype osc_identity =
    ViewerLaunch rstring
  | MarkdownLaunch
  | AgentStatusReport
  | ProgramStatus
  | NotIdentified

section \<open>Recovery and identification\<close>

text \<open>One digit of a saturating \<open>u32\<close> number.\<close>

definition digit32 :: "nat \<Rightarrow> u8 \<Rightarrow> nat" where
  "digit32 acc b = sat_add32 (min U32_MAX (acc * 10)) (unat (b - 0x30))"

text \<open>The loop of \<open>recover_osc\<close>: number, overflow flag, whether the first separator was
  seen, and the data.\<close>

fun recover_loop :: "nat \<Rightarrow> bool \<Rightarrow> bool \<Rightarrow> u8 list \<Rightarrow> u8 list \<Rightarrow> nat \<times> bool \<times> u8 list" where
  "recover_loop acc overflowed seen data [] = (acc, overflowed, data)"
| "recover_loop acc overflowed seen data (b # bs) =
     (if \<not> seen \<and> is_digit b then
        recover_loop (digit32 acc b) (overflowed \<or> U16_MAX < digit32 acc b) seen data bs
      else if \<not> seen \<and> b = 0x3B then recover_loop acc overflowed True data bs
      else recover_loop acc overflowed seen (data @ [b]) bs)"

definition u16_try_from :: "nat \<Rightarrow> nat option" where
  "u16_try_from n = (if n \<le> U16_MAX then Some n else None)"

definition recover_osc :: "u8 list \<Rightarrow> recovered_osc" where
  "recover_osc body =
     (let (acc, overflowed, data) = recover_loop 0 False False [] body
      in \<lparr>ro_number = (if overflowed then None else u16_try_from acc),
          ro_data = (if utf8_valid data then data else utf8_lossy data)\<rparr>)"

definition starts_with :: "rstring \<Rightarrow> rstring \<Rightarrow> bool" where
  "starts_with s p \<longleftrightarrow> take (length p) s = p"

definition identify_osc :: "recovered_osc \<Rightarrow> osc_identity" where
  "identify_osc osc =
     (if ro_number osc = Some OSC_NUMBER_EMTERM then
        (case strip_prefix OSC_777_PAYLOAD_PREFIX (ro_data osc) of
           None \<Rightarrow> NotIdentified
         | Some rest \<Rightarrow>
             let kind = takeWhile (\<lambda>b. b \<noteq> 0x3B) rest in
             if kind = AGENT_STATUS_OSC_KIND then AgentStatusReport
             else (case find (\<lambda>k. k = kind) REPLAYABLE_VIEWER_KINDS of
                     Some k \<Rightarrow> ViewerLaunch k | None \<Rightarrow> NotIdentified))
      else if ro_number osc = Some OSC_NUMBER_MARKDOWN then
        (if ro_data osc = MARKDOWN_LAUNCH_TOKEN
            \<or> (case strip_prefix MARKDOWN_LAUNCH_TOKEN (ro_data osc) of
                 Some rest \<Rightarrow> starts_with rest [0x3B] | None \<Rightarrow> False)
         then MarkdownLaunch else NotIdentified)
      else if ro_number osc = Some OSC_NUMBER_PROGRAM_STATUS then ProgramStatus
      else NotIdentified)"

section \<open>The same on borrowed bytes\<close>

text \<open>\<open>scan_number\<close>: the number and where the number part ends.\<close>

fun scan_number_loop :: "nat \<Rightarrow> nat \<Rightarrow> u8 list \<Rightarrow> nat option \<times> nat" where
  "scan_number_loop acc i [] = (u16_try_from acc, i)"
| "scan_number_loop acc i (b # bs) =
     (if is_digit b then
        (if U16_MAX < digit32 acc b then (None, i) else scan_number_loop (digit32 acc b) (Suc i) bs)
      else if b = 0x3B then (u16_try_from acc, i)
      else scan_number_loop acc (Suc i) bs)"

definition scan_number :: "u8 list \<Rightarrow> nat option \<times> nat" where
  "scan_number body = scan_number_loop 0 0 body"

definition osc_body_number :: "u8 list \<Rightarrow> nat option" where
  "osc_body_number body = fst (scan_number body)"

text \<open>\<open>consume_literal\<close>: \<open>None\<close> when the view differs, else the rest of the view.\<close>

fun consume_literal :: "u8 list \<Rightarrow> rstring \<Rightarrow> u8 list option" where
  "consume_literal view [] = Some view"
| "consume_literal [] (e # es) = None"
| "consume_literal (b # view) (e # es) = (if b = e then consume_literal view es else None)"

definition osc_body_identity :: "u8 list \<Rightarrow> osc_identity" where
  "osc_body_identity body =
     (let (number, head_len) = scan_number body in
      case number of None \<Rightarrow> NotIdentified
      | Some n \<Rightarrow>
          if n = OSC_NUMBER_PROGRAM_STATUS then ProgramStatus
          else if n \<noteq> OSC_NUMBER_EMTERM \<and> n \<noteq> OSC_NUMBER_MARKDOWN then NotIdentified
          else
            let view = filter (\<lambda>b. \<not> is_digit b) (take head_len body) @ drop 1 (drop head_len body) in
            if n = OSC_NUMBER_EMTERM then
              (case consume_literal view OSC_777_PAYLOAD_PREFIX of None \<Rightarrow> NotIdentified
               | Some rest \<Rightarrow>
                   let kind = takeWhile (\<lambda>b. b \<noteq> 0x3B) rest in
                   if kind = AGENT_STATUS_OSC_KIND then AgentStatusReport
                   else (case find (\<lambda>k. kind = k) REPLAYABLE_VIEWER_KINDS of
                           Some k \<Rightarrow> ViewerLaunch k | None \<Rightarrow> NotIdentified))
            else
              (case consume_literal view MARKDOWN_LAUNCH_TOKEN of None \<Rightarrow> NotIdentified
               | Some rest \<Rightarrow> if rest = [] \<or> hd rest = 0x3B then MarkdownLaunch else NotIdentified))"

section \<open>Both agree\<close>

text \<open>Lossy decoding keeps every ASCII byte and never makes one up.\<close>

lemma utf8_lossy_Nil [simp]: "utf8_lossy [] = []"
  by (simp add: utf8_lossy.simps)

lemma utf8_lossy_ascii [simp]: "b < 0x80 \<Longrightarrow> utf8_lossy (b # bs) = b # utf8_lossy bs"
  by (subst utf8_lossy.simps) (simp add: utf8_step_def)

lemma utf8_lossy_other:
  assumes "\<not> b < 0x80"
  obtains c cs where "utf8_lossy (b # bs) = c # cs" "\<not> c < 0x80"
proof (cases "fst (utf8_step (b # bs))")
  case True
  obtain m where "snd (utf8_step (b # bs)) = Suc m"
    using utf8_step_pos [of "b # bs"] by (cases "snd (utf8_step (b # bs))") auto
  with True have "utf8_lossy (b # bs) = b # take m bs @ utf8_lossy (drop m bs)"
    by (subst utf8_lossy.simps) (simp add: Let_def)
  with assms that show ?thesis by blast
next
  case False
  then have "utf8_lossy (b # bs)
      = 0xEF # [0xBF, 0xBD] @ utf8_lossy (drop (snd (utf8_step (b # bs))) (b # bs))"
    by (subst utf8_lossy.simps) (simp add: Let_def replacement_char_def)
  moreover have "\<not> (0xEF :: u8) < 0x80"
    by (simp add: u8_unat)
  ultimately show ?thesis
    using that by blast
qed

definition ascii :: "rstring \<Rightarrow> bool" where
  "ascii s \<longleftrightarrow> list_all (\<lambda>b. b < 0x80) s"

lemma strip_prefix_lossy:
  "ascii p \<Longrightarrow> strip_prefix p (utf8_lossy v) = map_option utf8_lossy (consume_literal v p)"
proof (induction v p rule: consume_literal.induct)
  case (3 b view e es)
  show ?case
  proof (cases "b < 0x80")
    case False
    with 3(2) show ?thesis
      by (cases rule: utf8_lossy_other [OF False, of view]) (auto simp: ascii_def)
  qed (use 3 in \<open>simp add: ascii_def\<close>)
qed simp_all

lemma kind_lossy:
  "ascii k \<Longrightarrow> list_all (\<lambda>b. b \<noteq> s) k \<Longrightarrow> s < 0x80 \<Longrightarrow>
   takeWhile (\<lambda>b. b \<noteq> s) (utf8_lossy v) = k \<longleftrightarrow> takeWhile (\<lambda>b. b \<noteq> s) v = k"
proof (induction v arbitrary: k)
  case (Cons b v)
  show ?case
  proof (cases "b < 0x80")
    case True
    with Cons show ?thesis
      by (cases k) (auto simp: ascii_def)
  next
    case False
    with Cons show ?thesis
      by (cases rule: utf8_lossy_other [OF False, of v]; cases k) (auto simp: ascii_def)
  qed
qed simp

lemma lossy_head: "utf8_lossy v = [] \<or> hd (utf8_lossy v) = s \<longleftrightarrow> v = [] \<or> hd v = s" if "s < 0x80"
proof (cases v)
  case (Cons b bs)
  then show ?thesis
    using that by (cases "b < 0x80") (auto elim: utf8_lossy_other [of b bs])
qed simp

text \<open>The scan and the loop see the same number and the same data.\<close>

lemma recover_loop_seen: "recover_loop acc ov True data bs = (acc, ov, data @ bs)"
  by (induction bs arbitrary: data) simp_all

lemma digit32_mono: "U16_MAX < acc \<Longrightarrow> U16_MAX < digit32 acc b"
  by (simp add: digit32_def sat_defs)

lemma recover_loop_overflowed: "fst (snd (recover_loop acc True seen data bs))"
  by (induction bs arbitrary: acc seen data) simp_all

lemma recover_loop_scan:
  assumes "acc \<le> U16_MAX"
  shows "case scan_number_loop acc i bs of
      (None, _) \<Rightarrow> fst (snd (recover_loop acc False False data bs))
    | (Some n, e) \<Rightarrow> i \<le> e \<and> recover_loop acc False False data bs
          = (n, False, data @ filter (\<lambda>b. \<not> is_digit b) (take (e - i) bs) @ drop 1 (drop (e - i) bs))"
  using assms
proof (induction bs arbitrary: acc i data)
  case (Cons b bs)
  have step: "e - i = Suc (e - Suc i)" if "i < e" for e
    using that by simp
  have semi: "\<not> is_digit 0x3B"
    by (simp add: is_digit_def in_range_unat)
  show ?case
  proof (cases "is_digit b")
    case True
    show ?thesis
    proof (cases "U16_MAX < digit32 acc b")
      case True
      with \<open>is_digit b\<close> show ?thesis by (simp add: recover_loop_overflowed)
    next
      case False
      with \<open>is_digit b\<close> Cons.IH [of "digit32 acc b" data "Suc i"] show ?thesis
        by (auto split: option.splits prod.splits simp: Suc_le_eq step)
    qed
  next
    case False
    with Cons.IH [of acc "data @ [b]" "Suc i"] Cons.prems semi show ?thesis
      by (auto split: option.splits prod.splits simp: Suc_le_eq step recover_loop_seen u16_try_from_def)
  qed
qed (simp add: u16_try_from_def)

lemma literal_ascii:
  "ascii OSC_777_PAYLOAD_PREFIX" "ascii MARKDOWN_LAUNCH_TOKEN" "ascii AGENT_STATUS_OSC_KIND"
  "list_all ascii REPLAYABLE_VIEWER_KINDS" "list_all (\<lambda>b. b \<noteq> 0x3B) AGENT_STATUS_OSC_KIND"
  "list_all (list_all (\<lambda>b. b \<noteq> 0x3B)) REPLAYABLE_VIEWER_KINDS"
  by (simp_all add: ascii_def AGENT_STATUS_OSC_KIND_def OSC_777_PAYLOAD_PREFIX_def MARKDOWN_LAUNCH_TOKEN_def
      REPLAYABLE_VIEWER_KINDS_def u8_lt_unat)

lemma find_kind_lossy:
  assumes "list_all ascii ks" "list_all (list_all (\<lambda>b. b \<noteq> 0x3B)) ks"
  shows "find (\<lambda>k. k = takeWhile (\<lambda>b. b \<noteq> 0x3B) (utf8_lossy v)) ks = find (\<lambda>k. takeWhile (\<lambda>b. b \<noteq> 0x3B) v = k) ks"
  using assms
proof (induction ks)
  case (Cons k ks)
  then have "takeWhile (\<lambda>b. b \<noteq> 0x3B) (utf8_lossy v) = k \<longleftrightarrow> takeWhile (\<lambda>b. b \<noteq> 0x3B) v = k"
    by (intro kind_lossy) (simp_all add: u8_unat)
  with Cons show ?case by auto
qed simp

lemma strip_prefix_self: "s = p \<longleftrightarrow> strip_prefix p s = Some []"
  by (induction p s rule: strip_prefix.induct) auto

lemma scan_number_loop_le: "fst (scan_number_loop acc i bs) = Some n \<Longrightarrow> n \<le> U16_MAX"
  by (induction acc i bs rule: scan_number_loop.induct) (auto simp: u16_try_from_def split: if_splits)

text \<open>The data view of the borrowed scan, and its number.\<close>

definition data_view :: "u8 list \<Rightarrow> u8 list" where
  "data_view body = (let h = snd (scan_number body) in
     filter (\<lambda>b. \<not> is_digit b) (take h body) @ drop 1 (drop h body))"

lemma recover_osc_scan:
  "ro_number (recover_osc body) = osc_body_number body"
  "osc_body_number body \<noteq> None \<Longrightarrow> ro_data (recover_osc body) = utf8_lossy (data_view body)"
proof -
  note scan = recover_loop_scan [where acc = 0 and i = 0 and bs = body and data = "[]"]
  show "ro_number (recover_osc body) = osc_body_number body"
    using scan scan_number_loop_le [of 0 0 body]
    by (auto simp: recover_osc_def osc_body_number_def scan_number_def u16_try_from_def split: prod.splits option.splits)
  assume "osc_body_number body \<noteq> None"
  then have "recover_loop 0 False False [] body = (the (osc_body_number body), False, data_view body)"
    using scan by (auto simp: osc_body_number_def scan_number_def data_view_def Let_def split: prod.splits option.splits)
  then show "ro_data (recover_osc body) = utf8_lossy (data_view body)"
    by (simp add: recover_osc_def utf8_lossy_valid)
qed

lemma identity_agrees:
  "osc_body_identity body = identify_osc (recover_osc body)"
proof (cases "osc_body_number body")
  case None
  then have "osc_body_identity body = NotIdentified"
    by (cases "scan_number body") (simp add: osc_body_identity_def osc_body_number_def)
  with None show ?thesis
    by (simp add: identify_osc_def recover_osc_scan)
next
  case (Some n)
  define v where "v = data_view body"
  obtain h where scan: "scan_number body = (Some n, h)"
    using Some by (cases "scan_number body") (simp add: osc_body_number_def)
  have view: "filter (\<lambda>b. \<not> is_digit b) (take h body) @ drop 1 (drop h body) = v"
    unfolding v_def data_view_def by (simp only: scan snd_conv Let_def)
  have data: "ro_data (recover_osc body) = utf8_lossy v"
    using Some by (simp add: recover_osc_scan v_def)
  have num: "ro_number (recover_osc body) = Some n"
    using Some by (simp add: recover_osc_scan)
  have agent: "takeWhile (\<lambda>b. b \<noteq> 0x3B) (utf8_lossy r) = AGENT_STATUS_OSC_KIND
      \<longleftrightarrow> takeWhile (\<lambda>b. b \<noteq> 0x3B) r = AGENT_STATUS_OSC_KIND" for r
    by (rule kind_lossy) (simp_all add: literal_ascii u8_lt_unat)
  have numbers: "OSC_NUMBER_EMTERM = 777" "OSC_NUMBER_MARKDOWN = 9999" "OSC_NUMBER_PROGRAM_STATUS = 7501"
    by (simp_all add: OSC_NUMBER_EMTERM_def OSC_NUMBER_MARKDOWN_def OSC_NUMBER_PROGRAM_STATUS_def)
  consider "n = 777" | "n = 9999" | "n \<noteq> 777" "n \<noteq> 9999"
    by blast
  then show ?thesis
  proof cases
    case 1
    note strip = strip_prefix_lossy [OF literal_ascii(1), of v]
    show ?thesis
    proof (cases "consume_literal v OSC_777_PAYLOAD_PREFIX")
      case None
      then show ?thesis
        unfolding osc_body_identity_def identify_osc_def scan data num Let_def prod.case option.case view strip
        by (simp add: numbers 1)
    next
      case (Some r)
      then show ?thesis
        unfolding osc_body_identity_def identify_osc_def scan data num Let_def prod.case option.case view strip
        by (simp add: numbers 1 agent find_kind_lossy literal_ascii)
    qed
  next
    case 2
    note strip = strip_prefix_lossy [OF literal_ascii(2), of v]
    have head: "starts_with (utf8_lossy r) [0x3B] \<or> utf8_lossy r = [] \<longleftrightarrow> r = [] \<or> hd r = 0x3B" for r
      using lossy_head [of "0x3B" r] by (cases "utf8_lossy r") (auto simp: starts_with_def u8_lt_unat)
    show ?thesis
    proof (cases "consume_literal v MARKDOWN_LAUNCH_TOKEN")
      case None
      then show ?thesis
        unfolding osc_body_identity_def identify_osc_def scan data num Let_def prod.case option.case view strip_prefix_self strip
        by (simp add: numbers 2)
    next
      case (Some r)
      then show ?thesis
        unfolding osc_body_identity_def identify_osc_def scan data num Let_def prod.case option.case view strip_prefix_self strip
        using head [of r] by (simp add: numbers 2) blast
    qed
  next
    case 3
    then show ?thesis
      unfolding osc_body_identity_def identify_osc_def scan num by (simp add: numbers)
  qed
qed

text \<open>C29. Identifying a command from the borrowed bytes, without building or decoding its data,
  gives the same answer as recovering its number and lossily decoded data and identifying that,
  for every body.\<close>

theorem borrowed_identity_agrees:
  "osc_body_identity body = identify_osc (recover_osc body)"
  by (rule identity_agrees)

end
