(* ===== verification/ScrollbackFilter.thy ===== *)
theory ScrollbackFilter
  imports OscIdentify
begin

text \<open>
  The filter between a pane's output and what is replayed of it
  (\<open>src-tauri/src/mux/scrollback_filter.rs\<close>): viewer launches, inline images, status
  reports and the device queries the terminal answers are removed; everything else is kept byte
  for byte.  The filter follows, byte by byte, where a parser of its own output stands, so that a
  removal never joins the bytes around it.

  An index into \<open>bytes\<close> is modelled by the rest of the list from that index on.
\<close>

datatype csi_phase = PhaseEntry | PhaseParam

datatype csi_step_kind = StepOpen csi_phase | StepEnd | StepAbort

definition CSI_CLOSING_BYTE :: u8 where "CSI_CLOSING_BYTE = 0x7F"

definition STRING_BODY_CLOSING :: "u8 list" where "STRING_BODY_CLOSING = [0x1B, 0x18]"

definition CAN_BYTE :: u8 where "CAN_BYTE = 0x18"

definition csi_step :: "csi_phase \<Rightarrow> u8 \<Rightarrow> csi_step_kind" where
  "csi_step phase b =
     (if b = 0x1B then StepAbort
      else if in_range 0x00 0x1A b \<or> in_range 0x1C 0x1F b then StepOpen phase
      else if in_range 0x40 0x7E b then StepEnd
      else if is_digit b \<or> b = 0x3B \<or> b = 0x3A then StepOpen PhaseParam
      else if phase = PhaseEntry \<and> b \<in> {0x3F, 0x3E, 0x3C, 0x3D, 0x20} then StepOpen PhaseParam
      else if phase = PhaseParam \<and> in_range 0x20 0x2F b then StepOpen PhaseParam
      else StepEnd)"

section \<open>Where the written stream stands\<close>

record first_param =
  fp_value :: nat
  fp_collecting :: bool

definition first_param_start :: first_param where
  "first_param_start = \<lparr>fp_value = 0, fp_collecting = True\<rparr>"

definition first_param_feed :: "first_param \<Rightarrow> u8 \<Rightarrow> first_param" where
  "first_param_feed fp b =
     (if fp_collecting fp \<and> is_digit b then fp\<lparr>fp_value := digit32 (fp_value fp) b\<rparr>
      else fp\<lparr>fp_collecting := False\<rparr>)"

record open_csi =
  oc_phase :: csi_phase
  oc_marker :: "u8 option"
  oc_first :: first_param
  oc_first_intermediate :: "u8 option"

definition open_csi_entry :: open_csi where
  "open_csi_entry = \<lparr>oc_phase = PhaseEntry, oc_marker = None, oc_first = first_param_start,
     oc_first_intermediate = None\<rparr>"

definition open_csi_advance :: "open_csi \<Rightarrow> u8 \<Rightarrow> csi_step_kind \<times> open_csi" where
  "open_csi_advance oc b =
     (let step = csi_step (oc_phase oc) b in
      case step of
        StepOpen next_phase \<Rightarrow>
          let oc1 = oc\<lparr>oc_phase := next_phase\<rparr> in
          (step,
           if in_range 0x20 0x2F b then
             oc1\<lparr>oc_first_intermediate :=
               (case oc_first_intermediate oc1 of Some i \<Rightarrow> Some i | None \<Rightarrow> Some b)\<rparr>
           else if in_range 0x30 0x3B b then oc1\<lparr>oc_first := first_param_feed (oc_first oc1) b\<rparr>
           else if in_range 0x3C 0x3F b then oc1\<lparr>oc_marker := Some b\<rparr>
           else oc1)
      | _ \<Rightarrow> (step, oc))"

text \<open>The device queries the terminal answers; \<open>as u8\<close> truncates.\<close>

definition csi_is_device_query :: "u8 option \<Rightarrow> u8 list \<Rightarrow> nat \<Rightarrow> u8 \<Rightarrow> bool" where
  "csi_is_device_query private_prefix intermediates first_param final_byte =
     (if final_byte = 0x6E then
        (let truncated = as_u8 (min first_param 9999)
         in private_prefix = None \<and> intermediates = [] \<and> (truncated = 5 \<or> truncated = 6))
      else if final_byte = 0x63 then
        (case private_prefix of
           None \<Rightarrow> intermediates = [] | Some m \<Rightarrow> m = 0x3F \<or> m = 0x3E)
      else if final_byte = 0x74 then
        private_prefix = None \<and> intermediates = [] \<and> first_param \<in> {14, 16, 18}
      else if final_byte = 0x70 then
        private_prefix = Some 0x3F \<and> (case intermediates of i # _ \<Rightarrow> i = 0x24 | [] \<Rightarrow> False)
      else False)"

definition completes_an_answered_query :: "open_csi \<Rightarrow> u8 \<Rightarrow> bool" where
  "completes_an_answered_query oc b \<longleftrightarrow>
     in_range 0x40 0x7E b
     \<and> csi_is_device_query (oc_marker oc) (case oc_first_intermediate oc of Some i \<Rightarrow> [i] | None \<Rightarrow> [])
          (fp_value (oc_first oc)) b"

datatype written_state =
    WGround
  | WEscape
  | WDesignator
  | WCsi open_csi
  | WOscBody
  | WStBody

definition written_advance :: "written_state \<Rightarrow> u8 \<Rightarrow> written_state" where
  "written_advance s b =
     (case s of
        WGround \<Rightarrow> if b = 0x1B then WEscape else WGround
      | WEscape \<Rightarrow>
          if b = 0x5B then WCsi open_csi_entry
          else if b = 0x28 \<or> b = 0x29 then WDesignator
          else if b = 0x5D then WOscBody
          else if b = 0x50 \<or> b = 0x5F then WStBody
          else if b = 0x1B then WEscape
          else WGround
      | WDesignator \<Rightarrow> WGround
      | WOscBody \<Rightarrow> if b = 0x07 then WGround else if b = 0x1B then WEscape else WOscBody
      | WStBody \<Rightarrow> if b = 0x1B then WEscape else WStBody
      | WCsi oc \<Rightarrow>
          (case open_csi_advance oc b of
             (StepOpen _, oc1) \<Rightarrow> WCsi oc1
           | (StepEnd, _) \<Rightarrow> WGround
           | (StepAbort, _) \<Rightarrow> WEscape))"

record written =
  w_bytes :: "u8 list"
  w_state :: written_state

definition written_push :: "written \<Rightarrow> u8 \<Rightarrow> written" where
  "written_push w b =
     (if (case w_state w of WCsi oc \<Rightarrow> completes_an_answered_query oc b | _ \<Rightarrow> False)
      then \<lparr>w_bytes = w_bytes w @ [CSI_CLOSING_BYTE], w_state = WGround\<rparr>
      else \<lparr>w_bytes = w_bytes w @ [b], w_state = written_advance (w_state w) b\<rparr>)"

definition written_extend :: "written \<Rightarrow> u8 list \<Rightarrow> written" where
  "written_extend w bs = foldl written_push w bs"

definition close_before_removal :: "written \<Rightarrow> written" where
  "close_before_removal w =
     (case w_state w of
        WCsi _ \<Rightarrow> written_push w CSI_CLOSING_BYTE
      | WEscape \<Rightarrow> written_push w CSI_CLOSING_BYTE
      | WOscBody \<Rightarrow> written_extend w STRING_BODY_CLOSING
      | WStBody \<Rightarrow> written_extend w STRING_BODY_CLOSING
      | WGround \<Rightarrow> w
      | WDesignator \<Rightarrow> w)"

section \<open>The copy handed to another emulator\<close>

definition vt100_byte :: "written_state \<Rightarrow> u8 \<Rightarrow> u8" where
  "vt100_byte s b =
     (if b = CSI_CLOSING_BYTE \<and> (case s of WEscape \<Rightarrow> True | WCsi _ \<Rightarrow> True | _ \<Rightarrow> False)
      then CAN_BYTE else b)"

fun vt100_copy_loop :: "written_state \<Rightarrow> u8 list \<Rightarrow> u8 list" where
  "vt100_copy_loop s [] = []"
| "vt100_copy_loop s (b # bs) = vt100_byte s b # vt100_copy_loop (written_advance s b) bs"

definition vt100_replay_copy :: "u8 list \<Rightarrow> u8 list" where
  "vt100_replay_copy bytes = vt100_copy_loop WGround bytes"

section \<open>Finding what to remove\<close>

text \<open>Indices are relative to the start of the body.\<close>

datatype body_end = BodyComplete nat | BodyAborted nat | BodyUnterminated

definition scan_body_end :: "u8 list \<Rightarrow> body_end" where
  "scan_body_end body =
     (let esc = length (takeWhile (\<lambda>b. b \<noteq> 0x1B) body) in
      if esc = length body then BodyUnterminated
      else if Suc esc < length body
      then if body ! Suc esc = 0x5C then BodyComplete (esc + 2) else BodyAborted esc
      else BodyUnterminated)"

fun find_osc_terminator :: "nat \<Rightarrow> u8 list \<Rightarrow> nat option" where
  "find_osc_terminator j [] = None"
| "find_osc_terminator j (b # bs) =
     (if b = 0x07 then Some (j + 1)
      else if b = 0x1B \<and> bs \<noteq> [] \<and> hd bs = 0x5C then Some (j + 2)
      else if b = 0x1B then None
      else find_osc_terminator (j + 1) bs)"

text \<open>The body without its terminator; \<open>bytes\<close> starts at the introducer.\<close>

definition osc_body_end :: "u8 list \<Rightarrow> nat \<Rightarrow> nat" where
  "osc_body_end bytes e =
     (if 2 \<le> e \<and> bytes ! (e - 2) = 0x1B \<and> bytes ! (e - 1) = 0x5C then e - 2 else e - 1)"

definition dcs_is_sixel :: "u8 list \<Rightarrow> bool" where
  "dcs_is_sixel body =
     (case dropWhile (in_range 0x20 0x2F) (dropWhile (in_range 0x30 0x3B) body) of
        b # _ \<Rightarrow> b = 0x71 | [] \<Rightarrow> False)"

definition is_replayable_osc_body :: "u8 list \<Rightarrow> bool" where
  "is_replayable_osc_body body =
     (case osc_body_identity body of
        ViewerLaunch _ \<Rightarrow> True | MarkdownLaunch \<Rightarrow> True | AgentStatusReport \<Rightarrow> True
      | ProgramStatus \<Rightarrow> True | NotIdentified \<Rightarrow> False)"

text \<open>The scan of a candidate query: how many bytes it has, and the controls inside it.\<close>

fun scan_csi :: "nat \<Rightarrow> u8 option \<Rightarrow> first_param \<Rightarrow> nat \<Rightarrow> u8 list \<Rightarrow> u8 list \<Rightarrow> u8 list
    \<Rightarrow> (nat \<times> u8 list) option" where
  "scan_csi j prefix fp seen ints c0 [] = None"
| "scan_csi j prefix fp seen ints c0 (b # bs) =
     (if b = 0x1B then None
      else if in_range 0x00 0x1A b \<or> in_range 0x1C 0x1F b then scan_csi (j + 1) prefix fp seen ints (c0 @ [b]) bs
      else if b \<in> {0x3C, 0x3D, 0x3E, 0x3F} then
        (if seen = 0 \<and> ints = [] then scan_csi (j + 1) (Some b) fp (seen + 1) ints c0 bs else None)
      else if in_range 0x30 0x3B b then scan_csi (j + 1) prefix (first_param_feed fp b) (seen + 1) ints c0 bs
      else if in_range 0x20 0x2F b then scan_csi (j + 1) prefix fp seen (ints @ [b]) c0 bs
      else if in_range 0x40 0x7E b then
        (if csi_is_device_query prefix ints (fp_value fp) b then Some (j + 1, c0) else None)
      else None)"

definition scan_csi_device_query :: "u8 list \<Rightarrow> (nat \<times> u8 list) option" where
  "scan_csi_device_query body = scan_csi 0 None first_param_start 0 [] [] body"

text \<open>What the pass does at an escape character: \<open>Remove n c0\<close> skips \<open>n\<close> bytes and
  writes the controls of a removed query; \<open>KeepCharset\<close> also keeps the next two bytes
  unexamined.\<close>

datatype decision = Keep | KeepCharset | Remove nat "u8 list"

text \<open>\<open>rest\<close> starts at the escape character and has at least one more byte.\<close>

definition decide :: "u8 list \<Rightarrow> decision" where
  "decide rest =
     (let c = rest ! 1; body = drop 2 rest in
      if c = 0x5F then
        (if body \<noteq> [] \<and> hd body = 0x47
         then case scan_body_end body of
                BodyComplete k \<Rightarrow> Remove (2 + k) [] | BodyAborted k \<Rightarrow> Remove (2 + k) [] | BodyUnterminated \<Rightarrow> Keep
         else Keep)
      else if c = 0x50 then
        (case scan_body_end body of
           BodyComplete k \<Rightarrow> if dcs_is_sixel (take (k - 2) body) then Remove (2 + k) [] else Keep
         | BodyAborted k \<Rightarrow> if dcs_is_sixel (take k body) then Remove (2 + k) [] else Keep
         | BodyUnterminated \<Rightarrow> Keep)
      else if c = 0x5D then
        (case find_osc_terminator 2 body of
           Some e \<Rightarrow> if is_replayable_osc_body (take (osc_body_end rest e - 2) body) then Remove e [] else Keep
         | None \<Rightarrow> Keep)
      else if c = 0x5B then
        (case scan_csi_device_query body of Some (k, c0) \<Rightarrow> Remove (2 + k) c0 | None \<Rightarrow> Keep)
      else if c = 0x28 \<or> c = 0x29 then KeepCharset
      else Keep)"

lemma find_osc_terminator_gt: "find_osc_terminator j bs = Some e \<Longrightarrow> j < e"
  by (induction j bs rule: find_osc_terminator.induct) (auto split: if_splits)

lemma decide_Remove_ge: "decide rest = Remove n c0 \<Longrightarrow> 2 \<le> n"
  by (auto simp: decide_def Let_def dest!: find_osc_terminator_gt split: if_splits body_end.splits option.splits)

text \<open>
  The pass: position, rest of the input, bytes still to copy unexamined, watched offsets not
  reached yet, their images so far, and the output.
\<close>

function strip_loop :: "nat \<Rightarrow> u8 list \<Rightarrow> nat \<Rightarrow> nat list \<Rightarrow> nat list \<Rightarrow> written \<Rightarrow> written \<times> nat list" where
  "strip_loop i [] verbatim watch remapped out =
     (out, remapped @ replicate (length watch) (length (w_bytes out)))"
| "strip_loop i (b # bs) verbatim watch remapped out =
     (let reached = length (takeWhile (\<lambda>offset. offset \<le> i) watch);
          watch' = drop reached watch;
          remapped' = remapped @ replicate reached (length (w_bytes out)) in
      if 0 < verbatim then strip_loop (i + 1) bs (verbatim - 1) watch' remapped' (written_push out b)
      else if b \<noteq> 0x1B \<or> bs = [] then strip_loop (i + 1) bs 0 watch' remapped' (written_push out b)
      else case decide (b # bs) of
          Keep \<Rightarrow> strip_loop (i + 1) bs 0 watch' remapped' (written_push out b)
        | KeepCharset \<Rightarrow> strip_loop (i + 1) bs 2 watch' remapped' (written_push out b)
        | Remove n c0 \<Rightarrow> strip_loop (i + n) (drop n (b # bs)) 0 watch' remapped'
                          (written_extend (close_before_removal out) c0))"
  by pat_completeness auto
termination
  by (relation "measure (\<lambda>(i, rest, v, w, r, out). length rest)") (auto dest: decide_Remove_ge)

definition strip_pass :: "u8 list \<Rightarrow> nat list \<Rightarrow> bool \<Rightarrow> written_state \<Rightarrow> u8 list \<times> nat list \<times> written_state" where
  "strip_pass bytes watch_offsets pending_designator start =
     (let (out, remapped) = strip_loop 0 bytes (if pending_designator then 1 else 0) watch_offsets []
                              \<lparr>w_bytes = [], w_state = start\<rparr>
      in (w_bytes out, remapped, w_state out))"

definition strip_rich_content_and_remap_with_designator ::
    "u8 list \<Rightarrow> nat list \<Rightarrow> bool \<Rightarrow> u8 list \<times> nat list" where
  "strip_rich_content_and_remap_with_designator bytes watch_offsets pending_designator =
     (let (out, remapped, _) = strip_pass bytes watch_offsets pending_designator
                                 (if pending_designator then WDesignator else WGround)
      in (out, remapped))"

definition strip_rich_content_and_remap :: "u8 list \<Rightarrow> nat list \<Rightarrow> u8 list \<times> nat list" where
  "strip_rich_content_and_remap bytes watch_offsets =
     strip_rich_content_and_remap_with_designator bytes watch_offsets False"

definition strip_rich_content :: "u8 list \<Rightarrow> u8 list" where
  "strip_rich_content bytes = fst (strip_rich_content_and_remap bytes [])"

definition strip_replayable_rich_content :: "u8 list \<Rightarrow> u8 list" where
  "strip_replayable_rich_content bytes = strip_rich_content bytes"

text \<open>The forms of the write path; the last one is called with a pending designator only in the
  designator or the ground state (a debug assertion of the code).\<close>

definition strip_pty_output_for_scrollback_write :: "u8 list \<Rightarrow> u8 list" where
  "strip_pty_output_for_scrollback_write bytes = strip_rich_content bytes"

definition strip_pty_output_for_scrollback_write_with_designator :: "u8 list \<Rightarrow> bool \<Rightarrow> u8 list" where
  "strip_pty_output_for_scrollback_write_with_designator bytes pending_designator =
     fst (strip_rich_content_and_remap_with_designator bytes [] pending_designator)"

definition strip_pty_output_for_scrollback_write_with_written_state ::
    "u8 list \<Rightarrow> bool \<Rightarrow> written_state \<Rightarrow> u8 list \<times> written_state" where
  "strip_pty_output_for_scrollback_write_with_written_state bytes pending_designator state_in =
     (let (out, _, state) = strip_pass bytes [] pending_designator state_in in (out, state))"

end
