(* ===== verification/Quiet.thy ===== *)
theory Quiet
  imports Terminal "HOL-Library.Sublist"
begin

text \<open>
  Which operations of the terminal leave its answers alone: everything but the device reports
  and the responder keeps the response queue and the responder as they are.
\<close>

definition speaks :: "u8 list \<Rightarrow> (nat \<Rightarrow> rstring \<Rightarrow> osc_terminator \<Rightarrow> nat \<Rightarrow> u8 list list) option \<Rightarrow> core \<Rightarrow> bool" where
  "speaks q r c \<longleftrightarrow> tc_response_queue c = q \<and> tc_osc_responder c = r"

named_theorems quiet \<open>operations that queue no answer\<close>

subsection \<open>Loops\<close>

lemma quiet_foldl: "(\<And>c x. speaks q r (f c x) = speaks q r c) \<Longrightarrow> speaks q r (foldl f c xs) = speaks q r c"
  by (induction xs arbitrary: c) simp_all

lemma quiet_funpow: "(\<And>c. speaks q r (f c) = speaks q r c) \<Longrightarrow> speaks q r ((f ^^ n) c) = speaks q r c"
  by (induction n arbitrary: c) simp_all

lemma quiet_let_core:
  "speaks q r e = speaks q r c \<Longrightarrow> (\<And>d. speaks q r d = speaks q r c \<Longrightarrow> speaks q r (b d) = speaks q r c) \<Longrightarrow>
   speaks q r (let d = e in b d) = speaks q r c"
  by (simp add: Let_def)

lemma quiet_let: "(\<And>x. speaks q r (b x) = speaks q r c) \<Longrightarrow> speaks q r (let x = e in b x) = speaks q r c"
  by (simp add: Let_def)

lemma quiet_if:
  "(P \<Longrightarrow> speaks q r a = speaks q r c) \<Longrightarrow> (\<not> P \<Longrightarrow> speaks q r b = speaks q r c) \<Longrightarrow>
   speaks q r (if P then a else b) = speaks q r c"
  by simp

subsection \<open>Fields\<close>

lemma speaks_fields [simp]:
  "speaks q r (c\<lparr>tc_ring_cells := a1\<rparr>) = speaks q r c" "speaks q r (c\<lparr>tc_ring_wrapped := a2\<rparr>) = speaks q r c"
  "speaks q r (c\<lparr>tc_ring_head := a3\<rparr>) = speaks q r c" "speaks q r (c\<lparr>tc_ring_size := a4\<rparr>) = speaks q r c"
  "speaks q r (c\<lparr>tc_scrollback_slim := a5\<rparr>) = speaks q r c" "speaks q r (c\<lparr>tc_scrollback_wrapped := a6\<rparr>) = speaks q r c"
  "speaks q r (c\<lparr>tc_scrollback_evicted_total := a7\<rparr>) = speaks q r c" "speaks q r (c\<lparr>tc_virtual_scrollback_len := a8\<rparr>) = speaks q r c"
  "speaks q r (c\<lparr>tc_styles := a9\<rparr>) = speaks q r c" "speaks q r (c\<lparr>tc_chars := a10\<rparr>) = speaks q r c"
  "speaks q r (c\<lparr>tc_dirty := a11\<rparr>) = speaks q r c" "speaks q r (c\<lparr>tc_cursor := a12\<rparr>) = speaks q r c"
  "speaks q r (c\<lparr>tc_saved_cursor := a13\<rparr>) = speaks q r c" "speaks q r (c\<lparr>tc_cursor_style_override := a14\<rparr>) = speaks q r c"
  "speaks q r (c\<lparr>tc_cursor_blink_override := a15\<rparr>) = speaks q r c" "speaks q r (c\<lparr>tc_modes := a16\<rparr>) = speaks q r c"
  "speaks q r (c\<lparr>tc_tab_stops := a17\<rparr>) = speaks q r c" "speaks q r (c\<lparr>tc_overflow := a18\<rparr>) = speaks q r c"
  "speaks q r (c\<lparr>tc_overflow_ridx := a19\<rparr>) = speaks q r c" "speaks q r (c\<lparr>tc_grapheme_buffer := a20\<rparr>) = speaks q r c"
  "speaks q r (c\<lparr>tc_wrap_pending := a21\<rparr>) = speaks q r c" "speaks q r (c\<lparr>tc_last_write := a22\<rparr>) = speaks q r c"
  "speaks q r (c\<lparr>tc_g0_charset := a23\<rparr>) = speaks q r c" "speaks q r (c\<lparr>tc_g1_charset := a24\<rparr>) = speaks q r c"
  "speaks q r (c\<lparr>tc_active_charset := a25\<rparr>) = speaks q r c" "speaks q r (c\<lparr>tc_kitty_placeholder_active := a26\<rparr>) = speaks q r c"
  "speaks q r (c\<lparr>tc_scroll_region_top := a27\<rparr>) = speaks q r c" "speaks q r (c\<lparr>tc_scroll_region_bottom := a28\<rparr>) = speaks q r c"
  "speaks q r (c\<lparr>tc_scroll_event := a29\<rparr>) = speaks q r c" "speaks q r (c\<lparr>tc_parser := a30\<rparr>) = speaks q r c"
  "speaks q r (c\<lparr>tc_mode_actions := a31\<rparr>) = speaks q r c" "speaks q r (c\<lparr>tc_events := a32\<rparr>) = speaks q r c"
  "speaks q r (c\<lparr>tc_hyperlink_table := a33\<rparr>) = speaks q r c" "speaks q r (c\<lparr>tc_hyperlink_next_id := a34\<rparr>) = speaks q r c"
  "speaks q r (c\<lparr>tc_active_hyperlink_id := a35\<rparr>) = speaks q r c" "speaks q r (c\<lparr>tc_cursor_just_shown := a36\<rparr>) = speaks q r c"
  "speaks q r (c\<lparr>tc_pending_prompt_marks := a37\<rparr>) = speaks q r c" "speaks q r (c\<lparr>tc_pending_fold_marks := a38\<rparr>) = speaks q r c"
  "speaks q r (c\<lparr>tc_bypass_b_mark_texts := a39\<rparr>) = speaks q r c" "speaks q r (c\<lparr>tc_capture_bypass_b_marks := a40\<rparr>) = speaks q r c"
  by (simp_all add: speaks_def)

subsection \<open>Cells and rows\<close>

lemma quiet_small [simp]:
  "speaks q r (upd_cursor f c) = speaks q r c" "speaks q r (mark_row_dirty c row) = speaks q r c"
  "speaks q r (mark_all_dirty c) = speaks q r c" "speaks q r (shift_dirty_down_by_one c) = speaks q r c"
  "speaks q r (fire c e) = speaks q r c" "speaks q r (set_mode c b v) = speaks q r c"
  "speaks q r (upd_cell i g c) = speaks q r c" "speaks q r (overflow_store c col a s) = speaks q r c"
  "speaks q r (overflow_drop c col a) = speaks q r c" "speaks q r (overflow_clear_abs c a) = speaks q r c"
  "speaks q r (fill_cells base n cl c) = speaks q r c" "speaks q r (overflow_clear_abs_if c a) = speaks q r c"
  "speaks q r (drop_overflow_range c a col) = speaks q r c" "speaks q r (set_line_wrapped c row w) = speaks q r c"
  by (simp_all add: upd_cursor_def mark_row_dirty_def mark_all_dirty_def shift_dirty_down_by_one_def fire_def
      set_mode_def upd_cell_def overflow_store_def overflow_drop_def overflow_clear_abs_def fill_cells_def
      overflow_clear_abs_if_def drop_overflow_range_def set_line_wrapped_def)

lemma quiet_rows [simp]:
  "speaks q r (blank_wide_pair_half c col row) = speaks q r c" "speaks q r (blank_abs_row c a) = speaks q r c"
  "speaks q r (clear_line c row) = speaks q r c" "speaks q r (clear_line_range c row s e) = speaks q r c"
  "speaks q r (move_overflow c src dst) = speaks q r c" "speaks q r (move_row c src dst) = speaks q r c"
  by (simp_all add: blank_wide_pair_half_def blank_abs_row_def clear_line_def clear_line_range_def move_overflow_def
      move_row_def Let_def split: option.split)

lemma quiet_shift [simp]:
  "speaks q r (shift_rows_up c s e n) = speaks q r c" "speaks q r (shift_rows_down c s e n) = speaks q r c"
  by (simp_all add: shift_rows_up_def shift_rows_down_def Let_def quiet_foldl)

lemma quiet_release [simp]:
  "speaks q r (release_slim_cell c sl) = speaks q r c" "speaks q r (release_slim_row c row) = speaks q r c"
  "speaks q r (release_rows c rs) = speaks q r c" "speaks q r (clear_scrollback c) = speaks q r c"
proof -
  show cell: "speaks q r (release_slim_cell c sl) = speaks q r c" for c sl
    by (simp add: release_slim_cell_def Let_def)
  show row: "speaks q r (release_slim_row c row) = speaks q r c" for c row
    by (simp add: release_slim_row_def quiet_foldl cell)
  show rows: "speaks q r (release_rows c rs) = speaks q r c" for c rs
    by (simp add: release_rows_def quiet_foldl row)
  show "speaks q r (clear_scrollback c) = speaks q r c"
    by (simp add: clear_scrollback_def rows)
qed

lemma quiet_push [simp]:
  "speaks q r (evict_top_row c) = speaks q r c" "speaks q r (ring_push_blank c bg) = speaks q r c"
proof -
  show evict: "speaks q r (evict_top_row c) = speaks q r c" for c
    by (simp add: evict_top_row_def Let_def split: list.split prod.split)
  show "speaks q r (ring_push_blank c bg) = speaks q r c"
    by (simp add: ring_push_blank_def Let_def evict)
qed

lemma quiet_scroll [simp]:
  "speaks q r (restore_row c row sv) = speaks q r c"
  "speaks q r (scroll_up_region_transcribing c b n) = speaks q r c"
  "speaks q r (scroll_up_internal c n) = speaks q r c" "speaks q r (scroll_down_internal c n) = speaks q r c"
  "speaks q r (line_feed c) = speaks q r c"
proof -
  show restore: "speaks q r (restore_row c row sv) = speaks q r c" for c row sv
    by (simp add: restore_row_def Let_def split: prod.split)
  have fold: "speaks q r (foldl (\<lambda>c (row, sv). restore_row c row sv) c xs) = speaks q r c" for c xs
    by (rule quiet_foldl) (simp add: restore split: prod.split)
  show region: "speaks q r (scroll_up_region_transcribing c b n) = speaks q r c" for c b n
    by (simp add: scroll_up_region_transcribing_def Let_def quiet_foldl quiet_funpow fold)
  show up: "speaks q r (scroll_up_internal c n) = speaks q r c" for c n
    by (simp add: scroll_up_internal_def Let_def region quiet_funpow)
  show "speaks q r (scroll_down_internal c n) = speaks q r c"
    by (simp add: scroll_down_internal_def Let_def)
  show "speaks q r (line_feed c) = speaks q r c"
    by (simp add: line_feed_def Let_def up)
qed

subsection \<open>Printing\<close>

lemma quiet_write [simp]:
  "speaks q r (blank_orphaned_neighbor_before_overwrite c col row w) = speaks q r c"
  "speaks q r (blank_orphaned_base_before_placeholder c col row) = speaks q r c"
  "speaks q r (store_grapheme c i col a s) = speaks q r c"
  "speaks q r (put_spacer c col row fg bg fl hl) = speaks q r c"
  "speaks q r (wrap_to_next_line c) = speaks q r c" "speaks q r (advance_cursor c col) = speaks q r c"
  by (simp_all add: blank_orphaned_neighbor_before_overwrite_def blank_orphaned_base_before_placeholder_def
      store_grapheme_def put_spacer_def wrap_to_next_line_def carriage_return_def advance_cursor_def Let_def
      split: option.split)

lemma quiet_base [simp]:
  "speaks q r (write_base c col row s w) = speaks q r c" "speaks q r (write_ascii c col row b) = speaks q r c"
  by (simp_all add: write_base_def write_ascii_def Let_def split: option.split)

lemma quiet_grapheme [simp]:
  "speaks q r (write_grapheme_to_grid c s w) = speaks q r c" "speaks q r (handle_print_ascii c cp) = speaks q r c"
  by (simp_all add: write_grapheme_to_grid_def handle_print_ascii_def Let_def)

lemma quiet_merge [simp]: "speaks q r (fst (try_retroactive_merge c cp)) = speaks q r c"
proof -
  have relocate: "speaks q r (relocate_widened_base_via_wrap c col row) = speaks q r c" for c col row
    by (simp add: relocate_widened_base_via_wrap_def Let_def split: option.split)
  have widen: "speaks q r (widen_after_merge c col row) = speaks q r c" for c col row
    by (simp add: widen_after_merge_def Let_def relocate split: option.split)
  have "speaks q r (fst (merge_into c cp col row)) = speaks q r c" for col row
    by (simp add: merge_into_def Let_def widen split: option.split)
  then show ?thesis
    by (simp add: try_retroactive_merge_def split: option.split prod.split)
qed

lemma quiet_flush [simp]:
  "speaks q r (flush_grapheme_buffer c) = speaks q r c" "speaks q r (flush_and_invalidate c) = speaks q r c"
  by (simp_all add: flush_and_invalidate_def flush_grapheme_buffer_def Let_def)

lemma quiet_print [simp]: "speaks q r (handle_print c cp) = speaks q r c"
proof -
  have one: "speaks q r (print_char c cp) = speaks q r c" for c
    by (simp add: print_char_def handle_print_slow_def)
  have "speaks q r (cluster_print c cp) = speaks q r c" for c
    by (simp add: cluster_print_def Let_def push_grapheme_def one)
  then show ?thesis
    by (simp add: handle_print_def Let_def)
qed

subsection \<open>Control sequences\<close>

lemma quiet_cursor [simp]:
  "speaks q r (move_cursor c col row) = speaks q r c" "speaks q r (save_cursor c) = speaks q r c"
  "speaks q r (restore_cursor c) = speaks q r c" "speaks q r (set_scroll_region c t b) = speaks q r c"
  "speaks q r (handle_decscusr c ps) = speaks q r c" "speaks q r (handle_sgr c params) = speaks q r c"
  by (simp_all add: move_cursor_def save_cursor_def restore_cursor_def set_scroll_region_def handle_decscusr_def
      handle_sgr_def Let_def split: option.split)

lemma quiet_insert_characters [simp]: "speaks q r (handle_insert_characters c n) = speaks q r c"
  unfolding handle_insert_characters_def
  by (rule quiet_let_core quiet_let quiet_if refl | simp only: speaks_fields quiet_small quiet_rows if_cancel)+

lemma quiet_delete_characters [simp]: "speaks q r (handle_delete_characters c n) = speaks q r c"
  unfolding handle_delete_characters_def
  by (rule quiet_let_core quiet_let quiet_if refl | simp only: speaks_fields quiet_small quiet_rows if_cancel)+

lemma quiet_edit [simp]:
  "speaks q r (erase_range_with_edge_repair c row s e ed) = speaks q r c"
  "speaks q r (handle_insert_lines c n) = speaks q r c" "speaks q r (handle_delete_lines c n) = speaks q r c"
  by (simp_all add: erase_range_with_edge_repair_def handle_insert_lines_def handle_delete_lines_def Let_def)

lemma quiet_erase [simp]:
  "speaks q r (handle_erase_in_line c m) = speaks q r c" "speaks q r (fst (handle_erase_in_display c m)) = speaks q r c"
  by (simp_all add: handle_erase_in_line_def handle_erase_in_display_def Let_def quiet_foldl)

lemma quiet_modes [simp]: "speaks q r (set_mode_param enable c p) = speaks q r c"
proof -
  have just_shown: "speaks q r (fst (handle_set_mode c p enable)) = speaks q r c" for c
    by (simp add: handle_set_mode_def Let_def split: option.split)
  show ?thesis
    using just_shown [of c] by (cases "handle_set_mode c p enable") (simp add: set_mode_param_def Let_def)
qed

text \<open>The control sequences that ask for an answer, on the arguments the parser dispatches.\<close>

definition csi_asks :: "nat list \<Rightarrow> u8 list \<Rightarrow> u8 \<Rightarrow> bool" where
  "csi_asks params ints final_byte \<longleftrightarrow>
     (case ints of
        [] \<Rightarrow> final_byte = 0x6E \<and> as_u8 (get_first_or_zero params) \<in> {5, 6} \<or> final_byte = 0x63
              \<or> final_byte = 0x74 \<and> get_first_or_zero params \<in> {14, 16, 18}
      | i # js \<Rightarrow> i = 0x3F \<and> (final_byte = 0x63 \<or> final_byte = 0x70 \<and> take 1 js = [0x24])
                 \<or> i = 0x3E \<and> final_byte = 0x63)"

lemma quiet_csi_plain:
  assumes "\<not> csi_asks params [] fb"
  shows "speaks q r (csi_plain c params fb) = speaks q r c"
proof -
  have report: "speaks q r (fst (handle_device_status_report c (as_u8 (get_first_or_zero params)))) = speaks q r c"
    if "fb = 0x6E"
    using assms that by (simp add: csi_asks_def handle_device_status_report_def)
  have display: "speaks q r (let (c1, v) = handle_erase_in_display c m
      in if v = SCROLLBACK_SENTINEL then clear_scrollback c1 else c1) = speaks q r c" for m
    using quiet_erase(2) [of q r c m] by (cases "handle_erase_in_display c m") simp
  have cursor_moves: "speaks q r (handle_cursor_up c n) = speaks q r c" "speaks q r (handle_cursor_down c n) = speaks q r c"
      "speaks q r (handle_cursor_forward c n) = speaks q r c" "speaks q r (handle_cursor_back c n) = speaks q r c"
      "speaks q r (handle_cursor_next_line c n) = speaks q r c" "speaks q r (handle_cursor_previous_line c n) = speaks q r c"
      "speaks q r (handle_cursor_horizontal_absolute c n) = speaks q r c"
      "speaks q r (handle_cursor_position c n m) = speaks q r c"
      "speaks q r (handle_cursor_vertical_absolute c n) = speaks q r c" for n m
    by (simp_all add: handle_cursor_up_def handle_cursor_down_def handle_cursor_forward_def handle_cursor_back_def
         handle_cursor_next_line_def handle_cursor_previous_line_def handle_cursor_horizontal_absolute_def
         handle_cursor_position_def handle_cursor_vertical_absolute_def)
  have scroll_moves: "speaks q r (handle_erase_characters c n) = speaks q r c"
      "speaks q r (handle_scroll_up c n) = speaks q r c" "speaks q r (handle_scroll_down c n) = speaks q r c"
      "speaks q r (handle_decstbm c n m) = speaks q r c" for n m
    by (simp_all add: handle_erase_characters_def handle_scroll_up_def handle_scroll_down_def handle_decstbm_def Let_def)
  have other: "fb = 0x63 \<Longrightarrow> speaks q r (fst (handle_primary_device_attributes c)) = speaks q r c"
      "fb = 0x74 \<Longrightarrow> get_first_or_zero params = 14 \<Longrightarrow> speaks q r (fst (handle_xtwinops_text_area_px c)) = speaks q r c"
      "fb = 0x74 \<Longrightarrow> get_first_or_zero params = 16 \<Longrightarrow> speaks q r (fst (handle_xtwinops_cell_size c)) = speaks q r c"
      "fb = 0x74 \<Longrightarrow> get_first_or_zero params = 18 \<Longrightarrow> speaks q r (fst (handle_xtwinops_text_area_chars c)) = speaks q r c"
    using assms by (simp_all add: csi_asks_def)
  show ?thesis
    unfolding csi_plain_def Let_def [of "get_first_or_one params"] Let_def [of "get_first_or_zero params"]
    by (intro quiet_if display)
       (simp_all only: other report simp_thms insert_iff empty_iff cursor_moves scroll_moves quiet_edit quiet_erase
         quiet_insert_characters quiet_delete_characters quiet_cursor)
qed

lemma quiet_csi:
  assumes "\<not> csi_asks params ints fb"
  shows "speaks q r (handle_csi_internal c params ints fb) = speaks q r c"
proof (cases ints)
  case Nil
  with assms show ?thesis
    by (simp add: handle_csi_internal_def quiet_csi_plain)
next
  case (Cons i js)
  with assms show ?thesis
    by (cases js) (auto simp: handle_csi_internal_def csi_private_def csi_asks_def quiet_foldl)
qed

lemma asked_csi_answers:
  assumes "csi_asks params ints fb"
  shows "tc_response_queue (handle_csi_internal c params ints fb) \<noteq> tc_response_queue c"
proof (cases ints)
  case Nil
  have "write_decimal n \<noteq> []" for n
    by (simp add: write_decimal_def digits_rev.simps [of n])
  with assms Nil show ?thesis
    by (auto simp: handle_csi_internal_def csi_asks_def csi_plain_def Let_def handle_device_status_report_def
        format_cpr_def write_response_def handle_primary_device_attributes_def handle_xtwinops_text_area_px_def
        handle_xtwinops_cell_size_def handle_xtwinops_text_area_chars_def format_xtwinops_def)
next
  case (Cons i js)
  with assms show ?thesis
    by (cases js) (auto simp: handle_csi_internal_def csi_asks_def csi_private_def write_response_def handle_decrpm_def
        handle_primary_device_attributes_def handle_secondary_device_attributes_def)
qed

subsection \<open>Every other action\<close>

lemma quiet_execute [simp]: "speaks q r (handle_execute_internal c b) = speaks q r c"
  by (simp add: handle_execute_internal_def handle_execute_def execute_line_feed_def fire_bell_callback_def)

lemma quiet_esc: "speaks [] r c \<Longrightarrow> speaks [] r (handle_esc_internal c i fb)"
proof -
  assume c: "speaks [] r c"
  have reset: "speaks [] r (esc_full_reset c)"
    using c by (simp add: esc_full_reset_def core_reset_def fire_reset_callback_def mark_all_dirty_def fire_def speaks_def)
  have index: "speaks [] r (esc_index d) = speaks [] r d" for d
    by (simp add: esc_index_def)
  show ?thesis
    using c reset by (simp add: handle_esc_internal_def set_g0_charset_def set_g1_charset_def index esc_next_line_def
        esc_reverse_index_def esc_horizontal_tab_set_def set_tab_stop_def split: option.split)
qed

lemma quiet_osc: "speaks q None c \<Longrightarrow> speaks q None (handle_osc_internal c param data t n)"
proof -
  assume c: "speaks q None c"
  have consult: "consult_osc_responder c param data t n = c"
    using c by (simp add: consult_osc_responder_def speaks_def)
  have link: "speaks q r (handle_hyperlink d data) = speaks q r d" for r d
    by (simp add: handle_hyperlink_def allocate_hyperlink_def gc_hyperlink_table_def Let_def split: option.split)
  have prompt: "speaks q r (push_pending_prompt_mark d k e) = speaks q r d" for r d k e
    by (simp add: push_pending_prompt_mark_def capture_b_mark_def Let_def split: list.split)
  have fold: "speaks q r (push_pending_fold_mark d k l) = speaks q r d" for r d k l
    by (simp add: push_pending_fold_mark_def Let_def)
  have shape: "speaks q r (handle_cursor_shape d data) = speaks q r d" for r d
    by (simp add: handle_cursor_shape_def)
  show ?thesis
    unfolding handle_osc_internal_def consult Let_def
    using c by (simp add: link shape fire_osc_callback_def) (auto simp: prompt fold split: option.split prod.split)
qed

text \<open>The actions that ask for an answer.\<close>

definition asks :: "parsed_action \<Rightarrow> bool" where
  "asks a \<longleftrightarrow>
     (case a of
        CsiDispatch params n ints m final_byte \<Rightarrow> csi_asks (take n params) (take m ints) final_byte
      | _ \<Rightarrow> False)"

abbreviation silent :: "core \<Rightarrow> bool" where
  "silent c \<equiv> speaks [] None c"

lemma silent_dispatch: "silent c \<Longrightarrow> \<not> asks a \<Longrightarrow> silent (dispatch_action c a)"
  by (cases a)
     (simp_all add: dispatch_action_def asks_def quiet_csi quiet_esc quiet_osc fire_apc_callback_def fire_dcs_callback_def Let_def)

section \<open>Feeding bytes that ask nothing\<close>

definition calm :: "parser \<Rightarrow> u8 list \<Rightarrow> bool" where
  "calm p bs \<longleftrightarrow> list_all (\<lambda>a. \<not> asks a) (snd (parse p bs))"

lemma calm_Nil [simp]: "calm p []"
  by (simp add: calm_def)

lemma calm_Cons:
  "calm p (b # bs) \<longleftrightarrow> list_all (\<lambda>a. \<not> asks a) (snd (parse_byte p b)) \<and> calm (fst (parse_byte p b)) bs"
  by (simp add: calm_def parse_Cons split: prod.split)

lemma silent_deliver:
  "silent c \<Longrightarrow> list_all (\<lambda>a. \<not> asks a) as \<Longrightarrow> silent (fst (deliver emit_action c as))"
proof (induction "as" arbitrary: c)
  case (Cons a as')
  obtain c1 go where e: "emit_action c a = (c1, go)"
    by fastforce
  with Cons.prems have "silent c1"
    using silent_dispatch [of c a] by (auto simp: emit_action_def Let_def)
  with Cons.IH [of c1] Cons.prems show ?case
    by (cases "deliver emit_action c1 as'") (simp add: e)
qed simp

lemma silent_interruptible:
  "silent c \<Longrightarrow> calm p bs \<Longrightarrow> parse_interruptible emit_action p c bs = (n, p', c')
   \<Longrightarrow> silent c' \<and> calm p' (drop n bs)"
proof (induction bs arbitrary: p c n)
  case (Cons b bs)
  obtain p1 acts where pb: "parse_byte p b = (p1, acts)"
    by fastforce
  obtain c1 stop where d: "deliver emit_action c acts = (c1, stop)"
    by fastforce
  have calm: "list_all (\<lambda>a. \<not> asks a) acts" "calm p1 bs"
    using Cons.prems(2) by (simp_all add: calm_Cons pb)
  have "silent c1"
    using silent_deliver [OF Cons.prems(1) calm(1)] by (simp add: d)
  moreover obtain m q e where "parse_interruptible emit_action p1 c1 bs = (m, q, e)"
    by (metis prod_cases3)
  ultimately show ?case
    using Cons.prems(3) Cons.IH [OF _ calm(2), of c1] calm(2) by (auto simp: pb d split: if_splits)
qed simp

lemma calm_fast_byte:
  assumes "is_ground_clean p" "fast_eligible b"
  shows "calm p (b # bs) = calm p bs"
proof -
  have "b \<noteq> 0x1B" "b \<noteq> 0x7F" "in_range 0x00 0x1A b \<or> in_range 0x1C 0x1F b \<or> in_range 0x20 0x7E b"
    using assms(2) by (auto simp: fast_eligible_def u8_unat)
  then have "\<exists>a. parse_byte p b = (p, [a]) \<and> \<not> asks a"
    using assms(1) by (auto simp: parse_byte_def ground_def ground_match_def is_ground_clean_def asks_def)
  then show ?thesis
    by (auto simp: calm_Cons)
qed

lemma fast_byte_eligible: "fast_byte c b = Some d \<Longrightarrow> fast_eligible b"
  by (auto simp: fast_byte_def fast_eligible_def split: if_splits)

lemma silent_fast_byte: "silent c \<Longrightarrow> fast_byte c b = Some d \<Longrightarrow> silent d"
  by (auto simp: fast_byte_def Let_def fire_bell_callback_def split: if_splits)

lemma silent_fast_run:
  assumes "is_ground_clean p"
  shows "silent c \<Longrightarrow> calm p bs \<Longrightarrow> fast_run c bs = (c', rest) \<Longrightarrow> silent c' \<and> calm p rest \<and> suffix rest bs"
proof (induction bs arbitrary: c)
  case (Cons b bs)
  show ?case
  proof (cases "fast_byte c b")
    case (Some d)
    then have "calm p bs" "silent d"
      using Cons.prems calm_fast_byte [OF assms fast_byte_eligible [OF Some], of bs] silent_fast_byte by blast+
    with Cons.IH [of d] Cons.prems(3) Some show ?thesis
      by (simp add: suffix_ConsI)
  qed (use Cons.prems in auto)
qed simp

lemma silent_fast_phase:
  "silent c \<Longrightarrow> calm p bs \<Longrightarrow> fast_phase fast p c bs = (c', rest) \<Longrightarrow> silent c' \<and> calm p rest \<and> suffix rest bs"
  using silent_fast_run [of p c bs c' rest] by (auto simp: fast_phase_def split: if_splits)

lemma silent_process_loop:
  "silent c \<Longrightarrow> calm p data \<Longrightarrow> process_loop fast p c data = (p', c', left)
   \<Longrightarrow> silent c' \<and> calm p' left \<and> suffix left data"
proof (induction fast p c data arbitrary: p' c' left rule: process_loop.induct)
  case (1 fast p c data)
  obtain c1 rest where fp: "fast_phase fast p c data = (c1, rest)" by fastforce
  obtain consumed p2 c2 where pi: "parse_interruptible emit_action p c1 rest = (consumed, p2, c2)"
    by (metis prod_cases3)
  note f = silent_fast_phase [OF "1.prems"(1,2) fp]
  note i = silent_interruptible [OF _ _ pi]
  note eq = "1.prems"(3) [unfolded process_loop.simps [of fast p c data] fp Let_def split_conv pi]
  show ?case
  proof (cases "data \<noteq> [] \<and> length rest < length data")
    case True
    then show ?thesis
      using "1.IH"(1) [OF _ fp [symmetric] refl] eq f by (auto intro: suffix_order.trans)
  next
    case False
    have suf: "suffix (drop consumed rest) data"
      using f suffix_drop suffix_order.trans by blast
    show ?thesis
    proof (cases "data = [] \<or> has_pending_buffer_switch c2 \<or> tc_cursor_just_shown c2 \<or> consumed = 0")
      case True
      then show ?thesis
        using eq f i False "1.prems"(1,2) suf by (auto split: if_splits)
    next
      case nt: False
      then show ?thesis
        using "1.IH"(2) [OF _ fp [symmetric] refl _ pi [symmetric] refl refl] eq f i False suf
        by (auto intro: suffix_order.trans)
    qed
  qed
qed

lemma after_newlines_suffix: "suffix (after_newlines n bs) bs"
  by (induction n bs rule: after_newlines.induct) (auto intro: suffix_ConsI)

lemma calm_eligible: "is_ground_clean p \<Longrightarrow> list_all fast_eligible bs \<Longrightarrow> calm p bs"
  by (induction bs) (simp_all add: calm_fast_byte)

lemma silent_bulk_skip: "silent c \<Longrightarrow> silent (fst (bulk_skip c data))"
  by (simp add: bulk_skip_def Let_def quiet_funpow)

lemma silent_process:
  assumes "silent c" "calm (tc_parser c) data" and "process_pty_data c data = (c', n)"
  shows "silent c' \<and> calm (tc_parser c') (drop n data)"
proof -
  let ?p = "tc_parser c" and ?c = "c\<lparr>tc_parser := parser_new\<rparr>"
  obtain c1 data1 where b: "(if bulk_skip_applies ?p ?c data then bulk_skip ?c data else (?c, data)) = (c1, data1)"
    by fastforce
  obtain p2 c2 left where l: "process_loop (can_fast_ascii ?c) ?p c1 data1 = (p2, c2, left)"
    by (metis prod_cases3)
  have start: "silent c1 \<and> calm ?p data1 \<and> suffix data1 data"
  proof (cases "bulk_skip_applies ?p ?c data")
    case True
    then have "suffix data1 data" "c1 = fst (bulk_skip ?c data)" "is_ground_clean ?p" "list_all fast_eligible data"
      using b after_newlines_suffix by (auto simp: bulk_skip_def Let_def bulk_skip_applies_def)
    moreover from this have "list_all fast_eligible data1"
      by (auto simp: suffix_def)
    ultimately show ?thesis
      using assms(1) by (simp add: silent_bulk_skip calm_eligible)
  qed (use assms b in auto)
  with silent_process_loop [OF _ _ l] have "silent c2 \<and> calm p2 left \<and> suffix left data"
    using suffix_order.trans by blast
  moreover from this have "drop (length data - length left) data = left"
    by (auto simp: suffix_def)
  ultimately show ?thesis
    using assms(3) b l by (auto simp: process_pty_data_def Let_def)
qed

lemma silent_fully_loop:
  "silent c \<Longrightarrow> calm (tc_parser c) data \<Longrightarrow> silent (fst (fully_loop cancel k c data acts))"
proof (induction cancel k c data acts rule: fully_loop.induct)
  case (1 cancel k c data acts)
  obtain c1 n where pd: "process_pty_data c data = (c1, n)" by fastforce
  obtain as c2 where tm: "take_mode_actions c1 = (as, c2)" by fastforce
  note s = silent_process [OF "1.prems" pd]
  have "silent c2" "tc_parser c2 = tc_parser c1"
    using s tm by (auto simp: take_mode_actions_def)
  then show ?case
    using "1.prems" "1.IH" [OF _ _ pd [symmetric] refl tm [symmetric] refl _] s
    by (simp add: fully_loop.simps [of cancel k c data acts] pd tm)
qed

end
