(* ===== verification/FilterFacts.thy ===== *)
theory FilterFacts
  imports ScrollbackFilter Quiet
begin

text \<open>
  The filter of replayed output against the terminal it protects: its record of where the output
  stands agrees with the terminal's own parser, and what it lets through never makes the terminal
  answer.
\<close>

section \<open>The record agrees with the parser\<close>

definition option_list :: "'a option \<Rightarrow> 'a list" where
  "option_list x = (case x of Some y \<Rightarrow> [y] | None \<Rightarrow> [])"

lemma option_list_simps [simp]: "option_list None = []" "option_list (Some x) = [x]"
  by (simp_all add: option_list_def)

text \<open>How the classification of an open control sequence relates to the parser's accumulator:
  the first parameter, and the stored intermediates, which start with the private marker.\<close>

definition first_tracks :: "first_param \<Rightarrow> param_parser \<Rightarrow> bool" where
  "first_tracks fp pp \<longleftrightarrow>
     (case pp_params pp of
        [] \<Rightarrow> fp_collecting fp \<and> pp_current pp = min MAX_PARAM_VALUE (fp_value fp)
              \<and> (\<not> pp_has_current pp \<longrightarrow> pp_current pp = 0)
      | x # _ \<Rightarrow> \<not> fp_collecting fp \<and> x = min MAX_PARAM_VALUE (fp_value fp))"

definition ints_track :: "u8 option \<Rightarrow> u8 option \<Rightarrow> u8 list \<Rightarrow> bool" where
  "ints_track marker first ints \<longleftrightarrow>
     (case marker of
        Some m \<Rightarrow> in_range 0x3C 0x3F m \<and> take 2 ints = m # option_list first
      | None \<Rightarrow> take 1 ints = option_list first)
     \<and> (case first of Some i \<Rightarrow> in_range 0x20 0x2F i | None \<Rightarrow> True)"

definition csi_tracks :: "open_csi \<Rightarrow> param_parser \<Rightarrow> bool" where
  "csi_tracks oc pp \<longleftrightarrow>
     first_tracks (oc_first oc) pp \<and> ints_track (oc_marker oc) (oc_first_intermediate oc) (pp_intermediates pp)"

definition tracks :: "written_state \<Rightarrow> parser \<Rightarrow> bool" where
  "tracks s p \<longleftrightarrow>
     (case ps_state p of
        Ground \<Rightarrow> s = WGround
      | Escape \<Rightarrow> s = WEscape
      | OscEscape \<Rightarrow> s = WEscape
      | ApcEscape \<Rightarrow> s = WEscape
      | DcsEscape \<Rightarrow> s = WEscape
      | EscapeCharset _ \<Rightarrow> s = WDesignator
      | OscString \<Rightarrow> s = WOscBody
      | ApcString \<Rightarrow> s = WStBody
      | DcsString \<Rightarrow> s = WStBody
      | CsiEntry \<Rightarrow> s = WCsi open_csi_entry \<and> pp_intermediates (ps_params p) = [] \<and> csi_tracks open_csi_entry (ps_params p)
      | CsiParam \<Rightarrow> (\<exists>oc. s = WCsi oc \<and> oc_phase oc = PhaseParam \<and> csi_tracks oc (ps_params p)))"

lemma first_tracks_digit:
  "first_tracks fp pp \<Longrightarrow> is_digit b \<Longrightarrow> first_tracks (first_param_feed fp b) (add_digit pp b)"
  by (auto simp: first_tracks_def first_param_feed_def add_digit_def digit32_def Let_def sat_defs MAX_PARAM_VALUE_def
      split: list.splits)

lemma first_tracks_separator:
  "first_tracks fp pp \<Longrightarrow> \<not> is_digit b \<Longrightarrow> first_tracks (first_param_feed fp b) (finish_param pp)"
  by (auto simp: first_tracks_def first_param_feed_def finish_param_def Let_def MAX_PARAMS_def split: list.splits)

lemma first_tracks_other [simp]: "first_tracks fp (add_intermediate pp b) = first_tracks fp pp"
  by (simp add: first_tracks_def add_intermediate_def split: list.split)

lemma first_tracks_ints [simp]: "first_tracks fp (pp\<lparr>pp_intermediates := ints\<rparr>) = first_tracks fp pp"
  by (simp add: first_tracks_def split: list.split)

lemma ints_kept [simp]:
  "pp_intermediates (add_digit pp b) = pp_intermediates pp" "pp_intermediates (finish_param pp) = pp_intermediates pp"
  by (simp_all add: add_digit_def finish_param_def Let_def)

lemma ints_track_add:
  assumes "ints_track marker first (pp_intermediates pp)" "in_range 0x20 0x2F b"
  shows "ints_track marker (case first of Some i \<Rightarrow> Some i | None \<Rightarrow> Some b) (pp_intermediates (add_intermediate pp b))"
proof -
  obtain ints where ints: "pp_intermediates pp = ints" by simp
  have "take 1 (ints @ [b]) = [b]" "take 2 ((m :: u8) # [b]) = [m, b]" if "take 1 ints = []" for m
    using that by (cases ints; simp)+
  moreover have "take 1 (ints @ [b]) = [i]" if "take 1 ints = [i]" for i
    using that by (cases ints) auto
  moreover have "take 2 (ints @ [b]) = [m, b]" "length ints < 4" if "take 2 ints = [m]" for m
    using that by (cases ints; cases "tl ints"; auto)+
  moreover have "take 2 (ints @ [b]) = [m, i]" if "take 2 ints = [m, i]" for m i
    using that by (cases ints; cases "tl ints") auto
  moreover have "length ints < 4" if "take 1 ints = []"
    using that by (cases ints) auto
  ultimately show ?thesis
    using assms by (auto simp: ints_track_def add_intermediate_def ints split: option.splits)
qed

lemma csi_tracks_start:
  "csi_tracks open_csi_entry (pp_reset pp)" "pp_intermediates (pp_reset pp) = []"
  by (simp_all add: csi_tracks_def first_tracks_def ints_track_def pp_reset_def open_csi_entry_def first_param_start_def)

text \<open>The classes of bytes inside a control sequence.\<close>

lemma csi_byte_cases:
  obtains (esc) "b = 0x1B" | (c0) "in_range 0x00 0x1A b \<or> in_range 0x1C 0x1F b"
    | (final) "in_range 0x40 0x7E b" | (digit) "is_digit b" | (separator) "b = 0x3B \<or> b = 0x3A"
    | (marker) "in_range 0x3C 0x3F b" | (intermediate) "in_range 0x20 0x2F b" | (invalid) "b = 0x7F \<or> 0x80 \<le> b"
  by (cases "b = 0x1B"; cases "b = 0x3A"; cases "b = 0x3B"; cases "b = 0x7F")
     (auto simp: u8_unat is_digit_def word_le_nat_alt, linarith)

lemma csi_classes:
  "b = 0x1B \<Longrightarrow> \<not> is_digit b \<and> b \<noteq> 0x3B \<and> b \<noteq> 0x3A \<and> \<not> in_range 0x20 0x2F b \<and> \<not> in_range 0x40 0x7E b
     \<and> \<not> in_range 0x00 0x1A b \<and> \<not> in_range 0x1C 0x1F b \<and> b \<notin> {0x3F, 0x3E, 0x3C, 0x3D, 0x20}"
  "in_range 0x00 0x1A b \<or> in_range 0x1C 0x1F b \<Longrightarrow> b \<noteq> 0x1B \<and> \<not> is_digit b \<and> b \<noteq> 0x3B \<and> b \<noteq> 0x3A
     \<and> \<not> in_range 0x20 0x2F b \<and> \<not> in_range 0x40 0x7E b \<and> b \<notin> {0x3F, 0x3E, 0x3C, 0x3D, 0x20}
     \<and> \<not> in_range 0x30 0x3B b \<and> \<not> in_range 0x3C 0x3F b"
  "in_range 0x40 0x7E b \<Longrightarrow> b \<noteq> 0x1B \<and> \<not> is_digit b \<and> b \<noteq> 0x3B \<and> b \<noteq> 0x3A \<and> \<not> in_range 0x20 0x2F b
     \<and> \<not> in_range 0x00 0x1A b \<and> \<not> in_range 0x1C 0x1F b \<and> b \<notin> {0x3F, 0x3E, 0x3C, 0x3D, 0x20}"
  "is_digit b \<Longrightarrow> b \<noteq> 0x1B \<and> b \<noteq> 0x3B \<and> b \<noteq> 0x3A \<and> \<not> in_range 0x20 0x2F b \<and> \<not> in_range 0x40 0x7E b
     \<and> \<not> in_range 0x00 0x1A b \<and> \<not> in_range 0x1C 0x1F b \<and> in_range 0x30 0x3B b"
  "b = 0x3B \<or> b = 0x3A \<Longrightarrow> b \<noteq> 0x1B \<and> \<not> is_digit b \<and> \<not> in_range 0x20 0x2F b \<and> \<not> in_range 0x40 0x7E b
     \<and> \<not> in_range 0x00 0x1A b \<and> \<not> in_range 0x1C 0x1F b \<and> in_range 0x30 0x3B b \<and> b \<notin> {0x3F, 0x3E, 0x3C, 0x3D, 0x20}"
  "in_range 0x3C 0x3F b \<Longrightarrow> b \<noteq> 0x1B \<and> \<not> is_digit b \<and> b \<noteq> 0x3B \<and> b \<noteq> 0x3A \<and> \<not> in_range 0x20 0x2F b
     \<and> \<not> in_range 0x40 0x7E b \<and> \<not> in_range 0x00 0x1A b \<and> \<not> in_range 0x1C 0x1F b \<and> \<not> in_range 0x30 0x3B b
     \<and> b \<in> {0x3F, 0x3E, 0x3C, 0x3D, 0x20}"
  "in_range 0x20 0x2F b \<Longrightarrow> b \<noteq> 0x1B \<and> \<not> is_digit b \<and> b \<noteq> 0x3B \<and> b \<noteq> 0x3A \<and> \<not> in_range 0x40 0x7E b
     \<and> \<not> in_range 0x00 0x1A b \<and> \<not> in_range 0x1C 0x1F b \<and> b \<notin> {0x3F, 0x3E, 0x3C, 0x3D}"
  "b = 0x7F \<or> 0x80 \<le> b \<Longrightarrow> b \<noteq> 0x1B \<and> \<not> is_digit b \<and> b \<noteq> 0x3B \<and> b \<noteq> 0x3A \<and> \<not> in_range 0x40 0x7E b
     \<and> \<not> in_range 0x00 0x1A b \<and> \<not> in_range 0x1C 0x1F b \<and> \<not> in_range 0x20 0x2F b \<and> b \<notin> {0x3F, 0x3E, 0x3C, 0x3D, 0x20}"
  by (auto simp: u8_unat is_digit_def word_le_nat_alt)

lemma dispatch_csi_state [simp]: "ps_state (fst (dispatch_csi p b)) = Ground"
  by (simp add: dispatch_csi_def Let_def split: prod.split)

lemma tracks_csi_param:
  assumes "ps_state p = CsiParam" "csi_tracks oc (ps_params p)" "oc_phase oc = PhaseParam"
  shows "tracks (written_advance (WCsi oc) b) (fst (csi_param p b))"
proof (cases rule: csi_byte_cases [of b])
  case digit
  with assms csi_classes(4) [OF digit] show ?thesis
    by (simp add: written_advance_def open_csi_advance_def csi_step_def csi_param_def tracks_def csi_tracks_def first_tracks_digit)
next
  case separator
  with assms csi_classes(5) [OF separator] show ?thesis
    by (simp add: written_advance_def open_csi_advance_def csi_step_def csi_param_def tracks_def csi_tracks_def first_tracks_separator)
next
  case intermediate
  with assms csi_classes(7) [OF intermediate] ints_track_add [OF _ intermediate] show ?thesis
    by (simp add: written_advance_def open_csi_advance_def csi_step_def csi_param_def tracks_def csi_tracks_def)
next
  case c0
  with assms csi_classes(2) [OF c0] show ?thesis
    by (simp add: written_advance_def open_csi_advance_def csi_step_def csi_param_def tracks_def csi_tracks_def)
next
  case esc
  with csi_classes(1) [OF esc] show ?thesis
    by (simp add: written_advance_def open_csi_advance_def csi_step_def csi_param_def tracks_def)
next
  case final
  with csi_classes(3) [OF final] show ?thesis
    by (simp add: written_advance_def open_csi_advance_def csi_step_def csi_param_def tracks_def)
next
  case marker
  with assms csi_classes(6) [OF marker] show ?thesis
    by (simp add: written_advance_def open_csi_advance_def csi_step_def csi_param_def tracks_def)
next
  case invalid
  with assms csi_classes(8) [OF invalid] show ?thesis
    by (simp add: written_advance_def open_csi_advance_def csi_step_def csi_param_def tracks_def)
qed

lemma tracks_csi_entry:
  assumes "ps_state p = CsiEntry" "pp_intermediates (ps_params p) = []" "csi_tracks open_csi_entry (ps_params p)"
  shows "tracks (written_advance (WCsi open_csi_entry) b) (fst (csi_entry p b))"
proof -
  have phase: "oc_phase open_csi_entry = PhaseEntry" "oc_marker open_csi_entry = None"
      "oc_first_intermediate open_csi_entry = None"
    by (simp_all add: open_csi_entry_def)
  show ?thesis
  proof (cases rule: csi_byte_cases [of b])
    case digit
    with assms csi_classes(4) [OF digit] show ?thesis
      by (simp add: written_advance_def open_csi_advance_def csi_step_def csi_entry_def tracks_def csi_tracks_def
          first_tracks_digit phase)
  next
    case separator
    with assms csi_classes(5) [OF separator] show ?thesis
      by (auto simp: written_advance_def open_csi_advance_def csi_step_def csi_entry_def tracks_def csi_tracks_def
          first_tracks_separator phase)
  next
    case intermediate
    have "in_range 0x20 0x2F (0x20 :: u8)"
      by (simp add: u8_unat)
    with intermediate assms csi_classes(7) [OF intermediate] show ?thesis
      by (auto simp: written_advance_def open_csi_advance_def csi_step_def csi_entry_def tracks_def csi_tracks_def phase
          ints_track_def add_intermediate_def)
  next
    case c0
    with assms csi_classes(2) [OF c0] show ?thesis
      by (simp add: written_advance_def open_csi_advance_def csi_step_def csi_entry_def tracks_def phase)
  next
    case esc
    with csi_classes(1) [OF esc] show ?thesis
      by (simp add: written_advance_def open_csi_advance_def csi_step_def csi_entry_def tracks_def)
  next
    case final
    with csi_classes(3) [OF final] show ?thesis
      by (simp add: written_advance_def open_csi_advance_def csi_step_def csi_entry_def tracks_def)
  next
    case marker
    with assms csi_classes(6) [OF marker] show ?thesis
      by (auto simp: written_advance_def open_csi_advance_def csi_step_def csi_entry_def tracks_def csi_tracks_def phase
          ints_track_def add_intermediate_def)
  next
    case invalid
    with assms csi_classes(8) [OF invalid] show ?thesis
      by (simp add: written_advance_def open_csi_advance_def csi_step_def csi_entry_def tracks_def phase)
  qed
qed

lemma tracks_ground: "ps_state p = Ground \<Longrightarrow> tracks (written_advance WGround b) (fst (ground p b))"
  by (auto simp: tracks_def written_advance_def ground_def ground_match_def handle_utf8_byte_def Let_def u8_unat
      split: option.split)

lemma tracks_escape: "tracks (written_advance WEscape b) (fst (escape p b))" if "ps_state p = Escape"
  using that by (auto simp: tracks_def written_advance_def escape_def csi_tracks_start)

text \<open>After an escape character inside a string, the string is over in either case.\<close>

definition string_escape :: "parser \<Rightarrow> u8 \<Rightarrow> parser" where
  "string_escape q b = (if b = 0x5C then q\<lparr>ps_state := Ground\<rparr> else fst (escape (q\<lparr>ps_state := Escape\<rparr>) b))"

lemma tracks_string_escape: "tracks (written_advance WEscape b) (string_escape q b)"
  using tracks_escape [of "q\<lparr>ps_state := Escape\<rparr>" b]
  by (simp add: string_escape_def) (simp add: tracks_def written_advance_def)

lemma string_escapes:
  "\<exists>q. fst (osc_escape p b) = string_escape q b" "\<exists>q. fst (apc_escape p b) = string_escape q b"
  "\<exists>q. fst (dcs_escape p b) = string_escape q b"
proof -
  have "fst (osc_escape p b) = string_escape (fst (dispatch_osc p (if b = 0x5C then St else Unterminated))) b"
    by (simp add: osc_escape_def string_escape_def Let_def split: prod.split)
  then show "\<exists>q. fst (osc_escape p b) = string_escape q b" by blast
  have "fst (apc_escape p b) = string_escape (fst (dispatch_apc p)) b"
    by (simp add: apc_escape_def string_escape_def Let_def split: prod.split)
  then show "\<exists>q. fst (apc_escape p b) = string_escape q b" by blast
  have "fst (dcs_escape p b) = string_escape (fst (dispatch_dcs p)) b"
    by (simp add: dcs_escape_def string_escape_def Let_def split: prod.split)
  then show "\<exists>q. fst (dcs_escape p b) = string_escape q b" by blast
qed

text \<open>One byte on both sides.\<close>

lemma tracks_step: "tracks s p \<Longrightarrow> tracks (written_advance s b) (fst (parse_byte p b))"
proof (cases "ps_state p")
  case CsiEntry
  assume "tracks s p"
  with CsiEntry tracks_csi_entry [OF CsiEntry] show ?thesis
    by (auto simp: tracks_def [of s] parse_byte_def)
next
  case CsiParam
  assume "tracks s p"
  then obtain oc where "s = WCsi oc" "oc_phase oc = PhaseParam" "csi_tracks oc (ps_params p)"
    using CsiParam by (auto simp: tracks_def)
  with CsiParam tracks_csi_param [OF CsiParam] show ?thesis
    by (simp add: parse_byte_def)
next
  case OscEscape
  assume "tracks s p"
  then have "s = WEscape"
    using OscEscape by (simp add: tracks_def)
  with OscEscape string_escapes(1) [of p b] show ?thesis
    by (auto simp: parse_byte_def tracks_string_escape)
next
  case ApcEscape
  assume "tracks s p"
  then have "s = WEscape"
    using ApcEscape by (simp add: tracks_def)
  with ApcEscape string_escapes(2) [of p b] show ?thesis
    by (auto simp: parse_byte_def tracks_string_escape)
next
  case DcsEscape
  assume "tracks s p"
  then have "s = WEscape"
    using DcsEscape by (simp add: tracks_def)
  with DcsEscape string_escapes(3) [of p b] show ?thesis
    by (auto simp: parse_byte_def tracks_string_escape)
qed (auto simp: tracks_def [of s] parse_byte_def tracks_ground tracks_escape, auto simp: tracks_def
  written_advance_def escape_charset_def osc_string_def count_osc_byte_def dispatch_osc_def apc_string_def dcs_string_def Let_def)

section \<open>The queries it recognises are the ones answered\<close>

lemma csi_tracks_asks:
  assumes "csi_tracks oc pp"
  shows "csi_asks (take MAX_CSI_PARAMS (fst (finish pp))) (take MAX_CSI_INTERMEDIATES (pp_intermediates pp)) b
    = csi_is_device_query (oc_marker oc) (option_list (oc_first_intermediate oc)) (fp_value (oc_first oc)) b"
proof -
  let ?v = "fp_value (oc_first oc)" and ?ps = "take MAX_CSI_PARAMS (fst (finish pp))"
  have first: "get_first_or_zero ?ps = min 9999 ?v"
    using assms by (auto simp: csi_tracks_def first_tracks_def finish_def get_first_or_zero_def MAX_CSI_PARAMS_def
        MAX_PARAMS_def MAX_PARAM_VALUE_def Let_def split: list.splits)
  have window: "min 9999 ?v \<in> {14, 16, 18} \<longleftrightarrow> ?v \<in> {14, 16, 18}"
    by (auto simp: min_def)
  have ints: "ints_track (oc_marker oc) (oc_first_intermediate oc) (pp_intermediates pp)"
    using assms by (simp add: csi_tracks_def)
  show ?thesis
  proof (cases "oc_marker oc")
    case (Some m)
    with ints have "take MAX_CSI_INTERMEDIATES (pp_intermediates pp) = m # option_list (oc_first_intermediate oc)"
      by (simp add: ints_track_def MAX_CSI_INTERMEDIATES_def)
    with Some show ?thesis
      by (cases "oc_first_intermediate oc") (auto simp: csi_asks_def csi_is_device_query_def)
  next
    case None
    with ints obtain t where t: "take MAX_CSI_INTERMEDIATES (pp_intermediates pp) = option_list (oc_first_intermediate oc) @ t"
        "oc_first_intermediate oc = None \<Longrightarrow> t = []"
      by (cases "pp_intermediates pp"; cases "oc_first_intermediate oc")
         (auto simp: ints_track_def MAX_CSI_INTERMEDIATES_def)
    show ?thesis
    proof (cases "oc_first_intermediate oc")
      case None
      with t \<open>oc_marker oc = None\<close> show ?thesis
        using first window by (auto simp: csi_asks_def csi_is_device_query_def min.commute)
    next
      case (Some i)
      with ints have "i \<noteq> 0x3F" "i \<noteq> 0x3E"
        by (auto simp: ints_track_def u8_unat)
      with Some t \<open>oc_marker oc = None\<close> show ?thesis
        by (simp add: csi_asks_def csi_is_device_query_def)
    qed
  qed
qed

lemma dispatch_csi_asks:
  assumes "csi_tracks oc (ps_params p)" "in_range 0x40 0x7E b"
  shows "list_all (\<lambda>a. \<not> asks a) (snd (dispatch_csi p b)) \<longleftrightarrow> \<not> completes_an_answered_query oc b"
proof -
  obtain v pp where f: "finish (ps_params p) = (v, pp)"
    by fastforce
  have "pp_intermediates pp = pp_intermediates (ps_params p)"
    using finish_intermediates [of "ps_params p"] f by simp
  then show ?thesis
    using csi_tracks_asks [OF assms(1), of b] assms(2)
    by (simp add: take_to_array dispatch_csi_def f asks_def completes_an_answered_query_def option_list_def Let_def)
qed

lemma list_all_emit:
  "list_all (\<lambda>a. \<not> asks a) (snd (ground p b))" "list_all (\<lambda>a. \<not> asks a) (snd (escape p b))"
  "list_all (\<lambda>a. \<not> asks a) (snd (escape_charset p d b))" "list_all (\<lambda>a. \<not> asks a) (snd (osc_string p b))"
  "list_all (\<lambda>a. \<not> asks a) (snd (apc_string p b))" "list_all (\<lambda>a. \<not> asks a) (snd (dcs_string p b))"
  by (auto simp: ground_def ground_match_def handle_utf8_byte_def escape_def escape_charset_def osc_string_def
      dispatch_osc_def apc_string_def dcs_string_def asks_def Let_def split: option.split list.split)

lemma list_all_emit_escape:
  "list_all (\<lambda>a. \<not> asks a) (snd (osc_escape p b))" "list_all (\<lambda>a. \<not> asks a) (snd (apc_escape p b))"
  "list_all (\<lambda>a. \<not> asks a) (snd (dcs_escape p b))"
proof -
  have esc: "list_all (\<lambda>a. \<not> asks a) x2" if "escape q b = (x1, x2)" for q x1 x2
    using list_all_emit(2) [of q b] that by simp
  show "list_all (\<lambda>a. \<not> asks a) (snd (osc_escape p b))"
    by (auto simp: osc_escape_def dispatch_osc_def Let_def asks_def dest: esc split: prod.split)
  show "list_all (\<lambda>a. \<not> asks a) (snd (apc_escape p b))"
    by (auto simp: apc_escape_def dispatch_apc_def Let_def asks_def dest: esc split: prod.split)
  show "list_all (\<lambda>a. \<not> asks a) (snd (dcs_escape p b))"
    by (auto simp: dcs_escape_def dispatch_dcs_def Let_def asks_def dest: esc split: prod.split)
qed

text \<open>A byte makes the terminal answer exactly when the record says so.\<close>

definition answered_here :: "written_state \<Rightarrow> u8 \<Rightarrow> bool" where
  "answered_here s b \<longleftrightarrow> (case s of WCsi oc \<Rightarrow> completes_an_answered_query oc b | _ \<Rightarrow> False)"

lemma asks_byte:
  assumes "tracks s p"
  shows "list_all (\<lambda>a. \<not> asks a) (snd (parse_byte p b)) \<longleftrightarrow> \<not> answered_here s b"
proof -
  have open_csi: "list_all (\<lambda>a. \<not> asks a) (snd (f p b)) \<longleftrightarrow> \<not> completes_an_answered_query oc b"
    if "csi_tracks oc (ps_params p)" "f = csi_entry \<or> f = csi_param" for oc f
  proof (cases "in_range 0x40 0x7E b")
    case True
    with that dispatch_csi_asks [OF that(1) True] csi_classes(3) [OF True] show ?thesis
      by (auto simp: csi_entry_def csi_param_def)
  next
    case False
    with that(2) show ?thesis
      by (auto simp: csi_entry_def csi_param_def completes_an_answered_query_def asks_def)
  qed
  show ?thesis
  proof (cases "ps_state p")
    case CsiEntry
    with assms have "s = WCsi open_csi_entry" "csi_tracks open_csi_entry (ps_params p)"
      by (simp_all add: tracks_def)
    with CsiEntry open_csi [of open_csi_entry csi_entry] show ?thesis
      by (simp add: parse_byte_def answered_here_def)
  next
    case CsiParam
    with assms obtain oc where "s = WCsi oc" "csi_tracks oc (ps_params p)"
      by (auto simp: tracks_def)
    with CsiParam open_csi [of oc csi_param] show ?thesis
      by (simp add: parse_byte_def answered_here_def)
  qed (use assms in \<open>auto simp: tracks_def parse_byte_def answered_here_def list_all_emit list_all_emit_escape\<close>)
qed

section \<open>Nothing that asks gets through\<close>

text \<open>The output so far asks nothing and leaves the parser where the record says.\<close>

definition safe_output :: "parser \<Rightarrow> written \<Rightarrow> bool" where
  "safe_output p w \<longleftrightarrow> calm p (w_bytes w) \<and> tracks (w_state w) (fst (parse p (w_bytes w)))"

lemma calm_append: "calm p (xs @ ys) \<longleftrightarrow> calm p xs \<and> calm (fst (parse p xs)) ys"
  by (simp add: calm_def parse_append split: prod.split)

lemma parse_append_fst: "fst (parse p (xs @ ys)) = fst (parse (fst (parse p xs)) ys)"
  by (simp add: parse_append split: prod.split)

lemma parse_single: "parse p [b] = parse_byte p b"
  by (simp add: parse_Cons split: prod.split)

lemma closing_byte:
  assumes "tracks (WCsi oc) p"
  shows "\<not> answered_here (WCsi oc) CSI_CLOSING_BYTE" "written_advance (WCsi oc) CSI_CLOSING_BYTE = WGround"
proof -
  have "csi_step (oc_phase oc) CSI_CLOSING_BYTE = StepEnd"
    by (simp add: csi_step_def CSI_CLOSING_BYTE_def u8_unat is_digit_def)
  then show "written_advance (WCsi oc) CSI_CLOSING_BYTE = WGround"
    by (simp add: written_advance_def open_csi_advance_def)
qed (simp add: answered_here_def completes_an_answered_query_def CSI_CLOSING_BYTE_def u8_unat)

lemma safe_push:
  assumes "safe_output p w"
  shows "safe_output p (written_push w b)"
proof -
  let ?q = "fst (parse p (w_bytes w))"
  have push: "safe_output p \<lparr>w_bytes = w_bytes w @ [d], w_state = written_advance (w_state w) d\<rparr>"
    if "\<not> answered_here (w_state w) d" for d
  proof -
    have t: "tracks (w_state w) ?q" and c: "calm p (w_bytes w)"
      using assms by (simp_all add: safe_output_def)
    have "calm ?q [d]" "fst (parse ?q [d]) = fst (parse_byte ?q d)"
      using asks_byte [OF t, of d] that by (simp_all add: calm_Cons parse_single)
    with c tracks_step [OF t, of d] show ?thesis
      by (simp add: safe_output_def calm_append parse_append_fst)
  qed
  show ?thesis
  proof (cases "answered_here (w_state w) b")
    case True
    then obtain oc where oc: "w_state w = WCsi oc"
      by (auto simp: answered_here_def split: written_state.splits)
    have "tracks (WCsi oc) ?q"
      using assms oc by (simp add: safe_output_def)
    from closing_byte [OF this] push [of CSI_CLOSING_BYTE] True oc show ?thesis
      by (simp add: written_push_def answered_here_def)
  next
    case False
    with push show ?thesis
      by (auto simp: written_push_def answered_here_def split: written_state.splits)
  qed
qed

lemma safe_extend: "safe_output p w \<Longrightarrow> safe_output p (written_extend w bs)"
  unfolding written_extend_def by (induction bs arbitrary: w) (simp_all add: safe_push)

lemma safe_close: "safe_output p w \<Longrightarrow> safe_output p (close_before_removal w)"
  by (simp add: close_before_removal_def safe_push safe_extend split: written_state.split)

lemma safe_strip_loop:
  "safe_output p out \<Longrightarrow> safe_output p (fst (strip_loop i rest verbatim watch remapped out))"
proof (induction i rest verbatim watch remapped out rule: strip_loop.induct)
  case (2 i b bs verbatim watch remapped out)
  note push = safe_push [OF 2(6), of b]
  show ?case
  proof (cases "0 < verbatim \<or> b \<noteq> 0x1B \<or> bs = []")
    case True
    with 2(1,2) push show ?thesis
      by (auto simp: Let_def)
  next
    case False
    with 2(3-5) push safe_extend [OF safe_close [OF 2(6)]] show ?thesis
      by (auto simp: Let_def split: decision.split)
  qed
qed simp

lemma safe_strip_pass:
  assumes "tracks start p"
  shows "calm p (fst (strip_pass bytes watch pending start))"
    "tracks (snd (snd (strip_pass bytes watch pending start))) (fst (parse p (fst (strip_pass bytes watch pending start))))"
proof -
  obtain out remapped where l: "strip_loop 0 bytes (if pending then 1 else 0) watch [] \<lparr>w_bytes = [], w_state = start\<rparr>
      = (out, remapped)"
    by fastforce
  have "safe_output p out"
    using safe_strip_loop [of p "\<lparr>w_bytes = [], w_state = start\<rparr>" 0 bytes "if pending then 1 else 0" watch "[]"] assms
    by (simp add: safe_output_def l)
  then show "calm p (fst (strip_pass bytes watch pending start))"
      "tracks (snd (snd (strip_pass bytes watch pending start))) (fst (parse p (fst (strip_pass bytes watch pending start))))"
    by (simp_all add: safe_output_def strip_pass_def l)
qed

lemma tracks_run: "tracks s p \<Longrightarrow> tracks (foldl written_advance s bs) (fst (parse p bs))"
proof (induction bs arbitrary: s p)
  case (Cons b bs)
  from Cons.IH [OF tracks_step [OF Cons.prems]] show ?case
    by (simp add: parse_Cons split_def Let_def)
qed simp

lemma tracks_new: "ps_state p = Ground \<Longrightarrow> tracks WGround p"
  by (simp add: tracks_def)

text \<open>C11. The filter's own record of where the stream stands (ground, escape, charset designator,
  control sequence with its first parameter, marker and intermediate, string body) agrees with the
  state of the terminal's parser after every stream of bytes.\<close>

theorem written_state_follows_parser:
  "tracks (foldl written_advance WGround bs) (fst (parse parser_new bs))"
  by (intro tracks_run tracks_new) (simp add: parser_new_def)


lemma replay_silent:
  assumes "silent c" "ps_state (tc_parser c) = Ground"
  shows "silent (fst (process_pty_data_fully c (strip_replayable_rich_content bytes)))"
proof -
  have "calm (tc_parser c) (strip_replayable_rich_content bytes)"
    using safe_strip_pass(1) [OF tracks_new [OF assms(2)], of bytes "[]" False]
    by (simp add: strip_replayable_rich_content_def strip_rich_content_def strip_rich_content_and_remap_def
        strip_rich_content_and_remap_with_designator_def split_def Let_def)
  from silent_fully_loop [OF assms(1) this, of "\<lambda>_. False" 0 "[]"] show ?thesis
    by (simp add: process_pty_data_fully_def process_pty_data_fully_cancellable_def split_def split: option.split)
qed

text \<open>C7. Replaying a filtered history never makes the terminal answer: whatever bytes a pane
  produced, feeding what the filter keeps of them to a terminal that starts at the ground state
  with no pending answer and no colour responder leaves it without any answer.\<close>

theorem replay_answers_nothing:
  assumes "tc_response_queue c = []" "tc_osc_responder c = None" "ps_state (tc_parser c) = Ground"
  shows "tc_response_queue (fst (process_pty_data_fully c (strip_replayable_rich_content bytes))) = []"
  using replay_silent [of c bytes] assms by (simp add: speaks_def)

theorem replay_answers_nothing_witness:
  "tc_response_queue (fst (process_pty_data_fully (core_new 80 24 100)
     (strip_replayable_rich_content [0x61, 0x1B, 0x5B, 0x36, 0x6E, 0x62]))) = []"
  by (rule replay_answers_nothing) (simp_all add: core_new_def mark_all_dirty_def parser_new_def)

end
