(* ===== verification/LaunchFacts.thy ===== *)
theory LaunchFacts
  imports FilterFacts
begin

text \<open>
  Replaying a filtered history launches nothing: no complete operating system command that opens
  a viewer or reports a status reaches the terminal again.  The proof follows the pass of the
  filter and the parser of its output side by side: whenever the output stands inside a command
  body, the rest of the input completes that body to one the filter keeps.
\<close>

section \<open>The body collected by the parser\<close>

lemma recover_loop_snoc:
  "recover_loop acc ov seen data (x @ [b]) =
     (let (a, v, d) = recover_loop acc ov seen data x; s = (seen \<or> 0x3B \<in> set x) in
      if \<not> s \<and> is_digit b then (digit32 a b, v \<or> U16_MAX < digit32 a b, d)
      else if \<not> s \<and> b = 0x3B then (a, v, d) else (a, v, d @ [b]))"
proof (induction acc ov seen data x rule: recover_loop.induct)
  case (2 acc ov seen data c bs)
  have "\<not> is_digit 0x3B"
    by (simp add: is_digit_def in_range_unat)
  with 2 show ?case by (auto simp: Let_def split: prod.splits)
qed simp

text \<open>The parser's number, separator flag and buffer after the body \<open>x\<close>.\<close>

definition osc_body :: "u8 list \<Rightarrow> parser \<Rightarrow> bool" where
  "osc_body x p \<longleftrightarrow>
     (\<exists>acc. recover_loop 0 False False [] x = (acc, U16_MAX < acc, ps_osc_buffer p)
        \<and> ps_osc_param p = min U16_MAX acc)
     \<and> (ps_osc_param_done p \<longleftrightarrow> 0x3B \<in> set x) \<and> length (ps_osc_buffer p) \<le> length x"

lemma osc_body_start: "ps_osc_buffer p = [] \<Longrightarrow> ps_osc_param p = 0 \<Longrightarrow> \<not> ps_osc_param_done p \<Longrightarrow> osc_body [] p"
  by (simp add: osc_body_def)

lemma osc_body_byte:
  assumes "osc_body x p" "b \<noteq> 0x07" "b \<noteq> 0x1B" "length x < MAX_OSC_LEN"
  shows "osc_body (x @ [b]) (fst (osc_string p b))" "ps_state (fst (osc_string p b)) = ps_state p"
    "snd (osc_string p b) = []"
proof -
  obtain acc where acc: "recover_loop 0 False False [] x = (acc, U16_MAX < acc, ps_osc_buffer p)"
      "ps_osc_param p = min U16_MAX acc"
    using assms(1) by (auto simp: osc_body_def)
  have more: "(U16_MAX < acc \<or> U16_MAX < digit32 acc b) = (U16_MAX < digit32 acc b)"
    using digit32_mono by blast
  have num: "sat_add16 (sat_mul16 (min U16_MAX acc) 10) (unat (b - 0x30)) = min U16_MAX (digit32 acc b)"
    by (simp add: digit32_def sat_defs)
  have semi: "\<not> is_digit 0x3B"
    by (simp add: is_digit_def in_range_unat)
  show "osc_body (x @ [b]) (fst (osc_string p b))"
    using assms acc more num semi
    by (auto simp: osc_body_def osc_string_def count_osc_byte_def recover_loop_snoc Let_def)
  show "ps_state (fst (osc_string p b)) = ps_state p" "snd (osc_string p b) = []"
    using assms by (simp_all add: osc_string_def count_osc_byte_def Let_def)
qed

text \<open>Commands that do something on a replay.\<close>

definition harmless :: "parsed_action \<Rightarrow> bool" where
  "harmless a \<longleftrightarrow>
     (case a of
        OscDispatch n data t _ \<Rightarrow>
          t = VtParser.Unterminated \<or> identify_osc \<lparr>ro_number = Some n, ro_data = data\<rparr> = NotIdentified
      | _ \<Rightarrow> True)"

lemma is_replayable_iff: "is_replayable_osc_body body \<longleftrightarrow> identify_osc (recover_osc body) \<noteq> NotIdentified"
  by (simp add: is_replayable_osc_body_def identity_agrees split: osc_identity.split)

lemma osc_body_dispatch:
  assumes "osc_body x p" "\<not> is_replayable_osc_body x"
  shows "list_all harmless (snd (dispatch_osc p t))"
proof -
  obtain acc where acc: "recover_loop 0 False False [] x = (acc, U16_MAX < acc, ps_osc_buffer p)"
      "ps_osc_param p = min U16_MAX acc"
    using assms(1) by (auto simp: osc_body_def)
  let ?data = "if utf8_valid (ps_osc_buffer p) then ps_osc_buffer p else utf8_lossy (ps_osc_buffer p)"
  have "identify_osc \<lparr>ro_number = Some (ps_osc_param p), ro_data = ?data\<rparr> = NotIdentified"
  proof (cases "U16_MAX < acc")
    case True
    then show ?thesis
      using acc by (simp add: identify_osc_def OSC_NUMBER_EMTERM_def OSC_NUMBER_MARKDOWN_def
          OSC_NUMBER_PROGRAM_STATUS_def U16_MAX_def)
  next
    case False
    then have "recover_osc x = \<lparr>ro_number = Some (ps_osc_param p), ro_data = ?data\<rparr>"
      using acc by (simp add: recover_osc_def u16_try_from_def min_def)
    with assms(2) show ?thesis
      by (simp add: is_replayable_iff)
  qed
  then show ?thesis
    by (simp add: dispatch_osc_def Let_def harmless_def)
qed

lemma unterminated_harmless: "list_all harmless (snd (dispatch_osc p VtParser.Unterminated))"
  by (simp add: dispatch_osc_def Let_def harmless_def)

section \<open>One byte of the parser\<close>

lemma escape_osc:
  "ps_state (fst (escape p b)) = OscString \<longleftrightarrow> b = 0x5D \<or> ps_state p = OscString \<and> b = 0x1B"
  "ps_state (fst (escape p b)) = OscEscape \<longleftrightarrow> ps_state p = OscEscape \<and> b = 0x1B"
  "b = 0x5D \<Longrightarrow> osc_body [] (fst (escape p b))" "list_all harmless (snd (escape p b))"
  by (auto simp: escape_def osc_body_start harmless_def)

lemma harmless_other:
  "list_all harmless (snd (ground p b))" "list_all harmless (snd (escape_charset p d b))"
  "list_all harmless (snd (csi_entry p b))" "list_all harmless (snd (csi_param p b))"
  "list_all harmless (snd (apc_string p b))" "list_all harmless (snd (dcs_string p b))"
  "list_all harmless (snd (apc_escape p b))" "list_all harmless (snd (dcs_escape p b))"
proof -
  have esc: "list_all harmless x2" if "escape q b = (x1, x2)" for q x1 x2
    using escape_osc(4) [of q b] that by simp
  show "list_all harmless (snd (apc_escape p b))" "list_all harmless (snd (dcs_escape p b))"
    by (auto simp: apc_escape_def dispatch_apc_def dcs_escape_def dispatch_dcs_def Let_def harmless_def dest: esc split: prod.split)
qed (auto simp: ground_def ground_match_def handle_utf8_byte_def escape_charset_def csi_entry_def csi_param_def
      dispatch_csi_def apc_string_def dcs_string_def harmless_def Let_def split: option.split list.split prod.split)

text \<open>When the parser is inside a command body after a byte, the byte continued or opened it; and
  only its end dispatches.\<close>

lemma state_after:
  "ps_state (fst (ground p b)) \<in> {ps_state p, Escape}" "ps_state (fst (escape_charset p d b)) = Ground"
  "ps_state (fst (csi_entry p b)) \<in> {ps_state p, CsiParam, Ground, Escape}"
  "ps_state (fst (csi_param p b)) \<in> {ps_state p, CsiParam, Ground, Escape}"
  "ps_state (fst (apc_string p b)) \<in> {ps_state p, ApcEscape}" "ps_state (fst (dcs_string p b)) \<in> {ps_state p, DcsEscape}"
  by (auto simp: ground_def ground_match_def handle_utf8_byte_def escape_charset_def csi_entry_def csi_param_def
      apc_string_def dcs_string_def Let_def split: option.split)

lemma state_after_other:
  "ps_state p \<notin> {Escape, OscString, OscEscape, ApcEscape, DcsEscape} \<Longrightarrow>
   ps_state (fst (parse_byte p b)) \<notin> {OscString, OscEscape}"
  using state_after [where p = p and b = b]
  by (cases "ps_state p") (simp_all add: parse_byte_def, (metis pstate.distinct)+)

lemma string_escape_osc:
  "ps_state (string_escape q b) = OscString \<longleftrightarrow> b = 0x5D" "ps_state (string_escape q b) \<noteq> OscEscape"
  "b = 0x5D \<Longrightarrow> osc_body [] (string_escape q b)"
  using escape_osc(1-3) [where p = "q\<lparr>ps_state := Escape\<rparr>" and b = b] by (auto simp: string_escape_def)

lemma osc_string_state:
  "ps_state (fst (osc_string p b)) = (if b = 0x07 then Ground else if b = 0x1B then OscEscape else ps_state p)"
  "b = 0x1B \<Longrightarrow> fst (osc_string p b) = p\<lparr>ps_state := OscEscape\<rparr>"
  by (simp_all add: osc_string_def count_osc_byte_def Let_def split: prod.split)

lemma into_osc_string:
  assumes "ps_state (fst (parse_byte p b)) = OscString"
  shows "ps_state p = OscString \<and> b \<noteq> 0x07 \<and> b \<noteq> 0x1B
      \<or> b = 0x5D \<and> osc_body [] (fst (parse_byte p b)) \<and> ps_state p \<in> {Escape, OscEscape, ApcEscape, DcsEscape}"
proof (cases "ps_state p")
  case OscString
  with assms show ?thesis
    by (simp add: parse_byte_def osc_string_state split: if_splits)
next
  case Escape
  with assms escape_osc(1,3) [where p = p and b = b] show ?thesis
    by (simp add: parse_byte_def)
next
  case OscEscape
  with assms string_escapes(1) [of p b] show ?thesis
    by (auto simp: parse_byte_def string_escape_osc)
next
  case ApcEscape
  with assms string_escapes(2) [of p b] show ?thesis
    by (auto simp: parse_byte_def string_escape_osc)
next
  case DcsEscape
  with assms string_escapes(3) [of p b] show ?thesis
    by (auto simp: parse_byte_def string_escape_osc)
qed (use assms state_after_other [of p b] in auto)

lemma into_osc_escape:
  assumes "ps_state (fst (parse_byte p b)) = OscEscape"
  shows "ps_state p = OscString \<and> b = 0x1B \<and> fst (parse_byte p b) = p\<lparr>ps_state := OscEscape\<rparr>"
proof (cases "ps_state p")
  case OscString
  with assms show ?thesis
    by (simp add: parse_byte_def osc_string_state split: if_splits)
next
  case Escape
  with assms escape_osc(2) [where p = p and b = b] show ?thesis
    by (simp add: parse_byte_def)
next
  case OscEscape
  with assms string_escapes(1) [of p b] show ?thesis
    by (auto simp: parse_byte_def string_escape_osc)
next
  case ApcEscape
  with assms string_escapes(2) [of p b] show ?thesis
    by (auto simp: parse_byte_def string_escape_osc)
next
  case DcsEscape
  with assms string_escapes(3) [of p b] show ?thesis
    by (auto simp: parse_byte_def string_escape_osc)
qed (use assms state_after_other [of p b] in auto)

lemma harmless_byte:
  assumes "ps_state p = OscString \<and> b = 0x07 \<longrightarrow> list_all harmless (snd (dispatch_osc p Bel))"
    and "ps_state p = OscEscape \<and> b = 0x5C \<longrightarrow> list_all harmless (snd (dispatch_osc p St))"
  shows "list_all harmless (snd (parse_byte p b))"
proof (cases "ps_state p")
  case OscString
  with assms(1) show ?thesis
    by (auto simp: parse_byte_def osc_string_def Let_def split: prod.split)
next
  case OscEscape
  have "list_all harmless x2" if "escape q b = (x1, x2)" for q x1 x2
    using escape_osc(4) [of q b] that by simp
  moreover have "list_all harmless x2" if "dispatch_osc p VtParser.Unterminated = (x1, x2)" for x1 x2
    using unterminated_harmless [of p] that by simp
  ultimately show ?thesis
    using OscEscape assms(2) by (auto simp: parse_byte_def osc_escape_def Let_def split: prod.split)
qed (simp_all add: parse_byte_def harmless_other escape_osc)

section \<open>What the rest of the input makes of an open body\<close>

fun completion :: "u8 list \<Rightarrow> u8 list option" where
  "completion [] = None"
| "completion (b # bs) =
     (if b = 0x07 then Some []
      else if b = 0x1B then (if bs \<noteq> [] \<and> hd bs = 0x5C then Some [] else None)
      else map_option ((#) b) (completion bs))"

lemma completion_terminator:
  "case find_osc_terminator j bs of
     None \<Rightarrow> completion bs = None
   | Some e \<Rightarrow> \<exists>k. completion bs = Some (take k bs) \<and>
        (e = j + k + 1 \<and> k < length bs \<and> bs ! k = 0x07
         \<or> e = j + k + 2 \<and> Suc k < length bs \<and> bs ! k = 0x1B \<and> bs ! Suc k = 0x5C)"
proof (induction j bs rule: find_osc_terminator.induct)
  case (2 j b bs)
  show ?case
  proof (cases "b = 0x07 \<or> b = 0x1B")
    case True
    then show ?thesis
      by (cases bs) (auto intro: exI [of _ 0])
  next
    case False
    show ?thesis
    proof (cases "find_osc_terminator (j + 1) bs")
      case None
      with False 2 show ?thesis by simp
    next
      case (Some e)
      with False 2 obtain k where "completion bs = Some (take k bs)"
          "e = j + 1 + k + 1 \<and> k < length bs \<and> bs ! k = 0x07
           \<or> e = j + 1 + k + 2 \<and> Suc k < length bs \<and> bs ! k = 0x1B \<and> bs ! Suc k = 0x5C"
        by auto
      with False Some show ?thesis
        by (auto intro!: exI [of _ "Suc k"])
    qed
  qed
qed simp

definition pending_ok :: "u8 list \<Rightarrow> u8 list \<Rightarrow> bool" where
  "pending_ok x rest \<longleftrightarrow> (\<forall>y. completion rest = Some y \<longrightarrow> \<not> is_replayable_osc_body (x @ y))"

lemma kept_command:
  assumes "\<And>n c0. decide (0x1B # 0x5D # body) \<noteq> Remove n c0"
  shows "pending_ok [] body"
proof (cases "find_osc_terminator 2 body")
  case None
  then show ?thesis
    using completion_terminator [where j = 2 and bs = body] by (simp add: pending_ok_def)
next
  case (Some e)
  then obtain k where k: "completion body = Some (take k body)"
      "e = k + 3 \<and> k < length body \<and> body ! k = 0x07
       \<or> e = k + 4 \<and> Suc k < length body \<and> body ! k = 0x1B \<and> body ! Suc k = 0x5C"
    using completion_terminator [where j = 2 and bs = body] by auto
  then have "osc_body_end (0x1B # 0x5D # body) e - 2 = k"
    by (auto simp: osc_body_end_def)
  with Some assms [of e "[]"] k show ?thesis
    by (auto simp: pending_ok_def decide_def split: if_splits)
qed

section \<open>The pass and the parser side by side\<close>

text \<open>Where the output stands, what the parser has of it, the rest of the input, and how many
  bytes of it are still copied unexamined.\<close>

definition in_step :: "written_state \<Rightarrow> parser \<Rightarrow> u8 list \<Rightarrow> nat \<Rightarrow> bool" where
  "in_step s p rest verbatim \<longleftrightarrow>
     tracks s p \<and> length rest \<le> MAX_OSC_LEN
     \<and> (rest \<noteq> [] \<longrightarrow>
          (s = WDesignator \<longleftrightarrow> verbatim = 1) \<and> verbatim \<le> 2
          \<and> (verbatim = 2 \<longleftrightarrow> s = WEscape \<and> (hd rest = 0x28 \<or> hd rest = 0x29))
          \<and> (s = WEscape \<and> hd rest = 0x5D \<longrightarrow> pending_ok [] (tl rest))
          \<and> (ps_state p = OscEscape \<and> hd rest = 0x5C \<longrightarrow> (\<exists>x. osc_body x p \<and> \<not> is_replayable_osc_body x)))
     \<and> (ps_state p = OscString \<longrightarrow>
          (\<exists>x. osc_body x p \<and> pending_ok x rest \<and> length x + length rest \<le> MAX_OSC_LEN))"

lemma in_step_ground:
  "tracks WGround p \<Longrightarrow> length rest \<le> MAX_OSC_LEN \<Longrightarrow> v = 0 \<or> rest = [] \<Longrightarrow> in_step WGround p rest v"
  by (auto simp: in_step_def tracks_def split: pstate.splits)

lemma escape_states: "tracks s p \<Longrightarrow> ps_state p \<in> {Escape, OscEscape, ApcEscape, DcsEscape} \<Longrightarrow> s = WEscape"
  by (auto simp: tracks_def)

lemma osc_state_tracks: "tracks s p \<Longrightarrow> ps_state p = OscString \<Longrightarrow> s = WOscBody"
  by (simp add: tracks_def)

lemma osc_body_cong:
  "osc_body x (p\<lparr>ps_state := st\<rparr>) = osc_body x p"
  by (simp add: osc_body_def)

lemma in_step_harmless:
  assumes "in_step s p (b # bs) verbatim"
  shows "list_all harmless (snd (parse_byte p b))"
proof (rule harmless_byte)
  show "ps_state p = OscString \<and> b = 0x07 \<longrightarrow> list_all harmless (snd (dispatch_osc p Bel))"
  proof
    assume "ps_state p = OscString \<and> b = 0x07"
    with assms obtain x where "osc_body x p" "pending_ok x (0x07 # bs)"
      by (auto simp: in_step_def)
    then show "list_all harmless (snd (dispatch_osc p Bel))"
      by (intro osc_body_dispatch) (simp_all add: pending_ok_def)
  qed
  show "ps_state p = OscEscape \<and> b = 0x5C \<longrightarrow> list_all harmless (snd (dispatch_osc p St))"
    using assms by (auto simp: in_step_def intro: osc_body_dispatch)
qed

text \<open>Pushing the next byte of the input.  The last premise is what the pass knows when it
  examines an escape character.\<close>

lemma in_step_push:
  assumes inv: "in_step s p (b # bs) verbatim"
    and s': "s' = written_advance s b" and p': "p' = fst (parse_byte p b)"
    and v': "verbatim' = (if 0 < verbatim then verbatim - 1 else if charset then 2 else 0)"
    and examined: "verbatim = 0 \<and> bs \<noteq> [] \<Longrightarrow> charset \<longleftrightarrow> b = 0x1B \<and> (hd bs = 0x28 \<or> hd bs = 0x29)"
      "verbatim = 0 \<and> b = 0x1B \<and> bs \<noteq> [] \<and> hd bs = 0x5D \<Longrightarrow> pending_ok [] (tl bs)"
  shows "in_step s' p' bs verbatim'"
proof -
  have t: "tracks s p" "tracks s' p'"
    using inv tracks_step [of s p b] by (simp_all add: in_step_def s' p')
  have len: "length (b # bs) \<le> MAX_OSC_LEN"
    using inv by (simp add: in_step_def)
  have desig: "s = WDesignator \<longleftrightarrow> verbatim = 1" "verbatim \<le> 2" "verbatim = 2 \<longleftrightarrow> s = WEscape \<and> (b = 0x28 \<or> b = 0x29)"
    using inv by (simp_all add: in_step_def)
  have esc: "s' = WEscape \<longleftrightarrow> b = 0x1B \<and> verbatim \<noteq> 1"
  proof (cases s)
    case (WCsi oc)
    then show ?thesis
      using desig(1) by (auto simp: s' written_advance_def open_csi_advance_def csi_step_def Let_def split: csi_step_kind.split)
  qed (use desig in \<open>auto simp: s' written_advance_def\<close>)
  have des': "s' = WDesignator \<longleftrightarrow> s = WEscape \<and> (b = 0x28 \<or> b = 0x29)"
    by (cases s) (auto simp: s' written_advance_def split: prod.split csi_step_kind.split)
  have osc: "\<exists>x. osc_body x p' \<and> pending_ok x bs \<and> length x + length bs \<le> MAX_OSC_LEN" if body: "ps_state p' = OscString"
  proof -
    have into: "ps_state p = OscString \<and> b \<noteq> 0x07 \<and> b \<noteq> 0x1B \<or> b = 0x5D \<and> osc_body [] p' \<and> s = WEscape"
      using into_osc_string [of p b] body escape_states [OF t(1)] by (simp add: p') blast

    consider "ps_state p = OscString" "b \<noteq> 0x07" "b \<noteq> 0x1B"
      | "b = 0x5D" "osc_body [] p'" "s = WEscape"
      using into by blast
    then show ?thesis
    proof cases
      case 1
      then obtain x where x: "osc_body x p" "pending_ok x (b # bs)" "length x + length (b # bs) \<le> MAX_OSC_LEN"
        using inv by (auto simp: in_step_def)
      have "osc_body (x @ [b]) p'"
        using osc_body_byte(1) [OF x(1) 1(2,3)] x(3) 1(1) by (simp add: p' parse_byte_def)
      moreover have "pending_ok (x @ [b]) bs"
        using x(2) 1(2,3) by (auto simp: pending_ok_def)
      ultimately show ?thesis
        using x(3) by (intro exI [of _ "x @ [b]"]) simp
    next
      case 2
      then have "pending_ok [] bs"
        using inv by (simp add: in_step_def)
      with 2 len show ?thesis
        by (intro exI [of _ "[]"]) simp
    qed
  qed
  have osc_esc: "\<exists>x. osc_body x p' \<and> \<not> is_replayable_osc_body x" if "ps_state p' = OscEscape" "bs \<noteq> []" "hd bs = 0x5C"
  proof -
    have e: "ps_state p = OscString" "b = 0x1B" "p' = p\<lparr>ps_state := OscEscape\<rparr>"
      using into_osc_escape [of p b] that(1) unfolding p' by blast+
    then obtain x where "osc_body x p" "pending_ok x (b # bs)"
      using inv by (auto simp: in_step_def)
    with e that show ?thesis
      by (auto simp: pending_ok_def osc_body_cong)
  qed
  have state: "(s' = WDesignator) = (verbatim' = 1)" "verbatim' \<le> 2"
      "(verbatim' = 2) = (s' = WEscape \<and> (hd bs = 0x28 \<or> hd bs = 0x29))" if "bs \<noteq> []"
    using that desig esc des' examined(1) by (auto simp: v')
  have command: "pending_ok [] (tl bs)" if "bs \<noteq> []" "s' = WEscape" "hd bs = 0x5D"
    using that esc desig examined(2) v' state by (cases "verbatim = 0") auto
  show ?thesis
    unfolding in_step_def using t(2) len osc osc_esc state command by simp
qed


section \<open>The output of the pass\<close>

definition out_step :: "parser \<Rightarrow> written \<Rightarrow> u8 list \<Rightarrow> nat \<Rightarrow> bool" where
  "out_step p w rest verbatim \<longleftrightarrow>
     list_all harmless (snd (parse p (w_bytes w)))
     \<and> in_step (w_state w) (fst (parse p (w_bytes w))) rest verbatim"

lemma written_push_cases:
  obtains (answered) oc where "w_state w = WCsi oc" "answered_here (w_state w) b" "b \<noteq> 0x1B"
      "written_push w b = \<lparr>w_bytes = w_bytes w @ [CSI_CLOSING_BYTE], w_state = WGround\<rparr>"
  | (other) "written_push w b = \<lparr>w_bytes = w_bytes w @ [b], w_state = written_advance (w_state w) b\<rparr>"
proof (cases "answered_here (w_state w) b")
  case True
  then obtain oc where "w_state w = WCsi oc" "b \<noteq> 0x1B"
    by (cases "b = 0x1B")
      (auto simp: answered_here_def completes_an_answered_query_def in_range_unat split: written_state.splits)
  with True show ?thesis
    by (intro answered) (auto simp: written_push_def answered_here_def)
next
  case False
  then show ?thesis
    by (intro other) (auto simp: written_push_def answered_here_def split: written_state.split)
qed

lemma parse_snoc:
  "fst (parse p (xs @ [b])) = fst (parse_byte (fst (parse p xs)) b)"
  "snd (parse p (xs @ [b])) = snd (parse p xs) @ snd (parse_byte (fst (parse p xs)) b)"
  by (simp_all add: parse_append parse_single split: prod.split)

lemma harmless_plain: "b \<noteq> 0x07 \<Longrightarrow> b \<noteq> 0x5C \<Longrightarrow> list_all harmless (snd (parse_byte p b))"
  by (rule harmless_byte) simp_all

lemma tracks_closing: "tracks (WCsi oc) p \<Longrightarrow> tracks WGround (fst (parse_byte p CSI_CLOSING_BYTE))"
  using tracks_step [of "WCsi oc" p CSI_CLOSING_BYTE] closing_byte(2) [of oc p] by simp

lemma out_step_push:
  assumes inv: "out_step p w (b # bs) verbatim"
    and v': "verbatim' = (if 0 < verbatim then verbatim - 1 else if charset then 2 else 0)"
    and examined: "verbatim = 0 \<and> bs \<noteq> [] \<Longrightarrow> charset \<longleftrightarrow> b = 0x1B \<and> (hd bs = 0x28 \<or> hd bs = 0x29)"
      "verbatim = 0 \<and> b = 0x1B \<and> bs \<noteq> [] \<and> hd bs = 0x5D \<Longrightarrow> pending_ok [] (tl bs)"
  shows "out_step p (written_push w b) bs verbatim'"
proof -
  let ?q = "fst (parse p (w_bytes w))"
  have h: "list_all harmless (snd (parse p (w_bytes w)))" and i: "in_step (w_state w) ?q (b # bs) verbatim"
    using inv by (simp_all add: out_step_def)
  show ?thesis
  proof (cases rule: written_push_cases [of w b])
    case (answered oc)
    with i have t: "tracks (WCsi oc) ?q" and "verbatim \<noteq> 1" "verbatim \<noteq> 2" "verbatim \<le> 2" "length bs \<le> MAX_OSC_LEN"
      by (auto simp: in_step_def)
    then have "verbatim' = 0 \<or> bs = []"
      using answered(3) examined(1) by (auto simp: v')
    moreover have "list_all harmless (snd (parse_byte ?q CSI_CLOSING_BYTE))"
      by (rule harmless_plain) (simp_all add: CSI_CLOSING_BYTE_def)
    ultimately show ?thesis
      using answered h tracks_closing [OF t] \<open>length bs \<le> MAX_OSC_LEN\<close>
      by (simp add: out_step_def parse_snoc in_step_ground)
  next
    case other
    have "in_step (written_advance (w_state w) b) (fst (parse_byte ?q b)) bs verbatim'"
      by (rule in_step_push [OF i refl refl v' examined])
    with other h in_step_harmless [OF i] show ?thesis
      by (simp only: out_step_def parse_snoc written.simps list_all_append simp_thms)
  qed
qed

text \<open>After a removal the output stands at the ground state.\<close>

definition out_ground :: "parser \<Rightarrow> written \<Rightarrow> bool" where
  "out_ground p w \<longleftrightarrow>
     list_all harmless (snd (parse p (w_bytes w))) \<and> w_state w = WGround \<and> tracks WGround (fst (parse p (w_bytes w)))"

lemma out_ground_push:
  assumes "out_ground p w" "b \<noteq> 0x1B"
  shows "out_ground p (written_push w b)"
proof -
  have t: "tracks WGround (fst (parse p (w_bytes w)))" "w_state w = WGround"
    using assms(1) by (simp_all add: out_ground_def)
  then have "ps_state (fst (parse p (w_bytes w))) = Ground"
    by (auto simp: tracks_def split: pstate.splits)
  then have "list_all harmless (snd (parse_byte (fst (parse p (w_bytes w))) b))"
    by (intro harmless_byte) simp_all
  then show ?thesis
    using assms t tracks_step [OF t(1), of b]
    by (simp add: out_ground_def written_push_def written_advance_def parse_snoc)
qed

lemma out_ground_extend: "out_ground p w \<Longrightarrow> 0x1B \<notin> set bs \<Longrightarrow> out_ground p (written_extend w bs)"
  unfolding written_extend_def by (induction bs arbitrary: w) (auto simp: out_ground_push)

lemma scan_csi_controls:
  "scan_csi j pre fp seen ints c0 bs = Some (k, c1) \<Longrightarrow> 0x1B \<notin> set c0 \<Longrightarrow> 0x1B \<notin> set c1"
  by (induction j pre fp seen ints c0 bs rule: scan_csi.induct)
    (auto split: if_splits)

lemma decide_controls: "decide rest = Remove n c0 \<Longrightarrow> 0x1B \<notin> set c0"
  by (auto simp: decide_def Let_def scan_csi_device_query_def dest!: scan_csi_controls
      split: if_splits body_end.splits option.splits)


lemma out_close:
  assumes "out_step p w (b # bs) 0"
  shows "out_ground p (close_before_removal w)"
proof -
  let ?q = "fst (parse p (w_bytes w))"
  have h: "list_all harmless (snd (parse p (w_bytes w)))" and t: "tracks (w_state w) ?q" and d: "w_state w \<noteq> WDesignator"
    using assms by (auto simp: out_step_def in_step_def)
  have closing: "list_all harmless (snd (parse_byte r CSI_CLOSING_BYTE))" for r
    by (rule harmless_plain) (simp_all add: CSI_CLOSING_BYTE_def)
  show ?thesis
  proof (cases "w_state w")
    case WGround
    with h t show ?thesis
      by (simp add: close_before_removal_def out_ground_def)
  next
    case WEscape
    then have "written_advance WEscape CSI_CLOSING_BYTE = WGround"
      by (simp add: written_advance_def CSI_CLOSING_BYTE_def)
    with WEscape h t closing tracks_step [OF t, of CSI_CLOSING_BYTE] show ?thesis
      by (simp add: close_before_removal_def out_ground_def written_push_def parse_snoc)
  next
    case (WCsi oc)
    with t have "tracks (WCsi oc) ?q" by simp
    note this closing_byte [OF this] tracks_closing [OF this]
    with WCsi h closing show ?thesis
      by (simp add: close_before_removal_def out_ground_def written_push_def answered_here_def parse_snoc)
  next
    case WOscBody
    let ?r = "fst (parse_byte ?q 0x1B)"
    have "tracks WEscape ?r"
      using tracks_step [OF t, of "0x1B"] WOscBody by (simp add: written_advance_def)
    moreover from tracks_step [OF this, of "0x18"] have "tracks WGround (fst (parse_byte ?r 0x18))"
      by (simp add: written_advance_def)
    moreover have "list_all harmless (snd (parse_byte ?q 0x1B))" "list_all harmless (snd (parse_byte ?r 0x18))"
      by (rule harmless_plain; simp)+
    ultimately show ?thesis
      using WOscBody h parse_snoc [where p = p and xs = "w_bytes w @ [0x1B]" and b = "0x18"]
        parse_snoc [where p = p and xs = "w_bytes w" and b = "0x1B"]
      by (simp add: close_before_removal_def out_ground_def written_extend_def STRING_BODY_CLOSING_def
          written_push_def written_advance_def)
  next
    case WStBody
    let ?r = "fst (parse_byte ?q 0x1B)"
    have "tracks WEscape ?r"
      using tracks_step [OF t, of "0x1B"] WStBody by (simp add: written_advance_def)
    moreover from tracks_step [OF this, of "0x18"] have "tracks WGround (fst (parse_byte ?r 0x18))"
      by (simp add: written_advance_def)
    moreover have "list_all harmless (snd (parse_byte ?q 0x1B))" "list_all harmless (snd (parse_byte ?r 0x18))"
      by (rule harmless_plain; simp)+
    ultimately show ?thesis
      using WStBody h parse_snoc [where p = p and xs = "w_bytes w @ [0x1B]" and b = "0x18"]
        parse_snoc [where p = p and xs = "w_bytes w" and b = "0x1B"]
      by (simp add: close_before_removal_def out_ground_def written_extend_def STRING_BODY_CLOSING_def
          written_push_def written_advance_def)
  qed (use d in simp)
qed

lemma out_ground_step:
  "out_ground p w \<Longrightarrow> length rest \<le> MAX_OSC_LEN \<Longrightarrow> out_step p w rest 0"
  by (simp add: out_ground_def out_step_def in_step_ground)

lemma decide_charset: "bs \<noteq> [] \<Longrightarrow> decide (b # bs) = KeepCharset \<longleftrightarrow> hd bs = 0x28 \<or> hd bs = 0x29"
  by (cases bs) (auto simp: decide_def Let_def split: body_end.split option.split prod.split)

lemma decide_keeps:
  assumes "\<And>n c0. decide (0x1B # bs) \<noteq> Remove n c0" "bs \<noteq> []" "hd bs = 0x5D"
  shows "pending_ok [] (tl bs)"
  using assms kept_command [of "tl bs"] by (cases bs) simp_all

lemma strip_loop_harmless:
  "out_step p out rest verbatim \<Longrightarrow>
   list_all harmless (snd (parse p (w_bytes (fst (strip_loop i rest verbatim watch remapped out)))))"
proof (induction i rest verbatim watch remapped out rule: strip_loop.induct)
  case (2 i b bs verbatim watch remapped out)
  have len: "length (b # bs) \<le> MAX_OSC_LEN"
    using 2(6) by (simp add: out_step_def in_step_def)
  show ?case
  proof (cases "0 < verbatim \<or> b \<noteq> 0x1B \<or> bs = []")
    case True
    then have "out_step p (written_push out b) bs (if 0 < verbatim then verbatim - 1 else 0)"
      by (intro out_step_push [OF 2(6), where charset = False]) auto
    with 2(1,2) True show ?thesis
      by (auto simp: Let_def)
  next
    case False
    then have esc: "verbatim = 0" "b = 0x1B" "bs \<noteq> []"
      by simp_all
    show ?thesis
    proof (cases "decide (b # bs)")
      case (Remove n c0)
      have "out_ground p (written_extend (close_before_removal out) c0)"
        using out_close [of p out b bs] 2(6) esc(1) decide_controls [OF Remove] by (simp add: out_ground_extend)
      then have "out_step p (written_extend (close_before_removal out) c0) (drop n (b # bs)) 0"
        by (rule out_ground_step) (use len in auto)
      with 2(5) False Remove show ?thesis
        by (simp add: Let_def)
    next
      case Keep
      then have "out_step p (written_push out b) bs 0"
        using esc decide_keeps [of bs] decide_charset [of bs b]
        by (intro out_step_push [OF 2(6), where charset = False]) auto
      with 2(3) False Keep show ?thesis
        by (simp add: Let_def)
    next
      case KeepCharset
      then have "out_step p (written_push out b) bs 2"
        using esc decide_keeps [of bs] decide_charset [of bs b]
        by (intro out_step_push [OF 2(6), where charset = True]) auto
      with 2(4) False KeepCharset show ?thesis
        by (simp add: Let_def)
    qed
  qed
qed (simp add: out_step_def)


lemma replay_harmless:
  assumes "length bytes \<le> MAX_OSC_LEN" "ps_state p = Ground"
  shows "list_all harmless (snd (parse p (strip_replayable_rich_content bytes)))"
proof -
  have "out_step p \<lparr>w_bytes = [], w_state = WGround\<rparr> bytes 0"
    using assms by (intro out_ground_step) (simp_all add: out_ground_def tracks_new)
  from strip_loop_harmless [OF this, of 0 "[]" "[]"] show ?thesis
    by (simp add: strip_replayable_rich_content_def strip_rich_content_def strip_rich_content_and_remap_def
        strip_rich_content_and_remap_with_designator_def strip_pass_def split_def Let_def)
qed

text \<open>C8. Replaying a filtered history launches nothing: whatever bytes a pane produced, up to the
  length the terminal collects of one command, what the filter keeps of them never makes a parser
  at the ground state dispatch a terminated command that the terminal would take for a viewer or
  markdown launch, an agent status or a program status.\<close>

theorem replay_launches_nothing:
  assumes "length bytes \<le> MAX_OSC_LEN" "ps_state p = Ground"
    and "OscDispatch n data t c \<in> set (snd (parse p (strip_replayable_rich_content bytes)))" "t \<noteq> VtParser.Unterminated"
  shows "identify_osc \<lparr>ro_number = Some n, ro_data = data\<rparr> = NotIdentified"
  using replay_harmless [OF assms(1,2)] assms(3,4) by (fastforce simp: list_all_iff harmless_def)

definition launch_example :: "u8 list" where
  "launch_example =
     [0x1B, 0x5D, 0x30, 0x3B, 0x61, 0x07,
      0x1B, 0x5D, 0x39, 0x39, 0x39, 0x39, 0x3B, 0x65, 0x6D, 0x74, 0x65, 0x72, 0x6D, 0x2D, 0x6D, 0x64, 0x3B, 0x78, 0x07]"

lemmas body_eval = is_replayable_osc_body_def osc_body_identity_def scan_number_def digit32_def sat_defs is_digit_def
  in_range_unat u16_try_from_def OSC_NUMBER_EMTERM_def OSC_NUMBER_MARKDOWN_def OSC_NUMBER_PROGRAM_STATUS_def
  MARKDOWN_LAUNCH_TOKEN_def U16_MAX_def

lemma launch_example_title: "\<not> is_replayable_osc_body [0x30, 0x3B, 0x61]"
  by (simp add: body_eval)

lemma launch_example_launch:
  "is_replayable_osc_body [0x39, 0x39, 0x39, 0x39, 0x3B, 0x65, 0x6D, 0x74, 0x65, 0x72, 0x6D, 0x2D, 0x6D, 0x64, 0x3B, 0x78]"
  by (simp add: body_eval)

lemma launch_example_decide:
  "decide launch_example = Keep" "decide (drop 6 launch_example) = Remove 19 []"
  using launch_example_title launch_example_launch
  by (simp_all add: decide_def Let_def launch_example_def osc_body_end_def)

lemmas strip_eval = strip_replayable_rich_content_def strip_rich_content_def strip_rich_content_and_remap_def
  strip_rich_content_and_remap_with_designator_def strip_pass_def written_push_def written_advance_def
  written_extend_def close_before_removal_def

lemma launch_example_kept: "strip_replayable_rich_content launch_example = take 6 launch_example"
  using launch_example_decide by (simp add: launch_example_def strip_eval)

lemmas parse_eval = parse_Cons parse_byte_def ground_def ground_match_def escape_def osc_string_def count_osc_byte_def
  dispatch_osc_def parser_new_def is_digit_def in_range_unat sat_defs MAX_OSC_LEN_def

lemma utf8_ascii:
  "utf8_valid []" "b < 0x80 \<Longrightarrow> utf8_valid (b # bs) \<longleftrightarrow> utf8_valid bs"
  by (subst utf8_valid.simps; simp add: utf8_step_def)+

lemma launch_example_parsed:
  "OscDispatch 0 [0x61] Bel 3 \<in> set (snd (parse parser_new (take 6 launch_example)))"
  by (simp add: launch_example_def parse_eval) (simp add: Let_def utf8_ascii)


text \<open>An example: the title is kept, the markdown launch that follows it is not.\<close>

theorem replay_launches_nothing_witness:
  "strip_replayable_rich_content launch_example = take 6 launch_example
     \<and> identify_osc \<lparr>ro_number = Some 0, ro_data = [0x61]\<rparr> = NotIdentified"
proof -
  have "OscDispatch 0 [0x61] Bel 3 \<in> set (snd (parse parser_new (strip_replayable_rich_content launch_example)))"
    unfolding launch_example_kept by (rule launch_example_parsed)
  then have "identify_osc \<lparr>ro_number = Some 0, ro_data = [0x61]\<rparr> = NotIdentified"
    by (rule replay_launches_nothing [rotated 2])
      (simp_all add: launch_example_def MAX_OSC_LEN_def parser_new_def)
  with launch_example_kept show ?thesis by simp
qed

text \<open>A launch cut off by a bare escape character (\<open>ESC ] 777;emterm;json;x ESC c\<close>) has no
  terminator for the filter, which keeps it; the parser dispatches it as unterminated, with the
  data of the launch.\<close>

definition cut_off_launch :: "u8 list" where
  "cut_off_launch =
     [0x1B, 0x5D, 0x37, 0x37, 0x37, 0x3B, 0x65, 0x6D, 0x74, 0x65, 0x72, 0x6D, 0x3B, 0x6A, 0x73, 0x6F, 0x6E, 0x3B,
      0x78, 0x1B, 0x63]"

lemma strip_body_run:
  assumes "0x07 \<notin> set xs" "0x1B \<notin> set xs" "w_state out = WOscBody"
  shows "strip_loop i (xs @ ys) 0 [] [] out
     = strip_loop (i + length xs) ys 0 [] [] \<lparr>w_bytes = w_bytes out @ xs, w_state = WOscBody\<rparr>"
  using assms
proof (induction xs arbitrary: i out)
  case (Cons x xs)
  then have "written_push out x = \<lparr>w_bytes = w_bytes out @ [x], w_state = WOscBody\<rparr>"
    by (simp add: written_push_def written_advance_def)
  with Cons show ?case by simp
next
  case Nil
  then show ?case
    by (cases out) simp
qed

lemma unterminated_launch_survives:
  "strip_replayable_rich_content cut_off_launch = cut_off_launch"
proof -
  have decide: "decide cut_off_launch = Keep" "decide [0x1B, 0x63] = Keep"
    by (simp_all add: decide_def Let_def cut_off_launch_def)
  define body where "body = take 17 (drop 2 cut_off_launch)"
  have parts: "cut_off_launch = 0x1B # 0x5D # body @ [0x1B, 0x63]"
    by (simp add: body_def cut_off_launch_def)
  have "0x07 \<notin> set body" "0x1B \<notin> set body"
    by (simp_all add: body_def cut_off_launch_def)
  with decide show ?thesis
    unfolding parts by (simp add: strip_eval strip_body_run)
qed

lemma osc_data_run:
  assumes "ps_state p = OscString" "ps_osc_param_done p" "0x07 \<notin> set bs" "0x1B \<notin> set bs"
    "length (ps_osc_buffer p) + length bs \<le> MAX_OSC_LEN"
  shows "parse p bs = (p\<lparr>ps_osc_buffer := ps_osc_buffer p @ bs,
      ps_osc_received_len := fold (\<lambda>_ n. sat_add_usize n 1) bs (ps_osc_received_len p)\<rparr>, [])"
  using assms
proof (induction bs arbitrary: p)
  case (Cons b bs)
  let ?q = "p\<lparr>ps_osc_received_len := sat_add_usize (ps_osc_received_len p) 1, ps_osc_buffer := ps_osc_buffer p @ [b]\<rparr>"
  have "parse_byte p b = (?q, [])"
    using Cons.prems by (auto simp: parse_byte_def osc_string_def count_osc_byte_def Let_def)
  moreover have "parse ?q bs = (?q\<lparr>ps_osc_buffer := ps_osc_buffer ?q @ bs,
      ps_osc_received_len := fold (\<lambda>_ n. sat_add_usize n 1) bs (ps_osc_received_len ?q)\<rparr>, [])"
    using Cons.prems by (intro Cons.IH) simp_all
  ultimately show ?case
    by (simp add: parse_Cons)
qed simp

lemma unterminated_launch_dispatched:
  "OscDispatch 777 (take 13 (drop 6 cut_off_launch)) VtParser.Unterminated 17
     \<in> set (snd (parse parser_new cut_off_launch))"
proof -
  define data where "data = take 13 (drop 6 cut_off_launch)"
  define p where "p = parser_new\<lparr>ps_state := OscString, ps_osc_param := 777, ps_osc_param_done := True,
      ps_osc_received_len := 4\<rparr>"
  define q where "q = p\<lparr>ps_osc_buffer := data, ps_osc_received_len := 17\<rparr>"
  have parts: "cut_off_launch = [0x1B, 0x5D, 0x37, 0x37, 0x37, 0x3B] @ data @ [0x1B, 0x63]"
    by (simp add: data_def cut_off_launch_def)
  have start: "parse parser_new [0x1B, 0x5D, 0x37, 0x37, 0x37, 0x3B] = (p, [])"
    by (simp add: parse_eval p_def)
  have body: "parse p data = (q, [])"
    using osc_data_run [of p data]
    by (simp add: q_def p_def data_def cut_off_launch_def parser_new_def MAX_OSC_LEN_def sat_defs)
  have "utf8_valid data"
    by (simp add: data_def cut_off_launch_def utf8_ascii)
  then have "OscDispatch 777 data VtParser.Unterminated 17 \<in> set (snd (parse_byte (q\<lparr>ps_state := OscEscape\<rparr>) 0x63))"
    by (simp add: q_def p_def parse_byte_def osc_escape_def dispatch_osc_def Let_def split: prod.split)
  moreover have "parse_byte q 0x1B = (q\<lparr>ps_state := OscEscape\<rparr>, [])"
    by (simp add: q_def p_def parse_byte_def osc_string_def)
  ultimately have "OscDispatch 777 data VtParser.Unterminated 17 \<in> set (snd (parse q [0x1B, 0x63]))"
    by (simp add: parse_Cons split: prod.split)
  then show ?thesis
    unfolding data_def [symmetric] unfolding parts by (simp only: parse_append start body case_prod_conv split: prod.split) (simp add: body split: prod.splits)
qed

lemma unterminated_launch_identity:
  "identify_osc \<lparr>ro_number = Some 777, ro_data = take 13 (drop 6 cut_off_launch)\<rparr>
     = ViewerLaunch [0x6A, 0x73, 0x6F, 0x6E]"
  by (simp add: cut_off_launch_def identify_osc_def OSC_NUMBER_EMTERM_def OSC_777_PAYLOAD_PREFIX_def starts_with_def
      AGENT_STATUS_OSC_KIND_def REPLAYABLE_VIEWER_KINDS_def)

end
