(* ===== verification/WriteFilter.thy ===== *)
theory WriteFilter
  imports ScrollbackRing ScrollbackFilter
begin

text \<open>
  The filter on the reader thread between a pane's output and its scrollback ring
  (\<open>src-tauri/src/mux/ipc/pty_spawn/write_filter.rs\<close>, \<open>ScrollbackWriteFilter\<close>).  It holds
  back a string that is still open at the end of a read, with the chain of constructs that led to
  it, until its end is known; everything before is stripped and written.  Where the extraction of
  the main screen removed a screen switch, the filter drops what is held and closes what it wrote.

  A scan position is kept beside the rest of the bytes from it.
\<close>

definition SCROLLBACK_FILTER_PENDING_CAP :: nat where
  "SCROLLBACK_FILTER_PENDING_CAP = 512 * 1024"

definition CSI_CLOSING :: "u8 list" where "CSI_CLOSING = [CSI_CLOSING_BYTE]"

definition ESCAPE_CLOSING :: "u8 list" where "ESCAPE_CLOSING = [0x18]"

definition DESIGNATOR_CLOSING :: "u8 list" where "DESIGNATOR_CLOSING = [0x1B]"

definition closure_for :: "written_state \<Rightarrow> u8 list" where
  "closure_for s =
     (case s of
        WCsi _ \<Rightarrow> CSI_CLOSING
      | WEscape \<Rightarrow> ESCAPE_CLOSING
      | WDesignator \<Rightarrow> DESIGNATOR_CLOSING
      | WOscBody \<Rightarrow> STRING_BODY_CLOSING
      | WStBody \<Rightarrow> STRING_BODY_CLOSING
      | WGround \<Rightarrow> [])"

record carried_completion =
  cc_run :: "u8 list"
  cc_start :: nat
  cc_end :: nat
  cc_fed_end :: nat

definition carried_bytes :: "carried_completion \<Rightarrow> u8 list" where
  "carried_bytes c = take (cc_end c - cc_start c) (drop (cc_start c) (cc_run c))"

record feed_outcome =
  fo_dims :: dims
  fo_bytes :: "u8 list"
  fo_carried :: "carried_completion option"

record write_filter =
  wf_pending :: "u8 list"
  wf_pending_started_dims :: "dims option"
  wf_awaiting_designator :: bool
  wf_written :: written_state
  wf_held_construct_start :: "nat option"

definition wf_new :: write_filter where
  "wf_new = \<lparr>wf_pending = [], wf_pending_started_dims = None, wf_awaiting_designator = False,
     wf_written = WGround, wf_held_construct_start = None\<rparr>"

section \<open>The boundary scan\<close>

datatype string_scan_result = ScanComplete nat | ScanAborted nat | ScanIncomplete

text \<open>\<open>j\<close> is the index of the head of the list.\<close>

fun find_st :: "nat \<Rightarrow> u8 list \<Rightarrow> string_scan_result" where
  "find_st j [] = ScanIncomplete"
| "find_st j (b # bs) =
     (if b = 0x1B then
        (if bs \<noteq> [] then (if hd bs = 0x5C then ScanComplete (j + 2) else ScanAborted j) else ScanIncomplete)
      else find_st (j + 1) bs)"

fun find_osc_end :: "nat \<Rightarrow> u8 list \<Rightarrow> string_scan_result" where
  "find_osc_end j [] = ScanIncomplete"
| "find_osc_end j (b # bs) =
     (if b = 0x07 then ScanComplete (j + 1)
      else if b = 0x1B then
        (if bs \<noteq> [] then (if hd bs = 0x5C then ScanComplete (j + 2) else ScanAborted j) else ScanIncomplete)
      else find_osc_end (j + 1) bs)"

record boundary_scan =
  bs_boundary :: nat
  bs_construct_start :: nat
  bs_awaiting_designator :: bool
  bs_carried_end :: "nat option"

lemma find_st_bounds:
  "find_st j bs = ScanComplete e \<Longrightarrow> j < e" "find_st j bs = ScanAborted a \<Longrightarrow> j \<le> a"
  by (induction j bs rule: find_st.induct) (fastforce split: if_splits)+

lemma find_osc_end_bounds:
  "find_osc_end j bs = ScanComplete e \<Longrightarrow> j < e" "find_osc_end j bs = ScanAborted a \<Longrightarrow> j \<le> a"
  by (induction j bs rule: find_osc_end.induct) (fastforce split: if_splits)+

text \<open>The loop of \<open>scan_boundary\<close>: \<open>carried_at\<close> is the start of the carried construct, if
  there is one, and \<open>chain\<close> the head of the chain being walked.\<close>

function scan_loop :: "nat \<Rightarrow> nat \<Rightarrow> u8 list \<Rightarrow> nat option \<Rightarrow> nat option \<Rightarrow> nat option \<Rightarrow> boundary_scan" where
  "scan_loop n i [] carried_at carried_end chain =
     \<lparr>bs_boundary = n, bs_construct_start = n, bs_awaiting_designator = False, bs_carried_end = carried_end\<rparr>"
| "scan_loop n i (b # bs) carried_at carried_end chain =
     (if b \<noteq> 0x1B then scan_loop n (i + 1) bs carried_at carried_end None
      else
        let carried_here = (carried_at = Some i);
            head = (case chain of Some h \<Rightarrow> h | None \<Rightarrow> i);
            incomplete = \<lparr>bs_boundary = head, bs_construct_start = i, bs_awaiting_designator = False,
                           bs_carried_end = carried_end\<rparr> in
        case bs of [] \<Rightarrow> incomplete
        | c # body \<Rightarrow>
            if c = 0x5F \<or> c = 0x50 \<or> c = 0x5D then
              (case (if c = 0x5D then find_osc_end (i + 2) body else find_st (i + 2) body) of
                 ScanComplete e \<Rightarrow>
                   scan_loop n e (drop (e - i) (b # bs)) carried_at (if carried_here then Some e else carried_end) None
               | ScanAborted a \<Rightarrow> scan_loop n a (drop (a - i) (b # bs)) carried_at carried_end (Some head)
               | ScanIncomplete \<Rightarrow> incomplete)
            else if c = 0x1B then scan_loop n (i + 1) bs carried_at carried_end (Some head)
            else if c = 0x28 \<or> c = 0x29 then
              (if body \<noteq> [] then scan_loop n (i + 3) (tl body) carried_at carried_end None
               else \<lparr>bs_boundary = n, bs_construct_start = n, bs_awaiting_designator = True, bs_carried_end = carried_end\<rparr>)
            else scan_loop n (i + 2) body carried_at carried_end None)"
  by pat_completeness auto
termination
  by (relation "measure (\<lambda>(n, i, rest, x, y, z). length rest)")
    (auto dest: find_st_bounds find_osc_end_bounds split: if_splits)

definition scan_boundary :: "u8 list \<Rightarrow> nat \<Rightarrow> bool \<Rightarrow> boundary_scan" where
  "scan_boundary bytes start carried_candidate =
     (let n = length bytes; i = min start n in
      scan_loop n i (drop i bytes) (if carried_candidate then Some start else None) None
        (if carried_candidate then Some 0 else None))"

section \<open>One segment of a read\<close>

record feed_loop =
  fl_filter :: write_filter
  fl_out :: "u8 list"
  fl_carried :: "carried_completion option"
  fl_overflowed :: bool
  fl_pending_untouched :: bool

definition fl_write :: "u8 list \<Rightarrow> feed_loop \<Rightarrow> feed_loop" where
  "fl_write bs l = l\<lparr>fl_out := fl_out l @ bs\<rparr>"

text \<open>Past the cap the whole run is flushed; a live lone escape character that ends it is held.\<close>

definition flush_overflow :: "u8 list \<Rightarrow> nat \<Rightarrow> nat \<Rightarrow> bool \<Rightarrow> bool \<Rightarrow> feed_loop \<Rightarrow> feed_loop" where
  "flush_overflow run skip scan_start carried_run is_last l =
     (let f = fl_filter l;
          awaiting_at_end = bs_awaiting_designator (scan_boundary run scan_start carried_run);
          last_esc = (is_last \<and> last run = 0x1B);
          run1 = (if last_esc then butlast run else run);
          (stripped, state_at_end) =
             strip_pty_output_for_scrollback_write_with_written_state run1 (skip = 1) (wf_written f);
          l1 = (fl_write stripped l)\<lparr>fl_overflowed := True, fl_pending_untouched := False\<rparr>;
          (esc, state_after_esc) =
             strip_pty_output_for_scrollback_write_with_written_state [0x1B] False state_at_end;
          held_esc = (last_esc \<and> state_after_esc = WEscape);
          l2 = (if last_esc \<and> \<not> held_esc then fl_write esc l1 else l1);
          state2 = (if last_esc \<and> \<not> held_esc then state_after_esc else state_at_end) in
      if held_esc then
        l2\<lparr>fl_filter := f\<lparr>wf_pending := [0x1B], wf_held_construct_start := Some 0,
            wf_awaiting_designator := awaiting_at_end, wf_written := state2\<rparr>\<rparr>
      else if is_last then
        l2\<lparr>fl_filter := f\<lparr>wf_pending := [], wf_held_construct_start := None,
            wf_awaiting_designator := awaiting_at_end, wf_written := state2\<rparr>\<rparr>
      else
        (fl_write (closure_for state2) l2)\<lparr>fl_filter := f\<lparr>wf_pending := [], wf_held_construct_start := None,
            wf_awaiting_designator := False, wf_written := WGround\<rparr>\<rparr>)"

definition note_carried :: "u8 list \<Rightarrow> nat \<Rightarrow> nat \<Rightarrow> nat \<Rightarrow> carried_completion" where
  "note_carried run scan_start e carry_len_before =
     \<lparr>cc_run = run, cc_start = scan_start, cc_end = e, cc_fed_end = e - carry_len_before\<rparr>"

text \<open>A cut follows: what is held is dropped and the written stream is closed.\<close>

definition close_at_cut :: "boundary_scan \<Rightarrow> u8 list \<Rightarrow> nat \<Rightarrow> nat \<Rightarrow> nat \<Rightarrow> feed_loop \<Rightarrow> feed_loop" where
  "close_at_cut scan pending skip scan_start carry_len_before l =
     (let f = fl_filter l;
          run = take (bs_boundary scan) pending;
          (stripped, state_at_cut) =
             strip_pty_output_for_scrollback_write_with_written_state run (skip = 1) (wf_written f);
          carried = (case fl_carried l of Some c \<Rightarrow> Some c
                     | None \<Rightarrow> map_option (\<lambda>e. note_carried run scan_start e carry_len_before) (bs_carried_end scan)) in
      (fl_write (closure_for state_at_cut) (fl_write stripped l))
        \<lparr>fl_pending_untouched := False, fl_carried := carried,
         fl_filter := f\<lparr>wf_pending := [], wf_held_construct_start := None, wf_awaiting_designator := False,
           wf_written := WGround\<rparr>\<rparr>)"

text \<open>The last segment: the settled bytes are drained through the strip, the open chain is held.\<close>

definition drain_settled :: "boundary_scan \<Rightarrow> u8 list \<Rightarrow> nat \<Rightarrow> nat \<Rightarrow> nat \<Rightarrow> feed_loop \<Rightarrow> feed_loop" where
  "drain_settled scan pending skip scan_start carry_len_before l =
     (let f = (fl_filter l)\<lparr>wf_awaiting_designator := bs_awaiting_designator scan,
            wf_held_construct_start :=
              (if bs_boundary scan < length pending then Some (bs_construct_start scan - bs_boundary scan) else None)\<rparr> in
      if bs_boundary scan = 0 then l\<lparr>fl_filter := f\<lparr>wf_pending := pending\<rparr>\<rparr>
      else
        let strippable = take (bs_boundary scan) pending;
            (stripped, state_after) =
              strip_pty_output_for_scrollback_write_with_written_state strippable (skip = 1) (wf_written f) in
        (fl_write stripped l)
          \<lparr>fl_pending_untouched := False,
           fl_filter := f\<lparr>wf_pending := drop (bs_boundary scan) pending, wf_written := state_after\<rparr>,
           fl_carried := (case bs_carried_end scan of
                            Some e \<Rightarrow> Some (note_carried strippable scan_start e carry_len_before)
                          | None \<Rightarrow> fl_carried l)\<rparr>)"

definition feed_segment :: "u8 list \<Rightarrow> bool \<Rightarrow> feed_loop \<Rightarrow> feed_loop" where
  "feed_segment seg is_last l =
     (let f = fl_filter l;
          carry_len_before = length (wf_pending f);
          pending = wf_pending f @ seg in
      if pending = [] then
        (if is_last then l
         else (fl_write (closure_for (wf_written f)) l)
                \<lparr>fl_filter := f\<lparr>wf_written := WGround, wf_awaiting_designator := False\<rparr>\<rparr>)
      else
        let carried_run = (0 < carry_len_before);
            skip = (if \<not> carried_run \<and> wf_awaiting_designator f then 1 else 0);
            scan_start = (if carried_run then (case wf_held_construct_start f of Some h \<Rightarrow> h | None \<Rightarrow> 0) else skip) in
        if SCROLLBACK_FILTER_PENDING_CAP < length pending
        then flush_overflow pending skip scan_start carried_run is_last l
        else
          let scan = scan_boundary pending scan_start carried_run in
          if is_last then drain_settled scan pending skip scan_start carry_len_before l
          else close_at_cut scan pending skip scan_start carry_len_before l)"

section \<open>A read\<close>

text \<open>The segments between the cuts; \<open>fed\<close> is the rest of the read from \<open>seg_start\<close> on.\<close>

fun feed_segments :: "nat \<Rightarrow> u8 list \<Rightarrow> nat list \<Rightarrow> feed_loop \<Rightarrow> feed_loop" where
  "feed_segments seg_start fed [] l = feed_segment fed True l"
| "feed_segments seg_start fed (c # cuts) l =
     (let seg_end = max (min c (seg_start + length fed)) seg_start in
      feed_segments seg_end (drop (seg_end - seg_start) fed) cuts
        (feed_segment (take (seg_end - seg_start) fed) False l))"

definition feed_with_cuts :: "u8 list \<Rightarrow> dims \<Rightarrow> nat list \<Rightarrow> write_filter \<Rightarrow> write_filter \<times> feed_outcome" where
  "feed_with_cuts fed current_dims cuts f =
     (if fed = [] \<and> cuts = [] then (f, \<lparr>fo_dims = current_dims, fo_bytes = [], fo_carried = None\<rparr>)
      else
        let had_carry_over = (wf_pending f \<noteq> []);
            attribution_dims =
              (if had_carry_over
               then (case wf_pending_started_dims f of Some d \<Rightarrow> d | None \<Rightarrow> current_dims) else current_dims);
            f1 = (if had_carry_over then f else f\<lparr>wf_pending_started_dims := Some current_dims\<rparr>);
            l = feed_segments 0 fed cuts
                  \<lparr>fl_filter = f1, fl_out = [], fl_carried = None, fl_overflowed = False, fl_pending_untouched = True\<rparr>;
            f2 = fl_filter l;
            f3 = (if wf_pending f2 = [] then f2\<lparr>wf_pending_started_dims := None\<rparr>
                  else if \<not> (had_carry_over \<and> fl_pending_untouched l)
                  then f2\<lparr>wf_pending_started_dims := Some current_dims\<rparr> else f2)
        in (f3, \<lparr>fo_dims = attribution_dims, fo_bytes = fl_out l,
                 fo_carried = (if fl_overflowed l then None else fl_carried l)\<rparr>))"

definition wf_feed :: "u8 list \<Rightarrow> dims \<Rightarrow> write_filter \<Rightarrow> write_filter \<times> dims \<times> u8 list" where
  "wf_feed chunk current_dims f =
     (let (f1, outcome) = feed_with_cuts chunk current_dims [] f in (f1, fo_dims outcome, fo_bytes outcome))"

text \<open>A history of reads: each with its dimensions and its cuts.\<close>

type_synonym pane_read = "u8 list \<times> dims \<times> nat list"

fun feed_reads :: "write_filter \<Rightarrow> pane_read list \<Rightarrow> write_filter \<times> u8 list" where
  "feed_reads f [] = (f, [])"
| "feed_reads f ((fed, d, cuts) # reads) =
     (let (f1, outcome) = feed_with_cuts fed d cuts f; (f2, rest) = feed_reads f1 reads
      in (f2, fo_bytes outcome @ rest))"

end
