(* ===== verification/WriteFilterFacts.thy ===== *)
theory WriteFilterFacts
  imports WriteFilter FilterFacts
begin

text \<open>
  What the write filter guarantees for every history of reads, cuts and overflows: the stream it
  writes asks the terminal nothing and is tracked by its record; what it holds is bounded, is one
  open chain, and does not depend on where the reads are cut.
\<close>

section \<open>The written stream is safe\<close>

lemma safe_strip_state:
  assumes "safe_output p \<lparr>w_bytes = out, w_state = s\<rparr>"
    and "strip_pty_output_for_scrollback_write_with_written_state run pending s = (stripped, s')"
  shows "safe_output p \<lparr>w_bytes = out @ stripped, w_state = s'\<rparr>"
proof -
  have "tracks s (fst (parse p out))"
    using assms(1) by (simp add: safe_output_def)
  from safe_strip_pass [OF this, of run "[]" pending] assms show ?thesis
    by (auto simp: safe_output_def calm_append parse_append_fst
        strip_pty_output_for_scrollback_write_with_written_state_def split: prod.splits)
qed

lemma safe_closure:
  assumes "safe_output p \<lparr>w_bytes = out, w_state = s\<rparr>"
  shows "safe_output p \<lparr>w_bytes = out @ closure_for s, w_state = WGround\<rparr>"
proof -
  let ?w = "\<lparr>w_bytes = out, w_state = s\<rparr>"
  have "written_extend ?w (closure_for s) = \<lparr>w_bytes = out @ closure_for s, w_state = WGround\<rparr>"
  proof (cases s)
    case (WCsi oc)
    have "tracks (WCsi oc) (fst (parse p out))"
      using assms WCsi by (simp add: safe_output_def)
    from closing_byte [OF this] WCsi show ?thesis
      by (simp add: written_extend_def closure_for_def CSI_CLOSING_def written_push_def answered_here_def)
  qed (simp_all add: written_extend_def closure_for_def ESCAPE_CLOSING_def DESIGNATOR_CLOSING_def
      STRING_BODY_CLOSING_def written_push_def written_advance_def)
  with safe_extend [OF assms, of "closure_for s"] show ?thesis by simp
qed

text \<open>Of a segment: everything written so far, of this read and of the reads before it.\<close>

definition loop_safe :: "parser \<Rightarrow> u8 list \<Rightarrow> feed_loop \<Rightarrow> bool" where
  "loop_safe p before l \<longleftrightarrow>
     safe_output p \<lparr>w_bytes = before @ fl_out l, w_state = wf_written (fl_filter l)\<rparr>"

lemma loop_safe_closure:
  "loop_safe p before l \<Longrightarrow>
   safe_output p \<lparr>w_bytes = before @ fl_out l @ closure_for (wf_written (fl_filter l)), w_state = WGround\<rparr>"
  unfolding loop_safe_def by (drule safe_closure) simp

lemma loop_safe_strip:
  assumes "loop_safe p before l"
    "strip_pty_output_for_scrollback_write_with_written_state run pending (wf_written (fl_filter l)) = (stripped, s')"
  shows "safe_output p \<lparr>w_bytes = before @ fl_out l @ stripped, w_state = s'\<rparr>"
  using safe_strip_state [OF assms(1) [unfolded loop_safe_def] assms(2)] by simp

lemma flush_overflow_safe:
  assumes "loop_safe p before l"
  shows "loop_safe p before (flush_overflow run skip scan_start carried_run is_last l)"
proof -
  let ?run = "if is_last \<and> last run = 0x1B then butlast run else run"
  obtain stripped s1 where s1: "strip_pty_output_for_scrollback_write_with_written_state ?run (skip = 1)
      (wf_written (fl_filter l)) = (stripped, s1)"
    by fastforce
  obtain esc s2 where s2: "strip_pty_output_for_scrollback_write_with_written_state [0x1B] False s1 = (esc, s2)"
    by fastforce
  have safe1: "safe_output p \<lparr>w_bytes = before @ fl_out l @ stripped, w_state = s1\<rparr>"
    by (rule loop_safe_strip [OF assms s1])
  have safe2: "safe_output p \<lparr>w_bytes = before @ fl_out l @ stripped @ esc, w_state = s2\<rparr>"
    using safe_strip_state [OF safe1 s2] by simp
  show ?thesis
    using safe1 safe2 safe_closure [OF safe1] safe_closure [OF safe2]
    by (simp add: flush_overflow_def Let_def s1 s2 loop_safe_def fl_write_def del: One_nat_def)
qed

lemma close_at_cut_safe:
  assumes "loop_safe p before l"
  shows "loop_safe p before (close_at_cut scan pending skip scan_start n l)"
proof -
  obtain stripped s1 where s1: "strip_pty_output_for_scrollback_write_with_written_state
      (take (bs_boundary scan) pending) (skip = 1) (wf_written (fl_filter l)) = (stripped, s1)"
    by fastforce
  from safe_closure [OF loop_safe_strip [OF assms s1]] show ?thesis
    by (simp add: close_at_cut_def Let_def s1 loop_safe_def fl_write_def del: One_nat_def)
qed

lemma drain_settled_safe:
  assumes "loop_safe p before l"
  shows "loop_safe p before (drain_settled scan pending skip scan_start n l)"
proof -
  obtain stripped s1 where s1: "strip_pty_output_for_scrollback_write_with_written_state
      (take (bs_boundary scan) pending) (skip = 1) (wf_written (fl_filter l)) = (stripped, s1)"
    by fastforce
  from assms loop_safe_strip [OF assms s1] show ?thesis
    by (simp add: drain_settled_def Let_def s1 loop_safe_def fl_write_def del: One_nat_def)
qed

lemma feed_segment_safe:
  "loop_safe p before l \<Longrightarrow> loop_safe p before (feed_segment seg is_last l)"
  using loop_safe_closure [of p before l]
  by (auto simp: feed_segment_def Let_def flush_overflow_safe close_at_cut_safe drain_settled_safe)
    (simp_all add: loop_safe_def fl_write_def del: One_nat_def)

lemma feed_segments_safe:
  "loop_safe p before l \<Longrightarrow> loop_safe p before (feed_segments i fed cuts l)"
  by (induction i fed cuts l rule: feed_segments.induct) (simp_all add: Let_def feed_segment_safe)

lemma feed_with_cuts_safe:
  assumes "safe_output p \<lparr>w_bytes = before, w_state = wf_written f\<rparr>" "feed_with_cuts fed d cuts f = (f1, outcome)"
  shows "safe_output p \<lparr>w_bytes = before @ fo_bytes outcome, w_state = wf_written f1\<rparr>"
proof (cases "fed = [] \<and> cuts = []")
  case False
  define f' where "f' = (if wf_pending f \<noteq> [] then f else f\<lparr>wf_pending_started_dims := Some d\<rparr>)"
  define l where "l = feed_segments 0 fed cuts
      \<lparr>fl_filter = f', fl_out = [], fl_carried = None, fl_overflowed = False, fl_pending_untouched = True\<rparr>"
  have "loop_safe p before l"
    unfolding l_def by (rule feed_segments_safe) (use assms(1) in \<open>simp add: loop_safe_def f'_def\<close>)
  moreover have "fo_bytes outcome = fl_out l" "wf_written f1 = wf_written (fl_filter l)"
    using False assms(2) unfolding feed_with_cuts_def f'_def [symmetric] l_def [symmetric] Let_def
    by (auto simp: f'_def l_def split: if_splits)
  ultimately show ?thesis
    by (simp add: loop_safe_def)
qed (use assms in \<open>auto simp: feed_with_cuts_def\<close>)

lemma feed_reads_safe:
  "safe_output p \<lparr>w_bytes = before, w_state = wf_written f\<rparr> \<Longrightarrow>
   safe_output p \<lparr>w_bytes = before @ snd (feed_reads f reads), w_state = wf_written (fst (feed_reads f reads))\<rparr>"
proof (induction f reads arbitrary: before rule: feed_reads.induct)
  case (2 f fed d cuts reads)
  obtain f1 outcome where o1: "feed_with_cuts fed d cuts f = (f1, outcome)"
    by fastforce
  from "2.IH" [OF o1 [symmetric] refl feed_with_cuts_safe [OF "2.prems" o1]] show ?case
    by (simp add: o1 split_def Let_def)
qed simp


lemma reads_silent:
  assumes "silent c" "ps_state (tc_parser c) = Ground"
  shows "silent (fst (process_pty_data_fully c (snd (feed_reads wf_new reads))))"
proof -
  have "safe_output (tc_parser c) \<lparr>w_bytes = [], w_state = wf_written wf_new\<rparr>"
    using assms(2) by (simp add: safe_output_def wf_new_def tracks_new calm_def)
  then have "calm (tc_parser c) (snd (feed_reads wf_new reads))"
    using feed_reads_safe [of "tc_parser c" "[]" wf_new reads] by (simp add: safe_output_def)
  from silent_fully_loop [OF assms(1) this, of "\<lambda>_. False" 0 "[]"] show ?thesis
    by (simp add: process_pty_data_fully_def process_pty_data_fully_cancellable_def split_def split: option.split)
qed

text \<open>C31. Whatever reads a pane produces, at whatever points they are cut, with whatever screen
  switches removed and whatever overflows of the cap, the bytes written to its history never make a
  terminal answer: fed to a terminal at the ground state with no pending answer and no colour
  responder, they leave it without any answer.\<close>

theorem written_history_answers_nothing:
  assumes "tc_response_queue c = []" "tc_osc_responder c = None" "ps_state (tc_parser c) = Ground"
  shows "tc_response_queue (fst (process_pty_data_fully c (snd (feed_reads wf_new reads)))) = []"
  using reads_silent [of c reads] assms by (simp add: speaks_def)

text \<open>An example: a device query split over two reads, with a cut after it.\<close>

theorem written_history_answers_nothing_witness:
  "tc_response_queue (fst (process_pty_data_fully (core_new 80 24 100)
     (snd (feed_reads wf_new [([0x61, 0x1B, 0x5B], (80, 24), []), ([0x36, 0x6E, 0x62, 0x1B], (80, 24), [4])])))) = []"
  by (rule written_history_answers_nothing) (simp_all add: core_new_def mark_all_dirty_def parser_new_def)


section \<open>What is held\<close>

text \<open>The bodies without an end: their terminator, or the escape character that aborts them, is
  not there yet.\<close>

fun st_open :: "u8 list \<Rightarrow> bool" where
  "st_open [] = True"
| "st_open (b # bs) = (if b = 0x1B then bs = [] else st_open bs)"

fun osc_open :: "u8 list \<Rightarrow> bool" where
  "osc_open [] = True"
| "osc_open (b # bs) = (if b = 0x07 then False else if b = 0x1B then bs = [] else osc_open bs)"

text \<open>A construct that is still open: a lone escape character, or a string without its end.\<close>

definition open_construct :: "u8 list \<Rightarrow> bool" where
  "open_construct bs \<longleftrightarrow>
     (case bs of
        [] \<Rightarrow> False
      | [b] \<Rightarrow> b = 0x1B
      | b # c # body \<Rightarrow> b = 0x1B \<and> (c = 0x5D \<and> osc_open body \<or> (c = 0x5F \<or> c = 0x50) \<and> st_open body))"

definition find_end :: "u8 \<Rightarrow> nat \<Rightarrow> u8 list \<Rightarrow> string_scan_result" where
  "find_end c j body = (if c = 0x5D then find_osc_end j body else find_st j body)"

lemma find_st_incomplete: "find_st j bs = ScanIncomplete \<longleftrightarrow> st_open bs"
  by (induction j bs rule: find_st.induct) simp_all

lemma find_osc_incomplete: "find_osc_end j bs = ScanIncomplete \<longleftrightarrow> osc_open bs"
  by (induction j bs rule: find_osc_end.induct) simp_all

lemma find_end_incomplete:
  "find_end c j body = ScanIncomplete \<longleftrightarrow> (if c = 0x5D then osc_open body else st_open body)"
  by (simp add: find_end_def find_st_incomplete find_osc_incomplete)

lemma find_st_complete: "find_st j bs = ScanComplete e \<Longrightarrow> \<exists>k. e = j + k \<and> 0 < k \<and> k \<le> length bs"
proof (induction j bs rule: find_st.induct)
  case (2 j b bs)
  then show ?case
    by (cases "b = 0x1B") (fastforce split: if_splits intro: exI [of _ "Suc _"] exI [of _ 2] simp: Suc_le_eq neq_Nil_conv)+
qed simp

lemma find_osc_complete: "find_osc_end j bs = ScanComplete e \<Longrightarrow> \<exists>k. e = j + k \<and> 0 < k \<and> k \<le> length bs"
proof (induction j bs rule: find_osc_end.induct)
  case (2 j b bs)
  then show ?case
    by (cases "b = 0x07"; cases "b = 0x1B")
      (fastforce split: if_splits intro: exI [of _ "Suc _"] exI [of _ 2] exI [of _ 1] simp: Suc_le_eq neq_Nil_conv)+
qed simp

lemma find_st_aborted: "find_st j bs = ScanAborted a \<Longrightarrow> \<exists>k. a = j + k \<and> k < length bs \<and> bs ! k = 0x1B"
proof (induction j bs rule: find_st.induct)
  case (2 j b bs)
  show ?case
  proof (cases "b = 0x1B")
    case True
    with "2.prems" show ?thesis by (intro exI [of _ 0]) (simp split: if_splits)
  next
    case False
    with 2 obtain k where "a = j + 1 + k" "k < length bs" "bs ! k = 0x1B" by auto
    then show ?thesis by (intro exI [of _ "Suc k"]) simp
  qed
qed simp

lemma find_osc_aborted: "find_osc_end j bs = ScanAborted a \<Longrightarrow> \<exists>k. a = j + k \<and> k < length bs \<and> bs ! k = 0x1B"
proof (induction j bs rule: find_osc_end.induct)
  case (2 j b bs)
  show ?case
  proof (cases "b = 0x1B")
    case True
    with "2.prems" show ?thesis by (intro exI [of _ 0]) (simp split: if_splits)
  next
    case False
    with 2 obtain k where "a = j + 1 + k" "k < length bs" "bs ! k = 0x1B" by (auto split: if_splits)
    then show ?thesis by (intro exI [of _ "Suc k"]) simp
  qed
qed simp

lemma find_end_complete: "find_end c j body = ScanComplete e \<Longrightarrow> \<exists>k. e = j + k \<and> 0 < k \<and> k \<le> length body"
  by (auto simp: find_end_def dest: find_st_complete find_osc_complete split: if_splits)

lemma find_end_aborted: "find_end c j body = ScanAborted a \<Longrightarrow> \<exists>k. a = j + k \<and> k < length body \<and> body ! k = 0x1B"
  by (auto simp: find_end_def dest: find_st_aborted find_osc_aborted split: if_splits)

text \<open>More bytes do not change a found end.\<close>

lemma find_end_append: "find_end c j body \<noteq> ScanIncomplete \<Longrightarrow> find_end c j (body @ ys) = find_end c j body"
proof -
  have "find_st j body \<noteq> ScanIncomplete \<Longrightarrow> find_st j (body @ ys) = find_st j body"
    by (induction j body rule: find_st.induct) (auto simp: neq_Nil_conv)
  moreover have "find_osc_end j body \<noteq> ScanIncomplete \<Longrightarrow> find_osc_end j (body @ ys) = find_osc_end j body"
    by (induction j body rule: find_osc_end.induct) (auto simp: neq_Nil_conv)
  ultimately show "find_end c j body \<noteq> ScanIncomplete \<Longrightarrow> find_end c j (body @ ys) = find_end c j body"
    by (simp add: find_end_def split: if_splits)
qed

lemma find_end_shift:
  "find_end c (j + k) body =
     (case find_end c j body of
        ScanComplete e \<Rightarrow> ScanComplete (e + k) | ScanAborted a \<Rightarrow> ScanAborted (a + k) | ScanIncomplete \<Rightarrow> ScanIncomplete)"
proof -
  have "find_st (j + k) body = (case find_st j body of
        ScanComplete e \<Rightarrow> ScanComplete (e + k) | ScanAborted a \<Rightarrow> ScanAborted (a + k) | ScanIncomplete \<Rightarrow> ScanIncomplete)"
    by (induction j body rule: find_st.induct) simp_all
  moreover have "find_osc_end (j + k) body = (case find_osc_end j body of
        ScanComplete e \<Rightarrow> ScanComplete (e + k) | ScanAborted a \<Rightarrow> ScanAborted (a + k) | ScanIncomplete \<Rightarrow> ScanIncomplete)"
    by (induction j body rule: find_osc_end.induct) simp_all
  ultimately show ?thesis
    by (simp add: find_end_def)
qed

text \<open>The scan, as lengths counted from the end: of the held chain, of its last construct, and
  whether a designator is awaited.  \<open>lead\<close> is how much of the chain lies before the bytes.\<close>

function chain_scan :: "nat \<Rightarrow> u8 list \<Rightarrow> nat \<times> nat \<times> bool" where
  "chain_scan lead [] = (0, 0, False)"
| "chain_scan lead (b # bs) =
     (if b \<noteq> 0x1B then chain_scan 0 bs
      else case bs of
          [] \<Rightarrow> (lead + 1, 1, False)
        | c # body \<Rightarrow>
            if c = 0x5F \<or> c = 0x50 \<or> c = 0x5D then
              (case find_end c 2 body of
                 ScanComplete e \<Rightarrow> chain_scan 0 (drop e (b # bs))
               | ScanAborted a \<Rightarrow> chain_scan (lead + a) (drop a (b # bs))
               | ScanIncomplete \<Rightarrow> (lead + length (b # bs), length (b # bs), False))
            else if c = 0x1B then chain_scan (lead + 1) bs
            else if c = 0x28 \<or> c = 0x29 then (if body \<noteq> [] then chain_scan 0 (tl body) else (0, 0, True))
            else chain_scan 0 body)"
  by pat_completeness auto
termination
  by (relation "measure (\<lambda>(lead, rest). length rest)") (auto dest!: find_end_complete find_end_aborted)

definition chain_head :: "nat option \<Rightarrow> nat \<Rightarrow> nat" where
  "chain_head chain i = (case chain of Some h \<Rightarrow> h | None \<Rightarrow> i)"

lemma chain_head_simps [simp]: "chain_head None i = i" "chain_head (Some h) i = h"
  by (simp_all add: chain_head_def)

lemma find_two:
  "find_osc_end (Suc (Suc i)) body = (case find_end 0x5D 2 body of
     ScanComplete e \<Rightarrow> ScanComplete (i + e) | ScanAborted a \<Rightarrow> ScanAborted (i + a) | ScanIncomplete \<Rightarrow> ScanIncomplete)"
  "c \<noteq> 0x5D \<Longrightarrow> find_st (Suc (Suc i)) body = (case find_end c 2 body of
     ScanComplete e \<Rightarrow> ScanComplete (i + e) | ScanAborted a \<Rightarrow> ScanAborted (i + a) | ScanIncomplete \<Rightarrow> ScanIncomplete)"
  using find_end_shift [of "0x5D" 2 i body] find_end_shift [of c 2 i body]
  by (auto simp: find_end_def numeral_2_eq_2 add.commute split: string_scan_result.splits)

lemma scan_loop_string:
  assumes "c = 0x5F \<or> c = 0x50 \<or> c = 0x5D"
  shows "scan_loop n i (0x1B # c # body) ca ce chain =
     (case find_end c 2 body of
        ScanComplete e \<Rightarrow>
          scan_loop n (i + e) (drop e (0x1B # c # body)) ca (if ca = Some i then Some (i + e) else ce) None
      | ScanAborted a \<Rightarrow> scan_loop n (i + a) (drop a (0x1B # c # body)) ca ce (Some (chain_head chain i))
      | ScanIncomplete \<Rightarrow> \<lparr>bs_boundary = chain_head chain i, bs_construct_start = i, bs_awaiting_designator = False,
                           bs_carried_end = ce\<rparr>)"
proof (cases "c = 0x5D")
  case True
  then show ?thesis
    by (simp add: Let_def chain_head_def find_two(1) split: string_scan_result.split)
next
  case False
  with assms show ?thesis
    by (auto simp: Let_def chain_head_def find_two(2) split: string_scan_result.split)
qed

lemma scan_loop_other:
  assumes "c \<noteq> 0x5F" "c \<noteq> 0x50" "c \<noteq> 0x5D"
  shows "scan_loop n i (0x1B # c # body) ca ce chain =
     (if c = 0x1B then scan_loop n (Suc i) (c # body) ca ce (Some (chain_head chain i))
      else if c = 0x28 \<or> c = 0x29 then
        (if body \<noteq> [] then scan_loop n (i + 3) (tl body) ca ce None
         else \<lparr>bs_boundary = n, bs_construct_start = n, bs_awaiting_designator = True, bs_carried_end = ce\<rparr>)
      else scan_loop n (i + 2) body ca ce None)"
  using assms by (subst scan_loop.simps(2)) (simp add: Let_def chain_head_def del: scan_loop.simps)

lemma chain_scan_other:
  assumes "c \<noteq> 0x5F" "c \<noteq> 0x50" "c \<noteq> 0x5D"
  shows "chain_scan lead (0x1B # c # body) =
     (if c = 0x1B then chain_scan (Suc lead) (c # body)
      else if c = 0x28 \<or> c = 0x29 then (if body \<noteq> [] then chain_scan 0 (tl body) else (0, 0, True))
      else chain_scan 0 body)"
  using assms by (subst chain_scan.simps(2)) (simp del: chain_scan.simps)

definition scan_is :: "boundary_scan \<Rightarrow> nat \<Rightarrow> nat \<times> nat \<times> bool \<Rightarrow> bool" where
  "scan_is r n t \<longleftrightarrow>
     (case t of (hl, cl, awaiting) \<Rightarrow>
        n = bs_boundary r + hl \<and> n = bs_construct_start r + cl \<and> bs_awaiting_designator r = awaiting)"

lemma scan_loop_chain_scan:
  "n = i + length rest \<Longrightarrow> chain_head chain i \<le> i \<Longrightarrow>
   scan_is (scan_loop n i rest ca ce chain) n (chain_scan (i - chain_head chain i) rest)"
proof (induction "length rest" arbitrary: i rest ca ce chain rule: less_induct)
  case less
  consider "rest = []" | b bs where "rest = b # bs" "b \<noteq> 0x1B" | "rest = [0x1B]"
    | c body where "rest = 0x1B # c # body" "c = 0x5F \<or> c = 0x50 \<or> c = 0x5D"
    | c body where "rest = 0x1B # c # body" "c \<noteq> 0x5F" "c \<noteq> 0x50" "c \<noteq> 0x5D"
    by (metis neq_Nil_conv)
  then show ?case
  proof cases
    case (4 c body)
    show ?thesis
    proof (cases "find_end c 2 body")
      case (ScanComplete e)
      from find_end_complete [OF this] obtain k where k: "e = 2 + k" "k \<le> length body" by auto
      have "scan_is (scan_loop n (i + e) (drop e rest) ca (if ca = Some i then Some (i + e) else ce) None) n
          (chain_scan (i + e - chain_head None (i + e)) (drop e rest))"
        by (rule less.hyps) (use 4 k less.prems in auto)
      with 4 ScanComplete show ?thesis
        by (simp add: scan_loop_string del: scan_loop.simps(2))
    next
      case (ScanAborted a)
      from find_end_aborted [OF this] obtain k where k: "a = 2 + k" "k < length body" by auto
      have "scan_is (scan_loop n (i + a) (drop a rest) ca ce (Some (chain_head chain i))) n
          (chain_scan (i + a - chain_head (Some (chain_head chain i)) (i + a)) (drop a rest))"
        by (rule less.hyps) (use 4 k less.prems in auto)
      moreover have "i + a - chain_head chain i = i - chain_head chain i + a"
        using less.prems by simp
      ultimately show ?thesis
        using 4 ScanAborted by (simp add: scan_loop_string del: scan_loop.simps(2))
    next
      case ScanIncomplete
      with 4 less.prems show ?thesis
        by (simp add: scan_loop_string scan_is_def del: scan_loop.simps(2))
    qed
  next
    case (5 c body)
    have esc: "scan_is (scan_loop n (Suc i) (c # body) ca ce (Some (chain_head chain i))) n
        (chain_scan (Suc i - chain_head chain i) (c # body))"
      using less.hyps [of "c # body" "Suc i" "Some (chain_head chain i)" ca ce] 5 less.prems
      by (simp del: scan_loop.simps chain_scan.simps)
    have other: "scan_is (scan_loop n (Suc (Suc i)) body ca ce None) n (chain_scan 0 body)"
      using less.hyps [of body "Suc (Suc i)" None ca ce] 5 less.prems by simp
    have paren: "body \<noteq> [] \<Longrightarrow>
        scan_is (scan_loop n (Suc (Suc (Suc i))) (tl body) ca ce None) n (chain_scan 0 (tl body))"
      using less.hyps [of "tl body" "Suc (Suc (Suc i))" None ca ce] 5 less.prems by simp
    have last_two: "scan_is \<lparr>bs_boundary = n, bs_construct_start = n, bs_awaiting_designator = True,
        bs_carried_end = ce\<rparr> n (0, 0, True)"
      by (simp add: scan_is_def)
    have "Suc (i - chain_head chain i) = Suc i - chain_head chain i"
      using less.prems by simp
    then show ?thesis
      using 5 esc other paren last_two
      by (cases "c = 0x1B") (simp_all add: scan_loop_other chain_scan_other numeral_3_eq_3 del: scan_loop.simps chain_scan.simps)
  next
    case (2 b bs)
    have "scan_is (scan_loop n (Suc i) bs ca ce None) n (chain_scan 0 bs)"
      using less.hyps [of bs "Suc i" None ca ce] 2 less.prems by simp
    with 2 show ?thesis by simp
  qed (use less in \<open>auto simp: scan_is_def chain_head_def Let_def split: option.split\<close>)
qed


lemma chain_scan_string:
  assumes "c = 0x5F \<or> c = 0x50 \<or> c = 0x5D"
  shows "chain_scan lead (0x1B # c # body) =
     (case find_end c 2 body of
        ScanComplete e \<Rightarrow> chain_scan 0 (drop e (0x1B # c # body))
      | ScanAborted a \<Rightarrow> chain_scan (lead + a) (drop a (0x1B # c # body))
      | ScanIncomplete \<Rightarrow> (lead + length (0x1B # c # body), length (0x1B # c # body), False))"
  using assms by (subst chain_scan.simps(2)) (simp del: chain_scan.simps)

lemma chain_scan_cases:
  obtains (nil) "rest = []" | (plain) b bs where "rest = b # bs" "b \<noteq> 0x1B" | (lone) "rest = [0x1B]"
    | (body) c body where "rest = 0x1B # c # body" "c = 0x5F \<or> c = 0x50 \<or> c = 0x5D"
    | (other) c body where "rest = 0x1B # c # body" "c \<noteq> 0x5F" "c \<noteq> 0x50" "c \<noteq> 0x5D"
  by (metis neq_Nil_conv)

text \<open>What a scan finds: nothing held; or a chain of constructs that ends in an open one.\<close>

definition chain_found :: "nat \<Rightarrow> u8 list \<Rightarrow> nat \<times> nat \<times> bool \<Rightarrow> bool" where
  "chain_found lead rest r \<longleftrightarrow>
     (case r of (hl, cl, awaiting) \<Rightarrow>
        if cl = 0 then hl = 0 \<and> (awaiting \<longrightarrow> rest \<noteq> [] \<and> (last rest = 0x28 \<or> last rest = 0x29))
        else \<not> awaiting \<and> cl \<le> length rest \<and> cl \<le> hl \<and> open_construct (drop (length rest - cl) rest)
          \<and> (hl = lead + length rest \<and> (lead = 0 \<longrightarrow> rest ! 0 = 0x1B)
              \<or> hl < length rest \<and> rest ! (length rest - hl) = 0x1B))"

lemma chain_found_drop:
  assumes "chain_found 0 (drop k rest) r" "0 < k"
  shows "chain_found lead rest r"
proof (cases "k \<le> length rest")
  case True
  have "last (drop k rest) = last rest" if "drop k rest \<noteq> []"
    using that by (simp add: last_drop)
  with assms True show ?thesis
    by (auto simp: chain_found_def split: if_splits)
next
  case False
  with assms show ?thesis
    by (auto simp: chain_found_def split: if_splits)
qed

lemma chain_found_link:
  assumes "chain_found (lead + a) (drop a rest) r" "0 < a" "a \<le> length rest" "rest ! 0 = 0x1B"
  shows "chain_found lead rest r"
proof -
  have "last (drop a rest) = last rest" if "drop a rest \<noteq> []"
    using that by (simp add: last_drop)
  with assms show ?thesis
    by (auto simp: chain_found_def split: if_splits)
qed

lemma chain_scan_found: "chain_found lead rest (chain_scan lead rest)"
proof (induction "length rest" arbitrary: lead rest rule: less_induct)
  case less
  have ground: "chain_found lead rest (chain_scan 0 (drop k rest))" if "0 < k" "rest \<noteq> []" for k
    by (rule chain_found_drop [OF less.hyps]) (use that in simp_all)
  have link: "chain_found lead rest (chain_scan (lead + a) (drop a rest))" if "0 < a" "a \<le> length rest" "rest ! 0 = 0x1B" for a
    by (rule chain_found_link [OF less.hyps that]) (use that in auto)
  show ?case
  proof (cases rule: chain_scan_cases [of rest])
    case (plain b bs)
    with ground [of 1] show ?thesis by simp
  next
    case (body c tail)
    show ?thesis
    proof (cases "find_end c 2 tail")
      case (ScanComplete e)
      with find_end_complete [OF this] ground [of e] body show ?thesis
        by (auto simp: chain_scan_string simp del: chain_scan.simps)
    next
      case (ScanAborted a)
      with find_end_aborted [OF this] link [of a] body show ?thesis
        by (auto simp: chain_scan_string simp del: chain_scan.simps)
    next
      case ScanIncomplete
      then have "if c = 0x5D then osc_open tail else st_open tail"
        by (simp add: find_end_incomplete)
      with body show ?thesis
        by (auto simp: chain_scan_string [OF body(2)] ScanIncomplete chain_found_def open_construct_def
            simp del: chain_scan.simps)
    qed
  next
    case (other c tail)
    show ?thesis
    proof (cases "(c = 0x28 \<or> c = 0x29) \<and> tail = []")
      case True
      with other show ?thesis
        by (auto simp: chain_scan_other chain_found_def simp del: chain_scan.simps)
    next
      case False
      with other link [of "Suc 0"] ground [of "Suc (Suc (Suc 0))"] ground [of "Suc (Suc 0)"] show ?thesis
        by (auto simp: chain_scan_other drop_Suc Suc_le_eq simp del: chain_scan.simps)
    qed
  qed (simp_all add: chain_found_def open_construct_def)
qed

text \<open>A chain that does not reach back to the start of the bytes starts behind the open construct
  they begin with.\<close>

lemma open_end:
  assumes "if c = 0x5D then osc_open tail else st_open tail"
  shows "find_end c j (tail @ ys) = ScanComplete e \<Longrightarrow> j + length tail < e"
    "find_end c j (tail @ ys) = ScanAborted a \<Longrightarrow> j + length tail \<le> Suc a"
proof -
  have "st_open tail \<Longrightarrow> (find_st j (tail @ ys) = ScanComplete e \<longrightarrow> j + length tail < e)
      \<and> (find_st j (tail @ ys) = ScanAborted a \<longrightarrow> j + length tail \<le> Suc a)"
  proof (induction tail arbitrary: j)
    case (Cons b bs)
    from Cons.IH [of "Suc j"] Cons.prems show ?case by (auto split: if_splits)
  qed (auto dest: find_st_bounds)
  moreover have "osc_open tail \<Longrightarrow> (find_osc_end j (tail @ ys) = ScanComplete e \<longrightarrow> j + length tail < e)
      \<and> (find_osc_end j (tail @ ys) = ScanAborted a \<longrightarrow> j + length tail \<le> Suc a)"
  proof (induction tail arbitrary: j)
    case (Cons b bs)
    from Cons.IH [of "Suc j"] Cons.prems show ?case by (auto split: if_splits)
  qed (auto dest: find_osc_end_bounds)
  ultimately show "find_end c j (tail @ ys) = ScanComplete e \<Longrightarrow> j + length tail < e"
      "find_end c j (tail @ ys) = ScanAborted a \<Longrightarrow> j + length tail \<le> Suc a"
    using assms by (simp_all add: find_end_def split: if_splits)
qed

lemma chain_found_short:
  "chain_found lead rest (hl, cl, awaiting) \<Longrightarrow> hl = lead + length rest \<or> hl = 0 \<or> hl < length rest"
  by (auto simp: chain_found_def split: if_splits)

lemma open_chain_head:
  assumes "open_construct bs" "chain_scan lead (bs @ ys) = (hl, cl, awaiting)"
  shows "hl = lead + length (bs @ ys) \<or> hl \<le> length ys"
proof -
  have short: "hl = l + length rest \<or> hl = 0 \<or> hl < length rest"
    if "chain_scan l rest = (hl, cl, awaiting)" for l rest
    using chain_scan_found [of l rest] that by (simp add: chain_found_short)
  consider "bs = [0x1B]" | c tail where "bs = 0x1B # c # tail" "c = 0x5F \<or> c = 0x50 \<or> c = 0x5D"
      "if c = 0x5D then osc_open tail else st_open tail"
    using assms(1) by (auto simp: open_construct_def split: list.splits)
  then show ?thesis
  proof cases
    case 1
    with short [OF assms(2)] show ?thesis by auto
  next
    case (2 c tail)
    show ?thesis
    proof (cases "find_end c 2 (tail @ ys)")
      case (ScanComplete e)
      with 2 assms(2) have "chain_scan 0 (drop e (bs @ ys)) = (hl, cl, awaiting)"
        by (simp add: chain_scan_string del: chain_scan.simps)
      from short [OF this] open_end(1) [OF 2(3) ScanComplete] 2 show ?thesis by auto
    next
      case (ScanAborted a)
      with 2 assms(2) have "chain_scan (lead + a) (drop a (bs @ ys)) = (hl, cl, awaiting)"
        by (simp add: chain_scan_string del: chain_scan.simps)
      from short [OF this] open_end(2) [OF 2(3) ScanAborted] find_end_aborted [OF ScanAborted] 2 show ?thesis by auto
    next
      case ScanIncomplete
      with 2 assms(2) show ?thesis
        by (simp add: chain_scan_string del: chain_scan.simps)
    qed
  qed
qed

text \<open>More bytes: the scan goes on from the open construct, with the chain before it.\<close>

definition scan_more :: "nat \<times> nat \<times> bool \<Rightarrow> u8 list \<Rightarrow> u8 list \<Rightarrow> nat \<times> nat \<times> bool" where
  "scan_more r rest ys =
     (case r of (hl, cl, awaiting) \<Rightarrow>
        if awaiting then (if ys = [] then (0, 0, True) else chain_scan 0 (tl ys))
        else chain_scan (hl - cl) (drop (length rest - cl) rest @ ys))"

lemma scan_more_drop:
  assumes "chain_found x (drop k rest) r" "k \<le> length rest"
  shows "scan_more r (drop k rest) ys = scan_more r rest ys"
proof (cases r)
  case (fields hl cl awaiting)
  with assms have "k + cl \<le> length rest \<or> cl = 0"
    by (auto simp: chain_found_def split: if_splits)
  then have "drop (length rest - k - cl) (drop k rest) = drop (length rest - cl) rest"
    using assms(2) by auto
  with fields show ?thesis
    by (simp only: scan_more_def length_drop case_prod_conv)
qed

lemma chain_scan_append:
  "(rest = [] \<Longrightarrow> lead = 0) \<Longrightarrow> chain_scan lead (rest @ ys) = scan_more (chain_scan lead rest) rest ys"
proof (induction "length rest" arbitrary: lead rest rule: less_induct)
  case less
  have step: "chain_scan l (drop k rest @ ys) = scan_more (chain_scan l (drop k rest)) rest ys"
    if "0 < k" "k \<le> length rest" "k = length rest \<longrightarrow> l = 0" for l k
  proof -
    have "chain_scan l (drop k rest @ ys) = scan_more (chain_scan l (drop k rest)) (drop k rest) ys"
      by (rule less.hyps) (use that in auto)
    with scan_more_drop [OF chain_scan_found that(2)] show ?thesis by simp
  qed
  show ?case
  proof (cases rule: chain_scan_cases [of rest])
    case nil
    with less.prems show ?thesis by (simp add: scan_more_def)
  next
    case (plain b bs)
    with step [of 1 0] show ?thesis by simp
  next
    case lone
    then show ?thesis by (simp add: scan_more_def del: chain_scan.simps(2)) simp
  next
    case (body c tail)
    show ?thesis
    proof (cases "find_end c 2 tail")
      case (ScanComplete e)
      with find_end_complete [OF this] step [of e 0] body find_end_append [of c 2 tail ys] show ?thesis
        by (auto simp: chain_scan_string simp del: chain_scan.simps)
    next
      case (ScanAborted a)
      with find_end_aborted [OF this] step [of a "lead + a"] body find_end_append [of c 2 tail ys] show ?thesis
        by (auto simp: chain_scan_string simp del: chain_scan.simps)
    next
      case ScanIncomplete
      with body show ?thesis
        by (simp add: chain_scan_string [of c lead tail] scan_more_def del: chain_scan.simps)
    qed
  next
    case (other c tail)
    show ?thesis
    proof (cases "(c = 0x28 \<or> c = 0x29) \<and> tail = []")
      case True
      with other show ?thesis
        by (auto simp: chain_scan_other scan_more_def simp del: chain_scan.simps)
    next
      case False
      with other step [of "Suc 0" "Suc lead"] step [of "Suc (Suc (Suc 0))" 0] step [of "Suc (Suc 0)" 0] show ?thesis
        by (auto simp: chain_scan_other drop_Suc Suc_le_eq simp del: chain_scan.simps)
    qed
  qed
qed


section \<open>The filter\<close>

definition wf_ok :: "write_filter \<Rightarrow> bool" where
  "wf_ok f \<longleftrightarrow>
     (if wf_pending f = [] then wf_held_construct_start f = None
      else (\<exists>h. wf_held_construct_start f = Some h \<and> h < length (wf_pending f) \<and> open_construct (drop h (wf_pending f)))
        \<and> hd (wf_pending f) = 0x1B \<and> \<not> wf_awaiting_designator f)
     \<and> length (wf_pending f) \<le> SCROLLBACK_FILTER_PENDING_CAP"

text \<open>Where the scan of a segment starts, and what it finds.\<close>

definition carried_scan :: "write_filter \<Rightarrow> u8 list \<Rightarrow> nat \<times> nat \<times> bool" where
  "carried_scan f seg =
     (case wf_held_construct_start f of
        Some h \<Rightarrow> chain_scan h (drop h (wf_pending f) @ seg)
      | None \<Rightarrow> chain_scan 0 (if wf_awaiting_designator f then tl seg else seg))"

lemma scan_boundary_carried:
  assumes "wf_ok f" "wf_pending f @ seg \<noteq> []" "wf_pending f \<noteq> []"
  shows "scan_is (scan_boundary (wf_pending f @ seg) (case wf_held_construct_start f of Some h \<Rightarrow> h | None \<Rightarrow> 0) True)
     (length (wf_pending f @ seg)) (carried_scan f seg)"
proof -
  obtain h where h: "wf_held_construct_start f = Some h" "h < length (wf_pending f)"
    using assms by (auto simp: wf_ok_def)
  then show ?thesis
    using scan_loop_chain_scan [of "length (wf_pending f @ seg)" h "drop h (wf_pending f @ seg)" "Some 0" "Some h" None]
    by (simp add: scan_boundary_def carried_scan_def Let_def min_def del: scan_loop.simps chain_scan.simps)
qed

lemma scan_boundary_fresh:
  assumes "wf_ok f" "seg \<noteq> []" "wf_pending f = []"
  shows "scan_is (scan_boundary seg (if wf_awaiting_designator f then 1 else 0) False) (length seg) (carried_scan f seg)"
proof -
  have "wf_held_construct_start f = None"
    using assms by (simp add: wf_ok_def)
  then show ?thesis
    using scan_loop_chain_scan [of "length seg" 1 "tl seg" None None None] assms(2)
      scan_loop_chain_scan [of "length seg" 0 seg None None None]
    by (cases seg) (auto simp: scan_boundary_def carried_scan_def Let_def min_def simp del: scan_loop.simps chain_scan.simps)
qed

text \<open>Seen from the whole run, pending bytes included.\<close>

lemma carried_scan_found:
  assumes "wf_ok f" "wf_pending f @ seg \<noteq> []" "carried_scan f seg = (hl, cl, awaiting)"
  shows "if cl = 0 then hl = 0 else \<not> awaiting \<and> cl \<le> hl \<and> hl \<le> length (wf_pending f @ seg)
      \<and> open_construct (last_n cl (wf_pending f @ seg)) \<and> hd (last_n hl (wf_pending f @ seg)) = 0x1B
      \<and> (hl = length (wf_pending f @ seg) \<or> hl \<le> length seg)"
proof (cases "wf_pending f = []")
  case True
  then have n: "wf_held_construct_start f = None"
    using assms(1) by (simp add: wf_ok_def)
  show ?thesis
  proof (cases "wf_awaiting_designator f")
    case False
    with n True assms(2,3) chain_scan_found [of 0 seg] show ?thesis
      by (auto simp: carried_scan_def chain_found_def last_n_def hd_drop_conv_nth hd_conv_nth split: if_splits)
  next
    case aw: True
    obtain b bs where seg: "seg = b # bs"
      using assms(2) True by (cases seg) auto
    with n True aw assms(3) chain_scan_found [of 0 bs] show ?thesis
      by (auto simp: carried_scan_def chain_found_def last_n_def hd_drop_conv_nth hd_conv_nth Suc_diff_le split: if_splits)
  qed
next
  case False
  then obtain h where h: "wf_held_construct_start f = Some h" "h < length (wf_pending f)" "hd (wf_pending f) = 0x1B"
    using assms(1) by (auto simp: wf_ok_def)
  let ?rest = "drop h (wf_pending f) @ seg"
  let ?run = "wf_pending f @ seg"
  have rest: "?rest = drop h ?run" and len: "length ?run = h + length ?rest"
    using h(2) by simp_all
  have scan: "chain_scan h ?rest = (hl, cl, awaiting)"
    using assms(3) h(1) by (simp add: carried_scan_def)
  then have found: "chain_found h ?rest (hl, cl, awaiting)"
    using chain_scan_found [of h ?rest] by simp
  have short: "hl = h + length ?rest \<or> hl \<le> length seg"
    using open_chain_head [of "drop h (wf_pending f)" h seg] assms(1) False h(1) scan by (auto simp: wf_ok_def)
  have tail: "last_n n ?run = drop (length ?rest - n) ?rest" if "n \<le> length ?rest" for n
    unfolding last_n_def rest using that len by (simp add: add.commute)
  have "hd (last_n hl ?run) = 0x1B" if "cl \<noteq> 0" "hl < length ?rest" "?rest ! (length ?rest - hl) = 0x1B"
    using that(2,3) by (simp only: tail [OF less_imp_le [OF that(2)]]) (subst hd_drop_conv_nth; use that found in \<open>auto simp: chain_found_def\<close>)
  moreover have "hd (last_n hl ?run) = 0x1B" if "hl = h + length ?rest"
    using that h(3) len False by (simp add: last_n_def)
  ultimately show ?thesis
    using found short tail [of cl] len by (auto simp: chain_found_def)
qed

lemma last_n_last_n: "m \<le> n \<Longrightarrow> last_n m (last_n n xs) = last_n m xs"
  by (cases "n \<le> length xs") (simp_all add: last_n_def)

text \<open>The state a read starts its segments with.\<close>

definition start_loop :: "dims \<Rightarrow> write_filter \<Rightarrow> feed_loop" where
  "start_loop d f =
     \<lparr>fl_filter = (if wf_pending f \<noteq> [] then f else f\<lparr>wf_pending_started_dims := Some d\<rparr>),
      fl_out = [], fl_carried = None, fl_overflowed = False, fl_pending_untouched = True\<rparr>"

lemma feed_with_cuts_loop:
  assumes "\<not> (fed = [] \<and> cuts = [])"
  shows "fst (feed_with_cuts fed d cuts f) =
     (let l = feed_segments 0 fed cuts (start_loop d f); g = fl_filter l in
      if wf_pending g = [] then g\<lparr>wf_pending_started_dims := None\<rparr>
      else if wf_pending f \<noteq> [] \<and> fl_pending_untouched l then g else g\<lparr>wf_pending_started_dims := Some d\<rparr>)"
  using assms by (auto simp: feed_with_cuts_def start_loop_def Let_def)

text \<open>A read without cuts and without overflow.\<close>

definition held_view :: "write_filter \<Rightarrow> u8 list \<times> nat option \<times> bool" where
  "held_view f = (wf_pending f, wf_held_construct_start f, wf_awaiting_designator f)"

lemma drain_settled_view:
  assumes "scan_is scan (length run) (hl, cl, awaiting)"
    and "if cl = 0 then hl = 0 else cl \<le> hl"
  shows "held_view (fl_filter (drain_settled scan run skip scan_start n l))
     = (last_n hl run, if hl = 0 then None else Some (hl - cl), awaiting)"
proof -
  have b: "bs_boundary scan = length run - hl" "hl \<le> length run" "bs_construct_start scan = length run - cl" "cl \<le> length run"
    and aw: "bs_awaiting_designator scan = awaiting"
    using assms(1) by (auto simp: scan_is_def)
  have start: "bs_construct_start scan - bs_boundary scan = hl - cl"
    using b assms(2) by (simp split: if_splits)
  have drop: "drop (length run - hl) run = last_n hl run"
    by (simp add: last_n_def)
  have all: "last_n hl run = run" if "bs_boundary scan = 0"
    using b that by simp
  have less: "bs_boundary scan < length run \<longleftrightarrow> hl \<noteq> 0"
    using b by auto
  show ?thesis
    using aw start all less drop b(1)
    by (auto simp: drain_settled_def held_view_def Let_def fl_write_def split: prod.split)
qed

lemma feed_plain:
  assumes "wf_ok f" "chunk \<noteq> []" "length (wf_pending f @ chunk) \<le> SCROLLBACK_FILTER_PENDING_CAP"
    and "carried_scan f chunk = (hl, cl, awaiting)"
  shows "held_view (fst (feed_with_cuts chunk d [] f))
     = (last_n hl (wf_pending f @ chunk), if hl = 0 then None else Some (hl - cl), awaiting)"
proof -
  define l where "l = start_loop d f"
  have same: "wf_pending (fl_filter l) = wf_pending f" "wf_held_construct_start (fl_filter l) = wf_held_construct_start f"
      "wf_awaiting_designator (fl_filter l) = wf_awaiting_designator f"
    by (simp_all add: l_def start_loop_def)
  have found: "if cl = 0 then hl = 0 else cl \<le> hl"
    using carried_scan_found [OF assms(1) _ assms(4)] assms(2) by (simp split: if_splits)
  have seg: "held_view (fl_filter (feed_segment chunk True l))
      = (last_n hl (wf_pending f @ chunk), if hl = 0 then None else Some (hl - cl), awaiting)"
  proof (cases "wf_pending f = []")
    case True
    from scan_boundary_fresh [OF assms(1,2) True] assms(4) drain_settled_view found True show ?thesis
      using assms(2,3) same by (auto simp: feed_segment_def Let_def)
  next
    case False
    from scan_boundary_carried [OF assms(1) _ False, of chunk] assms(4) drain_settled_view found False show ?thesis
      using assms(2,3) same by (auto simp: feed_segment_def Let_def)
  qed
  have "held_view (fst (feed_with_cuts chunk d [] f)) = held_view (fl_filter (feed_segment chunk True l))"
    using assms(2) by (simp add: feed_with_cuts_loop l_def [symmetric] Let_def held_view_def)
  with seg show ?thesis by simp
qed

lemma wf_ok_view:
  assumes "held_view f = (run', held, awaiting)"
  shows "wf_ok f \<longleftrightarrow>
     (if run' = [] then held = None
      else (\<exists>h. held = Some h \<and> h < length run' \<and> open_construct (drop h run')) \<and> hd run' = 0x1B \<and> \<not> awaiting)
     \<and> length run' \<le> SCROLLBACK_FILTER_PENDING_CAP"
  using assms by (auto simp: wf_ok_def held_view_def)

text \<open>What a scan of the run leaves held is fine.\<close>

lemma held_tail_ok:
  assumes "wf_ok f" "wf_pending f @ seg \<noteq> []" "carried_scan f seg = (hl, cl, awaiting)"
    and "held_view g = (last_n hl (wf_pending f @ seg), if hl = 0 then None else Some (hl - cl), awaiting)"
    and "length (wf_pending f @ seg) \<le> SCROLLBACK_FILTER_PENDING_CAP"
  shows "wf_ok g"
proof -
  let ?run = "wf_pending f @ seg"
  have found: "if cl = 0 then hl = 0 else \<not> awaiting \<and> cl \<le> hl \<and> hl \<le> length ?run
      \<and> open_construct (last_n cl ?run) \<and> hd (last_n hl ?run) = 0x1B"
    using carried_scan_found [OF assms(1-3)] by (auto split: if_splits)
  have "drop (hl - cl) (last_n hl ?run) = last_n cl ?run" if "cl \<le> hl" "hl \<le> length ?run"
    using last_n_last_n [OF that(1), of ?run] that(2)
    unfolding last_n_def [of cl "last_n hl ?run"] length_last_n by (simp only: min_absorb1)
  with found assms(5) show ?thesis
    unfolding wf_ok_view [OF assms(4)] by (auto simp: last_n_def split: if_splits)
qed

lemma scan_awaiting_last:
  assumes "wf_ok f" "wf_pending f @ seg \<noteq> []" "carried_scan f seg = (hl, cl, True)"
  shows "last (wf_pending f @ seg) = 0x28 \<or> last (wf_pending f @ seg) = 0x29"
proof (cases "wf_pending f = []")
  case True
  then have "wf_held_construct_start f = None"
    using assms(1) by (simp add: wf_ok_def)
  with True assms(2,3) chain_scan_found [of 0 seg] chain_scan_found [of 0 "tl seg"] show ?thesis
    by (auto simp: carried_scan_def chain_found_def last_tl split: if_splits)
next
  case False
  then obtain h where h: "wf_held_construct_start f = Some h" "h < length (wf_pending f)"
    using assms(1) by (auto simp: wf_ok_def)
  have "last (drop h (wf_pending f) @ seg) = last (wf_pending f @ seg)"
    using h(2) by (simp add: last_append)
  with h assms(3) chain_scan_found [of h "drop h (wf_pending f) @ seg"] show ?thesis
    by (auto simp: carried_scan_def chain_found_def split: if_splits)
qed

lemma wf_ok_cleared: "held_view g = ([], None, awaiting) \<Longrightarrow> wf_ok g"
  by (simp add: wf_ok_view)

lemma feed_segment_ok:
  assumes "wf_ok (fl_filter l)"
  shows "wf_ok (fl_filter (feed_segment seg is_last l))"
proof (cases "wf_pending (fl_filter l) @ seg = []")
  case True
  with assms show ?thesis
    by (auto simp: feed_segment_def Let_def fl_write_def wf_ok_def)
next
  case False
  define f where "f = fl_filter l"
  define run where "run = wf_pending f @ seg"
  define skip :: nat where "skip = (if wf_pending f = [] \<and> wf_awaiting_designator f then 1 else 0)"
  define start where "start = (if wf_pending f \<noteq> [] then (case wf_held_construct_start f of Some h \<Rightarrow> h | None \<Rightarrow> 0) else skip)"
  define scan where "scan = scan_boundary run start (wf_pending f \<noteq> [])"
  obtain hl cl awaiting where r: "carried_scan f seg = (hl, cl, awaiting)"
    by (metis prod_cases3)
  have ok: "wf_ok f" and run: "run \<noteq> []"
    using assms False by (simp_all add: f_def run_def)
  have scan: "scan_is scan (length run) (hl, cl, awaiting)"
    using scan_boundary_carried [OF ok, of seg] scan_boundary_fresh [OF ok, of seg] run r
    by (auto simp: scan_def run_def start_def skip_def split: if_splits)
  have segment: "feed_segment seg is_last l =
      (if SCROLLBACK_FILTER_PENDING_CAP < length run
       then flush_overflow run skip start (wf_pending f \<noteq> []) is_last l
       else if is_last then drain_settled scan run skip start (length (wf_pending f)) l
       else close_at_cut scan run skip start (length (wf_pending f)) l)"
    using False by (simp add: feed_segment_def Let_def f_def run_def skip_def start_def scan_def)
  have drain: "wf_ok (fl_filter (drain_settled scan run skip start n l))"
    if "length run \<le> SCROLLBACK_FILTER_PENDING_CAP" for n
  proof (rule held_tail_ok [OF ok _ r])
    show "held_view (fl_filter (drain_settled scan run skip start n l))
        = (last_n hl (wf_pending f @ seg), if hl = 0 then None else Some (hl - cl), awaiting)"
      using drain_settled_view [OF scan] carried_scan_found [OF ok _ r] run by (auto simp: run_def split: if_splits)
  qed (use run that in \<open>simp_all add: run_def\<close>)
  have closed: "wf_ok (fl_filter (close_at_cut scan run skip start n l))" for n
    by (rule wf_ok_cleared [of _ False]) (simp add: close_at_cut_def Let_def held_view_def split: prod.split)
  have "\<not> bs_awaiting_designator scan" if "last run = 0x1B"
    using scan scan_awaiting_last [OF ok _, of seg hl cl] r run that by (auto simp: scan_is_def run_def)
  then have "wf_ok (fl_filter (flush_overflow run skip start (wf_pending f \<noteq> []) is_last l))"
    by (auto simp: flush_overflow_def Let_def scan_def [symmetric] f_def [symmetric] wf_ok_def open_construct_def
        SCROLLBACK_FILTER_PENDING_CAP_def split: prod.split)
  with segment drain closed show ?thesis
    by (simp add: not_less)
qed

lemma feed_segments_ok: "wf_ok (fl_filter l) \<Longrightarrow> wf_ok (fl_filter (feed_segments i fed cuts l))"
  by (induction i fed cuts l rule: feed_segments.induct) (simp_all add: Let_def feed_segment_ok)

lemma feed_ok: "wf_ok f \<Longrightarrow> wf_ok (fst (feed_with_cuts fed d cuts f))"
proof (cases "fed = [] \<and> cuts = []")
  case False
  assume "wf_ok f"
  then have "wf_ok (fl_filter (feed_segments 0 fed cuts (start_loop d f)))"
    by (intro feed_segments_ok) (simp add: start_loop_def wf_ok_def)
  with False show ?thesis
    by (simp add: feed_with_cuts_loop Let_def wf_ok_def)
qed (simp add: feed_with_cuts_def)


lemma feed_reads_ok: "wf_ok f \<Longrightarrow> wf_ok (fst (feed_reads f reads))"
proof (induction f reads rule: feed_reads.induct)
  case (2 f fed d cuts reads)
  obtain f1 outcome where o1: "feed_with_cuts fed d cuts f = (f1, outcome)"
    by fastforce
  have "wf_ok f1"
    using feed_ok [OF "2.prems", of fed d cuts] by (simp add: o1)
  from "2.IH" [OF o1 [symmetric] refl this] show ?case
    by (simp add: o1 split_def Let_def)
qed simp

lemma wf_new_ok: "wf_ok wf_new"
  by (simp add: wf_ok_def wf_new_def)


section \<open>Where the reads are cut does not matter\<close>

lemma last_n_suffix: "n \<le> length zs \<Longrightarrow> last_n n (us @ zs) = last_n n zs"
  by (simp add: last_n_def)

lemma feed_nothing: "fst (feed_with_cuts [] d [] f) = f"
  by (simp add: feed_with_cuts_def)

lemma carried_scan_step:
  assumes "wf_ok f" "chunk \<noteq> []" "ys \<noteq> []" "carried_scan f chunk = (hl, cl, awaiting)"
    and "held_view g = (last_n hl (wf_pending f @ chunk), if hl = 0 then None else Some (hl - cl), awaiting)"
  shows "carried_scan g ys = carried_scan f (chunk @ ys)"
proof -
  define lead where "lead = (case wf_held_construct_start f of Some h \<Rightarrow> h | None \<Rightarrow> 0)"
  define rest where "rest = (case wf_held_construct_start f of Some h \<Rightarrow> drop h (wf_pending f) @ chunk
      | None \<Rightarrow> if wf_awaiting_designator f then tl chunk else chunk)"
  have scan: "chain_scan lead rest = (hl, cl, awaiting)"
    using assms(4) by (cases "wf_awaiting_designator f"; cases "wf_held_construct_start f")
      (simp_all add: carried_scan_def lead_def rest_def)
  have more: "carried_scan f (chunk @ ys) = chain_scan lead (rest @ ys)"
    using assms(2) by (simp add: carried_scan_def lead_def rest_def split: option.split)
  have lead0: "rest = [] \<Longrightarrow> lead = 0"
    using assms(2) by (auto simp: lead_def rest_def split: option.split)
  have split: "chain_scan lead (rest @ ys) = scan_more (chain_scan lead rest) rest ys"
    by (rule chain_scan_append) (rule lead0)
  have found: "chain_found lead rest (hl, cl, awaiting)"
    using chain_scan_found [of lead rest] scan by simp
  have run: "\<exists>us. wf_pending f @ chunk = us @ rest"
  proof (cases "wf_held_construct_start f")
    case None
    then have "wf_pending f = []"
      using assms(1) by (auto simp: wf_ok_def split: if_splits)
    then show ?thesis
      using assms(2) None by (cases chunk) (auto simp: rest_def intro: exI [of _ "[_]"])
  next
    case (Some h)
    then show ?thesis
      using append_take_drop_id [of h "wf_pending f"] by (auto simp: rest_def intro!: exI [of _ "take h (wf_pending f)"])
  qed
  have tail: "last_n cl (wf_pending f @ chunk) = drop (length rest - cl) rest" if "cl \<le> length rest"
    using run last_n_suffix [OF that] by (metis last_n_def)
  have total: "hl \<le> length (wf_pending f @ chunk)" if "cl \<noteq> 0"
    using carried_scan_found [OF assms(1) _ assms(4)] assms(2) that by auto
  have pend: "drop (hl - cl) (last_n hl (wf_pending f @ chunk)) = last_n cl (wf_pending f @ chunk)"
    if "cl \<le> hl" "hl \<le> length (wf_pending f @ chunk)"
    using last_n_last_n [OF that(1), of "wf_pending f @ chunk"] that(2)
    unfolding last_n_def [of cl "last_n hl _"] length_last_n by (simp only: min_absorb1)
  show ?thesis
  proof (cases "cl = 0")
    case True
    then have "hl = 0" using found by (simp add: chain_found_def)
    with True assms(3,5) more scan split show ?thesis
      by (simp add: carried_scan_def held_view_def scan_more_def)
  next
    case False
    then have "cl \<le> hl" "hl \<noteq> 0" "\<not> awaiting" "cl \<le> length rest"
      using found by (auto simp: chain_found_def)
    with False assms(5) more scan split tail total pend show ?thesis
      by (simp add: carried_scan_def held_view_def scan_more_def)
  qed
qed

lemma last_n_append_short:
  assumes "n \<le> length (last_n m xs @ ys)"
  shows "last_n n (last_n m xs @ ys) = last_n n (xs @ ys)"
proof -
  have "xs @ ys = take (length xs - m) xs @ last_n m xs @ ys"
    by (simp add: last_n_def)
  with last_n_suffix [OF assms] show ?thesis
    by metis
qed

text \<open>Two reads hold what their concatenation holds.\<close>

lemma feed_twice:
  assumes "wf_ok f" "length (wf_pending f @ chunk @ ys) \<le> SCROLLBACK_FILTER_PENDING_CAP"
  shows "held_view (fst (feed_with_cuts ys d [] (fst (feed_with_cuts chunk d [] f))))
     = held_view (fst (feed_with_cuts (chunk @ ys) d [] f))"
proof (cases "chunk = [] \<or> ys = []")
  case True
  then show ?thesis by (auto simp: feed_nothing)
next
  case False
  define g where "g = fst (feed_with_cuts chunk d [] f)"
  obtain hl cl awaiting where r: "carried_scan f chunk = (hl, cl, awaiting)"
    by (metis prod_cases3)
  obtain hl2 cl2 awaiting2 where r2: "carried_scan f (chunk @ ys) = (hl2, cl2, awaiting2)"
    by (metis prod_cases3)
  have g: "held_view g = (last_n hl (wf_pending f @ chunk), if hl = 0 then None else Some (hl - cl), awaiting)"
    unfolding g_def by (rule feed_plain [OF assms(1) _ _ r]) (use False assms(2) in simp_all)
  have ok: "wf_ok g"
    unfolding g_def by (rule feed_ok [OF assms(1)])
  have r': "carried_scan g ys = (hl2, cl2, awaiting2)"
    using carried_scan_step [OF assms(1) _ _ r g, of ys] False r2 by simp
  have pending: "wf_pending g = last_n hl (wf_pending f @ chunk)"
    using g by (simp add: held_view_def)
  have "hl2 \<le> length (wf_pending g @ ys)"
    using carried_scan_found [OF ok _ r'] False by (auto split: if_splits)
  then have "last_n hl2 (wf_pending g @ ys) = last_n hl2 (wf_pending f @ chunk @ ys)"
    unfolding pending using last_n_append_short [of hl2 hl "wf_pending f @ chunk" ys] by simp
  moreover have "held_view (fst (feed_with_cuts ys d [] g))
      = (last_n hl2 (wf_pending g @ ys), if hl2 = 0 then None else Some (hl2 - cl2), awaiting2)"
    by (rule feed_plain [OF ok _ _ r']) (use False assms(2) pending in auto)
  moreover have "held_view (fst (feed_with_cuts (chunk @ ys) d [] f))
      = (last_n hl2 (wf_pending f @ chunk @ ys), if hl2 = 0 then None else Some (hl2 - cl2), awaiting2)"
    by (rule feed_plain [OF assms(1) _ _ r2]) (use False assms(2) in auto)
  ultimately show ?thesis
    by (simp add: g_def)
qed


lemma feed_concat:
  assumes "wf_ok f" "length (wf_pending f @ concat chunks) \<le> SCROLLBACK_FILTER_PENDING_CAP"
  shows "held_view (fst (feed_reads f (map (\<lambda>c. (c, d, [])) chunks)))
     = held_view (fst (feed_with_cuts (concat chunks) d [] f))"
  using assms
proof (induction chunks arbitrary: f)
  case (Cons chunk chunks)
  define g where "g = fst (feed_with_cuts chunk d [] f)"
  have ok: "wf_ok g"
    unfolding g_def by (rule feed_ok [OF Cons.prems(1)])
  have "length (wf_pending g) \<le> length (wf_pending f @ chunk)"
  proof (cases "chunk = []")
    case False
    obtain hl cl awaiting where r: "carried_scan f chunk = (hl, cl, awaiting)"
      by (metis prod_cases3)
    from feed_plain [OF Cons.prems(1) False _ r, of d] Cons.prems(2) show ?thesis
      by (simp add: g_def held_view_def)
  qed (simp add: g_def feed_nothing)
  then have "held_view (fst (feed_reads g (map (\<lambda>c. (c, d, [])) chunks)))
      = held_view (fst (feed_with_cuts (concat chunks) d [] g))"
    using Cons.prems(2) by (intro Cons.IH [OF ok]) simp
  also have "\<dots> = held_view (fst (feed_with_cuts (chunk @ concat chunks) d [] f))"
    unfolding g_def by (rule feed_twice) (use Cons.prems in simp_all)
  finally show ?case
    by (simp add: g_def split_def Let_def)
qed (simp add: feed_nothing)

text \<open>C33. Below the cap, what the filter holds back does not depend on how the output is split
  into reads: feeding the reads one after the other, where a scan resumes at the last construct of
  the held chain, holds the same run, with the same start of its open construct and the same
  awaited designator, as feeding their concatenation at once.\<close>

theorem held_run_independent_of_reads:
  assumes "length (concat chunks) \<le> SCROLLBACK_FILTER_PENDING_CAP"
  shows "held_view (fst (feed_reads wf_new (map (\<lambda>c. (c, d, [])) chunks)))
     = held_view (fst (feed_with_cuts (concat chunks) d [] wf_new))"
  by (rule feed_concat [OF wf_new_ok]) (use assms in \<open>simp add: wf_new_def\<close>)

theorem held_run_independent_of_reads_witness:
  "held_view (fst (feed_reads wf_new
       (map (\<lambda>c. (c, (80, 24), [])) [[0x61, 0x1B], [0x5D, 0x30], [0x1B], [0x50, 0x71]])))
     = held_view (fst (feed_with_cuts [0x61, 0x1B, 0x5D, 0x30, 0x1B, 0x50, 0x71] (80, 24) [] wf_new))"
  using held_run_independent_of_reads [of "[[0x61, 0x1B], [0x5D, 0x30], [0x1B], [0x50, 0x71]]" "(80, 24)"]
  by (simp add: SCROLLBACK_FILTER_PENDING_CAP_def)

end
