(* ===== verification/OutputQueue.thy ===== *)
theory OutputQueue
  imports Prelude
begin

text \<open>
  Output of a pane on its way to a client when the client's channel is full
  (\<open>src-tauri/src/mux/session/pane/output_queue.rs\<close>), the record of which output numbers a
  delivered snapshot covers (\<open>output_capture.rs\<close>), and the loop that flushes the queue
  (\<open>mux/ipc/handlers/attach.rs\<close>).

  The channel is a tokio channel: what one attempt to send finds is an input, given per attempt,
  and so are the visibility of the client and whether a sender is closed.  Senders and captures are
  named by numbers; counters are natural numbers.
\<close>

section \<open>Captured output and boundaries\<close>

record boundary_entry =
  be_sender :: nat
  be_boundary :: nat
  be_construct :: "u8 list option"
  be_generation :: nat

record output_capture =
  cap_last_captured :: nat
  cap_entries :: "boundary_entry list"
  cap_next_generation :: nat

record covered_boundary =
  cb_construct :: "u8 list option"
  cb_generation :: nat

definition output_capture_new :: output_capture where
  "output_capture_new = \<lparr>cap_last_captured = 0, cap_entries = [], cap_next_generation = 0\<rparr>"

text \<open>The number a captured chunk gets; the step itself is the caller's.\<close>

definition capture_chunk :: "output_capture \<Rightarrow> output_capture \<times> nat" where
  "capture_chunk c =
     (let c1 = c\<lparr>cap_last_captured := cap_last_captured c + 1\<rparr> in (c1, cap_last_captured c1))"

definition boundary_cover_entries :: "boundary_entry list \<Rightarrow> nat \<Rightarrow> nat \<Rightarrow> covered_boundary option" where
  "boundary_cover_entries entries sender number =
     (case find (\<lambda>e. be_sender e = sender) entries of
        None \<Rightarrow> None
      | Some e \<Rightarrow>
          if number \<le> be_boundary e
          then Some \<lparr>cb_construct = (if be_boundary e = number then be_construct e else None),
                     cb_generation = be_generation e\<rparr>
          else None)"

definition boundary_cover :: "output_capture \<Rightarrow> nat \<Rightarrow> nat \<Rightarrow> covered_boundary option" where
  "boundary_cover c sender number = boundary_cover_entries (cap_entries c) sender number"

definition is_boundary_covered :: "output_capture \<Rightarrow> nat \<Rightarrow> nat \<Rightarrow> bool" where
  "is_boundary_covered c sender number \<longleftrightarrow> boundary_cover c sender number \<noteq> None"

definition prune_closed :: "(nat \<Rightarrow> bool) \<Rightarrow> boundary_entry list \<Rightarrow> boundary_entry list" where
  "prune_closed closed entries = filter (\<lambda>e. \<not> closed (be_sender e)) entries"

fun replace_entry :: "nat \<Rightarrow> boundary_entry \<Rightarrow> boundary_entry list \<Rightarrow> boundary_entry list" where
  "replace_entry sender new [] = []"
| "replace_entry sender new (e # es) = (if be_sender e = sender then new # es else e # replace_entry sender new es)"

definition upsert_latest :: "nat \<Rightarrow> nat \<Rightarrow> u8 list option \<Rightarrow> output_capture \<Rightarrow> output_capture" where
  "upsert_latest sender boundary construct c =
     (let g = cap_next_generation c + 1;
          new = \<lparr>be_sender = sender, be_boundary = boundary, be_construct = construct, be_generation = g\<rparr> in
      case find (\<lambda>e. be_sender e = sender) (cap_entries c) of
        Some existing \<Rightarrow>
          if be_boundary existing \<le> boundary
          then c\<lparr>cap_entries := replace_entry sender new (cap_entries c), cap_next_generation := g\<rparr>
          else c
      | None \<Rightarrow> c\<lparr>cap_entries := cap_entries c @ [new], cap_next_generation := g\<rparr>)"

definition record_boundary_with_construct ::
    "(nat \<Rightarrow> bool) \<Rightarrow> nat \<Rightarrow> nat \<Rightarrow> u8 list option \<Rightarrow> output_capture \<Rightarrow> output_capture" where
  "record_boundary_with_construct closed sender boundary construct c =
     upsert_latest sender boundary construct (c\<lparr>cap_entries := prune_closed closed (cap_entries c)\<rparr>)"

definition record_boundary :: "(nat \<Rightarrow> bool) \<Rightarrow> nat \<Rightarrow> nat \<Rightarrow> output_capture \<Rightarrow> output_capture" where
  "record_boundary closed sender boundary c = record_boundary_with_construct closed sender boundary None c"

section \<open>The deferred queue\<close>

datatype chunk_kind = PtyOutputChunk | SnapshotChunk

record pty_output_chunk =
  pc_pane_id :: nat
  pc_data :: "u8 list"
  pc_kind :: chunk_kind

definition live_chunk :: "nat \<Rightarrow> u8 list \<Rightarrow> pty_output_chunk" where
  "live_chunk pane_id data = \<lparr>pc_pane_id = pane_id, pc_data = data, pc_kind = PtyOutputChunk\<rparr>"

definition snapshot_chunk :: "nat \<Rightarrow> u8 list \<Rightarrow> pty_output_chunk" where
  "snapshot_chunk pane_id data = \<lparr>pc_pane_id = pane_id, pc_data = data, pc_kind = SnapshotChunk\<rparr>"

definition MAX_DEFERRED_ITEMS :: nat where "MAX_DEFERRED_ITEMS = 8"

record deferred_boundary_commit =
  dc_output_capture :: nat
  dc_boundary :: nat
  dc_construct :: "u8 list option"

datatype deferred_output_item =
    DeferredChunk pty_output_chunk "deferred_boundary_commit option"
  | VisibilityResume nat

type_synonym deferred_output_queue = "deferred_output_item list"

definition is_chunk :: "deferred_output_item \<Rightarrow> bool" where
  "is_chunk item = (case item of DeferredChunk _ _ \<Rightarrow> True | VisibilityResume _ \<Rightarrow> False)"

definition is_chunk_of :: "nat \<Rightarrow> deferred_output_item \<Rightarrow> bool" where
  "is_chunk_of pane item = (case item of DeferredChunk c _ \<Rightarrow> pc_pane_id c = pane | VisibilityResume _ \<Rightarrow> False)"

definition is_resume_of :: "nat \<Rightarrow> deferred_output_item \<Rightarrow> bool" where
  "is_resume_of pane item = (case item of DeferredChunk _ _ \<Rightarrow> False | VisibilityResume p \<Rightarrow> p = pane)"

text \<open>The index of the first element with a property, as \<open>position\<close> of an iterator.\<close>

fun position :: "('a \<Rightarrow> bool) \<Rightarrow> 'a list \<Rightarrow> nat option" where
  "position P [] = None"
| "position P (x # xs) = (if P x then Some 0 else map_option Suc (position P xs))"

definition insert_at :: "nat \<Rightarrow> 'a \<Rightarrow> 'a list \<Rightarrow> 'a list" where
  "insert_at i x xs = take i xs @ x # drop i xs"

definition remove_at :: "nat \<Rightarrow> 'a list \<Rightarrow> 'a list" where
  "remove_at i xs = take i xs @ drop (Suc i) xs"

definition defer_chunk :: "pty_output_chunk \<Rightarrow> deferred_boundary_commit option \<Rightarrow> deferred_output_queue \<Rightarrow> deferred_output_queue" where
  "defer_chunk chunk commit items =
     (let pane = pc_pane_id chunk in
      case position (is_chunk_of pane) items of
        Some pos \<Rightarrow> items[pos := DeferredChunk chunk commit]
      | None \<Rightarrow>
          let chunk_count = length (filter is_chunk items);
              items1 = (if MAX_DEFERRED_ITEMS \<le> chunk_count
                        then (case position is_chunk items of Some oldest \<Rightarrow> remove_at oldest items | None \<Rightarrow> items)
                        else items)
          in case position (is_resume_of pane) items1 of
               Some resume_pos \<Rightarrow> insert_at resume_pos (DeferredChunk chunk commit) items1
             | None \<Rightarrow> items1 @ [DeferredChunk chunk commit])"

definition defer_visibility_resume :: "nat \<Rightarrow> deferred_output_queue \<Rightarrow> deferred_output_queue" where
  "defer_visibility_resume pane items =
     (if \<exists>item \<in> set items. is_resume_of pane item then items else items @ [VisibilityResume pane])"

definition requeue_front :: "deferred_output_item \<Rightarrow> deferred_output_queue \<Rightarrow> deferred_output_queue" where
  "requeue_front item items = item # items"

section \<open>Sending and flushing\<close>

datatype send_attempt = SendOk | SendFull | SendClosed

datatype channel_event = SentChunk pty_output_chunk | ResumeTried nat

record output_path =
  op_deferred :: deferred_output_queue
  op_captures :: "nat \<Rightarrow> output_capture"
  op_events :: "channel_event list"

definition commit_boundary ::
    "(nat \<Rightarrow> bool) \<Rightarrow> nat \<Rightarrow> deferred_boundary_commit option \<Rightarrow> (nat \<Rightarrow> output_capture) \<Rightarrow> nat \<Rightarrow> output_capture" where
  "commit_boundary closed sender commit caps =
     (case commit of
        None \<Rightarrow> caps
      | Some dc \<Rightarrow> caps(dc_output_capture dc :=
          record_boundary_with_construct closed sender (dc_boundary dc) (dc_construct dc) (caps (dc_output_capture dc))))"

definition enqueue_pane_output_chunk ::
    "(nat \<Rightarrow> bool) \<Rightarrow> nat \<Rightarrow> send_attempt \<Rightarrow> pty_output_chunk \<Rightarrow> deferred_boundary_commit option \<Rightarrow> output_path \<Rightarrow> output_path" where
  "enqueue_pane_output_chunk closed sender attempt chunk commit s =
     (case attempt of
        SendOk \<Rightarrow> s\<lparr>op_events := op_events s @ [SentChunk chunk],
                    op_captures := commit_boundary closed sender commit (op_captures s)\<rparr>
      | SendFull \<Rightarrow> s\<lparr>op_deferred := defer_chunk chunk commit (op_deferred s)\<rparr>
      | SendClosed \<Rightarrow> s)"

text \<open>One round of the loop per item; attempt and visibility are what round \<open>k\<close> finds.\<close>

fun flush_loop :: "(nat \<Rightarrow> bool) \<Rightarrow> nat \<Rightarrow> (nat \<Rightarrow> send_attempt) \<Rightarrow> (nat \<Rightarrow> bool) \<Rightarrow> nat \<Rightarrow>
    deferred_output_queue \<Rightarrow> output_path \<Rightarrow> output_path" where
  "flush_loop closed sender attempt visible k [] s = s\<lparr>op_deferred := []\<rparr>"
| "flush_loop closed sender attempt visible k (item # items) s =
     (case item of
        DeferredChunk chunk commit \<Rightarrow>
          (case attempt k of
             SendOk \<Rightarrow> flush_loop closed sender attempt visible (k + 1) items
               (s\<lparr>op_events := op_events s @ [SentChunk chunk],
                  op_captures := commit_boundary closed sender commit (op_captures s)\<rparr>)
           | SendFull \<Rightarrow> s\<lparr>op_deferred := requeue_front (DeferredChunk chunk commit) items\<rparr>
           | SendClosed \<Rightarrow> s\<lparr>op_deferred := []\<rparr>)
      | VisibilityResume pane \<Rightarrow>
          if \<not> visible k then flush_loop closed sender attempt visible (k + 1) items s
          else (case attempt k of
                  SendOk \<Rightarrow> flush_loop closed sender attempt visible (k + 1) items
                    (s\<lparr>op_events := op_events s @ [ResumeTried pane]\<rparr>)
                | SendFull \<Rightarrow> s\<lparr>op_deferred := requeue_front (VisibilityResume pane) items\<rparr>
                | SendClosed \<Rightarrow> s\<lparr>op_deferred := []\<rparr>))"

definition flush_deferred_output ::
    "(nat \<Rightarrow> bool) \<Rightarrow> nat \<Rightarrow> (nat \<Rightarrow> send_attempt) \<Rightarrow> (nat \<Rightarrow> bool) \<Rightarrow> output_path \<Rightarrow> output_path" where
  "flush_deferred_output closed sender attempt visible s =
     flush_loop closed sender attempt visible 0 (op_deferred s) s"

section \<open>Histories of a connection\<close>

text \<open>What a connection does with its queue; the channel's answers are part of the operation.\<close>

datatype path_op =
    Enqueue send_attempt pty_output_chunk "deferred_boundary_commit option"
  | DeferResume nat
  | Flush "nat \<Rightarrow> send_attempt" "nat \<Rightarrow> bool"

primrec path_step :: "(nat \<Rightarrow> bool) \<Rightarrow> nat \<Rightarrow> path_op \<Rightarrow> output_path \<Rightarrow> output_path" where
  "path_step closed sender (Enqueue attempt chunk commit) s = enqueue_pane_output_chunk closed sender attempt chunk commit s"
| "path_step closed sender (DeferResume pane) s = s\<lparr>op_deferred := defer_visibility_resume pane (op_deferred s)\<rparr>"
| "path_step closed sender (Flush attempt visible) s = flush_deferred_output closed sender attempt visible s"

definition output_path_new :: output_path where
  "output_path_new = \<lparr>op_deferred = [], op_captures = (\<lambda>_. output_capture_new), op_events = []\<rparr>"

definition path_run :: "(nat \<Rightarrow> bool) \<Rightarrow> nat \<Rightarrow> path_op list \<Rightarrow> output_path" where
  "path_run closed sender ops = fold (path_step closed sender) ops output_path_new"

end
