(* ===== verification/OutputQueueFacts.thy ===== *)
theory OutputQueueFacts
  imports OutputQueue
begin

text \<open>
  The deferred queue stays small, keeps at most one chunk and one resume per pane and always the
  newest chunk, a chunk before the resume of its pane; a flush serves a prefix in order and commits
  exactly the boundaries of what it sent; the boundary record is the largest boundary recorded.
\<close>

section \<open>Positions\<close>

lemma position_None: "position P xs = None \<longleftrightarrow> (\<forall>x \<in> set xs. \<not> P x)"
  by (induction xs) auto

lemma position_SomeE:
  assumes "position P xs = Some i"
  obtains us x vs where "xs = us @ x # vs" "P x" "\<forall>u \<in> set us. \<not> P u" "i = length us"
proof -
  have "\<exists>us x vs. xs = us @ x # vs \<and> P x \<and> (\<forall>u \<in> set us. \<not> P u) \<and> i = length us"
    using assms
  proof (induction xs arbitrary: i)
    case (Cons y ys)
    show ?case
    proof (cases "P y")
      case True
      with Cons.prems show ?thesis by (intro exI [of _ "[]"]) auto
    next
      case False
      with Cons.prems obtain j where "position P ys = Some j" "i = Suc j" by auto
      with Cons.IH [of j] False obtain us x vs where
          "ys = us @ x # vs" "P x" "\<forall>u \<in> set us. \<not> P u" "j = length us" by auto
      with False \<open>i = Suc j\<close> show ?thesis by (intro exI [of _ "y # us"]) auto
    qed
  qed simp
  then show ?thesis using that by blast
qed

lemma at_position:
  "(us @ x # vs)[length us := y] = us @ y # vs" "insert_at (length us) y (us @ x # vs) = us @ y # x # vs"
  "remove_at (length us) (us @ x # vs) = us @ vs"
  by (simp_all add: insert_at_def remove_at_def)

section \<open>The shape of the queue\<close>

definition item_key :: "deferred_output_item \<Rightarrow> bool \<times> nat" where
  "item_key item = (case item of DeferredChunk c _ \<Rightarrow> (True, pc_pane_id c) | VisibilityResume p \<Rightarrow> (False, p))"

definition queue_ok :: "deferred_output_queue \<Rightarrow> bool" where
  "queue_ok items \<longleftrightarrow>
     distinct (map item_key items) \<and> length (filter is_chunk items) \<le> MAX_DEFERRED_ITEMS
     \<and> sorted_wrt (\<lambda>a b. \<not> (\<exists>pane. is_resume_of pane a \<and> is_chunk_of pane b)) items"

lemma item_kinds:
  "is_chunk item \<longleftrightarrow> (\<exists>pane. item_key item = (True, pane))"
  "is_chunk_of pane item \<longleftrightarrow> item_key item = (True, pane)"
  "is_resume_of pane item \<longleftrightarrow> item_key item = (False, pane)"
  "item_key (DeferredChunk chunk commit) = (True, pc_pane_id chunk)" "item_key (VisibilityResume p) = (False, p)"
  by (cases item; simp add: is_chunk_def is_chunk_of_def is_resume_of_def item_key_def)+

definition before_ok :: "deferred_output_item \<Rightarrow> deferred_output_item \<Rightarrow> bool" where
  "before_ok a b \<longleftrightarrow> \<not> (\<exists>pane. item_key a = (False, pane) \<and> item_key b = (True, pane))"

lemma queue_ok_keys:
  "queue_ok items \<longleftrightarrow>
     distinct (map item_key items) \<and> length (filter is_chunk items) \<le> MAX_DEFERRED_ITEMS \<and> sorted_wrt before_ok items"
  unfolding queue_ok_def before_ok_def item_kinds(2,3) by (rule refl)

lemma queue_ok_remove: "queue_ok (us @ x # vs) \<Longrightarrow> queue_ok (us @ vs)"
  by (auto simp: queue_ok_keys sorted_wrt_append split: if_splits)

lemma queue_ok_replace:
  "queue_ok (us @ x # vs) \<Longrightarrow> item_key y = item_key x \<Longrightarrow> queue_ok (us @ y # vs)"
  by (auto simp: queue_ok_keys sorted_wrt_append before_ok_def item_kinds(1) split: if_splits)

lemma queue_ok_insert_chunk:
  assumes "queue_ok (us @ vs)" "(True, pc_pane_id chunk) \<notin> set (map item_key (us @ vs))"
    and "length (filter is_chunk (us @ vs)) < MAX_DEFERRED_ITEMS" "(False, pc_pane_id chunk) \<notin> set (map item_key us)"
  shows "queue_ok (us @ DeferredChunk chunk commit # vs)"
  using assms by (auto simp: queue_ok_keys sorted_wrt_append before_ok_def item_kinds rev_image_eqI)

lemma defer_chunk_ok:
  assumes "queue_ok items"
  shows "queue_ok (defer_chunk chunk commit items)"
proof (cases "position (is_chunk_of (pc_pane_id chunk)) items")
  case (Some pos)
  then obtain us x vs where "items = us @ x # vs" "is_chunk_of (pc_pane_id chunk) x" "pos = length us"
    by (elim position_SomeE) auto
  with Some assms queue_ok_replace [of us x vs "DeferredChunk chunk commit"] show ?thesis
    by (simp add: defer_chunk_def at_position item_kinds)
next
  case None
  let ?new = "DeferredChunk chunk commit"
  define items1 where "items1 = (if MAX_DEFERRED_ITEMS \<le> length (filter is_chunk items)
      then (case position is_chunk items of Some oldest \<Rightarrow> remove_at oldest items | None \<Rightarrow> items) else items)"
  have items1: "queue_ok items1 \<and> set items1 \<subseteq> set items \<and> length (filter is_chunk items1) < MAX_DEFERRED_ITEMS"
  proof (cases "MAX_DEFERRED_ITEMS \<le> length (filter is_chunk items)")
    case True
    then have "filter is_chunk items \<noteq> []"
      by (auto simp: MAX_DEFERRED_ITEMS_def)
    then have "position is_chunk items \<noteq> None"
      by (auto simp: position_None filter_empty_conv)
    then obtain oldest where "position is_chunk items = Some oldest" by auto
    moreover from this obtain us x vs where "items = us @ x # vs" "is_chunk x" "oldest = length us"
      by (elim position_SomeE) auto
    ultimately show ?thesis
      using True assms queue_ok_remove [of us x vs] by (auto simp: items1_def at_position queue_ok_keys)
  qed (use assms in \<open>simp add: items1_def\<close>)
  have fresh: "(True, pc_pane_id chunk) \<notin> set (map item_key items1)"
    using None items1 by (auto simp: position_None item_kinds)
  show ?thesis
  proof (cases "position (is_resume_of (pc_pane_id chunk)) items1")
    case None2: None
    then have "(False, pc_pane_id chunk) \<notin> set (map item_key items1)"
      by (auto simp: position_None item_kinds)
    with None None2 items1 fresh queue_ok_insert_chunk [of items1 "[]" chunk commit] show ?thesis
      by (simp add: defer_chunk_def items1_def [symmetric])
  next
    case (Some pos)
    then obtain us x vs where parts: "items1 = us @ x # vs" "pos = length us"
        "\<forall>u \<in> set us. \<not> is_resume_of (pc_pane_id chunk) u"
      by (elim position_SomeE) auto
    have "queue_ok (us @ ?new # x # vs)"
      by (rule queue_ok_insert_chunk) (use items1 fresh parts in \<open>auto simp: item_kinds\<close>)
    with None Some parts show ?thesis
      by (simp add: defer_chunk_def items1_def [symmetric] at_position)
  qed
qed

lemma defer_resume_ok:
  assumes "queue_ok items"
  shows "queue_ok (defer_visibility_resume pane items)"
proof (cases "\<exists>item \<in> set items. is_resume_of pane item")
  case False
  then have "(False, pane) \<notin> set (map item_key items)"
    by (auto simp: item_kinds)
  with assms False show ?thesis
    by (auto simp: defer_visibility_resume_def queue_ok_keys sorted_wrt_append before_ok_def item_kinds is_chunk_def)
qed (use assms in \<open>simp add: defer_visibility_resume_def\<close>)

section \<open>A flush\<close>

text \<open>What serving an item does: nothing for a resume that is no longer visible.\<close>

definition item_events :: "bool \<Rightarrow> deferred_output_item \<Rightarrow> channel_event list" where
  "item_events visible item =
     (case item of
        DeferredChunk chunk _ \<Rightarrow> [SentChunk chunk]
      | VisibilityResume pane \<Rightarrow> if visible then [ResumeTried pane] else [])"

definition item_commit :: "(nat \<Rightarrow> bool) \<Rightarrow> nat \<Rightarrow> deferred_output_item \<Rightarrow> (nat \<Rightarrow> output_capture) \<Rightarrow> nat \<Rightarrow> output_capture" where
  "item_commit closed sender item =
     (case item of DeferredChunk _ commit \<Rightarrow> commit_boundary closed sender commit | VisibilityResume _ \<Rightarrow> id)"

fun served_events :: "(nat \<Rightarrow> bool) \<Rightarrow> nat \<Rightarrow> deferred_output_queue \<Rightarrow> channel_event list" where
  "served_events visible k [] = []"
| "served_events visible k (item # items) = item_events (visible k) item @ served_events visible (k + 1) items"

text \<open>\<open>s'\<close> is \<open>s\<close> after the first \<open>n\<close> items were served, in order, with the
  boundaries of the chunks among them; the rest waits for room, or is dropped with the channel.\<close>

definition served :: "(nat \<Rightarrow> bool) \<Rightarrow> nat \<Rightarrow> (nat \<Rightarrow> send_attempt) \<Rightarrow> (nat \<Rightarrow> bool) \<Rightarrow> nat \<Rightarrow> deferred_output_queue
    \<Rightarrow> output_path \<Rightarrow> output_path \<Rightarrow> nat \<Rightarrow> bool" where
  "served closed sender attempt visible k items s s' n \<longleftrightarrow>
     n \<le> length items
     \<and> op_events s' = op_events s @ served_events visible k (take n items)
     \<and> op_captures s' = fold (item_commit closed sender) (take n items) (op_captures s)
     \<and> (op_deferred s' = drop n items \<and> (n < length items \<longrightarrow> attempt (k + n) = SendFull)
        \<or> op_deferred s' = [] \<and> n < length items \<and> attempt (k + n) = SendClosed)"

lemma served_more:
  assumes "served closed sender attempt visible (k + 1) items s1 s' n"
    and "op_events s1 = op_events s @ item_events (visible k) item"
    and "op_captures s1 = item_commit closed sender item (op_captures s)"
  shows "served closed sender attempt visible k (item # items) s s' (Suc n)"
  using assms by (simp add: served_def)

lemma served_none:
  assumes "op_events s' = op_events s" "op_captures s' = op_captures s"
    and "op_deferred s' = item # items \<and> attempt k = SendFull \<or> op_deferred s' = [] \<and> attempt k = SendClosed"
  shows "served closed sender attempt visible k (item # items) s s' 0"
  using assms by (auto simp: served_def)

lemma flush_loop_served:
  "\<exists>n. served closed sender attempt visible k items s (flush_loop closed sender attempt visible k items s) n"
proof (induction closed sender attempt visible k items s rule: flush_loop.induct)
  case (1 closed sender attempt visible k s)
  show ?case by (auto simp: served_def)
next
  case (2 closed sender attempt visible k item items s)
  show ?case
  proof (cases item)
    case (DeferredChunk chunk commit)
    show ?thesis
    proof (cases "attempt k")
      case SendOk
      from "2.IH"(1) [OF DeferredChunk SendOk] obtain n where "served closed sender attempt visible (k + 1) items
          (s\<lparr>op_events := op_events s @ [SentChunk chunk],
             op_captures := commit_boundary closed sender commit (op_captures s)\<rparr>)
          (flush_loop closed sender attempt visible k (item # items) s) n"
        using DeferredChunk SendOk by auto
      from served_more [OF this, of s item] DeferredChunk show ?thesis
        by (auto simp: item_events_def item_commit_def)
    qed (auto intro!: exI [of _ 0] served_none simp: DeferredChunk requeue_front_def)
  next
    case (VisibilityResume pane)
    consider "\<not> visible k" | "visible k" "attempt k = SendOk" | "visible k" "attempt k \<noteq> SendOk"
      by blast
    then show ?thesis
    proof cases
      case 1
      from "2.IH"(2) [OF VisibilityResume 1] obtain n where "served closed sender attempt visible (k + 1) items s
          (flush_loop closed sender attempt visible k (item # items) s) n"
        using VisibilityResume 1 by auto
      from served_more [OF this, of s item] VisibilityResume 1 show ?thesis
        by (auto simp: item_events_def item_commit_def)
    next
      case 2
      from "2.IH"(3) [OF VisibilityResume _ 2(2)] obtain n where "served closed sender attempt visible (k + 1) items
          (s\<lparr>op_events := op_events s @ [ResumeTried pane]\<rparr>)
          (flush_loop closed sender attempt visible k (item # items) s) n"
        using VisibilityResume 2 by auto
      from served_more [OF this, of s item] VisibilityResume 2 show ?thesis
        by (auto simp: item_events_def item_commit_def)
    next
      case 3
      then show ?thesis
        by (cases "attempt k") (auto intro!: exI [of _ 0] served_none simp: VisibilityResume requeue_front_def)
    qed
  qed
qed


section \<open>Histories\<close>

lemma queue_ok_drop: "queue_ok items \<Longrightarrow> queue_ok (drop n items)"
proof -
  assume ok: "queue_ok items"
  have "length (filter is_chunk (drop n items)) \<le> length (filter is_chunk items)"
    by (metis append_take_drop_id filter_append le_add2 length_append)
  with ok show ?thesis
    by (auto simp: queue_ok_keys drop_map [symmetric] sorted_wrt_drop)
qed

lemma path_step_ok: "queue_ok (op_deferred s) \<Longrightarrow> queue_ok (op_deferred (path_step closed sender op s))"
proof (induction op)
  case (Flush attempt visible)
  obtain n where "served closed sender attempt visible 0 (op_deferred s) s
      (flush_deferred_output closed sender attempt visible s) n"
    using flush_loop_served unfolding flush_deferred_output_def by blast
  then have "op_deferred (flush_deferred_output closed sender attempt visible s) = drop n (op_deferred s)
      \<or> op_deferred (flush_deferred_output closed sender attempt visible s) = []"
    by (auto simp: served_def)
  with Flush show ?case
    using queue_ok_drop [of "op_deferred s"] by (auto simp: queue_ok_def)
qed (auto simp: enqueue_pane_output_chunk_def defer_chunk_ok defer_resume_ok split: send_attempt.split)

lemma path_run_ok: "queue_ok (op_deferred (path_run closed sender ops))"
proof -
  have "queue_ok (op_deferred s) \<Longrightarrow> queue_ok (op_deferred (fold (path_step closed sender) ops s))" for s
    by (induction ops arbitrary: s) (simp_all add: path_step_ok)
  then show ?thesis
    by (simp add: path_run_def output_path_new_def queue_ok_def)
qed

text \<open>C35. Whatever a connection sends, defers, resumes and flushes, and whatever its channel
  answers, its queue holds at most \<open>MAX_DEFERRED_ITEMS\<close> chunks, at most one chunk and one
  resume for each pane, and never a resume before a chunk of the same pane.\<close>

theorem deferred_queue_shape:
  "let items = op_deferred (path_run closed sender ops) in
     length (filter is_chunk items) \<le> MAX_DEFERRED_ITEMS
     \<and> (\<forall>pane. length (filter (is_chunk_of pane) items) \<le> 1 \<and> length (filter (is_resume_of pane) items) \<le> 1)
     \<and> \<not> (\<exists>i j pane. i < j \<and> j < length items \<and> is_resume_of pane (items ! i) \<and> is_chunk_of pane (items ! j))"
proof -
  let ?items = "op_deferred (path_run closed sender ops)"
  have ok: "queue_ok ?items"
    by (rule path_run_ok)
  have one: "length (filter (\<lambda>item. item_key item = key) items) \<le> 1" if "distinct (map item_key items)" for key items
    using that by (induction items) (auto simp: filter_empty_conv rev_image_eqI)
  have "length (filter (is_chunk_of pane) ?items) \<le> 1" "length (filter (is_resume_of pane) ?items) \<le> 1" for pane
    using ok one [of ?items "(True, pane)"] one [of ?items "(False, pane)"]
    by (simp_all add: queue_ok_keys item_kinds(2,3) [abs_def])
  with ok show ?thesis
    by (auto simp: queue_ok_def Let_def sorted_wrt_iff_nth_less)
qed

section \<open>The newest chunk wins\<close>

lemma path_run_snoc: "path_run closed sender (ops @ [op]) = path_step closed sender op (path_run closed sender ops)"
  by (simp add: path_run_def)

lemma filter_none: "\<forall>x \<in> set xs. \<not> P x \<Longrightarrow> filter P xs = []" "\<forall>x \<in> set xs. \<not> P x \<Longrightarrow> filter (\<lambda>x. \<not> P x) xs = xs"
  by (simp_all add: filter_empty_conv filter_id_conv)

definition without_chunk_of :: "nat \<Rightarrow> deferred_output_queue \<Rightarrow> deferred_output_queue" where
  "without_chunk_of pane items = filter (\<lambda>item. \<not> is_chunk_of pane item) items"

lemma defer_chunk_newest:
  assumes "queue_ok items"
  shows "filter (is_chunk_of (pc_pane_id chunk)) (defer_chunk chunk commit items) = [DeferredChunk chunk commit]"
    and "without_chunk_of (pc_pane_id chunk) (defer_chunk chunk commit items) = without_chunk_of (pc_pane_id chunk) items
      \<or> MAX_DEFERRED_ITEMS \<le> length (filter is_chunk items)
        \<and> without_chunk_of (pc_pane_id chunk) (defer_chunk chunk commit items) = remove1 (hd (filter is_chunk items)) (without_chunk_of (pc_pane_id chunk) items)"
proof -
  let ?pane = "pc_pane_id chunk" and ?new = "DeferredChunk chunk commit"
  have new: "is_chunk_of ?pane ?new" by (simp add: is_chunk_of_def)
  have "filter (is_chunk_of ?pane) (defer_chunk chunk commit items) = [?new]
      \<and> (without_chunk_of (pc_pane_id chunk) (defer_chunk chunk commit items) = without_chunk_of (pc_pane_id chunk) items
      \<or> MAX_DEFERRED_ITEMS \<le> length (filter is_chunk items)
        \<and> without_chunk_of (pc_pane_id chunk) (defer_chunk chunk commit items) = remove1 (hd (filter is_chunk items)) (without_chunk_of (pc_pane_id chunk) items))"
  proof (cases "position (is_chunk_of ?pane) items")
    case (Some pos)
    then obtain us x vs where parts: "items = us @ x # vs" "is_chunk_of ?pane x" "pos = length us"
        "\<forall>u \<in> set us. \<not> is_chunk_of ?pane u"
      by (elim position_SomeE) auto
    have "\<forall>v \<in> set vs. \<not> is_chunk_of ?pane v"
      using assms(1) parts(1,2) by (auto simp: queue_ok_keys item_kinds rev_image_eqI)
    with Some parts new show ?thesis
      by (simp add: defer_chunk_def at_position without_chunk_of_def filter_none)
  next
    case None
    define items1 where "items1 = (if MAX_DEFERRED_ITEMS \<le> length (filter is_chunk items)
        then (case position is_chunk items of Some oldest \<Rightarrow> remove_at oldest items | None \<Rightarrow> items) else items)"
    have none: "\<forall>item \<in> set items. \<not> is_chunk_of ?pane item"
      using None by (simp add: position_None)
    have items1: "set items1 \<subseteq> set items \<and> (items1 = items
        \<or> MAX_DEFERRED_ITEMS \<le> length (filter is_chunk items) \<and> items1 = remove1 (hd (filter is_chunk items)) items)"
    proof (cases "position is_chunk items")
      case (Some oldest)
      then obtain us x vs where "items = us @ x # vs" "is_chunk x" "oldest = length us" "\<forall>u \<in> set us. \<not> is_chunk u"
        by (elim position_SomeE) auto
      with Some show ?thesis
        by (auto simp: items1_def at_position remove1_append filter_none(1))
    qed (simp add: items1_def)
    have placed: "\<exists>us vs. defer_chunk chunk commit items = us @ ?new # vs \<and> items1 = us @ vs"
    proof (cases "position (is_resume_of ?pane) items1")
      case None2: None
      with None show ?thesis
        by (auto simp: defer_chunk_def items1_def [symmetric] intro: exI [of _ items1] exI [of _ "[]"])
    next
      case (Some pos)
      then obtain us x vs where "items1 = us @ x # vs" "pos = length us"
        by (elim position_SomeE) auto
      with None Some show ?thesis
        by (intro exI [of _ us] exI [of _ "x # vs"]) (simp add: defer_chunk_def items1_def [symmetric] at_position)
    qed
    then obtain us vs where placed: "defer_chunk chunk commit items = us @ ?new # vs" "items1 = us @ vs"
      by blast
    have rest: "\<forall>u \<in> set (us @ vs). \<not> is_chunk_of ?pane u"
      using items1 placed(2) none by auto
    have "without_chunk_of (pc_pane_id chunk) items = items"
      unfolding without_chunk_of_def using none by (rule filter_none(2))
    with items1 rest placed new show ?thesis
      by (auto simp: without_chunk_of_def filter_none)
  qed
  then show "filter (is_chunk_of ?pane) (defer_chunk chunk commit items) = [?new]"
    "without_chunk_of (pc_pane_id chunk) (defer_chunk chunk commit items) = without_chunk_of (pc_pane_id chunk) items
      \<or> MAX_DEFERRED_ITEMS \<le> length (filter is_chunk items)
        \<and> without_chunk_of (pc_pane_id chunk) (defer_chunk chunk commit items) = remove1 (hd (filter is_chunk items)) (without_chunk_of (pc_pane_id chunk) items)"
    by simp_all
qed

text \<open>C36. When a chunk finds the channel full, afterwards the queue holds it as the only chunk of
  its pane, with the boundary it carries, whatever was queued for the pane before; the items of the
  other panes keep their order, and none is lost unless the cap is reached, when the oldest queued
  chunk is dropped.\<close>

theorem newest_chunk_wins:
  "let items = op_deferred (path_run closed sender ops);
       items' = op_deferred (path_run closed sender (ops @ [Enqueue SendFull chunk commit]));
       others = without_chunk_of (pc_pane_id chunk) in
     filter (is_chunk_of (pc_pane_id chunk)) items' = [DeferredChunk chunk commit]
     \<and> (others items' = others items
        \<or> MAX_DEFERRED_ITEMS \<le> length (filter is_chunk items)
          \<and> others items' = remove1 (hd (filter is_chunk items)) (others items))"
  using defer_chunk_newest [OF path_run_ok]
  by (simp add: path_run_snoc enqueue_pane_output_chunk_def Let_def)

section \<open>The boundary record\<close>

type_synonym boundary_record = "(nat \<Rightarrow> bool) \<times> nat \<times> nat \<times> u8 list option"

definition record_all :: "boundary_record list \<Rightarrow> output_capture" where
  "record_all recs =
     fold (\<lambda>(closed, sender, boundary, construct). record_boundary_with_construct closed sender boundary construct)
       recs output_capture_new"

text \<open>The largest boundary recorded for a sender, with the construct of its last record.\<close>

definition largest_record :: "nat \<Rightarrow> boundary_record list \<Rightarrow> (nat \<times> u8 list option) option" where
  "largest_record sender recs =
     (let mine = map (\<lambda>(_, _, record). record) (filter (\<lambda>(_, s, _). s = sender) recs);
          m = Max (set (map fst mine)) in
      if mine = [] then None else Some (m, snd (last (filter (\<lambda>record. fst record = m) mine))))"

definition entry_view :: "nat \<Rightarrow> output_capture \<Rightarrow> (nat \<times> u8 list option) option" where
  "entry_view sender c =
     map_option (\<lambda>e. (be_boundary e, be_construct e)) (find (\<lambda>e. be_sender e = sender) (cap_entries c))"

lemma find_filter_keep: "(\<And>x. P x \<Longrightarrow> Q x) \<Longrightarrow> find P (filter Q xs) = find P xs"
  by (induction xs) auto

lemma find_append: "find P (xs @ ys) = (case find P xs of Some x \<Rightarrow> Some x | None \<Rightarrow> find P ys)"
  by (induction xs) auto

lemma find_replace_entry:
  "be_sender new = s \<Longrightarrow> find (\<lambda>e. be_sender e = sender) (replace_entry s new es) =
     (if s = sender then map_option (\<lambda>_. new) (find (\<lambda>e. be_sender e = sender) es)
      else find (\<lambda>e. be_sender e = sender) es)"
  by (induction es) auto

lemma entry_view_prune:
  "\<not> closed sender \<Longrightarrow> entry_view sender (c\<lparr>cap_entries := prune_closed closed (cap_entries c)\<rparr>) = entry_view sender c"
  using find_filter_keep [of "\<lambda>e. be_sender e = sender" "\<lambda>e. \<not> closed (be_sender e)" "cap_entries c"]
  by (auto simp: entry_view_def prune_closed_def)

lemma entry_view_upsert:
  "entry_view sender (upsert_latest s boundary construct c) =
     (if s = sender then
        (case entry_view sender c of
           Some (m, k) \<Rightarrow> if m \<le> boundary then Some (boundary, construct) else Some (m, k)
         | None \<Rightarrow> Some (boundary, construct))
      else entry_view sender c)"
  by (auto simp: upsert_latest_def entry_view_def Let_def find_append find_replace_entry split: option.split)

lemma largest_record_snoc:
  "largest_record sender (recs @ [(closed, s, boundary, construct)]) =
     (if s = sender then
        (case largest_record sender recs of
           Some (m, k) \<Rightarrow> if m \<le> boundary then Some (boundary, construct) else Some (m, k)
         | None \<Rightarrow> Some (boundary, construct))
      else largest_record sender recs)"
proof (cases "s = sender")
  case True
  define mine where "mine = map (\<lambda>(_, _, record). record) (filter (\<lambda>(_, s, _). s = sender) recs)"
  show ?thesis
  proof (cases "mine = []")
    case True
    with \<open>s = sender\<close> show ?thesis
      by (simp add: largest_record_def mine_def [symmetric] Let_def)
  next
    case False
    define m where "m = Max (set (map fst mine))"
    have "Max (set (map fst (mine @ [(boundary, construct)]))) = max boundary m"
      using False by (simp add: m_def)
    moreover have "largest_record sender recs = Some (m, snd (last (filter (\<lambda>record. fst record = m) mine)))"
      using False by (simp add: largest_record_def mine_def [symmetric] Let_def m_def del: set_map)
    moreover have "largest_record sender (recs @ [(closed, s, boundary, construct)]) =
        (let k = Max (set (map fst (mine @ [(boundary, construct)]))) in
         Some (k, snd (last (filter (\<lambda>record. fst record = k) (mine @ [(boundary, construct)])))))"
      using \<open>s = sender\<close> by (simp add: largest_record_def mine_def [symmetric] Let_def del: set_map)
    ultimately show ?thesis
      using \<open>s = sender\<close> by (cases "m \<le> boundary") (simp_all add: max_def)
  qed
qed (simp add: largest_record_def)

lemma entry_view_record_all:
  "\<forall>r \<in> set recs. \<not> fst r sender \<Longrightarrow> entry_view sender (record_all recs) = largest_record sender recs"
proof (induction recs rule: rev_induct)
  case Nil
  show ?case
    by (simp add: record_all_def entry_view_def output_capture_new_def largest_record_def)
next
  case (snoc r recs)
  obtain closed s boundary construct where r: "r = (closed, s, boundary, construct)"
    by (metis prod_cases4)
  have "record_all (recs @ [r]) = record_boundary_with_construct closed s boundary construct (record_all recs)"
    by (simp add: record_all_def r)
  with snoc r show ?case
    by (simp add: record_boundary_with_construct_def entry_view_upsert entry_view_prune largest_record_snoc)
qed

lemma boundary_cover_view:
  "map_option cb_construct (boundary_cover c sender number) =
     (case entry_view sender c of
        Some (m, k) \<Rightarrow> if number \<le> m then Some (if number = m then k else None) else None
      | None \<Rightarrow> None)"
  by (auto simp: boundary_cover_def boundary_cover_entries_def entry_view_def split: option.split)

text \<open>C37. For a sender that stays open, an output number is covered exactly when it is at most the
  largest boundary ever recorded for that sender, in whatever order boundaries of this and other
  senders are recorded and closed senders pruned; and the construct reported with it is that of
  the last record of the largest boundary, for that number alone.\<close>

theorem boundary_is_largest_recorded:
  assumes "\<forall>r \<in> set recs. \<not> fst r sender"
  shows "map_option cb_construct (boundary_cover (record_all recs) sender number) =
     (case largest_record sender recs of
        Some (m, k) \<Rightarrow> if number \<le> m then Some (if number = m then k else None) else None
      | None \<Rightarrow> None)"
  using entry_view_record_all [OF assms] by (simp add: boundary_cover_view)

theorem boundary_is_largest_recorded_witness:
  "map_option cb_construct (boundary_cover (record_all
       [((\<lambda>s. s = 2), 1, 7, Some [0x1B]), ((\<lambda>s. s = 2), 2, 9, None), ((\<lambda>s. False), 1, 5, None)]) 1 7) = Some (Some [0x1B])"
  using boundary_is_largest_recorded [where recs = "[((\<lambda>s. s = 2), 1, 7, Some [0x1B]), ((\<lambda>s. s = 2), 2, 9, None), ((\<lambda>s. False), 1, 5, None)]"
      and sender = 1 and number = 7]
  by (simp add: largest_record_def)

end
