(* ===== verification/ClientParityScan.thy ===== *)
theory ClientParityScan
  imports ScrollbackFilter Theme
begin

text \<open>
  What the daemon reads out of the output a client does not get to see
  (\<open>src-tauri/src/mux/ipc/pty_spawn/client_parity_scan.rs\<close>): the queries the client would
  have answered and the viewers it would have opened, found by walking the chunk the way the
  client's parser walks it, from a position derived from the last bytes before the chunk.

  A view is walked as the rest of the list at the current position; ranges are pairs of a start
  and an end.
\<close>

definition RETAINED_WINDOW_BYTES :: nat where "RETAINED_WINDOW_BYTES = 256"

datatype scan_item_kind = CsiQuery | ColorQuery | ViewerLaunchItem | ProgramStatusQuery

record scan_item =
  si_kind :: scan_item_kind
  si_start :: nat
  si_end :: nat

record scan_outcome =
  so_combined :: "u8 list"
  so_boundary :: nat
  so_items :: "scan_item list"
  so_tail :: "(nat \<times> nat) option"
  so_tail_strip_c0 :: bool

record scan_reading =
  rd_items :: "scan_item list"
  rd_walk_tail_start :: "nat option"
  rd_walk_tail_strip_c0 :: bool

section \<open>Where the walk may start\<close>

definition introduces_charset :: "u8 \<Rightarrow> bool" where
  "introduces_charset b \<longleftrightarrow> b = 0x28 \<or> b = 0x29"

definition esc_may_be_designator_byte :: "u8 list \<Rightarrow> nat \<Rightarrow> bool" where
  "esc_may_be_designator_byte window esc_pos =
     (case esc_pos of
        0 \<Rightarrow> True
      | Suc intro_pos \<Rightarrow>
          if \<not> (intro_pos < length window \<and> introduces_charset (window ! intro_pos)) then False
          else case intro_pos of
              0 \<Rightarrow> True
            | Suc before_intro \<Rightarrow> before_intro < length window \<and> window ! before_intro = 0x1B)"

definition utf8_expected_len :: "u8 \<Rightarrow> nat option" where
  "utf8_expected_len b =
     (if in_range 0xC2 0xDF b then Some 2
      else if in_range 0xE0 0xEF b then Some 3
      else if in_range 0xF0 0xF4 b then Some 4 else None)"

definition utf8_tail_start_at_end :: "u8 list \<Rightarrow> nat option" where
  "utf8_tail_start_at_end view =
     map_option (\<lambda>back. length view - back)
       (find (\<lambda>back. let start = length view - back in
                (case utf8_expected_len (view ! start) of
                   None \<Rightarrow> False
                 | Some n \<Rightarrow> back < n \<and> list_all (in_range 0x80 0xBF) (drop (start + 1) view)))
          [1..<Suc (min 4 (length view))])"

definition derive_prefix_start :: "u8 list \<Rightarrow> nat" where
  "derive_prefix_start window =
     (if length window < RETAINED_WINDOW_BYTES then 0
      else case find (\<lambda>i. window ! i = 0x1B \<and> \<not> esc_may_be_designator_byte window i) [0..<length window] of
          Some i \<Rightarrow> i
        | None \<Rightarrow> (case utf8_tail_start_at_end window of Some i \<Rightarrow> i | None \<Rightarrow> length window))"

definition first_chunk_byte_may_be_designator :: "u8 list \<Rightarrow> nat \<Rightarrow> bool" where
  "first_chunk_byte_may_be_designator window start =
     (if length window < RETAINED_WINDOW_BYTES \<or> start \<noteq> length window then False
      else if window = [] \<or> \<not> introduces_charset (last window) then False
      else if length window < 2 then True
      else window ! (length window - 2) = 0x1B)"

section \<open>Ends of strings and control sequences\<close>

text \<open>Indices are relative to the first byte after the introducer.\<close>

datatype terminator_scan = StringComplete nat nat | StringAborted nat | StringUnterminated

fun scan_osc_terminator :: "nat \<Rightarrow> u8 list \<Rightarrow> terminator_scan" where
  "scan_osc_terminator j [] = StringUnterminated"
| "scan_osc_terminator j (b # bs) =
     (if b = 0x07 then StringComplete j (j + 1)
      else if b = 0x1B then
        (case bs of
           [] \<Rightarrow> StringUnterminated
         | c # _ \<Rightarrow> if c = 0x5C then StringComplete j (j + 2) else StringAborted j)
      else scan_osc_terminator (j + 1) bs)"

fun scan_st_terminator :: "nat \<Rightarrow> u8 list \<Rightarrow> terminator_scan" where
  "scan_st_terminator j [] = StringUnterminated"
| "scan_st_terminator j (b # bs) =
     (if b = 0x1B then
        (case bs of
           [] \<Rightarrow> StringUnterminated
         | c # _ \<Rightarrow> if c = 0x5C then StringComplete j (j + 2) else StringAborted j)
      else scan_st_terminator (j + 1) bs)"

fun is_unterminated_csi_tail :: "u8 list \<Rightarrow> bool" where
  "is_unterminated_csi_tail [] = True"
| "is_unterminated_csi_tail (b # bs) =
     (if b = 0x1B \<or> in_range 0x40 0x7E b then False else is_unterminated_csi_tail bs)"

section \<open>Which commands count\<close>

fun query_pair_loop :: "rstring list \<Rightarrow> bool" where
  "query_pair_loop (index_str # spec_str # tokens) =
     (case from_decimal USIZE_MAX (trim_str index_str) of
        None \<Rightarrow> query_pair_loop tokens
      | Some index \<Rightarrow>
          if 256 \<le> index then query_pair_loop tokens
          else if trim_str spec_str = [0x3F] then True
          else query_pair_loop tokens)"
| "query_pair_loop tokens = False"

definition osc_4_has_query_pair :: "rstring \<Rightarrow> bool" where
  "osc_4_has_query_pair data = query_pair_loop (split_bytes 0x3B data)"

fun query_item_loop :: "nat \<Rightarrow> rstring list \<Rightarrow> bool" where
  "query_item_loop target [] = False"
| "query_item_loop target (item # items) =
     (if 12 < target then False
      else if trim_str item = [0x3F] then True
      else query_item_loop (target + 1) items)"

definition osc_default_color_has_query_item :: "rstring \<Rightarrow> nat \<Rightarrow> bool" where
  "osc_default_color_has_query_item data osc_number = query_item_loop osc_number (split_bytes 0x3B data)"

definition is_color_query :: "recovered_osc \<Rightarrow> bool" where
  "is_color_query osc =
     (case ro_number osc of
        None \<Rightarrow> False
      | Some n \<Rightarrow>
          if n = 4 then osc_4_has_query_pair (ro_data osc)
          else if n \<in> {10, 11, 12} then osc_default_color_has_query_item (ro_data osc) n
          else False)"

definition is_program_status_query :: "recovered_osc \<Rightarrow> bool" where
  "is_program_status_query osc \<longleftrightarrow> identify_osc osc = ProgramStatus \<and> ro_data osc = [0x3F]"

text \<open>The kind \<open>image\<close> opens no window.\<close>

definition is_viewer_launch :: "recovered_osc \<Rightarrow> bool" where
  "is_viewer_launch osc =
     (case identify_osc osc of
        ViewerLaunch kind \<Rightarrow> kind \<noteq> [0x69, 0x6D, 0x61, 0x67, 0x65]
      | MarkdownLaunch \<Rightarrow> True
      | AgentStatusReport \<Rightarrow> False
      | ProgramStatus \<Rightarrow> False
      | NotIdentified \<Rightarrow> False)"

definition osc_item_kind :: "recovered_osc \<Rightarrow> scan_item_kind option" where
  "osc_item_kind osc =
     (if is_color_query osc then Some ColorQuery
      else if is_program_status_query osc then Some ProgramStatusQuery
      else if is_viewer_launch osc then Some ViewerLaunchItem
      else None)"

section \<open>The walk\<close>

definition push_item :: "scan_item list \<Rightarrow> scan_item_kind option \<Rightarrow> nat \<Rightarrow> nat \<Rightarrow> scan_item list" where
  "push_item items kind start e =
     (case kind of
        None \<Rightarrow> items
      | Some k \<Rightarrow> items @ [\<lparr>si_kind = k, si_start = start, si_end = e\<rparr>])"

definition cut_reading :: "scan_item list \<Rightarrow> bool \<Rightarrow> nat \<Rightarrow> scan_reading" where
  "cut_reading items detect_tail pos =
     \<lparr>rd_items = items, rd_walk_tail_start = (if detect_tail then Some pos else None),
      rd_walk_tail_strip_c0 = False\<rparr>"

function walk_loop :: "bool \<Rightarrow> scan_item list \<Rightarrow> nat \<Rightarrow> u8 list \<Rightarrow> scan_reading" where
  "walk_loop detect_tail items pos [] =
     \<lparr>rd_items = items, rd_walk_tail_start = None, rd_walk_tail_strip_c0 = False\<rparr>"
| "walk_loop detect_tail items pos (b # bs) =
     (if b \<noteq> 0x1B then walk_loop detect_tail items (pos + 1) bs
      else case bs of
          [] \<Rightarrow> cut_reading items detect_tail pos
        | c # body \<Rightarrow>
            if c = 0x5B then
              (case scan_csi_device_query body of
                 Some (k, _) \<Rightarrow>
                   walk_loop detect_tail (push_item items (Some CsiQuery) pos (pos + 2 + k)) (pos + 2 + k) (drop k body)
               | None \<Rightarrow>
                   if detect_tail \<and> is_unterminated_csi_tail body
                   then \<lparr>rd_items = items, rd_walk_tail_start = Some pos, rd_walk_tail_strip_c0 = True\<rparr>
                   else walk_loop detect_tail items (pos + 1) bs)
            else if c = 0x5D then
              (case scan_osc_terminator 0 body of
                 StringComplete body_end term_end \<Rightarrow>
                   walk_loop detect_tail
                     (push_item items (osc_item_kind (recover_osc (take body_end body))) pos (pos + 2 + term_end))
                     (pos + 2 + term_end) (drop term_end body)
               | StringAborted abort_pos \<Rightarrow>
                   walk_loop detect_tail items (pos + 2 + abort_pos) (drop abort_pos body)
               | StringUnterminated \<Rightarrow> cut_reading items detect_tail pos)
            else if c = 0x5F \<or> c = 0x50 then
              (case scan_st_terminator 0 body of
                 StringComplete body_end term_end \<Rightarrow>
                   walk_loop detect_tail items (pos + 2 + term_end) (drop term_end body)
               | StringAborted abort_pos \<Rightarrow>
                   walk_loop detect_tail items (pos + 2 + abort_pos) (drop abort_pos body)
               | StringUnterminated \<Rightarrow> cut_reading items detect_tail pos)
            else if introduces_charset c then
              (case body of
                 [] \<Rightarrow> cut_reading items detect_tail pos
               | _ # rest \<Rightarrow> walk_loop detect_tail items (pos + 3) rest)
            else if c = 0x1B then walk_loop detect_tail items (pos + 1) bs
            else walk_loop detect_tail items (pos + 2) body)"
  by pat_completeness auto
termination
  by (relation "measure (\<lambda>(d, items, pos, rest). length rest)") auto

definition walk_view :: "u8 list \<Rightarrow> nat \<Rightarrow> bool \<Rightarrow> scan_reading" where
  "walk_view view start detect_tail = walk_loop detect_tail [] start (drop start view)"

section \<open>The scan\<close>

definition reading_tail :: "scan_reading \<Rightarrow> nat option \<Rightarrow> (nat \<times> bool) option" where
  "reading_tail reading utf8_tail =
     (case rd_walk_tail_start reading of
        Some start \<Rightarrow> Some (start, rd_walk_tail_strip_c0 reading)
      | None \<Rightarrow> map_option (\<lambda>start. (start, False)) utf8_tail)"

definition same_tail :: "(nat \<times> bool) option \<Rightarrow> (nat \<times> bool) option \<Rightarrow> (nat \<times> bool) option" where
  "same_tail a b =
     (case (a, b) of (Some x, Some y) \<Rightarrow> if fst x = fst y then Some x else None | _ \<Rightarrow> None)"

text \<open>The second list is consumed up to the first item that does not start earlier, which stays.\<close>

fun common_items :: "scan_item list \<Rightarrow> scan_item list \<Rightarrow> scan_item list" where
  "common_items [] other = []"
| "common_items (item # items) other =
     (let other = dropWhile (\<lambda>c. si_start c < si_start item) other in
      (case other of c # _ \<Rightarrow> if c = item then [item] else [] | [] \<Rightarrow> []) @ common_items items other)"

definition overlaps_excluded :: "nat \<Rightarrow> nat \<Rightarrow> (nat \<times> nat) list \<Rightarrow> bool" where
  "overlaps_excluded start e excluded = list_ex (\<lambda>p. start < snd p \<and> fst p < e) excluded"

definition scan_with_reading_count ::
    "u8 list \<Rightarrow> u8 list \<Rightarrow> (nat \<times> nat) list \<Rightarrow> scan_outcome \<times> nat" where
  "scan_with_reading_count window chunk excluded =
     (let s = derive_prefix_start window;
          first_byte_undecided = first_chunk_byte_may_be_designator window s;
          boundary = length window - s;
          combined = drop s window @ chunk;
          detect_tail = (excluded = []);
          utf8_tail = (if detect_tail then utf8_tail_start_at_end combined else None);
          from_ground = walk_view combined 0 detect_tail;
          (raw_items, tail, readings) =
            (if first_byte_undecided then
               let after_designator = walk_view combined 1 detect_tail in
               (common_items (rd_items from_ground) (rd_items after_designator),
                same_tail (reading_tail from_ground utf8_tail) (reading_tail after_designator utf8_tail), 2)
             else (rd_items from_ground, reading_tail from_ground utf8_tail, 1));
          items = filter (\<lambda>item. boundary < si_end item
                    \<and> \<not> overlaps_excluded (si_start item - boundary) (si_end item - boundary) excluded) raw_items
      in (\<lparr>so_combined = combined, so_boundary = boundary, so_items = items,
           so_tail = map_option (\<lambda>t. (fst t, length combined)) tail,
           so_tail_strip_c0 = (case tail of Some t \<Rightarrow> snd t | None \<Rightarrow> False)\<rparr>, readings))"

definition scan_suppressed :: "u8 list \<Rightarrow> u8 list \<Rightarrow> (nat \<times> nat) list \<Rightarrow> scan_outcome" where
  "scan_suppressed window chunk excluded = fst (scan_with_reading_count window chunk excluded)"

text \<open>The reader keeps the last bytes of the stream, whatever becomes of a read
  (\<open>mux/ipc/pty_spawn/mod.rs\<close>).\<close>

definition advance_retained_window :: "u8 list \<Rightarrow> u8 list \<Rightarrow> u8 list" where
  "advance_retained_window window chunk =
     (if RETAINED_WINDOW_BYTES \<le> length chunk then drop (length chunk - RETAINED_WINDOW_BYTES) chunk
      else drop (length window - (RETAINED_WINDOW_BYTES - length chunk)) window @ chunk)"

end
