(* ===== verification/ClientParityFacts.thy ===== *)
theory ClientParityFacts
  imports LaunchFacts ThemeFacts ClientParityScan
begin

text \<open>
  The scan of suppressed output against the client it stands in for: the colour queries it
  recognises are those the theme answers, the control sequences those the terminal answers, and
  what it reports is what the client's parser dispatches at the same byte.
\<close>

section \<open>Colour queries\<close>

lemma push_response_terminated [simp]:
  "te \<noteq> VtParser.Unterminated \<Longrightarrow> oo_responses (push_response out (format_osc_color_response n i c te)) \<noteq> []"
  by (cases te) (simp_all add: push_response_def format_osc_color_response_def split: prod.split)

lemma palette_set_loop_answers:
  "palette_set_loop te t out tokens = Done (t', out') \<Longrightarrow> te \<noteq> VtParser.Unterminated \<Longrightarrow>
   oo_responses out' \<noteq> [] \<longleftrightarrow> oo_responses out \<noteq> [] \<or> query_pair_loop tokens"
proof (induction te t out tokens rule: palette_set_loop.induct)
  case (1 te t out index_str spec_str tokens)
  show ?case
  proof (cases "from_decimal USIZE_MAX (trim_str index_str)")
    case None
    with 1 show ?thesis by simp
  next
    case (Some index)
    show ?thesis
    proof (cases "256 \<le> index \<or> trim_str spec_str = [0x3F]")
      case True
      have full: "MAX_PALETTE_QUERY_RESPONSES_PER_DISPATCH \<le> length (oo_responses out) \<Longrightarrow> oo_responses out \<noteq> []"
        by (auto simp: MAX_PALETTE_QUERY_RESPONSES_PER_DISPATCH_def)
      from True 1 Some full show ?thesis
        by (simp split: if_splits)
    next
      case False
      then obtain spec where "theme_color_spec spec_str = Done spec"
        using 1 Some by (cases "theme_color_spec spec_str") simp_all
      with False 1 Some show ?thesis
        by (simp split: option.splits)
    qed
  qed
qed simp_all

lemma default_color_loop_answers:
  "default_color_loop te target t out specs = Done (t', out') \<Longrightarrow> te \<noteq> VtParser.Unterminated \<Longrightarrow> 10 \<le> target \<Longrightarrow>
   oo_responses out' \<noteq> [] \<longleftrightarrow> oo_responses out \<noteq> [] \<or> query_item_loop target specs"
proof (induction te target t out specs rule: default_color_loop.induct)
  case (2 te target t out spec specs)
  consider "12 < target" | "target \<le> 12" "trim_str spec = [0x3F]" | "target \<le> 12" "trim_str spec = []"
    | "target \<le> 12" "trim_str spec \<noteq> [0x3F]" "trim_str spec \<noteq> []"
    by fastforce
  then show ?case
  proof cases
    case 2
    then have "target \<in> {10, 11, 12}"
      using \<open>10 \<le> target\<close> by auto
    then obtain c where "default_color t target = Some c"
      by (cases "default_color t target") (auto simp: default_color_def)
    with 2 "2.prems" "2.IH"(1) show ?thesis by simp
  next
    case 4
    then obtain parsed where "theme_color_spec spec = Done parsed"
      using "2.prems" by (cases "theme_color_spec spec") simp_all
    with 4 "2.prems" "2.IH"(3-) show ?thesis
      by (cases parsed) (simp_all split: if_splits)
  qed (use "2.prems" "2.IH"(2) in simp_all)
qed simp

text \<open>C40. A complete colour command is recognised as a query exactly when the theme answers it
  with at least one response, whatever the colours are, unless handling it panics.\<close>

theorem color_query_iff_answered:
  assumes "apply_osc t n data te = Done (t', out)" "te \<noteq> VtParser.Unterminated"
  shows "is_color_query \<lparr>ro_number = Some n, ro_data = data\<rparr> \<longleftrightarrow> oo_responses out \<noteq> []"
proof -
  have quiet: "oo_responses osc_outcome_default = []"
    by (simp add: osc_outcome_default_def)
  consider "n = 4" | "n \<in> {10, 11, 12}" | "n \<noteq> 4" "n \<notin> {10, 11, 12}"
    by blast
  then show ?thesis
  proof cases
    case 1
    then show ?thesis
      using assms palette_set_loop_answers [of te t osc_outcome_default "split_bytes 0x3B data" t' out] quiet
      by (simp add: apply_osc_def apply_palette_set_def is_color_query_def osc_4_has_query_pair_def)
  next
    case 2
    then show ?thesis
      using assms default_color_loop_answers [of te n t osc_outcome_default "split_bytes 0x3B data" t' out] quiet
      by (auto simp: apply_osc_def apply_default_color_set_def is_color_query_def osc_default_color_has_query_item_def)
  next
    case 3
    then show ?thesis
      using assms quiet by (auto simp: apply_osc_def is_color_query_def Let_def split: if_splits prod.splits)
  qed
qed

lemma color_query_iff_answered_witness:
  "is_color_query \<lparr>ro_number = Some 11, ro_data = [0x3F]\<rparr> \<longleftrightarrow>
     oo_responses (push_response osc_outcome_default
       (format_osc_color_response 11 None (th_bg theme_default) Bel)) \<noteq> []"
proof (rule color_query_iff_answered)
  show "apply_osc theme_default 11 [0x3F] Bel = Done (theme_default,
      push_response osc_outcome_default (format_osc_color_response 11 None (th_bg theme_default) Bel))"
    by (simp add: apply_osc_def apply_default_color_set_def trim_query default_color_def)
qed simp

section \<open>Device queries\<close>

text \<open>Where the record of an open control sequence completes an answered query.\<close>

fun open_csi_query :: "open_csi \<Rightarrow> u8 list \<Rightarrow> nat option" where
  "open_csi_query oc [] = None"
| "open_csi_query oc (b # bs) =
     (if completes_an_answered_query oc b then Some 1
      else case open_csi_advance oc b of
          (StepOpen _, oc1) \<Rightarrow> map_option Suc (open_csi_query oc1 bs)
        | _ \<Rightarrow> None)"

text \<open>The scan and the record: once the sequence cannot be a query any more they may disagree.\<close>

definition scan_follows :: "open_csi \<Rightarrow> u8 option \<Rightarrow> first_param \<Rightarrow> nat \<Rightarrow> u8 list \<Rightarrow> bool" where
  "scan_follows oc mk fp seen ints \<longleftrightarrow>
     oc_marker oc = mk \<and> oc_first oc = fp
     \<and> oc_first_intermediate oc = (case ints of [] \<Rightarrow> None | i # _ \<Rightarrow> Some i)
     \<and> (oc_phase oc = PhaseEntry \<longleftrightarrow> seen = 0 \<and> ints = []) \<and> (oc_phase oc = PhaseEntry \<longrightarrow> mk = None)"

lemma query_one_intermediate:
  "csi_is_device_query mk (case ints of [] \<Rightarrow> [] | i # _ \<Rightarrow> [i]) v b = csi_is_device_query mk ints v b"
  by (cases ints) (simp_all add: csi_is_device_query_def split: option.split)

lemma completes_follows:
  "scan_follows oc mk fp seen ints \<Longrightarrow>
   completes_an_answered_query oc b \<longleftrightarrow> in_range 0x40 0x7E b \<and> csi_is_device_query mk ints (fp_value fp) b"
  using query_one_intermediate [of mk ints "fp_value fp" b]
  by (cases ints) (simp_all add: scan_follows_def completes_an_answered_query_def)

lemma scan_csi_dead: "ints \<noteq> [] \<Longrightarrow> scan_csi j None fp seen ints c0 body = None"
proof (induction body arbitrary: j fp seen ints c0)
  case (Cons b bs)
  have "\<not> csi_is_device_query None ints (fp_value fp) b"
    using Cons.prems by (simp add: csi_is_device_query_def)
  with Cons show ?case by simp
qed simp

lemma scan_csi_query:
  assumes "scan_follows oc mk fp seen ints"
  shows "map_option fst (scan_csi j mk fp seen ints c0 body) = map_option ((+) j) (open_csi_query oc body)"
  using assms
proof (induction body arbitrary: oc j mk fp seen ints c0)
  case (Cons b bs)
  note fin = completes_follows [OF Cons.prems, of b]
  have shift: "map_option ((+) j) (map_option Suc x) = map_option (\<lambda>a. Suc (j + a)) x" for x
    by (cases x) simp_all
  note step = open_csi_advance_def csi_step_def Let_def
  show ?case
  proof (cases b rule: csi_byte_cases)
    case c0
    note cl = csi_classes(2) [OF c0]
    from Cons.prems have "scan_follows oc mk fp seen ints" .
    from Cons.IH [OF this, of "j + 1" "c0 @ [b]"] c0 cl fin show ?thesis
      by (auto simp: step shift)
  next
    case final
    then have "\<not> in_range 0x30 0x3B b"
      by (auto simp: u8_unat)
    with final csi_classes(3) [OF final] fin show ?thesis
      by (auto simp: step)
  next
    case marker
    note cl = csi_classes(6) [OF marker]
    have "b \<noteq> 0x20"
      using marker by (auto simp: u8_unat)
    note cl = cl this
    show ?thesis
    proof (cases "seen = 0 \<and> ints = []")
      case True
      with Cons.prems have "oc_phase oc = PhaseEntry" by (simp add: scan_follows_def)
      moreover have "scan_follows (oc\<lparr>oc_phase := PhaseParam, oc_marker := Some b\<rparr>) (Some b) fp (seen + 1) ints"
        using Cons.prems by (simp add: scan_follows_def)
      note Cons.IH [OF this, of "j + 1" c0]
      ultimately show ?thesis
        using cl fin marker True by (auto simp: step shift)
    next
      case False
      with Cons.prems have "oc_phase oc \<noteq> PhaseEntry" by (simp add: scan_follows_def)
      with cl fin marker False show ?thesis
        by (auto simp: step)
    qed
  next
    case digit
    note cl = csi_classes(4) [OF digit]
    have "scan_follows (oc\<lparr>oc_phase := PhaseParam, oc_first := first_param_feed (oc_first oc) b\<rparr>) mk (first_param_feed fp b) (seen + 1) ints"
      using Cons.prems by (simp add: scan_follows_def)
    note Cons.IH [OF this, of "j + 1" c0]
    moreover have "b \<notin> {0x3C, 0x3D, 0x3E, 0x3F}"
      using digit by (auto simp: is_digit_def in_range_unat)
    ultimately show ?thesis
      using cl fin digit by (auto simp: step shift)
  next
    case separator
    note cl = csi_classes(5) [OF separator]
    have "scan_follows (oc\<lparr>oc_phase := PhaseParam, oc_first := first_param_feed (oc_first oc) b\<rparr>) mk (first_param_feed fp b) (seen + 1) ints"
      using Cons.prems by (simp add: scan_follows_def)
    note Cons.IH [OF this, of "j + 1" c0]
    with cl fin separator show ?thesis
      by (auto simp: step shift)
  next
    case intermediate
    note cl = csi_classes(7) [OF intermediate]
    have par: "\<not> in_range 0x30 0x3B b" "\<not> in_range 0x3C 0x3F b"
      using intermediate by (auto simp: u8_unat)
    show ?thesis
    proof (cases "oc_phase oc = PhaseEntry \<and> b \<noteq> 0x20")
      case True
      with Cons.prems have "mk = None" by (simp add: scan_follows_def)
      with True cl fin par intermediate show ?thesis
        by (auto simp: step scan_csi_dead)
    next
      case False
      have "scan_follows (oc\<lparr>oc_phase := PhaseParam,
          oc_first_intermediate := (case oc_first_intermediate oc of Some i \<Rightarrow> Some i | None \<Rightarrow> Some b)\<rparr>) mk fp seen (ints @ [b])"
        using Cons.prems by (cases ints) (simp_all add: scan_follows_def)
      note Cons.IH [OF this, of "j + 1" c0]
      moreover have "oc_phase oc = PhaseParam \<or> oc_phase oc = PhaseEntry \<and> b = 0x20"
        using False by (cases "oc_phase oc") simp_all
      ultimately show ?thesis
        using cl fin par intermediate by (auto simp: step shift)
    qed
  next
    case invalid
    note cl = csi_classes(8) [OF invalid]
    have "\<not> in_range 0x30 0x3B b" "\<not> in_range 0x3C 0x3F b"
      using invalid by (auto simp: u8_unat word_le_nat_alt)
    with cl fin show ?thesis
      by (auto simp: step)
  qed (use csi_classes(1) [of b] fin in \<open>auto simp: step\<close>)
qed simp

lemma scan_csi_device_query_iff:
  "map_option fst (scan_csi_device_query body) = open_csi_query open_csi_entry body"
proof -
  have "scan_follows open_csi_entry None first_param_start 0 []"
    by (simp add: scan_follows_def open_csi_entry_def)
  from scan_csi_query [OF this, of 0 "[]" body] show ?thesis
    by (cases "open_csi_query open_csi_entry body") (simp_all add: scan_csi_device_query_def)
qed

section \<open>What an item stands for\<close>

definition item_action :: "scan_item_kind \<Rightarrow> parsed_action \<Rightarrow> bool" where
  "item_action k a \<longleftrightarrow>
     (if k = CsiQuery then asks a
      else case a of
          OscDispatch n data t _ \<Rightarrow>
            t \<noteq> VtParser.Unterminated \<and> osc_item_kind \<lparr>ro_number = Some n, ro_data = data\<rparr> = Some k
        | _ \<Rightarrow> False)"

text \<open>The byte that ends the item makes a parser which read the view from the state \<open>p\<close> dispatch it.\<close>

definition dispatched :: "parser \<Rightarrow> u8 list \<Rightarrow> scan_item \<Rightarrow> bool" where
  "dispatched p view it \<longleftrightarrow>
     si_start it < si_end it \<and> si_end it \<le> length view
     \<and> list_ex (item_action (si_kind it))
          (snd (parse_byte (fst (parse p (take (si_end it - 1) view))) (view ! (si_end it - 1))))"

lemma parse_take_add:
  "fst (parse p (take (pos + n) view)) = fst (parse (fst (parse p (take pos view))) (take n (drop pos view)))"
  by (simp add: take_add parse_append_fst)

lemma dispatchedI:
  assumes "rest = drop pos view" "n < length rest" "i \<le> pos + n"
    and "list_ex (item_action k) (snd (parse_byte (fst (parse (fst (parse p (take pos view))) (take n rest))) (rest ! n)))"
  shows "dispatched p view \<lparr>si_kind = k, si_start = i, si_end = pos + n + 1\<rparr>"
  using assms by (simp add: dispatched_def parse_take_add add.commute [of n])

lemma osc_item_kind_none: "osc_item_kind \<lparr>ro_number = None, ro_data = d\<rparr> = None"
  by (simp add: osc_item_kind_def is_color_query_def is_program_status_query_def is_viewer_launch_def identify_osc_def)

lemma osc_item_kind_csi: "osc_item_kind osc \<noteq> Some CsiQuery"
  by (simp add: osc_item_kind_def)

text \<open>A saturated number is no command of interest, as an overflowed one is not.\<close>

lemma osc_item_kind_saturated: "osc_item_kind \<lparr>ro_number = Some U16_MAX, ro_data = d\<rparr> = None"
  by (simp add: osc_item_kind_def is_color_query_def is_program_status_query_def is_viewer_launch_def identify_osc_def
      U16_MAX_def OSC_NUMBER_EMTERM_def OSC_NUMBER_MARKDOWN_def OSC_NUMBER_PROGRAM_STATUS_def)

lemma osc_body_kind:
  assumes "osc_body x p"
  shows "osc_item_kind (recover_osc x) = osc_item_kind \<lparr>ro_number = Some (ps_osc_param p),
      ro_data = (if utf8_valid (ps_osc_buffer p) then ps_osc_buffer p else utf8_lossy (ps_osc_buffer p))\<rparr>"
proof -
  obtain acc where acc: "recover_loop 0 False False [] x = (acc, U16_MAX < acc, ps_osc_buffer p)"
      "ps_osc_param p = min U16_MAX acc"
    using assms by (auto simp: osc_body_def)
  then show ?thesis
    by (cases "U16_MAX < acc")
       (simp_all add: recover_osc_def osc_item_kind_none osc_item_kind_saturated u16_try_from_def min_def)
qed

lemma osc_body_item:
  assumes "osc_body x p" "osc_item_kind (recover_osc x) = Some k" "t \<noteq> VtParser.Unterminated"
  shows "list_ex (item_action k) (snd (dispatch_osc p t))"
  using assms osc_body_kind [OF assms(1)] osc_item_kind_csi
  by (auto simp: dispatch_osc_def Let_def item_action_def)

section \<open>Runs inside a sequence\<close>

lemma csi_query_run:
  "open_csi_query oc body = Some k \<Longrightarrow> tracks (WCsi oc) p \<Longrightarrow>
   0 < k \<and> k \<le> length body \<and> foldl written_advance (WCsi oc) (take k body) = WGround
   \<and> list_ex (item_action CsiQuery) (snd (parse_byte (fst (parse p (take (k - 1) body))) (body ! (k - 1))))"
proof (induction body arbitrary: oc k p)
  case (Cons b bs)
  show ?case
  proof (cases "completes_an_answered_query oc b")
    case True
    then have "in_range 0x40 0x7E b"
      by (simp add: completes_an_answered_query_def)
    then have "written_advance (WCsi oc) b = WGround"
      using csi_classes(3) [of b] by (simp add: written_advance_def open_csi_advance_def csi_step_def)
    moreover have "answered_here (WCsi oc) b"
      using True by (simp add: answered_here_def)
    then have "list_ex asks (snd (parse_byte p b))"
      using asks_byte [OF Cons.prems(2), of b] by (auto simp: list_ex_iff list_all_iff)
    ultimately show ?thesis
      using True Cons.prems by (auto simp: item_action_def [abs_def])
  next
    case False
    then obtain ph oc1 n where step: "open_csi_advance oc b = (StepOpen ph, oc1)"
        "open_csi_query oc1 bs = Some n" "k = Suc n"
      using Cons.prems(1) by (auto split: prod.splits csi_step_kind.splits)
    then have adv: "written_advance (WCsi oc) b = WCsi oc1"
      by (simp add: written_advance_def)
    with Cons.IH [OF step(2), of "fst (parse_byte p b)"] tracks_step [OF Cons.prems(2), of b]
    have IH: "0 < n" "n \<le> length bs" "foldl written_advance (WCsi oc1) (take n bs) = WGround"
        "list_ex (item_action CsiQuery) (snd (parse_byte (fst (parse (fst (parse_byte p b)) (take (n - 1) bs))) (bs ! (n - 1))))"
      by simp_all
    then obtain m where "n = Suc m"
      by (cases n) auto
    with IH step(3) adv show ?thesis
      by (simp add: parse_Cons split_def Let_def)
  qed
qed simp

lemma csi_query_ends:
  "open_csi_query oc body = Some k \<Longrightarrow> foldl written_advance (WCsi oc) (take k body) = WGround"
proof (induction body arbitrary: oc k)
  case (Cons b bs)
  show ?case
  proof (cases "completes_an_answered_query oc b")
    case True
    then have "in_range 0x40 0x7E b"
      by (simp add: completes_an_answered_query_def)
    then have "written_advance (WCsi oc) b = WGround"
      using csi_classes(3) [of b] by (simp add: written_advance_def open_csi_advance_def csi_step_def)
    with True Cons.prems show ?thesis by auto
  next
    case False
    with Cons show ?thesis
      by (auto simp: written_advance_def split: prod.splits csi_step_kind.splits)
  qed
qed simp

lemma osc_run:
  assumes "osc_body x p" "ps_state p = OscString" "0x07 \<notin> set bs" "0x1B \<notin> set bs" "length x + length bs \<le> MAX_OSC_LEN"
  shows "osc_body (x @ bs) (fst (parse p bs)) \<and> ps_state (fst (parse p bs)) = OscString"
  using assms
proof (induction bs arbitrary: x p)
  case (Cons b bs)
  then have "osc_body (x @ [b]) (fst (osc_string p b))" "ps_state (fst (osc_string p b)) = OscString"
    using osc_body_byte [of x p b] by auto
  with Cons.IH [of "x @ [b]" "fst (osc_string p b)"] Cons.prems show ?case
    by (simp add: parse_Cons parse_byte_def split_def Let_def)
qed simp

lemma body_stays:
  "0x1B \<notin> set bs \<Longrightarrow> foldl written_advance WStBody bs = WStBody"
  "0x07 \<notin> set bs \<Longrightarrow> 0x1B \<notin> set bs \<Longrightarrow> foldl written_advance WOscBody bs = WOscBody"
  by (induction bs) (auto simp: written_advance_def)

lemma osc_terminator_spec:
  "case scan_osc_terminator j bs of
     StringComplete e t \<Rightarrow> j \<le> e \<and> 0x07 \<notin> set (take (e - j) bs) \<and> 0x1B \<notin> set (take (e - j) bs)
       \<and> (t = e + 1 \<and> e - j < length bs \<and> bs ! (e - j) = 0x07
          \<or> t = e + 2 \<and> e - j + 1 < length bs \<and> bs ! (e - j) = 0x1B \<and> bs ! (e - j + 1) = 0x5C)
   | StringAborted a \<Rightarrow> j \<le> a \<and> 0x07 \<notin> set (take (a - j) bs) \<and> 0x1B \<notin> set (take (a - j) bs) \<and> a - j + 1 < length bs
       \<and> bs ! (a - j) = 0x1B \<and> bs ! (a - j + 1) \<noteq> 0x5C
   | StringUnterminated \<Rightarrow> 0x07 \<notin> set bs \<and> 0x1B \<notin> set (butlast bs)"
proof (induction j bs rule: scan_osc_terminator.induct)
  case (2 j b bs)
  have later: "e - j = Suc (e - Suc j)" if "Suc j \<le> e" for e
    using that by simp
  show ?case
  proof (cases "b = 0x07 \<or> b = 0x1B")
    case True
    then show ?thesis by (cases bs) auto
  next
    case False
    with 2 show ?thesis
      by (cases "scan_osc_terminator (j + 1) bs") (auto simp: later)
  qed
qed simp

lemma st_terminator_spec:
  "case scan_st_terminator j bs of
     StringComplete e t \<Rightarrow> j \<le> e \<and> 0x1B \<notin> set (take (e - j) bs)
       \<and> t = e + 2 \<and> e - j + 1 < length bs \<and> bs ! (e - j) = 0x1B \<and> bs ! (e - j + 1) = 0x5C
   | StringAborted a \<Rightarrow> j \<le> a \<and> 0x1B \<notin> set (take (a - j) bs) \<and> a - j + 1 < length bs
       \<and> bs ! (a - j) = 0x1B \<and> bs ! (a - j + 1) \<noteq> 0x5C
   | StringUnterminated \<Rightarrow> 0x1B \<notin> set (butlast bs)"
proof (induction j bs rule: scan_st_terminator.induct)
  case (2 j b bs)
  have later: "e - j = Suc (e - Suc j)" if "Suc j \<le> e" for e
    using that by simp
  show ?case
  proof (cases "b = 0x1B")
    case True
    then show ?thesis by (cases bs) auto
  next
    case False
    with 2 show ?thesis
      by (cases "scan_st_terminator (j + 1) bs") (auto simp: later)
  qed
qed simp

lemma osc_terminator_run:
  "scan_osc_terminator 0 body = StringComplete e t \<Longrightarrow>
     0 < t \<and> t \<le> length body \<and> foldl written_advance WOscBody (take t body) = WGround"
  "scan_osc_terminator 0 body = StringAborted a \<Longrightarrow>
     a < length body \<and> body ! a = 0x1B \<and> foldl written_advance WOscBody (take a body) = WOscBody"
  using osc_terminator_spec [of 0 body]
  by (auto simp: take_Suc_conv_app_nth body_stays) (simp_all add: written_advance_def)

lemma st_terminator_run:
  "scan_st_terminator 0 body = StringComplete e t \<Longrightarrow>
     0 < t \<and> t \<le> length body \<and> foldl written_advance WStBody (take t body) = WGround"
  "scan_st_terminator 0 body = StringAborted a \<Longrightarrow>
     a < length body \<and> body ! a = 0x1B \<and> foldl written_advance WStBody (take a body) = WStBody"
  using st_terminator_spec [of 0 body]
  by (auto simp: take_Suc_conv_app_nth body_stays) (simp_all add: written_advance_def)

lemma osc_complete_item:
  assumes "scan_osc_terminator 0 body = StringComplete e t" "osc_item_kind (recover_osc (take e body)) = Some k"
    and "osc_body [] p" "ps_state p = OscString" "length body \<le> MAX_OSC_LEN"
  shows "list_ex (item_action k) (snd (parse_byte (fst (parse p (take (t - 1) body))) (body ! (t - 1))))"
proof -
  have spec: "0x07 \<notin> set (take e body)" "0x1B \<notin> set (take e body)"
      "t = e + 1 \<and> e < length body \<and> body ! e = 0x07
       \<or> t = e + 2 \<and> e + 1 < length body \<and> body ! e = 0x1B \<and> body ! (e + 1) = 0x5C"
    using osc_terminator_spec [of 0 body] assms(1) by simp_all
  define q where "q = fst (parse p (take e body))"
  have q: "osc_body (take e body) q" "ps_state q = OscString"
    using osc_run [OF assms(3,4) spec(1,2)] assms(5) by (simp_all add: q_def)
  from spec(3) show ?thesis
  proof (elim disjE conjE)
    assume "t = e + 1" "body ! e = 0x07"
    then show ?thesis
      using q osc_body_item [OF q(1) assms(2), of Bel]
      by (simp add: q_def [symmetric] parse_byte_def osc_string_def split_def Let_def)
  next
    assume t: "t = e + 2" "e + 1 < length body" "body ! e = 0x1B" "body ! (e + 1) = 0x5C"
    have "osc_body (take e body) (q\<lparr>ps_state := OscEscape\<rparr>)"
      using q(1) by (simp add: osc_body_cong)
    from osc_body_item [OF this assms(2), of St]
    have "list_ex (item_action k) (snd (parse_byte (q\<lparr>ps_state := OscEscape\<rparr>) 0x5C))"
      by (simp add: parse_byte_def osc_escape_def split_def Let_def)
    moreover have "fst (parse p (take (e + 1) body)) = q\<lparr>ps_state := OscEscape\<rparr>"
      using t q(2) by (simp add: take_Suc_conv_app_nth parse_append_fst parse_single q_def [symmetric] parse_byte_def osc_string_def)
    ultimately show ?thesis
      using t by simp
  qed
qed

section \<open>The walk reports what the parser dispatches\<close>

text \<open>The walk may examine the rest: no designator is awaited, neither now nor after one byte.\<close>

definition ready :: "written_state \<Rightarrow> u8 list \<Rightarrow> bool" where
  "ready s rest \<longleftrightarrow>
     s \<noteq> WDesignator \<and> (s = WEscape \<longrightarrow> (case rest of [] \<Rightarrow> True | b # _ \<Rightarrow> \<not> introduces_charset b))"

lemma ready_simps [simp]:
  "ready WGround rest" "ready WOscBody rest" "ready WStBody rest" "ready (WCsi oc) rest" "\<not> ready WDesignator rest"
  "ready WEscape (b # bs) \<longleftrightarrow> \<not> introduces_charset b"
  by (simp_all add: ready_def)

lemma ready_plain: "ready s (b # bs) \<Longrightarrow> b \<noteq> 0x1B \<Longrightarrow> ready (written_advance s b) bs"
  by (cases s) (auto simp: written_advance_def introduces_charset_def open_csi_advance_def csi_step_def
      Let_def split: prod.splits csi_step_kind.splits if_splits)

lemma ready_escape: "ready s rest \<Longrightarrow> written_advance s 0x1B = WEscape"
  by (cases s) (auto simp: written_advance_def open_csi_advance_def csi_step_def)

lemma escape_advance:
  "written_advance WEscape 0x5B = WCsi open_csi_entry" "written_advance WEscape 0x5D = WOscBody"
  "c = 0x5F \<or> c = 0x50 \<Longrightarrow> written_advance WEscape c = WStBody"
  "introduces_charset c \<Longrightarrow> written_advance WEscape c = WDesignator" "written_advance WDesignator c = WGround"
  "c \<notin> {0x1B, 0x5B, 0x5D, 0x5F, 0x50} \<Longrightarrow> \<not> introduces_charset c \<Longrightarrow> written_advance WEscape c = WGround"
  by (auto simp: written_advance_def introduces_charset_def)

lemma osc_opened:
  assumes "tracks WEscape p"
  shows "osc_body [] (fst (parse_byte p 0x5D)) \<and> ps_state (fst (parse_byte p 0x5D)) = OscString"
proof -
  have "tracks WOscBody (fst (parse_byte p 0x5D))"
    using tracks_step [OF assms, of "0x5D"] by (simp add: escape_advance)
  then have state: "ps_state (fst (parse_byte p 0x5D)) = OscString"
    by (auto simp: tracks_def split: pstate.splits)
  moreover have "ps_state p \<noteq> OscString"
    using assms by (auto simp: tracks_def)
  ultimately show ?thesis
    using into_osc_string [OF state] by simp
qed

text \<open>Moving on by \<open>n\<close> bytes.\<close>

definition at :: "parser \<Rightarrow> u8 list \<Rightarrow> nat \<Rightarrow> parser" where
  "at p view i = fst (parse p (take i view))"

lemma at_add: "at p view (i + n) = fst (parse (at p view i) (take n (drop i view)))"
  by (simp add: at_def parse_take_add)

lemma tracks_at: "tracks s (at p view i) \<Longrightarrow> tracks (foldl written_advance s (take n (drop i view))) (at p view (i + n))"
  by (simp add: at_add tracks_run)

text \<open>What holds of every item: it is enough to look at a query and at a complete command, where
  the walk examines them.\<close>

definition examined_at :: "parser \<Rightarrow> u8 list \<Rightarrow> nat \<Rightarrow> bool" where
  "examined_at p view pos \<longleftrightarrow> (\<exists>s. tracks s (at p view pos) \<and> ready s (drop pos view))"

definition item_rule :: "parser \<Rightarrow> u8 list \<Rightarrow> (scan_item \<Rightarrow> bool) \<Rightarrow> bool" where
  "item_rule p view D \<longleftrightarrow>
     (\<forall>pos body k c0. drop pos view = 0x1B # 0x5B # body \<longrightarrow> examined_at p view pos \<longrightarrow>
        scan_csi_device_query body = Some (k, c0) \<longrightarrow>
        D \<lparr>si_kind = CsiQuery, si_start = pos, si_end = pos + 2 + k\<rparr>)
     \<and> (\<forall>pos body e t k. drop pos view = 0x1B # 0x5D # body \<longrightarrow> examined_at p view pos \<longrightarrow>
        scan_osc_terminator 0 body = StringComplete e t \<longrightarrow> osc_item_kind (recover_osc (take e body)) = Some k \<longrightarrow>
        D \<lparr>si_kind = k, si_start = pos, si_end = pos + 2 + t\<rparr>)"

text \<open>At an escape character, given that the walk is right from every later position.\<close>

lemma walk_escape_items:
  assumes rest: "rest = 0x1B # c # body" "rest = drop pos view" and tracked: "tracks s (at p view pos)"
    and ready: "ready s rest" and rule: "item_rule p view D" and items: "list_all D items"
    and go: "\<And>n s' items'. 0 < n \<Longrightarrow> foldl written_advance s (take n rest) = s' \<Longrightarrow> ready s' (drop n rest) \<Longrightarrow>
      list_all D items' \<Longrightarrow> list_all D (rd_items (walk_loop dt items' (pos + n) (drop n rest)))"
  shows "list_all D (rd_items (walk_loop dt items pos rest))"
proof -
  note esc = ready_escape [OF ready]
  have adv: "foldl written_advance s (take (2 + n) rest) = foldl written_advance (written_advance WEscape c) (take n body)" for n
    using esc by (simp add: rest(1))
  have go2: "list_all D (rd_items (walk_loop dt items' (pos + 2 + n) (drop n body)))"
    if "foldl written_advance (written_advance WEscape c) (take n body) = s'" "ready s' (drop n body)"
      "list_all D items'" for n s' items'
    using go [of "2 + n" s' items'] that adv [of n] by (simp add: rest(1) add.assoc)
  have go1: "list_all D (rd_items (walk_loop dt items (pos + 1) (c # body)))" if "\<not> introduces_charset c"
    using go [of 1 WEscape items] esc that items by (simp add: rest(1))
  have here: "drop pos view = 0x1B # c # body" "examined_at p view pos"
    using rest tracked ready by (auto simp: examined_at_def)
  consider (csi) "c = 0x5B" | (osc) "c = 0x5D" | (st) "c = 0x5F \<or> c = 0x50" | (charset) "introduces_charset c"
    | (esc) "c = 0x1B" | (other) "c \<notin> {0x1B, 0x5B, 0x5D, 0x5F, 0x50}" "\<not> introduces_charset c"
    by blast
  then show ?thesis
  proof cases
    case csi
    then have "\<not> introduces_charset c"
      by (simp add: introduces_charset_def)
    show ?thesis
    proof (cases "scan_csi_device_query body")
      case None
      with csi go1 [OF \<open>\<not> introduces_charset c\<close>] items show ?thesis
        by (simp add: rest(1))
    next
      case (Some r)
      then obtain k c0 where k: "scan_csi_device_query body = Some (k, c0)"
        by (cases r) simp
      have "D \<lparr>si_kind = CsiQuery, si_start = pos, si_end = pos + 2 + k\<rparr>"
        using rule here csi k unfolding item_rule_def by blast
      moreover have "foldl written_advance (WCsi open_csi_entry) (take k body) = WGround"
        using csi_query_ends scan_csi_device_query_iff [of body] k by simp
      ultimately show ?thesis
        using csi k go2 [of k WGround] items by (simp add: rest(1) escape_advance push_item_def)
    qed
  next
    case osc
    show ?thesis
    proof (cases "scan_osc_terminator 0 body")
      case (StringComplete e t)
      have "list_all D (push_item items (osc_item_kind (recover_osc (take e body))) pos (pos + 2 + t))"
        using rule here osc StringComplete items unfolding item_rule_def
        by (cases "osc_item_kind (recover_osc (take e body))") (simp_all add: push_item_def)
      with osc StringComplete go2 [of t WGround] osc_terminator_run(1) [OF StringComplete] show ?thesis
        by (simp add: rest(1) escape_advance)
    next
      case (StringAborted a)
      with osc go2 [of a WOscBody items] osc_terminator_run(2) [OF StringAborted] items show ?thesis
        by (simp add: rest(1) escape_advance)
    qed (use osc items in \<open>simp add: rest(1) cut_reading_def\<close>)
  next
    case st
    then have c: "c \<noteq> 0x5B" "c \<noteq> 0x5D"
      by auto
    show ?thesis
    proof (cases "scan_st_terminator 0 body")
      case (StringComplete e t)
      with st c go2 [of t WGround items] st_terminator_run(1) [OF StringComplete] items show ?thesis
        by (simp add: rest(1) escape_advance(3) [OF st])
    next
      case (StringAborted a)
      with st c go2 [of a WStBody items] st_terminator_run(2) [OF StringAborted] items show ?thesis
        by (simp add: rest(1) escape_advance(3) [OF st])
    qed (use st c items in \<open>simp add: rest(1) cut_reading_def\<close>)
  next
    case charset
    then have "c \<notin> {0x5B, 0x5D, 0x5F, 0x50}"
      by (auto simp: introduces_charset_def)
    with charset go2 [of 1 WGround items] items show ?thesis
      by (cases body) (simp_all add: rest(1) cut_reading_def escape_advance numeral_3_eq_3)
  next
    case esc
    with go1 show ?thesis
      by (simp add: rest(1) introduces_charset_def)
  next
    case other
    with go2 [of 0 WGround items] items show ?thesis
      by (simp add: rest(1) escape_advance)
  qed
qed

lemma walk_items_all:
  "rest = drop pos view \<Longrightarrow> tracks s (at p view pos) \<Longrightarrow> ready s rest \<Longrightarrow> item_rule p view D \<Longrightarrow>
   list_all D items \<Longrightarrow> list_all D (rd_items (walk_loop dt items pos rest))"
proof (induction "length rest" arbitrary: rest pos s items rule: less_induct)
  case less
  note rest = less.prems(1) and ready = less.prems(3)
  have go: "list_all D (rd_items (walk_loop dt items' (pos + n) (drop n rest)))"
    if "0 < n" "foldl written_advance s (take n rest) = s'" "ready s' (drop n rest)"
      "list_all D items'" "rest \<noteq> []" for n s' items'
  proof (rule less.hyps [where s = s'])
    show "length (drop n rest) < length rest"
      using that by simp
    show "drop n rest = drop (pos + n) view"
      by (simp add: rest add.commute)
    show "tracks s' (at p view (pos + n))"
      using tracks_at [OF less.prems(2), of n] that(2) rest by simp
  qed (use that less.prems in simp_all)
  consider "rest = []" | b bs where "rest = b # bs" "b \<noteq> 0x1B" | "rest = [0x1B]" | c body where "rest = 0x1B # c # body"
    by (cases rest; cases "tl rest") auto
  then show ?case
  proof cases
    case 2
    have "list_all D (rd_items (walk_loop dt items (pos + 1) bs))"
      using go [of 1 "written_advance s b" items] ready_plain [of s b bs] ready less.prems(5) 2 by simp
    with 2 show ?thesis by simp
  next
    case 4
    show ?thesis
      by (rule walk_escape_items [OF 4 less.prems(1-5)]) (use go 4 in simp_all)
  qed (use less.prems in \<open>simp_all add: cut_reading_def\<close>)
qed

text \<open>The parser behind the introducer of an examined item.\<close>

lemma examined_introducer:
  assumes "examined_at p view pos" "drop pos view = 0x1B # c # body"
  shows "tracks WEscape (at p view (pos + 1))" "at p view (pos + 2) = fst (parse_byte (at p view (pos + 1)) c)"
    "body = drop (pos + 2) view"
proof -
  obtain s where s: "tracks s (at p view pos)" "ready s (0x1B # c # body)"
    using assms by (auto simp: examined_at_def)
  then show "tracks WEscape (at p view (pos + 1))" "at p view (pos + 2) = fst (parse_byte (at p view (pos + 1)) c)"
    using tracks_at [OF s(1), of 1] at_add [of p view pos 1] at_add [of p view pos 2] ready_escape [OF s(2)] assms(2)
    by (simp_all add: numeral_2_eq_2 parse_Cons split_def Let_def)
  show "body = drop (pos + 2) view"
    using assms(2) drop_drop [of 2 pos view] by (simp add: add.commute)
qed

lemma dispatched_at:
  assumes "body = drop (pos + 2) view" "0 < t" "t \<le> length body"
    and "list_ex (item_action k) (snd (parse_byte (fst (parse (at p view (pos + 2)) (take (t - 1) body))) (body ! (t - 1))))"
  shows "dispatched p view \<lparr>si_kind = k, si_start = pos, si_end = pos + 2 + t\<rparr>"
proof -
  have "dispatched p view \<lparr>si_kind = k, si_start = pos, si_end = pos + 2 + (t - 1) + 1\<rparr>"
    using assms by (intro dispatchedI [OF assms(1)]) (simp_all add: at_def)
  moreover have "pos + 2 + (t - 1) + 1 = pos + 2 + t"
    using assms(2) by simp
  ultimately show ?thesis by simp
qed

lemma dispatched_rule: "length view \<le> MAX_OSC_LEN \<Longrightarrow> item_rule p view (dispatched p view)"
  unfolding item_rule_def
proof (intro conjI allI impI)
  fix pos body k c0
  assume here: "drop pos view = 0x1B # 0x5B # body" "examined_at p view pos" and k: "scan_csi_device_query body = Some (k, c0)"
  note intro = examined_introducer [OF here(2,1)]
  have "tracks (WCsi open_csi_entry) (at p view (pos + 2))"
    using tracks_step [OF intro(1), of "0x5B"] intro(2) by (simp add: escape_advance)
  then show "dispatched p view \<lparr>si_kind = CsiQuery, si_start = pos, si_end = pos + 2 + k\<rparr>"
    using csi_query_run [of open_csi_entry body k] scan_csi_device_query_iff [of body] k
    by (intro dispatched_at [OF intro(3)]) auto
next
  fix pos body e t k
  assume size: "length view \<le> MAX_OSC_LEN" and here: "drop pos view = 0x1B # 0x5D # body" "examined_at p view pos"
    and t: "scan_osc_terminator 0 body = StringComplete e t" "osc_item_kind (recover_osc (take e body)) = Some k"
  note intro = examined_introducer [OF here(2,1)]
  have "osc_body [] (at p view (pos + 2))" "ps_state (at p view (pos + 2)) = OscString" "length body \<le> MAX_OSC_LEN"
    using osc_opened [OF intro(1)] intro(2) size by (simp_all add: intro(3))
  then show "dispatched p view \<lparr>si_kind = k, si_start = pos, si_end = pos + 2 + t\<rparr>"
    using osc_complete_item [OF t] osc_terminator_run(1) [OF t(1)] by (intro dispatched_at [OF intro(3)]) auto
qed

section \<open>Where the walk starts\<close>

text \<open>The bytes the stream must end with where the parser awaits a designator, or the byte after
  an escape character.\<close>

lemma advance_to_escape: "written_advance s b = WEscape \<Longrightarrow> b = 0x1B"
  by (auto simp: written_advance_def open_csi_advance_def csi_step_def Let_def
      split: written_state.splits if_splits prod.splits csi_step_kind.splits)

lemma escape_last: "foldl written_advance WGround xs = WEscape \<Longrightarrow> xs \<noteq> [] \<and> last xs = 0x1B"
proof (cases xs rule: rev_cases)
  case (snoc ys b)
  assume "foldl written_advance WGround xs = WEscape"
  then have "written_advance (foldl written_advance WGround ys) b = WEscape"
    by (simp add: snoc)
  then have "b = 0x1B"
    by (rule advance_to_escape)
  then show ?thesis by (simp add: snoc)
qed simp

lemma designator_last:
  assumes "foldl written_advance WGround xs = WDesignator"
  shows "2 \<le> length xs \<and> introduces_charset (last xs) \<and> xs ! (length xs - 2) = 0x1B"
proof (cases xs rule: rev_cases)
  case (snoc ys b)
  with assms have adv: "written_advance (foldl written_advance WGround ys) b = WDesignator"
    by simp
  then have "foldl written_advance WGround ys = WEscape \<and> introduces_charset b"
    by (auto simp: written_advance_def open_csi_advance_def csi_step_def introduces_charset_def Let_def
        split: written_state.splits if_splits prod.splits csi_step_kind.splits)
  with escape_last [of ys] show ?thesis
    by (cases ys rule: rev_cases) (simp_all add: snoc)
qed (use assms in simp)

lemma set_common_items: "set (common_items a b) \<subseteq> set a \<inter> set b"
proof (induction a b rule: common_items.induct)
  case (2 item items other)
  define rest where "rest = dropWhile (\<lambda>c. si_start c < si_start item) other"
  have rest: "set rest \<subseteq> set other"
    using set_dropWhileD by (fastforce simp: rest_def)
  have IH: "set (common_items items rest) \<subseteq> set items \<inter> set rest"
    using 2 [OF rest_def] .
  have "set (case rest of c # _ \<Rightarrow> if c = item then [item] else [] | [] \<Rightarrow> []) \<subseteq> {item} \<inter> set rest"
    by (cases rest) auto
  with IH rest show ?case
    unfolding common_items.simps Let_def rest_def [symmetric] by (auto 0 3)
qed simp

text \<open>One byte is skipped when it does not start a sequence, whatever is awaited.\<close>

lemma walk_view_items:
  assumes "tracks s p" "item_rule p view D" "view = [] \<or> ready s view \<or> s = WDesignator \<and> hd view \<noteq> 0x1B"
  shows "list_all D (rd_items (walk_view view 0 dt))"
proof (cases "view = [] \<or> ready s view")
  case True
  then show ?thesis
    using assms walk_items_all [of view 0 view s p D "[]" dt] by (auto simp: walk_view_def at_def)
next
  case False
  then obtain b bs where view: "view = b # bs" "b \<noteq> 0x1B" "s = WDesignator"
    using assms(3) by (cases view) auto
  have "tracks WGround (at p view 1)"
    using tracks_step [OF assms(1), of b] view by (simp add: at_def parse_single escape_advance)
  with walk_items_all [of bs 1 view WGround p D "[]" dt] assms(2) view show ?thesis
    by (simp add: walk_view_def)
qed

lemma walk_after_designator_items:
  assumes "tracks WDesignator p" "item_rule p view D"
  shows "list_all D (rd_items (walk_view view 1 dt))"
proof (cases view)
  case (Cons b bs)
  have "tracks WGround (at p view 1)"
    using tracks_step [OF assms(1), of b] Cons by (simp add: at_def parse_single escape_advance)
  with walk_items_all [of bs 1 view WGround p D "[]" dt] assms(2) Cons show ?thesis
    by (simp add: walk_view_def)
qed (simp add: walk_view_def)

text \<open>The one case that is not decided right: the last byte retained is an escape character that
  may have been a designator, and the chunk starts with an introducer of one.\<close>

definition blind_spot :: "u8 list \<Rightarrow> u8 list \<Rightarrow> bool" where
  "blind_spot window chunk \<longleftrightarrow>
     RETAINED_WINDOW_BYTES \<le> length window \<and> derive_prefix_start window = length window
     \<and> last window = 0x1B \<and> chunk \<noteq> [] \<and> introduces_charset (hd chunk)"

lemma retained_window: "foldl advance_retained_window [] reads = last_n RETAINED_WINDOW_BYTES (concat reads)"
proof (induction reads rule: rev_induct)
  case (snoc r reads)
  have "advance_retained_window (last_n m xs) r = last_n m (xs @ r)"
    if "m = RETAINED_WINDOW_BYTES" for m xs
  proof (cases "m \<le> length r")
    case True
    with that show ?thesis by (simp add: advance_retained_window_def last_n_def)
  next
    case False
    with that have "advance_retained_window (last_n m xs) r = last_n m (last_n m xs @ r)"
      by (auto simp: advance_retained_window_def last_n_def)
    then show ?thesis by (simp add: last_n_append)
  qed
  with snoc show ?case by simp
qed simp

lemma find_found: "find P xs = Some x \<Longrightarrow> x \<in> set xs \<and> P x"
  by (auto simp: find_Some_iff)

lemma utf8_tail_Some:
  assumes "utf8_tail_start_at_end view = Some i"
  shows "i < length view \<and> utf8_expected_len (view ! i) \<noteq> None"
proof -
  obtain m where "find (\<lambda>m. let start = length view - m in
        (case utf8_expected_len (view ! start) of
           None \<Rightarrow> False
         | Some n \<Rightarrow> m < n \<and> list_all (in_range 0x80 0xBF) (drop (start + 1) view)))
      [1..<Suc (min 4 (length view))] = Some m" "i = length view - m"
    using assms by (auto simp: utf8_tail_start_at_end_def)
  from find_found [OF this(1)] this(2) show ?thesis
    by (auto simp: Let_def split: option.splits)
qed

lemma derive_prefix_start_le: "derive_prefix_start window \<le> length window"
  by (auto simp: derive_prefix_start_def dest: find_found utf8_tail_Some split: option.split)

lemma derive_prefix_start_cases:
  obtains "length window < RETAINED_WINDOW_BYTES"
    | s where "derive_prefix_start window = s" "RETAINED_WINDOW_BYTES \<le> length window" "s < length window"
        "window ! s = 0x1B" "\<not> esc_may_be_designator_byte window s"
    | s where "derive_prefix_start window = s" "s < length window" "utf8_expected_len (window ! s) \<noteq> None"
    | "RETAINED_WINDOW_BYTES \<le> length window" "derive_prefix_start window = length window"
proof -
  let ?P = "\<lambda>i. window ! i = 0x1B \<and> \<not> esc_may_be_designator_byte window i"
  consider "length window < RETAINED_WINDOW_BYTES"
    | i where "RETAINED_WINDOW_BYTES \<le> length window" "find ?P [0..<length window] = Some i"
    | i where "RETAINED_WINDOW_BYTES \<le> length window" "find ?P [0..<length window] = None"
        "utf8_tail_start_at_end window = Some i"
    | "RETAINED_WINDOW_BYTES \<le> length window" "find ?P [0..<length window] = None" "utf8_tail_start_at_end window = None"
    by (cases "find ?P [0..<length window]"; cases "utf8_tail_start_at_end window") force+
  then show thesis
  proof cases
    case (2 i)
    with find_found [OF 2(2)] that(2) show ?thesis
      by (simp add: derive_prefix_start_def)
  next
    case (3 i)
    with utf8_tail_Some [OF 3(3)] that(3) show ?thesis
      by (simp add: derive_prefix_start_def)
  qed (use that(1,4) in \<open>simp_all add: derive_prefix_start_def\<close>)
qed

text \<open>The stream's parser at the start of the walked view; the view is walked from its first byte,
  or from its second where the first is a designator.\<close>

lemma start_state:
  assumes window: "window = last_n RETAINED_WINDOW_BYTES past" and s: "s = derive_prefix_start window"
    and before: "before = take (length past - (length window - s)) past"
    and st: "st = foldl written_advance WGround before" and view: "view = drop s window @ chunk"
    and chunk: "\<not> blind_spot window chunk"
  shows "view = [] \<or> ready st view \<or> st = WDesignator \<and> hd view \<noteq> 0x1B
      \<or> st = WDesignator \<and> first_chunk_byte_may_be_designator window s"
proof -
  define outside where "outside = length past - length window"
  have le: "s \<le> length window" "length window \<le> length past"
    using derive_prefix_start_le [of window] window s by (simp_all add: last_n_def)
  have parts: "window = drop outside past"
    using window by (auto simp: last_n_def outside_def)
  have split: "before = take outside past @ take s window"
  proof -
    have "length past - (length window - s) = outside + s"
      using le by (simp add: outside_def)
    with parts show ?thesis
      by (simp add: before take_add)
  qed
  have last: "last before = window ! (s - 1)" if "0 < s"
    using that le by (cases s) (simp_all add: split take_Suc_conv_app_nth)
  have prev: "before ! (length before - 2) = window ! (s - 2)" if "2 \<le> s"
  proof -
    have "length (take outside past) = outside" "length before = outside + s"
      using le by (simp_all add: split outside_def)
    moreover have "(take outside past @ take s window) ! (outside + (s - 2)) = window ! (s - 2)"
      using that calculation(1) nth_append_length_plus [of "take outside past" "take s window" "s - 2"] by simp
    moreover have "outside + s - 2 = outside + (s - 2)"
      using that by simp
    ultimately show ?thesis
      by (simp only: split)
  qed
  have esc: "st = WEscape \<Longrightarrow> last before = 0x1B"
    using escape_last [of before] st by simp
  have des: "st = WDesignator \<Longrightarrow> introduces_charset (last before) \<and> before ! (length before - 2) = 0x1B"
    using designator_last [of before] st by simp
  have lead: "b \<noteq> 0x1B" "\<not> introduces_charset b" if "utf8_expected_len b \<noteq> None" for b
    using that by (auto simp: utf8_expected_len_def introduces_charset_def in_range_unat split: if_splits)
  consider "length window < RETAINED_WINDOW_BYTES"
    | (decided) "RETAINED_WINDOW_BYTES \<le> length window" "s < length window" "window ! s = 0x1B"
        "\<not> esc_may_be_designator_byte window s"
    | (partial) "s < length window" "utf8_expected_len (window ! s) \<noteq> None"
    | (none) "RETAINED_WINDOW_BYTES \<le> length window" "s = length window"
    using derive_prefix_start_cases [of window] s by auto
  then show ?thesis
  proof cases
    case 1
    then have "before = []"
      using s window by (auto simp: before derive_prefix_start_def last_n_def)
    with st show ?thesis by simp
  next
    case decided
    have "st \<noteq> WDesignator"
    proof
      assume "st = WDesignator"
      note des [OF this]
      moreover have "0 < s"
        using decided by (cases s) (simp_all add: esc_may_be_designator_byte_def)
      ultimately show False
        using decided last prev
        by (cases s; cases "s - 1") (auto simp: esc_may_be_designator_byte_def)
    qed
    moreover have "hd view = 0x1B"
      using decided by (simp add: view hd_append hd_drop_conv_nth)
    ultimately show ?thesis
      by (cases view) (auto simp: ready_def introduces_charset_def)
  next
    case partial
    then have "hd view = window ! s"
      by (simp add: view hd_append hd_drop_conv_nth)
    with partial lead [of "hd view"] show ?thesis
      by (cases view) (auto simp: ready_def)
  next
    case none
    then have "window \<noteq> []" "2 \<le> length window"
      by (auto simp: RETAINED_WINDOW_BYTES_def)
    with none have ends: "last before = last window" "before ! (length before - 2) = window ! (length window - 2)" "view = chunk"
      using last prev by (auto simp: last_conv_nth RETAINED_WINDOW_BYTES_def view)
    show ?thesis
    proof (cases "st = WDesignator")
      case True
      with none des ends show ?thesis
        by (auto simp: first_chunk_byte_may_be_designator_def RETAINED_WINDOW_BYTES_def)
    next
      case False
      with esc ends chunk none s show ?thesis
        by (cases view) (auto simp: ready_def blind_spot_def)
    qed
  qed
qed

lemma raw_items_all:
  assumes window: "window = last_n RETAINED_WINDOW_BYTES past" and s: "s = derive_prefix_start window"
    and before: "before = take (length past - (length window - s)) past"
    and view: "view = drop s window @ chunk" and rule: "item_rule (fst (parse parser_new before)) view D"
    and chunk: "\<not> blind_spot window chunk"
  shows "list_all D
    (if first_chunk_byte_may_be_designator window s
     then common_items (rd_items (walk_view view 0 dt)) (rd_items (walk_view view 1 dt))
     else rd_items (walk_view view 0 dt))"
proof -
  define st where "st = foldl written_advance WGround before"
  have tracked: "tracks st (fst (parse parser_new before))"
    unfolding st_def by (intro tracks_run tracks_new) (simp add: parser_new_def)
  note common = set_common_items [of "rd_items (walk_view view 0 dt)" "rd_items (walk_view view 1 dt)"]
  consider "view = [] \<or> ready st view \<or> st = WDesignator \<and> hd view \<noteq> 0x1B"
    | "st = WDesignator" "first_chunk_byte_may_be_designator window s"
    using start_state [OF window s before st_def view chunk] by blast
  then show ?thesis
  proof cases
    case 1
    with common walk_view_items [OF tracked rule, of dt] show ?thesis
      by (auto simp: list_all_iff)
  next
    case 2
    with common walk_after_designator_items [OF _ rule, of dt] tracked show ?thesis
      by (auto simp: list_all_iff)
  qed
qed

text \<open>The byte at the end of the item makes the parser of the whole stream dispatch it.\<close>

definition client_dispatches :: "u8 list \<Rightarrow> u8 list \<Rightarrow> scan_item_kind \<Rightarrow> nat \<Rightarrow> bool" where
  "client_dispatches past chunk kind e \<longleftrightarrow>
     0 < e \<and> e \<le> length chunk
     \<and> list_ex (item_action kind)
          (snd (parse_byte (fst (parse parser_new (past @ take (e - 1) chunk))) (chunk ! (e - 1))))"

lemma dispatched_client:
  assumes "before @ w = past" "dispatched (fst (parse parser_new before)) (w @ chunk) it" "length w < si_end it"
  shows "client_dispatches past chunk (si_kind it) (si_end it - length w)"
proof -
  obtain n where n: "si_end it = length w + Suc n"
    using assms(3) less_imp_Suc_add by auto
  have "fst (parse (fst (parse parser_new before)) (w @ take n chunk)) = fst (parse parser_new (past @ take n chunk))"
    by (simp add: assms(1) [symmetric] parse_append_fst)
  with assms(2) n show ?thesis
    by (simp add: dispatched_def client_dispatches_def nth_append)
qed

text \<open>The walked view: the last bytes of the stream, from where the walk starts, and the chunk.\<close>

definition walked_window :: "u8 list \<Rightarrow> u8 list" where
  "walked_window window = drop (derive_prefix_start window) window"

definition before_walk :: "u8 list list \<Rightarrow> u8 list \<Rightarrow> u8 list" where
  "before_walk reads window = take (length (concat reads) - length (walked_window window)) (concat reads)"

lemma scan_items_all:
  assumes reads: "window = foldl advance_retained_window [] reads" and small: "length chunk + RETAINED_WINDOW_BYTES \<le> MAX_OSC_LEN"
    and spot: "\<not> blind_spot window chunk" and out: "out = scan_suppressed window chunk excluded"
  shows "before_walk reads window @ walked_window window = concat reads" "so_combined out = walked_window window @ chunk"
    "so_boundary out = length (walked_window window)" "length (walked_window window @ chunk) \<le> MAX_OSC_LEN"
    "list_all (\<lambda>it. length (walked_window window) < si_end it) (so_items out)"
    "item_rule (fst (parse parser_new (before_walk reads window))) (walked_window window @ chunk) D \<Longrightarrow> list_all D (so_items out)"
proof -
  define s where "s = derive_prefix_start window"
  define raw where "raw dt = (if first_chunk_byte_may_be_designator window s
     then common_items (rd_items (walk_view (walked_window window @ chunk) 0 dt)) (rd_items (walk_view (walked_window window @ chunk) 1 dt))
     else rd_items (walk_view (walked_window window @ chunk) 0 dt))" for dt
  have window: "window = last_n RETAINED_WINDOW_BYTES (concat reads)"
    using reads by (simp add: retained_window)
  have le: "s \<le> length window" "length window \<le> length (concat reads)"
    using derive_prefix_start_le [of window] window by (simp_all add: s_def last_n_def)
  have w: "walked_window window = drop s window" "length (walked_window window) = length window - s"
    by (simp_all add: walked_window_def s_def)
  have "drop s window = drop (length (concat reads) - (length window - s)) (concat reads)"
    using le window by (auto simp: last_n_def add.commute)
  then show "before_walk reads window @ walked_window window = concat reads"
    by (simp add: before_walk_def w)
  show "so_combined out = walked_window window @ chunk" "so_boundary out = length (walked_window window)"
    by (simp_all add: out scan_suppressed_def scan_with_reading_count_def Let_def s_def w split: prod.split)
  show "length (walked_window window @ chunk) \<le> MAX_OSC_LEN"
    using small arg_cong [OF window, of length] by (simp add: w(2))
  have items: "set (so_items out) \<subseteq> {it \<in> set (raw (excluded = [])). length (walked_window window) < si_end it}"
    by (auto simp: out scan_suppressed_def scan_with_reading_count_def Let_def raw_def s_def w)
  then show "list_all (\<lambda>it. length (walked_window window) < si_end it) (so_items out)"
    by (auto simp: list_all_iff)
  assume rule: "item_rule (fst (parse parser_new (before_walk reads window))) (walked_window window @ chunk) D"
  have "list_all D (raw (excluded = []))"
    unfolding raw_def
    by (rule raw_items_all [OF window s_def _ _ rule spot]) (simp_all add: before_walk_def w)
  with items show "list_all D (so_items out)"
    by (auto simp: list_all_iff)
qed

lemma scan_items_dispatched:
  assumes "window = foldl advance_retained_window [] reads" "length chunk + RETAINED_WINDOW_BYTES \<le> MAX_OSC_LEN"
    and "\<not> blind_spot window chunk"
  shows "list_all (\<lambda>it. client_dispatches (concat reads) chunk (si_kind it)
             (si_end it - so_boundary (scan_suppressed window chunk excluded)))
           (so_items (scan_suppressed window chunk excluded))"
proof -
  note all = scan_items_all [OF assms, where excluded = excluded, OF refl]
  from all(6) [OF dispatched_rule [OF all(4)]] all(5) show ?thesis
    unfolding all(3) list_all_iff using dispatched_client [OF all(1)] by blast
qed

text \<open>C13. What the scan of a chunk reports, the client does: for any reads so far and any chunk,
  every reported device query, colour query, program status query and viewer launch ends at a byte
  at which the client's parser, having read the whole stream, dispatches just that.  The premises:
  the walked bytes fit the parser's limit for a command, and the window does not end in an
  undecided escape character before an introducer of a designator.\<close>

theorem suppressed_scan_fabricates_nothing:
  assumes "window = foldl advance_retained_window [] reads" "length chunk + RETAINED_WINDOW_BYTES \<le> MAX_OSC_LEN"
    and "\<not> blind_spot window chunk"
  shows "list_all (\<lambda>it. client_dispatches (concat reads) chunk (si_kind it)
             (si_end it - so_boundary (scan_suppressed window chunk excluded)))
           (so_items (scan_suppressed window chunk excluded))"
  using assms by (rule scan_items_dispatched)

definition cursor_report_request :: "u8 list" where
  "cursor_report_request = [0x1B, 0x5B, 0x36, 0x6E]"

lemma scan_cursor_report:
  "scan_csi_device_query [0x36, 0x6E] = Some (2, [])"
  by (simp add: scan_csi_device_query_def first_param_start_def first_param_feed_def csi_is_device_query_def
      digit32_def sat_defs is_digit_def in_range_unat U32_MAX_def as_u8_def)

lemma suppressed_scan_example:
  "so_items (scan_suppressed [0x41] cursor_report_request []) = [\<lparr>si_kind = CsiQuery, si_start = 1, si_end = 5\<rparr>]"
  "so_boundary (scan_suppressed [0x41] cursor_report_request []) = 1"
  by (simp_all add: scan_suppressed_def scan_with_reading_count_def derive_prefix_start_def RETAINED_WINDOW_BYTES_def
      first_chunk_byte_may_be_designator_def walk_view_def cursor_report_request_def scan_cursor_report push_item_def
      overlaps_excluded_def Let_def)

lemma suppressed_scan_fabricates_nothing_witness:
  "client_dispatches [0x41] cursor_report_request CsiQuery 4"
proof -
  have "\<not> blind_spot [0x41] cursor_report_request"
    by (simp add: blind_spot_def RETAINED_WINDOW_BYTES_def)
  moreover have "[0x41] = foldl advance_retained_window [] [[0x41]]"
    by (simp only: retained_window) (simp add: RETAINED_WINDOW_BYTES_def)
  moreover have "length cursor_report_request + RETAINED_WINDOW_BYTES \<le> MAX_OSC_LEN"
    by (simp add: cursor_report_request_def RETAINED_WINDOW_BYTES_def MAX_OSC_LEN_def)
  ultimately have "list_all (\<lambda>it. client_dispatches (concat [[0x41]]) cursor_report_request (si_kind it)
             (si_end it - so_boundary (scan_suppressed [0x41] cursor_report_request [])))
           (so_items (scan_suppressed [0x41] cursor_report_request []))"
    using suppressed_scan_fabricates_nothing [of "[0x41]" "[[0x41]]" cursor_report_request "[]"] by blast
  then show ?thesis
    by (simp add: suppressed_scan_example)
qed

section \<open>The blind spot\<close>

text \<open>A full window of pairs \<open>( ESC\<close> after one escape character: every escape character in it
  may have been a designator, the last one was not.  A chunk that starts with \<open>( ESC [ 6 n\<close> then
  has its escape character taken as the designator, and \<open>[6n\<close> printed; the scan reports a query.\<close>

definition charset_chain :: "nat \<Rightarrow> u8 list" where
  "charset_chain n = concat (replicate n [0x28, 0x1B])"

lemma charset_chain_Suc: "charset_chain (Suc n) = 0x28 # 0x1B # charset_chain n"
  by (simp add: charset_chain_def)

lemma charset_chain_nth:
  "i < 2 * n \<Longrightarrow> charset_chain n ! i = (if even i then 0x28 else 0x1B)"
  "length (charset_chain n) = 2 * n"
proof -
  show "length (charset_chain n) = 2 * n"
    by (induction n) (simp_all add: charset_chain_Suc, simp add: charset_chain_def)
  show "i < 2 * n \<Longrightarrow> charset_chain n ! i = (if even i then 0x28 else 0x1B)"
  proof (induction n arbitrary: i)
    case (Suc n)
    then show ?case
      by (cases i; cases "i - 1") (auto simp: charset_chain_Suc)
  qed simp
qed

lemma charset_chain_undecided: "derive_prefix_start (charset_chain 128) = 256"
proof -
  have "esc_may_be_designator_byte (charset_chain 128) i" if "charset_chain 128 ! i = 0x1B" "i < 256" for i
  proof -
    have odd: "odd i"
      using that charset_chain_nth(1) [of i 128] by (auto split: if_splits)
    show ?thesis
    proof (cases "i - 1")
      case 0
      with odd have "i = 1" by (cases i) auto
      then show ?thesis
        by (simp add: esc_may_be_designator_byte_def charset_chain_nth introduces_charset_def)
    next
      case (Suc j)
      with odd have "i = Suc (Suc j)" "odd j" by (cases i; auto)+
      with that(2) show ?thesis
        by (simp add: esc_may_be_designator_byte_def charset_chain_nth introduces_charset_def)
    qed
  qed
  then have "find (\<lambda>i. charset_chain 128 ! i = 0x1B \<and> \<not> esc_may_be_designator_byte (charset_chain 128) i) [0..<256] = None"
    by (auto simp: find_None_iff)
  moreover have "utf8_expected_len (charset_chain 128 ! i) = None" if "i < 256" for i
    using that charset_chain_nth(1) [of i 128] by (simp add: utf8_expected_len_def in_range_unat)
  then have "utf8_tail_start_at_end (charset_chain 128) = None"
    by (auto simp: utf8_tail_start_at_end_def find_None_iff charset_chain_nth Let_def)
  ultimately show ?thesis
    by (simp add: derive_prefix_start_def charset_chain_nth RETAINED_WINDOW_BYTES_def)
qed

lemma blind_spot_reported:
  "so_items (scan_suppressed (charset_chain 128) (0x28 # cursor_report_request) [])
     = [\<lparr>si_kind = CsiQuery, si_start = 1, si_end = 5\<rparr>]"
  "so_boundary (scan_suppressed (charset_chain 128) (0x28 # cursor_report_request) []) = 0"
proof -
  have chain: "charset_chain 128 \<noteq> []"
    using charset_chain_nth(2) [of 128] by auto
  moreover have "last (charset_chain 128) = 0x1B"
    using charset_chain_nth(1) [of 255 128] charset_chain_nth(2) [of 128] by (simp add: last_conv_nth [OF chain])
  ultimately have "\<not> first_chunk_byte_may_be_designator (charset_chain 128) 256"
    by (simp add: first_chunk_byte_may_be_designator_def introduces_charset_def)
  then show "so_items (scan_suppressed (charset_chain 128) (0x28 # cursor_report_request) [])
      = [\<lparr>si_kind = CsiQuery, si_start = 1, si_end = 5\<rparr>]"
    "so_boundary (scan_suppressed (charset_chain 128) (0x28 # cursor_report_request) []) = 0"
    by (simp_all add: scan_suppressed_def scan_with_reading_count_def charset_chain_undecided charset_chain_nth
        walk_view_def cursor_report_request_def scan_cursor_report push_item_def overlaps_excluded_def Let_def)
qed

lemma charset_chain_state:
  "foldl written_advance WEscape (charset_chain (2 * n)) = WEscape"
  by (induction n) (simp_all add: charset_chain_Suc written_advance_def, simp add: charset_chain_def)

lemma blind_spot_not_dispatched:
  "\<not> client_dispatches (0x1B # charset_chain 128) (0x28 # cursor_report_request) CsiQuery 5"
proof -
  let ?stream = "0x1B # charset_chain 128 @ [0x28, 0x1B, 0x5B, 0x36]"
  have "foldl written_advance WGround ?stream = WGround"
    using charset_chain_state [of 64] by (simp add: written_advance_def)
  then have "tracks WGround (fst (parse parser_new ?stream))"
    using tracks_run [where s = WGround and p = parser_new and bs = ?stream]
    by (simp add: tracks_def parser_new_def)
  then have "list_all (\<lambda>a. \<not> asks a) (snd (parse_byte (fst (parse parser_new ?stream)) 0x6E))"
    using asks_byte by (simp add: answered_here_def)
  then show ?thesis
    by (simp add: client_dispatches_def cursor_report_request_def item_action_def list_ex_iff list_all_iff)
qed

end
