(* ===== verification/ClientParityComplete.thy ===== *)
theory ClientParityComplete
  imports ClientParityFacts
begin

text \<open>
  The scan of suppressed output misses nothing as long as the retained window still holds the
  whole stream: every query and launch the client would act on inside the chunk is reported.
\<close>

section \<open>Bytes at which nothing of interest is dispatched\<close>

definition no_item :: "parser \<Rightarrow> u8 \<Rightarrow> bool" where
  "no_item p b \<longleftrightarrow> (\<forall>k. \<not> list_ex (item_action k) (snd (parse_byte p b)))"

definition no_command :: "parsed_action \<Rightarrow> bool" where
  "no_command a \<longleftrightarrow> (case a of OscDispatch n data t _ \<Rightarrow> t = VtParser.Unterminated | _ \<Rightarrow> True)"

lemma no_itemI:
  "list_all no_command (snd (parse_byte p b)) \<Longrightarrow> list_all (\<lambda>a. \<not> asks a) (snd (parse_byte p b)) \<Longrightarrow> no_item p b"
  by (auto simp: no_item_def item_action_def no_command_def list_all_iff list_ex_iff split: parsed_action.splits if_splits)

lemma no_command_other:
  "list_all no_command (snd (escape p b))"
  "list_all no_command (snd (ground p b))" "list_all no_command (snd (escape_charset p d b))"
  "list_all no_command (snd (csi_entry p b))" "list_all no_command (snd (csi_param p b))"
  "list_all no_command (snd (apc_string p b))" "list_all no_command (snd (dcs_string p b))"
  "list_all no_command (snd (apc_escape p b))" "list_all no_command (snd (dcs_escape p b))"
proof -
  show esc: "list_all no_command (snd (escape p b))" for p b
    by (simp add: escape_def no_command_def)
  have "list_all no_command x2" if "escape q b = (x1, x2)" for q x1 x2
    using esc [of q b] that by simp
  then show "list_all no_command (snd (apc_escape p b))" "list_all no_command (snd (dcs_escape p b))"
    by (auto simp: apc_escape_def dispatch_apc_def dcs_escape_def dispatch_dcs_def Let_def no_command_def split: prod.split)
qed (auto simp: ground_def ground_match_def handle_utf8_byte_def escape_charset_def csi_entry_def csi_param_def
      dispatch_csi_def apc_string_def dcs_string_def no_command_def Let_def split: option.split list.split prod.split)

lemma no_command_byte:
  assumes "\<not> (ps_state p = OscString \<and> b = 0x07)" "\<not> (ps_state p = OscEscape \<and> b = 0x5C)"
  shows "list_all no_command (snd (parse_byte p b))"
proof (cases "ps_state p")
  case OscString
  with assms(1) show ?thesis
    by (auto simp: parse_byte_def osc_string_def Let_def split: prod.split)
next
  case OscEscape
  have "list_all no_command x2" if "escape q b = (x1, x2)" for q x1 x2
    using no_command_other(1) [of q b] that by simp
  with OscEscape assms(2) show ?thesis
    by (auto simp: parse_byte_def osc_escape_def dispatch_osc_def no_command_def Let_def split: prod.split)
qed (simp_all add: parse_byte_def no_command_other)

lemma no_item_byte:
  assumes "tracks s p" "\<not> answered_here s b"
    and "\<not> (ps_state p = OscString \<and> b = 0x07)" "\<not> (ps_state p = OscEscape \<and> b = 0x5C)"
  shows "no_item p b"
  using no_itemI [OF no_command_byte [OF assms(3,4)]] asks_byte [OF assms(1), of b] assms(2) by simp

lemma tracks_not_osc: "tracks s p \<Longrightarrow> s \<noteq> WOscBody \<Longrightarrow> s \<noteq> WEscape \<Longrightarrow> ps_state p \<noteq> OscString \<and> ps_state p \<noteq> OscEscape"
  by (auto simp: tracks_def)

text \<open>A run of such bytes.\<close>

fun still :: "parser \<Rightarrow> u8 list \<Rightarrow> bool" where
  "still p [] \<longleftrightarrow> True"
| "still p (b # bs) \<longleftrightarrow> no_item p b \<and> still (fst (parse_byte p b)) bs"

lemma still_append: "still p (xs @ ys) \<longleftrightarrow> still p xs \<and> still (fst (parse p xs)) ys"
  by (induction xs arbitrary: p) (simp_all add: parse_Cons split_def Let_def)

abbreviation to_escape :: "u8 list \<Rightarrow> u8 list" where
  "to_escape bs \<equiv> takeWhile (\<lambda>b. b \<noteq> 0x1B) bs"

lemma no_item_plain: "tracks s p \<Longrightarrow> s \<in> {WGround, WDesignator, WStBody} \<Longrightarrow> no_item p b"
  using tracks_not_osc [of s p] by (intro no_item_byte [of s]) (auto simp: answered_here_def)

lemma still_ground: "tracks WGround p \<Longrightarrow> 0x1B \<notin> set bs \<Longrightarrow> still p bs"
proof (induction bs arbitrary: p)
  case (Cons b bs)
  then have "tracks WGround (fst (parse_byte p b))"
    using tracks_step [OF Cons.prems(1), of b] by (auto simp: written_advance_def)
  with Cons show ?case
    by (simp add: no_item_plain)
qed simp

lemma still_st: "tracks WStBody p \<Longrightarrow> 0x1B \<notin> set (butlast bs) \<Longrightarrow> still p bs"
proof (induction bs arbitrary: p)
  case (Cons b bs)
  then have "bs \<noteq> [] \<Longrightarrow> tracks WStBody (fst (parse_byte p b))"
    using tracks_step [OF Cons.prems(1), of b] by (auto simp: written_advance_def)
  with Cons show ?case
    by (cases bs) (simp_all add: no_item_plain)
qed simp

lemma still_osc: "ps_state p = OscString \<Longrightarrow> 0x07 \<notin> set bs \<Longrightarrow> 0x1B \<notin> set (butlast bs) \<Longrightarrow> still p bs"
proof (induction bs arbitrary: p)
  case (Cons b bs)
  have "tracks WOscBody p"
    using Cons.prems(1) by (simp add: tracks_def)
  then have "no_item p b"
    using Cons.prems by (intro no_item_byte [of WOscBody]) (auto simp: answered_here_def)
  moreover have "bs \<noteq> [] \<Longrightarrow> ps_state (fst (parse_byte p b)) = OscString"
    using Cons.prems by (auto simp: parse_byte_def osc_string_state)
  ultimately show ?case
    using Cons by (cases bs) auto
qed simp

lemma still_csi:
  "tracks (WCsi oc) p \<Longrightarrow> open_csi_query oc bs = None \<Longrightarrow> still p (to_escape bs)"
proof (induction bs arbitrary: oc p)
  case (Cons b bs)
  show ?case
  proof (cases "b = 0x1B")
    case False
    have "\<not> completes_an_answered_query oc b"
      using Cons.prems by (auto split: if_splits)
    then have quiet: "no_item p b"
      using tracks_not_osc [OF Cons.prems(1)] Cons.prems(1)
      by (intro no_item_byte [of "WCsi oc"]) (auto simp: answered_here_def)
    obtain st oc1 where step: "open_csi_advance oc b = (st, oc1)"
      by (cases "open_csi_advance oc b")
    note track = tracks_step [OF Cons.prems(1), of b]
    show ?thesis
    proof (cases st)
      case (StepOpen ph)
      with step track have "tracks (WCsi oc1) (fst (parse_byte p b))"
        by (simp add: written_advance_def)
      with Cons.IH [of oc1] Cons.prems step StepOpen \<open>\<not> completes_an_answered_query oc b\<close> quiet False show ?thesis
        by simp
    next
      case StepEnd
      with step track have "tracks WGround (fst (parse_byte p b))"
        by (simp add: written_advance_def)
      then have "still (fst (parse_byte p b)) (to_escape bs)"
        by (rule still_ground) (auto dest: set_takeWhileD)
      with quiet False show ?thesis by simp
    next
      case StepAbort
      with step False show ?thesis
        by (auto simp: open_csi_advance_def csi_step_def Let_def split: if_splits)
    qed
  qed simp
qed simp

fun the_csi :: "written_state \<Rightarrow> open_csi" where
  "the_csi (WCsi oc) = oc"
| "the_csi _ = open_csi_entry"

lemma still_csi_query:
  "tracks (WCsi oc) p \<Longrightarrow> open_csi_query oc bs = Some k \<Longrightarrow> still p (take (k - 1) bs)"
proof (induction bs arbitrary: oc p k)
  case (Cons b bs)
  show ?case
  proof (cases "completes_an_answered_query oc b")
    case False
    then have quiet: "no_item p b"
      using tracks_not_osc [OF Cons.prems(1)] Cons.prems(1)
      by (intro no_item_byte [of "WCsi oc"]) (auto simp: answered_here_def)
    obtain ph oc1 n where step: "open_csi_advance oc b = (StepOpen ph, oc1)"
        "open_csi_query oc1 bs = Some n" "k = Suc n"
      using Cons.prems(2) False by (auto split: prod.splits csi_step_kind.splits)
    then have track: "tracks (WCsi oc1) (fst (parse_byte p b))"
      using tracks_step [OF Cons.prems(1), of b] by (simp add: written_advance_def)
    obtain m where "n = Suc m"
      using csi_query_run [OF step(2) track] by (cases n) auto
    with Cons.IH [OF track step(2)] quiet step(3) show ?thesis
      by simp
  qed (use Cons in auto)
qed simp

lemma csi_query_inside:
  "open_csi_query oc bs = Some k \<Longrightarrow> tracks (WCsi oc) p \<Longrightarrow>
   tracks (WCsi (the_csi (foldl written_advance (WCsi oc) (take (k - 1) bs)))) (fst (parse p (take (k - 1) bs)))"
proof (induction bs arbitrary: oc p k)
  case (Cons b bs)
  show ?case
  proof (cases "completes_an_answered_query oc b")
    case False
    obtain ph oc1 n where step: "open_csi_advance oc b = (StepOpen ph, oc1)"
        "open_csi_query oc1 bs = Some n" "k = Suc n"
      using Cons.prems(1) False by (auto split: prod.splits csi_step_kind.splits)
    then have adv: "written_advance (WCsi oc) b = WCsi oc1"
      by (simp add: written_advance_def)
    then have track: "tracks (WCsi oc1) (fst (parse_byte p b))"
      using tracks_step [OF Cons.prems(2), of b] by simp
    obtain m where "n = Suc m"
      using csi_query_run [OF step(2) track] by (cases n) auto
    with Cons.IH [OF step(2) track] step(3) adv show ?thesis
      by (simp add: parse_Cons split_def Let_def)
  qed (use Cons in auto)
qed simp

section \<open>The walk misses nothing\<close>

definition found :: "scan_item list \<Rightarrow> scan_item_kind \<Rightarrow> nat \<Rightarrow> bool" where
  "found items k e \<longleftrightarrow> (\<exists>it\<in>set items. si_kind it = k \<and> si_end it = e)"

fun complete :: "parser \<Rightarrow> nat \<Rightarrow> u8 list \<Rightarrow> scan_item list \<Rightarrow> bool" where
  "complete p pos [] items \<longleftrightarrow> True"
| "complete p pos (b # bs) items \<longleftrightarrow>
     (\<forall>k. list_ex (item_action k) (snd (parse_byte p b)) \<longrightarrow> found items k (pos + 1))
     \<and> complete (fst (parse_byte p b)) (pos + 1) bs items"

lemma complete_append:
  "complete p pos (xs @ ys) items \<longleftrightarrow>
     complete p pos xs items \<and> complete (fst (parse p xs)) (pos + length xs) ys items"
  by (induction xs arbitrary: p pos) (simp_all add: parse_Cons split_def Let_def)

lemma complete_still: "still p bs \<Longrightarrow> complete p pos bs items"
  by (induction bs arbitrary: p pos) (simp_all add: no_item_def)

lemma complete_nth:
  "complete p pos bs items \<Longrightarrow> n < length bs \<Longrightarrow>
   list_ex (item_action k) (snd (parse_byte (fst (parse p (take n bs))) (bs ! n))) \<Longrightarrow> found items k (pos + n + 1)"
  using complete_append [of p pos "take n bs" "drop n bs" items]
  by (simp only: append_take_drop_id) (simp add: Cons_nth_drop_Suc [symmetric] min_absorb2)

text \<open>A run that ends with an item.\<close>

lemma complete_item:
  assumes "still p (take (t - 1) bs)" "0 < t" "t \<le> length bs"
    and "\<And>k. list_ex (item_action k) (snd (parse_byte (fst (parse p (take (t - 1) bs))) (bs ! (t - 1)))) \<Longrightarrow> found items k (pos + t)"
  shows "complete p pos (take t bs) items"
proof -
  have "take t bs = take (t - 1) bs @ [bs ! (t - 1)]"
    using assms(2,3) by (cases t) (simp_all add: take_Suc_conv_app_nth)
  with assms show ?thesis
    by (simp add: complete_append complete_still)
qed

lemma set_push_item: "set items \<subseteq> set (push_item items k i j)"
  by (cases k) (auto simp: push_item_def)

lemma walk_items_mono: "set base \<subseteq> set items \<Longrightarrow> set base \<subseteq> set (rd_items (walk_loop dt items pos rest))"
proof (induction "length rest" arbitrary: items pos rest rule: less_induct)
  case less
  note push = subset_trans [OF less.prems set_push_item]
  show ?case
  proof (cases rest)
    case (Cons b bs)
    have go: "set base \<subseteq> set items' \<Longrightarrow> length rest' \<le> length bs \<Longrightarrow> set base \<subseteq> set (rd_items (walk_loop dt items' pos' rest'))"
      for items' pos' rest'
      using less.hyps [of rest' items' pos'] Cons by simp
    show ?thesis
    proof (cases "b = 0x1B \<and> bs \<noteq> []")
      case True
      then obtain c body where bs: "bs = c # body" "b = 0x1B"
        by (cases bs) auto
      have go': "set base \<subseteq> set (rd_items (walk_loop dt items pos' (drop n body)))"
        "set base \<subseteq> set (rd_items (walk_loop dt (push_item items k i j) pos' (drop n body)))"
        "set base \<subseteq> set (rd_items (walk_loop dt items pos' bs))" for pos' n k i j
        using go [OF less.prems, of "drop n body" pos'] go [OF push, of "drop n body" k i j pos'] go [OF less.prems, of bs pos']
        by (simp_all add: bs)
      have here: "set base \<subseteq> set (rd_items (cut_reading items dt pos))"
        using less.prems by (simp add: cut_reading_def)
      consider "c = 0x5B" | "c = 0x5D" | "c = 0x5F \<or> c = 0x50" | "introduces_charset c" "c \<notin> {0x5B, 0x5D, 0x5F, 0x50}"
        | "c = 0x1B" | "\<not> introduces_charset c" "c \<notin> {0x5B, 0x5D, 0x5F, 0x50, 0x1B}"
        by blast
      then show ?thesis
      proof cases
        case 1
        then show ?thesis
          using go'(2,3) less.prems
          by (cases "scan_csi_device_query body") (simp_all add: Cons bs split: prod.split)
      next
        case 2
        then show ?thesis
          using go'(1,2) here by (cases "scan_osc_terminator 0 body") (simp_all add: Cons bs)
      next
        case 3
        then have "c \<noteq> 0x5B \<and> c \<noteq> 0x5D"
          by auto
        with 3 show ?thesis
          using go'(1) here by (cases "scan_st_terminator 0 body") (simp_all add: Cons bs)
      next
        case 4
        with here go'(1) [of _ 1] show ?thesis
          by (cases body) (simp_all add: Cons bs)
      next
        case 5
        with go'(3) show ?thesis
          by (simp add: Cons bs introduces_charset_def)
      next
        case 6
        with go'(1) [of _ 0] show ?thesis
          by (simp add: Cons bs)
      qed
    qed (use go [OF less.prems] less.prems Cons in \<open>auto simp: cut_reading_def\<close>)
  qed (use less.prems in simp)
qed

text \<open>What holds wherever the walk examines the rest: nothing happens before the next escape
  character, and that escape character does not end a command.\<close>

definition examined :: "parser \<Rightarrow> u8 list \<Rightarrow> bool" where
  "examined p rest \<longleftrightarrow>
     (\<exists>s. tracks s p \<and> ready s rest) \<and> still p (to_escape rest)
     \<and> (ps_state p = OscString \<longrightarrow> (\<exists>c body. rest = 0x1B # c # body \<and> c \<noteq> 0x5C))
     \<and> (tracks WEscape p \<longrightarrow> (\<exists>c body. rest = c # body \<and> (c = 0x5B \<or> c = 0x1B)))"

lemma tracks_escape_only: "tracks WEscape p \<Longrightarrow> tracks s p \<Longrightarrow> s = WEscape"
  by (auto simp: tracks_def split: pstate.splits)

lemma examined_ground: "tracks WGround p \<Longrightarrow> examined p rest"
  using tracks_not_osc [of WGround p] tracks_escape_only [of p WGround]
  by (auto simp: examined_def intro!: exI [of _ WGround] still_ground dest: set_takeWhileD)

lemma no_item_escape: "tracks s p \<Longrightarrow> no_item p 0x1B"
  by (intro no_item_byte [of s])
     (auto simp: answered_here_def completes_an_answered_query_def in_range_unat split: written_state.split)

lemma examined_escape:
  assumes "examined p (0x1B # c # body)"
  shows "tracks WEscape (fst (parse_byte p 0x1B))" "no_item p 0x1B" "no_item (fst (parse_byte p 0x1B)) c"
proof -
  obtain s where s: "tracks s p" "ready s (0x1B # c # body)"
    using assms by (auto simp: examined_def)
  then show track: "tracks WEscape (fst (parse_byte p 0x1B))"
    using tracks_step [of s p "0x1B"] ready_escape by metis
  show "no_item p 0x1B"
    using s(1) by (rule no_item_escape)
  show "no_item (fst (parse_byte p 0x1B)) c"
  proof (rule no_item_byte [OF track])
    show "\<not> (ps_state (fst (parse_byte p 0x1B)) = OscString \<and> c = 0x07)"
      using track by (auto simp: tracks_def)
    show "\<not> (ps_state (fst (parse_byte p 0x1B)) = OscEscape \<and> c = 0x5C)"
      using into_osc_escape [of p "0x1B"] assms by (auto simp: examined_def)
  qed (simp add: answered_here_def)
qed

lemma item_kind_unique:
  assumes "osc_body x p" "t \<noteq> VtParser.Unterminated" "list_ex (item_action k) (snd (dispatch_osc p t))"
  shows "osc_item_kind (recover_osc x) = Some k"
  using assms osc_body_kind [OF assms(1)]
  by (auto simp: dispatch_osc_def Let_def item_action_def asks_def split: if_splits)

lemma osc_complete_run:
  assumes "scan_osc_terminator 0 body = StringComplete e t" "osc_body [] p" "ps_state p = OscString"
    and "length body \<le> MAX_OSC_LEN"
  shows "still p (take (t - 1) body)"
    and "list_ex (item_action k) (snd (parse_byte (fst (parse p (take (t - 1) body))) (body ! (t - 1)))) \<Longrightarrow>
         osc_item_kind (recover_osc (take e body)) = Some k"
proof -
  have spec: "0x07 \<notin> set (take e body)" "0x1B \<notin> set (take e body)"
      "t = e + 1 \<and> e < length body \<and> body ! e = 0x07
       \<or> t = e + 2 \<and> e + 1 < length body \<and> body ! e = 0x1B \<and> body ! (e + 1) = 0x5C"
    using osc_terminator_spec [of 0 body] assms(1) by simp_all
  define q where "q = fst (parse p (take e body))"
  have q: "osc_body (take e body) q" "ps_state q = OscString"
    using osc_run [OF assms(2,3) spec(1,2)] assms(4) by (simp_all add: q_def)
  have tail: "take (t - 1) body = take e body \<or> take (t - 1) body = take e body @ [0x1B]"
    using spec(3) by (auto simp: take_Suc_conv_app_nth)
  then show "still p (take (t - 1) body)"
    using spec(1,2) by (intro still_osc [OF assms(3)]) (auto dest: in_set_butlastD)
  assume item: "list_ex (item_action k) (snd (parse_byte (fst (parse p (take (t - 1) body))) (body ! (t - 1))))"
  from spec(3) show "osc_item_kind (recover_osc (take e body)) = Some k"
  proof (elim disjE conjE)
    assume "t = e + 1" "body ! e = 0x07"
    then show ?thesis
      using q item item_kind_unique [OF q(1), of Bel k]
      by (simp add: q_def [symmetric] parse_byte_def osc_string_def split_def Let_def)
  next
    assume t: "t = e + 2" "e + 1 < length body" "body ! e = 0x1B" "body ! (e + 1) = 0x5C"
    have body: "osc_body (take e body) (q\<lparr>ps_state := OscEscape\<rparr>)"
      using q(1) by (simp add: osc_body_cong)
    have "fst (parse p (take (e + 1) body)) = q\<lparr>ps_state := OscEscape\<rparr>"
      using t q(2) by (simp add: take_Suc_conv_app_nth parse_append_fst parse_single q_def [symmetric] parse_byte_def osc_string_def)
    then have "list_ex (item_action k) (snd (dispatch_osc (q\<lparr>ps_state := OscEscape\<rparr>) St))"
      using item t by (simp add: parse_byte_def osc_escape_def split_def Let_def)
    with item_kind_unique [OF body, of St k] show ?thesis by simp
  qed
qed

lemma csi_item_kind:
  assumes "tracks (WCsi oc) p" "list_ex (item_action k) (snd (parse_byte p b))"
  shows "k = CsiQuery"
proof -
  have "list_all no_command (snd (parse_byte p b))"
    using tracks_not_osc [OF assms(1)] by (intro no_command_byte) simp_all
  then obtain a where a: "item_action k a" "no_command a"
    using assms(2) by (auto simp: list_all_iff list_ex_iff)
  show ?thesis
  proof (cases a)
    case (OscDispatch n data t m)
    with a show ?thesis by (simp add: item_action_def no_command_def split: if_splits)
  qed (use a(1) in \<open>simp_all add: item_action_def split: if_splits\<close>)
qed

lemma to_escape_all: "is_unterminated_csi_tail bs \<Longrightarrow> to_escape bs = bs"
  by (induction bs) (auto split: if_splits)

text \<open>The part of the walk behind an introducer: from the first byte of the body, at position
  \<open>q\<close>, a run of the body and then the walk.\<close>

definition walk_right :: "bool \<Rightarrow> parser \<Rightarrow> nat \<Rightarrow> u8 list \<Rightarrow> bool" where
  "walk_right dt p q body \<longleftrightarrow>
     (\<forall>n items. examined (fst (parse p (take n body))) (drop n body) \<longrightarrow>
        complete (fst (parse p (take n body))) (q + n) (drop n body) (rd_items (walk_loop dt items (q + n) (drop n body))))"

lemma run_complete:
  assumes "walk_right dt p q body" "complete p q (take n body) (rd_items (walk_loop dt items (q + n) (drop n body)))"
    "n \<le> length body" "examined (fst (parse p (take n body))) (drop n body)"
  shows "complete p q body (rd_items (walk_loop dt items (q + n) (drop n body)))"
  using assms complete_append [of p q "take n body" "drop n body"] by (simp add: walk_right_def)

lemma still_complete:
  assumes "walk_right dt p q body" "still p (take n body)" "n \<le> length body"
    "examined (fst (parse p (take n body))) (drop n body)"
  shows "complete p q body (rd_items (walk_loop dt items (q + n) (drop n body)))"
  by (rule run_complete [OF assms(1) complete_still [OF assms(2)] assms(3,4)])

lemma walk_csi_complete:
  assumes walk: "walk_right dt p q body" and track: "tracks (WCsi open_csi_entry) p"
    and k: "open_csi_query open_csi_entry body = Some k"
  shows "complete p q body (rd_items (walk_loop dt (push_item items (Some CsiQuery) i (q + k)) (q + k) (drop k body)))"
proof (rule run_complete [OF walk])
  note ends = csi_query_run [OF k track]
  then show "k \<le> length body" by simp
  show "examined (fst (parse p (take k body))) (drop k body)"
    using tracks_run [OF track, of "take k body"] ends by (intro examined_ground) simp
  let ?R = "rd_items (walk_loop dt (push_item items (Some CsiQuery) i (q + k)) (q + k) (drop k body))"
  have "found ?R CsiQuery (q + k)"
    using walk_items_mono [OF subset_refl, of "push_item items (Some CsiQuery) i (q + k)" dt "q + k" "drop k body"]
    by (force simp: found_def push_item_def)
  moreover have "kk = CsiQuery"
    if "list_ex (item_action kk) (snd (parse_byte (fst (parse p (take (k - 1) body))) (body ! (k - 1))))" for kk
    using csi_item_kind [OF csi_query_inside [OF k track] that] .
  ultimately show "complete p q (take k body) ?R"
    using ends still_csi_query [OF track k] by (intro complete_item) auto
qed

lemma walk_osc_complete:
  assumes walk: "walk_right dt p q body" and p: "osc_body [] p" "ps_state p = OscString" and size: "length body \<le> MAX_OSC_LEN"
    and t: "scan_osc_terminator 0 body = StringComplete e t"
  shows "complete p q body (rd_items (walk_loop dt
      (push_item items (osc_item_kind (recover_osc (take e body))) i (q + t)) (q + t) (drop t body)))"
proof (rule run_complete [OF walk])
  have track: "tracks WOscBody p"
    using p(2) by (simp add: tracks_def)
  note ends = osc_terminator_run(1) [OF t]
  then show "t \<le> length body" by simp
  show "examined (fst (parse p (take t body))) (drop t body)"
    using tracks_run [OF track, of "take t body"] ends by (intro examined_ground) simp
  define items' where "items' = push_item items (osc_item_kind (recover_osc (take e body))) i (q + t)"
  have "found (rd_items (walk_loop dt items' (q + t) (drop t body))) k (q + t)"
    if "osc_item_kind (recover_osc (take e body)) = Some k" for k
    using walk_items_mono [OF subset_refl, of items' dt "q + t" "drop t body"] that
    by (force simp: found_def items'_def push_item_def)
  with osc_complete_run [OF t p size] ends
  show "complete p q (take t body) (rd_items (walk_loop dt items' (q + t) (drop t body)))"
    by (intro complete_item) simp_all
qed

lemma walk_osc_aborted:
  assumes walk: "walk_right dt p q body" and p: "ps_state p = OscString" and a: "scan_osc_terminator 0 body = StringAborted a"
  shows "complete p q body (rd_items (walk_loop dt items (q + a) (drop a body)))"
proof (rule still_complete [OF walk])
  have track: "tracks WOscBody p"
    using p by (simp add: tracks_def)
  have spec: "0x07 \<notin> set (take a body)" "0x1B \<notin> set (take a body)" "a + 1 < length body" "body ! a = 0x1B" "body ! (a + 1) \<noteq> 0x5C"
    using osc_terminator_spec [of 0 body] a by simp_all
  then show "a \<le> length body" by simp
  show "still p (take a body)"
    using spec by (intro still_osc [OF p]) (auto dest: in_set_butlastD)
  have "drop a body = 0x1B # body ! (a + 1) # drop (a + 2) body"
    using spec by (simp add: Cons_nth_drop_Suc [symmetric])
  then show "examined (fst (parse p (take a body))) (drop a body)"
    using tracks_run [OF track, of "take a body"] osc_terminator_run(2) [OF a] spec(5)
      tracks_escape_only [of "fst (parse p (take a body))" WOscBody]
    by (auto simp: examined_def intro!: exI [of _ WOscBody])
qed

lemma walk_string_complete:
  assumes walk: "walk_right dt p q body" and track: "tracks WStBody p" and t: "scan_st_terminator 0 body = StringComplete e t"
  shows "complete p q body (rd_items (walk_loop dt items (q + t) (drop t body)))"
proof (rule still_complete [OF walk])
  note ends = st_terminator_run(1) [OF t]
  then show "t \<le> length body" by simp
  show "examined (fst (parse p (take t body))) (drop t body)"
    using tracks_run [OF track, of "take t body"] ends by (intro examined_ground) simp
  have spec: "0x1B \<notin> set (take e body)" "t = e + 2" "e + 1 < length body" "body ! e = 0x1B" "body ! (e + 1) = 0x5C"
    using st_terminator_spec [of 0 body] t by simp_all
  have "still p (take e body)"
    using spec by (intro still_st [OF track]) (auto dest: in_set_butlastD)
  moreover have q: "tracks WStBody (fst (parse p (take e body)))"
    using tracks_run [OF track, of "take e body"] spec(1) by (simp add: body_stays)
  moreover have "no_item (fst (parse_byte (fst (parse p (take e body))) 0x1B)) 0x5C"
    using tracks_step [OF q, of "0x1B"] into_osc_escape [of _ "0x1B"] tracks_not_osc [OF q]
    by (intro no_item_byte [of WEscape]) (auto simp: written_advance_def answered_here_def)
  ultimately show "still p (take t body)"
    using spec by (simp add: take_Suc_conv_app_nth still_append no_item_escape parse_append_fst parse_single)
qed

lemma walk_string_aborted:
  assumes walk: "walk_right dt p q body" and track: "tracks WStBody p" and a: "scan_st_terminator 0 body = StringAborted a"
  shows "complete p q body (rd_items (walk_loop dt items (q + a) (drop a body)))"
proof (rule still_complete [OF walk])
  have spec: "0x1B \<notin> set (take a body)" "a + 1 < length body" "body ! a = 0x1B"
    using st_terminator_spec [of 0 body] a by simp_all
  then show "a \<le> length body" by simp
  show "still p (take a body)"
    using spec by (intro still_st [OF track]) (auto dest: in_set_butlastD)
  have track': "tracks WStBody (fst (parse p (take a body)))"
    using tracks_run [OF track, of "take a body"] st_terminator_run(2) [OF a] by simp
  have "drop a body = 0x1B # drop (a + 1) body"
    using spec Cons_nth_drop_Suc [of a body] by simp
  then show "examined (fst (parse p (take a body))) (drop a body)"
    using track' tracks_not_osc [OF track'] tracks_escape_only [OF _ track'] by (auto simp: examined_def intro!: exI [of _ WStBody])
qed

lemma walk_escape_complete:
  assumes rest: "rest = 0x1B # c # body" and here: "examined p rest" and size: "length rest \<le> MAX_OSC_LEN"
    and go: "\<And>n items'. 0 < n \<Longrightarrow> examined (fst (parse p (take n rest))) (drop n rest) \<Longrightarrow>
      complete (fst (parse p (take n rest))) (pos + n) (drop n rest) (rd_items (walk_loop dt items' (pos + n) (drop n rest)))"
  shows "complete p pos rest (rd_items (walk_loop dt items pos rest))"
proof -
  define p1 where "p1 = fst (parse_byte p 0x1B)"
  define p2 where "p2 = fst (parse_byte p1 c)"
  note esc = examined_escape [OF here [unfolded rest], folded p1_def]
  have whole: "complete p pos rest R" if "complete p2 (pos + 2) body R" for R
    using that esc(2,3) by (simp add: rest p1_def p2_def no_item_def)
  have walk: "walk_right dt p2 (pos + 2) body"
    unfolding walk_right_def
  proof (intro allI impI)
    fix n items' assume "examined (fst (parse p2 (take n body))) (drop n body)"
    then show "complete (fst (parse p2 (take n body))) (pos + 2 + n) (drop n body) (rd_items (walk_loop dt items' (pos + 2 + n) (drop n body)))"
      using go [of "2 + n" items'] by (simp add: rest p1_def p2_def parse_Cons split_def Let_def)
  qed
  have cut: "complete p pos rest R" if "still p2 body" for R
    using whole complete_still that by blast
  have one: "complete p pos rest (rd_items (walk_loop dt items (pos + 1) (c # body)))" if "examined p1 (c # body)"
    using go [of 1 items] that esc(2) by (simp add: rest parse_single p1_def no_item_def)
  have state2: "tracks (written_advance WEscape c) p2"
    unfolding p2_def by (rule tracks_step [OF esc(1)])
  have not_osc: "ps_state p1 \<noteq> OscString"
    using esc(1) by (auto simp: tracks_def)
  consider (csi) "c = 0x5B" | (osc) "c = 0x5D" | (st) "c = 0x5F \<or> c = 0x50" | (charset) "introduces_charset c"
    | (esc) "c = 0x1B" | (other) "c \<notin> {0x1B, 0x5B, 0x5D, 0x5F, 0x50}" "\<not> introduces_charset c"
    by blast
  then show ?thesis
  proof cases
    case csi
    then have track: "tracks (WCsi open_csi_entry) p2"
      using state2 by (simp add: escape_advance)
    show ?thesis
    proof (cases "scan_csi_device_query body")
      case None
      then have calm: "still p2 (to_escape body)"
        using scan_csi_device_query_iff [of body] by (intro still_csi [OF track]) simp
      show ?thesis
      proof (cases "dt \<and> is_unterminated_csi_tail body")
        case True
        with calm cut csi None show ?thesis
          by (simp add: rest to_escape_all)
      next
        case False
        have "examined p1 (c # body)"
          using esc(1,3) calm not_osc csi by (auto simp: examined_def p2_def introduces_charset_def intro!: exI [of _ WEscape])
        moreover have "walk_loop dt items pos rest = walk_loop dt items (pos + 1) (c # body)"
          using csi None False by (auto simp: rest)
        ultimately show ?thesis
          using one by simp
      qed
    next
      case (Some r)
      then obtain k c0 where k: "scan_csi_device_query body = Some (k, c0)" "open_csi_query open_csi_entry body = Some k"
        using scan_csi_device_query_iff [of body] by (cases r) simp
      show ?thesis
        using whole [OF walk_csi_complete [OF walk track k(2), of items pos]] csi k(1) by (simp add: rest)
    qed
  next
    case osc
    have p2: "osc_body [] p2" "ps_state p2 = OscString" "length body \<le> MAX_OSC_LEN"
      using osc_opened [OF esc(1)] osc size by (simp_all add: p2_def rest)
    show ?thesis
    proof (cases "scan_osc_terminator 0 body")
      case (StringComplete e t)
      with whole [OF walk_osc_complete [OF walk p2 StringComplete, of items pos]] osc show ?thesis
        by (simp add: rest)
    next
      case (StringAborted a)
      with whole [OF walk_osc_aborted [OF walk p2(2) StringAborted, of items]] osc show ?thesis
        by (simp add: rest)
    next
      case StringUnterminated
      with cut still_osc [OF p2(2)] osc_terminator_spec [of 0 body] osc show ?thesis
        by (simp add: rest)
    qed
  next
    case st
    then have c: "c \<noteq> 0x5B \<and> c \<noteq> 0x5D" and track: "tracks WStBody p2"
      using state2 by (auto simp: escape_advance(3) [OF st])
    show ?thesis
    proof (cases "scan_st_terminator 0 body")
      case (StringComplete e t)
      with whole [OF walk_string_complete [OF walk track StringComplete, of items]] st c show ?thesis
        by (simp add: rest)
    next
      case (StringAborted a)
      with whole [OF walk_string_aborted [OF walk track StringAborted, of items]] st c show ?thesis
        by (simp add: rest)
    next
      case StringUnterminated
      with cut still_st [OF track] st_terminator_spec [of 0 body] st c show ?thesis
        by (simp add: rest)
    qed
  next
    case charset
    then have c: "c \<notin> {0x5B, 0x5D, 0x5F, 0x50}" and track: "tracks WDesignator p2"
      using state2 by (auto simp: introduces_charset_def escape_advance)
    show ?thesis
    proof (cases body)
      case Nil
      with cut charset c show ?thesis by (simp add: rest)
    next
      case (Cons d ds)
      have "examined (fst (parse_byte p2 d)) ds"
        using tracks_step [OF track, of d] by (intro examined_ground) (simp add: escape_advance)
      with whole [OF still_complete [OF walk, of 1 items]] no_item_plain [OF track] charset c Cons show ?thesis
        by (simp add: rest parse_single numeral_3_eq_3)
    qed
  next
    case esc
    have "examined p1 (c # body)"
      using \<open>tracks WEscape p1\<close> not_osc esc by (auto simp: examined_def introduces_charset_def intro!: exI [of _ WEscape])
    with one esc show ?thesis
      by (simp add: rest introduces_charset_def)
  next
    case other
    have "examined p2 body"
      using state2 other by (intro examined_ground) (simp add: escape_advance)
    with whole [OF still_complete [OF walk, of 0 items]] other show ?thesis
      by (simp add: rest)
  qed
qed

lemma walk_complete:
  "examined p rest \<Longrightarrow> length rest \<le> MAX_OSC_LEN \<Longrightarrow> complete p pos rest (rd_items (walk_loop dt items pos rest))"
proof (induction "length rest" arbitrary: p pos rest items rule: less_induct)
  case less
  have go: "complete (fst (parse p (take n rest))) (pos + n) (drop n rest) (rd_items (walk_loop dt items' (pos + n) (drop n rest)))"
    if "0 < n" "examined (fst (parse p (take n rest))) (drop n rest)" "rest \<noteq> []" for n items'
    using that less.prems(2) by (intro less.hyps) simp_all
  consider "rest = []" | b bs where "rest = b # bs" "b \<noteq> 0x1B" | "rest = [0x1B]" | c body where "rest = 0x1B # c # body"
    by (cases rest; cases "tl rest") auto
  then show ?case
  proof cases
    case 2
    then obtain s where s: "tracks s p" "ready s rest" and quiet: "no_item p b" "still (fst (parse_byte p b)) (to_escape bs)"
        and state: "ps_state p \<noteq> OscString"
      using less.prems(1) by (auto simp: examined_def)
    have track: "tracks (written_advance s b) (fst (parse_byte p b))" "ready (written_advance s b) bs"
      using tracks_step [OF s(1)] ready_plain s(2) 2 by auto
    have "written_advance s b \<noteq> WEscape"
      using 2(2) advance_to_escape by blast
    then have "\<not> tracks WEscape (fst (parse_byte p b))"
      using tracks_escape_only track(1) by blast
    moreover have "ps_state (fst (parse_byte p b)) \<noteq> OscString"
    proof
      assume "ps_state (fst (parse_byte p b)) = OscString"
      from into_osc_string [OF this] state have "b = 0x5D" "tracks WEscape p"
        by (auto simp: tracks_def)
      with less.prems(1) 2 show False
        by (auto simp: examined_def)
    qed
    ultimately have "examined (fst (parse_byte p b)) bs"
      using track quiet(2) by (auto simp: examined_def)
    with go [of 1 items] quiet(1) 2 show ?thesis
      by (simp add: parse_single no_item_def)
  next
    case 3
    with less.prems(1) show ?thesis
      by (auto simp: examined_def cut_reading_def no_item_def dest!: no_item_escape)
  next
    case 4
    show ?thesis
      by (rule walk_escape_complete [OF 4 less.prems]) (use go 4 in simp_all)
  qed simp
qed

section \<open>The scan of a short stream is exact\<close>

lemma short_stream_items:
  assumes "length window < RETAINED_WINDOW_BYTES"
  shows "so_boundary (scan_suppressed window chunk []) = length window"
    and "so_items (scan_suppressed window chunk []) = filter (\<lambda>it. length window < si_end it) (rd_items (walk_view (window @ chunk) 0 True))"
  using assms by (simp_all add: scan_suppressed_def scan_with_reading_count_def derive_prefix_start_def
      first_chunk_byte_may_be_designator_def overlaps_excluded_def Let_def)

lemma short_stream_complete:
  assumes "length past < RETAINED_WINDOW_BYTES" "length (past @ chunk) \<le> MAX_OSC_LEN" "client_dispatches past chunk k e"
  shows "found (so_items (scan_suppressed past chunk [])) k (length past + e)"
proof -
  have "examined parser_new (past @ chunk)"
    by (intro examined_ground tracks_new) (simp add: parser_new_def)
  from walk_complete [OF this assms(2), of 0 True "[]"]
  have complete: "complete parser_new 0 (past @ chunk) (rd_items (walk_view (past @ chunk) 0 True))"
    by (simp add: walk_view_def)
  have e: "0 < e" "e \<le> length chunk"
    using assms(3) by (simp_all add: client_dispatches_def)
  then have "(past @ chunk) ! (length past + (e - 1)) = chunk ! (e - 1)" "length past + (e - 1) < length (past @ chunk)"
    using nth_append_length_plus [of past chunk "e - 1"] by simp_all
  with complete_nth [OF complete, of "length past + (e - 1)" k] assms(3)
  have "found (rd_items (walk_view (past @ chunk) 0 True)) k (length past + e)"
    using e(1) by (simp add: client_dispatches_def)
  then show ?thesis
    using e(1) by (auto simp: found_def short_stream_items [OF assms(1)])
qed

text \<open>As long as the window still holds the whole stream, the scan of a chunk without
  exclusions is exact: an item of some kind that ends at some byte of the chunk is reported if and
  only if the client's parser dispatches a command of that kind at that byte.\<close>

theorem short_stream_scan_exact:
  assumes "window = foldl advance_retained_window [] reads" "length (concat reads) < RETAINED_WINDOW_BYTES"
    and "length chunk + RETAINED_WINDOW_BYTES \<le> MAX_OSC_LEN" "0 < e"
  shows "client_dispatches (concat reads) chunk k e \<longleftrightarrow>
    (\<exists>it\<in>set (so_items (scan_suppressed window chunk [])).
       si_kind it = k \<and> si_end it = so_boundary (scan_suppressed window chunk []) + e)"
proof -
  have window: "window = concat reads"
    using assms(1,2) by (simp add: retained_window)
  have spot: "\<not> blind_spot window chunk"
    using assms(2) by (simp add: blind_spot_def window)
  have "client_dispatches (concat reads) chunk (si_kind it) (si_end it - length window)"
    if "it \<in> set (so_items (scan_suppressed window chunk []))" for it
    using scan_items_dispatched [OF assms(1,3) spot, of "[]"] that assms(2)
    by (simp add: list_all_iff short_stream_items window)
  moreover have "client_dispatches (concat reads) chunk k e \<Longrightarrow> found (so_items (scan_suppressed window chunk [])) k (length window + e)"
    unfolding window by (rule short_stream_complete) (use assms in simp_all)
  ultimately show ?thesis
    using assms(2) by (fastforce simp: found_def short_stream_items window)
qed

lemma short_stream_scan_exact_witness:
  "client_dispatches [0x41] cursor_report_request CsiQuery 4 \<and> \<not> client_dispatches [0x41] cursor_report_request ColorQuery 4"
proof -
  have window: "[0x41] = foldl advance_retained_window [] [[0x41]]"
    by (simp only: retained_window) (simp add: RETAINED_WINDOW_BYTES_def)
  have "client_dispatches (concat [[0x41]]) cursor_report_request k 4 \<longleftrightarrow>
    (\<exists>it\<in>set (so_items (scan_suppressed [0x41] cursor_report_request [])).
       si_kind it = k \<and> si_end it = so_boundary (scan_suppressed [0x41] cursor_report_request []) + 4)" for k
    by (rule short_stream_scan_exact [OF window])
       (simp_all add: RETAINED_WINDOW_BYTES_def MAX_OSC_LEN_def cursor_report_request_def)
  then show ?thesis
    by (simp add: suppressed_scan_example)
qed

end
