(* ===== verification/ParserSame.thy ===== *)
theory ParserSame
  imports VtParserProps
begin

text \<open>
  When two parsers cannot be told apart: they agree on the state, on an unfinished character and
  on what the open construct has collected.  What a closed construct left behind does not matter.
\<close>

definition same_parser :: "parser \<Rightarrow> parser \<Rightarrow> bool" where
  "same_parser p q \<longleftrightarrow>
     ps_state p = ps_state q \<and> ps_utf8_buffer p = ps_utf8_buffer q
     \<and> (ps_state p \<in> {CsiEntry, CsiParam} \<longrightarrow> ps_params p = ps_params q)
     \<and> (ps_state p \<in> {OscString, OscEscape} \<longrightarrow>
          ps_osc_buffer p = ps_osc_buffer q \<and> ps_osc_param p = ps_osc_param q
          \<and> ps_osc_param_done p = ps_osc_param_done q \<and> ps_osc_received_len p = ps_osc_received_len q)
     \<and> (ps_state p \<in> {ApcString, ApcEscape} \<longrightarrow> ps_apc_buffer p = ps_apc_buffer q)
     \<and> (ps_state p \<in> {DcsString, DcsEscape} \<longrightarrow> ps_dcs_buffer p = ps_dcs_buffer q)"

lemma same_parser_refl [simp]: "same_parser p p"
  by (simp add: same_parser_def)

lemma same_parser_sym: "same_parser p q \<Longrightarrow> same_parser q p"
  by (auto simp: same_parser_def)

lemma same_parser_trans: "same_parser p q \<Longrightarrow> same_parser q r \<Longrightarrow> same_parser p r"
  by (auto simp: same_parser_def)

text \<open>Both results agree: the parsers cannot be told apart and the same is dispatched.\<close>

definition same_result :: "parser \<times> parsed_action list \<Rightarrow> parser \<times> parsed_action list \<Rightarrow> bool" where
  "same_result r s \<longleftrightarrow> same_parser (fst r) (fst s) \<and> snd r = snd s"

lemma pp_reset_eq: "pp_reset p = pp_reset q"
  by (simp add: pp_reset_def)

lemma same_escape:
  "ps_state p = Escape \<Longrightarrow> ps_state q = Escape \<Longrightarrow> ps_utf8_buffer p = ps_utf8_buffer q \<Longrightarrow> same_result (escape p b) (escape q b)"
  by (simp add: same_result_def same_parser_def escape_def pp_reset_eq)

lemma same_ground_match:
  "ps_state p = Ground \<Longrightarrow> ps_state q = Ground \<Longrightarrow> ps_utf8_buffer p = ps_utf8_buffer q \<Longrightarrow>
   same_result (ground_match p b) (ground_match q b)"
  by (simp add: same_result_def same_parser_def ground_match_def)

lemma same_ground:
  "ps_state p = Ground \<Longrightarrow> ps_state q = Ground \<Longrightarrow> ps_utf8_buffer p = ps_utf8_buffer q \<Longrightarrow>
   same_result (ground p b) (ground q b)"
proof -
  assume eq: "ps_state p = Ground" "ps_state q = Ground" "ps_utf8_buffer p = ps_utf8_buffer q"
  have "same_result (ground_match (p\<lparr>ps_utf8_buffer := []\<rparr>) b) (ground_match (q\<lparr>ps_utf8_buffer := []\<rparr>) b)"
    using eq by (intro same_ground_match) simp_all
  with same_ground_match [OF eq] eq show ?thesis
    by (auto simp: ground_def handle_utf8_byte_def same_result_def same_parser_def Let_def split: option.split)
qed

lemma same_string_escape:
  assumes "same_parser p q" "ps_state p \<in> {OscEscape, ApcEscape, DcsEscape}"
  shows "same_result (parse_byte p b) (parse_byte q b)"
proof -
  have esc: "same_result (escape (p1\<lparr>ps_state := Escape\<rparr>) b) (escape (q1\<lparr>ps_state := Escape\<rparr>) b)"
    if "ps_utf8_buffer p1 = ps_utf8_buffer q1" for p1 q1
    using that by (intro same_escape) simp_all
  have esc': "same_parser p2 q2 \<and> as = bs"
    if "escape (p1\<lparr>ps_state := Escape\<rparr>) b = (p2, as)" "escape (q1\<lparr>ps_state := Escape\<rparr>) b = (q2, bs)"
      "ps_utf8_buffer p1 = ps_utf8_buffer q1" for p1 q1 p2 q2 as bs
    using esc [OF that(3)] that(1,2) by (simp add: same_result_def)
  have eq: "ps_state q = ps_state p" "ps_utf8_buffer p = ps_utf8_buffer q"
    using assms(1) by (simp_all add: same_parser_def)
  consider "ps_state p = OscEscape" | "ps_state p = ApcEscape" | "ps_state p = DcsEscape"
    using assms(2) by blast
  then show ?thesis
  proof cases
    case 1
    with assms(1) eq show ?thesis
      by (auto simp: parse_byte_def osc_escape_def dispatch_osc_def same_result_def same_parser_def [of "_\<lparr>ps_state := Ground\<rparr>"]
          same_parser_def [of p] Let_def split: prod.split dest: esc')
  next
    case 2
    with assms(1) eq show ?thesis
      by (auto simp: parse_byte_def apc_escape_def dispatch_apc_def same_result_def same_parser_def [of "_\<lparr>ps_state := Ground\<rparr>"]
          same_parser_def [of p] Let_def split: prod.split dest: esc')
  next
    case 3
    with assms(1) eq show ?thesis
      by (auto simp: parse_byte_def dcs_escape_def dispatch_dcs_def same_result_def same_parser_def [of "_\<lparr>ps_state := Ground\<rparr>"]
          same_parser_def [of p] Let_def split: prod.split dest: esc')
  qed
qed

lemma same_byte: "same_parser p q \<Longrightarrow> same_result (parse_byte p b) (parse_byte q b)"
proof (cases "ps_state p \<in> {OscEscape, ApcEscape, DcsEscape}")
  case True
  then show "same_parser p q \<Longrightarrow> ?thesis" by (intro same_string_escape)
next
  case False
  assume eq: "same_parser p q"
  then have "ps_state q = ps_state p" "ps_utf8_buffer p = ps_utf8_buffer q"
    by (simp_all add: same_parser_def)
  then show ?thesis
    using False eq same_ground [of p q b] same_escape [of p q b]
    by (cases "ps_state p")
       (simp_all add: parse_byte_def escape_charset_def csi_entry_def csi_param_def dispatch_csi_def osc_string_def
         dispatch_osc_def count_osc_byte_def apc_string_def dcs_string_def same_result_def same_parser_def pp_reset_eq
         Let_def split: prod.split)
qed

lemma same_parse: "same_parser p q \<Longrightarrow> same_result (parse p bs) (parse q bs)"
proof (induction bs arbitrary: p q)
  case (Cons b bs)
  have step: "same_parser (fst (parse_byte p b)) (fst (parse_byte q b))" "snd (parse_byte p b) = snd (parse_byte q b)"
    using same_byte [OF Cons.prems, of b] by (simp_all add: same_result_def)
  with Cons.IH [OF step(1)] show ?case
    by (simp add: parse_Cons split_def Let_def same_result_def)
qed (simp add: parse_def same_result_def)

lemma same_parse_fst: "same_parser p q \<Longrightarrow> same_parser (fst (parse p bs)) (fst (parse q bs))"
  using same_parse by (simp add: same_result_def)

lemma same_parse_snd: "same_parser p q \<Longrightarrow> snd (parse p bs) = snd (parse q bs)"
  using same_parse by (simp add: same_result_def)


text \<open>After an introducer, nothing of what came before matters.\<close>

lemma same_after_introducer:
  assumes "ps_utf8_buffer p = ps_utf8_buffer q" "c \<in> {0x5B, 0x5D, 0x5F, 0x50, 0x28, 0x29}" "ps_state p = Escape" "ps_state q = Escape"
  shows "same_parser (fst (escape p c)) (fst (escape q c))"
  using same_escape [OF assms(3,4,1), of c] by (simp add: same_result_def)

text \<open>The states in which a byte is data whatever it is.\<close>

definition awaits_designator :: "parser \<Rightarrow> bool" where
  "awaits_designator p \<longleftrightarrow> (\<exists>d. ps_state p = EscapeCharset d)"

lemma escape_byte:
  assumes "parser_ok p" "\<not> awaits_designator p"
  shows "ps_state (fst (parse_byte p 0x1B)) \<in> {Escape, OscEscape, ApcEscape, DcsEscape}
      \<and> ps_utf8_buffer (fst (parse_byte p 0x1B)) = []"
proof -
  have "ps_state p \<noteq> Ground \<Longrightarrow> ps_utf8_buffer p = []"
    using no_pending [OF assms(1)] .
  with assms(2) show ?thesis
    by (cases "ps_state p")
       (auto simp: parse_byte_def ground_def ground_match_def handle_utf8_byte_def in_range_unat escape_def csi_entry_def csi_param_def
         is_digit_def osc_string_def osc_escape_def dispatch_osc_def apc_string_def apc_escape_def dispatch_apc_def
         dcs_string_def dcs_escape_def dispatch_dcs_def awaits_designator_def Let_def split: prod.split)
qed

lemma escape_opened:
  assumes "ps_state p \<in> {Escape, OscEscape, ApcEscape, DcsEscape}" "ps_utf8_buffer p = []" "c \<noteq> 0x5C"
  shows "\<exists>r. fst (parse_byte p c) = fst (escape r c) \<and> ps_state r = Escape \<and> ps_utf8_buffer r = []"
proof -
  consider "ps_state p = Escape" | "ps_state p = OscEscape" | "ps_state p = ApcEscape" | "ps_state p = DcsEscape"
    using assms(1) by blast
  then show ?thesis
  proof cases
    case 1
    with assms show ?thesis
      by (auto simp: parse_byte_def)
  next
    case 2
    with assms show ?thesis
      by (intro exI [of _ "(fst (dispatch_osc p Unterminated))\<lparr>ps_state := Escape\<rparr>"])
         (simp add: parse_byte_def osc_escape_def dispatch_osc_def Let_def split: prod.split)
  next
    case 3
    with assms show ?thesis
      by (intro exI [of _ "(fst (dispatch_apc p))\<lparr>ps_state := Escape\<rparr>"])
         (simp add: parse_byte_def apc_escape_def dispatch_apc_def Let_def split: prod.split)
  next
    case 4
    with assms show ?thesis
      by (intro exI [of _ "(fst (dispatch_dcs p))\<lparr>ps_state := Escape\<rparr>"])
         (simp add: parse_byte_def dcs_escape_def dispatch_dcs_def Let_def split: prod.split)
  qed
qed

text \<open>An escape character and an introducer make any two such parsers the same.\<close>

lemma restart_same:
  assumes "parser_ok p" "\<not> awaits_designator p" "parser_ok q" "\<not> awaits_designator q"
    and "c \<in> {0x5B, 0x5D, 0x5F, 0x50, 0x28, 0x29}"
  shows "same_parser (fst (parse p (0x1B # c # bs))) (fst (parse q (0x1B # c # bs)))"
proof -
  have c: "c \<noteq> 0x5C"
    using assms(5) by auto
  have "same_parser (fst (parse_byte (fst (parse_byte p 0x1B)) c)) (fst (parse_byte (fst (parse_byte q 0x1B)) c))"
    using escape_opened [OF _ _ c] escape_byte [OF assms(1,2)] escape_byte [OF assms(3,4)] same_after_introducer [OF _ assms(5)]
    by metis
  from same_parse_fst [OF this, of bs] show ?thesis
    by (simp add: parse_Cons split_def Let_def)
qed

end
