(* ===== verification/SuppressedOutput.thy ===== *)
theory SuppressedOutput
  imports ClientParityScan
begin

text \<open>
  What a client gets in place of output that its snapshot already covers
  (\<open>src-tauri/src/mux/ipc/pty_spawn/suppressed_output.rs\<close>), and which unfinished construct
  a snapshot leaves its parser in (\<open>src-tauri/src/mux/snapshot_tail.rs\<close>).
\<close>

section \<open>The construct a payload ends in\<close>

datatype trailing_tail =
    Utf8Partial "u8 list"
  | AwaitingDesignator "u8 list"
  | IncompleteCsi "u8 list"

fun construct_bytes :: "trailing_tail \<Rightarrow> u8 list" where
  "construct_bytes (Utf8Partial b) = b"
| "construct_bytes (AwaitingDesignator b) = b"
| "construct_bytes (IncompleteCsi b) = b"

definition is_awaiting_designator :: "u8 list \<Rightarrow> bool" where
  "is_awaiting_designator bytes \<longleftrightarrow> bytes = [0x1B, 0x28] \<or> bytes = [0x1B, 0x29]"

definition MAX_CONSTRUCT_LEN :: nat where "MAX_CONSTRUCT_LEN = 256"

text \<open>\<open>TUtf8\<close> holds the index of the lead byte, the bytes seen and the bytes needed.\<close>

datatype tail_state =
    TGround
  | TUtf8 nat nat nat
  | TEscape
  | TDesignator u8
  | TCsiEntry
  | TCsiParam
  | TOsc
  | TOscEscape
  | TApc
  | TApcEscape
  | TDcs
  | TDcsEscape

record tail_scan =
  tl_state :: tail_state
  tl_esc_start :: nat
  tl_csi_start :: nat

definition is_c0 :: "u8 \<Rightarrow> bool" where
  "is_c0 b \<longleftrightarrow> in_range 0x00 0x1A b \<or> in_range 0x1C 0x1F b"

definition ground_step :: "u8 \<Rightarrow> nat \<Rightarrow> tail_scan \<Rightarrow> tail_scan" where
  "ground_step b index t =
     (if b = 0x1B then t\<lparr>tl_state := TEscape, tl_esc_start := index\<rparr>
      else if in_range 0xC0 0xDF b then t\<lparr>tl_state := TUtf8 index 1 2\<rparr>
      else if in_range 0xE0 0xEF b then t\<lparr>tl_state := TUtf8 index 1 3\<rparr>
      else if in_range 0xF0 0xF7 b then t\<lparr>tl_state := TUtf8 index 1 4\<rparr>
      else t\<lparr>tl_state := TGround\<rparr>)"

definition escape_step :: "u8 \<Rightarrow> nat \<Rightarrow> tail_scan \<Rightarrow> tail_scan" where
  "escape_step b index t =
     (if b = 0x5B then t\<lparr>tl_state := TCsiEntry, tl_csi_start := tl_esc_start t\<rparr>
      else if b = 0x5D then t\<lparr>tl_state := TOsc\<rparr>
      else if b = 0x5F then t\<lparr>tl_state := TApc\<rparr>
      else if b = 0x50 then t\<lparr>tl_state := TDcs\<rparr>
      else if b = 0x28 \<or> b = 0x29 then t\<lparr>tl_state := TDesignator b\<rparr>
      else if b = 0x1B then t\<lparr>tl_state := TEscape, tl_esc_start := index\<rparr>
      else t\<lparr>tl_state := TGround\<rparr>)"

definition string_escape_step :: "u8 \<Rightarrow> nat \<Rightarrow> tail_scan \<Rightarrow> tail_scan" where
  "string_escape_step b index t =
     (if b = 0x5C then t\<lparr>tl_state := TGround\<rparr>
      else escape_step b index (t\<lparr>tl_esc_start := index - 1\<rparr>))"

definition tail_step :: "u8 \<Rightarrow> nat \<Rightarrow> tail_scan \<Rightarrow> tail_scan" where
  "tail_step b i t =
     (case tl_state t of
        TGround \<Rightarrow> ground_step b i t
      | TUtf8 start have_bytes need \<Rightarrow>
          if in_range 0x80 0xBF b then
            (if need \<le> have_bytes + 1 then t\<lparr>tl_state := TGround\<rparr>
             else t\<lparr>tl_state := TUtf8 start (have_bytes + 1) need\<rparr>)
          else ground_step b i t
      | TEscape \<Rightarrow> escape_step b i t
      | TDesignator _ \<Rightarrow> t\<lparr>tl_state := TGround\<rparr>
      | TCsiEntry \<Rightarrow>
          if is_digit b \<or> b \<in> {0x3F, 0x3E, 0x3C, 0x3D, 0x20, 0x3B, 0x3A} then t\<lparr>tl_state := TCsiParam\<rparr>
          else if in_range 0x40 0x7E b then t\<lparr>tl_state := TGround\<rparr>
          else if is_c0 b then t\<lparr>tl_state := TCsiEntry\<rparr>
          else if b = 0x1B then t\<lparr>tl_state := TEscape, tl_esc_start := i\<rparr>
          else t\<lparr>tl_state := TGround\<rparr>
      | TCsiParam \<Rightarrow>
          if is_digit b \<or> b = 0x3B \<or> b = 0x3A \<or> in_range 0x20 0x2F b then t\<lparr>tl_state := TCsiParam\<rparr>
          else if in_range 0x40 0x7E b then t\<lparr>tl_state := TGround\<rparr>
          else if is_c0 b then t\<lparr>tl_state := TCsiParam\<rparr>
          else if b = 0x1B then t\<lparr>tl_state := TEscape, tl_esc_start := i\<rparr>
          else t\<lparr>tl_state := TGround\<rparr>
      | TOsc \<Rightarrow>
          if b = 0x07 then t\<lparr>tl_state := TGround\<rparr>
          else if b = 0x1B then t\<lparr>tl_state := TOscEscape\<rparr> else t\<lparr>tl_state := TOsc\<rparr>
      | TApc \<Rightarrow> if b = 0x1B then t\<lparr>tl_state := TApcEscape\<rparr> else t\<lparr>tl_state := TApc\<rparr>
      | TDcs \<Rightarrow> if b = 0x1B then t\<lparr>tl_state := TDcsEscape\<rparr> else t\<lparr>tl_state := TDcs\<rparr>
      | TOscEscape \<Rightarrow> string_escape_step b i t
      | TApcEscape \<Rightarrow> string_escape_step b i t
      | TDcsEscape \<Rightarrow> string_escape_step b i t)"

fun tail_loop :: "nat \<Rightarrow> tail_scan \<Rightarrow> u8 list \<Rightarrow> tail_scan" where
  "tail_loop i t [] = t"
| "tail_loop i t (b # bs) = tail_loop (i + 1) (tail_step b i t) bs"

fun incomplete_csi_loop :: "u8 list \<Rightarrow> u8 list \<Rightarrow> trailing_tail option" where
  "incomplete_csi_loop out [] = Some (IncompleteCsi out)"
| "incomplete_csi_loop out (b # bs) =
     (if is_c0 b then incomplete_csi_loop out bs
      else if MAX_CONSTRUCT_LEN \<le> length out then None
      else incomplete_csi_loop (out @ [b]) bs)"

definition incomplete_csi :: "u8 list \<Rightarrow> nat \<Rightarrow> trailing_tail option" where
  "incomplete_csi payload start =
     (if start \<le> length payload then incomplete_csi_loop [] (drop start payload) else None)"

definition tail_start :: tail_scan where
  "tail_start = \<lparr>tl_state = TGround, tl_esc_start = 0, tl_csi_start = 0\<rparr>"

definition trailing_construct :: "u8 list \<Rightarrow> trailing_tail option" where
  "trailing_construct payload =
     (let t = tail_loop 0 tail_start payload in
      case tl_state t of
        TUtf8 start _ _ \<Rightarrow> if start \<le> length payload then Some (Utf8Partial (drop start payload)) else None
      | TDesignator designator \<Rightarrow> Some (AwaitingDesignator [0x1B, designator])
      | TCsiEntry \<Rightarrow> incomplete_csi payload (tl_csi_start t)
      | TCsiParam \<Rightarrow> incomplete_csi payload (tl_csi_start t)
      | _ \<Rightarrow> None)"

definition trailing_construct_bytes :: "u8 list \<Rightarrow> u8 list option" where
  "trailing_construct_bytes payload = map_option construct_bytes (trailing_construct payload)"

section \<open>The replacement\<close>

definition FILLER_DESIGNATOR :: u8 where "FILLER_DESIGNATOR = 0x42"

record carried_over_completion =
  co_bytes :: "u8 list"
  co_end :: nat

record replacement_request =
  rr_chunk :: "u8 list"
  rr_ring_written_ranges :: "(nat \<times> nat) list"
  rr_pending_after :: "u8 list"
  rr_window :: "u8 list"
  rr_snapshot_trailing_construct :: "u8 list option"
  rr_carried_over_completion :: "carried_over_completion option"

record prepared_replacement =
  pr_items :: "u8 list"
  pr_tail :: "u8 list"
  pr_tail_omittable :: bool

definition pr_is_empty :: "prepared_replacement \<Rightarrow> bool" where
  "pr_is_empty p \<longleftrightarrow> pr_items p = [] \<and> pr_tail p = []"

definition strip_c0 :: "u8 list \<Rightarrow> u8 list" where
  "strip_c0 bytes = filter (\<lambda>c. \<not> is_c0 c) bytes"

text \<open>Lists of the pieces, ascending.\<close>

fun excluded_loop :: "nat \<Rightarrow> (nat \<times> nat) list \<Rightarrow> (nat \<times> nat) list \<Rightarrow> (nat \<times> nat) list" where
  "excluded_loop remaining pieces [] = pieces"
| "excluded_loop remaining pieces (r # rs) =
     (if remaining = 0 then pieces
      else let len = snd r - fst r in
        if len = 0 then excluded_loop remaining pieces rs
        else let n = min len remaining in excluded_loop (remaining - n) (pieces @ [(snd r - n, snd r)]) rs)"

definition excluded_pieces :: "(nat \<times> nat) list \<Rightarrow> nat \<Rightarrow> (nat \<times> nat) list" where
  "excluded_pieces ranges contribution = rev (excluded_loop contribution [] (rev ranges))"

definition is_deliverable_osc :: "u8 list \<Rightarrow> bool" where
  "is_deliverable_osc bytes =
     (if length bytes < 3 \<or> bytes ! 0 \<noteq> 0x1B \<or> bytes ! 1 \<noteq> 0x5D then False
      else
        let last_index = length bytes - 1;
            body_end = (if bytes ! last_index = 0x07 then Some last_index
                        else if bytes ! last_index = 0x5C \<and> 4 \<le> length bytes \<and> bytes ! (last_index - 1) = 0x1B
                        then Some (last_index - 1) else None)
        in case body_end of
             None \<Rightarrow> False
           | Some e \<Rightarrow>
               let osc = recover_osc (take (e - 2) (drop 2 bytes)) in
               is_color_query osc \<or> is_program_status_query osc \<or> is_viewer_launch osc)"

text \<open>Where the item ends in the chunk, and its bytes.\<close>

type_synonym emitted_item = "nat \<times> u8 list"

definition item_range_bytes :: "u8 list \<Rightarrow> scan_item \<Rightarrow> u8 list" where
  "item_range_bytes combined it = take (si_end it - si_start it) (drop (si_start it) combined)"

definition item_bytes :: "u8 list \<Rightarrow> scan_item \<Rightarrow> u8 list" where
  "item_bytes combined it =
     (if si_kind it = CsiQuery then strip_c0 (item_range_bytes combined it) else item_range_bytes combined it)"

definition assemble_items :: "scan_outcome \<Rightarrow> carried_over_completion option \<Rightarrow> u8 list" where
  "assemble_items outcome carried =
     (let items = map (\<lambda>it. (si_end it - so_boundary outcome, item_bytes (so_combined outcome) it)) (so_items outcome);
          items = (case carried of
              None \<Rightarrow> items
            | Some c \<Rightarrow>
                if is_deliverable_osc (co_bytes c) \<and> \<not> list_ex (\<lambda>i. fst i = co_end c) items
                then sort_key fst (items @ [(co_end c, co_bytes c)])
                else items)
      in concat (map snd items))"

definition prepare_suppressed_replacement :: "replacement_request \<Rightarrow> prepared_replacement" where
  "prepare_suppressed_replacement r =
     (if rr_chunk r = [] then \<lparr>pr_items = [], pr_tail = [], pr_tail_omittable = False\<rparr>
      else
        let ranges = rr_ring_written_ranges r;
            chunk_ends_in_ring_written = (ranges \<noteq> [] \<and> snd (last ranges) = length (rr_chunk r)) in
        if rr_pending_after r \<noteq> [] \<and> chunk_ends_in_ring_written then
          let fed_len = sum_list (map (\<lambda>r. snd r - fst r) ranges);
              contribution = min (length (rr_pending_after r)) fed_len;
              outcome = scan_suppressed (rr_window r) (rr_chunk r) (excluded_pieces ranges contribution)
          in \<lparr>pr_items = assemble_items outcome (rr_carried_over_completion r),
              pr_tail = rr_pending_after r, pr_tail_omittable = False\<rparr>
        else
          let outcome = scan_suppressed (rr_window r) (rr_chunk r) [];
              tail = (case so_tail outcome of
                  Some (start, e) \<Rightarrow>
                    let tail_bytes = take (e - start) (drop start (so_combined outcome)) in
                    if so_tail_strip_c0 outcome then strip_c0 tail_bytes else tail_bytes
                | None \<Rightarrow> [])
          in \<lparr>pr_items = assemble_items outcome (rr_carried_over_completion r),
              pr_tail = tail, pr_tail_omittable = True\<rparr>)"

definition carried_tail_output :: "u8 list \<Rightarrow> u8 list \<Rightarrow> u8 list" where
  "carried_tail_output items tail =
     (if items = [] then []
      else (if is_awaiting_designator tail then [FILLER_DESIGNATOR] else []) @ items @ tail)"

definition finalize_suppressed_replacement :: "prepared_replacement \<Rightarrow> u8 list option \<Rightarrow> u8 list" where
  "finalize_suppressed_replacement prepared construct =
     (let items = pr_items prepared; tail = pr_tail prepared;
          already_carried = (pr_tail_omittable prepared \<and> tail \<noteq> [] \<and> construct = Some tail)
      in if already_carried then carried_tail_output items tail
         else if items = [] then tail
         else items @ tail)"

definition build_suppressed_replacement_for :: "replacement_request \<Rightarrow> u8 list" where
  "build_suppressed_replacement_for r =
     finalize_suppressed_replacement (prepare_suppressed_replacement r) (rr_snapshot_trailing_construct r)"

definition build_suppressed_replacement ::
    "u8 list \<Rightarrow> (nat \<times> nat) list \<Rightarrow> u8 list \<Rightarrow> u8 list \<Rightarrow> u8 list" where
  "build_suppressed_replacement chunk ring_written_ranges pending_after window =
     build_suppressed_replacement_for
       \<lparr>rr_chunk = chunk, rr_ring_written_ranges = ring_written_ranges, rr_pending_after = pending_after,
        rr_window = window, rr_snapshot_trailing_construct = None, rr_carried_over_completion = None\<rparr>"

end
