(* ===== verification/SuppressedFacts.thy ===== *)
theory SuppressedFacts
  imports ClientParityComplete ParserSame SuppressedOutput
begin

text \<open>
  The replacement of a suppressed chunk: a client that reads it acts on the same queries and
  launches, with the same arguments and in the same order, as if it had read the chunk; and the
  construct a snapshot is said to leave open is the one its parser holds.
\<close>

section \<open>The actions that count\<close>

definition acts_on :: "parsed_action \<Rightarrow> bool" where
  "acts_on a \<longleftrightarrow>
     (case a of
        CsiDispatch _ _ _ _ _ \<Rightarrow> asks a
      | OscDispatch n data t _ \<Rightarrow>
          t \<noteq> VtParser.Unterminated \<and> osc_item_kind \<lparr>ro_number = Some n, ro_data = data\<rparr> \<noteq> None
      | _ \<Rightarrow> False)"

definition acted :: "parser \<Rightarrow> u8 list \<Rightarrow> parsed_action list" where
  "acted p bs = filter acts_on (snd (parse p bs))"

lemma acts_on_item: "acts_on a \<longleftrightarrow> (\<exists>k. item_action k a)"
proof (cases a)
  case (OscDispatch n data t m)
  then show ?thesis
    using osc_item_kind_csi [of "\<lparr>ro_number = Some n, ro_data = data\<rparr>"]
    by (cases "osc_item_kind \<lparr>ro_number = Some n, ro_data = data\<rparr>") (auto simp: acts_on_def item_action_def asks_def)
qed (auto simp: acts_on_def item_action_def asks_def)

lemma no_item_acts: "no_item p b \<longleftrightarrow> filter acts_on (snd (parse_byte p b)) = []"
  by (auto simp: no_item_def acts_on_item filter_empty_conv list_ex_iff)

lemma acted_Nil [simp]: "acted p [] = []"
  by (simp add: acted_def)

lemma acted_Cons: "acted p (b # bs) = filter acts_on (snd (parse_byte p b)) @ acted (fst (parse_byte p b)) bs"
  by (simp add: acted_def parse_Cons split_def Let_def)

lemma acted_append: "acted p (xs @ ys) = acted p xs @ acted (fst (parse p xs)) ys"
  by (simp add: acted_def parse_append split_def Let_def)

lemma acted_still: "still p bs \<Longrightarrow> acted p bs = []"
  by (induction bs arbitrary: p) (simp_all add: acted_Cons no_item_acts)

lemma acted_same: "same_parser p q \<Longrightarrow> acted p bs = acted q bs"
  by (simp add: acted_def same_parse_snd)

lemma parser_ok_parse: "parser_ok p \<Longrightarrow> parser_ok (fst (parse p bs))"
  unfolding parse_def by (rule vt.run_inv)

lemma acted_nth: "acted p bs = concat (map (\<lambda>n. acted (fst (parse p (take n bs))) [bs ! n]) [0..<length bs])"
proof (induction bs rule: rev_induct)
  case (snoc b bs)
  let ?G = "\<lambda>n. acted (fst (parse p (take n (bs @ [b])))) [(bs @ [b]) ! n]"
  have "map (\<lambda>n. acted (fst (parse p (take n bs))) [bs ! n]) [0..<length bs] = map ?G [0..<length bs]"
    by (rule map_cong) (auto simp: nth_append)
  with snoc have "acted p (bs @ [b]) = concat (map ?G [0..<length bs]) @ acted (fst (parse p bs)) [b]"
    by (simp only: acted_append)
  also have "\<dots> = concat (map ?G [0..<length (bs @ [b])])"
    by simp
  finally show ?case .
qed simp

lemma parser_new_ready: "\<not> awaits_designator parser_new"
  by (simp add: awaits_designator_def parser_new_def)

text \<open>An escape character and an introducer act on nothing, and restart the parser.\<close>

lemma introducer_acts:
  assumes "parser_ok p" "\<not> awaits_designator p" "c \<in> {0x5B, 0x5D}"
  shows "acted p (0x1B # c # bs) = acted (fst (parse parser_new [0x1B, c])) bs"
proof -
  define p1 where "p1 = fst (parse_byte p 0x1B)"
  have p1: "ps_state p1 \<in> {Escape, OscEscape, ApcEscape, DcsEscape}"
    using escape_byte [OF assms(1,2)] by (simp add: p1_def)
  have "filter acts_on (snd (parse_byte p 0x1B)) = []"
    using assms(2)
    by (cases "ps_state p")
       (auto simp: parse_byte_def ground_def ground_match_def handle_utf8_byte_def in_range_unat escape_def csi_entry_def csi_param_def
         is_digit_def osc_string_def osc_escape_def dispatch_osc_def apc_string_def apc_escape_def dispatch_apc_def
         dcs_string_def dcs_escape_def dispatch_dcs_def awaits_designator_def acts_on_def Let_def split: prod.split)
  moreover have "filter acts_on (snd (parse_byte p1 c)) = []"
    using assms(3) p1
    by (auto simp: parse_byte_def escape_def osc_escape_def dispatch_osc_def apc_escape_def dispatch_apc_def
         dcs_escape_def dispatch_dcs_def acts_on_def Let_def split: prod.split)
  moreover have "same_parser (fst (parse p [0x1B, c])) (fst (parse parser_new [0x1B, c]))"
    using restart_same [OF assms(1,2) parser_new_ok parser_new_ready, of c "[]"] assms(3) by blast
  then have "acted (fst (parse p [0x1B, c])) bs = acted (fst (parse parser_new [0x1B, c])) bs"
    by (rule acted_same)
  ultimately show ?thesis
    by (simp add: acted_Cons p1_def parse_Cons split_def Let_def)
qed


section \<open>The bytes of an item\<close>

text \<open>The controls inside a control sequence are executed and change nothing else.\<close>

lemma csi_c0_byte:
  assumes "tracks (WCsi oc) p" "is_c0 b"
  shows "parse_byte p b = (p, [Execute b])"
proof -
  have "ps_state p = CsiEntry \<or> ps_state p = CsiParam"
    using assms(1) by (auto simp: tracks_def split: pstate.splits)
  then show ?thesis
    using csi_classes(2) [of b] assms(2) by (auto simp: is_c0_def parse_byte_def csi_entry_def csi_param_def)
qed

lemma strip_csi_query:
  "tracks (WCsi oc) p \<Longrightarrow> open_csi_query oc bs = Some k \<Longrightarrow>
   fst (parse p (strip_c0 (take k bs))) = fst (parse p (take k bs)) \<and> acted p (strip_c0 (take k bs)) = acted p (take k bs)"
proof (induction bs arbitrary: oc p k)
  case (Cons b bs)
  show ?case
  proof (cases "completes_an_answered_query oc b")
    case True
    then have "\<not> is_c0 b"
      using csi_classes(3) [of b] by (auto simp: completes_an_answered_query_def is_c0_def)
    with True Cons.prems show ?thesis
      by (auto simp: strip_c0_def)
  next
    case False
    obtain ph oc1 n where step: "open_csi_advance oc b = (StepOpen ph, oc1)"
        "open_csi_query oc1 bs = Some n" "k = Suc n"
      using Cons.prems(2) False by (auto split: prod.splits csi_step_kind.splits)
    have "tracks (WCsi oc1) (fst (parse_byte p b))"
      using tracks_step [OF Cons.prems(1), of b] step(1) by (simp add: written_advance_def)
    note IH = Cons.IH [OF this step(2)]
    show ?thesis
    proof (cases "is_c0 b")
      case True
      with csi_c0_byte [OF Cons.prems(1) True] IH step(3) show ?thesis
        by (simp add: strip_c0_def acted_Cons parse_Cons acts_on_def split_def Let_def)
    next
      case False
      with IH step(3) show ?thesis
        by (simp add: strip_c0_def acted_Cons parse_Cons split_def Let_def)
    qed
  qed
qed simp

text \<open>Its bytes act on exactly what the byte at its end acts on in the stream, wherever a parser
  reads them, and leave the parser at rest.\<close>

definition item_faithful :: "parser \<Rightarrow> u8 list \<Rightarrow> scan_item \<Rightarrow> bool" where
  "item_faithful p view it \<longleftrightarrow>
     acted (at p view (si_end it - 1)) [view ! (si_end it - 1)] = acted parser_new (item_bytes view it)
     \<and> (\<exists>c bs. item_bytes view it = 0x1B # c # bs \<and> c \<in> {0x5B, 0x5D})
     \<and> same_parser (fst (parse parser_new (item_bytes view it))) parser_new"

lemma ascii_no_utf8:
  assumes "parser_ok p" "b < 0x80"
  shows "ps_utf8_buffer (fst (parse_byte p b)) = []"
proof (cases "ps_state p = Ground")
  case True
  have "\<not> in_range 0x80 0xBF b" "\<not> in_range 0xC0 0xDF b" "\<not> in_range 0xE0 0xEF b" "\<not> in_range 0xF0 0xF7 b"
    using assms(2) by (auto simp: u8_unat word_less_nat_alt)
  with True show ?thesis
    by (simp add: parse_byte_def ground_def handle_utf8_byte_def ground_match_def)
next
  case False
  have esc: "ps_utf8_buffer (fst (escape q b)) = ps_utf8_buffer q" for q
    by (simp add: escape_def)
  have esc': "ps_utf8_buffer x1 = ps_utf8_buffer q" if "escape q b = (x1, x2)" for q x1 x2
    using esc [of q] that by simp
  from False no_pending [OF assms(1)] show ?thesis
    by (cases "ps_state p")
       (auto simp: parse_byte_def esc escape_charset_def csi_entry_def csi_param_def dispatch_csi_def osc_string_def osc_escape_def
         dispatch_osc_def count_osc_byte_def apc_string_def apc_escape_def dispatch_apc_def dcs_string_def dcs_escape_def
         dispatch_dcs_def Let_def dest!: esc' split: prod.split)
qed

lemma same_as_new: "tracks WGround p \<Longrightarrow> ps_utf8_buffer p = [] \<Longrightarrow> same_parser p parser_new"
  by (auto simp: tracks_def same_parser_def parser_new_def split: pstate.splits)

lemma run_acts_at_end:
  assumes "still p (take (t - 1) bs)" "0 < t" "t \<le> length bs"
  shows "acted p (take t bs) = acted (fst (parse p (take (t - 1) bs))) [bs ! (t - 1)]"
proof -
  have "take t bs = take (t - 1) bs @ [bs ! (t - 1)]"
    using assms(2,3) by (cases t) (simp_all add: take_Suc_conv_app_nth)
  then show ?thesis
    using acted_still [OF assms(1)] by (simp add: acted_append)
qed

lemma examined_at_ready:
  assumes "examined_at p view pos" "drop pos view = b # bs"
  shows "\<not> awaits_designator (at p view pos)"
  using assms by (auto simp: examined_at_def awaits_designator_def tracks_def)

lemma introduced_state:
  assumes "parser_ok p" "examined_at p view pos" "drop pos view = 0x1B # c # body" "c \<in> {0x5B, 0x5D}"
  shows "same_parser (at p view (pos + 2)) (fst (parse parser_new [0x1B, c]))"
    "at p view (pos + 2) = fst (parse (at p view pos) [0x1B, c])"
proof -
  show eq: "at p view (pos + 2) = fst (parse (at p view pos) [0x1B, c])"
    by (simp only: at_add assms(3)) (simp add: numeral_2_eq_2)
  have "parser_ok (at p view pos)"
    by (simp add: at_def parser_ok_parse assms(1))
  then show "same_parser (at p view (pos + 2)) (fst (parse parser_new [0x1B, c]))"
    using restart_same [OF _ examined_at_ready [OF assms(2,3)] parser_new_ok parser_new_ready, of c "[]"] assms(4)
    unfolding eq by blast
qed

lemma item_range:
  assumes "drop pos view = 0x1B # c # body"
  shows "item_range_bytes view \<lparr>si_kind = k, si_start = pos, si_end = pos + 2 + t\<rparr> = 0x1B # c # take t body"
  using assms by (simp add: item_range_bytes_def numeral_2_eq_2)

lemma item_faithfulI:
  assumes "parser_ok p" "examined_at p view pos" "drop pos view = 0x1B # c # body" "c \<in> {0x5B, 0x5D}"
    and "0 < t" "t \<le> length body" "still (at p view (pos + 2)) (take (t - 1) body)"
    and "item_bytes view \<lparr>si_kind = k, si_start = pos, si_end = pos + 2 + t\<rparr> = 0x1B # c # bs"
    and "acted (fst (parse parser_new [0x1B, c])) bs = acted (fst (parse parser_new [0x1B, c])) (take t body)"
    and "fst (parse (fst (parse parser_new [0x1B, c])) bs) = fst (parse (fst (parse parser_new [0x1B, c])) (take t body))"
    and "foldl written_advance (written_advance WEscape c) (take t body) = WGround" "body ! (t - 1) < 0x80"
  shows "item_faithful p view \<lparr>si_kind = k, si_start = pos, si_end = pos + 2 + t\<rparr>"
proof -
  let ?q = "fst (parse parser_new [0x1B, c])"
  note same = introduced_state(1) [OF assms(1-4)]
  have body: "body = drop (pos + 2) view"
    using examined_introducer(3) [OF assms(2,3)] .
  have split: "take t body = take (t - 1) body @ [body ! (t - 1)]"
    using assms(5,6) by (cases t) (simp_all add: take_Suc_conv_app_nth)
  have pos: "pos + 2 + t - 1 = (pos + 2) + (t - 1)"
    using assms(5) by simp
  have "view ! (pos + 2 + (t - 1)) = body ! (t - 1)"
    using assms(5,6) by (simp add: body)
  moreover have "at p view (pos + 2 + (t - 1)) = fst (parse (at p view (pos + 2)) (take (t - 1) body))"
    by (simp only: at_add [of p view "pos + 2" "t - 1"] body)
  ultimately have "acted (at p view (pos + 2 + t - 1)) [view ! (pos + 2 + t - 1)] = acted (at p view (pos + 2)) (take t body)"
    unfolding pos by (simp only: run_acts_at_end [OF assms(7,5,6)])
  also have "\<dots> = acted ?q (take t body)"
    by (rule acted_same [OF same])
  also have "\<dots> = acted parser_new (0x1B # c # bs)"
    using introducer_acts [OF parser_new_ok parser_new_ready assms(4), of bs] assms(9) by simp
  finally have acts: "acted (at p view (pos + 2 + t - 1)) [view ! (pos + 2 + t - 1)] = acted parser_new (0x1B # c # bs)" .
  have "tracks WGround parser_new"
    by (rule tracks_new) (simp add: parser_new_def)
  then have "tracks (written_advance WEscape c) ?q"
    using tracks_run [of WGround parser_new "[0x1B, c]"] by (simp add: written_advance_def)
  then have "tracks WGround (fst (parse ?q (take t body)))"
    using tracks_run [of "written_advance WEscape c" ?q "take t body"] assms(11) by simp
  moreover have "ps_utf8_buffer (fst (parse ?q (take t body))) = []"
    unfolding split parse_append_fst parse_single
    by (rule ascii_no_utf8) (use assms(12) in \<open>simp_all add: parser_ok_parse\<close>)
  ultimately have "same_parser (fst (parse ?q (take t body))) parser_new"
    by (rule same_as_new)
  then have "same_parser (fst (parse parser_new (0x1B # c # bs))) parser_new"
    using assms(10) parse_append_fst [of parser_new "[0x1B, c]" bs] by simp
  with acts assms(4,8) show ?thesis
    by (simp add: item_faithful_def)
qed


lemma csi_query_final: "open_csi_query oc bs = Some k \<Longrightarrow> bs ! (k - 1) < 0x80"
proof (induction bs arbitrary: oc k)
  case (Cons b bs)
  show ?case
  proof (cases "completes_an_answered_query oc b")
    case True
    with Cons.prems show ?thesis
      by (auto simp: completes_an_answered_query_def u8_unat word_less_nat_alt)
  next
    case False
    with Cons.prems obtain oc1 n where n: "open_csi_query oc1 bs = Some n" "k = Suc n"
      by (auto split: prod.splits csi_step_kind.splits)
    have "n \<noteq> 0"
      using n(1) by (cases bs) (auto split: if_splits prod.splits csi_step_kind.splits)
    with Cons.IH [OF n(1)] n(2) show ?thesis by simp
  qed
qed simp

lemma faithful_rule:
  assumes ok: "parser_ok p" and size: "length view \<le> MAX_OSC_LEN"
  shows "item_rule p view (item_faithful p view)"
  unfolding item_rule_def
proof (intro conjI allI impI)
  fix pos body k c0
  assume rest: "drop pos view = 0x1B # 0x5B # body" and here: "examined_at p view pos"
    and k: "scan_csi_device_query body = Some (k, c0)"
  note intro = examined_introducer [OF here rest]
  have query: "open_csi_query open_csi_entry body = Some k"
    using scan_csi_device_query_iff [of body] k by simp
  have track: "tracks (WCsi open_csi_entry) (at p view (pos + 2))"
    using tracks_step [OF intro(1), of "0x5B"] intro(2) by (simp add: escape_advance)
  have "tracks WGround parser_new"
    by (rule tracks_new) (simp add: parser_new_def)
  then have track': "tracks (WCsi open_csi_entry) (fst (parse parser_new [0x1B, 0x5B]))"
    using tracks_run [of WGround parser_new "[0x1B, 0x5B]"] by (simp add: written_advance_def)
  note ends = csi_query_run [OF query track]
  show "item_faithful p view \<lparr>si_kind = CsiQuery, si_start = pos, si_end = pos + 2 + k\<rparr>"
  proof (rule item_faithfulI [OF ok here rest])
    show "item_bytes view \<lparr>si_kind = CsiQuery, si_start = pos, si_end = pos + 2 + k\<rparr> = 0x1B # 0x5B # strip_c0 (take k body)"
      by (simp only: item_bytes_def scan_item.select_convs if_True simp_thms item_range [OF rest])
         (simp add: strip_c0_def is_c0_def in_range_unat)
    show "still (at p view (pos + 2)) (take (k - 1) body)"
      by (rule still_csi_query [OF track query])
    show "body ! (k - 1) < 0x80"
      using csi_query_final [OF query] .
  qed (use ends strip_csi_query [OF track' query] in \<open>simp_all add: escape_advance\<close>)
next
  fix pos body e t k
  assume rest: "drop pos view = 0x1B # 0x5D # body" and here: "examined_at p view pos"
    and t: "scan_osc_terminator 0 body = StringComplete e t" "osc_item_kind (recover_osc (take e body)) = Some k"
  note intro = examined_introducer [OF here rest]
  have opened: "osc_body [] (at p view (pos + 2))" "ps_state (at p view (pos + 2)) = OscString" "length body \<le> MAX_OSC_LEN"
    using osc_opened [OF intro(1)] intro(2) size by (simp_all add: intro(3))
  have ascii: "body ! (t - 1) < 0x80"
    using osc_terminator_spec [of 0 body] t(1) by (auto simp: word_less_nat_alt)
  have "k \<noteq> CsiQuery"
    using t(2) osc_item_kind_csi by auto
  then have bytes: "item_bytes view \<lparr>si_kind = k, si_start = pos, si_end = pos + 2 + t\<rparr> = 0x1B # 0x5D # take t body"
    by (simp only: item_bytes_def scan_item.select_convs if_False item_range [OF rest])
  show "item_faithful p view \<lparr>si_kind = k, si_start = pos, si_end = pos + 2 + t\<rparr>"
    by (rule item_faithfulI [OF ok here rest _ _ _ osc_complete_run(1) [OF t(1) opened] bytes])
       (use osc_terminator_run(1) [OF t(1)] ascii in \<open>simp_all add: escape_advance\<close>)
qed

section \<open>The order of the items\<close>

definition ascending :: "nat \<Rightarrow> scan_item list \<Rightarrow> bool" where
  "ascending pos items \<longleftrightarrow> sorted_wrt (<) (map si_end items) \<and> (\<forall>it\<in>set items. si_end it \<le> pos)"

lemma ascending_later: "ascending pos items \<Longrightarrow> pos \<le> pos' \<Longrightarrow> ascending pos' items"
  by (auto simp: ascending_def)

lemma ascending_push: "ascending pos items \<Longrightarrow> pos < e \<Longrightarrow> ascending e (push_item items k i e)"
  by (cases k) (auto simp: ascending_def push_item_def sorted_wrt_append)

lemma walk_ascending: "ascending pos items \<Longrightarrow> sorted_wrt (<) (map si_end (rd_items (walk_loop dt items pos rest)))"
proof (induction "length rest" arbitrary: items pos rest rule: less_induct)
  case less
  show ?case
  proof (cases rest)
    case (Cons b bs)
    have go: "sorted_wrt (<) (map si_end (rd_items (walk_loop dt items' pos' rest')))"
      if "ascending pos' items'" "length rest' \<le> length bs" for items' pos' rest'
      using less.hyps [of rest' pos' items'] that Cons by simp
    have here: "sorted_wrt (<) (map si_end items)"
      using less.prems by (simp add: ascending_def)
    show ?thesis
    proof (cases "b = 0x1B \<and> bs \<noteq> []")
      case True
      then obtain c body where bs: "bs = c # body" "b = 0x1B"
        by (cases bs) auto
      have go': "sorted_wrt (<) (map si_end (rd_items (walk_loop dt items (pos + 2 + n) (drop n body))))"
        "sorted_wrt (<) (map si_end (rd_items (walk_loop dt (push_item items k pos (pos + 2 + n)) (pos + 2 + n) (drop n body))))"
        "sorted_wrt (<) (map si_end (rd_items (walk_loop dt items (pos + 1) bs)))" for n k
        by (rule go; use ascending_later [OF less.prems] ascending_push [OF less.prems] bs in simp)+
      have cut: "sorted_wrt (<) (map si_end (rd_items (cut_reading items dt pos)))"
        using here by (simp add: cut_reading_def)
      consider "c = 0x5B" | "c = 0x5D" | "c = 0x5F \<or> c = 0x50" | "introduces_charset c" "c \<notin> {0x5B, 0x5D, 0x5F, 0x50}"
        | "c = 0x1B" | "\<not> introduces_charset c" "c \<notin> {0x5B, 0x5D, 0x5F, 0x50, 0x1B}"
        by blast
      then show ?thesis
      proof cases
        case 1
        then show ?thesis
          using go'(2) [where k = "Some CsiQuery"] go'(3) here
          by (cases "scan_csi_device_query body") (auto simp: Cons bs split: prod.split)
      next
        case 2
        then show ?thesis
          using go'(1,2) cut by (cases "scan_osc_terminator 0 body") (simp_all add: Cons bs)
      next
        case 3
        then have "c \<noteq> 0x5B \<and> c \<noteq> 0x5D"
          by auto
        with 3 show ?thesis
          using go'(1) cut by (cases "scan_st_terminator 0 body") (simp_all add: Cons bs)
      next
        case 4
        with cut go'(1) [of 1] show ?thesis
          by (cases body) (simp_all add: Cons bs numeral_3_eq_3)
      next
        case 5
        with go'(3) show ?thesis
          by (simp add: Cons bs introduces_charset_def)
      next
        case 6
        with go'(1) [of 0] show ?thesis
          by (simp add: Cons bs)
      qed
    qed (use go ascending_later [OF less.prems] here Cons in \<open>auto simp: cut_reading_def\<close>)
  qed (use less.prems in \<open>simp add: ascending_def\<close>)
qed


section \<open>The client acts on the replacement as on the chunk\<close>

lemma concat_filter: "(\<And>i. i \<in> set ys \<Longrightarrow> \<not> P i \<Longrightarrow> f i = []) \<Longrightarrow> concat (map f ys) = concat (map f (filter P ys))"
  by (induction ys) auto

lemma concat_support:
  assumes "sorted_wrt (<) xs" "set xs \<subseteq> {0..<n}" "\<And>i. i < n \<Longrightarrow> i \<notin> set xs \<Longrightarrow> f i = []"
  shows "concat (map f [0..<n]) = concat (map f xs)"
proof -
  have "concat (map f [0..<n]) = concat (map f (filter (\<lambda>i. i \<in> set xs) [0..<n]))"
    using assms(3) by (intro concat_filter) auto
  moreover have "filter (\<lambda>i. i \<in> set xs) [0..<n] = xs"
    using assms(1,2) by (intro sorted_distinct_set_unique) (auto simp: strict_sorted_iff intro: sorted_wrt_filter)
  ultimately show ?thesis by simp
qed

lemma items_acted:
  assumes "list_all (item_faithful q view) items" "parser_ok p" "\<not> awaits_designator p"
  shows "acted p (concat (map (item_bytes view) items)) = concat (map (\<lambda>it. acted parser_new (item_bytes view it)) items)
    \<and> (items \<noteq> [] \<longrightarrow> same_parser (fst (parse p (concat (map (item_bytes view) items)))) parser_new)"
  using assms
proof (induction items arbitrary: p)
  case (Cons it items)
  obtain c bs where bytes: "item_bytes view it = 0x1B # c # bs" "c \<in> {0x5B, 0x5D}"
      and rest: "same_parser (fst (parse parser_new (item_bytes view it))) parser_new"
    using Cons.prems(1) by (auto simp: item_faithful_def)
  define p' where "p' = fst (parse p (item_bytes view it))"
  have "c \<in> {0x5B, 0x5D, 0x5F, 0x50, 0x28, 0x29}"
    using bytes(2) by blast
  from restart_same [OF Cons.prems(2,3) parser_new_ok parser_new_ready this, of bs]
  have "same_parser p' (fst (parse parser_new (item_bytes view it)))"
    by (simp add: p'_def bytes(1))
  then have ground: "same_parser p' parser_new"
    using rest by (rule same_parser_trans)
  have "parser_ok p'" "\<not> awaits_designator p'"
    using Cons.prems(2) ground by (auto simp: p'_def parser_ok_parse awaits_designator_def same_parser_def parser_new_def)
  note IH = Cons.IH [OF _ this]
  have "acted p (item_bytes view it) = acted parser_new (item_bytes view it)"
    using introducer_acts [OF Cons.prems(2,3) bytes(2)] introducer_acts [OF parser_new_ok parser_new_ready bytes(2)]
    by (simp add: bytes(1))
  with IH Cons.prems(1) ground show ?case
    by (cases items) (auto simp: acted_append parse_append_fst p'_def)
qed simp

lemma byte_acts_found:
  assumes "length past < RETAINED_WINDOW_BYTES" "length (past @ chunk) \<le> MAX_OSC_LEN" "n < length chunk"
    and "acted (fst (parse (fst (parse parser_new past)) (take n chunk))) [chunk ! n] \<noteq> []"
  shows "\<exists>it\<in>set (so_items (scan_suppressed past chunk [])). si_end it = length past + n + 1"
proof -
  obtain a k where "a \<in> set (snd (parse_byte (fst (parse parser_new (past @ take n chunk))) (chunk ! n)))" "item_action k a"
    using assms(4) by (auto simp: acted_def parse_single parse_append_fst acts_on_item filter_empty_conv)
  then have "client_dispatches past chunk k (n + 1)"
    using assms(3) by (auto simp: client_dispatches_def list_ex_iff)
  from short_stream_complete [OF assms(1,2) this] show ?thesis
    by (auto simp: found_def)
qed

lemma short_chunk_acts:
  assumes "length past < RETAINED_WINDOW_BYTES" "length (past @ chunk) \<le> MAX_OSC_LEN" "parser_ok p" "\<not> awaits_designator p"
  shows "acted p (concat (map (item_bytes (past @ chunk)) (so_items (scan_suppressed past chunk []))))
    = acted (fst (parse parser_new past)) chunk"
proof -
  define view where "view = past @ chunk"
  define items where "items = so_items (scan_suppressed past chunk [])"
  define f where "f n = acted (fst (parse (fst (parse parser_new past)) (take n chunk))) [chunk ! n]" for n
  define place where "place it = si_end it - length past - 1" for it :: scan_item
  have items: "items = filter (\<lambda>it. length past < si_end it) (rd_items (walk_view view 0 True))"
    by (simp add: items_def view_def short_stream_items [OF assms(1)])
  have ground: "tracks WGround parser_new"
    by (rule tracks_new) (simp add: parser_new_def)
  have size: "length view \<le> MAX_OSC_LEN"
    using assms(2) by (simp add: view_def)
  have faith: "list_all (item_faithful parser_new view) items"
    using walk_view_items [OF ground faithful_rule [OF parser_new_ok size], of True] by (auto simp: items list_all_iff)
  have inside: "list_all (dispatched parser_new view) items"
    using walk_view_items [OF ground dispatched_rule [OF size], of True] by (auto simp: items list_all_iff)
  have bounds: "length past < si_end it" "si_end it \<le> length past + length chunk" if "it \<in> set items" for it
    using that inside by (auto simp: items dispatched_def list_all_iff view_def)
  have "sorted_wrt (<) (map si_end (rd_items (walk_view view 0 True)))"
    unfolding walk_view_def by (rule walk_ascending) (simp add: ascending_def)
  then have "sorted_wrt (\<lambda>a b. si_end a < si_end b) items"
    unfolding items sorted_wrt_map by (rule sorted_wrt_filter)
  then have "sorted_wrt (\<lambda>a b. place a < place b) items"
    by (rule sorted_wrt_mono_rel [rotated]) (use bounds in \<open>fastforce simp: place_def\<close>)
  then have "sorted_wrt (<) (map place items)"
    by (simp add: sorted_wrt_map)
  moreover have "set (map place items) \<subseteq> {0..<length chunk}"
    using bounds by (fastforce simp: place_def)
  moreover have "f n = []" if small: "n < length chunk" and fresh: "n \<notin> set (map place items)" for n
  proof (rule ccontr)
    assume "f n \<noteq> []"
    then obtain it where "it \<in> set items" "si_end it = length past + n + 1"
      using byte_acts_found [OF assms(1,2) small] by (auto simp: f_def items_def)
    then have "n \<in> place ` set items"
      by (intro image_eqI [of _ _ it]) (simp_all add: place_def)
    with fresh show False by simp
  qed
  ultimately have "acted (fst (parse parser_new past)) chunk = concat (map f (map place items))"
    unfolding acted_nth [of "fst (parse parser_new past)"] f_def [symmetric] by (rule concat_support)
  also have "map f (map place items) = map (\<lambda>it. acted parser_new (item_bytes view it)) items"
  proof -
    have "f (place it) = acted parser_new (item_bytes view it)" if "it \<in> set items" for it
    proof -
      have n: "si_end it - 1 = length past + place it"
        using bounds [OF that] by (simp add: place_def)
      have "f (place it) = acted (at parser_new view (si_end it - 1)) [view ! (si_end it - 1)]"
        unfolding n by (simp add: f_def view_def at_def parse_append_fst)
      with faith that show ?thesis
        by (simp add: item_faithful_def list_all_iff)
    qed
    then show ?thesis by simp
  qed
  finally show ?thesis
    using items_acted [OF faith assms(3,4)] by (simp add: items_def view_def)
qed



definition example_request :: replacement_request where
  "example_request = \<lparr>rr_chunk = cursor_report_request, rr_ring_written_ranges = [], rr_pending_after = [],
     rr_window = [0x41], rr_snapshot_trailing_construct = None, rr_carried_over_completion = None\<rparr>"

lemma example_replacement:
  "pr_items (prepare_suppressed_replacement example_request) = cursor_report_request"
proof -
  have "so_combined (scan_suppressed [0x41] cursor_report_request []) = 0x41 # cursor_report_request"
    by (simp add: scan_suppressed_def scan_with_reading_count_def derive_prefix_start_def RETAINED_WINDOW_BYTES_def
        first_chunk_byte_may_be_designator_def Let_def)
  moreover have "item_bytes (0x41 # cursor_report_request) \<lparr>si_kind = CsiQuery, si_start = 1, si_end = 5\<rparr> = cursor_report_request"
    by (simp add: item_bytes_def item_range_bytes_def cursor_report_request_def strip_c0_def is_c0_def in_range_unat)
  moreover have "cursor_report_request \<noteq> []"
    by (simp add: cursor_report_request_def)
  ultimately show ?thesis
    by (simp add: prepare_suppressed_replacement_def example_request_def assemble_items_def suppressed_scan_example Let_def)
qed


section \<open>The construct a snapshot leaves open\<close>

definition csi_held :: "u8 list \<Rightarrow> nat \<Rightarrow> parser \<Rightarrow> bool" where
  "csi_held payload start p \<longleftrightarrow>
     start \<le> length payload \<and> same_parser (fst (parse parser_new (strip_c0 (drop start payload)))) p
     \<and> acted parser_new (strip_c0 (drop start payload)) = []"

text \<open>The reduced state machine after a payload, and the parser after the same payload.\<close>

definition tail_follows :: "u8 list \<Rightarrow> tail_scan \<Rightarrow> parser \<Rightarrow> bool" where
  "tail_follows payload t p \<longleftrightarrow>
     (case tl_state t of
        TGround \<Rightarrow> ps_state p = Ground \<and> ps_utf8_buffer p = []
      | TUtf8 start have_bytes need \<Rightarrow>
          ps_state p = Ground \<and> start < length payload \<and> ps_utf8_buffer p = drop start payload
          \<and> have_bytes = length payload - start \<and> expected_len (payload ! start) = Some need \<and> have_bytes < need
      | TEscape \<Rightarrow> ps_state p = Escape \<and> ps_utf8_buffer p = [] \<and> payload \<noteq> [] \<and> last payload = 0x1B
          \<and> Suc (tl_esc_start t) = length payload
      | TDesignator d \<Rightarrow> ps_state p = EscapeCharset d \<and> ps_utf8_buffer p = [] \<and> (d = 0x28 \<or> d = 0x29)
      | TCsiEntry \<Rightarrow> ps_state p = CsiEntry \<and> csi_held payload (tl_csi_start t) p
      | TCsiParam \<Rightarrow> ps_state p = CsiParam \<and> csi_held payload (tl_csi_start t) p
      | TOsc \<Rightarrow> ps_state p = OscString \<and> ps_utf8_buffer p = []
      | TApc \<Rightarrow> ps_state p = ApcString \<and> ps_utf8_buffer p = []
      | TDcs \<Rightarrow> ps_state p = DcsString \<and> ps_utf8_buffer p = []
      | TOscEscape \<Rightarrow> ps_state p = OscEscape \<and> ps_utf8_buffer p = [] \<and> payload \<noteq> [] \<and> last payload = 0x1B
      | TApcEscape \<Rightarrow> ps_state p = ApcEscape \<and> ps_utf8_buffer p = [] \<and> payload \<noteq> [] \<and> last payload = 0x1B
      | TDcsEscape \<Rightarrow> ps_state p = DcsEscape \<and> ps_utf8_buffer p = [] \<and> payload \<noteq> [] \<and> last payload = 0x1B)"

lemma strip_c0_append: "strip_c0 (xs @ ys) = strip_c0 xs @ strip_c0 ys"
  by (simp add: strip_c0_def)

lemma escape_follows:
  assumes "ps_state p = Escape" "ps_utf8_buffer p = []" "payload \<noteq> []" "last payload = 0x1B" "Suc (tl_esc_start t) = length payload"
  shows "tail_follows (payload @ [b]) (escape_step b (length payload) t) (fst (escape p b))"
proof (cases "b = 0x5B")
  case True
  have "drop (tl_esc_start t) payload = [0x1B]"
    using assms(3-5) by (cases payload rule: rev_cases) auto
  then have "strip_c0 (drop (tl_esc_start t) (payload @ [0x5B])) = [0x1B, 0x5B]"
    using assms(5) by (simp add: strip_c0_def is_c0_def in_range_unat)
  moreover have "same_parser (fst (parse parser_new [0x1B, 0x5B])) (fst (escape p 0x5B))"
    using assms(1,2) by (simp add: parse_Cons parse_byte_def ground_def ground_match_def escape_def same_parser_def
        parser_new_def pp_reset_eq)
  moreover have "acted parser_new [0x1B, 0x5B] = []"
    using introducer_acts [OF parser_new_ok parser_new_ready, of "0x5B" "[]"] by simp
  ultimately show ?thesis
    using assms True by (simp add: tail_follows_def escape_step_def csi_held_def escape_def)
next
  case False
  with assms show ?thesis
    by (simp add: tail_follows_def escape_step_def escape_def)
qed

lemma string_escape_follows:
  assumes "ps_state p \<in> {OscEscape, ApcEscape, DcsEscape}" "ps_utf8_buffer p = []" "payload \<noteq> []" "last payload = 0x1B"
  shows "tail_follows (payload @ [b]) (string_escape_step b (length payload) t) (fst (parse_byte p b))"
proof (cases "b = 0x5C")
  case True
  with assms show ?thesis
    by (auto simp: tail_follows_def string_escape_step_def parse_byte_def osc_escape_def dispatch_osc_def apc_escape_def
        dispatch_apc_def dcs_escape_def dispatch_dcs_def Let_def)
next
  case False
  obtain q where "fst (parse_byte p b) = fst (escape q b)" "ps_state q = Escape" "ps_utf8_buffer q = []"
    using escape_opened [OF _ assms(2) False] assms(1) by blast
  with escape_follows [of q payload "t\<lparr>tl_esc_start := length payload - 1\<rparr>" b] assms(3,4) False show ?thesis
    by (simp add: string_escape_step_def)
qed


lemma ground_follows:
  assumes "ps_state p = Ground" "ps_utf8_buffer p = []"
  shows "tail_follows (payload @ [b]) (ground_step b (length payload) t) (fst (ground_match p b))"
  using assms by (simp add: tail_follows_def ground_step_def ground_match_def expected_len_def in_range_unat)

lemma utf8_follows:
  assumes "ps_state p = Ground" "start < length payload" "ps_utf8_buffer p = drop start payload" "n = length payload - start"
    "expected_len (payload ! start) = Some need" "n < need" "tl_state t = TUtf8 start n need"
  shows "tail_follows (payload @ [b]) (tail_step b (length payload) t) (fst (ground p b))"
proof (cases "in_range 0x80 0xBF b")
  case True
  have "hd (drop start payload @ [b]) = payload ! start"
    using assms(2) by (simp add: hd_append hd_drop_conv_nth)
  with True assms show ?thesis
    by (auto simp: tail_step_def ground_def handle_utf8_byte_def tail_follows_def nth_append Let_def)
next
  case False
  have "fst (ground p b) = fst (ground_match (p\<lparr>ps_utf8_buffer := []\<rparr>) b)"
    using False assms(2,3) by (simp add: ground_def handle_utf8_byte_def)
  with ground_follows [of "p\<lparr>ps_utf8_buffer := []\<rparr>" payload b t] False assms(1,7) show ?thesis
    by (simp add: tail_step_def)
qed

lemma csi_held_step:
  assumes "csi_held payload start p" "ps_state p \<in> {CsiEntry, CsiParam}" "is_c0 b \<Longrightarrow> fst (parse_byte p b) = p"
    and "filter acts_on (snd (parse_byte p b)) = []"
  shows "csi_held (payload @ [b]) start (fst (parse_byte p b))"
proof (cases "is_c0 b")
  case True
  with assms show ?thesis
    by (simp add: csi_held_def strip_c0_append) (simp add: strip_c0_def)
next
  case False
  let ?q = "fst (parse parser_new (strip_c0 (drop start payload)))"
  have "same_parser (fst (parse_byte ?q b)) (fst (parse_byte p b))" "snd (parse_byte ?q b) = snd (parse_byte p b)"
    using assms(1) same_byte [of ?q p b] by (simp_all add: csi_held_def same_result_def)
  with False assms(1,4) show ?thesis
    by (simp add: csi_held_def strip_c0_append)
       (simp add: strip_c0_def parse_append_fst parse_single acted_append acted_Cons)
qed

lemma held_no_utf8:
  assumes "csi_held payload start p" "ps_state p \<in> {CsiEntry, CsiParam}"
  shows "ps_utf8_buffer p = []"
proof -
  define q where "q = fst (parse parser_new (strip_c0 (drop start payload)))"
  have "parser_ok q"
    by (simp add: q_def parser_ok_parse)
  have same: "ps_state q = ps_state p" "ps_utf8_buffer q = ps_utf8_buffer p"
    using assms(1) by (simp_all add: csi_held_def same_parser_def q_def)
  then have "ps_state q \<noteq> Ground"
    using assms(2) by auto
  with no_pending [OF \<open>parser_ok q\<close>] same show ?thesis
    by simp
qed

lemma csi_follows:
  assumes "ps_state p = CsiEntry \<and> tl_state t = TCsiEntry \<or> ps_state p = CsiParam \<and> tl_state t = TCsiParam"
    "csi_held payload (tl_csi_start t) p"
  shows "tail_follows (payload @ [b]) (tail_step b (length payload) t) (fst (parse_byte p b))"
proof -
  have state: "ps_state p \<in> {CsiEntry, CsiParam}"
    using assms(1) by blast
  note buf = held_no_utf8 [OF assms(2) state]
  have c0: "is_c0 b \<Longrightarrow> fst (parse_byte p b) = p"
    using csi_classes(2) [of b] state by (auto simp: is_c0_def parse_byte_def csi_entry_def csi_param_def)
  have "filter acts_on (snd (parse_byte p b)) = []" if "\<not> in_range 0x40 0x7E b"
    using state that by (auto simp: parse_byte_def csi_entry_def csi_param_def acts_on_def)
  note held = csi_held_step [OF assms(2) state c0 this]
  have parse: "ps_state p = CsiEntry \<Longrightarrow> parse_byte p d = csi_entry p d" "ps_state p = CsiParam \<Longrightarrow> parse_byte p d = csi_param p d" for d
    by (simp_all add: parse_byte_def)
  show ?thesis
  proof (cases b rule: csi_byte_cases)
    case esc
    with assms(1) buf csi_classes(1) [OF esc] show ?thesis
      by (auto simp: tail_step_def tail_follows_def is_c0_def parse csi_entry_def csi_param_def)
  next
    case c0
    with assms(1) held csi_classes(2) [OF c0] show ?thesis
      by (auto simp: tail_step_def tail_follows_def is_c0_def parse csi_entry_def csi_param_def)
  next
    case final
    have "ps_utf8_buffer (fst (dispatch_csi p b)) = []"
      using buf by (simp add: dispatch_csi_def Let_def split: prod.split)
    with final assms(1) csi_classes(3) [OF final] show ?thesis
      by (auto simp: tail_step_def tail_follows_def is_c0_def parse csi_entry_def csi_param_def)
  next
    case digit
    with assms(1) held csi_classes(4) [OF digit] show ?thesis
      by (auto simp: tail_step_def tail_follows_def is_c0_def parse csi_entry_def csi_param_def)
  next
    case separator
    with assms(1) held csi_classes(5) [OF separator] show ?thesis
      by (auto simp: tail_step_def tail_follows_def is_c0_def parse csi_entry_def csi_param_def)
  next
    case marker
    with assms(1) held buf csi_classes(6) [OF marker] show ?thesis
      by (auto simp: tail_step_def tail_follows_def is_c0_def parse csi_entry_def csi_param_def)
  next
    case intermediate
    with assms(1) held buf csi_classes(7) [OF intermediate] show ?thesis
      by (auto simp: tail_step_def tail_follows_def is_c0_def parse csi_entry_def csi_param_def)
  next
    case invalid
    with assms(1) held buf csi_classes(8) [OF invalid] show ?thesis
      by (auto simp: tail_step_def tail_follows_def is_c0_def parse csi_entry_def csi_param_def)
  qed
qed


lemma tail_step_follows:
  assumes "tail_follows payload t p"
  shows "tail_follows (payload @ [b]) (tail_step b (length payload) t) (fst (parse_byte p b))"
proof (cases "tl_state t")
  case TGround
  with assms ground_follows [of p payload b t] show ?thesis
    by (simp add: tail_follows_def [of payload] tail_step_def parse_byte_def ground_def)
next
  case (TUtf8 start n need)
  with assms utf8_follows [of p start payload n need t b] show ?thesis
    by (simp add: tail_follows_def [of payload] parse_byte_def)
next
  case TEscape
  with assms escape_follows [of p payload t b] show ?thesis
    by (simp add: tail_follows_def [of payload] tail_step_def parse_byte_def)
next
  case TDesignator
  with assms show ?thesis
    by (simp add: tail_follows_def tail_step_def parse_byte_def escape_charset_def)
next
  case TCsiEntry
  with assms csi_follows [of p t payload b] show ?thesis
    by (simp add: tail_follows_def [of payload])
next
  case TCsiParam
  with assms csi_follows [of p t payload b] show ?thesis
    by (simp add: tail_follows_def [of payload])
next
  case TOsc
  with assms show ?thesis
    by (simp add: tail_follows_def tail_step_def parse_byte_def osc_string_def dispatch_osc_def count_osc_byte_def Let_def)
next
  case TApc
  with assms show ?thesis
    by (simp add: tail_follows_def tail_step_def parse_byte_def apc_string_def)
next
  case TDcs
  with assms show ?thesis
    by (simp add: tail_follows_def tail_step_def parse_byte_def dcs_string_def)
next
  case TOscEscape
  with assms string_escape_follows [of p payload b t] show ?thesis
    by (simp add: tail_follows_def [of payload] tail_step_def)
next
  case TApcEscape
  with assms string_escape_follows [of p payload b t] show ?thesis
    by (simp add: tail_follows_def [of payload] tail_step_def)
next
  case TDcsEscape
  with assms string_escape_follows [of p payload b t] show ?thesis
    by (simp add: tail_follows_def [of payload] tail_step_def)
qed

lemma tail_loop_follows:
  "tail_follows seen t p \<Longrightarrow> tail_follows (seen @ bs) (tail_loop (length seen) t bs) (fst (parse p bs))"
proof (induction bs arbitrary: seen t p)
  case (Cons b bs)
  from Cons.IH [OF tail_step_follows [OF Cons.prems, of b]] show ?case
    by (simp add: parse_Cons split_def Let_def)
qed simp

lemma incomplete_csi_loop_strip:
  "incomplete_csi_loop out bs =
     (if length (strip_c0 bs) = 0 \<or> length out + length (strip_c0 bs) \<le> MAX_CONSTRUCT_LEN
      then Some (IncompleteCsi (out @ strip_c0 bs)) else None)"
  by (induction bs arbitrary: out) (auto simp: strip_c0_def not_le Suc_le_eq)

lemma csi_construct:
  assumes "csi_held payload start p"
  shows "case incomplete_csi payload start of
      Some c \<Rightarrow> same_parser (fst (parse parser_new (construct_bytes c))) p
    | None \<Rightarrow> MAX_CONSTRUCT_LEN < length (strip_c0 (drop start payload))"
  using assms by (auto simp: csi_held_def incomplete_csi_def incomplete_csi_loop_strip)

text \<open>A lead byte and fewer continuation bytes than it announces are held.\<close>

lemma parse_partial:
  assumes "expected_len b = Some n" "list_all is_cont cs" "length cs + 1 < n"
  shows "fst (parse parser_new (b # cs)) = parser_new\<lparr>ps_utf8_buffer := b # cs\<rparr>"
proof -
  have first: "parse_byte parser_new b = (parser_new\<lparr>ps_utf8_buffer := [b]\<rparr>, [])"
    using assms(1) by (simp add: parse_byte_def parser_new_def ground_def ground_match_def expected_len_def u8_unat split: if_splits)
  have "fst (parse (parser_new\<lparr>ps_utf8_buffer := b # ds\<rparr>) cs) = parser_new\<lparr>ps_utf8_buffer := b # ds @ cs\<rparr>"
    if "list_all is_cont cs" "length ds + length cs + 1 < n" for ds
    using that
  proof (induction cs arbitrary: ds)
    case (Cons c cs)
    then have "parse_byte (parser_new\<lparr>ps_utf8_buffer := b # ds\<rparr>) c = (parser_new\<lparr>ps_utf8_buffer := b # ds @ [c]\<rparr>, [])"
      using assms(1) by (simp add: parse_byte_def parser_new_def ground_def handle_utf8_byte_def is_cont_def Let_def)
    with Cons.IH [of "ds @ [c]"] Cons.prems show ?case
      by (simp add: parse_Cons)
  qed simp
  from this [of "[]"] first assms(2,3) show ?thesis
    by (simp add: parse_Cons split_def Let_def)
qed

lemma held_construct:
  assumes p: "p = fst (parse parser_new payload)"
  shows  "case trailing_construct payload of
     Some c \<Rightarrow> same_parser (fst (parse parser_new (construct_bytes c))) p
   | None \<Rightarrow>
       ps_utf8_buffer p = [] \<and> \<not> awaits_designator p
       \<and> (ps_state p \<notin> {CsiEntry, CsiParam}
          \<or> (\<exists>start. csi_held payload start p
              \<and> MAX_CONSTRUCT_LEN < length (strip_c0 (drop start payload))))"
proof -
  define t where "t = tail_loop 0 tail_start payload"
  have "tail_follows [] tail_start parser_new"
    by (simp add: tail_follows_def tail_start_def parser_new_def)
  from tail_loop_follows [OF this, of payload] have follows: "tail_follows payload t p"
    by (simp add: t_def p)
  have ok: "parser_ok p"
    by (simp add: p parser_ok_parse)
  have result: "trailing_construct payload = (case tl_state t of
        TUtf8 start _ _ \<Rightarrow> if start \<le> length payload then Some (Utf8Partial (drop start payload)) else None
      | TDesignator designator \<Rightarrow> Some (AwaitingDesignator [0x1B, designator])
      | TCsiEntry \<Rightarrow> incomplete_csi payload (tl_csi_start t)
      | TCsiParam \<Rightarrow> incomplete_csi payload (tl_csi_start t)
      | _ \<Rightarrow> None)"
    by (simp only: trailing_construct_def t_def [symmetric] Let_def)
  consider (utf8) start n need where "tl_state t = TUtf8 start n need" | (designator) d where "tl_state t = TDesignator d"
    | (csi) "tl_state t = TCsiEntry \<or> tl_state t = TCsiParam" | (none) "ps_utf8_buffer p = []" "ps_state p \<notin> {CsiEntry, CsiParam}"
        "\<not> awaits_designator p" "trailing_construct payload = None"
    using follows unfolding result by (cases "tl_state t") (auto simp: tail_follows_def awaits_designator_def)
  then show ?thesis
  proof cases
    case utf8
    with follows have held: "ps_state p = Ground" "ps_utf8_buffer p = drop start payload" "start < length payload"
        "expected_len (payload ! start) = Some need" "length payload - start < need"
      by (simp_all add: tail_follows_def)
    have split: "drop start payload = payload ! start # drop (Suc start) payload"
      using held(3) by (simp add: Cons_nth_drop_Suc)
    have "list_all is_cont (drop (Suc start) payload)"
      using ok held(1,2) split by (simp add: parser_ok_def utf8_pending_ok_def incomplete_def)
    with parse_partial [OF held(4), of "drop (Suc start) payload"] held(5) split
    have "fst (parse parser_new (drop start payload)) = parser_new\<lparr>ps_utf8_buffer := drop start payload\<rparr>"
      using held(3) by simp
    with utf8 held show ?thesis
      by (simp add: result same_parser_def parser_new_def)
  next
    case designator
    with follows have "ps_state p = EscapeCharset d" "ps_utf8_buffer p = []" "d = 0x28 \<or> d = 0x29"
      by (simp_all add: tail_follows_def)
    with designator show ?thesis
      by (auto simp: result same_parser_def parse_Cons parse_byte_def parser_new_def ground_def ground_match_def escape_def)
  next
    case csi
    with follows have held: "csi_held payload (tl_csi_start t) p" and state: "ps_state p \<in> {CsiEntry, CsiParam}"
      by (auto simp: tail_follows_def)
    show ?thesis
      using csi csi_construct [OF held] held held_no_utf8 [OF held state] state
      by (auto simp: result awaits_designator_def split: option.split)
  next
    case none
    then show ?thesis by simp
  qed
qed

text \<open>C39. The construct a payload is said to end in is the one the client's parser holds after
  reading it from the start: a fresh parser given just the bytes of the construct cannot be told
  apart from it, so that every continuation dispatches the same.  No construct is reported when the
  parser holds no unfinished character and awaits no designator, and is in no control sequence, or
  in one with more than \<open>MAX_CONSTRUCT_LEN\<close> bytes besides controls.\<close>

theorem trailing_construct_is_held:
  "case trailing_construct payload of
     Some c \<Rightarrow> same_parser (fst (parse parser_new (construct_bytes c))) (fst (parse parser_new payload))
   | None \<Rightarrow>
       ps_utf8_buffer (fst (parse parser_new payload)) = [] \<and> \<not> awaits_designator (fst (parse parser_new payload))
       \<and> (ps_state (fst (parse parser_new payload)) \<notin> {CsiEntry, CsiParam}
          \<or> (\<exists>start. csi_held payload start (fst (parse parser_new payload))
              \<and> MAX_CONSTRUCT_LEN < length (strip_c0 (drop start payload))))"
  by (rule held_construct [OF refl])


section \<open>A client that already holds the tail\<close>

lemma construct_acts:
  assumes "trailing_construct payload = Some c"
  shows "acted parser_new (construct_bytes c) = []"
proof -
  define t where "t = tail_loop 0 tail_start payload"
  have "tail_follows [] tail_start parser_new"
    by (simp add: tail_follows_def tail_start_def parser_new_def)
  from tail_loop_follows [OF this, of payload]
  have follows: "tail_follows payload t (fst (parse parser_new payload))"
    by (simp add: t_def)
  note result = assms [unfolded trailing_construct_def t_def [symmetric] Let_def]
  have quiet: "acted parser_new (construct_bytes c) = []"
    if "csi_held payload start p" "incomplete_csi payload start = Some c" for start p
    using that by (auto simp: csi_held_def incomplete_csi_def incomplete_csi_loop_strip split: if_splits)
  show ?thesis
  proof (cases "tl_state t")
    case (TUtf8 start n need)
    have state: "ps_state (fst (parse parser_new payload)) = Ground"
      using follows TUtf8 by (simp add: tail_follows_def)
    have "incomplete (ps_utf8_buffer (fst (parse parser_new payload)))" "ps_utf8_buffer (fst (parse parser_new payload)) = drop start payload"
      using follows TUtf8 parser_ok_parse [OF parser_new_ok, of payload]
      by (simp_all add: tail_follows_def parser_ok_def utf8_pending_ok_def)
    then have "0x1B \<notin> set (drop start payload)"
      by (cases "drop start payload") (auto simp: incomplete_def expected_len_def is_cont_def in_range_unat list_all_iff split: if_splits)
    then have "acted parser_new (drop start payload) = []"
      by (intro acted_still still_ground tracks_new) (simp_all add: parser_new_def)
    with result TUtf8 show ?thesis
      by (auto split: if_splits)
  next
    case (TDesignator d)
    with result show ?thesis
      by (auto simp: acted_Cons parse_byte_def parser_new_def ground_def ground_match_def escape_def acts_on_def)
  next
    case TCsiEntry
    with result follows quiet show ?thesis
      by (auto simp: tail_follows_def)
  next
    case TCsiParam
    with result follows quiet show ?thesis
      by (auto simp: tail_follows_def)
  qed (use result in simp_all)
qed

lemma construct_awaits:
  assumes "trailing_construct payload = Some c"
  shows "is_awaiting_designator (construct_bytes c) \<longleftrightarrow> awaits_designator (fst (parse parser_new payload))"
proof -
  have same: "same_parser (fst (parse parser_new (construct_bytes c))) (fst (parse parser_new payload))"
    using held_construct [OF refl, of payload] assms by simp
  then have iff: "awaits_designator (fst (parse parser_new payload)) \<longleftrightarrow> awaits_designator (fst (parse parser_new (construct_bytes c)))"
    by (simp add: awaits_designator_def same_parser_def)
  have awaiting: "awaits_designator (fst (parse parser_new [0x1B, 0x28]))" "awaits_designator (fst (parse parser_new [0x1B, 0x29]))"
    by (simp_all add: awaits_designator_def parse_Cons parse_byte_def parser_new_def ground_def ground_match_def escape_def)
  show ?thesis
  proof
    assume "is_awaiting_designator (construct_bytes c)"
    with awaiting iff show "awaits_designator (fst (parse parser_new payload))"
      by (auto simp: is_awaiting_designator_def)
  next
    define t where "t = tail_loop 0 tail_start payload"
    have "tail_follows [] tail_start parser_new"
      by (simp add: tail_follows_def tail_start_def parser_new_def)
    from tail_loop_follows [OF this, of payload]
    have follows: "tail_follows payload t (fst (parse parser_new payload))"
      by (simp add: t_def)
    assume "awaits_designator (fst (parse parser_new payload))"
    with follows obtain d where "tl_state t = TDesignator d" "d = 0x28 \<or> d = 0x29"
      by (auto simp: tail_follows_def awaits_designator_def split: tail_state.splits)
    with assms show "is_awaiting_designator (construct_bytes c)"
      by (auto simp: trailing_construct_def t_def [symmetric] Let_def is_awaiting_designator_def)
  qed
qed

lemma carried_tail:
  assumes faith: "list_all (item_faithful q view) its" and items: "items = concat (map (item_bytes view) its)"
    and construct: "trailing_construct payload = Some c" and p: "p = fst (parse parser_new payload)"
  shows "acted p (carried_tail_output items (construct_bytes c)) = acted parser_new items
    \<and> same_parser (fst (parse p (carried_tail_output items (construct_bytes c)))) p"
proof (cases "items = []")
  case True
  then show ?thesis
    by (simp add: carried_tail_output_def)
next
  case False
  then have some: "its \<noteq> []"
    using items by auto
  define filler where "filler = (if is_awaiting_designator (construct_bytes c) then [FILLER_DESIGNATOR] else [])"
  define p1 where "p1 = fst (parse p filler)"
  define p2 where "p2 = fst (parse p1 items)"
  have out: "carried_tail_output items (construct_bytes c) = filler @ items @ construct_bytes c"
    using False by (simp add: carried_tail_output_def filler_def)
  have ok: "parser_ok p1"
    by (simp add: p1_def p parser_ok_parse)
  have filled: "\<not> awaits_designator p1 \<and> acted p filler = []"
    using construct_awaits [OF construct] p
    by (auto simp: p1_def filler_def awaits_designator_def parse_Cons acted_Cons parse_byte_def escape_charset_def acts_on_def)
  have acts: "acted p1 items = acted parser_new items" and rest: "same_parser p2 parser_new"
    using items_acted [OF faith ok] items_acted [OF faith parser_new_ok parser_new_ready] filled some
    by (simp_all add: items p2_def)
  have "same_parser (fst (parse p2 (construct_bytes c))) (fst (parse parser_new (construct_bytes c)))"
    by (rule same_parse_fst [OF rest])
  moreover have "same_parser (fst (parse parser_new (construct_bytes c))) p"
    using held_construct [OF p] construct by simp
  ultimately have "same_parser (fst (parse p2 (construct_bytes c))) p"
    by (rule same_parser_trans)
  moreover have "acted p2 (construct_bytes c) = []"
    using acted_same [OF rest] construct_acts [OF construct] by simp
  ultimately show ?thesis
    using acts filled by (simp add: out acted_append parse_append_fst p1_def p2_def)
qed


lemma construct_not_empty: "trailing_construct payload = Some c \<Longrightarrow> construct_bytes c \<noteq> []"
proof
  assume c: "trailing_construct payload = Some c" "construct_bytes c = []"
  define t where "t = tail_loop 0 tail_start payload"
  have "tail_follows [] tail_start parser_new"
    by (simp add: tail_follows_def tail_start_def parser_new_def)
  from tail_loop_follows [OF this, of payload]
  have follows: "tail_follows payload t (fst (parse parser_new payload))"
    by (simp add: t_def)
  have "same_parser parser_new (fst (parse parser_new payload))"
    using held_construct [OF refl, of payload] c by simp
  then have "ps_state (fst (parse parser_new payload)) = Ground" "ps_utf8_buffer (fst (parse parser_new payload)) = []"
    by (simp_all add: same_parser_def parser_new_def)
  with follows have "tl_state t = TGround"
    by (auto simp: tail_follows_def split: tail_state.splits)
  with c(1) show False
    by (simp add: trailing_construct_def t_def [symmetric] Let_def)
qed

text \<open>C38. When the snapshot a client has replayed already leaves its parser in the tail of the
  replacement, the replacement is built so that the client acts on the items and on nothing else,
  and then holds the same unfinished construct as before: its parser cannot be told apart from the
  one it had.  In particular a designator the client awaits is neither taken from the items nor
  printed.\<close>

theorem carried_tail_is_kept:
  assumes "rr_window r = foldl advance_retained_window [] reads"
    and "length (rr_chunk r) + RETAINED_WINDOW_BYTES \<le> MAX_OSC_LEN" "\<not> blind_spot (rr_window r) (rr_chunk r)"
    and "rr_chunk r \<noteq> []" "rr_pending_after r = []" "rr_carried_over_completion r = None"
    and "trailing_construct payload = Some c" "rr_snapshot_trailing_construct r = Some (construct_bytes c)"
    and "pr_tail (prepare_suppressed_replacement r) = construct_bytes c"
    and "p = fst (parse parser_new payload)"
  shows "acted p (build_suppressed_replacement_for r) = acted parser_new (pr_items (prepare_suppressed_replacement r))
    \<and> same_parser (fst (parse p (build_suppressed_replacement_for r))) p"
proof -
  define view where "view = walked_window (rr_window r) @ rr_chunk r"
  define out where "out = scan_suppressed (rr_window r) (rr_chunk r) []"
  note all = scan_items_all [OF assms(1-3) out_def, folded view_def]
  have faith: "list_all (item_faithful (fst (parse parser_new (before_walk reads (rr_window r)))) view) (so_items out)"
    by (intro all(6) faithful_rule all(4)) (simp add: parser_ok_parse)
  have items: "pr_items (prepare_suppressed_replacement r) = concat (map (item_bytes view) (so_items out))"
    using assms(4-6) by (simp add: prepare_suppressed_replacement_def assemble_items_def out_def [symmetric] all(2) o_def Let_def)
  have "pr_tail_omittable (prepare_suppressed_replacement r)"
    using assms(4,5) by (simp add: prepare_suppressed_replacement_def Let_def)
  then have "build_suppressed_replacement_for r
      = carried_tail_output (pr_items (prepare_suppressed_replacement r)) (construct_bytes c)"
    using construct_not_empty [OF assms(7)] assms(8,9)
    by (simp add: build_suppressed_replacement_for_def finalize_suppressed_replacement_def Let_def)
  with carried_tail [OF faith items assms(7,10)] show ?thesis
    by simp
qed

definition designator_request :: replacement_request where
  "designator_request = \<lparr>rr_chunk = cursor_report_request @ [0x1B, 0x28], rr_ring_written_ranges = [], rr_pending_after = [],
     rr_window = [0x41], rr_snapshot_trailing_construct = Some [0x1B, 0x28], rr_carried_over_completion = None\<rparr>"

lemma designator_scan:
  "scan_suppressed [0x41] (cursor_report_request @ [0x1B, 0x28]) [] =
     \<lparr>so_combined = 0x41 # cursor_report_request @ [0x1B, 0x28], so_boundary = 1,
      so_items = [\<lparr>si_kind = CsiQuery, si_start = 1, si_end = 5\<rparr>], so_tail = Some (5, 7), so_tail_strip_c0 = False\<rparr>"
proof -
  have "scan_csi_device_query [0x36, 0x6E, 0x1B, 0x28] = Some (2, [])"
    by (simp add: scan_csi_device_query_def first_param_start_def first_param_feed_def csi_is_device_query_def
        digit32_def sat_defs is_digit_def in_range_unat U32_MAX_def as_u8_def)
  then show ?thesis
    by (simp add: scan_suppressed_def scan_with_reading_count_def derive_prefix_start_def RETAINED_WINDOW_BYTES_def
        first_chunk_byte_may_be_designator_def walk_view_def cursor_report_request_def push_item_def reading_tail_def
        cut_reading_def introduces_charset_def overlaps_excluded_def Let_def)
qed

lemma designator_replacement:
  "prepare_suppressed_replacement designator_request =
     \<lparr>pr_items = cursor_report_request, pr_tail = [0x1B, 0x28], pr_tail_omittable = True\<rparr>"
proof -
  have "item_bytes (0x41 # cursor_report_request @ [0x1B, 0x28]) \<lparr>si_kind = CsiQuery, si_start = 1, si_end = 5\<rparr> = cursor_report_request"
    by (simp add: item_bytes_def item_range_bytes_def cursor_report_request_def strip_c0_def is_c0_def in_range_unat)
  moreover have "take 2 (drop 5 (0x41 # cursor_report_request @ [0x1B, 0x28])) = [0x1B, 0x28]"
    by (simp add: cursor_report_request_def)
  ultimately show ?thesis
    by (simp add: prepare_suppressed_replacement_def designator_request_def designator_scan assemble_items_def Let_def)
qed

lemma designator_payload: "trailing_construct [0x1B, 0x28] = Some (AwaitingDesignator [0x1B, 0x28])"
  by (simp add: trailing_construct_def tail_start_def tail_step_def ground_step_def escape_step_def)

lemma trailing_construct_is_held_witness:
  "same_parser (fst (parse parser_new [0x1B, 0x28])) (fst (parse parser_new [0x41, 0x1B, 0x28]))"
proof -
  have "trailing_construct [0x41, 0x1B, 0x28] = Some (AwaitingDesignator [0x1B, 0x28])"
    by (simp add: trailing_construct_def tail_start_def tail_step_def ground_step_def escape_step_def in_range_unat)
  with trailing_construct_is_held [of "[0x41, 0x1B, 0x28]"] show ?thesis
    by simp
qed

lemma carried_tail_is_kept_witness:
  "acted (fst (parse parser_new [0x1B, 0x28])) (build_suppressed_replacement_for designator_request) = acted parser_new cursor_report_request
   \<and> same_parser (fst (parse (fst (parse parser_new [0x1B, 0x28])) (build_suppressed_replacement_for designator_request)))
       (fst (parse parser_new [0x1B, 0x28]))"
proof -
  have reads: "rr_window designator_request = foldl advance_retained_window [] [[0x41]]"
    by (simp only: retained_window) (simp add: designator_request_def RETAINED_WINDOW_BYTES_def)
  have "\<not> blind_spot (rr_window designator_request) (rr_chunk designator_request)"
    by (simp add: designator_request_def blind_spot_def RETAINED_WINDOW_BYTES_def)
  from carried_tail_is_kept [OF reads _ this _ _ _ designator_payload _ _ refl]
  show ?thesis
    by (simp add: designator_replacement)
       (simp add: designator_request_def cursor_report_request_def RETAINED_WINDOW_BYTES_def MAX_OSC_LEN_def)
qed


section \<open>What the held run excludes\<close>

abbreviation range_bytes :: "u8 list \<Rightarrow> nat \<times> nat \<Rightarrow> u8 list" where
  "range_bytes bs r \<equiv> take (snd r - fst r) (drop (fst r) bs)"

lemma last_n_append_split: "last_n n (xs @ ys) = last_n (n - length ys) xs @ last_n n ys"
  by (cases "n \<le> length ys") (auto simp: last_n_def)

lemma last_n_range:
  assumes "snd r \<le> length bs" "n \<le> snd r - fst r"
  shows "last_n n (range_bytes bs r) = range_bytes bs (snd r - n, snd r)"
proof -
  have "length (range_bytes bs r) = snd r - fst r"
    using assms(1) by (auto simp: min_def)
  moreover have "drop (snd r - fst r - n) (range_bytes bs r) = take n (drop (snd r - n) bs)"
  proof (cases "n = 0")
    case False
    with assms(2) have "snd r - fst r - (snd r - fst r - n) = n" "snd r - fst r - n + fst r = snd r - n"
      by simp_all
    then show ?thesis
      by (simp only: drop_take drop_drop)
  qed (simp add: drop_take)
  ultimately show ?thesis
    using assms by (cases "n = 0") (simp_all add: last_n_def)
qed

lemma excluded_loop_bytes:
  "list_all (\<lambda>r. snd r \<le> length bs) rs \<Longrightarrow>
   concat (map (range_bytes bs) (rev (excluded_loop n pieces rs)))
     = last_n n (concat (map (range_bytes bs) (rev rs))) @ concat (map (range_bytes bs) (rev pieces))"
proof (induction n pieces rs rule: excluded_loop.induct)
  case (2 n pieces r rs)
  define len where "len = snd r - fst r"
  have len: "length (range_bytes bs r) = len"
    using "2.prems" by (auto simp: len_def min_def)
  show ?case
  proof (cases "n = 0")
    case True
    then show ?thesis by (simp add: last_n_def)
  next
    case False
    show ?thesis
    proof (cases "len = 0")
      case True
      with 2 False show ?thesis
        by (simp add: len_def)
    next
      case nonempty: False
      have piece: "last_n n (range_bytes bs r) = range_bytes bs (snd r - min len n, snd r)"
      proof (cases "n \<le> len")
        case True
        with "2.prems" last_n_range [of r bs n] show ?thesis
          by (simp add: len_def min_absorb2)
      next
        case False
        then have "last_n n (range_bytes bs r) = range_bytes bs r"
          using len by (intro last_n_all) simp
        moreover have "snd r - len = fst r"
          using nonempty by (simp add: len_def)
        ultimately show ?thesis
          using False by (simp add: min_absorb1)
      qed
      have "n - len = n - min len n"
        by simp
      with 2(2) [OF False len_def] 2(3) "2.prems" False nonempty piece len show ?thesis
        by (simp add: last_n_append_split len_def [symmetric] Let_def)
    qed
  qed
qed (simp add: last_n_def)

lemma excluded_pieces_bytes:
  assumes "list_all (\<lambda>r. snd r \<le> length bs) ranges"
  shows "concat (map (range_bytes bs) (excluded_pieces ranges n)) = last_n n (concat (map (range_bytes bs) ranges))"
  using excluded_loop_bytes [of bs "rev ranges" n "[]"] assms by (simp add: excluded_pieces_def list_all_rev)

end
